(* ===== verification/Wire.thy ===== *)
theory Wire
  imports Prelude
begin

text \<open>
  The wire primitives of bs-codec.h: big-endian integers, the \<open>Serializer\<close> and the
  \<open>Decoder\<close>. A serializer call appends bytes or throws, so it is a \<open>bytes result\<close>;
  a decoder call consumes a prefix of the remaining bytes (the span \<open>[p, end)\<close>) or throws,
  so it is a function from the remaining bytes to a value and what is left.
\<close>

section \<open>Big-endian integers\<close>

definition read_u16 :: "byte \<Rightarrow> byte \<Rightarrow> u16" where
  "read_u16 p0 p1 = (push_bit 8 (ucast p0) OR ucast p1)"

definition write_u16 :: "u16 \<Rightarrow> bytes" where
  "write_u16 v = [ucast (drop_bit 8 v), ucast (v AND 0xFF)]"

definition read_u32be :: "byte \<Rightarrow> byte \<Rightarrow> byte \<Rightarrow> byte \<Rightarrow> u32" where
  "read_u32be p0 p1 p2 p3 =
     (push_bit 24 (ucast p0) OR push_bit 16 (ucast p1) OR push_bit 8 (ucast p2) OR ucast p3)"

definition write_u32be :: "u32 \<Rightarrow> bytes" where
  "write_u32be v =
     [ucast (drop_bit 24 v), ucast (drop_bit 16 v), ucast (drop_bit 8 v), ucast (v AND 0xFF)]"

lemma length_write_u16 [simp]: "length (write_u16 v) = 2"
  by (simp add: write_u16_def)

lemma length_write_u32be [simp]: "length (write_u32be v) = 4"
  by (simp add: write_u32be_def)

lemma ff_eq_mask: "(0xFF :: 'a::len word) = mask 8"
  by (simp add: mask_eq_exp_minus_1)

lemma read_write_u16 [simp]: "read_u16 (ucast (drop_bit 8 v)) (ucast (v AND 0xFF)) = v"
  unfolding read_u16_def ff_eq_mask
  by (rule bit_word_eqI) (auto simp: bit_simps)

lemma read_write_u32be [simp]:
  "read_u32be (ucast (drop_bit 24 v)) (ucast (drop_bit 16 v)) (ucast (drop_bit 8 v))
     (ucast (v AND 0xFF)) = v"
proof (rule bit_word_eqI)
  fix n assume "n < LENGTH(32)"
  then consider "n < 8" | "8 \<le> n" "n < 16" | "16 \<le> n" "n < 24" | "24 \<le> n" "n < 32"
    by fastforce
  then show "bit (read_u32be (ucast (drop_bit 24 v)) (ucast (drop_bit 16 v))
       (ucast (drop_bit 8 v)) (ucast (v AND 0xFF))) n \<longleftrightarrow> bit v n"
    by cases (auto simp: read_u32be_def ff_eq_mask bit_simps)
qed

lemma byte_bit_high [simp]: "8 \<le> n \<Longrightarrow> \<not> bit (b :: byte) n"
  by (auto dest: bit_imp_le_length)

lemma write_read_u16: "write_u16 (read_u16 a b) = [a, b]"
  unfolding write_u16_def read_u16_def ff_eq_mask
  by (auto intro!: bit_word_eqI simp: bit_simps)

lemma write_read_u32be: "write_u32be (read_u32be a b c d) = [a, b, c, d]"
  unfolding write_u32be_def read_u32be_def ff_eq_mask
  by (auto intro!: bit_word_eqI simp: bit_simps)

section \<open>Serializer\<close>

text \<open>
  A call that throws ends the serialization: the exception leaves \<open>encode\<close>, so the bytes
  appended so far are lost. \<open>ser_seq\<close> is the sequence of calls in the source's order.
\<close>

definition ser_bytes :: "bytes \<Rightarrow> bytes result" where
  "ser_bytes b = Inr b"

definition ser_u8 :: "byte \<Rightarrow> bytes result" where
  "ser_u8 v = Inr [v]"

definition ser_u16 :: "u16 \<Rightarrow> bytes result" where
  "ser_u16 v = Inr (write_u16 v)"

definition ser_u32be :: "u32 \<Rightarrow> bytes result" where
  "ser_u32be v = Inr (map (\<lambda>i. ucast (drop_bit (i * 8) v)) [3, 2, 1, 0])"

definition ser_u64be :: "u64 \<Rightarrow> bytes result" where
  "ser_u64be v = Inr (map (\<lambda>i. ucast (drop_bit (i * 8) v)) [7, 6, 5, 4, 3, 2, 1, 0])"

definition ser_str :: "string \<Rightarrow> bytes result" where
  "ser_str s = Inr (bytes_of_string s)"

fun ser_seq :: "bytes result list \<Rightarrow> bytes result" where
  "ser_seq [] = Inr []"
| "ser_seq (r # rs) = bindR r (\<lambda>b. bindR (ser_seq rs) (\<lambda>bs. Inr (b @ bs)))"

definition ser_str_prefixed :: "string \<Rightarrow> bytes result" where
  "ser_str_prefixed s =
     (if length s > 255 then Inl ''prefixed string exceeds 255 bytes''
      else ser_seq [ser_u8 (word_of_nat (length s)), ser_str s])"

definition ser_str_prefixed_u16 :: "string \<Rightarrow> bytes result" where
  "ser_str_prefixed_u16 s =
     (if length s > 65535 then Inl ''prefixed string exceeds 65535 bytes''
      else ser_seq [ser_u16 (word_of_nat (length s)), ser_str s])"

section \<open>Decoder\<close>

type_synonym 'a dec = "bytes \<Rightarrow> ('a \<times> bytes) result"

definition retD :: "'a \<Rightarrow> 'a dec" where
  "retD x = (\<lambda>p. Inr (x, p))"

definition throwD :: "string \<Rightarrow> 'a dec" where
  "throwD e = (\<lambda>p. Inl e)"

definition bindD :: "'a dec \<Rightarrow> ('a \<Rightarrow> 'b dec) \<Rightarrow> 'b dec" where
  "bindD d f = (\<lambda>p. bindR (d p) (\<lambda>(x, q). f x q))"

text \<open>\<open>Decoder::ok(need)\<close> and \<open>Decoder::ensure(need)\<close>.\<close>

definition dec_ok :: "nat \<Rightarrow> bytes \<Rightarrow> bool" where
  "dec_ok need p \<longleftrightarrow> need \<le> length p"

definition dec_ensure :: "nat \<Rightarrow> unit dec" where
  "dec_ensure need = (\<lambda>p. if dec_ok need p then Inr ((), p) else Inl ''frame truncated'')"

definition dec_u8 :: "byte dec" where
  "dec_u8 = bindD (dec_ensure 1) (\<lambda>_ p. Inr (p ! 0, drop 1 p))"

definition dec_u16 :: "u16 dec" where
  "dec_u16 = bindD (dec_ensure 2) (\<lambda>_ p. Inr (read_u16 (p ! 0) (p ! 1), drop 2 p))"

definition dec_u32be :: "u32 dec" where
  "dec_u32be = bindD (dec_ensure 4)
     (\<lambda>_ p. Inr (read_u32be (p ! 0) (p ! 1) (p ! 2) (p ! 3), drop 4 p))"

definition dec_u64be :: "u64 dec" where
  "dec_u64be = bindD (dec_ensure 8)
     (\<lambda>_ p. Inr (foldl (\<lambda>v i. push_bit 8 v OR ucast (p ! i)) 0 [0, 1, 2, 3, 4, 5, 6, 7],
                 drop 8 p))"

definition dec_bytes_size :: "nat \<Rightarrow> bytes dec" where
  "dec_bytes_size n =
     (if n = 0 then retD []
      else bindD (dec_ensure n) (\<lambda>_ p. Inr (take n p, drop n p)))"

definition dec_str_size :: "nat \<Rightarrow> string dec" where
  "dec_str_size n =
     (if n = 0 then retD []
      else bindD (dec_ensure n) (\<lambda>_ p. Inr (string_of_bytes (take n p), drop n p)))"

definition dec_str_prefixed :: "string dec" where
  "dec_str_prefixed = bindD dec_u8 (\<lambda>n. dec_str_size (unat n))"

definition dec_str_prefixed_u16 :: "string dec" where
  "dec_str_prefixed_u16 = bindD dec_u16 (\<lambda>n. dec_str_size (unat n))"

text \<open>\<open>d.str_size(d.end - d.p)\<close> and \<open>d.bytes_size(d.end - d.p)\<close>: the rest of the payload.\<close>

definition dec_rest_str :: "string dec" where
  "dec_rest_str = (\<lambda>p. dec_str_size (length p) p)"

definition dec_rest_bytes :: "bytes dec" where
  "dec_rest_bytes = (\<lambda>p. dec_bytes_size (length p) p)"

text \<open>\<open>d.ok(n) ? d.field() : default\<close>, the optional trailing fields of newer versions.\<close>

definition dec_opt :: "nat \<Rightarrow> 'a \<Rightarrow> 'a dec \<Rightarrow> 'a dec" where
  "dec_opt need dflt d = (\<lambda>p. if dec_ok need p then d p else Inr (dflt, p))"

text \<open>\<open>while (d.ok(1)) items.push_back(item())\<close>, with the number of bytes as the fuel:
  an item that consumes nothing would not end, and none does.\<close>

fun dec_many :: "nat \<Rightarrow> 'a dec \<Rightarrow> 'a list dec" where
  "dec_many 0 d = (\<lambda>p. if dec_ok 1 p then Inl ''no progress'' else Inr ([], p))"
| "dec_many (Suc n) d =
     (\<lambda>p. if dec_ok 1 p then bindD d (\<lambda>x. bindD (dec_many n d) (\<lambda>xs. retD (x # xs))) p
          else Inr ([], p))"

definition dec_while_ok :: "'a dec \<Rightarrow> 'a list dec" where
  "dec_while_ok d = (\<lambda>p. dec_many (length p) d p)"


section \<open>Laws of the primitives\<close>

lemma bindD_apply [wire_simps]: "bindD d f p = bindR (d p) (\<lambda>(x, q). f x q)"
  by (simp add: bindD_def)

lemma retD_apply [wire_simps]: "retD x p = Inr (x, p)"
  by (simp add: retD_def)

lemma ser_prims [wire_simps]:
  "ser_bytes b = Inr b"
  "ser_u8 v = Inr [v]"
  "ser_u16 w = Inr (write_u16 w)"
  "ser_str s = Inr (bytes_of_string s)"
  by (simp_all add: ser_bytes_def ser_u8_def ser_u16_def ser_str_def)

lemma ser_u32be_eq [wire_simps]: "ser_u32be v = Inr (write_u32be v)"
  unfolding ser_u32be_def write_u32be_def ff_eq_mask
  by (auto intro!: bit_word_eqI simp: bit_simps)

definition be64 :: "u64 \<Rightarrow> bytes" where
  "be64 v = map (\<lambda>i. ucast (drop_bit (i * 8) v)) [7, 6, 5, 4, 3, 2, 1, 0]"

lemma ser_u64be_eq [wire_simps]: "ser_u64be v = Inr (be64 v)"
  by (simp add: ser_u64be_def be64_def)

lemma length_be64 [simp]: "length (be64 v) = 8"
  by (simp add: be64_def)

lemma ser_seq_Cons_Inr [wire_simps]:
  "ser_seq (r # rs) = Inr b \<longleftrightarrow> (\<exists>x y. r = Inr x \<and> ser_seq rs = Inr y \<and> b = x @ y)"
  by (auto simp: bindR_eq_Inr)

lemma ser_seq_Nil_Inr [wire_simps]: "ser_seq [] = Inr b \<longleftrightarrow> b = []"
  by auto

lemma ser_str_prefixed_Inr [wire_simps]:
  "ser_str_prefixed s = Inr b \<longleftrightarrow>
     length s \<le> 255 \<and> b = word_of_nat (length s) # bytes_of_string s"
  by (auto simp: ser_str_prefixed_def ser_u8_def ser_str_def)

lemma ser_str_prefixed_u16_Inr [wire_simps]:
  "ser_str_prefixed_u16 s = Inr b \<longleftrightarrow>
     length s \<le> 65535 \<and> b = write_u16 (word_of_nat (length s)) @ bytes_of_string s"
  by (auto simp: ser_str_prefixed_u16_def ser_u16_def ser_str_def)

lemma dec_u8_Cons [wire_simps]: "dec_u8 (b # r) = Inr (b, r)"
  by (simp add: dec_u8_def bindD_def dec_ensure_def dec_ok_def)

lemma dec_u16_write [wire_simps]: "dec_u16 (write_u16 v @ r) = Inr (v, r)"
  by (simp add: dec_u16_def bindD_def dec_ensure_def dec_ok_def write_u16_def)

lemma dec_u32be_write [wire_simps]: "dec_u32be (write_u32be v @ r) = Inr (v, r)"
  by (simp add: dec_u32be_def bindD_def dec_ensure_def dec_ok_def write_u32be_def
      numeral_3_eq_3)

lemma shift_in_byte:
  "push_bit 8 (drop_bit (8 + k) (v :: u64)) OR ucast (ucast (drop_bit k v) :: byte) = drop_bit k v"
proof (rule bit_word_eqI)
  fix n assume "n < LENGTH(64)"
  show "bit (push_bit 8 (drop_bit (8 + k) v) OR ucast (ucast (drop_bit k v) :: byte)) n
      \<longleftrightarrow> bit (drop_bit k v) n"
  proof (cases "n < 8")
    case True
    then show ?thesis by (simp add: bit_simps)
  next
    case False
    then obtain m where "n = 8 + m" by (metis le_Suc_ex not_less)
    with \<open>n < LENGTH(64)\<close> show ?thesis by (auto simp: bit_simps ac_simps)
  qed
qed

lemma fold_be64:
  "foldl (\<lambda>w i. push_bit 8 w OR ucast ((be64 v @ r) ! i)) 0 [0, 1, 2, 3, 4, 5, 6, 7] = v"
proof -
  have top: "ucast (ucast (drop_bit 56 v) :: byte) = drop_bit 56 v"
    by (rule bit_word_eqI) (auto simp: bit_simps dest: bit_imp_le_length)
  show ?thesis
    using shift_in_byte [of 48 v] shift_in_byte [of 40 v] shift_in_byte [of 32 v]
      shift_in_byte [of 24 v] shift_in_byte [of 16 v] shift_in_byte [of 8 v]
      shift_in_byte [of 0 v]
    by (simp add: be64_def top numeral_2_eq_2)
qed

lemma dec_u64be_write [wire_simps]: "dec_u64be (be64 v @ r) = Inr (v, r)"
  unfolding dec_u64be_def bindD_def dec_ensure_def dec_ok_def
  using fold_be64 [of v r] by simp

lemma dec_str_size_bytes [wire_simps]:
  "n = length s \<Longrightarrow> dec_str_size n (bytes_of_string s @ r) = Inr (s, r)"
  by (auto simp: dec_str_size_def retD_def bindD_def dec_ensure_def dec_ok_def)

lemma dec_bytes_size_append [wire_simps]:
  "n = length b \<Longrightarrow> dec_bytes_size n (b @ r) = Inr (b, r)"
  by (auto simp: dec_bytes_size_def retD_def bindD_def dec_ensure_def dec_ok_def)

lemma unat_length_u8 [simp]: "n \<le> 255 \<Longrightarrow> unat (word_of_nat n :: byte) = n"
  by (simp add: unat_of_nat take_bit_nat_eq_self_iff)

lemma unat_length_u16 [simp]: "n \<le> 65535 \<Longrightarrow> unat (word_of_nat n :: u16) = n"
  by (simp add: unat_of_nat take_bit_nat_eq_self_iff)

lemma unat_length_u32 [simp]: "n \<le> 4294967295 \<Longrightarrow> unat (word_of_nat n :: u32) = n"
  by (simp add: unat_of_nat take_bit_nat_eq_self_iff)

lemma dec_str_prefixed_write [wire_simps]:
  "length s \<le> 255 \<Longrightarrow>
   dec_str_prefixed (word_of_nat (length s) # bytes_of_string s @ r) = Inr (s, r)"
  by (simp add: dec_str_prefixed_def wire_simps)

lemma dec_str_prefixed_u16_write [wire_simps]:
  "length s \<le> 65535 \<Longrightarrow>
   dec_str_prefixed_u16 (write_u16 (word_of_nat (length s)) @ bytes_of_string s @ r) = Inr (s, r)"
  by (simp add: dec_str_prefixed_u16_def wire_simps)

lemma dec_rest_str_bytes [wire_simps]: "dec_rest_str (bytes_of_string s) = Inr (s, [])"
  using dec_str_size_bytes [of "length s" s "[]"] by (simp add: dec_rest_str_def)

lemma dec_rest_bytes_all [wire_simps]: "dec_rest_bytes b = Inr (b, [])"
  using dec_bytes_size_append [of "length b" b "[]"] by (simp add: dec_rest_bytes_def)

lemma dec_opt_simps [wire_simps]:
  "need \<le> length p \<Longrightarrow> dec_opt need x d p = d p"
  "length p < need \<Longrightarrow> dec_opt need x d p = Inr (x, p)"
  by (simp_all add: dec_opt_def dec_ok_def)

section \<open>Repeated items\<close>

text \<open>
  The contract of an item that is written and read back: a serialized valid item is read
  as its canonical form and nothing after it is touched, it writes at least one byte, and
  every successful read consumes at least one. Lists of such items, which the protocol
  writes without a count and reads to the end of the payload, round-trip.
\<close>

locale wire_item =
  fixes ser :: "'a \<Rightarrow> bytes result"
    and dec :: "'a dec"
    and canon :: "'a \<Rightarrow> 'a"
  assumes dec_ser: "ser x = Inr b \<Longrightarrow> dec (b @ r) = Inr (canon x, r)"
    and ser_nonempty: "ser x = Inr b \<Longrightarrow> b \<noteq> []"
    and dec_progress: "dec p = Inr (y, q) \<Longrightarrow> length q < length p"
begin

lemma dec_many_ser:
  "ser_seq (map ser xs) = Inr b \<Longrightarrow> length b \<le> n \<Longrightarrow> dec_many n dec b = Inr (map canon xs, [])"
proof (induction xs arbitrary: n b)
  case Nil
  then show ?case by (cases n) (auto simp: dec_ok_def)
next
  case (Cons x xs)
  then obtain b1 b2 where b: "ser x = Inr b1" "ser_seq (map ser xs) = Inr b2" "b = b1 @ b2"
    by (auto simp: bindR_eq_Inr)
  from b(1) have ne: "b1 \<noteq> []" by (rule ser_nonempty)
  with Cons.prems b obtain m where m: "n = Suc m" "length b2 \<le> m"
    by (cases n) (auto simp: neq_Nil_conv)
  from Cons.IH [OF b(2) m(2)] b ne m show ?case
    by (auto simp: bindD_def retD_def dec_ser dec_ok_def neq_Nil_conv)
qed

lemma dec_while_ok_ser:
  "ser_seq (map ser xs) = Inr b \<Longrightarrow> dec_while_ok dec b = Inr (map canon xs, [])"
  by (simp add: dec_while_ok_def dec_many_ser)

lemma dec_many_progress: "length p \<le> n \<Longrightarrow> dec_many n dec p = Inl e \<Longrightarrow> \<exists>q. dec q = Inl e"
proof (induction n arbitrary: p)
  case 0
  then show ?case by (simp add: dec_ok_def)
next
  case (Suc n)
  show ?case
  proof (cases "dec_ok 1 p")
    case False
    with Suc.prems show ?thesis by simp
  next
    case True
    show ?thesis
    proof (cases "dec p")
      case (Inl a)
      with True Suc.prems show ?thesis by (auto simp: bindD_def)
    next
      case (Inr z)
      obtain x q where z: "z = (x, q)" by (cases z)
      with Inr dec_progress have "length q < length p" by blast
      with Suc.prems have "length q \<le> n" by simp
      moreover from True Inr z Suc.prems(2) have "dec_many n dec q = Inl e"
        by (auto simp: bindD_def bindR_eq_Inl retD_def)
      ultimately show ?thesis by (rule Suc.IH)
    qed
  qed
qed

text \<open>The fuel of \<open>dec_while_ok\<close> is enough: it never reports that an item made no progress
  unless the item's own reader does.\<close>

lemma dec_while_ok_error: "dec_while_ok dec p = Inl e \<Longrightarrow> \<exists>q. dec q = Inl e"
  unfolding dec_while_ok_def by (rule dec_many_progress) simp_all

end

end
