(* ===== verification/Messages.thy ===== *)
theory Messages
  imports Wire
begin

text \<open>
  The message structs, the \<open>Message\<close> variant and the type bytes of bs-codec.h. Each
  struct is a record with the source's fields in the source's order, each field name
  preceded by a short name of its struct. Signed integers are kept as the word of their
  two's complement, a \<open>double\<close> as its eight bytes in memory (what \<open>memcpy\<close> copies)
  and an enum read from the wire with \<open>static_cast\<close> as its byte.
\<close>

section \<open>Message types\<close>

datatype MessageType =
    Keystroke | Output | Resize | ClipboardGet | ClipboardPut | Attach | Detach | SessionList
  | ServerInfo | Ping | Pong | Scrollback | Signal | ProcExited | ScrollbackAck | SessionDied
  | ClipboardEcho | ImageData | ImageFrame | ImageAck | Hello | Gossip | SessionSearch
  | SdpOffer | SdpAnswer | DhtFindNode | DhtFindValue | FileMeta | FileChunk | FileAck
  | FileRequest | AttachAck | OutputGap | ConversationAppend | ConversationQuery
  | ConversationBatch | CuaRequest | CuaResponse | JoinRequest | JoinReply | CuaVideoCapture
  | CuaVideoCaptureResult | DirectoryEnroll

fun type_byte :: "MessageType \<Rightarrow> byte" where
  "type_byte Keystroke = 0x01"
| "type_byte Output = 0x02"
| "type_byte Resize = 0x03"
| "type_byte ClipboardGet = 0x04"
| "type_byte ClipboardPut = 0x05"
| "type_byte Attach = 0x06"
| "type_byte Detach = 0x07"
| "type_byte SessionList = 0x08"
| "type_byte ServerInfo = 0x09"
| "type_byte Ping = 0x0A"
| "type_byte Pong = 0x0B"
| "type_byte Scrollback = 0x0C"
| "type_byte Signal = 0x0D"
| "type_byte ProcExited = 0x0E"
| "type_byte ScrollbackAck = 0x0F"
| "type_byte SessionDied = 0x10"
| "type_byte ClipboardEcho = 0x11"
| "type_byte ImageData = 0x12"
| "type_byte ImageFrame = 0x13"
| "type_byte ImageAck = 0x14"
| "type_byte Hello = 0x15"
| "type_byte Gossip = 0x16"
| "type_byte SessionSearch = 0x17"
| "type_byte SdpOffer = 0x18"
| "type_byte SdpAnswer = 0x19"
| "type_byte DhtFindNode = 0x1A"
| "type_byte DhtFindValue = 0x1B"
| "type_byte FileMeta = 0x1C"
| "type_byte FileChunk = 0x1D"
| "type_byte FileAck = 0x1E"
| "type_byte FileRequest = 0x1F"
| "type_byte AttachAck = 0x21"
| "type_byte OutputGap = 0x22"
| "type_byte ConversationAppend = 0x23"
| "type_byte ConversationQuery = 0x24"
| "type_byte ConversationBatch = 0x25"
| "type_byte CuaRequest = 0x26"
| "type_byte CuaResponse = 0x27"
| "type_byte JoinRequest = 0x28"
| "type_byte JoinReply = 0x29"
| "type_byte CuaVideoCapture = 0x2A"
| "type_byte CuaVideoCaptureResult = 0x2B"
| "type_byte DirectoryEnroll = 0x2C"

section \<open>Message structs\<close>

record KeystrokeMsg =
  ks_data :: string

record OutputMsg =
  out_data :: string
  out_render_markdown :: bool

record ResizeMsg =
  rsz_cols :: u16
  rsz_rows :: u16

record ClipboardMsg =
  clip_text :: string
  clip_hash :: string

record ClipboardEchoMsg =
  echo_hash :: string

record ImageDataMsg =
  img_format :: byte
  img_name :: string
  img_data :: bytes

record ImageFrameMsg =
  frm_format :: byte
  frm_delay_ms :: u32
  frm_loop_count :: u32
  frm_data :: bytes

record AttachMsg =
  att_session_name :: string
  att_routing :: string
  att_cols :: u16
  att_rows :: u16
  att_term :: string
  att_command :: string
  att_signal_on_detach :: string
  att_client_instance_id :: u32
  att_spectator :: bool
  att_reconnect_only :: bool

record SessionInfo =
  si_name :: string
  si_state :: string
  si_uptime_seconds :: u64

record SessionListMsg =
  sl_sessions :: "SessionInfo list"

record ServerInfoMsg =
  srv_hostname :: string
  srv_version :: string
  srv_load :: bytes
  srv_sessions_summary_json :: string
  srv_host_stats_json :: string
  srv_latency_json :: string

record ScrollbackMsg =
  sb_data :: string
  sb_total_lines :: u32
  sb_chunk_index :: u32

record SignalMsg =
  sig_signal :: byte
  sig_process :: string

record ExitCodeMsg =
  exit_code :: u32

record SessionDiedMsg =
  died_exit_code :: u32
  died_signal_num :: u32

record AttachAckMsg =
  ack_attach_id :: u32
  ack_session_name :: string
  ack_cols :: u16
  ack_rows :: u16

record OutputGapMsg =
  gap_dropped_bytes :: u64

record ConversationAppendMsg =
  ca_conv_id :: string
  ca_seq :: u64
  ca_ts :: u64
  ca_agent_id :: string
  ca_role :: byte
  ca_body :: string

record ConversationQueryMsg =
  cq_conv_id :: string
  cq_since_seq :: u64

record ConversationBatchMsg =
  cb_conv_id :: string
  cb_messages :: "ConversationAppendMsg list"

record CuaRequestMsg =
  cua_request_id :: u32
  cua_action :: byte
  cua_x :: u16
  cua_y :: u16
  cua_button :: byte
  cua_hid_key :: u32
  cua_modifiers :: byte
  cua_text :: string

record CuaResponseMsg =
  cur_request_id :: u32
  cur_status :: byte
  cur_error :: string
  cur_screen_w :: u32
  cur_screen_h :: u32
  cur_format :: byte
  cur_data :: bytes

record CuaVideoCaptureMsg =
  cvc_request_id :: u32
  cvc_fps :: byte
  cvc_duration_sec :: u16
  cvc_quality :: byte
  cvc_max_width :: u16

record CuaVideoCaptureResultMsg =
  cvr_request_id :: u32
  cvr_status :: byte
  cvr_error :: string
  cvr_file_path :: string
  cvr_duration_sec :: u16
  cvr_width :: u16
  cvr_height :: u16
  cvr_format :: byte

record JoinRequestMsg =
  jr_token :: string
  jr_node_name :: string
  jr_listen_addr :: string

record JoinReplyMsg =
  jp_ok :: bool
  jp_node_name :: string
  jp_seeds_csv :: string
  jp_host_pubkey :: string
  jp_host_addr :: string
  jp_peer_pubkeys_json :: string
  jp_error :: string

record DirectoryEnrollMsg =
  de_name :: string
  de_pubkey_hex :: string
  de_addr :: string
  de_issuer_pubkey :: string
  de_issued_at :: u64
  de_signature :: bytes

record PeerInfo =
  pi_name :: string
  pi_addr :: string
  pi_pubkey_hex :: string
  pi_last_seen :: u64

record HelloMsg =
  hl_node_name :: string
  hl_version :: string
  hl_pubkey_hex :: string
  hl_known_peers :: "PeerInfo list"

record GossipMsg =
  gs_peers :: "PeerInfo list"

record SessionSearchMsg =
  ss_session_name :: string
  ss_routing :: string
  ss_cols :: u16
  ss_rows :: u16
  ss_term :: string

record FileMetaMsg =
  fm_filename :: string
  fm_filesize :: u64
  fm_checksum :: string
  fm_total_chunks :: u32
  fm_chunk_size :: u32
  fm_dest_path :: string
  fm_src_mtime_unix :: u64
  fm_direct :: byte

record FileChunkMsg =
  fc_chunk_index :: u32
  fc_total_chunks :: u32
  fc_data :: bytes

record FileAckMsg =
  fa_chunk_index :: u32
  fa_next_requested :: u32
  fa_error :: bool
  fa_error_msg :: string

record FileRequestMsg =
  fr_path :: string
  fr_mode :: byte

record SdpOfferMsg =
  so_sdp :: string
  so_peer_name :: string

record SdpAnswerMsg =
  sa_sdp :: string
  sa_peer_name :: string

record DhtFindNodeMsg =
  dn_target_id :: bytes
  dn_sender_name :: string

record DhtFindValueMsg =
  dv_key :: bytes
  dv_sender_name :: string

section \<open>The variant\<close>

datatype Message =
    MKeystroke KeystrokeMsg
  | MOutput OutputMsg
  | MResize ResizeMsg
  | MClipboard ClipboardMsg
  | MClipboardEcho ClipboardEchoMsg
  | MAttach AttachMsg
  | MDetach
  | MSessionList SessionListMsg
  | MServerInfo ServerInfoMsg
  | MPing
  | MPong
  | MScrollback ScrollbackMsg
  | MSignal SignalMsg
  | MExitCode ExitCodeMsg
  | MScrollbackAck
  | MSessionDied SessionDiedMsg
  | MImageData ImageDataMsg
  | MImageFrame ImageFrameMsg
  | MImageAck
  | MHello HelloMsg
  | MGossip GossipMsg
  | MSessionSearch SessionSearchMsg
  | MSdpOffer SdpOfferMsg
  | MSdpAnswer SdpAnswerMsg
  | MDhtFindNode DhtFindNodeMsg
  | MDhtFindValue DhtFindValueMsg
  | MFileMeta FileMetaMsg
  | MFileChunk FileChunkMsg
  | MFileAck FileAckMsg
  | MFileRequest FileRequestMsg
  | MAttachAck AttachAckMsg
  | MOutputGap OutputGapMsg
  | MConversationAppend ConversationAppendMsg
  | MConversationQuery ConversationQueryMsg
  | MConversationBatch ConversationBatchMsg
  | MCuaRequest CuaRequestMsg
  | MCuaResponse CuaResponseMsg
  | MJoinRequest JoinRequestMsg
  | MJoinReply JoinReplyMsg
  | MCuaVideoCapture CuaVideoCaptureMsg
  | MCuaVideoCaptureResult CuaVideoCaptureResultMsg
  | MDirectoryEnroll DirectoryEnrollMsg

text \<open>\<open>index_to_type[msg.index()]\<close>. A \<open>ClipboardMsg\<close> always carries the type of
  \<open>ClipboardGet\<close>.\<close>

fun message_type :: "Message \<Rightarrow> MessageType" where
  "message_type (MKeystroke _) = Keystroke"
| "message_type (MOutput _) = Output"
| "message_type (MResize _) = Resize"
| "message_type (MClipboard _) = ClipboardGet"
| "message_type (MClipboardEcho _) = ClipboardEcho"
| "message_type (MAttach _) = Attach"
| "message_type MDetach = Detach"
| "message_type (MSessionList _) = SessionList"
| "message_type (MServerInfo _) = ServerInfo"
| "message_type MPing = Ping"
| "message_type MPong = Pong"
| "message_type (MScrollback _) = Scrollback"
| "message_type (MSignal _) = Signal"
| "message_type (MExitCode _) = ProcExited"
| "message_type MScrollbackAck = ScrollbackAck"
| "message_type (MSessionDied _) = SessionDied"
| "message_type (MImageData _) = ImageData"
| "message_type (MImageFrame _) = ImageFrame"
| "message_type MImageAck = ImageAck"
| "message_type (MHello _) = Hello"
| "message_type (MGossip _) = Gossip"
| "message_type (MSessionSearch _) = SessionSearch"
| "message_type (MSdpOffer _) = SdpOffer"
| "message_type (MSdpAnswer _) = SdpAnswer"
| "message_type (MDhtFindNode _) = DhtFindNode"
| "message_type (MDhtFindValue _) = DhtFindValue"
| "message_type (MFileMeta _) = FileMeta"
| "message_type (MFileChunk _) = FileChunk"
| "message_type (MFileAck _) = FileAck"
| "message_type (MFileRequest _) = FileRequest"
| "message_type (MAttachAck _) = AttachAck"
| "message_type (MOutputGap _) = OutputGap"
| "message_type (MConversationAppend _) = ConversationAppend"
| "message_type (MConversationQuery _) = ConversationQuery"
| "message_type (MConversationBatch _) = ConversationBatch"
| "message_type (MCuaRequest _) = CuaRequest"
| "message_type (MCuaResponse _) = CuaResponse"
| "message_type (MJoinRequest _) = JoinRequest"
| "message_type (MJoinReply _) = JoinReply"
| "message_type (MCuaVideoCapture _) = CuaVideoCapture"
| "message_type (MCuaVideoCaptureResult _) = CuaVideoCaptureResult"
| "message_type (MDirectoryEnroll _) = DirectoryEnroll"

end
