(* ===== verification/Serializer.thy ===== *)
theory Serializer
  imports Messages
begin

text \<open>
  The \<open>serialize_msg\<close> overloads of bs-codec.h, one definition each, in the source's
  order, and the dispatch of \<open>std::visit\<close>. A list of calls is the body of an overload;
  \<open>ser_check\<close> is its \<open>if (...) throw\<close>.
\<close>

definition MAX_IMAGE_BYTES :: nat where
  "MAX_IMAGE_BYTES = 50 * 1024 * 1024"

definition MAX_FRAME_PAYLOAD_U16 :: nat where
  "MAX_FRAME_PAYLOAD_U16 = 65535"

definition MAX_FRAME_PAYLOAD_U32 :: nat where
  "MAX_FRAME_PAYLOAD_U32 = 4 * 1024 * 1024"

definition ser_check :: "bool \<Rightarrow> string \<Rightarrow> bytes result" where
  "ser_check c e = (if c then Inl e else Inr [])"

definition ser_bool :: "bool \<Rightarrow> bytes result" where
  "ser_bool b = ser_u8 (if b then 1 else 0)"

definition ser_when :: "bool \<Rightarrow> bytes result list \<Rightarrow> bytes result" where
  "ser_when c rs = (if c then ser_seq rs else Inr [])"

definition ser_size_u32 :: "bytes \<Rightarrow> bytes result" where
  "ser_size_u32 b = ser_u32be (word_of_nat (length b))"

lemma ser_check_Inr [wire_simps]: "ser_check c e = Inr b \<longleftrightarrow> \<not> c \<and> b = []"
  by (auto simp: ser_check_def)

lemma ser_bool_eq [wire_simps]: "ser_bool c = Inr [if c then 1 else 0]"
  by (simp add: ser_bool_def ser_u8_def)

section \<open>Original messages\<close>

definition ser_KeystrokeMsg :: "KeystrokeMsg \<Rightarrow> bytes result" where
  "ser_KeystrokeMsg m = ser_str (ks_data m)"

definition ser_OutputMsg :: "OutputMsg \<Rightarrow> bytes result" where
  "ser_OutputMsg m = ser_seq [ser_bool (out_render_markdown m), ser_str (out_data m)]"

definition ser_ResizeMsg :: "ResizeMsg \<Rightarrow> bytes result" where
  "ser_ResizeMsg m = ser_seq [ser_u16 (rsz_cols m), ser_u16 (rsz_rows m)]"

definition ser_ClipboardMsg :: "ClipboardMsg \<Rightarrow> bytes result" where
  "ser_ClipboardMsg m =
     ser_seq [ser_str (clip_hash m), ser_u8 (byte_of_char (CHR 0x0A)), ser_str (clip_text m)]"

definition ser_ClipboardEchoMsg :: "ClipboardEchoMsg \<Rightarrow> bytes result" where
  "ser_ClipboardEchoMsg m = ser_str (echo_hash m)"

definition ser_ImageDataMsg :: "ImageDataMsg \<Rightarrow> bytes result" where
  "ser_ImageDataMsg m = ser_seq
     [ser_check (length (img_data m) > MAX_IMAGE_BYTES) ''image payload exceeds 50MB cap'',
      ser_u8 (img_format m), ser_str_prefixed_u16 (img_name m),
      ser_size_u32 (img_data m), ser_bytes (img_data m)]"

definition ser_ImageFrameMsg :: "ImageFrameMsg \<Rightarrow> bytes result" where
  "ser_ImageFrameMsg m = ser_seq
     [ser_check (length (frm_data m) > MAX_IMAGE_BYTES) ''image frame payload exceeds 50MB cap'',
      ser_u8 (frm_format m), ser_u32be (frm_delay_ms m), ser_u32be (frm_loop_count m),
      ser_size_u32 (frm_data m), ser_bytes (frm_data m)]"

definition ser_AttachMsg :: "AttachMsg \<Rightarrow> bytes result" where
  "ser_AttachMsg m = ser_seq
     [ser_u16 (att_cols m), ser_u16 (att_rows m), ser_str_prefixed (att_term m),
      ser_str_prefixed (att_session_name m), ser_str_prefixed (att_routing m),
      ser_str_prefixed_u16 (att_command m), ser_str_prefixed_u16 (att_signal_on_detach m),
      ser_u32be (att_client_instance_id m), ser_bool (att_spectator m),
      ser_bool (att_reconnect_only m)]"

definition ser_SessionInfo :: "SessionInfo \<Rightarrow> bytes result" where
  "ser_SessionInfo si = ser_seq
     [ser_str_prefixed (si_name si), ser_str_prefixed (si_state si),
      ser_u32be (ucast (min (si_uptime_seconds si) 0xFFFFFFFF))]"

definition ser_SessionListMsg :: "SessionListMsg \<Rightarrow> bytes result" where
  "ser_SessionListMsg m = ser_seq (map ser_SessionInfo (sl_sessions m))"

definition ser_ServerInfoMsg :: "ServerInfoMsg \<Rightarrow> bytes result" where
  "ser_ServerInfoMsg m = ser_seq
     [ser_str_prefixed_u16 (srv_hostname m), ser_str_prefixed_u16 (srv_version m),
      ser_bytes (take 8 (srv_load m)), ser_str_prefixed_u16 (srv_sessions_summary_json m),
      ser_when (srv_host_stats_json m \<noteq> []) [ser_str_prefixed_u16 (srv_host_stats_json m)],
      ser_when (srv_latency_json m \<noteq> []) [ser_str_prefixed_u16 (srv_latency_json m)]]"

definition ser_ScrollbackMsg :: "ScrollbackMsg \<Rightarrow> bytes result" where
  "ser_ScrollbackMsg m =
     ser_seq [ser_u32be (sb_total_lines m), ser_u32be (sb_chunk_index m), ser_str (sb_data m)]"

definition ser_SignalMsg :: "SignalMsg \<Rightarrow> bytes result" where
  "ser_SignalMsg m = ser_seq [ser_u8 (sig_signal m), ser_str_prefixed_u16 (sig_process m)]"

definition ser_ExitCodeMsg :: "ExitCodeMsg \<Rightarrow> bytes result" where
  "ser_ExitCodeMsg m = ser_u32be (exit_code m)"

definition ser_SessionDiedMsg :: "SessionDiedMsg \<Rightarrow> bytes result" where
  "ser_SessionDiedMsg m = ser_seq [ser_u32be (died_exit_code m), ser_u32be (died_signal_num m)]"

section \<open>Mesh messages\<close>

definition ser_PeerInfo :: "PeerInfo \<Rightarrow> bytes result" where
  "ser_PeerInfo p = ser_seq
     [ser_str_prefixed (pi_name p), ser_str_prefixed (pi_addr p),
      ser_str_prefixed (pi_pubkey_hex p), ser_u32be (ucast (pi_last_seen p))]"

definition ser_HelloMsg :: "HelloMsg \<Rightarrow> bytes result" where
  "ser_HelloMsg m = ser_seq
     ([ser_str_prefixed (hl_node_name m), ser_str_prefixed (hl_version m),
       ser_str_prefixed (hl_pubkey_hex m)] @ map ser_PeerInfo (hl_known_peers m))"

definition ser_GossipMsg :: "GossipMsg \<Rightarrow> bytes result" where
  "ser_GossipMsg m = ser_seq (map ser_PeerInfo (gs_peers m))"

definition ser_SessionSearchMsg :: "SessionSearchMsg \<Rightarrow> bytes result" where
  "ser_SessionSearchMsg m = ser_seq
     [ser_str_prefixed (ss_session_name m), ser_str_prefixed (ss_routing m),
      ser_u16 (ss_cols m), ser_u16 (ss_rows m), ser_str_prefixed (ss_term m)]"

definition ser_SdpOfferMsg :: "SdpOfferMsg \<Rightarrow> bytes result" where
  "ser_SdpOfferMsg m = ser_seq [ser_str_prefixed (so_peer_name m), ser_str_prefixed_u16 (so_sdp m)]"

definition ser_SdpAnswerMsg :: "SdpAnswerMsg \<Rightarrow> bytes result" where
  "ser_SdpAnswerMsg m = ser_seq [ser_str_prefixed (sa_peer_name m), ser_str_prefixed_u16 (sa_sdp m)]"

text \<open>The identifiers of the DHT messages are \<open>std::array<uint8_t, 32>\<close>.\<close>

definition ser_DhtFindNodeMsg :: "DhtFindNodeMsg \<Rightarrow> bytes result" where
  "ser_DhtFindNodeMsg m =
     ser_seq [ser_bytes (take 32 (dn_target_id m)), ser_str_prefixed (dn_sender_name m)]"

definition ser_DhtFindValueMsg :: "DhtFindValueMsg \<Rightarrow> bytes result" where
  "ser_DhtFindValueMsg m =
     ser_seq [ser_bytes (take 32 (dv_key m)), ser_str_prefixed (dv_sender_name m)]"

section \<open>File transfer messages\<close>

definition ser_FileMetaMsg :: "FileMetaMsg \<Rightarrow> bytes result" where
  "ser_FileMetaMsg m = ser_seq
     [ser_str_prefixed (fm_filename m),
      ser_u32be (ucast (drop_bit 32 (fm_filesize m))),
      ser_u32be (ucast (fm_filesize m AND 0xFFFFFFFF)),
      ser_str_prefixed (fm_checksum m),
      ser_u32be (fm_total_chunks m),
      ser_u32be (fm_chunk_size m),
      ser_when (fm_dest_path m \<noteq> []) [ser_str_prefixed_u16 (fm_dest_path m)],
      ser_when (fm_src_mtime_unix m \<noteq> 0 \<or> fm_direct m \<noteq> 0)
        [ser_when (fm_dest_path m = []) [ser_str_prefixed_u16 []],
         ser_u32be (ucast (drop_bit 32 (fm_src_mtime_unix m))),
         ser_u32be (ucast (fm_src_mtime_unix m AND 0xFFFFFFFF)),
         ser_u8 (fm_direct m)]]"

definition ser_FileChunkMsg :: "FileChunkMsg \<Rightarrow> bytes result" where
  "ser_FileChunkMsg m = ser_seq
     [ser_u32be (fc_chunk_index m), ser_u32be (fc_total_chunks m),
      ser_check (length (fc_data m) > MAX_FRAME_PAYLOAD_U32)
        ''file chunk payload exceeds MAX_FRAME_PAYLOAD_U32'',
      ser_size_u32 (fc_data m), ser_bytes (fc_data m)]"

definition ser_FileRequestMsg :: "FileRequestMsg \<Rightarrow> bytes result" where
  "ser_FileRequestMsg m = ser_seq
     [ser_str_prefixed_u16 (fr_path m), ser_when (fr_mode m \<noteq> 0) [ser_u8 (fr_mode m)]]"

definition ser_FileAckMsg :: "FileAckMsg \<Rightarrow> bytes result" where
  "ser_FileAckMsg m = ser_seq
     [ser_u32be (fa_chunk_index m), ser_u32be (fa_next_requested m),
      ser_bool (fa_error m), ser_str_prefixed_u16 (fa_error_msg m)]"

section \<open>Later messages\<close>

definition ser_AttachAckMsg :: "AttachAckMsg \<Rightarrow> bytes result" where
  "ser_AttachAckMsg m = ser_seq
     [ser_u32be (ack_attach_id m), ser_str_prefixed (ack_session_name m),
      ser_u16 (ack_cols m), ser_u16 (ack_rows m)]"

definition ser_OutputGapMsg :: "OutputGapMsg \<Rightarrow> bytes result" where
  "ser_OutputGapMsg m = ser_u64be (gap_dropped_bytes m)"

definition ser_ConversationAppendMsg :: "ConversationAppendMsg \<Rightarrow> bytes result" where
  "ser_ConversationAppendMsg m = ser_seq
     [ser_str_prefixed (ca_conv_id m), ser_u64be (ca_seq m), ser_u64be (ca_ts m),
      ser_str_prefixed (ca_agent_id m), ser_u8 (ca_role m), ser_str_prefixed_u16 (ca_body m)]"

definition ser_ConversationQueryMsg :: "ConversationQueryMsg \<Rightarrow> bytes result" where
  "ser_ConversationQueryMsg m =
     ser_seq [ser_str_prefixed (cq_conv_id m), ser_u64be (cq_since_seq m)]"

definition ser_ConversationBatchMsg :: "ConversationBatchMsg \<Rightarrow> bytes result" where
  "ser_ConversationBatchMsg m = ser_seq
     (ser_str_prefixed (cb_conv_id m) # map ser_ConversationAppendMsg (cb_messages m))"

definition ser_CuaRequestMsg :: "CuaRequestMsg \<Rightarrow> bytes result" where
  "ser_CuaRequestMsg m = ser_seq
     [ser_u32be (cua_request_id m), ser_u8 (cua_action m),
      ser_u16 (cua_x m), ser_u16 (cua_y m), ser_u8 (cua_button m),
      ser_u32be (cua_hid_key m), ser_u8 (cua_modifiers m), ser_str_prefixed (cua_text m)]"

definition ser_CuaResponseMsg :: "CuaResponseMsg \<Rightarrow> bytes result" where
  "ser_CuaResponseMsg m = ser_seq
     [ser_u32be (cur_request_id m), ser_u8 (cur_status m), ser_str_prefixed (cur_error m),
      ser_u32be (cur_screen_w m), ser_u32be (cur_screen_h m), ser_u8 (cur_format m),
      ser_size_u32 (cur_data m), ser_bytes (cur_data m)]"

definition ser_JoinRequestMsg :: "JoinRequestMsg \<Rightarrow> bytes result" where
  "ser_JoinRequestMsg m = ser_seq
     [ser_str_prefixed (jr_token m), ser_str_prefixed (jr_node_name m),
      ser_str_prefixed (jr_listen_addr m)]"

definition ser_CuaVideoCaptureMsg :: "CuaVideoCaptureMsg \<Rightarrow> bytes result" where
  "ser_CuaVideoCaptureMsg m = ser_seq
     [ser_u32be (cvc_request_id m), ser_u8 (cvc_fps m), ser_u16 (cvc_duration_sec m),
      ser_u8 (cvc_quality m), ser_u16 (cvc_max_width m)]"

definition ser_CuaVideoCaptureResultMsg :: "CuaVideoCaptureResultMsg \<Rightarrow> bytes result" where
  "ser_CuaVideoCaptureResultMsg m = ser_seq
     [ser_u32be (cvr_request_id m), ser_u8 (cvr_status m), ser_str_prefixed (cvr_error m),
      ser_str_prefixed (cvr_file_path m), ser_u16 (cvr_duration_sec m),
      ser_u16 (cvr_width m), ser_u16 (cvr_height m), ser_u8 (cvr_format m)]"

definition ser_JoinReplyMsg :: "JoinReplyMsg \<Rightarrow> bytes result" where
  "ser_JoinReplyMsg m =
     (if jp_ok m then ser_seq
        [ser_u8 1, ser_str_prefixed (jp_node_name m), ser_str_prefixed_u16 (jp_seeds_csv m),
         ser_str_prefixed (jp_host_pubkey m), ser_str_prefixed (jp_host_addr m),
         ser_str_prefixed_u16 (jp_peer_pubkeys_json m)]
      else ser_seq [ser_u8 0, ser_str_prefixed (jp_error m)])"

definition ser_DirectoryEnrollMsg :: "DirectoryEnrollMsg \<Rightarrow> bytes result" where
  "ser_DirectoryEnrollMsg m = ser_seq
     [ser_str_prefixed (de_name m), ser_str_prefixed (de_pubkey_hex m),
      ser_str_prefixed (de_addr m), ser_str_prefixed (de_issuer_pubkey m),
      ser_u64be (de_issued_at m), ser_bytes (de_signature m)]"

section \<open>Dispatch\<close>

fun serialize_msg :: "Message \<Rightarrow> bytes result" where
  "serialize_msg (MKeystroke m) = ser_KeystrokeMsg m"
| "serialize_msg (MOutput m) = ser_OutputMsg m"
| "serialize_msg (MResize m) = ser_ResizeMsg m"
| "serialize_msg (MClipboard m) = ser_ClipboardMsg m"
| "serialize_msg (MClipboardEcho m) = ser_ClipboardEchoMsg m"
| "serialize_msg (MAttach m) = ser_AttachMsg m"
| "serialize_msg MDetach = Inr []"
| "serialize_msg (MSessionList m) = ser_SessionListMsg m"
| "serialize_msg (MServerInfo m) = ser_ServerInfoMsg m"
| "serialize_msg MPing = Inr []"
| "serialize_msg MPong = Inr []"
| "serialize_msg (MScrollback m) = ser_ScrollbackMsg m"
| "serialize_msg (MSignal m) = ser_SignalMsg m"
| "serialize_msg (MExitCode m) = ser_ExitCodeMsg m"
| "serialize_msg MScrollbackAck = Inr []"
| "serialize_msg (MSessionDied m) = ser_SessionDiedMsg m"
| "serialize_msg (MImageData m) = ser_ImageDataMsg m"
| "serialize_msg (MImageFrame m) = ser_ImageFrameMsg m"
| "serialize_msg MImageAck = Inr []"
| "serialize_msg (MHello m) = ser_HelloMsg m"
| "serialize_msg (MGossip m) = ser_GossipMsg m"
| "serialize_msg (MSessionSearch m) = ser_SessionSearchMsg m"
| "serialize_msg (MSdpOffer m) = ser_SdpOfferMsg m"
| "serialize_msg (MSdpAnswer m) = ser_SdpAnswerMsg m"
| "serialize_msg (MDhtFindNode m) = ser_DhtFindNodeMsg m"
| "serialize_msg (MDhtFindValue m) = ser_DhtFindValueMsg m"
| "serialize_msg (MFileMeta m) = ser_FileMetaMsg m"
| "serialize_msg (MFileChunk m) = ser_FileChunkMsg m"
| "serialize_msg (MFileAck m) = ser_FileAckMsg m"
| "serialize_msg (MFileRequest m) = ser_FileRequestMsg m"
| "serialize_msg (MAttachAck m) = ser_AttachAckMsg m"
| "serialize_msg (MOutputGap m) = ser_OutputGapMsg m"
| "serialize_msg (MConversationAppend m) = ser_ConversationAppendMsg m"
| "serialize_msg (MConversationQuery m) = ser_ConversationQueryMsg m"
| "serialize_msg (MConversationBatch m) = ser_ConversationBatchMsg m"
| "serialize_msg (MCuaRequest m) = ser_CuaRequestMsg m"
| "serialize_msg (MCuaResponse m) = ser_CuaResponseMsg m"
| "serialize_msg (MJoinRequest m) = ser_JoinRequestMsg m"
| "serialize_msg (MJoinReply m) = ser_JoinReplyMsg m"
| "serialize_msg (MCuaVideoCapture m) = ser_CuaVideoCaptureMsg m"
| "serialize_msg (MCuaVideoCaptureResult m) = ser_CuaVideoCaptureResultMsg m"
| "serialize_msg (MDirectoryEnroll m) = ser_DirectoryEnrollMsg m"

end
