(* ===== verification/Decoder.thy ===== *)
theory Decoder
  imports Serializer
begin

text \<open>
  The \<open>switch (type_byte)\<close> of \<open>decode\<close> in bs-codec.h: one definition per case, in the
  source's order, and the dispatch \<open>decode_payload\<close>. The cases work on the decompressed
  payload. A list without a count is read by \<open>dec_while_ok\<close> to the end of the payload.
  The lemmas show that each case reads back what the serializer of its message wrote.
\<close>

section \<open>Terminal messages\<close>

definition dec_Keystroke :: "Message dec" where
  "dec_Keystroke = bindD dec_rest_str (\<lambda>d. retD (MKeystroke \<lparr>ks_data = d\<rparr>))"

definition dec_Output :: "Message dec" where
  "dec_Output = bindD dec_u8 (\<lambda>md. bindD dec_rest_str (\<lambda>d.
     retD (MOutput \<lparr>out_data = d, out_render_markdown = (md \<noteq> 0)\<rparr>)))"

definition dec_Resize :: "Message dec" where
  "dec_Resize = bindD dec_u16 (\<lambda>c. bindD dec_u16 (\<lambda>r.
     retD (MResize \<lparr>rsz_cols = c, rsz_rows = r\<rparr>)))"

definition dec_Clipboard :: "Message dec" where
  "dec_Clipboard = (\<lambda>p.
     case find_index (\<lambda>b. b = 0x0A) p of
       None \<Rightarrow> Inl ''Clipboard: missing hash separator''
     | Some nl \<Rightarrow>
         bindD (dec_str_size nl) (\<lambda>h. bindD dec_u8 (\<lambda>_. bindD dec_rest_str (\<lambda>t.
           retD (MClipboard \<lparr>clip_text = t, clip_hash = h\<rparr>)))) p)"

definition dec_ClipboardEcho :: "Message dec" where
  "dec_ClipboardEcho = bindD dec_rest_str (\<lambda>h. retD (MClipboardEcho \<lparr>echo_hash = h\<rparr>))"

definition dec_Attach :: "Message dec" where
  "dec_Attach =
     bindD dec_u16 (\<lambda>cols. bindD dec_u16 (\<lambda>rows. bindD dec_str_prefixed (\<lambda>term.
     bindD dec_str_prefixed (\<lambda>name. bindD dec_str_prefixed (\<lambda>routing.
     bindD (dec_opt 2 [] dec_str_prefixed_u16) (\<lambda>command.
     bindD (dec_opt 2 [] dec_str_prefixed_u16) (\<lambda>sig_detach.
     bindD (dec_opt 4 0 dec_u32be) (\<lambda>instance_id.
     bindD (dec_opt 1 False (bindD dec_u8 (\<lambda>b. retD (b \<noteq> 0)))) (\<lambda>spectator.
     bindD (dec_opt 1 False (bindD dec_u8 (\<lambda>b. retD (b \<noteq> 0)))) (\<lambda>reconnect_only.
     retD (MAttach \<lparr>att_session_name = name, att_routing = routing, att_cols = cols,
       att_rows = rows, att_term = term, att_command = command,
       att_signal_on_detach = sig_detach, att_client_instance_id = instance_id,
       att_spectator = spectator, att_reconnect_only = reconnect_only\<rparr>)))))))))))"

definition dec_SessionInfo :: "SessionInfo dec" where
  "dec_SessionInfo =
     bindD dec_str_prefixed (\<lambda>n. bindD dec_str_prefixed (\<lambda>s. bindD dec_u32be (\<lambda>u.
       retD \<lparr>si_name = n, si_state = s, si_uptime_seconds = ucast u\<rparr>)))"

definition dec_SessionList :: "Message dec" where
  "dec_SessionList =
     bindD (dec_while_ok dec_SessionInfo) (\<lambda>xs. retD (MSessionList \<lparr>sl_sessions = xs\<rparr>))"

text \<open>The fields after the version, the same in both formats of \<open>ServerInfo\<close>.\<close>

definition dec_ServerInfo_rest :: "string \<Rightarrow> string \<Rightarrow> Message dec" where
  "dec_ServerInfo_rest hostname version =
     bindD (dec_opt 8 (replicate 8 0) (dec_bytes_size 8)) (\<lambda>load.
     bindD (dec_opt 2 [] dec_str_prefixed_u16) (\<lambda>sessions.
     bindD (dec_opt 2 [] dec_str_prefixed_u16) (\<lambda>stats.
     bindD (dec_opt 2 [] dec_str_prefixed_u16) (\<lambda>latency.
     retD (MServerInfo \<lparr>srv_hostname = hostname, srv_version = version, srv_load = load,
       srv_sessions_summary_json = sessions, srv_host_stats_json = stats,
       srv_latency_json = latency\<rparr>)))))"

definition dec_ServerInfo_prefixed :: "Message dec" where
  "dec_ServerInfo_prefixed =
     bindD dec_str_prefixed_u16 (\<lambda>h. bindD dec_str_prefixed_u16 (\<lambda>v. dec_ServerInfo_rest h v))"

definition dec_ServerInfo :: "Message dec" where
  "dec_ServerInfo = (\<lambda>p.
     case find_index (\<lambda>b. b = 0x0A) p of
       None \<Rightarrow> dec_ServerInfo_prefixed p
     | Some nl1 \<Rightarrow>
         bindD (dec_str_size nl1) (\<lambda>h. bindD dec_u8 (\<lambda>_ q.
           case find_index (\<lambda>b. b = 0x0A) q of
             None \<Rightarrow> dec_ServerInfo_prefixed p
           | Some nl2 \<Rightarrow>
               bindD (dec_str_size nl2) (\<lambda>v. bindD dec_u8 (\<lambda>_. dec_ServerInfo_rest h v)) q)) p)"

definition dec_Scrollback :: "Message dec" where
  "dec_Scrollback = bindD dec_u32be (\<lambda>t. bindD dec_u32be (\<lambda>c. bindD dec_rest_str (\<lambda>d.
     retD (MScrollback \<lparr>sb_data = d, sb_total_lines = t, sb_chunk_index = c\<rparr>))))"

definition dec_Signal :: "Message dec" where
  "dec_Signal = bindD dec_u8 (\<lambda>s. bindD dec_str_prefixed_u16 (\<lambda>p.
     retD (MSignal \<lparr>sig_signal = s, sig_process = p\<rparr>)))"

definition dec_ProcExited :: "Message dec" where
  "dec_ProcExited = bindD dec_u32be (\<lambda>c. retD (MExitCode \<lparr>exit_code = c\<rparr>))"

definition dec_SessionDied :: "Message dec" where
  "dec_SessionDied = bindD dec_u32be (\<lambda>c. bindD dec_u32be (\<lambda>s.
     retD (MSessionDied \<lparr>died_exit_code = c, died_signal_num = s\<rparr>)))"

definition dec_check :: "bool \<Rightarrow> string \<Rightarrow> unit dec" where
  "dec_check c e = (if c then throwD e else retD ())"

definition dec_ImageData :: "Message dec" where
  "dec_ImageData = bindD dec_u8 (\<lambda>f. bindD dec_str_prefixed_u16 (\<lambda>n. bindD dec_u32be (\<lambda>len.
     bindD (dec_check (unat len > MAX_IMAGE_BYTES) ''image payload exceeds 50MB cap'') (\<lambda>_.
     bindD (dec_bytes_size (unat len)) (\<lambda>d.
     retD (MImageData \<lparr>img_format = f, img_name = n, img_data = d\<rparr>))))))"

definition dec_ImageFrame :: "Message dec" where
  "dec_ImageFrame = bindD dec_u8 (\<lambda>f. bindD dec_u32be (\<lambda>delay. bindD dec_u32be (\<lambda>loop.
     bindD dec_u32be (\<lambda>len.
     bindD (dec_check (unat len > MAX_IMAGE_BYTES) ''image frame payload exceeds 50MB cap'') (\<lambda>_.
     bindD (dec_bytes_size (unat len)) (\<lambda>d.
     retD (MImageFrame \<lparr>frm_format = f, frm_delay_ms = delay, frm_loop_count = loop,
       frm_data = d\<rparr>)))))))"

section \<open>Mesh messages\<close>

definition dec_PeerInfo :: "PeerInfo dec" where
  "dec_PeerInfo = bindD dec_str_prefixed (\<lambda>n. bindD dec_str_prefixed (\<lambda>a.
     bindD dec_str_prefixed (\<lambda>k. bindD dec_u32be (\<lambda>t.
     retD \<lparr>pi_name = n, pi_addr = a, pi_pubkey_hex = k, pi_last_seen = ucast t\<rparr>))))"

definition dec_Hello :: "Message dec" where
  "dec_Hello = bindD dec_str_prefixed (\<lambda>n. bindD dec_str_prefixed (\<lambda>v.
     bindD dec_str_prefixed (\<lambda>k. bindD (dec_while_ok dec_PeerInfo) (\<lambda>ps.
     retD (MHello \<lparr>hl_node_name = n, hl_version = v, hl_pubkey_hex = k,
       hl_known_peers = ps\<rparr>)))))"

definition dec_Gossip :: "Message dec" where
  "dec_Gossip = bindD (dec_while_ok dec_PeerInfo) (\<lambda>ps. retD (MGossip \<lparr>gs_peers = ps\<rparr>))"

definition dec_SessionSearch :: "Message dec" where
  "dec_SessionSearch = bindD dec_str_prefixed (\<lambda>n. bindD dec_str_prefixed (\<lambda>ro.
     bindD dec_u16 (\<lambda>c. bindD dec_u16 (\<lambda>r. bindD dec_str_prefixed (\<lambda>t.
     retD (MSessionSearch \<lparr>ss_session_name = n, ss_routing = ro, ss_cols = c, ss_rows = r,
       ss_term = t\<rparr>))))))"

definition dec_SdpOffer :: "Message dec" where
  "dec_SdpOffer = bindD dec_str_prefixed (\<lambda>n. bindD dec_str_prefixed_u16 (\<lambda>s.
     retD (MSdpOffer \<lparr>so_sdp = s, so_peer_name = n\<rparr>)))"

definition dec_SdpAnswer :: "Message dec" where
  "dec_SdpAnswer = bindD dec_str_prefixed (\<lambda>n. bindD dec_str_prefixed_u16 (\<lambda>s.
     retD (MSdpAnswer \<lparr>sa_sdp = s, sa_peer_name = n\<rparr>)))"

definition dec_DhtFindNode :: "Message dec" where
  "dec_DhtFindNode = bindD (dec_bytes_size 32) (\<lambda>t. bindD dec_str_prefixed (\<lambda>n.
     retD (MDhtFindNode \<lparr>dn_target_id = t, dn_sender_name = n\<rparr>)))"

definition dec_DhtFindValue :: "Message dec" where
  "dec_DhtFindValue = bindD (dec_bytes_size 32) (\<lambda>k. bindD dec_str_prefixed (\<lambda>n.
     retD (MDhtFindValue \<lparr>dv_key = k, dv_sender_name = n\<rparr>)))"

section \<open>File transfer messages\<close>

definition join_u64 :: "u32 \<Rightarrow> u32 \<Rightarrow> u64" where
  "join_u64 hi lo = (push_bit 32 (ucast hi) OR ucast lo)"

definition dec_u64_pair :: "u64 dec" where
  "dec_u64_pair = bindD dec_u32be (\<lambda>hi. bindD dec_u32be (\<lambda>lo. retD (join_u64 hi lo)))"

definition dec_FileMeta :: "Message dec" where
  "dec_FileMeta = bindD dec_str_prefixed (\<lambda>name. bindD dec_u64_pair (\<lambda>size.
     bindD dec_str_prefixed (\<lambda>sum. bindD dec_u32be (\<lambda>total.
     bindD (dec_opt 4 0 dec_u32be) (\<lambda>chunk.
     bindD (dec_opt 2 [] dec_str_prefixed_u16) (\<lambda>dest.
     bindD (dec_opt 9 (0, 0) (bindD dec_u64_pair (\<lambda>t. bindD dec_u8 (\<lambda>d. retD (t, d)))))
       (\<lambda>(mtime, direct).
     retD (MFileMeta \<lparr>fm_filename = name, fm_filesize = size, fm_checksum = sum,
       fm_total_chunks = total, fm_chunk_size = chunk, fm_dest_path = dest,
       fm_src_mtime_unix = mtime, fm_direct = direct\<rparr>))))))))"

definition dec_FileChunk :: "Message dec" where
  "dec_FileChunk = bindD dec_u32be (\<lambda>i. bindD dec_u32be (\<lambda>n. bindD dec_u32be (\<lambda>sz.
     bindD (dec_check (unat sz > MAX_FRAME_PAYLOAD_U32)
       ''file chunk size exceeds MAX_FRAME_PAYLOAD_U32'') (\<lambda>_.
     bindD (dec_bytes_size (unat sz)) (\<lambda>d.
     retD (MFileChunk \<lparr>fc_chunk_index = i, fc_total_chunks = n, fc_data = d\<rparr>))))))"

definition dec_FileAck :: "Message dec" where
  "dec_FileAck = bindD dec_u32be (\<lambda>i. bindD dec_u32be (\<lambda>n. bindD dec_u8 (\<lambda>e.
     bindD dec_str_prefixed_u16 (\<lambda>s.
     retD (MFileAck \<lparr>fa_chunk_index = i, fa_next_requested = n, fa_error = (e \<noteq> 0),
       fa_error_msg = s\<rparr>)))))"

definition dec_FileRequest :: "Message dec" where
  "dec_FileRequest = bindD dec_str_prefixed_u16 (\<lambda>p. bindD (dec_opt 1 0 dec_u8) (\<lambda>m.
     retD (MFileRequest \<lparr>fr_path = p, fr_mode = m\<rparr>)))"

section \<open>Later messages\<close>

definition dec_AttachAck :: "Message dec" where
  "dec_AttachAck = bindD dec_u32be (\<lambda>i. bindD dec_str_prefixed (\<lambda>n. bindD dec_u16 (\<lambda>c.
     bindD dec_u16 (\<lambda>r.
     retD (MAttachAck \<lparr>ack_attach_id = i, ack_session_name = n, ack_cols = c,
       ack_rows = r\<rparr>)))))"

definition dec_OutputGap :: "Message dec" where
  "dec_OutputGap = bindD dec_u64be (\<lambda>n. retD (MOutputGap \<lparr>gap_dropped_bytes = n\<rparr>))"

definition dec_append_item :: "ConversationAppendMsg dec" where
  "dec_append_item = bindD dec_str_prefixed (\<lambda>c. bindD dec_u64be (\<lambda>s. bindD dec_u64be (\<lambda>t.
     bindD dec_str_prefixed (\<lambda>a. bindD dec_u8 (\<lambda>r. bindD dec_str_prefixed_u16 (\<lambda>b.
     retD \<lparr>ca_conv_id = c, ca_seq = s, ca_ts = t, ca_agent_id = a, ca_role = r,
       ca_body = b\<rparr>))))))"

definition dec_ConversationAppend :: "Message dec" where
  "dec_ConversationAppend = bindD dec_append_item (\<lambda>m. retD (MConversationAppend m))"

definition dec_ConversationQuery :: "Message dec" where
  "dec_ConversationQuery = bindD dec_str_prefixed (\<lambda>c. bindD dec_u64be (\<lambda>s.
     retD (MConversationQuery \<lparr>cq_conv_id = c, cq_since_seq = s\<rparr>)))"

definition kMaxConversationBatch :: nat where
  "kMaxConversationBatch = 512"

text \<open>\<open>while (d.ok(1) && size < n)\<close>: at most \<open>n\<close> items.\<close>

fun dec_upto :: "nat \<Rightarrow> 'a dec \<Rightarrow> 'a list dec" where
  "dec_upto 0 d = (\<lambda>p. Inr ([], p))"
| "dec_upto (Suc n) d =
     (\<lambda>p. if dec_ok 1 p then bindD d (\<lambda>x. bindD (dec_upto n d) (\<lambda>xs. retD (x # xs))) p
          else Inr ([], p))"

context wire_item
begin

lemma dec_upto_ser:
  "ser_seq (map ser xs) = Inr b \<Longrightarrow>
   \<exists>r. dec_upto n dec b = Inr (map canon (take n xs), r) \<and> ser_seq (map ser (drop n xs)) = Inr r"
proof (induction xs arbitrary: n b)
  case Nil
  then show ?case by (cases n) (auto simp: dec_ok_def)
next
  case (Cons x xs)
  show ?case
  proof (cases n)
    case 0
    with Cons.prems show ?thesis by simp
  next
    case (Suc k)
    from Cons.prems obtain b1 b2 where b: "ser x = Inr b1" "ser_seq (map ser xs) = Inr b2"
      "b = b1 @ b2" by (auto simp: bindR_eq_Inr)
    from b(1) have "b1 \<noteq> []" by (rule ser_nonempty)
    with Cons.IH [OF b(2), of k] b Suc show ?thesis
      by (auto simp: bindD_def retD_def dec_ser dec_ok_def neq_Nil_conv)
  qed
qed

lemma ser_items_Nil: "ser_seq (map ser xs) = Inr [] \<longleftrightarrow> xs = []"
  by (cases xs) (auto simp: bindR_eq_Inr dest: ser_nonempty)

end

definition dec_ConversationBatch :: "Message dec" where
  "dec_ConversationBatch = bindD dec_str_prefixed (\<lambda>c.
     bindD (dec_upto kMaxConversationBatch dec_append_item) (\<lambda>ms p.
       if dec_ok 1 p then Inl ''ConversationBatchMsg exceeds 512 messages''
       else Inr (MConversationBatch \<lparr>cb_conv_id = c, cb_messages = ms\<rparr>, p)))"

definition dec_CuaRequest :: "Message dec" where
  "dec_CuaRequest = bindD dec_u32be (\<lambda>i. bindD dec_u8 (\<lambda>a. bindD dec_u16 (\<lambda>x.
     bindD dec_u16 (\<lambda>y. bindD dec_u8 (\<lambda>b. bindD dec_u32be (\<lambda>h. bindD dec_u8 (\<lambda>m.
     bindD dec_str_prefixed (\<lambda>t.
     bindD (dec_check (length t > 64 * 1024) ''CUA request text exceeds 64KB'') (\<lambda>_.
     retD (MCuaRequest \<lparr>cua_request_id = i, cua_action = a, cua_x = x, cua_y = y,
       cua_button = b, cua_hid_key = h, cua_modifiers = m, cua_text = t\<rparr>))))))))))"

definition dec_CuaResponse :: "Message dec" where
  "dec_CuaResponse = bindD dec_u32be (\<lambda>i. bindD dec_u8 (\<lambda>s. bindD dec_str_prefixed (\<lambda>e.
     bindD dec_u32be (\<lambda>w. bindD dec_u32be (\<lambda>h. bindD dec_u8 (\<lambda>f. bindD dec_u32be (\<lambda>sz.
     bindD (dec_check (unat sz > MAX_IMAGE_BYTES) ''CUA response data exceeds 50MB cap'') (\<lambda>_.
     bindD (dec_bytes_size (unat sz)) (\<lambda>d.
     retD (MCuaResponse \<lparr>cur_request_id = i, cur_status = s, cur_error = e, cur_screen_w = w,
       cur_screen_h = h, cur_format = f, cur_data = d\<rparr>))))))))))"

definition dec_JoinRequest :: "Message dec" where
  "dec_JoinRequest = bindD dec_str_prefixed (\<lambda>t. bindD (dec_opt 1 [] dec_str_prefixed) (\<lambda>n.
     bindD (dec_opt 1 [] dec_str_prefixed) (\<lambda>a.
     retD (MJoinRequest \<lparr>jr_token = t, jr_node_name = n, jr_listen_addr = a\<rparr>))))"

definition dec_CuaVideoCapture :: "Message dec" where
  "dec_CuaVideoCapture = bindD dec_u32be (\<lambda>i. bindD dec_u8 (\<lambda>f. bindD dec_u16 (\<lambda>s.
     bindD dec_u8 (\<lambda>q. bindD dec_u16 (\<lambda>w.
     retD (MCuaVideoCapture \<lparr>cvc_request_id = i, cvc_fps = f, cvc_duration_sec = s,
       cvc_quality = q, cvc_max_width = w\<rparr>))))))"

definition dec_CuaVideoCaptureResult :: "Message dec" where
  "dec_CuaVideoCaptureResult = bindD dec_u32be (\<lambda>i. bindD dec_u8 (\<lambda>s.
     bindD dec_str_prefixed (\<lambda>e. bindD dec_str_prefixed (\<lambda>p. bindD dec_u16 (\<lambda>n.
     bindD dec_u16 (\<lambda>w. bindD dec_u16 (\<lambda>h. bindD dec_u8 (\<lambda>f.
     retD (MCuaVideoCaptureResult \<lparr>cvr_request_id = i, cvr_status = s, cvr_error = e,
       cvr_file_path = p, cvr_duration_sec = n, cvr_width = w, cvr_height = h,
       cvr_format = f\<rparr>)))))))))"

definition dec_JoinReply :: "Message dec" where
  "dec_JoinReply = bindD dec_u8 (\<lambda>ok.
     if ok \<noteq> 0 then
       bindD dec_str_prefixed (\<lambda>n. bindD dec_str_prefixed_u16 (\<lambda>s. bindD dec_str_prefixed (\<lambda>k.
       bindD dec_str_prefixed (\<lambda>a. bindD dec_str_prefixed_u16 (\<lambda>j.
       retD (MJoinReply \<lparr>jp_ok = True, jp_node_name = n, jp_seeds_csv = s, jp_host_pubkey = k,
         jp_host_addr = a, jp_peer_pubkeys_json = j, jp_error = []\<rparr>))))))
     else bindD dec_str_prefixed (\<lambda>e.
       retD (MJoinReply \<lparr>jp_ok = False, jp_node_name = [], jp_seeds_csv = [],
         jp_host_pubkey = [], jp_host_addr = [], jp_peer_pubkeys_json = [], jp_error = e\<rparr>)))"

definition dec_DirectoryEnroll :: "Message dec" where
  "dec_DirectoryEnroll = bindD dec_str_prefixed (\<lambda>n. bindD dec_str_prefixed (\<lambda>k.
     bindD dec_str_prefixed (\<lambda>a. bindD dec_str_prefixed (\<lambda>i. bindD dec_u64be (\<lambda>t.
     bindD dec_rest_bytes (\<lambda>s.
     retD (MDirectoryEnroll \<lparr>de_name = n, de_pubkey_hex = k, de_addr = a, de_issuer_pubkey = i,
       de_issued_at = t, de_signature = s\<rparr>)))))))"

section \<open>Dispatch\<close>

definition decode_case :: "byte \<Rightarrow> Message dec option" where
  "decode_case t = map_of
     [(0x01, dec_Keystroke), (0x02, dec_Output), (0x03, dec_Resize), (0x04, dec_Clipboard),
      (0x05, dec_Clipboard), (0x11, dec_ClipboardEcho), (0x06, dec_Attach), (0x07, retD MDetach),
      (0x08, dec_SessionList), (0x09, dec_ServerInfo), (0x0A, retD MPing), (0x0B, retD MPong),
      (0x0C, dec_Scrollback), (0x0D, dec_Signal), (0x0E, dec_ProcExited),
      (0x0F, retD MScrollbackAck), (0x10, dec_SessionDied), (0x12, dec_ImageData),
      (0x13, dec_ImageFrame), (0x14, retD MImageAck), (0x15, dec_Hello), (0x16, dec_Gossip),
      (0x17, dec_SessionSearch), (0x18, dec_SdpOffer), (0x19, dec_SdpAnswer),
      (0x1A, dec_DhtFindNode), (0x1B, dec_DhtFindValue), (0x1C, dec_FileMeta),
      (0x1D, dec_FileChunk), (0x1E, dec_FileAck), (0x1F, dec_FileRequest), (0x21, dec_AttachAck),
      (0x22, dec_OutputGap), (0x23, dec_ConversationAppend), (0x24, dec_ConversationQuery),
      (0x25, dec_ConversationBatch), (0x26, dec_CuaRequest), (0x27, dec_CuaResponse),
      (0x28, dec_JoinRequest), (0x2A, dec_CuaVideoCapture), (0x2B, dec_CuaVideoCaptureResult),
      (0x29, dec_JoinReply), (0x2C, dec_DirectoryEnroll)] t"

definition decode_payload :: "byte \<Rightarrow> bytes \<Rightarrow> Message result" where
  "decode_payload t payload =
     (case decode_case t of
        None \<Rightarrow> Inl (''unknown message type: '' @ dec_digits (unat t))
      | Some d \<Rightarrow> map_sum id fst (d payload))"

lemma decode_type_byte [simp]: "decode_case (type_byte k) \<noteq> None"
  by (cases k) (simp_all add: decode_case_def)


section \<open>Round trips\<close>

text \<open>The laws of the readers at the end of the payload, where nothing follows.\<close>

lemma dec_at_end [wire_simps]:
  "dec_u16 (write_u16 v) = Inr (v, [])"
  "dec_u32be (write_u32be w) = Inr (w, [])"
  "dec_u64be (be64 x) = Inr (x, [])"
  "n = length s \<Longrightarrow> dec_str_size n (bytes_of_string s) = Inr (s, [])"
  "n = length b \<Longrightarrow> dec_bytes_size n b = Inr (b, [])"
  using dec_u16_write [of v "[]"] dec_u32be_write [of w "[]"] dec_u64be_write [of x "[]"]
    dec_str_size_bytes [of n s "[]"] dec_bytes_size_append [of n b "[]"]
  by simp_all

lemma dec_str_at_end [wire_simps]:
  "length s \<le> 255 \<Longrightarrow> dec_str_prefixed (word_of_nat (length s) # bytes_of_string s) = Inr (s, [])"
  "length t \<le> 65535 \<Longrightarrow>
   dec_str_prefixed_u16 (write_u16 (word_of_nat (length t)) @ bytes_of_string t) = Inr (t, [])"
  using dec_str_prefixed_write [of s "[]"] dec_str_prefixed_u16_write [of t "[]"] by simp_all

lemma join_split_u64 [wire_simps]:
  "join_u64 (ucast (drop_bit 32 (v :: u64))) (ucast (v AND 0xFFFFFFFF)) = v"
proof -
  have low: "v AND 0xFFFFFFFF = v AND mask 32" by (simp add: mask_eq_exp_minus_1)
  show ?thesis
    unfolding join_u64_def low
  proof (rule bit_word_eqI)
    fix n assume "n < LENGTH(64)"
    show "bit (push_bit 32 (ucast (ucast (drop_bit 32 v) :: u32)) OR
        (ucast (ucast (v AND mask 32) :: u32) :: u64)) n \<longleftrightarrow> bit v n"
    proof (cases "n < 32")
      case True
      then show ?thesis by (auto simp: bit_simps)
    next
      case False
      then obtain m where "n = 32 + m" by (metis le_Suc_ex not_less)
      with \<open>n < LENGTH(64)\<close> show ?thesis by (auto simp: bit_simps)
    qed
  qed
qed

lemma dec_check_simps [wire_simps]:
  "\<not> c \<Longrightarrow> dec_check c e p = Inr ((), p)"
  by (simp add: dec_check_def retD_def)

lemma dec_u64_pair_write [wire_simps]:
  "dec_u64_pair (write_u32be (ucast (drop_bit 32 (v :: u64))) @ write_u32be (ucast (v AND 0xFFFFFFFF)) @ r)
     = Inr (v, r)"
  by (simp add: dec_u64_pair_def wire_simps)

lemma dec_u64_pair_zero [wire_simps]:
  "dec_u64_pair (write_u32be 0 @ write_u32be 0 @ r) = Inr (0, r)"
  using dec_u64_pair_write [of 0 r] by simp

lemma dec_str_empty [wire_simps]:
  "dec_str_prefixed (0 # r) = Inr ([], r)"
  "dec_str_prefixed_u16 (write_u16 0 @ r) = Inr ([], r)"
  using dec_str_prefixed_write [of "[]" r] dec_str_prefixed_u16_write [of "[]" r]
  by (simp_all add: bytes_of_string_def)

lemma ser_when_Inr [wire_simps]:
  "ser_when c rs = Inr b \<longleftrightarrow> (if c then ser_seq rs = Inr b else b = [])"
  by (auto simp: ser_when_def)

lemma ser_size_u32_eq [wire_simps]: "ser_size_u32 b = Inr (write_u32be (word_of_nat (length b)))"
  by (simp add: ser_size_u32_def wire_simps)

lemma write_u16_neq_Nil [simp]: "write_u16 v \<noteq> []" "[] \<noteq> write_u16 v"
  by (simp_all add: write_u16_def)

declare ser_seq.simps [simp del]

section \<open>Round trips of the messages\<close>

lemma rt_Keystroke: "ser_KeystrokeMsg m = Inr b \<Longrightarrow> dec_Keystroke b = Inr (MKeystroke m, [])"
  by (cases m) (auto simp: ser_KeystrokeMsg_def dec_Keystroke_def wire_simps)

lemma rt_Output: "ser_OutputMsg m = Inr b \<Longrightarrow> dec_Output b = Inr (MOutput m, [])"
  by (cases m) (auto simp: ser_OutputMsg_def dec_Output_def wire_simps)

lemma rt_Resize: "ser_ResizeMsg m = Inr b \<Longrightarrow> dec_Resize b = Inr (MResize m, [])"
  by (cases m) (auto simp: ser_ResizeMsg_def dec_Resize_def wire_simps)

lemma rt_ClipboardEcho: "ser_ClipboardEchoMsg m = Inr b \<Longrightarrow> dec_ClipboardEcho b = Inr (MClipboardEcho m, [])"
  by (cases m) (auto simp: ser_ClipboardEchoMsg_def dec_ClipboardEcho_def wire_simps)

lemma rt_Attach: "ser_AttachMsg m = Inr b \<Longrightarrow> dec_Attach b = Inr (MAttach m, [])"
  by (cases m) (auto simp: ser_AttachMsg_def dec_Attach_def wire_simps)

lemma rt_Scrollback: "ser_ScrollbackMsg m = Inr b \<Longrightarrow> dec_Scrollback b = Inr (MScrollback m, [])"
  by (cases m) (auto simp: ser_ScrollbackMsg_def dec_Scrollback_def wire_simps)

lemma rt_Signal: "ser_SignalMsg m = Inr b \<Longrightarrow> dec_Signal b = Inr (MSignal m, [])"
  by (cases m) (auto simp: ser_SignalMsg_def dec_Signal_def wire_simps)

lemma rt_ProcExited: "ser_ExitCodeMsg m = Inr b \<Longrightarrow> dec_ProcExited b = Inr (MExitCode m, [])"
  by (cases m) (auto simp: ser_ExitCodeMsg_def dec_ProcExited_def wire_simps)

lemma rt_SessionDied: "ser_SessionDiedMsg m = Inr b \<Longrightarrow> dec_SessionDied b = Inr (MSessionDied m, [])"
  by (cases m) (auto simp: ser_SessionDiedMsg_def dec_SessionDied_def wire_simps)

lemma rt_ImageData: "ser_ImageDataMsg m = Inr b \<Longrightarrow> dec_ImageData b = Inr (MImageData m, [])"
  by (cases m) (auto simp: ser_ImageDataMsg_def dec_ImageData_def wire_simps MAX_IMAGE_BYTES_def)

lemma rt_ImageFrame: "ser_ImageFrameMsg m = Inr b \<Longrightarrow> dec_ImageFrame b = Inr (MImageFrame m, [])"
  by (cases m) (auto simp: ser_ImageFrameMsg_def dec_ImageFrame_def wire_simps MAX_IMAGE_BYTES_def)

lemma rt_SessionSearch: "ser_SessionSearchMsg m = Inr b \<Longrightarrow> dec_SessionSearch b = Inr (MSessionSearch m, [])"
  by (cases m) (auto simp: ser_SessionSearchMsg_def dec_SessionSearch_def wire_simps)

lemma rt_SdpOffer: "ser_SdpOfferMsg m = Inr b \<Longrightarrow> dec_SdpOffer b = Inr (MSdpOffer m, [])"
  by (cases m) (auto simp: ser_SdpOfferMsg_def dec_SdpOffer_def wire_simps)

lemma rt_SdpAnswer: "ser_SdpAnswerMsg m = Inr b \<Longrightarrow> dec_SdpAnswer b = Inr (MSdpAnswer m, [])"
  by (cases m) (auto simp: ser_SdpAnswerMsg_def dec_SdpAnswer_def wire_simps)

lemma rt_FileMeta: "ser_FileMetaMsg m = Inr b \<Longrightarrow> dec_FileMeta b = Inr (MFileMeta m, [])"
  by (cases m) (auto simp: ser_FileMetaMsg_def dec_FileMeta_def wire_simps split: if_splits)

lemma rt_FileChunk: "ser_FileChunkMsg m = Inr b \<Longrightarrow> dec_FileChunk b = Inr (MFileChunk m, [])"
  by (cases m) (auto simp: ser_FileChunkMsg_def dec_FileChunk_def wire_simps MAX_FRAME_PAYLOAD_U32_def)

lemma rt_FileAck: "ser_FileAckMsg m = Inr b \<Longrightarrow> dec_FileAck b = Inr (MFileAck m, [])"
  by (cases m) (auto simp: ser_FileAckMsg_def dec_FileAck_def wire_simps)

lemma rt_FileRequest: "ser_FileRequestMsg m = Inr b \<Longrightarrow> dec_FileRequest b = Inr (MFileRequest m, [])"
  by (cases m) (auto simp: ser_FileRequestMsg_def dec_FileRequest_def wire_simps split: if_splits)

lemma rt_AttachAck: "ser_AttachAckMsg m = Inr b \<Longrightarrow> dec_AttachAck b = Inr (MAttachAck m, [])"
  by (cases m) (auto simp: ser_AttachAckMsg_def dec_AttachAck_def wire_simps)

lemma rt_OutputGap: "ser_OutputGapMsg m = Inr b \<Longrightarrow> dec_OutputGap b = Inr (MOutputGap m, [])"
  by (cases m) (auto simp: ser_OutputGapMsg_def dec_OutputGap_def wire_simps)

lemma rt_ConversationQuery: "ser_ConversationQueryMsg m = Inr b \<Longrightarrow> dec_ConversationQuery b = Inr (MConversationQuery m, [])"
  by (cases m) (auto simp: ser_ConversationQueryMsg_def dec_ConversationQuery_def wire_simps)

lemma rt_CuaRequest: "ser_CuaRequestMsg m = Inr b \<Longrightarrow> dec_CuaRequest b = Inr (MCuaRequest m, [])"
  by (cases m) (auto simp: ser_CuaRequestMsg_def dec_CuaRequest_def wire_simps)

lemma rt_JoinRequest: "ser_JoinRequestMsg m = Inr b \<Longrightarrow> dec_JoinRequest b = Inr (MJoinRequest m, [])"
  by (cases m) (auto simp: ser_JoinRequestMsg_def dec_JoinRequest_def wire_simps)

lemma rt_CuaVideoCapture: "ser_CuaVideoCaptureMsg m = Inr b \<Longrightarrow> dec_CuaVideoCapture b = Inr (MCuaVideoCapture m, [])"
  by (cases m) (auto simp: ser_CuaVideoCaptureMsg_def dec_CuaVideoCapture_def wire_simps)

lemma rt_CuaVideoCaptureResult: "ser_CuaVideoCaptureResultMsg m = Inr b \<Longrightarrow> dec_CuaVideoCaptureResult b = Inr (MCuaVideoCaptureResult m, [])"
  by (cases m) (auto simp: ser_CuaVideoCaptureResultMsg_def dec_CuaVideoCaptureResult_def wire_simps)

lemma rt_DirectoryEnroll: "ser_DirectoryEnrollMsg m = Inr b \<Longrightarrow> dec_DirectoryEnroll b = Inr (MDirectoryEnroll m, [])"
  by (cases m) (auto simp: ser_DirectoryEnrollMsg_def dec_DirectoryEnroll_def wire_simps)

lemma rt_CuaResponse:
  "ser_CuaResponseMsg m = Inr b \<Longrightarrow> length (cur_data m) \<le> MAX_IMAGE_BYTES \<Longrightarrow>
   dec_CuaResponse b = Inr (MCuaResponse m, [])"
  by (cases m) (auto simp: ser_CuaResponseMsg_def dec_CuaResponse_def wire_simps
      MAX_IMAGE_BYTES_def)

lemma rt_DhtFindNode:
  "ser_DhtFindNodeMsg m = Inr b \<Longrightarrow> length (dn_target_id m) = 32 \<Longrightarrow>
   dec_DhtFindNode b = Inr (MDhtFindNode m, [])"
  by (cases m) (auto simp: ser_DhtFindNodeMsg_def dec_DhtFindNode_def wire_simps)

lemma rt_DhtFindValue:
  "ser_DhtFindValueMsg m = Inr b \<Longrightarrow> length (dv_key m) = 32 \<Longrightarrow>
   dec_DhtFindValue b = Inr (MDhtFindValue m, [])"
  by (cases m) (auto simp: ser_DhtFindValueMsg_def dec_DhtFindValue_def wire_simps)

text \<open>The fields that the other value of \<open>ok\<close> writes are lost in a \<open>JoinReply\<close>.\<close>

definition canon_JoinReply :: "JoinReplyMsg \<Rightarrow> JoinReplyMsg" where
  "canon_JoinReply m =
     (if jp_ok m then m\<lparr>jp_error := []\<rparr>
      else m\<lparr>jp_node_name := [], jp_seeds_csv := [], jp_host_pubkey := [], jp_host_addr := [],
             jp_peer_pubkeys_json := []\<rparr>)"

lemma rt_JoinReply:
  "ser_JoinReplyMsg m = Inr b \<Longrightarrow> dec_JoinReply b = Inr (MJoinReply (canon_JoinReply m), [])"
  by (cases m) (auto simp: ser_JoinReplyMsg_def dec_JoinReply_def canon_JoinReply_def wire_simps
      split: if_splits)

lemma find_newline_none: "10 \<notin> set p \<Longrightarrow> find_index (\<lambda>b. b = (10 :: byte)) p = None"
  by (auto simp: find_index_None)

lemma find_newline_at:
  "10 \<notin> set p \<Longrightarrow> find_index (\<lambda>b. b = (10 :: byte)) (p @ 10 # q) = Some (length p)"
  by (rule find_index_append) auto

lemma byte_of_newline [simp]: "byte_of_char (CHR 0x0A) = 10"
  by (simp add: byte_of_char_def)

lemma newline_in_bytes [simp]: "10 \<in> set (bytes_of_string s) \<longleftrightarrow> CHR 0x0A \<in> set s"
  by (auto simp: bytes_of_string_def image_iff simp flip: byte_of_newline)

lemma rt_Clipboard:
  "ser_ClipboardMsg m = Inr b \<Longrightarrow> CHR 0x0A \<notin> set (clip_hash m) \<Longrightarrow>
   dec_Clipboard b = Inr (MClipboard m, [])"
  by (cases m) (auto simp: ser_ClipboardMsg_def dec_Clipboard_def wire_simps find_newline_at)

lemma take_bit_min_u32 [simp]: "take_bit 32 (min v 0xFFFFFFFF) = min v (0xFFFFFFFF :: u64)"
proof -
  have "min v 0xFFFFFFFF \<le> 0xFFFFFFFF" by simp
  then have "unat (min v 0xFFFFFFFF) \<le> unat (0xFFFFFFFF :: u64)"
    unfolding word_le_nat_alt .
  then have "unat (min v 0xFFFFFFFF) < 2 ^ 32" by simp
  then show ?thesis
    by (simp add: word_unat_eq_iff unsigned_take_bit_eq take_bit_nat_eq_self_iff)
qed

lemma ucast_u32_u64 [simp]: "ucast (ucast (v :: u64) :: u32) = take_bit 32 v"
  by (rule bit_word_eqI) (auto simp: bit_simps)

definition canon_SessionInfo :: "SessionInfo \<Rightarrow> SessionInfo" where
  "canon_SessionInfo x = x\<lparr>si_uptime_seconds := min (si_uptime_seconds x) 0xFFFFFFFF\<rparr>"

definition canon_PeerInfo :: "PeerInfo \<Rightarrow> PeerInfo" where
  "canon_PeerInfo x = x\<lparr>pi_last_seen := take_bit 32 (pi_last_seen x)\<rparr>"

lemma rt_SessionInfo:
  "ser_SessionInfo x = Inr b \<Longrightarrow>
   dec_SessionInfo (b @ r) =
     Inr (canon_SessionInfo x, r)"
  by (cases x) (auto simp: ser_SessionInfo_def dec_SessionInfo_def canon_SessionInfo_def
      wire_simps)

lemma rt_PeerInfo:
  "ser_PeerInfo x = Inr b \<Longrightarrow>
   dec_PeerInfo (b @ r) = Inr (canon_PeerInfo x, r)"
  by (cases x) (auto simp: ser_PeerInfo_def dec_PeerInfo_def canon_PeerInfo_def wire_simps)

lemma rt_append_item:
  "ser_ConversationAppendMsg x = Inr b \<Longrightarrow> dec_append_item (b @ r) = Inr (x, r)"
  by (cases x) (auto simp: ser_ConversationAppendMsg_def dec_append_item_def wire_simps)

text \<open>Every reader of an item consumes at least the length bytes of its first string.\<close>

lemma dec_shrinks:
  "dec_u8 p = Inr (x, q) \<Longrightarrow> length q < length p"
  "dec_u16 p = Inr (w, q) \<Longrightarrow> length q < length p"
  "dec_u32be p = Inr (v, q) \<Longrightarrow> length q < length p"
  "dec_u64be p = Inr (u, q) \<Longrightarrow> length q < length p"
  "dec_str_size n p = Inr (s, q) \<Longrightarrow> length q \<le> length p"
  by (auto simp: dec_u8_def dec_u16_def dec_u32be_def dec_u64be_def dec_str_size_def bindD_def
      dec_ensure_def dec_ok_def retD_def bindR_eq_Inr split: if_splits)

lemma dec_str_shrinks:
  "dec_str_prefixed p = Inr (s, q) \<Longrightarrow> length q < length p"
  "dec_str_prefixed_u16 p = Inr (s, q) \<Longrightarrow> length q < length p"
  unfolding dec_str_prefixed_def dec_str_prefixed_u16_def bindD_def bindR_eq_Inr
  by (auto dest!: dec_shrinks)

lemma bindD_Inr: "bindD d f p = Inr z \<longleftrightarrow> (\<exists>x q. d p = Inr (x, q) \<and> f x q = Inr z)"
  by (auto simp: bindD_def bindR_eq_Inr)

lemma dec_SessionInfo_progress: "dec_SessionInfo p = Inr (y, q) \<Longrightarrow> length q < length p"
  by (auto simp: dec_SessionInfo_def bindD_Inr retD_def dest!: dec_shrinks dec_str_shrinks)

lemma dec_PeerInfo_progress: "dec_PeerInfo p = Inr (y, q) \<Longrightarrow> length q < length p"
  by (auto simp: dec_PeerInfo_def bindD_Inr retD_def dest!: dec_shrinks dec_str_shrinks)

lemma dec_append_item_progress: "dec_append_item p = Inr (y, q) \<Longrightarrow> length q < length p"
  by (auto simp: dec_append_item_def bindD_Inr retD_def dest!: dec_shrinks dec_str_shrinks)

interpretation session_item: wire_item ser_SessionInfo dec_SessionInfo canon_SessionInfo
  by unfold_locales
    (simp_all add: rt_SessionInfo dec_SessionInfo_progress,
     auto simp: ser_SessionInfo_def wire_simps)

interpretation peer_item: wire_item ser_PeerInfo dec_PeerInfo canon_PeerInfo
  by unfold_locales
    (simp_all add: rt_PeerInfo dec_PeerInfo_progress, auto simp: ser_PeerInfo_def wire_simps)

interpretation append_item: wire_item ser_ConversationAppendMsg dec_append_item "\<lambda>m. m"
  by unfold_locales
    (simp_all add: rt_append_item dec_append_item_progress,
     auto simp: ser_ConversationAppendMsg_def wire_simps)

lemma rt_SessionList:
  "ser_SessionListMsg m = Inr b \<Longrightarrow>
   dec_SessionList b = Inr (MSessionList \<lparr>sl_sessions = map canon_SessionInfo (sl_sessions m)\<rparr>, [])"
  by (simp add: ser_SessionListMsg_def dec_SessionList_def wire_simps
      session_item.dec_while_ok_ser)

lemma rt_Gossip:
  "ser_GossipMsg m = Inr b \<Longrightarrow>
   dec_Gossip b = Inr (MGossip \<lparr>gs_peers = map canon_PeerInfo (gs_peers m)\<rparr>, [])"
  by (simp add: ser_GossipMsg_def dec_Gossip_def wire_simps peer_item.dec_while_ok_ser)

lemma rt_Hello:
  "ser_HelloMsg m = Inr b \<Longrightarrow>
   dec_Hello b = Inr (MHello (m\<lparr>hl_known_peers := map canon_PeerInfo (hl_known_peers m)\<rparr>), [])"
  by (cases m) (auto simp: ser_HelloMsg_def dec_Hello_def wire_simps
      peer_item.dec_while_ok_ser)

lemma rt_ConversationAppend:
  "ser_ConversationAppendMsg m = Inr b \<Longrightarrow>
   dec_ConversationAppend b = Inr (MConversationAppend m, [])"
  using rt_append_item [of m b "[]"] by (simp add: dec_ConversationAppend_def wire_simps)

lemma rt_ConversationBatch:
  assumes "ser_ConversationBatchMsg m = Inr b"
  shows "dec_ConversationBatch b =
    (if length (cb_messages m) \<le> 512 then Inr (MConversationBatch m, [])
     else Inl ''ConversationBatchMsg exceeds 512 messages'')"
proof -
  from assms obtain r where len: "length (cb_conv_id m) \<le> 255"
    and b: "b = word_of_nat (length (cb_conv_id m)) # bytes_of_string (cb_conv_id m) @ r"
    and r: "ser_seq (map ser_ConversationAppendMsg (cb_messages m)) = Inr r"
    by (auto simp: ser_ConversationBatchMsg_def wire_simps)
  from append_item.dec_upto_ser [OF r, of 512] obtain q where
    q: "dec_upto 512 dec_append_item r = Inr (take 512 (cb_messages m), q)"
       "ser_seq (map ser_ConversationAppendMsg (drop 512 (cb_messages m))) = Inr q"
    by (auto simp del: dec_upto.simps)
  from q(2) append_item.ser_items_Nil [of "drop 512 (cb_messages m)"]
  have "q = [] \<longleftrightarrow> length (cb_messages m) \<le> 512"
    by (cases q) auto
  with len q(1) show ?thesis
    unfolding b dec_ConversationBatch_def kMaxConversationBatch_def
    by (cases m) (simp add: wire_simps dec_ok_def Suc_le_eq del: dec_upto.simps)
qed

text \<open>
  \<open>ServerInfo\<close> is read as the newline-delimited format of old peers when its payload has two
  newline bytes, wherever they are.
\<close>

lemma dec_ServerInfo_without_newlines:
  assumes "count_list p 0x0A < 2"
  shows "dec_ServerInfo p = dec_ServerInfo_prefixed p"
proof (cases "10 \<in> set p")
  case False
  then show ?thesis by (simp add: dec_ServerInfo_def find_newline_none)
next
  case True
  then obtain a c where p: "p = a @ 10 # c" "10 \<notin> set a"
    by (meson split_list_first)
  with assms have "10 \<notin> set c"
    by (simp add: count_list_0_iff)
  moreover have "dec_str_size (length a) p = Inr (string_of_bytes a, 10 # c)"
    using dec_str_size_bytes [of "length a" "string_of_bytes a" "10 # c"] p by simp
  ultimately show ?thesis
    using p by (simp add: dec_ServerInfo_def find_newline_at find_newline_none wire_simps)
qed

lemma rt_ServerInfo:
  assumes "ser_ServerInfoMsg m = Inr b" "count_list b 0x0A < 2" "length (srv_load m) = 8"
    and "srv_host_stats_json m = [] \<longrightarrow> srv_latency_json m = []"
  shows "dec_ServerInfo b = Inr (MServerInfo m, [])"
  unfolding dec_ServerInfo_without_newlines [OF assms(2)]
  using assms(1,3,4)
  by (cases m) (auto simp: ser_ServerInfoMsg_def dec_ServerInfo_prefixed_def
      dec_ServerInfo_rest_def wire_simps split: if_splits)

section \<open>Every message\<close>

text \<open>
  \<open>canon_msg\<close> is what a peer reads of a message: a last-seen time modulo \<open>2^32\<close>, an uptime
  saturated there, and only the fields that \<open>JoinReply\<close> writes. \<open>wire_ok\<close> is the side
  condition under which the reader sees the writer's message: the fixed-size arrays have
  their size, and the three formats with an ambiguity are not in it.
\<close>

fun canon_msg :: "Message \<Rightarrow> Message" where
  "canon_msg (MSessionList m) = MSessionList \<lparr>sl_sessions = map canon_SessionInfo (sl_sessions m)\<rparr>"
| "canon_msg (MGossip m) = MGossip \<lparr>gs_peers = map canon_PeerInfo (gs_peers m)\<rparr>"
| "canon_msg (MHello m) = MHello (m\<lparr>hl_known_peers := map canon_PeerInfo (hl_known_peers m)\<rparr>)"
| "canon_msg (MJoinReply m) = MJoinReply (canon_JoinReply m)"
| "canon_msg m = m"

fun wire_ok :: "Message \<Rightarrow> bool" where
  "wire_ok (MClipboard m) = (CHR 0x0A \<notin> set (clip_hash m))"
| "wire_ok (MServerInfo m) =
     (length (srv_load m) = 8 \<and> (srv_host_stats_json m = [] \<longrightarrow> srv_latency_json m = []) \<and>
      (case ser_ServerInfoMsg m of Inl _ \<Rightarrow> True | Inr b \<Rightarrow> count_list b 0x0A < 2))"
| "wire_ok (MDhtFindNode m) = (length (dn_target_id m) = 32)"
| "wire_ok (MDhtFindValue m) = (length (dv_key m) = 32)"
| "wire_ok (MConversationBatch m) = (length (cb_messages m) \<le> kMaxConversationBatch)"
| "wire_ok (MCuaResponse m) = (length (cur_data m) \<le> MAX_IMAGE_BYTES)"
| "wire_ok _ = True"

lemmas message_round_trips =
  rt_Keystroke rt_Output rt_Resize rt_Clipboard rt_ClipboardEcho rt_Attach rt_SessionList
  rt_ServerInfo rt_Scrollback rt_Signal rt_ProcExited rt_SessionDied rt_ImageData rt_ImageFrame
  rt_Hello rt_Gossip rt_SessionSearch rt_SdpOffer rt_SdpAnswer rt_DhtFindNode rt_DhtFindValue
  rt_FileMeta rt_FileChunk rt_FileAck rt_FileRequest rt_AttachAck rt_OutputGap
  rt_ConversationAppend rt_ConversationQuery rt_ConversationBatch rt_CuaRequest rt_CuaResponse
  rt_JoinRequest rt_JoinReply rt_CuaVideoCapture rt_CuaVideoCaptureResult rt_DirectoryEnroll

lemma payload_round_trip:
  assumes "serialize_msg m = Inr b" "wire_ok m"
  shows "decode_payload (type_byte (message_type m)) b = Inr (canon_msg m)"
  using assms
  by (cases m) (simp_all add: decode_payload_def decode_case_def message_round_trips retD_def
      kMaxConversationBatch_def)

section \<open>Properties\<close>

text \<open>C5. Every payload that \<open>serialize_msg\<close> writes is read by the decoder case of its type
  byte as the same message, for all 42 alternatives of the variant, up to the fields the
  wire narrows and under the side conditions of \<open>wire_ok\<close>.\<close>

theorem payload_round_trips:
  assumes "serialize_msg m = Inr b" "wire_ok m"
  shows "decode_payload (type_byte (message_type m)) b = Inr (canon_msg m)"
  using assms by (rule payload_round_trip)

lemma payload_round_trips_witness:
  "decode_payload 0x22 [0, 0, 0, 0, 0, 0, 1, 2] = Inr (MOutputGap \<lparr>gap_dropped_bytes = 258\<rparr>)"
proof -
  have "serialize_msg (MOutputGap \<lparr>gap_dropped_bytes = 258\<rparr>) = Inr [0, 0, 0, 0, 0, 0, 1, 2]"
    by (simp add: ser_OutputGapMsg_def ser_u64be_def)
  from payload_round_trips [OF this] show ?thesis by simp
qed

text \<open>A batch of more than 512 conversation messages serializes, but no peer can read it:
  the decoder rejects the whole batch.\<close>

theorem oversized_batch_is_rejected:
  assumes "serialize_msg (MConversationBatch m) = Inr b" "length (cb_messages m) > 512"
  shows "decode_payload 0x25 b = Inl ''ConversationBatchMsg exceeds 512 messages''"
  using assms rt_ConversationBatch [of m b]
  by (simp add: decode_payload_def decode_case_def)

lemma oversized_batch_is_rejected_witness:
  "\<exists>b. serialize_msg (MConversationBatch \<lparr>cb_conv_id = [], cb_messages = replicate 513
        \<lparr>ca_conv_id = [], ca_seq = 0, ca_ts = 0, ca_agent_id = [], ca_role = 0, ca_body = []\<rparr>\<rparr>)
      = Inr b \<and> decode_payload 0x25 b = Inl ''ConversationBatchMsg exceeds 512 messages''"
proof -
  let ?a = "\<lparr>ca_conv_id = [], ca_seq = 0, ca_ts = 0, ca_agent_id = [], ca_role = 0, ca_body = []\<rparr>"
  have a: "\<exists>b. ser_ConversationAppendMsg ?a = Inr b"
    by (simp add: ser_ConversationAppendMsg_def ser_seq.simps ser_str_prefixed_def
        ser_str_prefixed_u16_def wire_simps)
  have "\<exists>b. ser_seq (map ser_ConversationAppendMsg (replicate n ?a)) = Inr b" for n
    using a by (induction n) (auto simp: ser_seq.simps)
  then obtain c where c: "ser_seq (map ser_ConversationAppendMsg (replicate 513 ?a)) = Inr c"
    by blast
  then have "serialize_msg (MConversationBatch \<lparr>cb_conv_id = [], cb_messages = replicate 513 ?a\<rparr>)
      = Inr (0 # c)"
    by (simp only: serialize_msg.simps ser_ConversationBatchMsg_def ConversationBatchMsg.simps)
      (simp only: ser_seq.simps ser_str_prefixed_def, simp add: ser_seq.simps wire_simps)
  from this oversized_batch_is_rejected [OF this] show ?thesis by simp
qed

text \<open>A \<open>ServerInfo\<close> whose host name and version have ten characters each is not read
  back: the two length bytes have the value of a newline, so the decoder takes the payload
  for the old newline-delimited format.\<close>

theorem server_info_of_length_ten_is_misread:
  assumes "serialize_msg (MServerInfo m) = Inr b"
    and "length (srv_hostname m) = 10" "length (srv_version m) = 10"
  shows "decode_payload 0x09 b \<noteq> Inr (MServerInfo m)"
proof -
  from assms obtain r where b: "b = 0 # 10 # bytes_of_string (srv_hostname m) @ 0 # 10 # r"
    by (auto simp: ser_ServerInfoMsg_def wire_simps write_u16_def)
  let ?q = "bytes_of_string (srv_hostname m) @ 0 # 10 # r"
  from b obtain nl where nl: "find_index (\<lambda>b. b = 0x0A) ?q = Some nl"
    by (cases "find_index (\<lambda>b. b = 0x0A) ?q") (auto simp: find_index_None)
  have "dec_str_size 1 b = Inr ([char_of_byte 0], 10 # ?q)"
    using b by (simp add: dec_str_size_def bindD_def dec_ensure_def dec_ok_def string_of_bytes_def)
  with b nl have "dec_ServerInfo b =
      bindD (dec_str_size nl) (\<lambda>v. bindD dec_u8 (\<lambda>_. dec_ServerInfo_rest [char_of_byte 0] v)) ?q"
    by (simp add: dec_ServerInfo_def wire_simps)
  moreover have "dec_ServerInfo_rest [char_of_byte 0] v p = Inr (msg, p') \<Longrightarrow> msg \<noteq> MServerInfo m"
    for v p msg p'
    using assms(2) by (auto simp: dec_ServerInfo_rest_def bindD_Inr retD_def)
  ultimately show ?thesis
    by (auto simp: decode_payload_def decode_case_def bindD_Inr map_sum_def split: sum.splits)
qed

lemma server_info_of_length_ten_is_misread_witness:
  "\<exists>b. serialize_msg (MServerInfo \<lparr>srv_hostname = ''build-node'', srv_version = ''26.09.19b1'',
        srv_load = replicate 8 0, srv_sessions_summary_json = [], srv_host_stats_json = [],
        srv_latency_json = []\<rparr>) = Inr b \<and>
      decode_payload 0x09 b \<noteq> Inr (MServerInfo \<lparr>srv_hostname = ''build-node'',
        srv_version = ''26.09.19b1'', srv_load = replicate 8 0, srv_sessions_summary_json = [],
        srv_host_stats_json = [], srv_latency_json = []\<rparr>)"
proof -
  let ?m = "\<lparr>srv_hostname = ''build-node'', srv_version = ''26.09.19b1'', srv_load = replicate 8 0,
    srv_sessions_summary_json = [], srv_host_stats_json = [], srv_latency_json = []\<rparr>"
  have "\<exists>b. serialize_msg (MServerInfo ?m) = Inr b"
    by (simp add: ser_ServerInfoMsg_def ser_seq.simps ser_str_prefixed_u16_def wire_simps ser_when_def)
  then obtain b where b: "serialize_msg (MServerInfo ?m) = Inr b" by blast
  from server_info_of_length_ten_is_misread [OF this] b show ?thesis by auto
qed

end
