(* ===== verification/Framing.thy ===== *)
theory Framing
  imports Prelude
begin

text \<open>
  The contract of a receiver of a byte stream that is cut into frames: a complete frame in
  front of the buffer is taken off and a proper prefix of a frame waits for more bytes.
  Every receive loop of the program appends what it read to its buffer and drains it; under
  the contract the messages it delivers do not depend on how the stream was cut by the
  transport. The mesh transport and the session worker's socket both keep it.
\<close>

text \<open>Append each chunk to the buffer and drain: the messages in order and the final buffer, or
  nothing when a drain reports a protocol error.\<close>

fun feed :: "('b list \<Rightarrow> ('m list \<times> 'b list) option) \<Rightarrow> 'b list \<Rightarrow> 'b list list
    \<Rightarrow> ('m list \<times> 'b list) option" where
  "feed drain buf [] = Some ([], buf)"
| "feed drain buf (c # cs) =
     (case drain (buf @ c) of
        None \<Rightarrow> None
      | Some (ms, rest) \<Rightarrow>
          (case feed drain rest cs of None \<Rightarrow> None | Some (ms', rest') \<Rightarrow> Some (ms @ ms', rest')))"

locale stream_framing =
  fixes frame :: "'m \<Rightarrow> 'b list \<Rightarrow> bool"
    and drain :: "'b list \<Rightarrow> ('n list \<times> 'b list) option"
    and deliver :: "'m \<Rightarrow> 'n"
  assumes front: "frame m f \<Longrightarrow>
      drain (f @ r) = map_option (\<lambda>(ms, q). (deliver m # ms, q)) (drain r)"
    and incomplete: "frame m f \<Longrightarrow> f = p @ q \<Longrightarrow> q \<noteq> [] \<Longrightarrow> drain p = Some ([], p)"
    and empty_buffer: "drain [] = Some ([], [])"
begin

text \<open>A buffer that holds a prefix of a sequence of frames gives the frames it holds
  completely, and the rest waits.\<close>

lemma drain_prefix:
  "list_all2 frame ms fs \<Longrightarrow> p @ q = concat fs \<Longrightarrow>
   \<exists>j rest. j \<le> length ms \<and> drain p = Some (map deliver (take j ms), rest) \<and>
            rest @ q = concat (drop j fs)"
proof (induction arbitrary: p rule: list_all2_induct)
  case Nil
  then show ?case using empty_buffer by simp
next
  case (Cons m ms f fs)
  show ?case
  proof (cases "length f \<le> length p")
    case True
    with Cons.prems obtain p' where p: "p = f @ p'" "p' @ q = concat fs"
      by (auto simp: append_eq_append_conv2)
    from Cons.IH [OF p(2)] obtain j rest where
      "j \<le> length ms" "drain p' = Some (map deliver (take j ms), rest)"
      "rest @ q = concat (drop j fs)" by blast
    with front [OF Cons.hyps(1), of p'] p(1) show ?thesis
      by (intro exI [of _ "Suc j"]) auto
  next
    case False
    with Cons.prems obtain r where "f = p @ r" "r \<noteq> []"
      by (auto simp: append_eq_append_conv2)
    with incomplete [OF Cons.hyps(1)] Cons.prems show ?thesis
      by (intro exI [of _ 0]) auto
  qed
qed

lemma drain_all: "list_all2 frame ms fs \<Longrightarrow> drain (concat fs) = Some (map deliver ms, [])"
proof (induction rule: list_all2_induct)
  case Nil
  then show ?case using empty_buffer by simp
next
  case (Cons m ms f fs)
  from front [OF Cons.hyps(1), of "concat fs"] Cons.IH show ?case by simp
qed

lemma drain_all_and_part:
  "list_all2 frame ms fs \<Longrightarrow> frame m f \<Longrightarrow> f = p @ q \<Longrightarrow> q \<noteq> [] \<Longrightarrow>
   drain (concat fs @ p) = Some (map deliver ms, p)"
proof (induction rule: list_all2_induct)
  case Nil
  then show ?case using incomplete by simp
next
  case (Cons m' ms f' fs)
  from front [OF Cons.hyps(1), of "concat fs @ p"] Cons show ?case by simp
qed

text \<open>Whatever way a sequence of frames is cut into chunks, all of its messages are
  delivered, once and in order, and nothing stays in the buffer.\<close>

lemma feed_all:
  "list_all2 frame ms fs \<Longrightarrow> buf @ concat cs = concat fs \<Longrightarrow> cs \<noteq> [] \<Longrightarrow>
   feed drain buf cs = Some (map deliver ms, [])"
proof (induction cs arbitrary: buf ms fs)
  case (Cons c cs)
  from drain_prefix [OF Cons.prems(1), of "buf @ c" "concat cs"] Cons.prems(2)
  obtain j rest where j: "j \<le> length ms" "drain (buf @ c) = Some (map deliver (take j ms), rest)"
    "rest @ concat cs = concat (drop j fs)" by auto
  have all2: "list_all2 frame (drop j ms) (drop j fs)"
    using Cons.prems(1) by (rule list_all2_dropI)
  show ?case
  proof (cases cs)
    case Nil
    with Cons.prems(2) drain_all [OF Cons.prems(1)] show ?thesis by simp
  next
    case (Cons c' cs')
    with Cons.IH [OF all2 j(3)] j show ?thesis
      by (simp flip: map_append)
  qed
qed simp

end

end
