(* ===== verification/Frame.thy ===== *)
theory Frame
  imports Decoder Framing
begin

text \<open>
  Framing: \<open>encode\<close>, \<open>frame_header_layout\<close> and \<open>decode\<close> of bs-codec.h and the frame I/O of
  bs-tls.h. The zstd library is the parameter \<open>Z\<close>: what its three functions return on an
  input. What the TLS library returns is an input too: the list of the results of the calls
  of \<open>SSL_read_ex\<close> and \<open>SSL_write_ex\<close>, in their order.
\<close>

section \<open>Constants\<close>

definition CONTROL_STREAM_ID :: u16 where "CONTROL_STREAM_ID = 0"
definition FRAME_HEADER_SIZE_U16 :: nat where "FRAME_HEADER_SIZE_U16 = 6"
definition FRAME_HEADER_SIZE_U32 :: nat where "FRAME_HEADER_SIZE_U32 = 8"
definition COMPRESSION_THRESHOLD :: nat where "COMPRESSION_THRESHOLD = 256"

definition FLAG_COMPRESSED :: byte where "FLAG_COMPRESSED = 0x01"
definition FLAG_CONTROL :: byte where "FLAG_CONTROL = 0x02"
definition FLAG_LENGTH_U32 :: byte where "FLAG_LENGTH_U32 = 0x08"

lemmas frame_consts = CONTROL_STREAM_ID_def FRAME_HEADER_SIZE_U16_def FRAME_HEADER_SIZE_U32_def
  COMPRESSION_THRESHOLD_def FLAG_COMPRESSED_def FLAG_CONTROL_def FLAG_LENGTH_U32_def
  MAX_FRAME_PAYLOAD_U16_def MAX_FRAME_PAYLOAD_U32_def

section \<open>zstd\<close>

datatype content_size = CONTENTSIZE_ERROR | CONTENTSIZE_UNKNOWN | CONTENTSIZE nat

record zstd_lib =
  ZSTD_compress :: "bytes \<Rightarrow> bytes result"
  ZSTD_getFrameContentSize :: "bytes \<Rightarrow> content_size"
  ZSTD_decompress :: "nat \<Rightarrow> bytes \<Rightarrow> bytes result"

definition zstd_compress :: "zstd_lib \<Rightarrow> bytes \<Rightarrow> bytes result" where
  "zstd_compress Z d =
     (case ZSTD_compress Z d of Inl e \<Rightarrow> Inl (''zstd compress: '' @ e) | Inr out \<Rightarrow> Inr out)"

definition zstd_decompress :: "zstd_lib \<Rightarrow> bytes \<Rightarrow> bytes result" where
  "zstd_decompress Z d =
     (case ZSTD_getFrameContentSize Z d of
        CONTENTSIZE_ERROR \<Rightarrow> Inl ''zstd: invalid frame''
      | CONTENTSIZE_UNKNOWN \<Rightarrow> Inl ''zstd: unknown decompressed size''
      | CONTENTSIZE bound \<Rightarrow>
          if bound > MAX_FRAME_PAYLOAD_U32
          then Inl ''zstd: decompressed frame exceeds MAX_FRAME_PAYLOAD_U32''
          else case ZSTD_decompress Z bound d of
            Inl e \<Rightarrow> Inl (''zstd decompress: '' @ e)
          | Inr out \<Rightarrow>
              if length out > MAX_FRAME_PAYLOAD_U32
              then Inl ''zstd: decoded frame exceeds MAX_FRAME_PAYLOAD_U32''
              else Inr out)"

text \<open>A chunk that starts with the magic number of zstd is decompressed, and kept as it is
  when that fails.\<close>

definition decompress_chunk_payload :: "zstd_lib \<Rightarrow> bytes \<Rightarrow> bytes" where
  "decompress_chunk_payload Z d =
     (if take 4 d = [0x28, 0xB5, 0x2F, 0xFD]
      then case zstd_decompress Z d of Inl _ \<Rightarrow> d | Inr out \<Rightarrow> out
      else d)"

text \<open>What the zstd manual promises of a frame made by \<open>ZSTD_compressCCtx\<close>: it is not empty,
  it records the size of its content and decompresses to it.\<close>

definition zstd_documented :: "zstd_lib \<Rightarrow> bool" where
  "zstd_documented Z \<longleftrightarrow>
     (\<forall>d c. ZSTD_compress Z d = Inr c \<longrightarrow>
        c \<noteq> [] \<and> ZSTD_getFrameContentSize Z c = CONTENTSIZE (length d) \<and>
        ZSTD_decompress Z (length d) c = Inr d)"

lemma zstd_round_trip:
  "zstd_documented Z \<Longrightarrow> zstd_compress Z d = Inr c \<Longrightarrow> length d \<le> MAX_FRAME_PAYLOAD_U32 \<Longrightarrow>
   zstd_decompress Z c = Inr d \<and> c \<noteq> []"
  by (fastforce simp: zstd_documented_def zstd_compress_def zstd_decompress_def
      split: sum.splits)

section \<open>Encoding\<close>

definition frame_bytes :: "u16 \<Rightarrow> byte \<Rightarrow> byte \<Rightarrow> bytes \<Rightarrow> bytes \<Rightarrow> bytes" where
  "frame_bytes stream ty flags len payload = write_u16 stream @ [ty, flags] @ len @ payload"

definition encode :: "zstd_lib \<Rightarrow> Message \<Rightarrow> u16 \<Rightarrow> bool \<Rightarrow> bytes result" where
  "encode Z msg stream_id allow_large =
     bindR (serialize_msg msg) (\<lambda>logical.
     let logical_cap = (if allow_large then MAX_FRAME_PAYLOAD_U32 else MAX_FRAME_PAYLOAD_U16) in
     if length logical > logical_cap then Inl ''logical payload exceeds frame capacity''
     else
       let compress = (length logical > COMPRESSION_THRESHOLD) in
       bindR (if compress then zstd_compress Z logical else Inr logical) (\<lambda>payload.
       let flags = (if compress then FLAG_COMPRESSED else 0)
                     OR (if stream_id = CONTROL_STREAM_ID then FLAG_CONTROL else 0);
           use_u32 = (allow_large \<and> length payload > MAX_FRAME_PAYLOAD_U16);
           ty = type_byte (message_type msg) in
       if use_u32 then
         if length payload > MAX_FRAME_PAYLOAD_U32
         then Inl ''encoded payload exceeds MAX_FRAME_PAYLOAD_U32''
         else Inr (frame_bytes stream_id ty (flags OR FLAG_LENGTH_U32)
                     (write_u32be (word_of_nat (length payload))) payload)
       else if length payload > MAX_FRAME_PAYLOAD_U16
       then Inl ''encoded payload exceeds MAX_FRAME_PAYLOAD_U16 (peer lacks +frm2)''
       else Inr (frame_bytes stream_id ty flags (write_u16 (word_of_nat (length payload)))
                   payload)))"

section \<open>Decoding\<close>

definition frame_header_layout :: "bytes \<Rightarrow> (nat \<times> nat) result" where
  "frame_header_layout p =
     (if length p < FRAME_HEADER_SIZE_U16 then Inl ''frame header truncated''
      else if p ! 3 AND FLAG_LENGTH_U32 \<noteq> 0 then
        if length p < FRAME_HEADER_SIZE_U32 then Inl ''frame u32 header truncated''
        else let len = unat (read_u32be (p ! 4) (p ! 5) (p ! 6) (p ! 7)) in
          if len > MAX_FRAME_PAYLOAD_U32
          then Inl ''frame payload exceeds MAX_FRAME_PAYLOAD_U32''
          else Inr (FRAME_HEADER_SIZE_U32, len)
      else Inr (FRAME_HEADER_SIZE_U16, unat (read_u16 (p ! 4) (p ! 5))))"

definition decode :: "zstd_lib \<Rightarrow> bytes \<Rightarrow> Message result" where
  "decode Z raw =
     (if length raw < FRAME_HEADER_SIZE_U16 then Inl ''frame too short''
      else bindR (frame_header_layout raw) (\<lambda>(hdr, len).
        if length raw < hdr + len then Inl ''frame truncated''
        else
          let body = take len (drop hdr raw) in
          bindR (if raw ! 3 AND FLAG_COMPRESSED \<noteq> 0 \<and> len > 0 then zstd_decompress Z body
                 else Inr body) (\<lambda>payload.
          if length payload > MAX_FRAME_PAYLOAD_U32
          then Inl ''decoded payload exceeds MAX_FRAME_PAYLOAD_U32''
          else decode_payload (raw ! 2) payload)))"

section \<open>Draining a buffer\<close>

definition detect_frame_length :: "bytes \<Rightarrow> nat result" where
  "detect_frame_length p = bindR (frame_header_layout p) (\<lambda>(hdr, len). Inr len)"

definition buffered_bytes_hold_complete_frame :: "bytes \<Rightarrow> bool" where
  "buffered_bytes_hold_complete_frame p =
     (if length p < FRAME_HEADER_SIZE_U16 then False
      else case frame_header_layout p of
        Inl _ \<Rightarrow> True
      | Inr (hdr, len) \<Rightarrow> if length p < hdr then False else length p \<ge> hdr + len)"

lemma frame_header_layout_positive:
  "frame_header_layout p = Inr (hdr, len) \<Longrightarrow> 0 < hdr"
  by (auto simp: frame_header_layout_def frame_consts Let_def split: if_splits)

text \<open>The loop of \<open>drain_complete_frames\<close>: the messages in front of the buffer and what is
  left of it; every turn removes at least a header.\<close>

function drain_loop :: "zstd_lib \<Rightarrow> bytes \<Rightarrow> (Message list \<times> bytes) result" where
  "drain_loop Z p =
     (if length p < FRAME_HEADER_SIZE_U16 then Inr ([], p)
      else case frame_header_layout p of
        Inl e \<Rightarrow> Inl e
      | Inr (hdr, len) \<Rightarrow>
          if length p < hdr then Inr ([], p)
          else if length p < hdr + len then Inr ([], p)
          else bindR (decode Z (take (hdr + len) p)) (\<lambda>m.
               bindR (drain_loop Z (drop (hdr + len) p)) (\<lambda>(ms, rest).
               Inr (m # ms, rest))))"
  by pat_completeness auto
termination
  by (relation "measure (\<lambda>(Z, p). length p)")
    (auto simp: FRAME_HEADER_SIZE_U16_def dest: frame_header_layout_positive)

declare drain_loop.simps [simp del]

text \<open>An exception leaves the buffer as it was: the \<open>erase\<close> after the loop is not reached.\<close>

definition drain_complete_frames :: "zstd_lib \<Rightarrow> bytes \<Rightarrow> Message list result \<times> bytes" where
  "drain_complete_frames Z buffered =
     (case drain_loop Z buffered of
        Inl e \<Rightarrow> (Inl e, buffered)
      | Inr (ms, rest) \<Rightarrow> (Inr ms, rest))"

section \<open>Results of the TLS library\<close>

text \<open>
  One call of \<open>SSL_read_ex\<close> returns bytes, or asks to be repeated (with the cancel flag that
  the caller reads next), or reports that the peer closed, or fails. A call returns at most
  the bytes that were asked for; what is left of a record stays for the next call. After
  the end of the list the connection stays idle.
\<close>

datatype ssl_want = WANT_READ | WANT_WRITE

datatype ssl_read = SslData bytes | SslWant ssl_want bool | SslZeroReturn | SslFail

fun ssl_read_ex :: "nat \<Rightarrow> ssl_read list \<Rightarrow> ssl_read \<times> ssl_read list" where
  "ssl_read_ex limit [] = (SslWant WANT_READ False, [])"
| "ssl_read_ex limit (SslData d # evs) =
     (SslData (take limit d), if length d > limit then SslData (drop limit d) # evs else evs)"
| "ssl_read_ex limit (ev # evs) = (ev, evs)"

section \<open>Blocking read\<close>

text \<open>
  The read loops of \<open>read_frame\<close>: read exactly \<open>need\<close> bytes. \<open>budget\<close> counts the tolerated
  repetitions (400 waits of 25 ms); it is shared by the loops of one frame. \<open>op\<close> is the name
  in the exception; the OpenSSL error text that follows it is not modelled.
\<close>

function read_exact :: "string \<Rightarrow> nat \<Rightarrow> nat \<Rightarrow> ssl_read list \<Rightarrow> (bytes \<times> nat \<times> ssl_read list) result"
where
  "read_exact op budget need evs =
     (if need = 0 then Inr ([], budget, evs)
      else case ssl_read_ex need evs of
        (SslData d, evs') \<Rightarrow>
          bindR (read_exact op budget (need - length d) evs')
            (\<lambda>(rest, b, evs''). Inr (d @ rest, b, evs''))
      | (SslWant _ cancelled, evs') \<Rightarrow>
          if cancelled \<or> budget \<le> 1 then Inl (op @ '' failed'')
          else read_exact op (budget - 1) need evs'
      | (_, evs') \<Rightarrow> Inl (op @ '' failed''))"
  by pat_completeness auto
termination
proof (relation "measure (\<lambda>(op, budget, need, evs). need + length evs + budget)", goal_cases)
  case (2 op budget need evs x evs' d)
  then show ?case
    by (cases "(need, evs)" rule: ssl_read_ex.cases) (auto split: if_splits)
next
  case (3 op budget need evs x evs' w c)
  then show ?case
    by (cases "(need, evs)" rule: ssl_read_ex.cases) auto
qed simp

declare read_exact.simps [simp del]

text \<open>The second part of the header and the payload length (lines 815 to 832).\<close>

definition read_frame_length ::
  "bytes \<Rightarrow> nat \<Rightarrow> ssl_read list \<Rightarrow> (bytes \<times> nat \<times> nat \<times> ssl_read list) result"
where
  "read_frame_length h budget evs =
     (if h ! 3 AND FLAG_LENGTH_U32 \<noteq> 0 then
        bindR (read_exact ''SSL_read u32 header'' budget
                 (FRAME_HEADER_SIZE_U32 - FRAME_HEADER_SIZE_U16) evs) (\<lambda>(h2, budget2, evs2).
        let hdr = h @ h2; len = unat (read_u32be (hdr ! 4) (hdr ! 5) (hdr ! 6) (hdr ! 7)) in
        if len > MAX_FRAME_PAYLOAD_U32
        then Inl ''frame payload exceeds MAX_FRAME_PAYLOAD_U32''
        else Inr (hdr, len, budget2, evs2))
      else Inr (h, unat (read_u16 (h ! 4) (h ! 5)), budget, evs))"

definition read_frame :: "zstd_lib \<Rightarrow> ssl_read list \<Rightarrow> (Message \<times> ssl_read list) result" where
  "read_frame Z evs =
     bindR (read_exact ''SSL_read header'' 400 FRAME_HEADER_SIZE_U16 evs) (\<lambda>(h, budget, evs1).
     bindR (read_frame_length h budget evs1) (\<lambda>(hdr, len, budget3, evs3).
     bindR (read_exact ''SSL_read payload'' budget3 len evs3) (\<lambda>(body, _, evs4).
     bindR (decode Z (hdr @ body)) (\<lambda>m. Inr (m, evs4)))))"

section \<open>Non-blocking frame I/O\<close>

text \<open>\<open>pending\<close> is what \<open>SSL_pending\<close> returns, \<open>peek n\<close> the bytes that \<open>SSL_peek_ex\<close> gives when
  \<open>n\<close> are asked for.\<close>

definition ssl_has_complete_buffered_frame :: "nat \<Rightarrow> (nat \<Rightarrow> bytes) \<Rightarrow> bool result" where
  "ssl_has_complete_buffered_frame pending peek =
     (if pending < FRAME_HEADER_SIZE_U16 then Inr False
      else if length (peek FRAME_HEADER_SIZE_U16) < FRAME_HEADER_SIZE_U16 then Inr False
      else
        let large = (peek FRAME_HEADER_SIZE_U16 ! 3 AND FLAG_LENGTH_U32 \<noteq> 0);
            hdr = (if large then FRAME_HEADER_SIZE_U32 else FRAME_HEADER_SIZE_U16);
            header = peek hdr in
        if large \<and> pending < FRAME_HEADER_SIZE_U32 then Inr False
        else if large \<and> length header < FRAME_HEADER_SIZE_U32 then Inr False
        else if buffered_bytes_hold_complete_frame header then Inr True
        else bindR (detect_frame_length header) (\<lambda>len. Inr (pending \<ge> hdr + len)))"

definition kHandshakeReadBudget :: nat where "kHandshakeReadBudget = 64 * 1024"
definition kHandshakeBufferCap :: nat where "kHandshakeBufferCap = 1024 * 1024"
definition kReadChunk :: nat where "kReadChunk = 4096"

text \<open>The read loop of \<open>read_frame_nonblocking\<close>. Its state on every exit: a possible
  exception, the buffer, the wanted direction and the results not consumed.\<close>

function rx_loop :: "nat \<Rightarrow> bytes \<Rightarrow> ssl_read list \<Rightarrow> unit result \<times> bytes \<times> ssl_want \<times> ssl_read list"
where
  "rx_loop read_this_call rx evs =
     (if read_this_call \<ge> kHandshakeReadBudget then (Inr (), rx, WANT_READ, evs)
      else case ssl_read_ex kReadChunk evs of
        (SslData d, evs') \<Rightarrow>
          if d = [] then (Inl ''SSL_read failed during handshake'', rx, WANT_READ, evs')
          else if length rx > kHandshakeBufferCap - length d
          then (Inl ''handshake frame exceeds buffer cap'', rx, WANT_READ, evs')
          else if buffered_bytes_hold_complete_frame (rx @ d)
          then (Inr (), rx @ d, WANT_READ, evs')
          else rx_loop (read_this_call + length d) (rx @ d) evs'
      | (SslWant w _, evs') \<Rightarrow> (Inr (), rx, w, evs')
      | (SslZeroReturn, evs') \<Rightarrow> (Inr (), rx, WANT_READ, evs')
      | (SslFail, evs') \<Rightarrow> (Inl ''SSL_read failed during handshake'', rx, WANT_READ, evs'))"
  by pat_completeness auto
termination
proof (relation "measure (\<lambda>(n, rx, evs). (kHandshakeReadBudget - n) + length evs)", goal_cases)
  case (2 n rx evs x evs' d)
  then show ?case
    by (cases "(kReadChunk, evs)" rule: ssl_read_ex.cases) (auto split: if_splits)
qed simp

declare rx_loop.simps [simp del]

definition read_frame_nonblocking ::
  "zstd_lib \<Rightarrow> bytes \<Rightarrow> ssl_read list \<Rightarrow> Message option result \<times> bytes \<times> ssl_want \<times> ssl_read list"
where
  "read_frame_nonblocking Z rx evs =
     (case rx_loop 0 rx evs of
        (Inl e, rx', w, evs') \<Rightarrow> (Inl e, rx', w, evs')
      | (Inr _, rx', w, evs') \<Rightarrow>
          if buffered_bytes_hold_complete_frame rx' then
            case drain_complete_frames Z rx' of
              (Inl e, rx'') \<Rightarrow> (Inl e, rx'', w, evs')
            | (Inr ms, rx'') \<Rightarrow>
                (Inr (case ms of [] \<Rightarrow> None | m # _ \<Rightarrow> Some m), rx'', w, evs')
          else (Inr None, rx', w, evs'))"

text \<open>One call of \<open>SSL_write_ex\<close>; the last component collects the bytes it accepted.\<close>

datatype ssl_write = SslWrote nat | SslWriteWant ssl_want | SslWriteFail

fun tx_loop :: "bytes \<Rightarrow> ssl_write list \<Rightarrow> bool result \<times> bytes \<times> ssl_want \<times> bytes" where
  "tx_loop [] evs = (Inr True, [], WANT_WRITE, [])"
| "tx_loop tx [] = (Inr False, tx, WANT_WRITE, [])"
| "tx_loop tx (SslWrote n # evs) =
     (if n = 0 then (Inl ''SSL_write failed during handshake'', tx, WANT_WRITE, [])
      else case tx_loop (drop n tx) evs of
        (r, tx', w, sent) \<Rightarrow> (r, tx', w, take n tx @ sent))"
| "tx_loop tx (SslWriteWant w # evs) = (Inr False, tx, w, [])"
| "tx_loop tx (SslWriteFail # evs) =
     (Inl ''SSL_write failed during handshake'', tx, WANT_WRITE, [])"

definition write_frame_nonblocking ::
  "zstd_lib \<Rightarrow> Message \<Rightarrow> u16 \<Rightarrow> bytes \<Rightarrow> ssl_write list \<Rightarrow> bool result \<times> bytes \<times> ssl_want \<times> bytes"
where
  "write_frame_nonblocking Z msg stream_id tx evs =
     (case (if tx = [] then encode Z msg stream_id False else Inr tx) of
        Inl e \<Rightarrow> (Inl e, tx, WANT_WRITE, [])
      | Inr tx0 \<Rightarrow> tx_loop tx0 evs)"

section \<open>Blocking write\<close>

text \<open>
  One turn of the loop of \<open>write_frame\<close>: the cancel flag before the call, its result, whether
  the deadline of 30 seconds has passed and the cancel flag after it. The last component of
  the result collects the accepted bytes; without further turns the socket stays full.
\<close>

record write_turn =
  wt_cancelled_before :: bool
  wt_result :: ssl_write
  wt_deadline_passed :: bool
  wt_cancelled_after :: bool

definition max_retries :: nat where "max_retries = 1000"

fun write_loop :: "bytes \<Rightarrow> nat \<Rightarrow> write_turn list \<Rightarrow> unit result \<times> bytes" where
  "write_loop tx retries [] =
     (if tx = [] then Inr () else Inl ''SSL_write failed after retries/deadline'', [])"
| "write_loop tx retries (t # ts) =
     (if tx = [] then (Inr (), [])
      else if retries \<ge> max_retries then (Inl ''SSL_write failed after retries/deadline'', [])
      else if wt_cancelled_before t then (Inl ''SSL_write cancelled'', [])
      else case wt_result t of
        SslWrote n \<Rightarrow>
          (case write_loop (drop n tx) 0 ts of (r, sent) \<Rightarrow> (r, take n tx @ sent))
      | SslWriteWant _ \<Rightarrow>
          if wt_deadline_passed t \<or> wt_cancelled_after t
          then (Inl ''SSL_write failed after retries/deadline'', [])
          else write_loop tx (Suc retries) ts
      | SslWriteFail \<Rightarrow> (Inl ''SSL_write failed'', []))"

definition write_frame ::
  "zstd_lib \<Rightarrow> Message \<Rightarrow> u16 \<Rightarrow> bool \<Rightarrow> write_turn list \<Rightarrow> unit result \<times> bytes"
where
  "write_frame Z msg stream_id allow_large ts =
     (case encode Z msg stream_id allow_large of
        Inl e \<Rightarrow> (Inl e, [])
      | Inr frame \<Rightarrow> write_loop frame 0 ts)"

section \<open>Frames\<close>

lemma length_frame_bytes [simp]:
  "length (frame_bytes s t f l p) = 4 + length l + length p"
  by (simp add: frame_bytes_def)

lemma nth_frame_bytes [simp]:
  "(frame_bytes s t f l p @ r) ! 2 = t"
  "(frame_bytes s t f l p @ r) ! 3 = f"
  "frame_bytes s t f l p ! 2 = t"
  "frame_bytes s t f l p ! 3 = f"
  by (simp_all add: frame_bytes_def write_u16_def numeral_2_eq_2 numeral_3_eq_3)

lemma nth_length_field:
  "frame_bytes s t f (write_u16 v) p @ r = [ucast (drop_bit 8 s), ucast (s AND 0xFF), t, f,
     ucast (drop_bit 8 v), ucast (v AND 0xFF)] @ p @ r"
  "frame_bytes s t f (write_u32be w) p @ r = [ucast (drop_bit 8 s), ucast (s AND 0xFF), t, f,
     ucast (drop_bit 24 w), ucast (drop_bit 16 w), ucast (drop_bit 8 w), ucast (w AND 0xFF)] @ p @ r"
  by (simp_all add: frame_bytes_def write_u16_def write_u32be_def)

lemma drop_header [simp]:
  "drop 6 (frame_bytes s t f (write_u16 v) p) = p"
  "drop 8 (frame_bytes s t f (write_u32be w) p) = p"
  using nth_length_field(1) [of s t f v p "[]"] nth_length_field(2) [of s t f w p "[]"]
  by simp_all

lemma layout_u16:
  "f AND FLAG_LENGTH_U32 = 0 \<Longrightarrow> n \<le> 65535 \<Longrightarrow>
   frame_header_layout (frame_bytes s t f (write_u16 (word_of_nat n)) p @ r) = Inr (6, n)"
  unfolding nth_length_field by (simp add: frame_header_layout_def frame_consts)

lemma layout_u32:
  "f AND FLAG_LENGTH_U32 \<noteq> 0 \<Longrightarrow> n \<le> MAX_FRAME_PAYLOAD_U32 \<Longrightarrow>
   frame_header_layout (frame_bytes s t f (write_u32be (word_of_nat n)) p @ r) = Inr (8, n)"
  unfolding nth_length_field by (simp add: frame_header_layout_def frame_consts Let_def)

text \<open>What a frame made by \<open>encode\<close> looks like.\<close>

definition frame_of :: "zstd_lib \<Rightarrow> Message \<Rightarrow> bool \<Rightarrow> bytes \<Rightarrow> bytes \<Rightarrow> byte \<Rightarrow> nat \<Rightarrow> bool" where
  "frame_of Z msg large fr payload flags hdr \<longleftrightarrow>
     (\<exists>logical. serialize_msg msg = Inr logical \<and> length logical \<le> MAX_FRAME_PAYLOAD_U32 \<and>
        (if length logical > COMPRESSION_THRESHOLD
         then flags AND FLAG_COMPRESSED \<noteq> 0 \<and> zstd_compress Z logical = Inr payload
         else flags AND FLAG_COMPRESSED = 0 \<and> payload = logical)) \<and>
     (\<forall>r. frame_header_layout (fr @ r) = Inr (hdr, length payload)) \<and>
     length fr = hdr + length payload \<and> drop hdr fr = payload \<and> 6 \<le> hdr \<and>
     fr ! 2 = type_byte (message_type msg) \<and> fr ! 3 = flags \<and>
     (hdr = 6 \<or> (large \<and> hdr = 8 \<and> 65535 < length payload)) \<and>
     (hdr = 6 \<longrightarrow> length payload \<le> 65535)"

lemma flag_bits:
  "((if c then FLAG_COMPRESSED else 0) OR (if k then FLAG_CONTROL else 0)) AND FLAG_LENGTH_U32 = 0"
  "((if c then FLAG_COMPRESSED else 0) OR (if k then FLAG_CONTROL else 0)) AND FLAG_COMPRESSED \<noteq> 0
     \<longleftrightarrow> c"
  "(((if c then FLAG_COMPRESSED else 0) OR (if k then FLAG_CONTROL else 0)) OR FLAG_LENGTH_U32)
     AND FLAG_COMPRESSED \<noteq> 0 \<longleftrightarrow> c"
  "(x OR FLAG_LENGTH_U32) AND FLAG_LENGTH_U32 \<noteq> 0"
proof -
  show "(x OR FLAG_LENGTH_U32) AND FLAG_LENGTH_U32 \<noteq> 0"
  proof -
    have "bit ((x OR FLAG_LENGTH_U32) AND FLAG_LENGTH_U32) 3"
      by (simp add: bit_simps FLAG_LENGTH_U32_def)
    then show ?thesis by force
  qed
qed (simp_all add: FLAG_LENGTH_U32_def FLAG_CONTROL_def FLAG_COMPRESSED_def)

lemma encode_frame_of:
  assumes "encode Z msg sid large = Inr fr"
  shows "\<exists>payload flags hdr. frame_of Z msg large fr payload flags hdr"
proof -
  from assms obtain logical where ser: "serialize_msg msg = Inr logical"
    by (auto simp: encode_def bindR_eq_Inr)
  define c where "c \<longleftrightarrow> length logical > COMPRESSION_THRESHOLD"
  from assms ser obtain payload where
    cap: "length logical \<le> (if large then MAX_FRAME_PAYLOAD_U32 else MAX_FRAME_PAYLOAD_U16)"
    and pay: "(if c then zstd_compress Z logical else Inr logical) = Inr payload"
    by (auto simp: encode_def c_def bindR_eq_Inr Let_def split: if_splits)
  define base where "base = (if c then FLAG_COMPRESSED else 0)
    OR (if sid = CONTROL_STREAM_ID then FLAG_CONTROL else 0)"
  define ty where "ty = type_byte (message_type msg)"
  from cap have cap32: "length logical \<le> MAX_FRAME_PAYLOAD_U32"
    by (auto simp: frame_consts split: if_splits)
  consider (large) "large" "65535 < length payload" "length payload \<le> MAX_FRAME_PAYLOAD_U32"
      "fr = frame_bytes sid ty (base OR FLAG_LENGTH_U32)
              (write_u32be (word_of_nat (length payload))) payload"
    | (small) "length payload \<le> 65535"
      "fr = frame_bytes sid ty base (write_u16 (word_of_nat (length payload))) payload"
  proof -
    have "encode Z msg sid large =
      (if large \<and> length payload > MAX_FRAME_PAYLOAD_U16
       then if length payload > MAX_FRAME_PAYLOAD_U32
         then Inl ''encoded payload exceeds MAX_FRAME_PAYLOAD_U32''
         else Inr (frame_bytes sid ty (base OR FLAG_LENGTH_U32)
                     (write_u32be (word_of_nat (length payload))) payload)
       else if length payload > MAX_FRAME_PAYLOAD_U16
       then Inl ''encoded payload exceeds MAX_FRAME_PAYLOAD_U16 (peer lacks +frm2)''
       else Inr (frame_bytes sid ty base (write_u16 (word_of_nat (length payload))) payload))"
      unfolding encode_def ser bindR_simps Let_def c_def [symmetric] pay base_def ty_def
      using cap by (simp add: not_less)
    with assms have "large \<and> 65535 < length payload \<and> length payload \<le> MAX_FRAME_PAYLOAD_U32 \<and>
        fr = frame_bytes sid ty (base OR FLAG_LENGTH_U32)
               (write_u32be (word_of_nat (length payload))) payload
      \<or> length payload \<le> 65535 \<and>
        fr = frame_bytes sid ty base (write_u16 (word_of_nat (length payload))) payload"
      by (auto simp: MAX_FRAME_PAYLOAD_U16_def not_less split: if_splits)
    then show thesis using that by blast
  qed
  moreover have "base AND FLAG_LENGTH_U32 = 0" "base AND FLAG_COMPRESSED \<noteq> 0 \<longleftrightarrow> c"
    "(base OR FLAG_LENGTH_U32) AND FLAG_COMPRESSED \<noteq> 0 \<longleftrightarrow> c"
    "(base OR FLAG_LENGTH_U32) AND FLAG_LENGTH_U32 \<noteq> 0"
    unfolding base_def by (rule flag_bits)+
  note bits = this
  ultimately show ?thesis
  proof cases
    case large
    then have "frame_of Z msg large fr payload (base OR FLAG_LENGTH_U32) 8"
      using ser cap32 pay bits
      by (cases c) (simp_all add: frame_of_def c_def ty_def layout_u32)
    then show ?thesis by blast
  next
    case small
    then have "frame_of Z msg large fr payload base 6"
      using ser cap32 pay bits
      by (cases c) (simp_all add: frame_of_def c_def ty_def layout_u16)
    then show ?thesis by blast
  qed
qed

lemma frame_of_layout:
  "frame_of Z msg large fr payload flags hdr \<Longrightarrow>
   frame_header_layout (fr @ r) = Inr (hdr, length payload)"
  by (simp add: frame_of_def)

lemma frame_of_size:
  "frame_of Z msg large fr payload flags hdr \<Longrightarrow> length fr = hdr + length payload"
  by (simp add: frame_of_def)

lemma decode_frame:
  assumes fr: "frame_of Z msg large fr payload flags hdr"
    and Z: "zstd_documented Z" and ok: "wire_ok msg"
  shows "decode Z fr = Inr (canon_msg msg)"
proof -
  from fr obtain logical where ser: "serialize_msg msg = Inr logical"
    and cap: "length logical \<le> MAX_FRAME_PAYLOAD_U32"
    and pay: "if length logical > COMPRESSION_THRESHOLD
         then flags AND FLAG_COMPRESSED \<noteq> 0 \<and> zstd_compress Z logical = Inr payload
         else flags AND FLAG_COMPRESSED = 0 \<and> payload = logical"
    by (auto simp: frame_of_def)
  from fr have l: "frame_header_layout fr = Inr (hdr, length payload)" "6 \<le> hdr"
    "length fr = hdr + length payload" "drop hdr fr = payload"
    "fr ! 2 = type_byte (message_type msg)" "fr ! 3 = flags"
    unfolding frame_of_def by (metis append_Nil2)+
  have "(if flags AND FLAG_COMPRESSED \<noteq> 0 \<and> length payload > 0 then zstd_decompress Z payload
         else Inr payload) = Inr logical"
    using pay zstd_round_trip [OF Z _ cap] by (auto split: if_splits)
  then show ?thesis
    using l cap payload_round_trip [OF ser ok]
    by (simp add: decode_def FRAME_HEADER_SIZE_U16_def)
qed

lemma drain_loop_frame:
  assumes "frame_of Z msg large fr payload flags hdr" "zstd_documented Z" "wire_ok msg"
  shows "drain_loop Z (fr @ r) =
    bindR (drain_loop Z r) (\<lambda>(ms, rest). Inr (canon_msg msg # ms, rest))"
  using frame_of_layout [OF assms(1), of r] frame_of_size [OF assms(1)] assms(1)
    decode_frame [OF assms]
  by (subst drain_loop.simps) (simp add: frame_of_def FRAME_HEADER_SIZE_U16_def)

section \<open>Streams of frames\<close>

lemma layout_prefix:
  "frame_header_layout (p @ q) = Inr (h, n) \<Longrightarrow> h \<le> length p \<Longrightarrow> frame_header_layout p = Inr (h, n)"
  by (auto simp: frame_header_layout_def frame_consts Let_def nth_append split: if_splits)

lemma drain_loop_incomplete:
  assumes fr: "frame_of Z msg large fr payload flags hdr" and p: "fr = p @ q" "q \<noteq> []"
    and cut: "hdr \<le> length p \<or> length p < 6"
  shows "drain_loop Z p = Inr ([], p)"
proof (cases "length p < 6")
  case True
  then show ?thesis by (subst drain_loop.simps) (simp add: FRAME_HEADER_SIZE_U16_def)
next
  case False
  with cut have "hdr \<le> length p" by simp
  with frame_of_layout [OF fr, of "[]"] p(1) have "frame_header_layout p = Inr (hdr, length payload)"
    by (auto intro: layout_prefix)
  moreover have "length p < hdr + length payload"
    using frame_of_size [OF fr] p by (cases q) auto
  ultimately show ?thesis
    using False by (subst drain_loop.simps) (simp add: FRAME_HEADER_SIZE_U16_def)
qed

text \<open>The frames that every peer understands: \<open>encode\<close> without large frames.\<close>

definition mesh_frame :: "zstd_lib \<Rightarrow> Message \<times> u16 \<Rightarrow> bytes \<Rightarrow> bool" where
  "mesh_frame Z x fr \<longleftrightarrow>
     zstd_documented Z \<and> wire_ok (fst x) \<and> encode Z (fst x) (snd x) False = Inr fr"

definition mesh_drain :: "zstd_lib \<Rightarrow> bytes \<Rightarrow> (Message list \<times> bytes) option" where
  "mesh_drain Z p =
     (case drain_complete_frames Z p of (Inl _, _) \<Rightarrow> None | (Inr ms, rest) \<Rightarrow> Some (ms, rest))"

lemma mesh_drain_loop:
  "mesh_drain Z p = (case drain_loop Z p of Inl _ \<Rightarrow> None | Inr z \<Rightarrow> Some z)"
  by (auto simp: mesh_drain_def drain_complete_frames_def split: sum.splits)

interpretation mesh_stream:
  stream_framing "mesh_frame Z" "mesh_drain Z" "\<lambda>x. canon_msg (fst x)" for Z
proof unfold_locales
  fix x f r
  assume f: "mesh_frame Z x f"
  then obtain payload flags hdr where "frame_of Z (fst x) False f payload flags hdr"
    using encode_frame_of by (fastforce simp: mesh_frame_def)
  from drain_loop_frame [OF this] f
  show "mesh_drain Z (f @ r) =
      map_option (\<lambda>(ms, q). (canon_msg (fst x) # ms, q)) (mesh_drain Z r)"
    by (auto simp: mesh_drain_loop mesh_frame_def split: sum.splits)
next
  fix x f p q
  assume f: "mesh_frame Z x f" and p: "f = p @ q" "q \<noteq> []"
  then obtain payload flags hdr where fr: "frame_of Z (fst x) False f payload flags hdr"
    using encode_frame_of by (fastforce simp: mesh_frame_def)
  then have "hdr = 6" by (auto simp: frame_of_def)
  with drain_loop_incomplete [OF fr p] have "drain_loop Z p = Inr ([], p)" by linarith
  then show "mesh_drain Z p = Some ([], p)"
    by (auto simp: mesh_drain_loop)
next
  show "mesh_drain Z [] = Some ([], [])"
    by (simp add: mesh_drain_loop drain_loop.simps FRAME_HEADER_SIZE_U16_def)
qed

section \<open>A store codec\<close>

text \<open>A codec that keeps the documented behaviour, for concrete instances: it stores its
  input behind the magic number.\<close>

definition store_zstd :: zstd_lib where
  "store_zstd = \<lparr>ZSTD_compress = (\<lambda>d. Inr ([0x28, 0xB5, 0x2F, 0xFD] @ d)),
     ZSTD_getFrameContentSize =
       (\<lambda>c. if length c < 4 then CONTENTSIZE_ERROR else CONTENTSIZE (length c - 4)),
     ZSTD_decompress = (\<lambda>n c. Inr (drop 4 c))\<rparr>"

lemma store_zstd_documented: "zstd_documented store_zstd"
  by (simp add: zstd_documented_def store_zstd_def)

lemma encode_sample:
  "encode store_zstd (MResize \<lparr>rsz_cols = 80, rsz_rows = 300\<rparr>) 7 False
     = Inr [0, 7, 3, 0, 0, 4, 0, 80, 1, 44]"
  "encode store_zstd MPing 0 False = Inr [0, 0, 10, 2, 0, 0]"
  by (simp_all add: encode_def ser_ResizeMsg_def wire_simps ser_seq.simps frame_consts Let_def
      frame_bytes_def write_u16_def)

section \<open>Properties\<close>

text \<open>C3. A message whose strings, lists and numbers are within the limits of the wire
  (\<open>wire_ok\<close>) and that \<open>encode\<close> accepts, on any stream and with or without large frames, is
  decoded to the same message, up to the two fields the wire narrows and the fields a
  \<open>JoinReply\<close> does not write. The compression library is assumed to behave as it is documented
  (\<open>zstd_documented\<close>).\<close>

theorem frame_round_trip:
  assumes "zstd_documented Z" "wire_ok msg" "encode Z msg stream_id allow_large = Inr fr"
  shows "decode Z fr = Inr (canon_msg msg)"
  using assms encode_frame_of decode_frame by blast

lemma frame_round_trip_witness:
  "encode store_zstd (MResize \<lparr>rsz_cols = 80, rsz_rows = 300\<rparr>) 7 False
     = Inr [0, 7, 3, 0, 0, 4, 0, 80, 1, 44] \<and>
   decode store_zstd [0, 7, 3, 0, 0, 4, 0, 80, 1, 44]
     = Inr (MResize \<lparr>rsz_cols = 80, rsz_rows = 300\<rparr>)"
proof -
  have e: "encode store_zstd (MResize \<lparr>rsz_cols = 80, rsz_rows = 300\<rparr>) 7 False
      = Inr [0, 7, 3, 0, 0, 4, 0, 80, 1, 44]" by (simp add: encode_sample)
  with frame_round_trip [OF store_zstd_documented _ e] show ?thesis by simp
qed

text \<open>C4. A sequence of frames with the standard header of 16 bits for the length
  (\<open>encode\<close> without large frames), of messages within the limits of the wire and with a
  compression library that behaves as documented (\<open>mesh_frame\<close>): whatever way the transport
  cuts their bytes into chunks, the receive loop that appends each chunk to its buffer and drains
  it delivers every message exactly once and in order, reports no error and leaves the buffer
  empty. Frames with the large header are not covered: there the property is false, a chunk that
  ends inside such a header makes the loop raise (\<open>split_large_header_is_an_error\<close>).\<close>

theorem chunked_stream_delivers_all:
  assumes "list_all2 (mesh_frame Z) sent frames" "concat chunks = concat frames" "chunks \<noteq> []"
  shows "feed (mesh_drain Z) [] chunks = Some (map (\<lambda>x. canon_msg (fst x)) sent, [])"
  using mesh_stream.feed_all [OF assms(1), of "[]" chunks] assms(2,3) by simp

lemma chunked_stream_delivers_all_witness:
  "feed (mesh_drain store_zstd) [] [[0, 7, 3, 0, 0], [4, 0, 80, 1, 44, 0, 0], [10, 2, 0, 0]]
     = Some ([MResize \<lparr>rsz_cols = 80, rsz_rows = 300\<rparr>, MPing], [])"
proof -
  have "encode store_zstd (MResize \<lparr>rsz_cols = 80, rsz_rows = 300\<rparr>) 7 False
      = Inr [0, 7, 3, 0, 0, 4, 0, 80, 1, 44]"
    "encode store_zstd MPing 0 False = Inr [0, 0, 10, 2, 0, 0]"
    by (simp_all add: encode_sample)
  then have "list_all2 (mesh_frame store_zstd)
      [(MResize \<lparr>rsz_cols = 80, rsz_rows = 300\<rparr>, 7), (MPing, 0)]
      [[0, 7, 3, 0, 0, 4, 0, 80, 1, 44], [0, 0, 10, 2, 0, 0]]"
    by (simp add: mesh_frame_def store_zstd_documented)
  from chunked_stream_delivers_all [OF this,
      of "[[0, 7, 3, 0, 0], [4, 0, 80, 1, 44, 0, 0], [10, 2, 0, 0]]"]
  show ?thesis by simp
qed

section \<open>Reading and writing through TLS\<close>

fun ev_bytes :: "ssl_read list \<Rightarrow> bytes" where
  "ev_bytes [] = []"
| "ev_bytes (SslData d # evs) = d @ ev_bytes evs"
| "ev_bytes (_ # evs) = ev_bytes evs"

fun ev_wants :: "ssl_read list \<Rightarrow> nat" where
  "ev_wants [] = 0"
| "ev_wants (SslWant _ _ # evs) = Suc (ev_wants evs)"
| "ev_wants (_ # evs) = ev_wants evs"

text \<open>A healthy connection: bytes and requests to repeat, none of them cancelled.\<close>

fun ev_healthy :: "ssl_read list \<Rightarrow> bool" where
  "ev_healthy [] = True"
| "ev_healthy (SslData d # evs) = ev_healthy evs"
| "ev_healthy (SslWant _ c # evs) = (\<not> c \<and> ev_healthy evs)"
| "ev_healthy (_ # evs) = False"

lemma read_exact_healthy:
  assumes "ev_healthy evs" "need \<le> length (ev_bytes evs)" "ev_wants evs < budget"
  shows "\<exists>b evs'. read_exact op budget need evs = Inr (take need (ev_bytes evs), b, evs') \<and>
    ev_healthy evs' \<and> ev_bytes evs' = drop need (ev_bytes evs) \<and> ev_wants evs' < b"
  using assms
proof (induction op budget need evs rule: read_exact.induct)
  case (1 op budget need evs)
  show ?case
  proof (cases "need = 0")
    case True
    with 1(3-5) show ?thesis by (simp add: read_exact.simps)
  next
    case need: False
    with 1(4) have "evs \<noteq> []" by auto
    then obtain e evs1 where evs: "evs = e # evs1" by (cases evs) auto
    show ?thesis
    proof (cases e)
      case (SslData d)
      define evs2 where "evs2 = (if length d > need then SslData (drop need d) # evs1 else evs1)"
      have step: "ssl_read_ex need evs = (SslData (take need d), evs2)"
        by (simp add: evs SslData evs2_def)
      have unf: "read_exact op budget need evs =
          bindR (read_exact op budget (need - length (take need d)) evs2)
            (\<lambda>(rest, b, es). Inr (take need d @ rest, b, es))"
        by (subst read_exact.simps) (simp add: need step)
      have "\<exists>b evs'. read_exact op budget (need - length (take need d)) evs2
          = Inr (take (need - length (take need d)) (ev_bytes evs2), b, evs') \<and>
        ev_healthy evs' \<and> ev_bytes evs' = drop (need - length (take need d)) (ev_bytes evs2) \<and>
        ev_wants evs' < b"
        using 1(3-5) need
        by (intro 1(1) [OF need step [symmetric] refl]) (auto simp: evs SslData evs2_def)
      then obtain b evs' where IH: "read_exact op budget (need - length (take need d)) evs2
          = Inr (take (need - length (take need d)) (ev_bytes evs2), b, evs')"
        "ev_healthy evs'" "ev_bytes evs' = drop (need - length (take need d)) (ev_bytes evs2)"
        "ev_wants evs' < b" by blast
      have bytes: "ev_bytes evs = take need d @ ev_bytes evs2"
        by (simp add: evs SslData evs2_def)
      show ?thesis
        using 1(4) IH unfolding unf bytes by simp
    next
      case (SslWant w c)
      with 1(3-5) evs have b: "\<not> c" "\<not> budget \<le> 1" by auto
      have step: "ssl_read_ex need evs = (SslWant w c, evs1)" by (simp add: evs SslWant)
      have unf: "read_exact op budget need evs = read_exact op (budget - 1) need evs1"
        by (subst read_exact.simps) (use need step b in simp)
      have "\<exists>b evs'. read_exact op (budget - 1) need evs1
          = Inr (take need (ev_bytes evs1), b, evs') \<and>
        ev_healthy evs' \<and> ev_bytes evs' = drop need (ev_bytes evs1) \<and> ev_wants evs' < b"
        using 1(3-5) b
        by (intro 1(2) [OF need step [symmetric] refl]) (auto simp: evs SslWant)
      then show ?thesis
        unfolding unf by (simp add: evs SslWant)
    qed (use 1(3) evs in auto)
  qed
qed

lemma tx_loop_spec:
  "tx_loop tx evs = (r, tx', w, sent) \<Longrightarrow> sent @ tx' = tx \<and> (r = Inr True \<longleftrightarrow> tx' = [])"
proof (induction tx evs arbitrary: r tx' w sent rule: tx_loop.induct)
  case (3 v va n evs)
  then show ?case
    by (cases "tx_loop (drop n (v # va)) evs") (auto split: if_splits)
qed auto

lemma rx_loop_cap:
  "rx_loop n rx evs = (r, rx', w, evs') \<Longrightarrow> length rx \<le> kHandshakeBufferCap \<Longrightarrow>
   length rx' \<le> kHandshakeBufferCap"
proof (induction n rx evs arbitrary: r rx' w evs' rule: rx_loop.induct)
  case (1 n rx evs)
  show ?case
  proof (cases "n \<ge> kHandshakeReadBudget")
    case True
    with 1(2,3) show ?thesis by (simp add: rx_loop.simps)
  next
    case False
    obtain e es where step: "ssl_read_ex kReadChunk evs = (e, es)" by (cases "ssl_read_ex kReadChunk evs")
    show ?thesis
    proof (cases e)
      case (SslData d)
      have "length d \<le> kReadChunk"
        using step SslData by (cases "(kReadChunk, evs)" rule: ssl_read_ex.cases) auto
      then have d: "length d \<le> kHandshakeBufferCap"
        by (simp add: kReadChunk_def kHandshakeBufferCap_def)
      show ?thesis
        using 1(2,3) False step SslData d 1(1) [OF False step [symmetric] SslData]
        by (subst (asm) rx_loop.simps) (auto split: if_splits)
    qed (use 1(2,3) False step in \<open>simp_all add: rx_loop.simps [of n rx evs]\<close>)
  qed
qed

lemma layout_cases:
  "frame_header_layout p = Inr (hdr, len) \<Longrightarrow>
   (if p ! 3 AND FLAG_LENGTH_U32 \<noteq> 0
    then hdr = 8 \<and> len = unat (read_u32be (p ! 4) (p ! 5) (p ! 6) (p ! 7)) \<and>
         \<not> len > MAX_FRAME_PAYLOAD_U32
    else hdr = 6 \<and> len = unat (read_u16 (p ! 4) (p ! 5)))"
  by (auto simp: frame_header_layout_def frame_consts Let_def split: if_splits)

lemma read_frame_length_healthy:
  assumes lay: "frame_header_layout fr = Inr (hdr, len)" and size: "hdr \<le> length fr"
    and evs: "ev_healthy evs" "ev_bytes evs = drop 6 fr @ behind" "ev_wants evs < b"
  shows "\<exists>b' evs'. read_frame_length (take 6 fr) b evs = Inr (take hdr fr, len, b', evs') \<and>
    ev_healthy evs' \<and> ev_bytes evs' = drop hdr fr @ behind \<and> ev_wants evs' < b'"
proof (cases "fr ! 3 AND FLAG_LENGTH_U32 \<noteq> 0")
  case True
  with layout_cases [OF lay] have hdr: "hdr = 8" by simp
  have enough: "2 \<le> length (ev_bytes evs)" using evs(2) size hdr by simp
  obtain b2 e2 where r2: "read_exact ''SSL_read u32 header'' b 2 evs
      = Inr (take 2 (drop 6 fr), b2, e2)"
    "ev_healthy e2" "ev_bytes e2 = drop 8 fr @ behind" "ev_wants e2 < b2"
    using read_exact_healthy [OF evs(1) enough evs(3), of "''SSL_read u32 header''"] evs size hdr
    by auto
  have "take 6 fr @ take 2 (drop 6 fr) = take 8 fr"
    using take_add [of 6 2 fr] by simp
  with r2 True hdr layout_cases [OF lay] show ?thesis
    by (simp add: Let_def read_frame_length_def frame_consts(2,3))
next
  case False
  with evs layout_cases [OF lay] show ?thesis by (simp add: read_frame_length_def)
qed

text \<open>The blocking \<open>read_frame\<close> returns the message of the next frame, however its bytes
  are cut into TLS records, as long as the connection asks for fewer than 400 repetitions
  within the frame, and leaves the bytes that follow the frame unread.\<close>

theorem read_frame_returns:
  assumes "zstd_documented Z" "wire_ok msg" "encode Z msg stream_id allow_large = Inr fr"
    and "ev_healthy evs" "ev_wants evs < 400" "ev_bytes evs = fr @ behind"
  shows "\<exists>evs'. read_frame Z evs = Inr (canon_msg msg, evs') \<and> ev_bytes evs' = behind"
proof -
  from encode_frame_of [OF assms(3)] obtain payload flags hdr where
    fr: "frame_of Z msg allow_large fr payload flags hdr" by blast
  from frame_of_layout [OF fr, of "[]"] have lay: "frame_header_layout fr = Inr (hdr, length payload)"
    by simp
  note size = frame_of_size [OF fr]
  from layout_cases [OF lay] have h: "hdr = (if fr ! 3 AND FLAG_LENGTH_U32 \<noteq> 0 then 8 else 6)"
    by (simp split: if_splits)
  obtain b1 e1 where r1: "read_exact ''SSL_read header'' 400 6 evs = Inr (take 6 fr, b1, e1)"
    "ev_healthy e1" "ev_bytes e1 = drop 6 fr @ behind" "ev_wants e1 < b1"
    using read_exact_healthy [of evs 6 400 "''SSL_read header''"] assms(4-6) size h
    by (auto split: if_splits)
  obtain b3 e3 where r3: "read_frame_length (take 6 fr) b1 e1
      = Inr (take hdr fr, length payload, b3, e3)"
    "ev_healthy e3" "ev_bytes e3 = drop hdr fr @ behind" "ev_wants e3 < b3"
    using read_frame_length_healthy [OF lay _ r1(2-4)] size by auto
  obtain b4 e4 where r4: "read_exact ''SSL_read payload'' b3 (length payload) e3
      = Inr (drop hdr fr, b4, e4)" "ev_bytes e4 = behind"
    using read_exact_healthy [of e3 "length payload" b3 "''SSL_read payload''"] r3(2-4) size
    by auto
  have "read_frame Z evs = Inr (canon_msg msg, e4)"
    using r1(1) r3(1) r4(1) decode_frame [OF fr assms(1,2)]
    by (simp add: read_frame_def FRAME_HEADER_SIZE_U16_def)
  with r4(2) show ?thesis by blast
qed

lemma read_frame_returns_witness:
  "\<exists>evs'. read_frame store_zstd
      [SslData [0, 7, 3], SslWant WANT_READ False, SslData [0, 0, 4, 0], SslData [80, 1, 44, 9]]
    = Inr (MResize \<lparr>rsz_cols = 80, rsz_rows = 300\<rparr>, evs') \<and> ev_bytes evs' = [9]"
  using read_frame_returns [OF store_zstd_documented _ encode_sample(1),
      of "[SslData [0, 7, 3], SslWant WANT_READ False, SslData [0, 0, 4, 0], SslData [80, 1, 44, 9]]"
         "[9]"]
  by simp

text \<open>A frame that \<open>write_frame_nonblocking\<close> could not send at once is completed by a
  later call: the bytes of the two calls are the frame, once and in order, whatever parts of
  it the socket accepted.\<close>

theorem nonblocking_write_resumes:
  assumes "encode Z msg stream_id False = Inr fr"
    and "write_frame_nonblocking Z msg stream_id [] evs1 = (Inr False, tx, w1, sent1)"
    and "write_frame_nonblocking Z msg stream_id tx evs2 = (Inr True, tx2, w2, sent2)"
  shows "sent1 @ sent2 = fr \<and> tx2 = []"
proof -
  have one: "sent1 @ tx = fr" "tx \<noteq> []"
    using assms(1,2) tx_loop_spec [of fr evs1 "Inr False" tx w1 sent1]
    by (auto simp: write_frame_nonblocking_def)
  moreover from one have "sent2 @ tx2 = tx \<and> tx2 = []"
    using assms(3) tx_loop_spec [of tx evs2 "Inr True" tx2 w2 sent2]
    by (auto simp: write_frame_nonblocking_def)
  ultimately show ?thesis by auto
qed

lemma nonblocking_write_resumes_witness:
  "[0, 0, 10] @ [2, 0, 0] = ([0, 0, 10, 2, 0, 0] :: bytes) \<and> ([] :: bytes) = []"
  by (rule nonblocking_write_resumes [OF encode_sample(2),
        of "[SslWrote 3, SslWriteWant WANT_READ]" "[2, 0, 0]" WANT_READ "[0, 0, 10]"
           "[SslWrote 1, SslWrote 2]" "[]" WANT_WRITE "[2, 0, 0]"])
    (simp_all add: write_frame_nonblocking_def encode_sample)

text \<open>The buffer of the non-blocking handshake reader never exceeds its cap of one
  mebibyte, whatever the peer sends.\<close>

theorem handshake_buffer_bounded:
  assumes "length rx \<le> kHandshakeBufferCap"
  shows "length (fst (snd (read_frame_nonblocking Z rx evs))) \<le> kHandshakeBufferCap"
proof -
  have le: "drain_loop Z p = Inr (ms, rest) \<Longrightarrow> length rest \<le> length p" for p ms rest
  proof (induction Z p arbitrary: ms rest rule: drain_loop.induct)
    case (1 Z p)
    from 1(2) show ?case
      by (subst (asm) drain_loop.simps)
        (fastforce simp: bindR_eq_Inr split: if_splits sum.splits dest: 1(1))
  qed
  obtain r rx' w evs' where "rx_loop 0 rx evs = (r, rx', w, evs')"
    by (cases "rx_loop 0 rx evs")
  with rx_loop_cap [OF this assms] le [of rx'] show ?thesis
    by (auto simp: read_frame_nonblocking_def drain_complete_frames_def split: sum.splits
        intro: order_trans)
qed

lemma handshake_buffer_bounded_witness:
  "length (fst (snd (read_frame_nonblocking store_zstd [] [SslData [0, 0]]))) \<le> kHandshakeBufferCap"
  using handshake_buffer_bounded [of "[]" store_zstd "[SslData [0, 0]]"] by simp

text \<open>A large frame whose first six or seven bytes have arrived is not waited for: the
  buffer counts as holding a complete frame and the drain reports a truncated header, which
  the receive loop takes for a protocol error, although the peer sent nothing wrong.\<close>

theorem split_large_header_is_an_error:
  assumes "encode Z msg stream_id True = Inr fr" "fr ! 3 AND FLAG_LENGTH_U32 \<noteq> 0"
    and "k = 6 \<or> k = 7"
  shows "buffered_bytes_hold_complete_frame (take k fr) \<and>
    drain_complete_frames Z (take k fr) = (Inl ''frame u32 header truncated'', take k fr)"
proof -
  from encode_frame_of [OF assms(1)] obtain payload flags hdr where
    fr: "frame_of Z msg True fr payload flags hdr" by blast
  from layout_cases [of fr hdr "length payload"] frame_of_layout [OF fr, of "[]"] assms(2)
  have "hdr = 8" by simp
  with frame_of_size [OF fr] assms(3) have len: "length (take k fr) = k" "6 \<le> k" "k < 8" by auto
  moreover have "take k fr ! 3 = fr ! 3" using len by simp
  ultimately have "frame_header_layout (take k fr) = Inl ''frame u32 header truncated''"
    using assms(2) by (simp add: frame_header_layout_def frame_consts(2,3))
  with len show ?thesis
    by (simp add: buffered_bytes_hold_complete_frame_def drain_complete_frames_def
        drain_loop.simps [of Z "take k fr"] frame_consts(2))
qed

lemma split_large_header_is_an_error_witness:
  "\<exists>fr. encode store_zstd (MKeystroke \<lparr>ks_data = replicate 70000 (CHR ''a'')\<rparr>) 0 True = Inr fr \<and>
     drain_complete_frames store_zstd (take 6 fr) = (Inl ''frame u32 header truncated'', take 6 fr)"
proof -
  let ?m = "MKeystroke \<lparr>ks_data = replicate 70000 (CHR ''a'')\<rparr>"
  let ?p = "[0x28, 0xB5, 0x2F, 0xFD] @ bytes_of_string (replicate 70000 (CHR ''a''))"
  have c: "zstd_compress store_zstd b = Inr ([0x28, 0xB5, 0x2F, 0xFD] @ b)" for b
    by (simp add: zstd_compress_def store_zstd_def)
  have e: "encode store_zstd ?m 0 True = Inr (frame_bytes 0 1 11 (write_u32be 70004) ?p)"
    by (simp add: encode_def ser_KeystrokeMsg_def wire_simps frame_consts Let_def c)
  have "frame_bytes 0 1 11 (write_u32be 70004) ?p ! 3 AND FLAG_LENGTH_U32 \<noteq> 0"
    by (simp add: FLAG_LENGTH_U32_def)
  from split_large_header_is_an_error [OF e this, of 6] e show ?thesis by blast
qed

text \<open>When two frames arrive together during the handshake, \<open>read_frame_nonblocking\<close>
  returns the first message and discards the second: it is taken off the buffer by the drain
  and never returned, so the next call waits for bytes that have already been read.\<close>

theorem handshake_reader_drops_second_frame:
  assumes "mesh_frame Z x f1" "mesh_frame Z y f2" "length (f1 @ f2) \<le> kReadChunk"
  shows "read_frame_nonblocking Z [] (SslData (f1 @ f2) # evs)
    = (Inr (Some (canon_msg (fst x))), [], WANT_READ, evs)"
proof -
  from assms(1) obtain payload flags hdr where fr: "frame_of Z (fst x) False f1 payload flags hdr"
    using encode_frame_of by (fastforce simp: mesh_frame_def)
  have ne: "f1 @ f2 \<noteq> []" using fr by (auto simp: frame_of_def)
  have whole: "buffered_bytes_hold_complete_frame (f1 @ f2)"
    using frame_of_layout [OF fr, of f2] frame_of_size [OF fr] fr
    by (simp add: buffered_bytes_hold_complete_frame_def frame_of_def frame_consts(2))
  have "mesh_drain Z (concat [f1, f2]) = Some (map (\<lambda>x. canon_msg (fst x)) [x, y], [])"
    by (rule mesh_stream.drain_all) (use assms(1,2) in simp)
  then have "drain_loop Z (f1 @ f2) = Inr ([canon_msg (fst x), canon_msg (fst y)], [])"
    by (simp add: mesh_drain_loop split: sum.splits)
  moreover have "rx_loop 0 [] (SslData (f1 @ f2) # evs) = (Inr (), f1 @ f2, WANT_READ, evs)"
    using ne whole assms(3)
    by (subst rx_loop.simps) (simp add: kHandshakeReadBudget_def)
  ultimately show ?thesis
    using whole by (simp add: read_frame_nonblocking_def drain_complete_frames_def)
qed

lemma handshake_reader_drops_second_frame_witness:
  "read_frame_nonblocking store_zstd []
      [SslData ([0, 7, 3, 0, 0, 4, 0, 80, 1, 44] @ [0, 0, 10, 2, 0, 0])]
    = (Inr (Some (MResize \<lparr>rsz_cols = 80, rsz_rows = 300\<rparr>)), [], WANT_READ, [])"
  using handshake_reader_drops_second_frame
    [of store_zstd "(MResize \<lparr>rsz_cols = 80, rsz_rows = 300\<rparr>, 7)" "[0, 7, 3, 0, 0, 4, 0, 80, 1, 44]"
       "(MPing, 0)" "[0, 0, 10, 2, 0, 0]" "[]"]
  by (simp add: mesh_frame_def store_zstd_documented encode_sample kReadChunk_def)

end
