(* ===== verification/Versions.thy ===== *)
theory Versions
  imports Prelude
begin

text \<open>
  Version strings and durations of bs-codec.h: capability tags, the calendar tags
  \<open>YY.MM.DD[-betaN]\<close>, their order, and \<open>human_duration\<close>.
\<close>

section \<open>Capability tags\<close>

function cap_loop :: "string \<Rightarrow> string \<Rightarrow> bool" where
  "cap_loop cap rest =
     (if rest = [] then False
      else case find_index (\<lambda>c. c = CHR ''+'') rest of
        None \<Rightarrow> rest = cap
      | Some next \<Rightarrow> take next rest = cap \<or> cap_loop cap (drop (Suc next) rest))"
  by pat_completeness auto
termination
  by (relation "measure (\<lambda>(cap, rest). length rest)") auto

declare cap_loop.simps [simp del]

definition version_has_cap :: "string \<Rightarrow> string \<Rightarrow> bool" where
  "version_has_cap version cap =
     (if cap = [] then False
      else case find_index (\<lambda>c. c = CHR ''+'') version of
        None \<Rightarrow> False
      | Some pos \<Rightarrow> cap_loop cap (drop (Suc pos) version))"

definition kCapFrm2 :: string where "kCapFrm2 = ''frm2''"
definition kCapEnroll :: string where "kCapEnroll = ''enroll''"
definition kCapFcp :: string where "kCapFcp = ''fcp''"

text \<open>\<open>kBridgeSessionsVersion\<close> comes from a generated header and is the argument.\<close>

definition version_string_with_local_caps :: "string \<Rightarrow> string" where
  "version_string_with_local_caps base =
     base @ ''+'' @ kCapFrm2 @ ''+'' @ kCapEnroll @ ''+'' @ kCapFcp"

definition version_core :: "string \<Rightarrow> string" where
  "version_core v =
     (case find_index (\<lambda>c. c = CHR ''+'') v of None \<Rightarrow> v | Some pos \<Rightarrow> take pos v)"

section \<open>Calendar tags\<close>

record VersionParts =
  vp_year :: nat
  vp_month :: nat
  vp_day :: nat
  vp_rest :: string
  vp_ok :: bool

definition no_version :: VersionParts where
  "no_version = \<lparr>vp_year = 0, vp_month = 0, vp_day = 0, vp_rest = [], vp_ok = False\<rparr>"

text \<open>The digit loops: at most \<open>k\<close> digits; the value, their number and what follows.\<close>

fun scan_digits :: "nat \<Rightarrow> nat \<Rightarrow> nat \<Rightarrow> string \<Rightarrow> nat \<times> nat \<times> string" where
  "scan_digits k val n [] = (val, n, [])"
| "scan_digits k val n (c # cs) =
     (if is_digit c \<and> n < k then scan_digits k (val * 10 + digit_val c) (Suc n) cs
      else (val, n, c # cs))"

definition parse_version_tag :: "string \<Rightarrow> VersionParts" where
  "parse_version_tag raw =
     (let v = version_core raw in
      if v = [] then no_version
      else case scan_digits 4 0 0 v of (year0, year_digits, r1) \<Rightarrow>
        if year_digits = 0 \<or> year_digits = 3 \<or> r1 = [] \<or> hd r1 \<noteq> CHR ''.'' then no_version
        else
          let year = (if year_digits = 2 then year0 + 2000 else year0) in
          case scan_digits 2 0 0 (tl r1) of (month, month_digits, r2) \<Rightarrow>
            if month_digits = 0 \<or> r2 = [] \<or> hd r2 \<noteq> CHR ''.'' then no_version
            else case scan_digits 2 0 0 (tl r2) of (day, day_digits, r3) \<Rightarrow>
              if day_digits = 0 \<or> month < 1 \<or> month > 12 \<or> day < 1 \<or> day > 31 then no_version
              else \<lparr>vp_year = year, vp_month = month, vp_day = day, vp_rest = r3, vp_ok = True\<rparr>)"

text \<open>\<open>operator<\<close> on strings: lexicographic on unsigned characters.\<close>

fun str_less :: "string \<Rightarrow> string \<Rightarrow> bool" where
  "str_less s [] = False"
| "str_less [] (d # t) = True"
| "str_less (c # s) (d # t) =
     (code_of c < code_of d \<or> (code_of c = code_of d \<and> str_less s t))"

definition version_is_older :: "string \<Rightarrow> string \<Rightarrow> bool" where
  "version_is_older remote local =
     (let r = parse_version_tag remote; l = parse_version_tag local in
      if \<not> vp_ok r \<or> \<not> vp_ok l then
        let rc = version_core remote; lc = version_core local in
        if rc = [] \<or> lc = [] \<or> rc = lc then False else str_less rc lc
      else if vp_year r \<noteq> vp_year l then vp_year r < vp_year l
      else if vp_month r \<noteq> vp_month l then vp_month r < vp_month l
      else if vp_day r \<noteq> vp_day l then vp_day r < vp_day l
      else if vp_rest r = vp_rest l then False
      else str_less (vp_rest r) (vp_rest l))"

section \<open>Durations\<close>

text \<open>The lambda \<open>push\<close> appends a value with its unit.\<close>

definition push_unit :: "string \<Rightarrow> nat \<Rightarrow> char \<Rightarrow> string" where
  "push_unit out v unit =
     (if out = [] \<and> v = 0 then out
      else if length out \<ge> 7 then out
      else (if out = [] then [] else out @ '' '') @ dec_digits v @ [unit])"

definition human_duration :: "nat \<Rightarrow> string" where
  "human_duration seconds =
     (let d = seconds div 86400; h = (seconds mod 86400) div 3600;
          m = (seconds mod 3600) div 60; s = seconds mod 60;
          out = push_unit (push_unit (push_unit (push_unit [] d (CHR ''d'')) h (CHR ''h''))
                  m (CHR ''m'')) s (CHR ''s'')
      in if out = [] then ''0s'' else out)"

section \<open>Lemmas\<close>

lemma str_less_irrefl [simp]: "\<not> str_less s s"
  by (induction s) auto

lemma str_less_trans: "str_less a b \<Longrightarrow> str_less b c \<Longrightarrow> str_less a c"
proof (induction a b arbitrary: c rule: str_less.induct)
  case (2 d t)
  then show ?case by (cases c) auto
next
  case (3 c' s d t)
  then show ?case by (cases c) auto
qed simp

lemma str_less_Nil [simp]: "str_less [] s \<longleftrightarrow> s \<noteq> []"
  by (cases s) auto

lemma str_less_total: "str_less a b \<or> a = b \<or> str_less b a"
  by (induction a b rule: str_less.induct) auto

text \<open>The tags of a version string.\<close>

lemma cap_loop_tags:
  assumes "\<forall>t\<in>set tags. CHR ''+'' \<notin> set t" "cap \<noteq> []" "CHR ''+'' \<notin> set t"
  shows "cap_loop cap (t @ concat (map ((#) (CHR ''+'')) tags)) \<longleftrightarrow> cap \<in> set (t # tags)"
  using assms
proof (induction tags arbitrary: t)
  case Nil
  then have "find_index (\<lambda>c. c = CHR ''+'') t = None" by (auto simp: find_index_None)
  with Nil show ?case by (subst cap_loop.simps) auto
next
  case (Cons u tags)
  from Cons.prems have "find_index (\<lambda>c. c = CHR ''+'')
      (t @ CHR ''+'' # u @ concat (map ((#) (CHR ''+'')) tags)) = Some (length t)"
    by (intro find_index_append) auto
  with Cons.IH [of u] Cons.prems show ?case
    by (subst cap_loop.simps) auto
qed

definition version_key :: "VersionParts \<Rightarrow> nat \<times> nat \<times> nat \<times> string" where
  "version_key p = (vp_year p, vp_month p, vp_day p, vp_rest p)"

lemma version_is_older_parsed:
  "vp_ok (parse_version_tag a) \<Longrightarrow> vp_ok (parse_version_tag b) \<Longrightarrow>
   version_is_older a b \<longleftrightarrow>
     (let (y, m, d, r) = version_key (parse_version_tag a);
          (y', m', d', r') = version_key (parse_version_tag b) in
      y < y' \<or> y = y' \<and> (m < m' \<or> m = m' \<and> (d < d' \<or> d = d' \<and> str_less r r')))"
  by (auto simp: version_is_older_def version_key_def Let_def)

section \<open>Properties\<close>

text \<open>A version string \<open>core+tag1+tag2...\<close> has exactly the capabilities it lists: a
  capability is found as a whole tag, never as a part of one or of the core.\<close>

theorem version_has_cap_iff:
  assumes "CHR ''+'' \<notin> set core" "\<forall>t\<in>set tags. CHR ''+'' \<notin> set t" "cap \<noteq> []"
  shows "version_has_cap (core @ concat (map ((#) (CHR ''+'')) tags)) cap \<longleftrightarrow> cap \<in> set tags"
proof (cases tags)
  case Nil
  with assms have "find_index (\<lambda>c. c = CHR ''+'') core = None" by (auto simp: find_index_None)
  with Nil show ?thesis by (simp add: version_has_cap_def)
next
  case (Cons t ts)
  with assms have "find_index (\<lambda>c. c = CHR ''+'')
      (core @ CHR ''+'' # t @ concat (map ((#) (CHR ''+'')) ts)) = Some (length core)"
    by (intro find_index_append) auto
  with cap_loop_tags [of ts cap t] assms Cons show ?thesis
    by (simp add: version_has_cap_def)
qed

lemma version_has_cap_iff_witness:
  "version_has_cap (''26.09.19'' @ concat (map ((#) (CHR ''+'')) [''frm2'', ''enroll''])) ''frm2''"
  using version_has_cap_iff [of "''26.09.19''" "[''frm2'', ''enroll'']" "''frm2''"] by simp

text \<open>On calendar tags \<open>version_is_older\<close> is a strict total order: irreflexive,
  transitive, and two tags of which neither is older agree in year, month, day and suffix,
  however many digits the year was written with.\<close>

theorem version_order_on_calendar_tags:
  assumes "vp_ok (parse_version_tag a)" "vp_ok (parse_version_tag b)" "vp_ok (parse_version_tag c)"
  shows "\<not> version_is_older a a \<and>
    (version_is_older a b \<and> version_is_older b c \<longrightarrow> version_is_older a c) \<and>
    (version_is_older a b \<or> version_is_older b a \<or> parse_version_tag a = parse_version_tag b)"
proof -
  have "version_is_older a b \<or> version_is_older b a \<or>
      version_key (parse_version_tag a) = version_key (parse_version_tag b)"
    using str_less_total by (force simp: version_is_older_parsed assms version_key_def)
  then have "version_is_older a b \<or> version_is_older b a \<or>
      parse_version_tag a = parse_version_tag b"
    using assms(1,2) by (auto simp: version_key_def)
  moreover have "version_is_older a b \<and> version_is_older b c \<longrightarrow> version_is_older a c"
    by (auto simp: version_is_older_parsed assms version_key_def intro: str_less_trans)
  moreover have "\<not> version_is_older a a"
    by (simp add: version_is_older_parsed assms version_key_def)
  ultimately show ?thesis by blast
qed

lemma tag_samples:
  "vp_ok (parse_version_tag ''2026.08.24-beta7'')" "vp_ok (parse_version_tag ''26.09.19-beta6'')"
  "vp_ok (parse_version_tag ''26.10.01'')"
  by code_simp+

lemma version_order_on_calendar_tags_witness:
  "version_is_older ''2026.08.24-beta7'' ''26.10.01''"
proof -
  have "version_is_older ''2026.08.24-beta7'' ''26.09.19-beta6''"
    "version_is_older ''26.09.19-beta6'' ''26.10.01''" by code_simp+
  with version_order_on_calendar_tags [OF tag_samples] show ?thesis by blast
qed

text \<open>The suffix is compared character by character: the tenth beta counts as older than
  the ninth, and a release counts as older than its own beta.\<close>

theorem beta_order_is_lexicographic:
  "version_is_older ''26.09.19-beta10'' ''26.09.19-beta9'' \<and>
   \<not> version_is_older ''26.09.19-beta9'' ''26.09.19-beta10'' \<and>
   version_is_older ''26.09.19'' ''26.09.19-beta1''"
  by code_simp

text \<open>A duration of days, hours and minutes whose first two values have one digit is
  printed with three units, one more than the cap the source's comment states.\<close>

theorem human_duration_prints_three_units:
  assumes "1 \<le> d" "d \<le> 9" "h \<le> 9" "m < 60" "s < 60"
  shows "human_duration (d * 86400 + h * 3600 + m * 60 + s) =
    dec_digits d @ ''d '' @ dec_digits h @ ''h '' @ dec_digits m @ ''m''"
proof -
  let ?t = "d * 86400 + h * 3600 + m * 60 + s"
  define x where "x = h * 3600 + m * 60 + s"
  have t: "?t = d * 86400 + x" and "x < 86400" using assms by (simp_all add: x_def)
  then have day: "?t div 86400 = d" "?t mod 86400 = h * 3600 + m * 60 + s"
    unfolding t x_def [symmetric] by simp_all
  have "(h * 3600 + m * 60 + s) div 3600 = h" using assms by simp
  then have hour: "(?t mod 86400) div 3600 = h" using day by simp
  have "?t = (d * 24 + h) * 3600 + (m * 60 + s)" by simp
  then have "?t mod 3600 = (m * 60 + s) mod 3600" by (simp only: mod_mult_self3)
  then have min: "(?t mod 3600) div 60 = m" using assms by simp
  have one: "length (dec_digits k) = 1" if "k \<le> 9" for k
    using that by (subst dec_digits.simps) simp
  have two: "1 \<le> length (dec_digits m)"
    using dec_digits_nonempty [of m] by (cases "dec_digits m") auto
  show ?thesis
    unfolding human_duration_def Let_def day(1) hour min
    using assms(1,2,3) two by (simp add: push_unit_def one)
qed

lemma human_duration_prints_three_units_witness: "human_duration 94215 = ''1d 2h 10m''"
  proof -
  have "dec_digits 1 = ''1''" "dec_digits 2 = ''2''" "dec_digits 10 = ''10''" by code_simp+
  with human_duration_prints_three_units [of 1 2 10 15] show ?thesis by simp
qed

end
