(* ===== verification/Bounded_Log.thy ===== *)
theory Bounded_Log
  imports Prelude
begin

text \<open>
  The contract of the program's bounded histories: an entry is appended at the end, and when
  the history is full the oldest one is dropped. The telemetry ring, the mesh event log, the
  conversation and chat histories and the buckets of the DHT keep it with their own
  capacities.
\<close>

locale bounded_log =
  fixes cap :: nat
    and append :: "'e list \<Rightarrow> 'e \<Rightarrow> 'e list"
  assumes room: "0 < cap"
    and append_free: "length es < cap \<Longrightarrow> append es e = es @ [e]"
    and append_full: "length es = cap \<Longrightarrow> append es e = tl es @ [e]"
begin

lemma append_bound: "length es \<le> cap \<Longrightarrow> length (append es e) \<le> cap"
  by (cases "length es = cap") (use room in \<open>auto simp: append_free append_full le_less\<close>)

lemma append_keeps_newest: "length es \<le> cap \<Longrightarrow> last (append es e) = e"
  by (cases "length es = cap") (auto simp: append_free append_full le_less)

text \<open>After any number of appends the history is exactly the newest entries, in order.\<close>

lemma newest: "foldl append [] es = drop (length es - cap) es"
proof (induction es rule: rev_induct)
  case (snoc e es)
  show ?case
  proof (cases "length es < cap")
    case True
    with snoc show ?thesis by (simp add: append_free)
  next
    case False
    then have len: "length (drop (length es - cap) es) = cap" by simp
    have "tl (drop (length es - cap) es) = drop (length es + 1 - cap) es"
      using False by (simp add: drop_Suc tl_drop Suc_diff_le not_less)
    with snoc len False room show ?thesis by (simp add: append_full)
  qed
qed simp

lemma bound: "length (foldl append [] es) \<le> cap"
  by (simp add: newest)

end

end
