(* ===== verification/File_Transfer.thy ===== *)
theory File_Transfer
  imports Frame Versions Text_Guards Bounded_Log
begin

text \<open>
  The rules of a file transfer in bs-codec.h: time budget, chunk size, the shape of a
  transfer and the check of a chunk, the timing sums, the telemetry ring and the reader of
  the IPC response.
\<close>

section \<open>Budgets and chunk sizes\<close>

definition transfer_overall_timeout :: "u64 \<Rightarrow> nat" where
  "transfer_overall_timeout bytes =
     (let secs = unat bytes div (256 * 1024);
          secs1 = (if secs < 300 then 300 else secs)
      in if secs1 > 7200 then 7200 else secs1)"

definition kTransferChunkRawSizeDefault :: nat where "kTransferChunkRawSizeDefault = 64 * 1024"
definition kTransferChunkRawSizeLarge :: nat where "kTransferChunkRawSizeLarge = 128 * 1024"
definition kTransferChunkRawSizeMin :: nat where "kTransferChunkRawSizeMin = 4 * 1024"
definition kTransferChunkRawSizeMax :: nat where "kTransferChunkRawSizeMax = 256 * 1024"

lemmas chunk_consts = kTransferChunkRawSizeDefault_def kTransferChunkRawSizeLarge_def
  kTransferChunkRawSizeMin_def kTransferChunkRawSizeMax_def

definition effective_transfer_chunk_size :: "u32 \<Rightarrow> nat \<Rightarrow> nat" where
  "effective_transfer_chunk_size declared max_allowed =
     (let max0 = min max_allowed kTransferChunkRawSizeMax;
          max_c = (if max0 < kTransferChunkRawSizeMin then kTransferChunkRawSizeMin else max0)
      in if declared = 0 then min kTransferChunkRawSizeDefault max_c
         else
           let v = unat declared;
               v1 = (if v < kTransferChunkRawSizeMin then kTransferChunkRawSizeMin else v)
           in if v1 > max_c then max_c else v1)"

definition transfer_chunk_size_for_peer :: "string \<Rightarrow> nat" where
  "transfer_chunk_size_for_peer remote_version =
     (if version_has_cap remote_version kCapFrm2 then kTransferChunkRawSizeLarge
      else kTransferChunkRawSizeDefault)"

section \<open>Timing and telemetry\<close>

text \<open>The sums and extremes of one phase of the chunks; the source keeps four phases.\<close>

record TransferChunkTiming =
  t_select_us :: int
  t_write_us :: int
  t_drain_us :: int
  t_total_us :: int
  t_select_min :: int
  t_select_max :: int
  t_write_min :: int
  t_write_max :: int
  t_drain_min :: int
  t_drain_max :: int
  t_total_min :: int
  t_total_max :: int
  t_count :: u32

definition INT64_MAX :: int where "INT64_MAX = 2 ^ 63 - 1"

definition make_transfer_timing :: TransferChunkTiming where
  "make_transfer_timing =
     \<lparr>t_select_us = 0, t_write_us = 0, t_drain_us = 0, t_total_us = 0,
      t_select_min = INT64_MAX, t_select_max = 0, t_write_min = INT64_MAX, t_write_max = 0,
      t_drain_min = INT64_MAX, t_drain_max = 0, t_total_min = INT64_MAX, t_total_max = 0,
      t_count = 0\<rparr>"

definition timing_record :: "TransferChunkTiming \<Rightarrow> int \<Rightarrow> int \<Rightarrow> int \<Rightarrow> int \<Rightarrow> TransferChunkTiming" where
  "timing_record T s w d t =
     \<lparr>t_select_us = t_select_us T + s, t_write_us = t_write_us T + w,
      t_drain_us = t_drain_us T + d, t_total_us = t_total_us T + t,
      t_select_min = min (t_select_min T) s, t_select_max = max (t_select_max T) s,
      t_write_min = min (t_write_min T) w, t_write_max = max (t_write_max T) w,
      t_drain_min = min (t_drain_min T) d, t_drain_max = max (t_drain_max T) d,
      t_total_min = min (t_total_min T) t, t_total_max = max (t_total_max T) t,
      t_count = t_count T + 1\<rparr>"

definition kMaxEntries :: nat where "kMaxEntries = 256"

definition ring_append :: "'e list \<Rightarrow> 'e \<Rightarrow> 'e list" where
  "ring_append entries e =
     (if length entries \<ge> kMaxEntries then drop 1 entries else entries) @ [e]"

interpretation telemetry: bounded_log kMaxEntries ring_append
  by unfold_locales (simp_all add: ring_append_def kMaxEntries_def drop_Suc)

section \<open>Shape of a transfer\<close>

record TransferMetadataValidation =
  md_ok :: bool
  md_expected_chunks :: u32
  md_reason :: string

definition calculate_transfer_metadata :: "u64 \<Rightarrow> u64 \<Rightarrow> nat \<Rightarrow> TransferMetadataValidation" where
  "calculate_transfer_metadata filesize max_bytes chunk_raw0 =
     (if max_bytes > 0 \<and> filesize > max_bytes
      then \<lparr>md_ok = False, md_expected_chunks = 0, md_reason = ''file exceeds transfer.max_bytes''\<rparr>
      else
        let chunk_raw = effective_transfer_chunk_size (word_of_nat chunk_raw0)
                          kTransferChunkRawSizeMax;
            size = unat filesize;
            expected0 = size div chunk_raw + (if size mod chunk_raw \<noteq> 0 then 1 else 0);
            expected = (if expected0 = 0 then 1 else expected0)
        in if expected > 4294967295
           then \<lparr>md_ok = False, md_expected_chunks = 0, md_reason = ''file requires too many chunks''\<rparr>
           else \<lparr>md_ok = True, md_expected_chunks = word_of_nat expected, md_reason = []\<rparr>)"

definition validate_transfer_metadata ::
  "u64 \<Rightarrow> u32 \<Rightarrow> u64 \<Rightarrow> nat \<Rightarrow> TransferMetadataValidation"
where
  "validate_transfer_metadata filesize total_chunks max_bytes chunk_raw =
     (let result = calculate_transfer_metadata filesize max_bytes chunk_raw in
      if \<not> md_ok result then result
      else if total_chunks \<noteq> md_expected_chunks result
      then \<lparr>md_ok = False, md_expected_chunks = md_expected_chunks result,
             md_reason = ''declared chunk count does not match file size''\<rparr>
      else result)"

text \<open>\<open>validate_transfer_chunk\<close>: \<open>None\<close> is ok, \<open>Some\<close> the reason of the rejection.\<close>

definition validate_transfer_chunk ::
  "u64 \<Rightarrow> u64 \<Rightarrow> u32 \<Rightarrow> u32 \<Rightarrow> u32 \<Rightarrow> u32 \<Rightarrow> nat \<Rightarrow> nat \<Rightarrow> string option"
where
  "validate_transfer_chunk expected_size received_bytes expected_index expected_total_chunks
     chunk_index chunk_total_chunks decompressed_size chunk_raw0 =
     (if chunk_total_chunks \<noteq> expected_total_chunks
      then Some ''chunk total does not match transfer metadata''
      else if chunk_index \<noteq> expected_index \<or> chunk_index \<ge> expected_total_chunks
      then Some ''unexpected chunk index''
      else if received_bytes > expected_size
      then Some ''received byte count already exceeds declared size''
      else
        let chunk_raw = effective_transfer_chunk_size (word_of_nat chunk_raw0)
                          kTransferChunkRawSizeMax;
            remaining = expected_size - received_bytes;
            expected_chunk_size = min (unat remaining) chunk_raw
        in if decompressed_size \<noteq> expected_chunk_size
           then Some ''chunk bytes do not match declared file size''
           else None)"

section \<open>IPC response\<close>

definition kMaxPendingIpcLine :: nat where "kMaxPendingIpcLine = 1024 * 1024"

definition strip_cr :: "string \<Rightarrow> string" where
  "strip_cr line = (if line \<noteq> [] \<and> last line = CHR 0x0D then butlast line else line)"

text \<open>The loop over the complete lines of the buffer: the final response if there is one,
  the bytes left, and the progress lines that were emitted.\<close>

function ipc_lines :: "string \<Rightarrow> string option \<times> string \<times> string list" where
  "ipc_lines pending =
     (case find_index (\<lambda>c. c = CHR 0x0A) pending of
        None \<Rightarrow> (None, pending, [])
      | Some nl \<Rightarrow>
          let line = strip_cr (take nl pending); rest = drop (Suc nl) pending in
          if is_prefix ''PROGRESS '' line then
            case ipc_lines rest of (r, p, emitted) \<Rightarrow> (r, p, line # emitted)
          else if is_prefix ''OK '' line \<or> is_prefix ''ERROR'' line then (Some line, rest, [])
          else ipc_lines rest)"
  by pat_completeness auto
termination
  by (relation "measure length") (auto dest!: find_index_Some)

declare ipc_lines.simps [simp del]

definition consume_transfer_ipc_chunk ::
  "string \<Rightarrow> string \<Rightarrow> string option \<times> string \<times> string list"
where
  "consume_transfer_ipc_chunk pending chunk =
     (if length chunk > kMaxPendingIpcLine - min (length pending) kMaxPendingIpcLine
      then (Some ''ERROR IPC response exceeds 1 MiB'', [], [])
      else ipc_lines (pending @ chunk))"

section \<open>Sending\<close>

text \<open>The chunk message of the send loop: the file is read in order, so the \<open>i\<close>-th read of
  \<open>chunk_raw\<close> bytes starts at \<open>i * chunk_raw\<close>.\<close>

definition make_chunk :: "bytes \<Rightarrow> nat \<Rightarrow> u32 \<Rightarrow> nat \<Rightarrow> FileChunkMsg" where
  "make_chunk content chunk_raw nchunks i =
     \<lparr>fc_chunk_index = word_of_nat i, fc_total_chunks = nchunks,
      fc_data = take chunk_raw (drop (i * chunk_raw) content)\<rparr>"

definition kTransferPipelineSize :: nat where "kTransferPipelineSize = 32"

text \<open>The window by the measured round trip of a live connection, in milliseconds.\<close>

definition pipeline_size_for :: "nat option \<Rightarrow> nat" where
  "pipeline_size_for rtt =
     (case rtt of
        None \<Rightarrow> kTransferPipelineSize
      | Some ms \<Rightarrow> if ms = 0 then kTransferPipelineSize else if ms \<ge> 100 then 64
                   else if ms \<ge> 30 then 48 else kTransferPipelineSize)"

text \<open>The send loop without its waits: the batches of chunks, each at most the window long,
  with an acknowledgement awaited after every batch.\<close>

function send_batches :: "bytes \<Rightarrow> nat \<Rightarrow> u32 \<Rightarrow> nat \<Rightarrow> nat \<Rightarrow> FileChunkMsg list list" where
  "send_batches content chunk_raw nchunks window ci =
     (if ci < unat nchunks \<and> 0 < window then
        let batch_end = min (ci + window) (unat nchunks) in
        map (make_chunk content chunk_raw nchunks) [ci..<batch_end] #
          send_batches content chunk_raw nchunks window batch_end
      else [])"
  by pat_completeness auto
termination
  by (relation "measure (\<lambda>(f, k, n, w, ci). unat n - ci)") auto

declare send_batches.simps [simp del]

text \<open>Where the send loop starts: the sender's own resume point, moved forward by the first
  acknowledgement (line 681), never back.\<close>

definition send_start :: "nat \<Rightarrow> nat \<Rightarrow> nat" where
  "send_start start_chunk first_ack = (if first_ack > start_chunk then first_ack else start_chunk)"

section \<open>Lemmas\<close>

lemma effective_bounds:
  "kTransferChunkRawSizeMin \<le> effective_transfer_chunk_size d kTransferChunkRawSizeMax"
  "effective_transfer_chunk_size d kTransferChunkRawSizeMax \<le> kTransferChunkRawSizeMax"
  by (simp_all add: effective_transfer_chunk_size_def Let_def chunk_consts)

lemma effective_idem:
  "effective_transfer_chunk_size
     (word_of_nat (effective_transfer_chunk_size d kTransferChunkRawSizeMax))
     kTransferChunkRawSizeMax = effective_transfer_chunk_size d kTransferChunkRawSizeMax"
proof -
  let ?k = "effective_transfer_chunk_size d kTransferChunkRawSizeMax"
  have k: "4096 \<le> ?k" "?k \<le> 262144" using effective_bounds [of d] by (simp_all add: chunk_consts)
  then have "unat (word_of_nat ?k :: u32) = ?k" by simp
  moreover from this k have "(word_of_nat ?k :: u32) \<noteq> 0" by force
  ultimately show ?thesis
    using k unfolding effective_transfer_chunk_size_def [of "word_of_nat ?k"]
    by (simp add: Let_def chunk_consts)
qed

definition valid_chunk_size :: "nat \<Rightarrow> bool" where
  "valid_chunk_size k \<longleftrightarrow> 0 < k \<and> k \<le> kTransferChunkRawSizeMax \<and>
     effective_transfer_chunk_size (word_of_nat k) kTransferChunkRawSizeMax = k"

lemma effective_valid:
  "valid_chunk_size (effective_transfer_chunk_size d kTransferChunkRawSizeMax)"
  using effective_bounds [of d] effective_idem [of d]
  by (simp add: valid_chunk_size_def chunk_consts)

lemma send_batches_concat:
  "0 < window \<Longrightarrow> concat (send_batches content k n window ci) = map (make_chunk content k n) [ci..<unat n]"
proof (induction content k n window ci rule: send_batches.induct)
  case (1 content k n window ci)
  show ?case
  proof (cases "ci < unat n")
    case True
    have "[ci..<min (ci + window) (unat n)] @ [min (ci + window) (unat n)..<unat n] = [ci..<unat n]"
      using True upt_add_eq_append [of ci "min (ci + window) (unat n)"
          "unat n - min (ci + window) (unat n)"] by simp
    with 1 True show ?thesis
      by (subst send_batches.simps) (simp add: Let_def flip: map_append)
  qed (simp add: send_batches.simps)
qed

text \<open>The number of chunks of a file: rounded up, and at least one.\<close>

definition chunk_count :: "nat \<Rightarrow> nat \<Rightarrow> nat" where
  "chunk_count n k = max 1 (n div k + (if n mod k \<noteq> 0 then 1 else 0))"

lemma chunk_count_bounds:
  assumes "0 < k"
  shows "n \<le> chunk_count n k * k" "chunk_count n k = Suc j \<Longrightarrow> j * k \<le> n"
    "i < chunk_count n k \<Longrightarrow> i * k \<le> n"
proof -
  have split: "n = n div k * k + n mod k" by simp
  have mod: "n mod k < k" using assms by simp
  show "n \<le> chunk_count n k * k"
    using split mod by (auto simp: chunk_count_def max_def add_mult_distrib; linarith)
  show less: "i * k \<le> n" if "i < chunk_count n k" for i
  proof -
    have "i \<le> n div k" using that by (auto simp: chunk_count_def split: if_splits)
    then have "i * k \<le> n div k * k" by simp
    with split show ?thesis by linarith
  qed
  show "j * k \<le> n" if "chunk_count n k = Suc j"
    using less [of j] that by simp
qed

lemma validated_chunk:
  assumes "validate_transfer_chunk expected received index nchunks chunk_index chunk_total d k = None"
    and "valid_chunk_size k"
  shows "chunk_total = nchunks" "chunk_index = index" "unat index < unat nchunks"
    "unat received \<le> unat expected" "d = min (unat expected - unat received) k"
proof -
  from assms have "chunk_total = nchunks \<and> chunk_index = index \<and> index < nchunks \<and>
      received \<le> expected \<and> d = min (unat (expected - received)) k"
    by (auto simp: validate_transfer_chunk_def valid_chunk_size_def Let_def not_less not_le
        split: if_splits)
  then show "chunk_total = nchunks" "chunk_index = index" "unat index < unat nchunks"
    "unat received \<le> unat expected" "d = min (unat expected - unat received) k"
    by (auto simp: word_less_nat_alt word_le_nat_alt unat_sub)
qed

lemma calculated_chunks:
  assumes "md_ok (calculate_transfer_metadata filesize max_bytes k)" "valid_chunk_size k"
  shows "unat (md_expected_chunks (calculate_transfer_metadata filesize max_bytes k)) =
    chunk_count (unat filesize) k"
proof -
  let ?e = "unat filesize div k + (if unat filesize mod k \<noteq> 0 then 1 else 0)"
  from assms have "calculate_transfer_metadata filesize max_bytes k =
      \<lparr>md_ok = True, md_expected_chunks = word_of_nat (if ?e = 0 then 1 else ?e), md_reason = []\<rparr>"
    and "(if ?e = 0 then 1 else ?e) \<le> 4294967295"
    unfolding calculate_transfer_metadata_def valid_chunk_size_def Let_def
    by (simp_all only: split: if_splits) auto
  then show ?thesis
    by (simp add: chunk_count_def max_def)
qed

lemma find_index_append_left:
  "find_index P xs = Some i \<Longrightarrow> find_index P (xs @ ys) = Some i"
  by (induction xs arbitrary: i) (auto split: if_splits)

lemma ipc_lines_append:
  "ipc_lines p = (None, rest, emitted) \<Longrightarrow>
   ipc_lines (p @ q) = (case ipc_lines (rest @ q) of (r, rest', emitted') \<Rightarrow> (r, rest', emitted @ emitted'))"
proof (induction p arbitrary: rest emitted rule: ipc_lines.induct)
  case (1 p)
  show ?case
  proof (cases "find_index (\<lambda>c. c = CHR 0x0A) p")
    case None
    with 1(3) have "rest = p" "emitted = []" by (subst (asm) ipc_lines.simps, simp)+
    then show ?thesis by (simp split: prod.splits)
  next
    case (Some nl)
    then have nl: "nl < length p" by (simp add: find_index_Some)
    then have cut: "take nl (p @ q) = take nl p" "drop (Suc nl) (p @ q) = drop (Suc nl) p @ q"
      by simp_all
    note left = find_index_append_left [OF Some, of q]
    let ?line = "strip_cr (take nl p)"
    show ?thesis
    proof (cases "is_prefix ''PROGRESS '' ?line")
      case True
      with 1(3) Some obtain em where em: "ipc_lines (drop (Suc nl) p) = (None, rest, em)"
        "emitted = ?line # em"
        by (subst (asm) ipc_lines.simps) (auto simp: Let_def split: prod.splits)
      from 1(1) [OF Some refl refl True em(1)] em(2) True left cut show ?thesis
        by (subst ipc_lines.simps) (auto simp: Let_def split: prod.splits)
    next
      case False
      with 1(3) Some have ne: "\<not> (is_prefix ''OK '' ?line \<or> is_prefix ''ERROR'' ?line)"
        and em: "ipc_lines (drop (Suc nl) p) = (None, rest, emitted)"
        by (subst (asm) ipc_lines.simps, auto simp: Let_def split: if_splits)+
      from 1(2) [OF Some refl refl False ne em] False ne left cut nl show ?thesis
        by (subst ipc_lines.simps) (simp add: Let_def)
    qed
  qed
qed

section \<open>Properties\<close>

text \<open>The reader of the IPC response does not depend on how the response is cut: a chunk
  that completes no final line leaves the reader in a state from which the next chunk gives
  what both chunks would have given at once, with the progress lines in order.\<close>

theorem ipc_reader_is_chunk_independent:
  assumes "consume_transfer_ipc_chunk pending c1 = (None, pending', emitted)"
    and "length (pending @ c1 @ c2) \<le> kMaxPendingIpcLine"
  shows "consume_transfer_ipc_chunk pending (c1 @ c2) =
    (case consume_transfer_ipc_chunk pending' c2 of
       (r, rest, emitted') \<Rightarrow> (r, rest, emitted @ emitted'))"
proof -
  have one: "ipc_lines (pending @ c1) = (None, pending', emitted)"
    using assms(1) by (auto simp: consume_transfer_ipc_chunk_def split: if_splits)
  have shrink: "length (fst (snd (ipc_lines p))) \<le> length p" for p
  proof (induction p rule: ipc_lines.induct)
    case (1 p)
    then show ?case
      by (subst ipc_lines.simps)
        (fastforce simp: Let_def split: option.splits prod.splits)
  qed
  from shrink [of "pending @ c1"] one assms(2)
  have "length pending' + length c2 \<le> kMaxPendingIpcLine" by simp
  then have "\<not> length c2 > kMaxPendingIpcLine - min (length pending') kMaxPendingIpcLine"
    "\<not> length (c1 @ c2) > kMaxPendingIpcLine - min (length pending) kMaxPendingIpcLine"
    using assms(2) by (simp_all add: min_def)
  with ipc_lines_append [OF one, of c2] show ?thesis
    by (simp only: consume_transfer_ipc_chunk_def if_False append_assoc)
qed

lemma ipc_reader_is_chunk_independent_witness:
  "consume_transfer_ipc_chunk [] (''OK fi'' @ ''le'' @ [CHR 0x0A])
     = (Some ''OK file'', [], [])"
proof -
  have a: "consume_transfer_ipc_chunk [] ''OK fi'' = (None, ''OK fi'', [])"
    by (simp add: consume_transfer_ipc_chunk_def kMaxPendingIpcLine_def ipc_lines.simps)
  have b: "consume_transfer_ipc_chunk ''OK fi'' (''le'' @ [CHR 0x0A]) = (Some ''OK file'', [], [])"
    by (simp add: consume_transfer_ipc_chunk_def kMaxPendingIpcLine_def ipc_lines.simps
        strip_cr_def is_prefix_def Let_def)
  from ipc_reader_is_chunk_independent [OF a, of "''le'' @ [CHR 0x0A]"] b show ?thesis
    by (simp add: kMaxPendingIpcLine_def)
qed

text \<open>The telemetry ring holds, after any number of completed transfers, exactly the newest
  256 entries, oldest first.\<close>

theorem telemetry_ring_keeps_newest:
  "foldl ring_append [] entries = drop (length entries - 256) entries \<and>
   length (foldl ring_append [] entries) \<le> 256"
  using telemetry.newest [of entries] telemetry.bound [of entries] by (simp add: kMaxEntries_def)

text \<open>To a peer without large frames no full chunk can be sent: the chunk size chosen for
  it is 65536 bytes, so the chunk message exceeds the frame capacity and \<open>encode\<close> rejects it,
  whatever the content. A file of 64 KiB or more therefore cannot be sent to such a peer.\<close>

theorem full_chunk_to_legacy_peer_is_rejected:
  assumes "\<not> version_has_cap ver kCapFrm2" "(i + 1) * transfer_chunk_size_for_peer ver \<le> length content"
  shows "encode Z (MFileChunk (make_chunk content (transfer_chunk_size_for_peer ver) n i)) stream_id
      (version_has_cap ver kCapFrm2) = Inl ''logical payload exceeds frame capacity''"
proof -
  have k: "transfer_chunk_size_for_peer ver = 65536"
    using assms(1) by (simp add: transfer_chunk_size_for_peer_def chunk_consts)
  let ?m = "make_chunk content 65536 n i"
  have len: "length (fc_data ?m) = 65536"
    using assms(2) unfolding k by (simp add: make_chunk_def)
  have "\<exists>b. ser_FileChunkMsg ?m = Inr b \<and> length b = 12 + 65536"
    using len
    by (simp add: ser_FileChunkMsg_def ser_seq_Cons_Inr ser_seq_Nil_Inr wire_simps
        MAX_FRAME_PAYLOAD_U32_def)
  then show ?thesis
    using assms(1) unfolding k
    by (auto simp: encode_def MAX_FRAME_PAYLOAD_U16_def)
qed

lemma full_chunk_to_legacy_peer_is_rejected_witness:
  "encode store_zstd (MFileChunk (make_chunk (replicate 65536 0) (transfer_chunk_size_for_peer ''1.0.0'')
      1 0)) 0 False = Inl ''logical payload exceeds frame capacity''"
proof -
  have v: "\<not> version_has_cap ''1.0.0'' kCapFrm2" by code_simp
  then have "(0 + 1) * transfer_chunk_size_for_peer ''1.0.0'' \<le> length (replicate 65536 (0 :: byte))"
    by (simp add: transfer_chunk_size_for_peer_def chunk_consts)
  from full_chunk_to_legacy_peer_is_rejected [OF v this, of store_zstd 1 0] v show ?thesis
    by simp
qed

end
