(* ===== verification/Paths.thy ===== *)
theory Paths
  imports Text_Guards
begin

text \<open>
  The path rules of bs-config.h for files that a peer sends or asks for, on POSIX:
  \<open>expand_home\<close>, \<open>sanitize_transfer_filename\<close>, \<open>resolve_file_request_path\<close>,
  \<open>path_is_inside_directory\<close>, \<open>relative_receive_path\<close> and \<open>resolve_file_send_dest\<close>. The lexical part of
  \<open>std::filesystem::path\<close> is modelled on strings; what the file system answers is a
  parameter: \<open>canon\<close> for \<open>weakly_canonical\<close>, \<open>absolute\<close> and \<open>exists_file\<close>.
\<close>

section \<open>Lexical paths\<close>

definition path_join :: "string \<Rightarrow> string \<Rightarrow> string" where
  "path_join p q =
     (if q \<noteq> [] \<and> hd q = CHR ''/'' then q
      else if p = [] \<or> last p = CHR ''/'' then p @ q
      else p @ [CHR ''/''] @ q)"

definition path_filename :: "string \<Rightarrow> string" where
  "path_filename p =
     (case find_last_index (\<lambda>c. c = CHR ''/'') p of None \<Rightarrow> p | Some pos \<Rightarrow> drop (Suc pos) p)"

definition path_is_absolute :: "string \<Rightarrow> bool" where
  "path_is_absolute p \<longleftrightarrow> p \<noteq> [] \<and> hd p = CHR ''/''"

text \<open>The elements that iterating a path gives: the root, the names, and an empty name for a
  final separator.\<close>

definition path_elems :: "string \<Rightarrow> string list" where
  "path_elems p =
     (let parts = split_on (CHR ''/'') [] p; names = filter (\<lambda>n. n \<noteq> []) parts in
      (if path_is_absolute p then [''/''] else []) @ names @
      (if names \<noteq> [] \<and> last parts = [] then [[]] else []))"

fun join_names :: "string list \<Rightarrow> string" where
  "join_names [] = []"
| "join_names [n] = n"
| "join_names (n # m # ns) = n @ [CHR ''/''] @ join_names (m # ns)"

text \<open>\<open>lexically_normal\<close>: the stack of names kept, innermost first, and whether the last
  element removed leaves a final separator.\<close>

fun norm_names :: "bool \<Rightarrow> string list \<Rightarrow> bool \<Rightarrow> string list \<Rightarrow> string list \<times> bool" where
  "norm_names root st t [] = (rev st, t)"
| "norm_names root st t (n # ns) =
     (if n = [] \<or> n = ''.'' then norm_names root st True ns
      else if n = ''..'' then
        (case st of
           x # xs \<Rightarrow> if x \<noteq> ''..'' then norm_names root xs True ns
                     else norm_names root (''..'' # st) False ns
         | [] \<Rightarrow> if root then norm_names root [] True ns else norm_names root [''..''] False ns)
      else norm_names root (n # st) False ns)"

definition lexically_normal :: "string \<Rightarrow> string" where
  "lexically_normal p =
     (if p = [] then []
      else
        let root = path_is_absolute p;
            (names, t) = norm_names root [] False (split_on (CHR ''/'') [] p);
            body = join_names names @
              (if t \<and> names \<noteq> [] \<and> last names \<noteq> ''..'' then [CHR ''/''] else [])
        in if root then CHR ''/'' # body else if body = [] then ''.'' else body)"

fun drop_common :: "string list \<Rightarrow> string list \<Rightarrow> string list \<times> string list" where
  "drop_common (x # xs) (y # ys) = (if x = y then drop_common xs ys else (x # xs, y # ys))"
| "drop_common xs ys = (xs, ys)"

definition lexically_relative :: "string \<Rightarrow> string \<Rightarrow> string list" where
  "lexically_relative p base =
     (if path_is_absolute p \<noteq> path_is_absolute base then []
      else case drop_common (path_elems p) (path_elems base) of (a, b) \<Rightarrow>
        if a = [] \<and> b = [] then [''.'']
        else
          let downs = length (filter (\<lambda>n. n \<noteq> [] \<and> n \<noteq> ''.'' \<and> n \<noteq> ''..'') b);
              ups = length (filter (\<lambda>n. n = ''..'') b) in
          if downs < ups then []
          else if downs = ups \<and> (a = [] \<or> hd a = []) then [''.'']
          else replicate (downs - ups) ''..'' @ a)"

section \<open>Home directory\<close>

definition is_sep :: "char \<Rightarrow> bool" where
  "is_sep c \<longleftrightarrow> c = CHR ''/'' \<or> c = CHR 0x5C"

text \<open>\<open>home\<close> is the value of the environment variable, empty when it is not set.\<close>

definition config_expand_home :: "string \<Rightarrow> string \<Rightarrow> string" where
  "config_expand_home home path =
     (if path = [] \<or> hd path \<noteq> CHR ''~'' then path
      else if home = [] then path
      else
        let rest = drop 1 path in
        if rest \<noteq> [] \<and> is_sep (hd rest) then
          home @ (if is_sep (last home) then drop 1 rest else rest)
        else home @ rest)"

section \<open>File names\<close>

definition kReserved :: "string list" where
  "kReserved = [''CON'', ''PRN'', ''AUX'', ''NUL'',
     ''COM1'', ''COM2'', ''COM3'', ''COM4'', ''COM5'', ''COM6'', ''COM7'', ''COM8'', ''COM9'',
     ''LPT1'', ''LPT2'', ''LPT3'', ''LPT4'', ''LPT5'', ''LPT6'', ''LPT7'', ''LPT8'', ''LPT9'']"

definition control_char :: "char \<Rightarrow> bool" where
  "control_char c \<longleftrightarrow> code_of c < 32 \<or> code_of c = 127"

definition sanitize_transfer_filename :: "string \<Rightarrow> string option" where
  "sanitize_transfer_filename name =
     (if name = [] \<or> length name > 255 then None
      else if is_sep (name ! 0) then None
      else if length name \<ge> 2 \<and> is_alpha (name ! 0) \<and> name ! 1 = CHR '':'' then None
      else
        let s = (case find_last_index is_sep name of None \<Rightarrow> name | Some slash \<Rightarrow> drop (Suc slash) name) in
        if s = [] \<or> s = ''.'' \<or> s = ''..'' then None
        else if list_ex is_sep s then None
        else if list_ex control_char s then None
        else
          let upper = map to_upper s;
              stem = (case find_index (\<lambda>c. c = CHR ''.'') upper of
                        None \<Rightarrow> upper | Some dot \<Rightarrow> take dot upper) in
          if stem \<in> set kReserved then None else Some s)"

section \<open>Requested files\<close>

text \<open>The lambda \<open>strip_and_join\<close>: the candidate for one prefix, if it matches up to the kind of
  separator and leaves something.\<close>

definition slashes :: "string \<Rightarrow> string" where
  "slashes s = map (\<lambda>c. if c = CHR 0x5C then CHR ''/'' else c) s"

definition strip_and_join :: "string \<Rightarrow> string \<Rightarrow> string \<Rightarrow> string list" where
  "strip_and_join receive_dir expanded prefix =
     (if length expanded \<ge> length prefix \<and>
         slashes (take (length prefix) expanded) = slashes prefix then
        let rel = dropWhile is_sep (drop (length prefix) expanded) in
        if rel \<noteq> [] then [path_join receive_dir rel] else []
      else [])"

definition request_candidates :: "string \<Rightarrow> string \<Rightarrow> string list" where
  "request_candidates expanded receive_dir =
     expanded #
     (if path_is_absolute expanded then []
      else [path_join receive_dir (path_filename expanded), path_join receive_dir expanded] @
        concat (map (strip_and_join receive_dir expanded)
          [''.bridgesessions/received/'', ''bridgesessions/received/'', ''received/'',
           ''.bridgesessions'' @ [CHR 0x5C] @ ''received'' @ [CHR 0x5C],
           ''received'' @ [CHR 0x5C]]))"

definition resolve_file_request_path ::
  "string \<Rightarrow> (string \<Rightarrow> bool) \<Rightarrow> string \<Rightarrow> string \<Rightarrow> string"
where
  "resolve_file_request_path home exists_file path receive_dir =
     (if path = [] then []
      else
        let expanded = config_expand_home home path in
        case find_index (\<lambda>c. c \<noteq> [] \<and> exists_file c) (request_candidates expanded receive_dir) of
          Some i \<Rightarrow> request_candidates expanded receive_dir ! i
        | None \<Rightarrow> if \<not> path_is_absolute expanded then path_join receive_dir expanded
                  else expanded)"

section \<open>Containment\<close>

text \<open>What the file system answers for a path; \<open>None\<close> is an error code.\<close>

record path_env =
  pe_canon :: "string \<Rightarrow> string option"
  pe_absolute :: "string \<Rightarrow> string option"
  pe_home :: string

definition env_resolve :: "path_env \<Rightarrow> string \<Rightarrow> string option" where
  "env_resolve E p = (case pe_canon E p of Some q \<Rightarrow> Some q | None \<Rightarrow> pe_absolute E p)"

definition path_is_inside_directory :: "path_env \<Rightarrow> string \<Rightarrow> string \<Rightarrow> bool" where
  "path_is_inside_directory E candidate root =
     (case env_resolve E root of
        None \<Rightarrow> False
      | Some root_abs \<Rightarrow>
          (case env_resolve E candidate of
             None \<Rightarrow> False
           | Some cand_abs \<Rightarrow>
               let root_s = lexically_normal root_abs; cand_s = lexically_normal cand_abs in
               if root_s = [] then False
               else
                 let root_sep = (if last root_s = CHR ''/'' then root_s else root_s @ [CHR ''/'']) in
                 cand_s = butlast root_sep \<or> is_prefix root_sep cand_s))"

text \<open>\<open>rel\<close> is what \<open>std::filesystem::relative\<close> answers, \<open>None\<close> for an error code.\<close>

definition relative_receive_path :: "string option \<Rightarrow> string \<Rightarrow> string \<Rightarrow> string" where
  "relative_receive_path rel full_path receive_root =
     (if receive_root = [] then path_filename full_path
      else case rel of
        None \<Rightarrow> path_filename full_path
      | Some generic \<Rightarrow>
          if generic = [] \<or> is_prefix ''..'' generic then path_filename full_path else generic)"

section \<open>Destinations\<close>

text \<open>The scan for \<open>..\<close> segments: separators of both kinds delimit a part.\<close>

definition has_dotdot :: "string \<Rightarrow> bool" where
  "has_dotdot dest \<longleftrightarrow> ''..'' \<in> set (split_on (CHR ''/'') [] (slashes dest))"

definition hidden_component :: "string list \<Rightarrow> bool" where
  "hidden_component rel \<longleftrightarrow> (\<exists>part\<in>set rel. length part > 1 \<and> part ! 0 = CHR ''.'')"

text \<open>The loop over the roots after the receive root. \<open>Some None\<close> is its \<open>return nullopt\<close>.\<close>

fun try_roots :: "path_env \<Rightarrow> string \<Rightarrow> string list \<Rightarrow> string option" where
  "try_roots E candidate [] = None"
| "try_roots E candidate (root # roots) =
     (if root = [] then try_roots E candidate roots
      else if \<not> path_is_inside_directory E candidate root then try_roots E candidate roots
      else if hidden_component (lexically_relative (lexically_normal candidate) (lexically_normal root))
      then try_roots E candidate roots
      else case (pe_canon E candidate, pe_canon E root) of
        (Some c, Some r) \<Rightarrow>
          (let rel = lexically_relative c r in
           if rel = [] then None
           else if \<not> hidden_component rel then Some candidate
           else try_roots E candidate roots)
      | _ \<Rightarrow> None)"

definition resolve_file_send_dest :: "path_env \<Rightarrow> string \<Rightarrow> string \<Rightarrow> bool \<Rightarrow> string option" where
  "resolve_file_send_dest E dest receive_dir allow_home_tmp =
     (if dest = [] then None
      else if length dest > 1024 then None
      else if list_ex control_char dest then None
      else if has_dotdot dest then None
      else
        let abs = is_sep (hd dest) \<or>
              (length dest \<ge> 2 \<and> is_alpha (dest ! 0) \<and> dest ! 1 = CHR '':'');
            candidate =
              (if hd dest = CHR ''~'' then config_expand_home (pe_home E) dest
               else if abs then dest
               else lexically_normal (path_join receive_dir dest));
            receive_root = config_expand_home (pe_home E) receive_dir in
        if receive_root \<noteq> [] \<and> path_is_inside_directory E candidate receive_root then Some candidate
        else if allow_home_tmp
        then try_roots E candidate [config_expand_home (pe_home E) ''~'', ''/tmp'']
        else None)"

section \<open>Lemmas\<close>

lemma path_is_inside_directory_iff:
  assumes "env_resolve E root = Some r" "env_resolve E cand = Some c"
    and "lexically_normal r = root_s" "root_s \<noteq> []" "last root_s \<noteq> CHR ''/''"
  shows "path_is_inside_directory E cand root \<longleftrightarrow>
    lexically_normal c = root_s \<or> (\<exists>rest. lexically_normal c = root_s @ CHR ''/'' # rest)"
  using assms by (auto simp: path_is_inside_directory_def Let_def is_prefix_iff)

lemma try_roots_Some:
  "try_roots E candidate roots = Some c \<Longrightarrow>
   c = candidate \<and> (\<exists>root\<in>set roots. root \<noteq> [] \<and> path_is_inside_directory E candidate root \<and>
     \<not> hidden_component (lexically_relative (lexically_normal candidate) (lexically_normal root)))"
  by (induction E candidate roots rule: try_roots.induct)
    (auto simp: Let_def split: if_splits option.splits)

lemma find_last_index_sep_drop:
  "find_last_index P xs = Some i \<Longrightarrow> x \<in> set (drop (Suc i) xs) \<Longrightarrow> \<not> P x"
  using find_last_index_Some by blast

lemma path_filename_append:
  assumes "CHR ''/'' \<notin> set s"
  shows "path_filename (p @ CHR ''/'' # s) = s"
proof -
  have "find_index (\<lambda>c. c = CHR ''/'') (rev s @ CHR ''/'' # rev p) = Some (length (rev s))"
    by (rule find_index_append) (use assms in auto)
  then show ?thesis by (simp add: path_filename_def find_last_index_def)
qed

lemma path_filename_plain: "CHR ''/'' \<notin> set s \<Longrightarrow> path_filename s = s"
proof -
  assume "CHR ''/'' \<notin> set s"
  then have "find_last_index (\<lambda>c. c = CHR ''/'') s = None"
    by (auto simp: find_last_index_None)
  then show ?thesis by (simp add: path_filename_def)
qed

section \<open>Properties\<close>

text \<open>A file name that a peer sends is accepted only as a plain name: not empty, not \<open>.\<close>
  or \<open>..\<close>, without separators or control characters and at most 255 characters, so joined to
  the receive directory it names an entry of that directory.\<close>

theorem sanitized_name_stays_in_directory:
  assumes "sanitize_transfer_filename name = Some s"
  shows "s \<noteq> [] \<and> s \<noteq> ''.'' \<and> s \<noteq> ''..'' \<and> (\<forall>c\<in>set s. \<not> is_sep c \<and> \<not> control_char c) \<and>
    length s \<le> 255 \<and> path_filename (path_join dir s) = s"
proof -
  from assms have len: "length s \<le> 255"
    by (auto simp: sanitize_transfer_filename_def Let_def split: if_splits option.splits)
  from assms have s: "s \<noteq> []" "s \<noteq> ''.''" "s \<noteq> ''..''" "\<forall>c\<in>set s. \<not> is_sep c"
    "\<forall>c\<in>set s. \<not> control_char c"
    by (auto simp: sanitize_transfer_filename_def Let_def list_ex_iff split: if_splits option.splits)
  then have "hd s \<noteq> CHR ''/''" "CHR ''/'' \<notin> set s" by (auto simp: is_sep_def hd_in_set)
  moreover note path_filename_plain [OF this(2)] path_filename_append [OF this(2)]
  moreover have "dir \<noteq> [] \<Longrightarrow> last dir = CHR ''/'' \<Longrightarrow> \<exists>d. dir = d @ [CHR ''/'']"
    by (metis append_butlast_last_id)
  ultimately have "path_filename (path_join dir s) = s"
    by (cases "dir = []") (auto simp: path_join_def)
  with s len show ?thesis by blast
qed

lemma sanitized_name_stays_in_directory_witness:
  "sanitize_transfer_filename ''a/../report.pdf'' = Some ''report.pdf'' \<and>
   path_filename (path_join ''/home/u/in'' ''report.pdf'') = ''report.pdf''"
proof -
  have s: "sanitize_transfer_filename ''a/../report.pdf'' = Some ''report.pdf''" by code_simp
  from s sanitized_name_stays_in_directory [OF s] show ?thesis by blast
qed

text \<open>A destination that a sender asks for is resolved only to a path inside the receive
  directory or, when the configuration allows it, inside the home or temporary directory
  through no hidden component; and never for a request with a \<open>..\<close> segment.\<close>

theorem resolved_dest_is_contained:
  assumes "resolve_file_send_dest E dest receive_dir allow_home_tmp = Some c"
  shows "\<not> has_dotdot dest \<and>
    (path_is_inside_directory E c (config_expand_home (pe_home E) receive_dir) \<or>
     allow_home_tmp \<and>
       (\<exists>root\<in>{config_expand_home (pe_home E) ''~'', ''/tmp''}.
          path_is_inside_directory E c root \<and>
          \<not> hidden_component (lexically_relative (lexically_normal c) (lexically_normal root))))"
proof -
  from assms have dots: "\<not> has_dotdot dest"
    by (auto simp: resolve_file_send_dest_def split: if_splits)
  from assms obtain cand where
    "path_is_inside_directory E cand (config_expand_home (pe_home E) receive_dir) \<and> c = cand \<or>
     allow_home_tmp \<and>
       try_roots E cand [config_expand_home (pe_home E) ''~'', ''/tmp''] = Some c"
    unfolding resolve_file_send_dest_def Let_def by (metis option.distinct(1) option.inject)
  with dots try_roots_Some show ?thesis by fastforce
qed

lemma resolved_dest_is_contained_witness:
  "resolve_file_send_dest \<lparr>pe_canon = Some, pe_absolute = Some, pe_home = ''/home/u''\<rparr>
      ''sub/x.txt'' ''/srv/in'' False = Some ''/srv/in/sub/x.txt'' \<and>
   path_is_inside_directory \<lparr>pe_canon = Some, pe_absolute = Some, pe_home = ''/home/u''\<rparr>
      ''/srv/in/sub/x.txt'' (config_expand_home ''/home/u'' ''/srv/in'')"
proof -
  have r: "resolve_file_send_dest \<lparr>pe_canon = Some, pe_absolute = Some, pe_home = ''/home/u''\<rparr>
      ''sub/x.txt'' ''/srv/in'' False = Some ''/srv/in/sub/x.txt''" by code_simp
  from r resolved_dest_is_contained [OF r] show ?thesis by simp
qed

end
