(* ===== verification/File_Receive.thy ===== *)
theory File_Receive
  imports File_Transfer Paths
begin

text \<open>
  The receiving side of a file transfer: \<open>handle_file_meta\<close> and \<open>handle_file_chunk\<close> of
  bs-mesh-transfer.h on the \<open>FileReceiveState\<close> of a connection (bs-mesh-conn.h). The file system is part of the
  state; calls of it that can fail take their outcome from an input. SHA-256 is the parameter
  \<open>sha\<close>, a digest is the list of the bytes hashed so far. Logging is not modelled.
\<close>

section \<open>State\<close>

definition the_default :: "'a \<Rightarrow> 'a option \<Rightarrow> 'a" where
  "the_default d x = (case x of None \<Rightarrow> d | Some y \<Rightarrow> y)"

text \<open>The files with their contents and the directories.\<close>

record file_system =
  fs_files :: "(string \<times> bytes) list"
  fs_dirs :: "string list"

definition fs_exists :: "file_system \<Rightarrow> string \<Rightarrow> bool" where
  "fs_exists F p \<longleftrightarrow> map_of (fs_files F) p \<noteq> None \<or> p \<in> set (fs_dirs F)"

definition fs_put :: "string \<Rightarrow> bytes \<Rightarrow> file_system \<Rightarrow> file_system" where
  "fs_put p b F = F\<lparr>fs_files := (p, b) # filter (\<lambda>(q, _). q \<noteq> p) (fs_files F)\<rparr>"

definition fs_remove :: "string \<Rightarrow> file_system \<Rightarrow> file_system" where
  "fs_remove p F = F\<lparr>fs_files := filter (\<lambda>(q, _). q \<noteq> p) (fs_files F)\<rparr>"

definition fs_mkdir :: "string \<Rightarrow> file_system \<Rightarrow> file_system" where
  "fs_mkdir p F = F\<lparr>fs_dirs := List.insert p (fs_dirs F)\<rparr>"

definition fs_rename :: "string \<Rightarrow> string \<Rightarrow> file_system \<Rightarrow> file_system" where
  "fs_rename p q F =
     (case map_of (fs_files F) p of None \<Rightarrow> F | Some b \<Rightarrow> fs_put q b (fs_remove p F))"

text \<open>\<open>frs_file\<close> is the path of the open output stream, \<open>frs_hasher\<close> the bytes hashed.\<close>

record FileReceiveState =
  frs_filename :: string
  frs_path :: string
  frs_recv_dir :: string
  frs_checksum :: string
  frs_expected_size :: u64
  frs_received_bytes :: u64
  frs_total_chunks :: u32
  frs_received_chunks :: u32
  frs_chunk_raw_size :: nat
  frs_src_mtime_unix :: u64
  frs_direct :: bool
  frs_file :: "string option"
  frs_hasher :: "bytes option"
  frs_active :: bool

definition fresh_receive_state :: FileReceiveState where
  "fresh_receive_state =
     \<lparr>frs_filename = [], frs_path = [], frs_recv_dir = [], frs_checksum = [],
      frs_expected_size = 0, frs_received_bytes = 0, frs_total_chunks = 0,
      frs_received_chunks = 0, frs_chunk_raw_size = kTransferChunkRawSizeDefault,
      frs_src_mtime_unix = 0, frs_direct = False, frs_file = None, frs_hasher = None,
      frs_active = False\<rparr>"

text \<open>The part of a connection, and of the controller's configuration, that the handlers use.\<close>

record recv_conn =
  rc_pending_recv_dir :: string
  rc_state :: FileReceiveState
  rc_fs :: file_system

record recv_config =
  cfg_receive_dir :: string
  cfg_transfer_max_bytes :: u64
  cfg_copy_scope :: string
  cfg_dest_allow_home :: bool
  cfg_allow_sensitive_paths :: bool

definition error_ack :: "u32 \<Rightarrow> u32 \<Rightarrow> string \<Rightarrow> FileAckMsg" where
  "error_ack i n e =
     \<lparr>fa_chunk_index = i, fa_next_requested = n, fa_error = True, fa_error_msg = e\<rparr>"

definition ok_ack :: "u32 \<Rightarrow> u32 \<Rightarrow> string \<Rightarrow> FileAckMsg" where
  "ok_ack i n e =
     \<lparr>fa_chunk_index = i, fa_next_requested = n, fa_error = False, fa_error_msg = e\<rparr>"

section \<open>Metadata\<close>

text \<open>What the file system and OpenSSL answer while the metadata is handled.\<close>

record meta_io =
  io_mkdir_recv :: bool
  io_mkdir_parent :: bool
  io_open_sidecar :: bool
  io_open_part :: bool
  io_hasher_ok :: bool
  io_old_lost :: "nat option"

definition path_parent :: "string \<Rightarrow> string" where
  "path_parent p =
     (case find_last_index (\<lambda>c. c = CHR ''/'') p of
        None \<Rightarrow> []
      | Some pos \<Rightarrow>
          let q = rev (dropWhile (\<lambda>c. c = CHR ''/'') (rev (take pos p))) in
          if q = [] then ''/'' else q)"

definition sensitive_path :: "path_env \<Rightarrow> string \<Rightarrow> bool" where
  "sensitive_path E p =
     is_sensitive_mesh_path (Some (pe_home E))
       (\<lambda>q. map_option (\<lambda>r. path_elems (lexically_normal r)) (pe_canon E q)) p"

text \<open>The stream of the partial file is buffered and its \<open>close\<close> is not checked: when the
  last flush fails, only the first bytes of the file are there.\<close>

definition close_part :: "nat option \<Rightarrow> string \<Rightarrow> file_system \<Rightarrow> file_system" where
  "close_part lost part F =
     (case (lost, map_of (fs_files F) part) of
        (Some n, Some b) \<Rightarrow> fs_put part (take n b) F
      | _ \<Rightarrow> F)"

text \<open>A new transfer ends the old one of the connection.\<close>

definition abort_active :: "nat option \<Rightarrow> string \<Rightarrow> recv_conn \<Rightarrow> recv_conn" where
  "abort_active lost checksum c =
     (let st = rc_state c; part = frs_path st @ ''.part'' in
      if frs_active st then
        c\<lparr>rc_state := st\<lparr>frs_file := None, frs_active := False\<rparr>,
          rc_fs := (if frs_checksum st \<noteq> checksum then fs_remove part (rc_fs c)
                    else close_part lost part (rc_fs c))\<rparr>
      else c)"

text \<open>The output path (lines 75 to 123), or the text of the rejection.\<close>

definition recv_out_path ::
  "recv_config \<Rightarrow> path_env \<Rightarrow> file_system \<Rightarrow> string \<Rightarrow> string \<Rightarrow> FileMetaMsg \<Rightarrow> string result"
where
  "recv_out_path cfg E F recv_dir safe_name m =
     (if fm_direct m \<noteq> 0 then
        let rp = config_expand_home (pe_home E) (fm_dest_path m) in
        if cfg_copy_scope cfg = ''receive_dir'' \<and> \<not> path_is_inside_directory E rp recv_dir
        then Inl ''refused dest outside receive_dir (file.copy_scope)''
        else Inr rp
      else if fm_dest_path m \<noteq> [] then
        case resolve_file_send_dest E (fm_dest_path m) recv_dir (cfg_dest_allow_home cfg) of
          None \<Rightarrow> Inl ''rejected dest path (escape or invalid)''
        | Some out \<Rightarrow>
            Inr (if out \<noteq> [] \<and> (is_sep (last out) \<or> out \<in> set (fs_dirs F))
                 then path_join out safe_name else out)
      else
        let out = path_join recv_dir safe_name in
        if \<not> path_is_inside_directory E out recv_dir
        then Inl ''path escapes receive directory'' else Inr out)"

text \<open>The sidecar file that lets a later connection resume.\<close>

definition sidecar_text :: "string \<Rightarrow> u64 \<Rightarrow> u32 \<Rightarrow> nat \<Rightarrow> string" where
  "sidecar_text checksum fsize nchunks chunk =
     ''checksum='' @ checksum @ [CHR 0x0A] @ ''size='' @ dec_digits (unat fsize) @ [CHR 0x0A] @
     ''total_chunks='' @ dec_digits (unat nchunks) @ [CHR 0x0A] @
     ''chunk_raw='' @ dec_digits chunk @ [CHR 0x0A]"

text \<open>\<open>strtoull\<close> with base 10: blanks, a sign, digits; saturating.\<close>

definition strtoull10 :: "string \<Rightarrow> nat" where
  "strtoull10 s =
     (let t = dropWhile is_space s;
          neg = (t \<noteq> [] \<and> hd t = CHR ''-'');
          u = (if t \<noteq> [] \<and> (hd t = CHR ''-'' \<or> hd t = CHR ''+'') then drop 1 t else t);
          v = parse_digits 0 (takeWhile is_digit u)
      in if v > 2 ^ 64 - 1 then 2 ^ 64 - 1
         else if neg then (2 ^ 64 - v) mod 2 ^ 64 else v)"

definition sidecar_line ::
  "string \<times> u64 \<times> u32 \<times> nat \<Rightarrow> string \<Rightarrow> string \<times> u64 \<times> u32 \<times> nat"
where
  "sidecar_line acc line =
     (case acc of (csum, fsize, nchunks, chunk) \<Rightarrow>
        if is_prefix ''checksum='' line then (drop 9 line, fsize, nchunks, chunk)
        else if is_prefix ''size='' line then (csum, word_of_nat (strtoull10 (drop 5 line)), nchunks, chunk)
        else if is_prefix ''total_chunks='' line
        then (csum, fsize, word_of_nat (strtoull10 (drop 13 line)), chunk)
        else if is_prefix ''chunk_raw='' line then (csum, fsize, nchunks, strtoull10 (drop 10 line))
        else acc)"

definition read_sidecar :: "string \<Rightarrow> string \<times> u64 \<times> u32 \<times> nat" where
  "read_sidecar txt = foldl sidecar_line ([], 0, 0, 0) (getlines (CHR 0x0A) txt)"

text \<open>The resume candidate (lines 164 to 194): the size of the partial file.\<close>

definition resume_size :: "file_system \<Rightarrow> string \<Rightarrow> FileMetaMsg \<Rightarrow> nat \<Rightarrow> nat option" where
  "resume_size F out m chunk_raw =
     (case (map_of (fs_files F) (out @ ''.part''), map_of (fs_files F) (out @ ''.part.bsmeta'')) of
        (Some part, Some side) \<Rightarrow>
          (case read_sidecar (string_of_bytes side) of (csum, fsize, nchunks, chunk) \<Rightarrow>
             let psz = length part in
             if csum = fm_checksum m \<and> fsize = fm_filesize m \<and> nchunks = fm_total_chunks m \<and>
                chunk = chunk_raw \<and> 0 < psz \<and> psz < unat (fm_filesize m) \<and>
                (psz mod chunk_raw = 0 \<or> psz = unat (fm_filesize m))
             then Some psz else None)
      | _ \<Rightarrow> None)"

text \<open>The suffix loop of the receive directory, with the number of entries of the file system
  as the fuel: every suffix that is taken uses up one of them.\<close>

fun free_name ::
  "nat \<Rightarrow> path_env \<Rightarrow> file_system \<Rightarrow> string \<Rightarrow> string \<Rightarrow> nat \<Rightarrow> string \<Rightarrow> string"
where
  "free_name 0 E F recv_dir safe_name suffix out = out"
| "free_name (Suc n) E F recv_dir safe_name suffix out =
     (if fs_exists F out \<or> fs_exists F (out @ ''.part'') then
        let alt = path_join recv_dir (safe_name @ ''.'' @ dec_digits suffix) in
        if \<not> path_is_inside_directory E alt recv_dir then out
        else free_name n E F recv_dir safe_name (Suc suffix) alt
      else out)"

definition name_fuel :: "file_system \<Rightarrow> nat" where
  "name_fuel F = 2 * (length (fs_files F) + length (fs_dirs F)) + 2"

text \<open>The start of the transfer (lines 213 to 260) on the chosen path.\<close>

definition start_receive ::
  "meta_io \<Rightarrow> recv_conn \<Rightarrow> string \<Rightarrow> string \<Rightarrow> string \<Rightarrow> nat \<Rightarrow> nat option \<Rightarrow> FileMetaMsg
     \<Rightarrow> recv_conn \<times> FileAckMsg"
where
  "start_receive io c recv_dir safe_name out chunk_raw resume m =
     (let part = out @ ''.part'';
          resume_bytes = (case resume of None \<Rightarrow> 0 | Some psz \<Rightarrow> psz div chunk_raw * chunk_raw);
          resume_chunks = (case resume of None \<Rightarrow> 0 | Some psz \<Rightarrow> psz div chunk_raw);
          st = fresh_receive_state\<lparr>
                 frs_filename := safe_name, frs_path := out, frs_recv_dir := recv_dir,
                 frs_checksum := fm_checksum m, frs_expected_size := fm_filesize m,
                 frs_total_chunks := fm_total_chunks m, frs_chunk_raw_size := chunk_raw,
                 frs_src_mtime_unix := fm_src_mtime_unix m, frs_direct := (fm_direct m \<noteq> 0),
                 frs_received_bytes := word_of_nat resume_bytes,
                 frs_received_chunks := word_of_nat resume_chunks,
                 frs_file := (if io_open_part io then Some part else None),
                 frs_hasher := (if resume = None then Some [] else None),
                 frs_active := io_open_part io\<rparr>;
          F0 = rc_fs c;
          F1 = (case (resume, map_of (fs_files F0) part) of
                  (Some _, Some b) \<Rightarrow> fs_put part (take resume_bytes b) F0
                | (Some _, None) \<Rightarrow> F0
                | (None, _) \<Rightarrow> if io_open_part io then fs_put part [] F0 else F0);
          F2 = (if resume = None \<and> io_open_sidecar io
                then fs_put (out @ ''.part.bsmeta'')
                       (bytes_of_string (sidecar_text (fm_checksum m) (fm_filesize m)
                          (fm_total_chunks m) chunk_raw)) F1
                else F1)
      in if \<not> io_open_part io \<or> (resume = None \<and> \<not> io_hasher_ok io)
         then (c\<lparr>rc_state := st\<lparr>frs_file := None, frs_active := False\<rparr>,
                 rc_fs := fs_remove part F2\<rparr>,
               error_ack 0 0 ''cannot initialize receive file'')
         else (c\<lparr>rc_state := st, rc_fs := F2\<rparr>,
               ok_ack (if resume \<noteq> None \<and> resume_chunks > 0 then word_of_nat (resume_chunks - 1) else 0)
                 (word_of_nat resume_chunks) (''path='' @ path_filename out)))"

text \<open>\<open>reject_sensitive_write\<close>: the final file and both sidecars.\<close>

definition sensitive_write :: "recv_config \<Rightarrow> path_env \<Rightarrow> string \<Rightarrow> bool" where
  "sensitive_write cfg E out \<longleftrightarrow>
     \<not> cfg_allow_sensitive_paths cfg \<and>
     (sensitive_path E out \<or> sensitive_path E (out @ ''.part'') \<or>
      sensitive_path E (out @ ''.part.bsmeta''))"

text \<open>The checks on the chosen path, the resume decision and the start (lines 124 to 261).\<close>

definition receive_on_path ::
  "recv_config \<Rightarrow> path_env \<Rightarrow> meta_io \<Rightarrow> recv_conn \<Rightarrow> string \<Rightarrow> string \<Rightarrow> string \<Rightarrow> nat \<Rightarrow> FileMetaMsg
     \<Rightarrow> recv_conn \<times> FileAckMsg"
where
  "receive_on_path cfg E io c1 recv_dir safe_name out chunk_raw m =
     (if sensitive_write cfg E out then (c1, error_ack 0 0 ''refused sensitive dest path'')
      else if path_parent out \<noteq> [] \<and> \<not> io_mkdir_parent io
      then (c1, error_ack 0 0 ''cannot create dest parent directory'')
      else
        let F = (if path_parent out = [] then rc_fs c1 else fs_mkdir (path_parent out) (rc_fs c1));
            c2 = c1\<lparr>rc_fs := F\<rparr> in
        if fm_direct m = 1 \<and> fs_exists F out
        then (c2, error_ack 0 0 ''dest exists (use --overwrite)'')
        else
          let resume = resume_size F out m chunk_raw;
              out2 = (if resume = None \<and> fm_dest_path m = []
                      then free_name (name_fuel F) E F recv_dir safe_name 1 out else out) in
          if sensitive_write cfg E out2 then (c2, error_ack 0 0 ''refused sensitive dest path'')
          else start_receive io c2 recv_dir safe_name out2 chunk_raw resume m)"

definition handle_file_meta ::
  "recv_config \<Rightarrow> path_env \<Rightarrow> meta_io \<Rightarrow> recv_conn \<Rightarrow> FileMetaMsg \<Rightarrow> recv_conn \<times> FileAckMsg"
where
  "handle_file_meta cfg E io c0 m =
     (let recv_dir = (if rc_pending_recv_dir c0 = [] then cfg_receive_dir cfg
                      else rc_pending_recv_dir c0);
          c = c0\<lparr>rc_pending_recv_dir := []\<rparr> in
      case sanitize_transfer_filename (fm_filename m) of
        None \<Rightarrow> (c, error_ack 0 0 ''rejected unsafe filename'')
      | Some safe_name \<Rightarrow>
          let chunk_raw = effective_transfer_chunk_size (fm_chunk_size m) kTransferChunkRawSizeMax;
              metadata = validate_transfer_metadata (fm_filesize m) (fm_total_chunks m)
                           (cfg_transfer_max_bytes cfg) chunk_raw in
          if \<not> md_ok metadata then (c, error_ack 0 0 (md_reason metadata))
          else if \<not> io_mkdir_recv io then (c, error_ack 0 0 ''cannot create receive directory'')
          else
            let c1 = abort_active (io_old_lost io) (fm_checksum m) (c\<lparr>rc_fs := fs_mkdir recv_dir (rc_fs c)\<rparr>) in
            case recv_out_path cfg E (rc_fs c1) recv_dir safe_name m of
              Inl e \<Rightarrow> (c1, error_ack 0 0 e)
            | Inr out \<Rightarrow> receive_on_path cfg E io c1 recv_dir safe_name out chunk_raw m)"

section \<open>Chunks\<close>

record chunk_io =
  io_write_ok :: bool
  io_hash_ok :: bool
  io_final_ok :: bool
  io_rename_ok :: bool
  io_lost :: "nat option"
  io_relative :: "string option"

text \<open>The stream is closed, the partial file removed and the transfer ended.\<close>

definition fail_receive :: "recv_conn \<Rightarrow> FileChunkMsg \<Rightarrow> string \<Rightarrow> recv_conn \<times> FileAckMsg" where
  "fail_receive c m e =
     (let st = rc_state c in
      (c\<lparr>rc_state := st\<lparr>frs_file := None, frs_active := False\<rparr>,
         rc_fs := fs_remove (frs_path st @ ''.part'') (rc_fs c)\<rparr>,
       error_ack (fc_chunk_index m) (frs_received_chunks st) e))"

text \<open>The digest of the whole file, from the running hash or by reading the file again; empty
  when that fails.\<close>

definition actual_digest :: "(bytes \<Rightarrow> string) \<Rightarrow> chunk_io \<Rightarrow> FileReceiveState \<Rightarrow> file_system \<Rightarrow> string"
where
  "actual_digest sha io st F =
     (if \<not> io_final_ok io then []
      else case frs_hasher st of
        Some h \<Rightarrow> sha h
      | None \<Rightarrow> (case map_of (fs_files F) (frs_path st @ ''.part'') of
                    None \<Rightarrow> [] | Some b \<Rightarrow> sha b))"

text \<open>The end of a transfer (lines 321 to 376).\<close>

definition finish_receive ::
  "(bytes \<Rightarrow> string) \<Rightarrow> chunk_io \<Rightarrow> recv_conn \<Rightarrow> FileChunkMsg \<Rightarrow> recv_conn \<times> FileAckMsg"
where
  "finish_receive sha io c m =
     (let st = rc_state c; final = frs_path st; part = final @ ''.part'';
          F = close_part (io_lost io) part (rc_fs c);
          actual = actual_digest sha io st F;
          (err, F1) =
            (if actual = [] \<or> actual \<noteq> frs_checksum st
             then (''checksum mismatch'', fs_remove part F)
             else if \<not> io_rename_ok io
             then (''cannot publish received file'', fs_remove part F)
             else ([], fs_rename part final F));
          F2 = fs_remove (final @ ''.part.bsmeta'') F1;
          msg = (if err \<noteq> [] then err
                 else if frs_direct st then ''dest_abs='' @ final
                 else ''path='' @ relative_receive_path (io_relative io) final (frs_recv_dir st))
      in (c\<lparr>rc_state := st\<lparr>frs_file := None, frs_active := False, frs_hasher := None\<rparr>, rc_fs := F2\<rparr>,
          \<lparr>fa_chunk_index = fc_chunk_index m, fa_next_requested = fc_total_chunks m,
           fa_error = (err \<noteq> []), fa_error_msg = msg\<rparr>))"

text \<open>The append to the partial file, and the counters after it (lines 293 to 320).\<close>

definition write_part :: "recv_conn \<Rightarrow> bytes \<Rightarrow> recv_conn" where
  "write_part c d =
     (let part = frs_path (rc_state c) @ ''.part'' in
      c\<lparr>rc_fs := (if d = [] then rc_fs c
                  else fs_put part (the_default [] (map_of (fs_files (rc_fs c)) part) @ d) (rc_fs c))\<rparr>)"

definition accept_chunk :: "recv_conn \<Rightarrow> FileChunkMsg \<Rightarrow> bytes \<Rightarrow> recv_conn" where
  "accept_chunk c m d =
     (let st = rc_state c in
      (write_part c d)\<lparr>rc_state := st\<lparr>frs_hasher := map_option (\<lambda>h. h @ d) (frs_hasher st),
                      frs_received_chunks := fc_chunk_index m + 1,
                      frs_received_bytes := frs_received_bytes st + word_of_nat (length d)\<rparr>\<rparr>)"

definition chunk_bytes :: "zstd_lib \<Rightarrow> FileChunkMsg \<Rightarrow> bytes" where
  "chunk_bytes Z m = (if fc_data m = [] then [] else decompress_chunk_payload Z (fc_data m))"

definition check_chunk :: "FileReceiveState \<Rightarrow> FileChunkMsg \<Rightarrow> bytes \<Rightarrow> string option" where
  "check_chunk st m d =
     validate_transfer_chunk (frs_expected_size st) (frs_received_bytes st)
       (frs_received_chunks st) (frs_total_chunks st) (fc_chunk_index m)
       (fc_total_chunks m) (length d) (frs_chunk_raw_size st)"

definition handle_file_chunk ::
  "zstd_lib \<Rightarrow> (bytes \<Rightarrow> string) \<Rightarrow> chunk_io \<Rightarrow> recv_conn \<Rightarrow> FileChunkMsg \<Rightarrow> recv_conn \<times> FileAckMsg"
where
  "handle_file_chunk Z sha io c m =
     (let st = rc_state c; d = chunk_bytes Z m in
      if \<not> frs_active st then (c, error_ack (fc_chunk_index m) 0 ''no active receive'')
      else case check_chunk st m d of
        Some e \<Rightarrow> fail_receive c m e
      | None \<Rightarrow>
          if d \<noteq> [] \<and> \<not> io_write_ok io then fail_receive c m ''failed to write receive file''
          else if d \<noteq> [] \<and> frs_hasher st \<noteq> None \<and> \<not> io_hash_ok io
          then fail_receive (write_part c d) m ''sha256 update failed''
          else
            let c2 = accept_chunk c m d in
            if frs_received_chunks (rc_state c2) \<ge> frs_total_chunks (rc_state c2)
            then finish_receive sha io c2 m
            else (c2, ok_ack (fc_chunk_index m) (fc_chunk_index m + 1) []))"

section \<open>File system laws\<close>

lemma map_of_filter_neq:
  "map_of (filter (\<lambda>(q, _). q \<noteq> p) xs) r = (if r = p then None else map_of xs r)"
  by (induction xs) auto

definition fs_read :: "file_system \<Rightarrow> string \<Rightarrow> bytes option" where
  "fs_read F p = map_of (fs_files F) p"

lemma fs_read_simps [simp]:
  "fs_read (fs_put p b F) q = (if q = p then Some b else fs_read F q)"
  "fs_read (fs_remove p F) q = (if q = p then None else fs_read F q)"
  "fs_read (fs_mkdir d F) q = fs_read F q"
  by (auto simp: fs_read_def fs_put_def fs_remove_def fs_mkdir_def map_of_filter_neq)

lemma fs_read_rename:
  "fs_read F p = Some b \<Longrightarrow> p \<noteq> q \<Longrightarrow>
   fs_read (fs_rename p q F) r = (if r = q then Some b else if r = p then None else fs_read F r)"
  by (simp add: fs_rename_def fs_read_def [symmetric])

lemma unat_bounds: "unat (w :: u64) < 2 ^ 64" "unat (v :: u32) < 2 ^ 32"
  using unsigned_less [of w, where 'a = nat] unsigned_less [of v, where 'a = nat] by simp_all

lemma fs_read_close:
  "fs_read (close_part lost part F) q =
     (if q = part then map_option (case lost of None \<Rightarrow> (\<lambda>b. b) | Some n \<Rightarrow> take n) (fs_read F part)
      else fs_read F q)"
  by (cases lost; cases "fs_read F part")
    (auto simp: close_part_def fs_read_def [symmetric] option.map_ident split: option.splits)

lemma close_part_flushed [simp]: "close_part None part F = F"
  by (simp add: close_part_def)

lemma fs_read_rename_other:
  "r \<noteq> p \<Longrightarrow> r \<noteq> q \<Longrightarrow> fs_read (fs_rename p q F) r = fs_read F r"
  by (cases "map_of (fs_files F) p") (simp_all add: fs_rename_def)

section \<open>Invariant\<close>

text \<open>
  While a transfer is active, its partial file holds exactly the bytes counted, they are a
  whole number of chunks, at least one chunk is missing, the declared number of chunks fits
  the declared size, and a running digest has hashed exactly the partial file.
\<close>

definition receive_inv :: "recv_conn \<Rightarrow> bool" where
  "receive_inv c \<longleftrightarrow>
     (let st = rc_state c; k = frs_chunk_raw_size st in
      frs_active st \<longrightarrow>
        valid_chunk_size k \<and>
        unat (frs_total_chunks st) = chunk_count (unat (frs_expected_size st)) k \<and>
        unat (frs_received_chunks st) < unat (frs_total_chunks st) \<and>
        (\<exists>b. fs_read (rc_fs c) (frs_path st @ ''.part'') = Some b \<and>
             length b = unat (frs_received_bytes st) \<and>
             length b = unat (frs_received_chunks st) * k \<and>
             (\<forall>h. frs_hasher st = Some h \<longrightarrow> h = b)))"

lemma receive_inv_inactive [inv_intros]: "\<not> frs_active (rc_state c) \<Longrightarrow> receive_inv c"
  by (simp add: receive_inv_def Let_def)

lemma fail_receive_inactive [simp]: "\<not> frs_active (rc_state (fst (fail_receive c m e)))"
  by (simp add: fail_receive_def Let_def)

lemma finish_receive_inactive [simp]: "\<not> frs_active (rc_state (fst (finish_receive sha io c m)))"
  by (simp add: finish_receive_def Let_def split: prod.splits)

lemma accept_chunk_simps [simp]:
  "frs_path (rc_state (accept_chunk c m d)) = frs_path (rc_state c)"
  "frs_active (rc_state (accept_chunk c m d)) = frs_active (rc_state c)"
  "frs_total_chunks (rc_state (accept_chunk c m d)) = frs_total_chunks (rc_state c)"
  "frs_expected_size (rc_state (accept_chunk c m d)) = frs_expected_size (rc_state c)"
  "frs_checksum (rc_state (accept_chunk c m d)) = frs_checksum (rc_state c)"
  "frs_chunk_raw_size (rc_state (accept_chunk c m d)) = frs_chunk_raw_size (rc_state c)"
  "frs_received_chunks (rc_state (accept_chunk c m d)) = fc_chunk_index m + 1"
  "frs_received_bytes (rc_state (accept_chunk c m d)) =
     frs_received_bytes (rc_state c) + word_of_nat (length d)"
  "frs_hasher (rc_state (accept_chunk c m d)) = map_option (\<lambda>h. h @ d) (frs_hasher (rc_state c))"
  by (simp_all add: accept_chunk_def write_part_def Let_def)

lemma handle_file_chunk_cases:
  assumes "frs_active (rc_state c)"
  obtains (rejected) c0 e where "handle_file_chunk Z sha io c m = fail_receive c0 m e"
      "c0 = c \<or> c0 = write_part c (chunk_bytes Z m)"
  | (accepted) "check_chunk (rc_state c) m (chunk_bytes Z m) = None"
      "handle_file_chunk Z sha io c m =
         (if fc_chunk_index m + 1 \<ge> frs_total_chunks (rc_state c)
          then finish_receive sha io (accept_chunk c m (chunk_bytes Z m)) m
          else (accept_chunk c m (chunk_bytes Z m), ok_ack (fc_chunk_index m) (fc_chunk_index m + 1) []))"
proof (cases "check_chunk (rc_state c) m (chunk_bytes Z m)")
  case (Some e)
  with assms have "handle_file_chunk Z sha io c m = fail_receive c m e"
    by (simp add: handle_file_chunk_def)
  then show ?thesis by (rule rejected) simp
next
  case None
  let ?d = "chunk_bytes Z m"
  consider (w) "?d \<noteq> [] \<and> \<not> io_write_ok io"
    | (h) "\<not> (?d \<noteq> [] \<and> \<not> io_write_ok io)"
          "?d \<noteq> [] \<and> frs_hasher (rc_state c) \<noteq> None \<and> \<not> io_hash_ok io"
    | (ok) "\<not> (?d \<noteq> [] \<and> \<not> io_write_ok io)"
          "\<not> (?d \<noteq> [] \<and> frs_hasher (rc_state c) \<noteq> None \<and> \<not> io_hash_ok io)"
    by blast
  then show ?thesis
  proof cases
    case w
    with assms None have "handle_file_chunk Z sha io c m = fail_receive c m ''failed to write receive file''"
      by (simp add: handle_file_chunk_def Let_def)
    then show ?thesis by (rule rejected) simp
  next
    case h
    with assms None have "handle_file_chunk Z sha io c m =
        fail_receive (write_part c ?d) m ''sha256 update failed''"
      unfolding handle_file_chunk_def Let_def by simp
    then show ?thesis by (rule rejected) simp
  next
    case ok
    from ok assms None have "handle_file_chunk Z sha io c m =
         (if fc_chunk_index m + 1 \<ge> frs_total_chunks (rc_state c)
          then finish_receive sha io (accept_chunk c m ?d) m
          else (accept_chunk c m ?d, ok_ack (fc_chunk_index m) (fc_chunk_index m + 1) []))"
      unfolding handle_file_chunk_def Let_def
      by (simp only: not_not if_not_P if_True if_False option.case accept_chunk_simps)
    with None show ?thesis by (rule accepted)
  qed
qed

text \<open>What an accepted chunk does to the partial file and the counters.\<close>

lemma accepted_chunk_state:
  assumes inv: "receive_inv c" and act: "frs_active (rc_state c)"
    and ok: "check_chunk (rc_state c) m d = None"
  defines "st \<equiv> rc_state c" and "st' \<equiv> rc_state (accept_chunk c m d)"
    and "k \<equiv> frs_chunk_raw_size (rc_state c)"
  shows "\<exists>b. fs_read (rc_fs c) (frs_path st @ ''.part'') = Some b \<and>
      fs_read (rc_fs (accept_chunk c m d)) (frs_path st @ ''.part'') = Some (b @ d) \<and>
      length (b @ d) = unat (frs_received_bytes st') \<and>
      length (b @ d) = min (unat (frs_expected_size st)) (Suc (unat (frs_received_chunks st)) * k) \<and>
      unat (frs_received_chunks st') = Suc (unat (frs_received_chunks st)) \<and>
      (\<forall>h. frs_hasher st' = Some h \<longrightarrow> h = b @ d)"
proof -
  from inv act obtain b where k: "valid_chunk_size k"
    and total: "unat (frs_total_chunks st) = chunk_count (unat (frs_expected_size st)) k"
    and less: "unat (frs_received_chunks st) < unat (frs_total_chunks st)"
    and b: "fs_read (rc_fs c) (frs_path st @ ''.part'') = Some b"
      "length b = unat (frs_received_bytes st)" "length b = unat (frs_received_chunks st) * k"
      "\<forall>h. frs_hasher st = Some h \<longrightarrow> h = b"
    by (auto simp: receive_inv_def Let_def st_def k_def)
  note v = validated_chunk [OF ok [unfolded check_chunk_def] k [unfolded k_def]]
  have len: "length b + length d = min (unat (frs_expected_size st)) (Suc (unat (frs_received_chunks st)) * k)"
    using v(4,5) b(2,3) by (auto simp: st_def k_def)
  have "unat (frs_expected_size st) < 2 ^ 64" by (rule unat_bounds)
  with len have "length b + length d < 2 ^ 64" by simp
  then have bytes: "unat (frs_received_bytes st') = length b + length d"
    using b(2) by (simp add: st'_def st_def unat_word_ariths unat_of_nat)
  have "unat (frs_total_chunks st) < 2 ^ 32" by (rule unat_bounds)
  with v(2) less have "unat (fc_chunk_index m + 1) = Suc (unat (frs_received_chunks st))"
    by (simp add: st_def unat_word_ariths)
  then have chunks: "unat (frs_received_chunks st') = Suc (unat (frs_received_chunks st))"
    by (simp add: st'_def)
  have "fs_read (rc_fs (accept_chunk c m d)) (frs_path st @ ''.part'') = Some (b @ d)"
    using b(1) by (auto simp: accept_chunk_def write_part_def Let_def st_def the_default_def fs_read_def [symmetric])
  moreover have "\<forall>h. frs_hasher st' = Some h \<longrightarrow> h = b @ d"
    using b(4) by (auto simp: st'_def st_def)
  ultimately show ?thesis using b(1) bytes len chunks by auto
qed

lemma check_chunk_shape:
  "receive_inv c \<Longrightarrow> frs_active (rc_state c) \<Longrightarrow> check_chunk (rc_state c) m d = None \<Longrightarrow>
   fc_total_chunks m = frs_total_chunks (rc_state c) \<and>
   fc_chunk_index m = frs_received_chunks (rc_state c)"
  by (auto simp: receive_inv_def Let_def check_chunk_def dest: validated_chunk)

lemma receive_inv_chunk [inv_intros]:
  assumes inv: "receive_inv c"
  shows "receive_inv (fst (handle_file_chunk Z sha io c m))"
proof (cases "frs_active (rc_state c)")
  case False
  with inv show ?thesis by (simp add: handle_file_chunk_def Let_def)
next
  case True
  from True show ?thesis
  proof (cases rule: handle_file_chunk_cases [where Z = Z and sha = sha and io = io and m = m])
    case (rejected c0 e)
    then show ?thesis by (simp add: receive_inv_inactive)
  next
    case accepted
    let ?d = "chunk_bytes Z m" and ?c' = "accept_chunk c m (chunk_bytes Z m)"
    show ?thesis
    proof (cases "fc_chunk_index m + 1 \<ge> frs_total_chunks (rc_state c)")
      case True
      with accepted(2) show ?thesis by (simp add: receive_inv_inactive)
    next
      case False
      from inv True have base: "valid_chunk_size (frs_chunk_raw_size (rc_state c))"
        "unat (frs_total_chunks (rc_state c)) =
           chunk_count (unat (frs_expected_size (rc_state c))) (frs_chunk_raw_size (rc_state c))"
        by (auto simp: receive_inv_def Let_def)
      from accepted_chunk_state [OF inv True accepted(1)] obtain b where b:
        "fs_read (rc_fs ?c') (frs_path (rc_state c) @ ''.part'') = Some (b @ ?d)"
        "length (b @ ?d) = unat (frs_received_bytes (rc_state ?c'))"
        "length (b @ ?d) = min (unat (frs_expected_size (rc_state c)))
           (Suc (unat (frs_received_chunks (rc_state c))) * frs_chunk_raw_size (rc_state c))"
        "unat (frs_received_chunks (rc_state ?c')) = Suc (unat (frs_received_chunks (rc_state c)))"
        "\<forall>h. frs_hasher (rc_state ?c') = Some h \<longrightarrow> h = b @ ?d" by blast
      from False b(4) have less: "Suc (unat (frs_received_chunks (rc_state c)))
          < unat (frs_total_chunks (rc_state c))"
        by (simp add: word_le_nat_alt)
      with base chunk_count_bounds(3) [where k = "frs_chunk_raw_size (rc_state c)"
            and i = "Suc (unat (frs_received_chunks (rc_state c)))"
            and n = "unat (frs_expected_size (rc_state c))"]
      have "Suc (unat (frs_received_chunks (rc_state c)))
          * frs_chunk_raw_size (rc_state c) \<le> unat (frs_expected_size (rc_state c))"
        by (simp add: valid_chunk_size_def)
      with b base less True False accepted(2) show ?thesis
        by (auto simp: receive_inv_def Let_def)
    qed
  qed
qed

lemma part_neq [simp]:
  "p @ ''.part'' \<noteq> p" "p @ ''.part.bsmeta'' \<noteq> p" "p @ ''.part'' \<noteq> p @ ''.part.bsmeta''"
  "p \<noteq> p @ ''.part''" "p \<noteq> p @ ''.part.bsmeta''" "p @ ''.part.bsmeta'' \<noteq> p @ ''.part''"
  by simp_all

text \<open>What a transfer that ends without an error has published.\<close>

lemma finish_publishes:
  assumes fin: "finish_receive sha io c m = (c', ack)" and ok: "\<not> fa_error ack"
    and b: "fs_read (rc_fs c) (frs_path (rc_state c) @ ''.part'') = Some b"
    and h: "\<forall>h. frs_hasher (rc_state c) = Some h \<longrightarrow> h = b"
    and l: "io_lost io = None"
  shows "fs_read (rc_fs c') (frs_path (rc_state c)) = Some b \<and> sha b = frs_checksum (rc_state c) \<and>
    fs_read (rc_fs c') (frs_path (rc_state c) @ ''.part'') = None"
proof -
  let ?a = "actual_digest sha io (rc_state c) (rc_fs c)"
  from fin ok have a: "?a \<noteq> []" "?a = frs_checksum (rc_state c)" "io_rename_ok io"
    and c': "rc_fs c' = fs_remove (frs_path (rc_state c) @ ''.part.bsmeta'')
      (fs_rename (frs_path (rc_state c) @ ''.part'') (frs_path (rc_state c)) (rc_fs c))"
    using l by (auto simp: finish_receive_def Let_def split: if_splits)
  have "?a = sha b"
    using a(1) b h by (auto simp: actual_digest_def fs_read_def split: option.splits if_splits)
  with a(2) b show ?thesis
    unfolding c' by (simp add: fs_read_rename)
qed

lemma resume_size_Some:
  "resume_size F out m k = Some psz \<Longrightarrow>
   \<exists>b. fs_read F (out @ ''.part'') = Some b \<and> length b = psz \<and> psz mod k = 0 \<and>
       psz < unat (fm_filesize m)"
  by (auto simp: resume_size_def fs_read_def Let_def split: option.splits prod.splits if_splits)

lemma start_receive_inv:
  assumes k: "valid_chunk_size k"
    and total: "unat (fm_total_chunks m) = chunk_count (unat (fm_filesize m)) k"
    and resume: "resume = None \<or> resume_size (rc_fs c) out m k = resume"
  shows "receive_inv (fst (start_receive io c recv_dir safe_name out k resume m))"
proof (cases "\<not> io_open_part io \<or> (resume = None \<and> \<not> io_hasher_ok io)")
  case True
  then show ?thesis by (auto simp: start_receive_def Let_def intro!: receive_inv_inactive)
next
  case False
  show ?thesis
  proof (cases resume)
    case None
    have "0 < chunk_count (unat (fm_filesize m)) k" by (simp add: chunk_count_def)
    with None False k total show ?thesis
      by (auto simp: start_receive_def Let_def receive_inv_def fresh_receive_state_def)
  next
    case (Some psz)
    with resume have "resume_size (rc_fs c) out m k = Some psz" by simp
    from resume_size_Some [OF this] obtain b where b:
      "fs_read (rc_fs c) (out @ ''.part'') = Some b" "length b = psz" "psz mod k = 0"
      "psz < unat (fm_filesize m)" by (elim exE conjE)
    have k0: "0 < k" using k by (simp add: valid_chunk_size_def)
    have whole: "psz div k * k = psz" using b(3) by auto
    have small: "psz < 2 ^ 64" using b(4) unat_bounds(1) [of "fm_filesize m"] by simp
    have "psz div k < chunk_count (unat (fm_filesize m)) k"
    proof (rule ccontr)
      assume "\<not> psz div k < chunk_count (unat (fm_filesize m)) k"
      then have "chunk_count (unat (fm_filesize m)) k * k \<le> psz div k * k" by simp
      with chunk_count_bounds(1) [OF k0, of "unat (fm_filesize m)"] whole b(4) show False by simp
    qed
    moreover have "unat (fm_total_chunks m) < 2 ^ 32"
      by (rule unat_bounds)
    ultimately have "unat (word_of_nat (psz div k) :: u32) = psz div k"
      "psz div k < unat (fm_total_chunks m)"
      using total by (simp_all add: unat_of_nat)
    note n = this
    have part: "map_of (fs_files (rc_fs c)) (out @ ''.part'') = Some b"
      using b(1) by (simp add: fs_read_def)
    have "io_open_part io" using False by simp
    then have "fst (start_receive io c recv_dir safe_name out k resume m) =
        c\<lparr>rc_state := fresh_receive_state\<lparr>
                 frs_filename := safe_name, frs_path := out, frs_recv_dir := recv_dir,
                 frs_checksum := fm_checksum m, frs_expected_size := fm_filesize m,
                 frs_total_chunks := fm_total_chunks m, frs_chunk_raw_size := k,
                 frs_src_mtime_unix := fm_src_mtime_unix m, frs_direct := (fm_direct m \<noteq> 0),
                 frs_received_bytes := word_of_nat psz,
                 frs_received_chunks := word_of_nat (psz div k),
                 frs_file := Some (out @ ''.part''), frs_hasher := None, frs_active := True\<rparr>,
          rc_fs := fs_put (out @ ''.part'') b (rc_fs c)\<rparr>"
      using Some part whole b(2) by (simp add: start_receive_def Let_def)
    moreover have "unat (word_of_nat psz :: u64) = psz" using small by (simp add: unat_of_nat)
    ultimately show ?thesis
      using n b(2) k total whole by (simp add: receive_inv_def Let_def)
  qed
qed

lemma abort_active_inactive [simp]: "\<not> frs_active (rc_state (abort_active l x c))"
  by (simp add: abort_active_def Let_def)

lemma receive_inv_fs_cong:
  "receive_inv c \<Longrightarrow> rc_state c' = rc_state c \<Longrightarrow> fs_read (rc_fs c') = fs_read (rc_fs c) \<Longrightarrow> receive_inv c'"
  by (simp add: receive_inv_def)

lemma receive_on_path_inv:
  assumes idle: "\<not> frs_active (rc_state c)" and k: "valid_chunk_size k"
    and total: "unat (fm_total_chunks m) = chunk_count (unat (fm_filesize m)) k"
  shows "receive_inv (fst (receive_on_path cfg E io c rd sn out k m))"
proof -
  have i: "receive_inv c" "receive_inv (c\<lparr>rc_fs := F\<rparr>)" for F
    using idle by (simp_all add: receive_inv_inactive)
  define F where "F = (if path_parent out = [] then rc_fs c else fs_mkdir (path_parent out) (rc_fs c))"
  define r where "r = resume_size F out m k"
  define out2 where "out2 = (if r = None \<and> fm_dest_path m = []
      then free_name (name_fuel F) E F rd sn 1 out else out)"
  have "r = None \<or> resume_size (rc_fs (c\<lparr>rc_fs := F\<rparr>)) out2 m k = r"
    by (simp add: out2_def r_def)
  then have "receive_inv (fst (start_receive io (c\<lparr>rc_fs := F\<rparr>) rd sn out2 k r m))"
    by (rule start_receive_inv [OF k total])
  with i show ?thesis
    unfolding receive_on_path_def F_def [symmetric] r_def [symmetric] out2_def [symmetric] Let_def
    by simp
qed

lemma receive_inv_meta [inv_intros]:
  assumes inv: "receive_inv c"
  shows "receive_inv (fst (handle_file_meta cfg E io c m))"
proof -
  let ?c = "c\<lparr>rc_pending_recv_dir := []\<rparr>"
  let ?k = "effective_transfer_chunk_size (fm_chunk_size m) kTransferChunkRawSizeMax"
  let ?md = "validate_transfer_metadata (fm_filesize m) (fm_total_chunks m)
               (cfg_transfer_max_bytes cfg) ?k"
  have c: "receive_inv ?c" using inv by (simp add: receive_inv_def)
  have total: "unat (fm_total_chunks m) = chunk_count (unat (fm_filesize m)) ?k" if "md_ok ?md"
    using that calculated_chunks [OF _ effective_valid]
    by (auto simp: validate_transfer_metadata_def Let_def split: if_splits)
  have idle: "receive_inv (abort_active l x c1)" for l x c1
    by (simp add: receive_inv_inactive)
  have path: "receive_inv (fst (receive_on_path cfg E io (abort_active l x c1) rd sn out ?k m))"
    if "md_ok ?md" for l x c1 rd sn out
    using receive_on_path_inv [OF _ effective_valid total [OF that]] by simp
  show ?thesis
    unfolding handle_file_meta_def Let_def
    using c idle path by (simp split: option.split sum.split)
qed

section \<open>Whole transfers\<close>

text \<open>A transfer that is under way for the content \<open>content\<close>: the part received so far is a
  prefix of it.\<close>

definition receiving :: "(bytes \<Rightarrow> string) \<Rightarrow> bytes \<Rightarrow> string \<Rightarrow> recv_conn \<Rightarrow> bool" where
  "receiving sha content path c \<longleftrightarrow>
     (let st = rc_state c; k = frs_chunk_raw_size st in
      receive_inv c \<and> frs_active st \<and> frs_path st = path \<and>
      unat (frs_expected_size st) = length content \<and>
      sha content \<noteq> [] \<and> frs_checksum st = sha content \<and>
      fs_read (rc_fs c) (path @ ''.part'') = Some (take (unat (frs_received_chunks st) * k) content))"

definition all_ok :: chunk_io where
  "all_ok = \<lparr>io_write_ok = True, io_hash_ok = True, io_final_ok = True, io_rename_ok = True,
     io_lost = None, io_relative = None\<rparr>"

lemma all_ok_flushed: "io_lost all_ok = None"
  by (simp add: all_ok_def)

lemma validate_None_intro:
  assumes "valid_chunk_size k" "unat ix < unat tot" "unat rcv \<le> unat ex"
    and "d = min (unat ex - unat rcv) k"
  shows "validate_transfer_chunk ex rcv ix tot ix tot d k = None"
  using assms
  by (simp add: validate_transfer_chunk_def valid_chunk_size_def Let_def word_less_nat_alt
      word_le_nat_alt unat_sub not_less not_le)

lemma check_next_chunk:
  assumes r: "receiving sha content path c"
  defines "st \<equiv> rc_state c" and "i \<equiv> unat (frs_received_chunks (rc_state c))"
    and "k \<equiv> frs_chunk_raw_size (rc_state c)"
  shows "check_chunk st (make_chunk content k (frs_total_chunks st) i) (take k (drop (i * k) content)) = None"
proof -
  from r obtain b where k: "valid_chunk_size k" and less: "i < unat (frs_total_chunks st)"
    and b: "b = take (i * k) content" "length b = unat (frs_received_bytes st)" "length b = i * k"
    and ex: "unat (frs_expected_size st) = length content"
    by (auto simp: receiving_def receive_inv_def Let_def st_def i_def k_def)
  have ix: "word_of_nat i = frs_received_chunks st" by (simp add: i_def st_def)
  have "unat (frs_received_bytes st) \<le> unat (frs_expected_size st)"
    using b ex by (metis length_take min.cobounded1)
  moreover have "length (take k (drop (i * k) content))
      = min (unat (frs_expected_size st) - unat (frs_received_bytes st)) k"
    using b ex by auto
  moreover have "frs_chunk_raw_size st = k" "unat (frs_received_chunks st) < unat (frs_total_chunks st)"
    using less by (simp_all add: k_def st_def i_def)
  ultimately show ?thesis
    unfolding check_chunk_def make_chunk_def
    by (simp only: FileChunkMsg.simps ix) (rule validate_None_intro [OF k _ _ refl])
qed

lemma finish_ok:
  assumes "actual_digest sha all_ok (rc_state c) (rc_fs c) = a" "a \<noteq> []" "frs_checksum (rc_state c) = a"
  shows "\<not> fa_error (snd (finish_receive sha all_ok c m)) \<and>
    fa_next_requested (snd (finish_receive sha all_ok c m)) = fc_total_chunks m"
proof -
  have "io_rename_ok all_ok" "io_lost all_ok = None" by (simp_all add: all_ok_def)
  with assms show ?thesis by (simp add: finish_receive_def Let_def)
qed

lemma handle_next_chunk:
  assumes r: "receiving sha content path c"
  defines "st \<equiv> rc_state c" and "i \<equiv> unat (frs_received_chunks (rc_state c))"
    and "k \<equiv> frs_chunk_raw_size (rc_state c)"
  assumes raw: "chunk_bytes Z (make_chunk content k (frs_total_chunks st) i) = take k (drop (i * k) content)"
  defines "m \<equiv> make_chunk content k (frs_total_chunks st) i"
  shows "if Suc i < unat (frs_total_chunks st)
    then receiving sha content path (fst (handle_file_chunk Z sha all_ok c m)) \<and>
         unat (frs_received_chunks (rc_state (fst (handle_file_chunk Z sha all_ok c m)))) = Suc i \<and>
         frs_total_chunks (rc_state (fst (handle_file_chunk Z sha all_ok c m))) = frs_total_chunks st \<and>
         frs_chunk_raw_size (rc_state (fst (handle_file_chunk Z sha all_ok c m))) = k \<and>
         \<not> fa_error (snd (handle_file_chunk Z sha all_ok c m)) \<and>
         unat (fa_next_requested (snd (handle_file_chunk Z sha all_ok c m))) = Suc i
    else \<not> frs_active (rc_state (fst (handle_file_chunk Z sha all_ok c m))) \<and>
         fs_read (rc_fs (fst (handle_file_chunk Z sha all_ok c m))) path = Some content \<and>
         \<not> fa_error (snd (handle_file_chunk Z sha all_ok c m)) \<and>
         fa_next_requested (snd (handle_file_chunk Z sha all_ok c m)) = frs_total_chunks st"
proof -
  let ?d = "chunk_bytes Z m" and ?h = "handle_file_chunk Z sha all_ok c m"
  have inv: "receive_inv c" and act: "frs_active st" and path: "frs_path st = path"
    and ex: "unat (frs_expected_size st) = length content"
    and sum: "sha content \<noteq> []" "frs_checksum st = sha content"
    and part: "fs_read (rc_fs c) (path @ ''.part'') = Some (take (i * k) content)"
    using r by (auto simp: receiving_def Let_def st_def i_def k_def)
  have ok: "check_chunk st m ?d = None"
    using check_next_chunk [OF r] raw by (simp add: m_def st_def i_def k_def)
  have idx: "fc_chunk_index m = frs_received_chunks st" "fc_total_chunks m = frs_total_chunks st"
    by (simp_all add: m_def make_chunk_def i_def st_def)
  have inv': "receive_inv (fst ?h)" using inv by (rule receive_inv_chunk)
  have "Suc i * k = i * k + k" by simp
  with raw have app: "take (i * k) content @ ?d = take (Suc i * k) content"
    by (simp only: m_def take_add)
  from accepted_chunk_state [OF inv act [unfolded st_def] ok [unfolded st_def], folded st_def]
  obtain b where b: "fs_read (rc_fs c) (frs_path st @ ''.part'') = Some b"
    "fs_read (rc_fs (accept_chunk c m ?d)) (frs_path st @ ''.part'') = Some (b @ ?d)"
    "unat (frs_received_chunks (rc_state (accept_chunk c m ?d))) = Suc (unat (frs_received_chunks st))"
    "\<forall>h. frs_hasher (rc_state (accept_chunk c m ?d)) = Some h \<longrightarrow> h = b @ ?d"
    by (elim exE conjE)
  from b(1) part path have "b = take (i * k) content" by simp
  with b path app
  have acc: "fs_read (rc_fs (accept_chunk c m ?d)) (path @ ''.part'') = Some (take (Suc i * k) content)"
    and num: "unat (frs_received_chunks (rc_state (accept_chunk c m ?d))) = Suc i"
    and hash: "\<forall>h. frs_hasher (rc_state (accept_chunk c m ?d)) = Some h \<longrightarrow> h = take (Suc i * k) content"
    by (simp_all add: i_def st_def)
  have h: "?h = (if Suc i \<ge> unat (frs_total_chunks st)
      then finish_receive sha all_ok (accept_chunk c m ?d) m
      else (accept_chunk c m ?d, ok_ack (fc_chunk_index m) (fc_chunk_index m + 1) []))"
    using act ok num
    by (simp add: handle_file_chunk_def Let_def st_def all_ok_def word_le_nat_alt)
  show ?thesis
  proof (cases "Suc i < unat (frs_total_chunks st)")
    case True
    with h have h2: "?h = (accept_chunk c m ?d, ok_ack (fc_chunk_index m) (fc_chunk_index m + 1) [])"
      by simp
    from inv' h2 act path ex sum acc num True show ?thesis
      by (simp add: receiving_def Let_def st_def k_def ok_ack_def)
  next
    case False
    have k0: "0 < k" "unat (frs_total_chunks st) = chunk_count (length content) k"
      using inv act ex by (auto simp: receive_inv_def Let_def st_def k_def valid_chunk_size_def)
    from False have "unat (frs_total_chunks st) * k \<le> Suc i * k" by (intro mult_le_mono1) simp
    with k0 chunk_count_bounds(1) [of k "length content"] have "length content \<le> Suc i * k" by simp
    then have whole: "take (Suc i * k) content = content" by (rule take_all)
    have fin: "finish_receive sha all_ok (accept_chunk c m ?d) m = (fst ?h, snd ?h)"
      using h False by simp
    have dig: "actual_digest sha all_ok (rc_state (accept_chunk c m ?d)) (rc_fs (accept_chunk c m ?d))
        = sha content"
      using acc hash path unfolding whole
      by (auto simp: actual_digest_def all_ok_def fs_read_def st_def split: option.splits)
    have "\<not> fa_error (snd ?h) \<and> fa_next_requested (snd ?h) = frs_total_chunks st"
      using finish_ok [OF dig, of m] sum idx by (simp add: fin st_def)
    moreover from this finish_publishes [OF fin _ _ _ all_ok_flushed] acc hash path whole
    have "fs_read (rc_fs (fst ?h)) path = Some content"
      by (simp add: st_def)
    moreover have "\<not> frs_active (rc_state (fst ?h))"
      using fin finish_receive_inactive [of sha all_ok "accept_chunk c m ?d" m] by simp
    ultimately show ?thesis using False by simp
  qed
qed

text \<open>The acknowledgements of a sequence of chunks that arrive one after the other.\<close>

primrec receive_all ::
  "zstd_lib \<Rightarrow> (bytes \<Rightarrow> string) \<Rightarrow> chunk_io \<Rightarrow> recv_conn \<Rightarrow> FileChunkMsg list \<Rightarrow> recv_conn \<times> FileAckMsg list"
where
  "receive_all Z sha io c [] = (c, [])"
| "receive_all Z sha io c (m # ms) =
     (case handle_file_chunk Z sha io c m of (c1, a) \<Rightarrow>
        case receive_all Z sha io c1 ms of (c2, as) \<Rightarrow> (c2, a # as))"

lemma chunk_bytes_raw:
  assumes "valid_chunk_size k" "take 4 (drop (i * k) content) \<noteq> [0x28, 0xB5, 0x2F, 0xFD]"
  shows "chunk_bytes Z (make_chunk content k n i) = take k (drop (i * k) content)"
proof -
  have "4096 \<le> k"
    using assms(1) effective_bounds(1) [of "word_of_nat k"]
    by (simp add: valid_chunk_size_def kTransferChunkRawSizeMin_def)
  then have "min 4 k = 4" by simp
  with assms(2) show ?thesis
    by (simp add: chunk_bytes_def decompress_chunk_payload_def make_chunk_def)
qed

lemma receive_rest:
  assumes "receiving sha content path c"
    and "frs_chunk_raw_size (rc_state c) = k" "frs_total_chunks (rc_state c) = n"
    and "unat (frs_received_chunks (rc_state c)) = i"
    and "\<forall>j. take 4 (drop (j * k) content) \<noteq> [0x28, 0xB5, 0x2F, 0xFD]"
    and "receive_all Z sha all_ok c (map (make_chunk content k n) [i..<unat n]) = (c', acks)"
  shows "fs_read (rc_fs c') path = Some content \<and> (\<forall>a \<in> set acks. \<not> fa_error a) \<and>
    map (\<lambda>a. unat (fa_next_requested a)) acks = [Suc i..<Suc (unat n)]"
  using assms
proof (induction "unat n - i" arbitrary: i c acks)
  case 0
  then show ?case by (auto simp: receiving_def receive_inv_def Let_def)
next
  case (Suc l)
  let ?m = "make_chunk content k n i"
  have less: "i < unat n" using Suc.hyps(2) by simp
  have "valid_chunk_size k"
    using Suc.prems(1,2) by (auto simp: receiving_def receive_inv_def Let_def)
  then have raw: "chunk_bytes Z ?m = take k (drop (i * k) content)"
    using Suc.prems(5) by (simp add: chunk_bytes_raw)
  obtain c1 a where h: "handle_file_chunk Z sha all_ok c ?m = (c1, a)" by (cases "handle_file_chunk Z sha all_ok c ?m")
  from Suc.prems(6) less h obtain as where
    rest: "receive_all Z sha all_ok c1 (map (make_chunk content k n) [Suc i..<unat n]) = (c', as)"
    and acks: "acks = a # as"
    by (auto simp: upt_conv_Cons split: prod.splits)
  note step = handle_next_chunk [OF Suc.prems(1), of Z, unfolded Suc.prems(2-4), OF raw, unfolded h fst_conv snd_conv]
  show ?case
  proof (cases "Suc i < unat n")
    case True
    with step have s: "receiving sha content path c1" "frs_chunk_raw_size (rc_state c1) = k"
      "frs_total_chunks (rc_state c1) = n" "unat (frs_received_chunks (rc_state c1)) = Suc i"
      "\<not> fa_error a" "unat (fa_next_requested a) = Suc i" by simp_all
    have "l = unat n - Suc i" using Suc.hyps(2) by simp
    from Suc.hyps(1) [OF this s(1-4) Suc.prems(5) rest] s(5,6) True acks show ?thesis
      by (simp add: upt_conv_Cons del: upt_Suc)
  next
    case False
    with less have n: "unat n = Suc i" by simp
    with rest have "c1 = c'" "as = []" by simp_all
    with step n acks show ?thesis by simp
  qed
qed

text \<open>The states of a connection: it starts without a transfer; metadata, chunks and the
  directory that a pull leaves pending change it.\<close>

inductive recv_reachable :: "zstd_lib \<Rightarrow> (bytes \<Rightarrow> string) \<Rightarrow> recv_conn \<Rightarrow> bool" for Z sha where
  start: "\<not> frs_active (rc_state c) \<Longrightarrow> recv_reachable Z sha c"
| meta: "recv_reachable Z sha c \<Longrightarrow> recv_reachable Z sha (fst (handle_file_meta cfg E io c m))"
| chunk: "recv_reachable Z sha c \<Longrightarrow> recv_reachable Z sha (fst (handle_file_chunk Z sha cio c d))"
| pull: "recv_reachable Z sha c \<Longrightarrow> recv_reachable Z sha (c\<lparr>rc_pending_recv_dir := dir\<rparr>)"

lemma reachable_inv: "recv_reachable Z sha c \<Longrightarrow> receive_inv c"
proof (induction rule: recv_reachable.induct)
  case (pull c dir)
  then show ?case by (simp add: receive_inv_def)
qed (auto intro: inv_intros)

text \<open>A chunk that ends the transfer without an error has published the declared content.\<close>

lemma ended_transfer_is_verified:
  assumes "recv_reachable Z sha c" "frs_active (rc_state c)"
    and "handle_file_chunk Z sha io c m = (c', ack)" "\<not> frs_active (rc_state c')" "\<not> fa_error ack"
    and "io_lost io = None"
  shows "\<exists>b. fs_read (rc_fs c') (frs_path (rc_state c)) = Some b \<and>
      length b = unat (frs_expected_size (rc_state c)) \<and> sha b = frs_checksum (rc_state c) \<and>
      fs_read (rc_fs c') (frs_path (rc_state c) @ ''.part'') = None"
  using assms(2)
proof (cases rule: handle_file_chunk_cases [where Z = Z and sha = sha and io = io and m = m])
  case (rejected c0 e)
  with assms(3,5) show ?thesis by (auto simp: fail_receive_def error_ack_def Let_def)
next
  case accepted
  let ?d = "chunk_bytes Z m" and ?st = "rc_state c"
  have inv: "receive_inv c" using assms(1) by (rule reachable_inv)
  from accepted(2) assms(2-4) have last: "fc_chunk_index m + 1 \<ge> frs_total_chunks ?st"
    and fin: "finish_receive sha io (accept_chunk c m ?d) m = (c', ack)"
    by (auto split: if_splits)
  from accepted_chunk_state [OF inv assms(2) accepted(1)] obtain b where
    b: "fs_read (rc_fs (accept_chunk c m ?d)) (frs_path ?st @ ''.part'') = Some (b @ ?d)"
      "length (b @ ?d) = min (unat (frs_expected_size ?st))
         (Suc (unat (frs_received_chunks ?st)) * frs_chunk_raw_size ?st)"
      "unat (frs_received_chunks (rc_state (accept_chunk c m ?d))) = Suc (unat (frs_received_chunks ?st))"
      "\<forall>h. frs_hasher (rc_state (accept_chunk c m ?d)) = Some h \<longrightarrow> h = b @ ?d"
    by (elim exE conjE)
  have k: "0 < frs_chunk_raw_size ?st"
    "unat (frs_total_chunks ?st) = chunk_count (unat (frs_expected_size ?st)) (frs_chunk_raw_size ?st)"
    using inv assms(2) by (auto simp: receive_inv_def Let_def valid_chunk_size_def)
  from last b(3) have "unat (frs_total_chunks ?st) \<le> Suc (unat (frs_received_chunks ?st))"
    by (simp add: word_le_nat_alt)
  then have "unat (frs_total_chunks ?st) * frs_chunk_raw_size ?st
      \<le> Suc (unat (frs_received_chunks ?st)) * frs_chunk_raw_size ?st" by (rule mult_le_mono1)
  with chunk_count_bounds(1) [OF k(1), of "unat (frs_expected_size ?st)"] k(2) b(2)
  have "length (b @ ?d) = unat (frs_expected_size ?st)" by (simp add: min_def)
  with finish_publishes [OF fin assms(5) _ _ assms(6)] b(1,4) show ?thesis by auto
qed


text \<open>The files a chunk can change.\<close>

lemma fail_receive_keeps [simp]:
  "p \<noteq> frs_path (rc_state c) @ ''.part'' \<Longrightarrow>
   fs_read (rc_fs (fst (fail_receive c m e))) p = fs_read (rc_fs c) p"
  by (simp add: fail_receive_def Let_def)

lemma write_part_keeps [simp]:
  "p \<noteq> frs_path (rc_state c) @ ''.part'' \<Longrightarrow> fs_read (rc_fs (write_part c d)) p = fs_read (rc_fs c) p"
  "rc_state (write_part c d) = rc_state c"
  by (simp_all add: write_part_def Let_def)

lemma accept_chunk_keeps [simp]:
  "p \<noteq> frs_path (rc_state c) @ ''.part'' \<Longrightarrow> fs_read (rc_fs (accept_chunk c m d)) p = fs_read (rc_fs c) p"
  by (simp add: accept_chunk_def Let_def)

lemma finish_receive_keeps:
  assumes "p \<noteq> frs_path (rc_state c) @ ''.part''" "p \<noteq> frs_path (rc_state c) @ ''.part.bsmeta''"
    and "p = frs_path (rc_state c) \<longrightarrow> fa_error (snd (finish_receive sha io c m))"
  shows "fs_read (rc_fs (fst (finish_receive sha io c m))) p = fs_read (rc_fs c) p"
  using assms
  by (auto simp: finish_receive_def Let_def fs_read_close fs_read_rename_other split: if_splits)

lemma chunk_keeps:
  assumes h: "handle_file_chunk Z sha io c m = (c', ack)"
    and p: "p \<noteq> frs_path (rc_state c) @ ''.part''" "p \<noteq> frs_path (rc_state c) @ ''.part.bsmeta''"
    and e: "p = frs_path (rc_state c) \<longrightarrow>
      \<not> (frs_active (rc_state c) \<and> \<not> frs_active (rc_state c') \<and> \<not> fa_error ack)"
  shows "fs_read (rc_fs c') p = fs_read (rc_fs c) p"
proof (cases "frs_active (rc_state c)")
  case False
  with h show ?thesis by (auto simp: handle_file_chunk_def Let_def)
next
  case True
  let ?d = "chunk_bytes Z m"
  from True show ?thesis
  proof (cases rule: handle_file_chunk_cases [where Z = Z and sha = sha and io = io and m = m])
    case (rejected c0 e)
    with h have "rc_fs c' = rc_fs (fst (fail_receive c0 m e))" by simp
    with rejected(2) p show ?thesis by auto
  next
    case accepted
    let ?f = "finish_receive sha io (accept_chunk c m ?d) m"
    show ?thesis
    proof (cases "fc_chunk_index m + 1 \<ge> frs_total_chunks (rc_state c)")
      case True
      with accepted(2) h have f: "?f = (c', ack)" by simp
      then have "\<not> frs_active (rc_state c')"
        using finish_receive_inactive [of sha io "accept_chunk c m ?d" m] by simp
      with e f \<open>frs_active (rc_state c)\<close> p
      have "fs_read (rc_fs (fst ?f)) p = fs_read (rc_fs (accept_chunk c m ?d)) p"
        by (intro finish_receive_keeps) auto
      with f p show ?thesis by simp
    next
      case False
      with accepted(2) h p show ?thesis by auto
    qed
  qed
qed

text \<open>When the close loses the end of a fresh transfer, the digest of the bytes received still
  matches, and the truncated file is published as complete.\<close>

lemma lost_tail_is_published:
  assumes "frs_hasher (rc_state c) = Some h" "sha h = frs_checksum (rc_state c)" "sha h \<noteq> []"
    and "fs_read (rc_fs c) (frs_path (rc_state c) @ ''.part'') = Some h"
    and "io_final_ok io" "io_rename_ok io" "io_lost io = Some n"
  shows "fs_read (rc_fs (fst (finish_receive sha io c m))) (frs_path (rc_state c)) = Some (take n h) \<and>
    \<not> fa_error (snd (finish_receive sha io c m))"
  using assms
  by (simp add: finish_receive_def actual_digest_def Let_def fs_read_close fs_read_rename)

text \<open>An accepted metadata message has started the transfer it describes.\<close>

lemma start_receive_accepted:
  assumes "start_receive io c rd sn out k r m = (c', a)" "\<not> fa_error a"
  shows "frs_active (rc_state c')" "frs_chunk_raw_size (rc_state c') = k"
    "frs_total_chunks (rc_state c') = fm_total_chunks m" "frs_checksum (rc_state c') = fm_checksum m"
    "frs_expected_size (rc_state c') = fm_filesize m"
    "frs_received_chunks (rc_state c') = fa_next_requested a"
  using assms by (auto simp: start_receive_def Let_def ok_ack_def error_ack_def split: if_splits)

lemma meta_accepted:
  assumes "handle_file_meta cfg E io c m = (c', a)" "\<not> fa_error a"
  obtains c2 rd sn out r where
    "start_receive io c2 rd sn out (effective_transfer_chunk_size (fm_chunk_size m) kTransferChunkRawSizeMax) r m
       = (c', a)"
proof -
  have err: "fa_error (error_ack i n e)" for i n e by (simp add: error_ack_def)
  have pair: "(x, error_ack i n e) \<noteq> (c', a)" for x i n e using assms(2) err by auto
  from assms(1) pair obtain c1 rd sn out where
    "receive_on_path cfg E io c1 rd sn out (effective_transfer_chunk_size (fm_chunk_size m) kTransferChunkRawSizeMax) m
       = (c', a)"
    unfolding handle_file_meta_def Let_def
    by (simp split: option.splits if_splits sum.splits)
  with pair that show thesis
    unfolding receive_on_path_def Let_def
    by (simp split: if_splits)
qed

lemma meta_starts_receiving:
  assumes "recv_reachable Z sha c" "handle_file_meta cfg E io c m = (c1, a)" "\<not> fa_error a"
    and "unat (fm_filesize m) = length content" "fm_checksum m = sha content" "sha content \<noteq> []"
  defines "k \<equiv> effective_transfer_chunk_size (fm_chunk_size m) kTransferChunkRawSizeMax"
  assumes "fa_next_requested a = 0 \<or>
      fs_read (rc_fs c1) (frs_path (rc_state c1) @ ''.part'')
        = Some (take (unat (fa_next_requested a) * k) content)"
  shows "receiving sha content (frs_path (rc_state c1)) c1"
    "frs_chunk_raw_size (rc_state c1) = k" "frs_total_chunks (rc_state c1) = fm_total_chunks m"
    "frs_received_chunks (rc_state c1) = fa_next_requested a"
proof -
  obtain c2 rd sn out r where "start_receive io c2 rd sn out k r m = (c1, a)"
    using meta_accepted [OF assms(2,3)] unfolding k_def by blast
  note st = start_receive_accepted [OF this assms(3)]
  from st show "frs_chunk_raw_size (rc_state c1) = k" "frs_total_chunks (rc_state c1) = fm_total_chunks m"
    "frs_received_chunks (rc_state c1) = fa_next_requested a" by simp_all
  have inv: "receive_inv c1"
    using receive_inv_meta [OF reachable_inv [OF assms(1)], of cfg E io m] assms(2) by simp
  with st obtain b where "fs_read (rc_fs c1) (frs_path (rc_state c1) @ ''.part'') = Some b"
    "length b = unat (fa_next_requested a) * k"
    by (auto simp: receive_inv_def Let_def)
  with assms(8) have "fs_read (rc_fs c1) (frs_path (rc_state c1) @ ''.part'')
        = Some (take (unat (fa_next_requested a) * k) content)" by auto
  with inv st assms(4-6) show "receiving sha content (frs_path (rc_state c1)) c1"
    by (simp add: receiving_def Let_def)
qed

section \<open>A sample transfer\<close>

definition sample_env :: path_env where
  "sample_env = \<lparr>pe_canon = Some, pe_absolute = Some, pe_home = ''/h''\<rparr>"

definition sample_cfg :: recv_config where
  "sample_cfg = \<lparr>cfg_receive_dir = ''/r'', cfg_transfer_max_bytes = 1000, cfg_copy_scope = ''any'',
     cfg_dest_allow_home = False, cfg_allow_sensitive_paths = False\<rparr>"

definition sample_io :: meta_io where
  "sample_io = \<lparr>io_mkdir_recv = True, io_mkdir_parent = True, io_open_sidecar = True,
     io_open_part = True, io_hasher_ok = True, io_old_lost = None\<rparr>"

definition sample_meta :: "nat \<Rightarrow> string \<Rightarrow> FileMetaMsg" where
  "sample_meta n checksum =
     \<lparr>fm_filename = ''a'', fm_filesize = word_of_nat n, fm_checksum = checksum, fm_total_chunks = 1,
      fm_chunk_size = 4096, fm_dest_path = [], fm_src_mtime_unix = 0, fm_direct = 0\<rparr>"

definition idle_conn :: recv_conn where
  "idle_conn = \<lparr>rc_pending_recv_dir = [], rc_state = fresh_receive_state,
     rc_fs = \<lparr>fs_files = [], fs_dirs = []\<rparr>\<rparr>"

lemma sample_paths:
  "sanitize_transfer_filename ''a'' = Some ''a''"
  "sensitive_write sample_cfg sample_env ''/r/a'' = False"
  "path_parent ''/r/a'' = ''/r''" "path_filename ''/r/a'' = ''a''" "path_join ''/r'' ''a'' = ''/r/a''"
  "path_is_inside_directory sample_env ''/r/a'' ''/r''"
  by code_simp+

lemma sample_sizes:
  "effective_transfer_chunk_size 4096 kTransferChunkRawSizeMax = 4096"
  "validate_transfer_metadata 3 1 1000 4096 = \<lparr>md_ok = True, md_expected_chunks = 1, md_reason = []\<rparr>"
  by (simp_all add: effective_transfer_chunk_size_def validate_transfer_metadata_def
      calculate_transfer_metadata_def chunk_consts Let_def)

lemma free_name_free:
  "\<not> fs_exists F out \<Longrightarrow> \<not> fs_exists F (out @ ''.part'') \<Longrightarrow> free_name n E F rd sn i out = out"
  by (cases n) simp_all

lemma sample_start:
  fixes s
  defines "h \<equiv> handle_file_meta sample_cfg sample_env sample_io idle_conn (sample_meta 3 s)"
  shows "snd h = ok_ack 0 0 ''path=a''" "frs_path (rc_state (fst h)) = ''/r/a''"
  unfolding h_def handle_file_meta_def
   by (simp_all add: sample_paths sample_sizes sample_meta_def sample_cfg_def [of] sample_io_def idle_conn_def Let_def
     fresh_receive_state_def abort_active_def recv_out_path_def receive_on_path_def sample_paths [unfolded sample_cfg_def]
    resume_size_def name_fuel_def fs_exists_def fs_mkdir_def start_receive_def free_name_free)

definition sample_receiving :: "bytes \<Rightarrow> u32 \<Rightarrow> recv_conn" where
  "sample_receiving content n =
     \<lparr>rc_pending_recv_dir = [],
      rc_state = fresh_receive_state\<lparr>frs_path := ''/r/a'', frs_checksum := ''h'',
        frs_expected_size := word_of_nat (length content), frs_total_chunks := n,
        frs_chunk_raw_size := 4096, frs_hasher := Some [], frs_active := True\<rparr>,
      rc_fs = \<lparr>fs_files = [(''/r/a.part'', [])], fs_dirs = [''/r'']\<rparr>\<rparr>"

lemma sample_receiving:
  assumes "length content < 2 ^ 64" "unat n = chunk_count (length content) 4096"
  shows "receiving (\<lambda>_. ''h'') content ''/r/a'' (sample_receiving content n)"
proof -
  have "valid_chunk_size 4096" using effective_valid [of 4096] by (simp add: sample_sizes)
  moreover have "0 < chunk_count (length content) 4096" by (simp add: chunk_count_def)
  ultimately show ?thesis
    using assms
    by (simp add: receiving_def receive_inv_def sample_receiving_def fresh_receive_state_def
        fs_read_def Let_def unat_of_nat)
qed

section \<open>Properties\<close>

text \<open>C2. In every state a connection can reach, a chunk changes no file but the partial file of
  the transfer, its sidecar and, when it ends the transfer without an error, the file under the
  final name; that one then has exactly the declared size and exactly the declared digest, and
  no partial file is left. This needs that closing the partial file writes out what the stream
  still buffers (\<open>io_lost io = None\<close>), which the code does not check: see
  \<open>lost_tail_is_published\<close>.\<close>

theorem published_file_is_verified:
  assumes "recv_reachable Z sha c" "handle_file_chunk Z sha io c m = (c', ack)"
    and "io_lost io = None"
  defines "final \<equiv> frs_path (rc_state c)"
    and "published \<equiv> frs_active (rc_state c) \<and> \<not> frs_active (rc_state c') \<and> \<not> fa_error ack"
  shows "(\<forall>p. fs_read (rc_fs c') p \<noteq> fs_read (rc_fs c) p \<longrightarrow>
        p = final @ ''.part'' \<or> p = final @ ''.part.bsmeta'' \<or> p = final \<and> published) \<and>
    (published \<longrightarrow> (\<exists>b. fs_read (rc_fs c') final = Some b \<and>
      length b = unat (frs_expected_size (rc_state c)) \<and> sha b = frs_checksum (rc_state c) \<and>
      fs_read (rc_fs c') (final @ ''.part'') = None))"
  using chunk_keeps [OF assms(2)] ended_transfer_is_verified [OF assms(1) _ assms(2) _ _ assms(3)]
  unfolding final_def published_def by blast

lemma published_file_is_verified_witness:
  fixes c :: recv_conn
  defines "c \<equiv> fst (handle_file_meta sample_cfg sample_env sample_io idle_conn (sample_meta 3 ''h''))"
  shows "\<exists>b. fs_read (rc_fs (fst (handle_file_chunk store_zstd (\<lambda>_. ''h'') all_ok c (make_chunk [1, 2, 3] 4096 1 0))))
      ''/r/a'' = Some b \<and> length b = 3"
proof -
  let ?m = "make_chunk [1, 2, 3] 4096 1 0"
  let ?h = "handle_file_chunk store_zstd (\<lambda>_. ''h'') all_ok c ?m"
  have i: "recv_reachable store_zstd (\<lambda>_. ''h'') idle_conn"
    by (rule recv_reachable.start) (simp add: idle_conn_def fresh_receive_state_def)
  then have r: "recv_reachable store_zstd (\<lambda>_. ''h'') c"
    unfolding c_def by (rule recv_reachable.meta)
  have m: "handle_file_meta sample_cfg sample_env sample_io idle_conn (sample_meta 3 ''h'')
      = (c, ok_ack 0 0 ''path=a'')"
    using sample_start(1) [of "''h''"] by (simp add: prod_eq_iff c_def)
  have s: "receiving (\<lambda>_. ''h'') [1, 2, 3] (frs_path (rc_state c)) c"
    "frs_chunk_raw_size (rc_state c) = 4096" "frs_total_chunks (rc_state c) = 1"
    "frs_received_chunks (rc_state c) = 0"
    using meta_starts_receiving [OF i m, of "[1, 2, 3]"] by (simp_all add: ok_ack_def sample_meta_def sample_sizes)
  have p: "frs_path (rc_state c) = ''/r/a''" using sample_start(2) by (simp add: c_def)
  have "chunk_bytes store_zstd ?m = [1, 2, 3]"
    by (simp add: chunk_bytes_def decompress_chunk_payload_def make_chunk_def)
  with handle_next_chunk [OF s(1), of store_zstd] s
  have "\<not> frs_active (rc_state (fst ?h))" "\<not> fa_error (snd ?h)" by simp_all
  moreover have "frs_active (rc_state c)" "unat (frs_expected_size (rc_state c)) = 3"
    using s(1) by (simp_all add: receiving_def Let_def)
  ultimately show ?thesis
    using published_file_is_verified [OF r, of all_ok ?m "fst ?h" "snd ?h"] p all_ok_flushed by auto
qed

text \<open>C1. A file sent to a connection arrives, when no operation of the file system and of the
  hashing fails while its chunks are handled (\<open>all_ok\<close>): once the metadata of the content is accepted, from
  the start or from a partial file that is a prefix of the content, the chunks of the sender's
  batches, from the chunk the receiver asked for and whatever the window, are all
  acknowledged in order without an error, and the content stands under the final name. The
  hypothesis on the magic number is needed: a chunk that looks like a zstd frame is decompressed.\<close>

theorem transfer_delivers_file:
  assumes "recv_reachable Z sha c" "handle_file_meta cfg E io c m = (c1, a)" "\<not> fa_error a"
    and "unat (fm_filesize m) = length content" "fm_checksum m = sha content" "sha content \<noteq> []"
    and "k = effective_transfer_chunk_size (fm_chunk_size m) kTransferChunkRawSizeMax" "0 < window"
    and "fa_next_requested a = 0 \<or>
      fs_read (rc_fs c1) (frs_path (rc_state c1) @ ''.part'')
        = Some (take (unat (fa_next_requested a) * k) content)"
    and "\<forall>j. take 4 (drop (j * k) content) \<noteq> [0x28, 0xB5, 0x2F, 0xFD]"
    and "receive_all Z sha all_ok c1 (concat (send_batches content k (fm_total_chunks m) window
        (unat (fa_next_requested a)))) = (c2, acks)"
  shows "fs_read (rc_fs c2) (frs_path (rc_state c1)) = Some content \<and>
    (\<forall>x \<in> set acks. \<not> fa_error x) \<and>
    map (\<lambda>x. unat (fa_next_requested x)) acks
      = [Suc (unat (fa_next_requested a))..<Suc (unat (fm_total_chunks m))]"
proof -
  note r = meta_starts_receiving [OF assms(1-6) assms(9) [unfolded assms(7)], folded assms(7)]
  from assms(11) have "receive_all Z sha all_ok c1 (map (make_chunk content k (fm_total_chunks m))
      [unat (fa_next_requested a)..<unat (fm_total_chunks m)]) = (c2, acks)"
    by (simp add: send_batches_concat [OF assms(8)])
  from receive_rest [OF r(1-3) _ assms(10) this] r(4) show ?thesis by simp
qed

lemma transfer_delivers_file_witness:
  "fs_read (rc_fs (fst (receive_all store_zstd (\<lambda>_. ''h'') all_ok
       (fst (handle_file_meta sample_cfg sample_env sample_io idle_conn (sample_meta 3 ''h'')))
       (concat (send_batches [1, 2, 3] 4096 1 32 0))))) ''/r/a'' = Some [1, 2, 3]"
proof -
  let ?h = "handle_file_meta sample_cfg sample_env sample_io idle_conn (sample_meta 3 ''h'')"
  have r: "recv_reachable store_zstd (\<lambda>_. ''h'') idle_conn"
    by (rule recv_reachable.start) (simp add: idle_conn_def fresh_receive_state_def)
  have h: "?h = (fst ?h, ok_ack 0 0 ''path=a'')"
    using sample_start(1) [of "''h''"] by (simp add: prod_eq_iff)
  have magic: "\<forall>j. take 4 (drop (j * 4096) [1, 2, 3 :: byte]) \<noteq> [0x28, 0xB5, 0x2F, 0xFD]"
    by (auto dest!: arg_cong [of _ _ length])
  show ?thesis
    using transfer_delivers_file [OF r h _ _ _ _ _ _ _ magic, where window = 32] sample_sizes(1)
      sample_start(2) [of "''h''"]
    by (simp add: ok_ack_def sample_meta_def prod_eq_iff)
qed

text \<open>The sender resumes at its own chunk when the receiver asks for an earlier one: after a
  receiver restarted behind the sender's resume point, the first chunk sent is refused as out
  of order and the transfer is ended, on every retry, for the sender's start never moves back.\<close>

theorem sender_ahead_of_receiver_is_refused:
  assumes "receiving sha content path c" "s < unat (frs_total_chunks (rc_state c))"
    and "unat (frs_received_chunks (rc_state c)) < s"
  defines "m \<equiv> make_chunk content (frs_chunk_raw_size (rc_state c)) (frs_total_chunks (rc_state c))
      (send_start s (unat (frs_received_chunks (rc_state c))))"
  shows "handle_file_chunk Z sha io c m = fail_receive c m ''unexpected chunk index'' \<and>
    \<not> frs_active (rc_state (fst (handle_file_chunk Z sha io c m)))"
proof -
  have i: "fc_chunk_index m = word_of_nat s" "fc_total_chunks m = frs_total_chunks (rc_state c)"
    using assms(3) by (simp_all add: m_def make_chunk_def send_start_def)
  have "s < 2 ^ 32" using assms(2) unat_bounds(2) [of "frs_total_chunks (rc_state c)"] by linarith
  then have "unat (word_of_nat s :: u32) = s" by (simp add: unat_of_nat)
  with assms(3) have "word_of_nat s \<noteq> frs_received_chunks (rc_state c)" by auto
  with i have "check_chunk (rc_state c) m d = Some ''unexpected chunk index''" for d
    by (simp add: check_chunk_def validate_transfer_chunk_def)
  with assms(1) show ?thesis by (simp add: handle_file_chunk_def receiving_def Let_def)
qed

lemma sender_ahead_of_receiver_is_refused_witness:
  "snd (handle_file_chunk store_zstd (\<lambda>_. ''h'') all_ok (sample_receiving (replicate 5000 0) 2)
      (make_chunk (replicate 5000 0) 4096 2 1)) = error_ack 1 0 ''unexpected chunk index''"
proof -
  let ?c = "sample_receiving (replicate 5000 0) 2"
  have st: "frs_total_chunks (rc_state ?c) = 2" "frs_received_chunks (rc_state ?c) = 0"
    "frs_chunk_raw_size (rc_state ?c) = 4096"
    by (simp_all add: sample_receiving_def fresh_receive_state_def)
  have "receiving (\<lambda>_. ''h'') (replicate 5000 0) ''/r/a'' ?c"
    by (rule sample_receiving) (simp_all add: chunk_count_def)
  from sender_ahead_of_receiver_is_refused [OF this, where s = 1 and Z = store_zstd and io = all_ok] st show ?thesis
    by (simp add: send_start_def fail_receive_def Let_def make_chunk_def)
qed

text \<open>A chunk of raw content that is a complete zstd frame, as for a small file that was
  compressed before it was sent, is decompressed by the receiver; as soon as the result has
  another length the chunk is refused and the transfer is ended.\<close>

theorem compressed_content_is_refused:
  assumes r: "receiving sha content path c"
  defines "st \<equiv> rc_state c" and "k \<equiv> frs_chunk_raw_size (rc_state c)"
    and "i \<equiv> unat (frs_received_chunks (rc_state c))"
  assumes z: "take 4 (take k (drop (i * k) content)) = [0x28, 0xB5, 0x2F, 0xFD]"
      "zstd_decompress Z (take k (drop (i * k) content)) = Inr out"
      "length out \<noteq> length (take k (drop (i * k) content))"
  defines "m \<equiv> make_chunk content k (frs_total_chunks st) i"
  shows "handle_file_chunk Z sha io c m
      = fail_receive c m ''chunk bytes do not match declared file size''"
proof -
  have d: "chunk_bytes Z m = out"
    using z by (auto simp: chunk_bytes_def decompress_chunk_payload_def m_def make_chunk_def)
  have ok: "check_chunk st m (take k (drop (i * k) content)) = None"
    using check_next_chunk [OF r] by (simp add: st_def k_def i_def m_def)
  have "valid_chunk_size k"
    using r by (auto simp: receiving_def receive_inv_def Let_def k_def)
  note v = validated_chunk [OF ok [unfolded check_chunk_def, folded st_def] this [unfolded k_def st_def [symmetric]]]
  from ok z(3) have "check_chunk st m out = Some ''chunk bytes do not match declared file size''"
    unfolding check_chunk_def validate_transfer_chunk_def Let_def
    by (simp split: if_splits)
  with r d show ?thesis by (simp add: handle_file_chunk_def receiving_def Let_def st_def)
qed

lemma compressed_content_is_refused_witness:
  "fa_error (snd (handle_file_chunk store_zstd (\<lambda>_. ''h'') all_ok
      (sample_receiving [0x28, 0xB5, 0x2F, 0xFD, 9] 1)
      (make_chunk [0x28, 0xB5, 0x2F, 0xFD, 9] 4096 1 0)))"
proof -
  let ?d = "[0x28, 0xB5, 0x2F, 0xFD, 9] :: bytes"
  let ?c = "sample_receiving ?d 1"
  have st: "frs_total_chunks (rc_state ?c) = 1" "frs_received_chunks (rc_state ?c) = 0"
    "frs_chunk_raw_size (rc_state ?c) = 4096"
    by (simp_all add: sample_receiving_def fresh_receive_state_def)
  have r: "receiving (\<lambda>_. ''h'') ?d ''/r/a'' ?c"
    by (rule sample_receiving) (simp_all add: chunk_count_def)
  have "zstd_decompress store_zstd ?d = Inr [9]"
    by (simp add: zstd_decompress_def store_zstd_def frame_consts)
  with compressed_content_is_refused [OF r, where Z = store_zstd and out = "[9]" and io = all_ok] st show ?thesis
    by (simp add: fail_receive_def error_ack_def Let_def)
qed

end
