(* ===== verification/Ring_Buffer.thy ===== *)
theory Ring_Buffer
  imports Prelude
begin

unbundle bit_operations_syntax

text \<open>
  The scrollback of a session: the class template \<open>RingBuffer\<close> of bs-session.h. The template
  parameter \<open>Capacity\<close> is the argument \<open>cap\<close>, the write position is a 64-bit word. Every
  operation holds the lock of the buffer, so each is one step here.
\<close>

section \<open>State and operations\<close>

record ring =
  rb_buf :: "char list"
  rb_write_pos :: u64

definition ring_new :: "nat \<Rightarrow> ring" where
  "ring_new cap = \<lparr>rb_buf = replicate cap (CHR 0x00), rb_write_pos = 0\<rparr>"

definition kMask :: "nat \<Rightarrow> u64" where "kMask cap = word_of_nat (cap - 1)"

text \<open>\<open>memcpy\<close> of \<open>ys\<close> into the buffer at index \<open>i\<close>.\<close>

definition blit :: "'a list \<Rightarrow> nat \<Rightarrow> 'a list \<Rightarrow> 'a list" where
  "blit xs i ys = take i xs @ ys @ drop (i + length ys) xs"

definition ring_write :: "nat \<Rightarrow> string \<Rightarrow> ring \<Rightarrow> ring" where
  "ring_write cap d r =
     (if d = [] then r
      else
        let pos = rb_write_pos r; len = length d; buf = rb_buf r in
        if len \<ge> cap then
          let tail = drop (len - cap) d;
              new_pos = pos + word_of_nat len;
              idx = unat (new_pos AND kMask cap);
              first = cap - idx
          in \<lparr>rb_buf = blit (blit buf idx (take first tail)) 0 (take idx (drop first tail)),
              rb_write_pos = new_pos\<rparr>
        else
          let idx = unat (pos AND kMask cap);
              space_to_end = cap - idx
          in \<lparr>rb_buf = (if len \<le> space_to_end then blit buf idx d
                       else blit (blit buf idx (take space_to_end d)) 0 (drop space_to_end d)),
              rb_write_pos = pos + word_of_nat len\<rparr>)"

definition total_written :: "ring \<Rightarrow> u64" where "total_written r = rb_write_pos r"

definition ring_size :: "nat \<Rightarrow> ring \<Rightarrow> nat" where
  "ring_size cap r = min (unat (rb_write_pos r)) cap"

text \<open>The linear view that \<open>snapshot\<close>, \<open>read_last_lines\<close> and \<open>read_range\<close> build.\<close>

definition snapshot :: "nat \<Rightarrow> ring \<Rightarrow> string" where
  "snapshot cap r =
     (let wp = rb_write_pos r; n = min (unat wp) cap; buf = rb_buf r in
      if n = 0 then []
      else if unat wp \<le> cap then take n buf
      else let idx = unat (wp AND kMask cap); tail = cap - idx
           in take tail (drop idx buf) @ take idx buf)"

definition kMaxRead :: nat where "kMaxRead = 64 * 1024"

definition read_since :: "nat \<Rightarrow> u64 \<Rightarrow> ring \<Rightarrow> string \<times> bool" where
  "read_since cap since_byte r =
     (let wp = unat (rb_write_pos r); buf = rb_buf r in
      if unat since_byte \<ge> wp then ([], False)
      else
        let old = wp > cap \<and> unat since_byte < wp - cap;
            start1 = (if old then wp - cap else unat since_byte);
            far = wp - start1 > kMaxRead;
            start = (if far then wp - kMaxRead else start1);
            n = min kMaxRead (wp - start)
        in if n = 0 then ([], old \<or> far)
           else let idx = unat (word_of_nat start AND kMask cap); tail = cap - idx
                in (if n \<le> tail then take n (drop idx buf)
                    else take tail (drop idx buf) @ take (n - tail) buf,
                    old \<or> far))"

text \<open>The backward scan of \<open>read_last_lines\<close>: \<open>i\<close> bytes are left to look at.\<close>

fun scan_lines :: "string \<Rightarrow> nat \<Rightarrow> nat \<Rightarrow> nat \<Rightarrow> nat" where
  "scan_lines linear target found 0 = 0"
| "scan_lines linear target found (Suc i) =
     (if linear ! i = CHR 0x0A then
        if Suc found \<ge> target then Suc i else scan_lines linear target (Suc found) i
      else scan_lines linear target found i)"

definition read_last_lines :: "nat \<Rightarrow> nat \<Rightarrow> ring \<Rightarrow> string" where
  "read_last_lines cap num_lines r =
     (if num_lines = 0 then []
      else
        let linear = snapshot cap r in
        if linear = [] then []
        else let target = (if last linear = CHR 0x0A then num_lines + 1 else num_lines)
             in drop (scan_lines linear target 0 (length linear)) linear)"

definition read_range :: "nat \<Rightarrow> nat \<Rightarrow> nat \<Rightarrow> ring \<Rightarrow> string" where
  "read_range cap offset len r =
     (let n = ring_size cap r in
      if offset \<ge> n then []
      else take (min len (n - offset)) (drop offset (snapshot cap r)))"

definition ring_clear :: "ring \<Rightarrow> ring" where
  "ring_clear r = r\<lparr>rb_write_pos := 0\<rparr>"

section \<open>The stream behind a buffer\<close>

text \<open>\<open>holds cap r s\<close>: the buffer \<open>r\<close> stands for the stream \<open>s\<close> of all bytes written since it
  was created or cleared; the byte with absolute position \<open>q\<close> is at index \<open>q mod cap\<close>, as long
  as it is one of the last \<open>cap\<close>.\<close>

definition capacity_ok :: "nat \<Rightarrow> bool" where
  "capacity_ok cap \<longleftrightarrow> (\<exists>k < 64. cap = 2 ^ k)"

definition holds :: "nat \<Rightarrow> ring \<Rightarrow> string \<Rightarrow> bool" where
  "holds cap r s \<longleftrightarrow>
     length (rb_buf r) = cap \<and> unat (rb_write_pos r) = length s \<and>
     (\<forall>q < length s. length s \<le> q + cap \<longrightarrow> rb_buf r ! (q mod cap) = s ! q)"

lemma capacity_pos: "capacity_ok cap \<Longrightarrow> 0 < cap"
  by (auto simp: capacity_ok_def)

lemma masked_index:
  assumes "capacity_ok cap"
  shows "unat (w AND kMask cap) = unat w mod cap"
proof -
  from assms obtain k where k: "k < 64" "cap = 2 ^ k" by (auto simp: capacity_ok_def)
  have "kMask cap = mask k"
    by (simp add: kMask_def k mask_eq_exp_minus_1 of_nat_diff)
  then have "w AND kMask cap = take_bit k w" by (simp add: take_bit_eq_mask)
  then show ?thesis
    by (simp only: unsigned_take_bit_eq k(2)) (simp only: take_bit_eq_mod)
qed

lemma holds_new: "holds cap (ring_new cap) []"
  by (simp add: holds_def ring_new_def)

lemma holds_clear: "length (rb_buf r) = cap \<Longrightarrow> holds cap (ring_clear r) []"
  by (simp add: holds_def ring_clear_def)

lemma length_blit [simp]: "i + length ys \<le> length xs \<Longrightarrow> length (blit xs i ys) = length xs"
  by (simp add: blit_def)

lemma nth_blit:
  "i + length ys \<le> length xs \<Longrightarrow> j < length xs \<Longrightarrow>
   blit xs i ys ! j = (if i \<le> j \<and> j < i + length ys then ys ! (j - i) else xs ! j)"
  by (auto simp: blit_def nth_append)

text \<open>Two copies around the end put the byte with offset \<open>j\<close> from the start index \<open>idx\<close> at
  index \<open>(idx + j) mod cap\<close>.\<close>

lemma nth_two_blits:
  assumes cap: "length xs = cap" and len: "length d \<le> cap" and j: "j < cap" and idx: "idx < cap"
  shows "blit (blit xs idx (take (cap - idx) d)) 0 (drop (cap - idx) d) ! j =
    (if (j + cap - idx) mod cap < length d then d ! ((j + cap - idx) mod cap) else xs ! j)"
proof (cases "idx \<le> j")
  case True
  then have m: "(j + cap - idx) mod cap = j - idx" using j idx
    by (metis Nat.diff_add_assoc2 less_imp_diff_less mod_add_self2 mod_less)
  from True j idx len cap show ?thesis
    unfolding m by (auto simp: nth_blit)
next
  case False
  then have m: "(j + cap - idx) mod cap = j + cap - idx" using j idx by simp
  from False j idx len cap show ?thesis
    unfolding m by (auto simp: nth_blit intro!: arg_cong [of _ _ "(!) d"])
qed

lemma length_two_blits:
  assumes "length xs = cap" "length d \<le> cap" "idx < cap"
  shows "length (blit (blit xs idx (take (cap - idx) d)) 0 (drop (cap - idx) d)) = cap"
proof -
  have "length (blit xs idx (take (cap - idx) d)) = cap" using assms by (subst length_blit) auto
  with assms show ?thesis by (subst length_blit) auto
qed

lemma blit_Nil [simp]: "blit xs i [] = xs"
  by (simp add: blit_def)

lemma offset_mod:
  assumes "0 < cap"
  shows "int ((q mod cap + cap - p mod cap) mod cap) = (int q - int p) mod int cap"
proof -
  have "p mod cap \<le> q mod cap + cap" using assms
    by (meson le_add2 le_trans less_imp_le mod_less_divisor)
  then have "int (q mod cap + cap - p mod cap) = int (q mod cap) + int cap - int (p mod cap)" by simp
  then have "int (q mod cap + cap - p mod cap) = (int q mod int cap - int p mod int cap) + int cap"
    by (simp add: zmod_int)
  then show ?thesis by (simp only: zmod_int [of _ cap] mod_add_self2 mod_diff_eq)
qed

text \<open>The bytes that a write keeps, and the buffer after it.\<close>

definition kept :: "nat \<Rightarrow> string \<Rightarrow> string" where
  "kept cap d = drop (length d - cap) d"

lemma ring_write_simps:
  assumes "capacity_ok cap" "holds cap r s" "length (s @ d) < 2 ^ 64" "d \<noteq> []"
  defines "idx \<equiv> (length (s @ d) - length (kept cap d)) mod cap"
  shows "rb_buf (ring_write cap d r) =
      blit (blit (rb_buf r) idx (take (cap - idx) (kept cap d))) 0 (drop (cap - idx) (kept cap d))"
    "unat (rb_write_pos (ring_write cap d r)) = length (s @ d)"
proof -
  have pos: "unat (rb_write_pos r) = length s" using assms(2) by (simp add: holds_def)
  have new: "unat (rb_write_pos r + word_of_nat (length d)) = length s + length d"
    using assms(3) pos by (simp add: unat_word_ariths unat_of_nat)
  show "unat (rb_write_pos (ring_write cap d r)) = length (s @ d)"
    using assms(4) new by (simp add: ring_write_def Let_def)
  have mod: "idx < cap" using capacity_pos [OF assms(1)] by (simp add: idx_def)
  show "rb_buf (ring_write cap d r) =
      blit (blit (rb_buf r) idx (take (cap - idx) (kept cap d))) 0 (drop (cap - idx) (kept cap d))"
  proof (cases "cap \<le> length d")
    case True
    then have "length (kept cap d) = cap" by (simp add: kept_def)
    then have "length (s @ d) - length (kept cap d) = length s + length d - cap" by simp
    with True have "idx = (length s + length d) mod cap" by (simp add: idx_def le_mod_geq)
    moreover have "take idx (drop (cap - idx) (kept cap d)) = drop (cap - idx) (kept cap d)"
      using True mod by (simp add: kept_def)
    ultimately show ?thesis
      using True assms(4) masked_index [OF assms(1)] new
      by (simp add: ring_write_def Let_def kept_def)
  next
    case False
    then have "kept cap d = d" by (simp add: kept_def)
    moreover from this have "idx = length s mod cap" by (simp add: idx_def)
    ultimately show ?thesis
      using False assms(4) masked_index [OF assms(1)] pos
      by (simp add: ring_write_def Let_def)
  qed
qed

lemma holds_write:
  assumes cap: "capacity_ok cap" and h: "holds cap r s" and len: "length (s @ d) < 2 ^ 64"
  shows "holds cap (ring_write cap d r) (s @ d)"
proof (cases "d = []")
  case True
  with h show ?thesis by (simp add: ring_write_def)
next
  case False
  note w = ring_write_simps [OF cap h len False]
  let ?k = "kept cap d" and ?n = "length (s @ d)"
  define p where "p = ?n - length ?k"
  have c: "0 < cap" using cap by (rule capacity_pos)
  have old: "length (rb_buf r) = cap" "\<And>q. q < length s \<Longrightarrow> length s \<le> q + cap \<Longrightarrow> rb_buf r ! (q mod cap) = s ! q"
    using h by (auto simp: holds_def)
  have k: "length ?k = min cap (length d)" by (simp add: kept_def)
  have idx: "p mod cap < cap" using c by simp
  have "rb_buf (ring_write cap d r) ! (q mod cap) = (s @ d) ! q" if q: "q < ?n" "?n \<le> q + cap" for q
  proof -
    let ?o = "(q mod cap + cap - p mod cap) mod cap"
    have nth: "rb_buf (ring_write cap d r) ! (q mod cap) =
        (if ?o < length ?k then ?k ! ?o else rb_buf r ! (q mod cap))"
      unfolding w(1) p_def [symmetric]
      using nth_two_blits [OF old(1) _ _ idx, of ?k "q mod cap"] k c by simp
    show ?thesis
    proof (cases "p \<le> q")
      case True
      have "length ?k \<le> ?n" using k by simp
      with True q(1) have "q - p < length ?k" unfolding p_def by linarith
      moreover from this True have "(int q - int p) mod int cap = int (q - p)"
        using k by (simp flip: of_nat_diff zmod_int)
      then have "?o = q - p" using offset_mod [OF c, of q p] by simp
      moreover have "?k ! (q - p) = (s @ d) ! q"
        using True q(1) unfolding p_def k by (auto simp: kept_def nth_append min_def split: if_splits)
      ultimately show ?thesis using nth by simp
    next
      case less: False
      then have small: "length d < cap" using q k by (auto simp: p_def min_def split: if_splits)
      then have p: "p = length s" "?k = d" using k by (simp_all add: p_def kept_def)
      define t where "t = p - q"
      have t: "0 < t" "t + length d \<le> cap" "t < cap" "int q - int p = - int t"
        using less q p length_greater_0_conv [of d] False by (auto simp: t_def simp del: length_greater_0_conv)
      have "(- int t) mod int cap = int cap - int t" using t by (simp add: zmod_zminus1_eq_if)
      then have "?o = cap - t" using offset_mod [OF c, of q p] t by simp
      with t p have "\<not> ?o < length ?k" by simp
      with nth old(2) [of q] less p q show ?thesis by (simp add: nth_append)
    qed
  qed
  moreover have "length (rb_buf (ring_write cap d r)) = cap"
    unfolding w(1) p_def [symmetric] using old(1) k idx by (intro length_two_blits) simp_all
  ultimately show ?thesis using w(2) by (simp add: holds_def)
qed

section \<open>Reading\<close>

text \<open>Two copies out of the buffer, from the index of position \<open>p\<close>, are a piece of the stream.\<close>

lemma holds_piece:
  assumes cap: "capacity_ok cap" and h: "holds cap r s"
    and p: "p + n \<le> length s" "length s \<le> p + cap"
  defines "idx \<equiv> p mod cap"
  shows "take n (drop idx (rb_buf r)) @ take (n - (cap - idx)) (rb_buf r) = take n (drop p s)"
proof (rule nth_equalityI)
  have c: "0 < cap" using cap by (rule capacity_pos)
  then have idx: "idx < cap" by (simp add: idx_def)
  have buf: "length (rb_buf r) = cap" using h by (simp add: holds_def)
  have n: "n \<le> cap" using p by simp
  then show len: "length (take n (drop idx (rb_buf r)) @ take (n - (cap - idx)) (rb_buf r)) = length (take n (drop p s))"
    using buf idx p by simp
  fix i assume "i < length (take n (drop idx (rb_buf r)) @ take (n - (cap - idx)) (rb_buf r))"
  then have i: "i < n" using len p by simp
  have s: "rb_buf r ! ((p + i) mod cap) = s ! (p + i)"
    using h i p by (auto simp: holds_def)
  have m: "(p + i) mod cap = (idx + i) mod cap" by (simp add: idx_def mod_simps)
  have "(take n (drop idx (rb_buf r)) @ take (n - (cap - idx)) (rb_buf r)) ! i
      = rb_buf r ! ((idx + i) mod cap)"
  proof (cases "i < cap - idx")
    case True
    then show ?thesis using i buf idx by (simp add: nth_append)
  next
    case False
    then have "(idx + i) mod cap = i - (cap - idx)" using i n idx by (simp add: le_mod_geq)
    moreover have "\<not> i < length (take n (drop idx (rb_buf r)))" "length (take n (drop idx (rb_buf r))) = cap - idx"
      using False buf i by auto
    ultimately show ?thesis using i by (simp add: nth_append)
  qed
  with s m show "(take n (drop idx (rb_buf r)) @ take (n - (cap - idx)) (rb_buf r)) ! i = take n (drop p s) ! i"
    using i p by simp
qed

lemma snapshot_is_tail:
  assumes cap: "capacity_ok cap" and h: "holds cap r s"
  shows "snapshot cap r = drop (length s - cap) s"
proof -
  have pos: "unat (rb_write_pos r) = length s" and buf: "length (rb_buf r) = cap"
    using h by (simp_all add: holds_def)
  have c: "0 < cap" using cap by (rule capacity_pos)
  show ?thesis
  proof (cases "length s \<le> cap")
    case True
    from holds_piece [OF cap h, of 0 "length s"] True pos c show ?thesis
      by (auto simp: snapshot_def Let_def)
  next
    case False
    let ?p = "length s - cap"
    have p: "?p + cap \<le> length s" "length s \<le> ?p + cap" "?p mod cap = length s mod cap"
      using False by (simp_all add: le_mod_geq)
    have idx: "length s mod cap < cap" using c by simp
    from holds_piece [OF cap h p(1,2)] idx False pos c buf masked_index [OF cap, of "rb_write_pos r"]
    show ?thesis by (simp add: snapshot_def Let_def p(3))
  qed
qed

lemma ring_size_snapshot:
  "capacity_ok cap \<Longrightarrow> holds cap r s \<Longrightarrow> ring_size cap r = length (snapshot cap r)"
  by (simp add: snapshot_is_tail) (simp add: ring_size_def holds_def)

text \<open>The cut of the backward scan: what follows it has fewer line ends than the target, and it
  is at the start or after the line end that makes up the number.\<close>

lemma scan_lines_spec:
  assumes "found < target" "i \<le> length xs" "count_list (drop i xs) (CHR 0x0A) = found"
  defines "j \<equiv> scan_lines xs target found i"
  shows "j \<le> i \<and> count_list (drop j xs) (CHR 0x0A) < target \<and>
    (j = 0 \<or> xs ! (j - 1) = CHR 0x0A \<and> count_list (drop j xs) (CHR 0x0A) = target - 1)"
  using assms(1-3) unfolding j_def
proof (induction xs target found i rule: scan_lines.induct)
  case (1 xs target found)
  then show ?case by simp
next
  case (2 xs target found i)
  have "drop i xs = xs ! i # drop (Suc i) xs" using 2(4) by (simp add: Cons_nth_drop_Suc)
  then have c: "count_list (drop i xs) (CHR 0x0A) = (if xs ! i = CHR 0x0A then 1 else 0) + found"
    using 2(5) by simp
  show ?case
  proof (cases "xs ! i = CHR 0x0A \<and> Suc found \<ge> target")
    case True
    then show ?thesis using 2 by auto
  next
    case False
    with 2 c show ?thesis by (auto simp: not_le)
  qed
qed

section \<open>Properties\<close>

text \<open>C19. The ring refines the stream of all bytes written: whatever the sizes of the writes, a
  write longer than the buffer included, the snapshot is the newest \<open>cap\<close> bytes of the stream,
  and the write position is its length.\<close>

theorem ring_keeps_newest_bytes:
  assumes "capacity_ok cap" "length (concat ds) < 2 ^ 64"
  defines "r \<equiv> fold (ring_write cap) ds (ring_new cap)"
  shows "snapshot cap r = drop (length (concat ds) - cap) (concat ds) \<and>
    unat (total_written r) = length (concat ds) \<and> ring_size cap r = min (length (concat ds)) cap"
proof -
  have step: "holds cap (fold (ring_write cap) xs a) (s @ concat xs)"
    if "holds cap a s" "length (s @ concat xs) < 2 ^ 64" for xs s a
    using that
  proof (induction xs arbitrary: s a)
    case (Cons x xs)
    from Cons.prems have "holds cap (ring_write cap x a) (s @ x)"
      by (intro holds_write assms(1)) simp_all
    from Cons.IH [OF this] Cons.prems show ?case by simp
  qed simp
  have h: "holds cap r (concat ds)"
    using step [OF holds_new, of ds] assms(2) by (simp add: r_def)
  then show ?thesis
    by (simp add: snapshot_is_tail [OF assms(1)]) (simp add: total_written_def ring_size_def holds_def)
qed

lemma ring_keeps_newest_bytes_witness:
  "snapshot 4 (fold (ring_write 4) [''abc'', ''defghi'', ''jk''] (ring_new 4)) = ''hijk''"
proof -
  have "capacity_ok 4" by (auto simp: capacity_ok_def intro: exI [of _ 2])
  from ring_keeps_newest_bytes [OF this, of "[''abc'', ''defghi'', ''jk'']"] show ?thesis by simp
qed

text \<open>An incremental read from the absolute position \<open>since\<close> gives the stream from there,
  or, when that much is not kept or is more than 64 KiB, its newest part, with the flag that
  tells the client so.\<close>

theorem read_since_is_stream_tail:
  fixes since :: u64
  assumes cap: "capacity_ok cap" and h: "holds cap r s"
  defines "start \<equiv> max (unat since) (length s - min cap kMaxRead)"
  shows "read_since cap since r =
    (if length s \<le> unat since then ([], False) else (drop start s, unat since < start))"
proof (cases "length s \<le> unat since")
  case True
  with h show ?thesis by (simp add: read_since_def holds_def)
next
  case False
  have pos: "unat (rb_write_pos r) = length s" and buf: "length (rb_buf r) = cap"
    using h by (simp_all add: holds_def)
  have c: "0 < cap" using cap by (rule capacity_pos)
  have k: "0 < kMaxRead" by (simp add: kMaxRead_def)
  have start: "start < length s" "length s \<le> start + cap" "length s - start \<le> kMaxRead"
    using False c k by (auto simp: start_def)
  have "length s < 2 ^ 64" using unsigned_less [of "rb_write_pos r", where 'a = nat] pos by simp
  with start(1) have w: "unat (word_of_nat start :: u64) = start" by (simp add: unat_of_nat)
  let ?n = "length s - start" and ?idx = "start mod cap"
  have idx: "?idx < cap" using c by simp
  have piece: "take ?n (drop ?idx (rb_buf r)) @ take (?n - (cap - ?idx)) (rb_buf r) = drop start s"
    using holds_piece [OF cap h, of start ?n] start by simp
  have eq: "read_since cap since r =
      (if ?n \<le> cap - ?idx then take ?n (drop ?idx (rb_buf r))
       else take (cap - ?idx) (drop ?idx (rb_buf r)) @ take (?n - (cap - ?idx)) (rb_buf r),
       unat since < start)"
  proof -
    let ?old = "length s > cap \<and> unat since < length s - cap"
    define start1 where "start1 = (if ?old then length s - cap else unat since)"
    have s: "(if length s - start1 > kMaxRead then length s - kMaxRead else start1) = start"
      "(?old \<or> length s - start1 > kMaxRead) = (unat since < start)"
      using False k by (auto simp: start1_def start_def min_def max_def)
    have n: "min kMaxRead ?n = ?n" "?n \<noteq> 0" using start by simp_all
    show ?thesis
      using False
      unfolding read_since_def Let_def pos start1_def [symmetric] s n(1) masked_index [OF cap] w
      by (simp add: n(2))
  qed
  have "take (cap - ?idx) (drop ?idx (rb_buf r)) = take ?n (drop ?idx (rb_buf r))"
    if "\<not> ?n \<le> cap - ?idx" using that buf by simp
  with eq piece False show ?thesis
    by auto
qed

lemma read_since_is_stream_tail_witness:
  "read_since 4 1 (ring_write 4 ''abcdef'' (ring_new 4)) = (''cdef'', True)"
proof -
  have cap: "capacity_ok 4" by (auto simp: capacity_ok_def intro: exI [of _ 2])
  have "holds 4 (ring_write 4 ''abcdef'' (ring_new 4)) ''abcdef''"
    using holds_write [OF cap holds_new, of "''abcdef''"] by simp
  from read_since_is_stream_tail [OF cap this, of 1] show ?thesis by (simp add: kMaxRead_def)
qed

text \<open>The number of lines of a text; a last line without a line end counts.\<close>

definition line_count :: "string \<Rightarrow> nat" where
  "line_count xs = count_list xs (CHR 0x0A) + (if xs = [] \<or> last xs = CHR 0x0A then 0 else 1)"

text \<open>Reading the last lines gives an end of the snapshot that has at most the number of
  lines asked for; when it is not the whole snapshot it starts right after a line end and has
  exactly that number of lines.\<close>

theorem last_lines_are_whole_lines:
  "\<exists>p. snapshot cap r = p @ read_last_lines cap n r \<and>
    line_count (read_last_lines cap n r) \<le> n \<and>
    (p \<noteq> [] \<and> 0 < n \<longrightarrow> last p = CHR 0x0A \<and> line_count (read_last_lines cap n r) = n)"
proof (cases "n = 0 \<or> snapshot cap r = []")
  case True
  then show ?thesis by (auto simp: read_last_lines_def line_count_def)
next
  case False
  let ?xs = "snapshot cap r"
  define target where "target = (if last ?xs = CHR 0x0A then n + 1 else n)"
  define j where "j = scan_lines ?xs target 0 (length ?xs)"
  have r: "read_last_lines cap n r = drop j ?xs"
    using False by (simp add: read_last_lines_def Let_def target_def j_def)
  have j: "j \<le> length ?xs" "count_list (drop j ?xs) (CHR 0x0A) < target"
    "j = 0 \<or> ?xs ! (j - 1) = CHR 0x0A \<and> count_list (drop j ?xs) (CHR 0x0A) = target - 1"
    using scan_lines_spec [of 0 target "length ?xs" ?xs] False by (simp_all add: j_def target_def)
  have ne: "drop j ?xs \<noteq> []"
  proof
    assume "drop j ?xs = []"
    with j(1) have "j = length ?xs" by simp
    with j(3) False have "last ?xs = CHR 0x0A" "target = 1"
      by (auto simp: last_conv_nth target_def split: if_splits)
    with False show False by (simp add: target_def)
  qed
  then have lines: "line_count (drop j ?xs) = count_list (drop j ?xs) (CHR 0x0A)
      + (if last ?xs = CHR 0x0A then 0 else 1)"
    by (simp add: line_count_def)
  have "last (take j ?xs) = CHR 0x0A" if "j \<noteq> 0"
  proof -
    have "take j ?xs \<noteq> []" using that ne by auto
    from last_conv_nth [OF this] that j show ?thesis by (auto simp: min_def)
  qed
  then show ?thesis
    using j lines False unfolding r
    by (intro exI [of _ "take j ?xs"]) (auto simp: target_def split: if_splits)
qed

lemma last_lines_are_whole_lines_witness:
  "\<exists>p. snapshot 16 (ring_write 16 [CHR ''a'', CHR 0x0A, CHR ''b'', CHR 0x0A] (ring_new 16))
     = p @ read_last_lines 16 1 (ring_write 16 [CHR ''a'', CHR 0x0A, CHR ''b'', CHR 0x0A] (ring_new 16)) \<and>
    last p = CHR 0x0A"
proof -
  let ?r = "ring_write 16 [CHR ''a'', CHR 0x0A, CHR ''b'', CHR 0x0A] (ring_new 16)"
  have cap: "capacity_ok 16" by (auto simp: capacity_ok_def intro: exI [of _ 4])
  have "holds 16 ?r [CHR ''a'', CHR 0x0A, CHR ''b'', CHR 0x0A]"
    using holds_write [OF cap holds_new, of "[CHR ''a'', CHR 0x0A, CHR ''b'', CHR 0x0A]"] by simp
  from snapshot_is_tail [OF cap this]
  have s: "snapshot 16 ?r = [CHR ''a'', CHR 0x0A, CHR ''b'', CHR 0x0A]" by simp
  from last_lines_are_whole_lines [of 16 ?r 1] obtain p where
    p: "snapshot 16 ?r = p @ read_last_lines 16 1 ?r" "line_count (read_last_lines 16 1 ?r) \<le> 1"
    "p \<noteq> [] \<longrightarrow> last p = CHR 0x0A" by auto
  have "p \<noteq> []"
  proof
    assume "p = []"
    with p(1) s have "read_last_lines 16 1 ?r = [CHR ''a'', CHR 0x0A, CHR ''b'', CHR 0x0A]" by simp
    with p(2) show False by (simp add: line_count_def)
  qed
  with p show ?thesis by auto
qed

end
