(* ===== verification/Base64.thy ===== *)
theory Base64
  imports Prelude
begin

text \<open>
  The two base-64 codecs of the program: \<open>b64enc\<close> and \<open>b64dec\<close> of bs-mesh-support.h (no
  padding), and the decoder of the clipboard scanner in bs-osc52.h, which skips characters
  outside the alphabet and stops at the padding. Shifts are divisions by powers of two.
\<close>

definition kB64 :: string where
  "kB64 = ''ABCDEFGHIJKLMNOPQRSTUVWXYZabcdefghijklmnopqrstuvwxyz0123456789+/''"

definition b64_char :: "nat \<Rightarrow> char" where "b64_char n = kB64 ! (n mod 64)"

definition b64_group :: "nat \<Rightarrow> nat \<Rightarrow> nat \<Rightarrow> nat" where
  "b64_group p0 p1 p2 = p0 * 2 ^ 16 + p1 * 2 ^ 8 + p2"

text \<open>The groups of three bytes; the padding that the source appends and removes again at the
  end of the text is not written.\<close>

fun b64enc :: "string \<Rightarrow> string" where
  "b64enc [] = []"
| "b64enc [a] =
     (let v = b64_group (code_of a) 0 0 in
      [b64_char (v div 2 ^ 18), b64_char (v div 2 ^ 12)])"
| "b64enc [a, b] =
     (let v = b64_group (code_of a) (code_of b) 0 in
      [b64_char (v div 2 ^ 18), b64_char (v div 2 ^ 12), b64_char (v div 2 ^ 6)])"
| "b64enc (a # b # c # s) =
     (let v = b64_group (code_of a) (code_of b) (code_of c) in
      b64_char (v div 2 ^ 18) # b64_char (v div 2 ^ 12) # b64_char (v div 2 ^ 6) # b64_char v #
        b64enc s)"

definition b64_value :: "char \<Rightarrow> nat option" where
  "b64_value c = find_index (\<lambda>x. x = c) kB64"

text \<open>\<open>b64dec\<close>: a character outside the alphabet counts as 0, the accumulator is 32 bits wide.\<close>

fun b64dec_loop :: "nat \<Rightarrow> nat \<Rightarrow> string \<Rightarrow> string" where
  "b64dec_loop acc bits [] = []"
| "b64dec_loop acc bits (c # s) =
     (let acc' = (acc * 2 ^ 6 + (case b64_value c of None \<Rightarrow> 0 | Some v \<Rightarrow> v)) mod 2 ^ 32;
          bits' = bits + 6
      in if bits' \<ge> 8
         then char_of (acc' div 2 ^ (bits' - 8) mod 256) # b64dec_loop acc' (bits' - 8) s
         else b64dec_loop acc' bits' s)"

definition b64dec :: "string \<Rightarrow> string" where "b64dec s = b64dec_loop 0 0 s"

text \<open>The loop of \<open>decode_osc52_body\<close>.\<close>

fun osc52_b64_loop :: "nat \<Rightarrow> nat \<Rightarrow> string \<Rightarrow> string" where
  "osc52_b64_loop acc bits [] = []"
| "osc52_b64_loop acc bits (c # s) =
     (if c = CHR ''='' then []
      else case b64_value c of
        None \<Rightarrow> osc52_b64_loop acc bits s
      | Some v \<Rightarrow>
          let acc' = acc * 2 ^ 6 + v; bits' = bits + 6 in
          if bits' \<ge> 8
          then char_of (acc' div 2 ^ (bits' - 8)) # osc52_b64_loop (acc' mod 2 ^ (bits' - 8)) (bits' - 8) s
          else osc52_b64_loop acc' bits' s)"

section \<open>Lemmas\<close>

lemma b64_alphabet:
  "list_all (\<lambda>n. find_index (\<lambda>x. x = kB64 ! n) kB64 = Some n \<and> kB64 ! n \<noteq> CHR ''='' \<and>
     kB64 ! n \<noteq> CHR 0x07 \<and> kB64 ! n \<noteq> CHR 0x1B \<and> kB64 ! n \<noteq> CHR '';'') [0..<64]"
  by code_simp

lemma b64_char_facts:
  "b64_value (b64_char n) = Some (n mod 64)" "b64_char n \<noteq> CHR ''=''" "b64_char n \<noteq> CHR 0x07"
  "b64_char n \<noteq> CHR 0x1B" "b64_char n \<noteq> CHR '';''"
proof -
  have "n mod 64 \<in> set [0..<64]" by simp
  with b64_alphabet have "find_index (\<lambda>x. x = kB64 ! (n mod 64)) kB64 = Some (n mod 64) \<and>
      kB64 ! (n mod 64) \<noteq> CHR ''='' \<and> kB64 ! (n mod 64) \<noteq> CHR 0x07 \<and>
      kB64 ! (n mod 64) \<noteq> CHR 0x1B \<and> kB64 ! (n mod 64) \<noteq> CHR '';''"
    unfolding list_all_iff by blast
  then show "b64_value (b64_char n) = Some (n mod 64)" "b64_char n \<noteq> CHR ''=''"
    "b64_char n \<noteq> CHR 0x07" "b64_char n \<noteq> CHR 0x1B" "b64_char n \<noteq> CHR '';''"
    by (simp_all add: b64_value_def b64_char_def)
qed

text \<open>A group, cut into sextets and put together again, has its bytes.\<close>

lemma join_sextet: "x div 64 mod k * 64 + x mod 64 = x mod (64 * k)" for x k :: nat
  by (simp add: mod_mult2_eq)

lemma group_bytes:
  fixes p0 p1 p2 :: nat
  assumes "p0 < 256" "p1 < 256" "p2 < 256"
  defines "v \<equiv> b64_group p0 p1 p2"
  shows "v div 2 ^ 18 mod 64 * 2 ^ 6 + v div 2 ^ 12 mod 64 = v div 2 ^ 12"
    "v div 2 ^ 12 div 2 ^ 4 = p0"
    "v div 2 ^ 12 mod 2 ^ 4 * 2 ^ 6 + v div 2 ^ 6 mod 64 = v div 2 ^ 6 mod 2 ^ 10"
    "v div 2 ^ 6 mod 2 ^ 10 div 2 ^ 2 = p1"
    "v div 2 ^ 6 mod 2 ^ 10 mod 2 ^ 2 * 2 ^ 6 + v mod 64 = p2"
proof -
  have v: "v = (p0 * 256 + p1) * 256 + p2" by (simp add: v_def b64_group_def)
  have v8: "v div 256 = p0 * 256 + p1" using assms(3) by (simp add: v)
  have low: "v mod 256 = p2" using assms(3) by (simp only: v mod_mult_self3 mod_less)
  have small: "v div 2 ^ 12 < 4096" using assms by (simp add: v_def b64_group_def less_mult_imp_div_less)
  have "v div 2 ^ 18 = v div 2 ^ 12 div 64" by (simp flip: div_mult2_eq)
  then show "v div 2 ^ 18 mod 64 * 2 ^ 6 + v div 2 ^ 12 mod 64 = v div 2 ^ 12"
    using join_sextet [of "v div 2 ^ 12" 64] small by simp
  have "v div 2 ^ 12 div 16 = v div 256 div 256" by (simp flip: div_mult2_eq)
  then show "v div 2 ^ 12 div 2 ^ 4 = p0" using v8 assms(2) by simp
  have "v div 2 ^ 12 = v div 2 ^ 6 div 64" by (simp flip: div_mult2_eq)
  then show "v div 2 ^ 12 mod 2 ^ 4 * 2 ^ 6 + v div 2 ^ 6 mod 64 = v div 2 ^ 6 mod 2 ^ 10"
    using join_sextet [of "v div 2 ^ 6" 16] by simp
  have "v div 2 ^ 6 mod 2 ^ 10 div 4 = v div 256 mod 256"
  proof -
    have "v div 2 ^ 6 mod 1024 = 4 * (v div 2 ^ 6 div 4 mod 256) + v div 2 ^ 6 mod 4"
      using mod_mult2_eq [of "v div 2 ^ 6" 4 256] by simp
    then have "v div 2 ^ 6 mod 1024 div 4 = v div 2 ^ 6 div 4 mod 256" by simp
    then show ?thesis by (simp flip: div_mult2_eq)
  qed
  then show "v div 2 ^ 6 mod 2 ^ 10 div 2 ^ 2 = p1" using v8 assms(2) by simp
  have "v div 2 ^ 6 mod 2 ^ 10 mod 4 = v div 64 mod 4" by (simp add: mod_mod_cancel)
  then show "v div 2 ^ 6 mod 2 ^ 10 mod 2 ^ 2 * 2 ^ 6 + v mod 64 = p2"
    using join_sextet [of v 4] low by simp
qed

lemma char_of_code_of [simp]: "char_of (code_of c) = c"
  by (simp add: code_of_def)

text \<open>The decoder on two, three and four characters.\<close>

lemma osc52_b64_chars:
  defines "t \<equiv> \<lambda>n. n mod 64 :: nat"
  shows "osc52_b64_loop 0 0 [b64_char i, b64_char j] = [char_of ((t i * 2 ^ 6 + t j) div 2 ^ 4)]"
    "osc52_b64_loop 0 0 [b64_char i, b64_char j, b64_char k] =
      [char_of ((t i * 2 ^ 6 + t j) div 2 ^ 4),
       char_of (((t i * 2 ^ 6 + t j) mod 2 ^ 4 * 2 ^ 6 + t k) div 2 ^ 2)]"
    "osc52_b64_loop 0 0 (b64_char i # b64_char j # b64_char k # b64_char l # s) =
      char_of ((t i * 2 ^ 6 + t j) div 2 ^ 4) #
      char_of (((t i * 2 ^ 6 + t j) mod 2 ^ 4 * 2 ^ 6 + t k) div 2 ^ 2) #
      char_of (((t i * 2 ^ 6 + t j) mod 2 ^ 4 * 2 ^ 6 + t k) mod 2 ^ 2 * 2 ^ 6 + t l) #
      osc52_b64_loop 0 0 s"
  by (simp_all add: Let_def b64_char_facts t_def)

lemma osc52_b64_round_trip: "osc52_b64_loop 0 0 (b64enc s) = s"
proof (induction s rule: b64enc.induct)
  case (2 a)
  show ?case
    by (simp only: b64enc.simps Let_def osc52_b64_chars group_bytes [OF code_of_less zero_less_numeral zero_less_numeral]
        char_of_code_of)
next
  case (3 a b)
  show ?case
    by (simp only: b64enc.simps Let_def osc52_b64_chars group_bytes [OF code_of_less code_of_less zero_less_numeral]
        char_of_code_of)
next
  case (4 a b c s)
  show ?case
    by (simp only: b64enc.simps Let_def osc52_b64_chars group_bytes [OF code_of_less code_of_less code_of_less]
        char_of_code_of 4)
qed simp

text \<open>Of its accumulator \<open>b64dec\<close> only ever uses the bits not yet written, so that on the
  alphabet it agrees with the other decoder, although it never clears the rest.\<close>

lemma sextet_mod: "v < 64 \<Longrightarrow> (acc * 2 ^ 6 + v) mod (64 * k) = acc mod k * 2 ^ 6 + v" for acc v k :: nat
  by (simp add: mod_mult2_eq)

lemma used_bits:
  fixes acc v b :: nat
  assumes "v < 64" "b \<le> 24"
  shows "(acc * 2 ^ 6 + v) mod 2 ^ 32 div 2 ^ b mod 256 = (acc mod 2 ^ (b + 2) * 2 ^ 6 + v) div 2 ^ b"
    "(acc * 2 ^ 6 + v) mod 2 ^ 32 mod 2 ^ b = (acc mod 2 ^ (b + 2) * 2 ^ 6 + v) mod 2 ^ b"
proof -
  let ?x = "acc * 2 ^ 6 + v"
  have "64 * 2 ^ (b + 2) = (2 :: nat) ^ (b + 8)" by (simp add: power_add)
  with sextet_mod [OF assms(1), of acc "2 ^ (b + 2)"]
  have x: "acc mod 2 ^ (b + 2) * 2 ^ 6 + v = ?x mod 2 ^ (b + 8)" by (simp only:)
  have "?x mod 2 ^ 32 div 2 ^ b mod 256 = take_bit 8 (drop_bit b (take_bit 32 ?x))"
    by (simp add: take_bit_eq_mod drop_bit_eq_div)
  also have "\<dots> = drop_bit b (take_bit (b + 8) ?x)"
    using assms(2) by (simp add: drop_bit_take_bit)
  finally show "?x mod 2 ^ 32 div 2 ^ b mod 256 = (acc mod 2 ^ (b + 2) * 2 ^ 6 + v) div 2 ^ b"
    unfolding x by (simp add: take_bit_eq_mod drop_bit_eq_div)
  have "take_bit b (take_bit 32 ?x) = take_bit b (take_bit (b + 8) ?x)" using assms(2) by simp
  then show "?x mod 2 ^ 32 mod 2 ^ b = (acc mod 2 ^ (b + 2) * 2 ^ 6 + v) mod 2 ^ b"
    unfolding x by (simp add: take_bit_eq_mod)
qed

definition in_alphabet :: "string \<Rightarrow> bool" where
  "in_alphabet s \<longleftrightarrow> (\<forall>c \<in> set s. c \<noteq> CHR ''='' \<and> (\<exists>v < 64. b64_value c = Some v))"

lemma decoders_agree:
  "in_alphabet s \<Longrightarrow> bits \<le> 6 \<Longrightarrow> even bits \<Longrightarrow>
   b64dec_loop acc bits s = osc52_b64_loop (acc mod 2 ^ bits) bits s"
proof (induction s arbitrary: acc bits)
  case (Cons c s)
  then obtain v where v: "v < 64" "b64_value c = Some v" "c \<noteq> CHR ''=''" "in_alphabet s"
    by (auto simp: in_alphabet_def)
  show ?case
  proof (cases "bits < 2")
    case True
    with Cons.prems(3) have z: "bits = 0" by (auto elim!: evenE)
    have "(acc * 2 ^ 6 + v) mod 2 ^ 32 mod 2 ^ 6 = v"
      using v(1) by (simp add: mod_mod_cancel)
    with z v Cons.IH [of 6] show ?thesis by (simp add: Let_def)
  next
    case False
    define b where "b = bits - 2"
    have b: "bits = b + 2" "b \<le> 4" "even b" using False Cons.prems(2,3) by (simp_all add: b_def)
    have "b64dec_loop acc bits (c # s) =
        char_of ((acc * 2 ^ 6 + v) mod 2 ^ 32 div 2 ^ b mod 256)
          # osc52_b64_loop ((acc * 2 ^ 6 + v) mod 2 ^ 32 mod 2 ^ b) b s"
      using v Cons.IH [of b] b by (simp add: Let_def del: power_add)
    then show ?thesis
      using used_bits [OF v(1), of b acc] b v by (simp add: Let_def del: power_add)
  qed
qed simp

lemma b64enc_in_alphabet: "in_alphabet (b64enc s)"
proof -
  have c: "b64_char n \<noteq> CHR ''='' \<and> (\<exists>v < 64. b64_value (b64_char n) = Some v)" for n
    using b64_char_facts [of n] by simp
  show ?thesis
    by (induction s rule: b64enc.induct) (auto simp: in_alphabet_def Let_def c)
qed

section \<open>Properties\<close>

text \<open>Every byte string survives the base-64 codec of the mesh and IPC lines, and the clipboard
  decoder reads what the encoder writes.\<close>

theorem base64_round_trip:
  "b64dec (b64enc s) = s \<and> osc52_b64_loop 0 0 (b64enc s) = s"
  using decoders_agree [OF b64enc_in_alphabet, of 0 0 s] osc52_b64_round_trip [of s]
  by (simp add: b64dec_def)

end
