(* ===== verification/Terminal_Text.thy ===== *)
theory Terminal_Text
  imports Base64
begin

text \<open>
  The text filters on terminal output in bs-osc52.h: \<open>strip_ansi_escapes\<close>,
  \<open>strip_mode_sequences\<close> and the clipboard scanner \<open>scan_osc52\<close>. The index loops of the
  source are recursions on the rest of the text. \<open>char\<close> is signed, so a byte from 128 on is no
  final byte of a control sequence.
\<close>

definition ESC :: char where "ESC = CHR 0x1B"
definition BEL :: char where "BEL = CHR 0x07"

definition csi_final :: "char \<Rightarrow> bool" where
  "csi_final c \<longleftrightarrow> 0x40 \<le> code_of c \<and> code_of c \<le> 0x7E"

section \<open>Escape sequences\<close>

text \<open>The rest of the text from the terminator of an OSC sequence on.\<close>

fun osc_tail :: "string \<Rightarrow> string" where
  "osc_tail [] = []"
| "osc_tail (c # s) =
     (if c = BEL then c # s
      else if c = ESC \<and> s \<noteq> [] \<and> hd s = CHR 0x5C then c # s
      else osc_tail s)"

lemma length_osc_tail: "length (osc_tail s) \<le> length s"
  by (induction s rule: osc_tail.induct) auto

lemma length_dropWhile: "length (dropWhile P s) \<le> length s"
  by (rule length_dropWhile_le)

definition dropped_control :: "char \<Rightarrow> bool" where
  "dropped_control c \<longleftrightarrow> code_of c < 0x20 \<and> c \<noteq> CHR 0x0A \<and> c \<noteq> CHR 0x0D \<and> c \<noteq> CHR 0x09"

function strip_ansi_escapes :: "string \<Rightarrow> string" where
  "strip_ansi_escapes [] = []"
| "strip_ansi_escapes (c # s) =
     (if c = ESC \<and> s \<noteq> [] then
        if hd s = CHR ''['' then strip_ansi_escapes (drop 1 (dropWhile (\<lambda>x. \<not> csi_final x) (tl s)))
        else if hd s = CHR '']'' then
          let t = osc_tail (tl s) in
          strip_ansi_escapes (if t \<noteq> [] \<and> hd t = BEL then drop 1 t else drop 2 t)
        else strip_ansi_escapes (tl s)
      else if dropped_control c then strip_ansi_escapes s
      else c # strip_ansi_escapes s)"
  by pat_completeness auto
termination
proof (relation "measure length", goal_cases)
  case (2 c s)
  then show ?case using length_dropWhile_le [of "\<lambda>x. \<not> csi_final x" "tl s"] by simp
next
  case (3 c s t)
  then show ?case using length_osc_tail [of "tl s"] by auto
qed auto

section \<open>Mode sequences\<close>

text \<open>The value of a parameter: the source multiplies and adds in an \<open>int\<close>, an overflow of
  which is undefined (\<open>None\<close>). \<open>Some None\<close> is a parameter that is no number.\<close>

definition INT_MAX :: int where "INT_MAX = 2 ^ 31 - 1"

fun mode_value :: "int \<Rightarrow> string \<Rightarrow> int option option" where
  "mode_value val [] = Some (Some val)"
| "mode_value val (c # s) =
     (if \<not> is_digit c then Some None
      else let v = val * 10 + int (code_of c - 48) in
           if v > INT_MAX then None else mode_value v s)"

definition stripped_modes :: "int list" where
  "stripped_modes = [1, 6, 7, 25, 47, 1000, 1002, 1003, 1004, 1005, 1006, 1015, 1016, 1047, 1049, 2004]"

fun strip_params :: "string list \<Rightarrow> bool option" where
  "strip_params [] = Some False"
| "strip_params (tok # toks) =
     (if tok = [] then strip_params toks
      else case mode_value 0 tok of
        None \<Rightarrow> None
      | Some None \<Rightarrow> strip_params toks
      | Some (Some v) \<Rightarrow> if v \<in> set stripped_modes then Some True else strip_params toks)"

definition param_char :: "char \<Rightarrow> bool" where
  "param_char c \<longleftrightarrow> 0x30 \<le> code_of c \<and> code_of c \<le> 0x3F"

text \<open>At \<open>ESC [ ?\<close>: \<open>Some (Some rest)\<close> when the sequence is stripped, \<open>Some None\<close> when it is
  copied, \<open>None\<close> for the undefined overflow.\<close>

definition mode_sequence :: "string \<Rightarrow> string option option" where
  "mode_sequence s =
     (let params = takeWhile param_char s;
          rest = dropWhile (\<lambda>c. \<not> csi_final c) (dropWhile param_char s) in
      if rest \<noteq> [] \<and> (hd rest = CHR ''h'' \<or> hd rest = CHR ''l'')
      then (case strip_params (split_on (CHR '';'') [] params) of
              None \<Rightarrow> None
            | Some True \<Rightarrow> Some (Some (tl rest))
            | Some False \<Rightarrow> Some None)
      else Some None)"

lemma mode_sequence_shorter: "mode_sequence s = Some (Some rest) \<Longrightarrow> length rest < length s"
proof -
  assume "mode_sequence s = Some (Some rest)"
  then obtain r where "dropWhile (\<lambda>c. \<not> csi_final c) (dropWhile param_char s) = r" "r \<noteq> []" "rest = tl r"
    by (auto simp: mode_sequence_def Let_def split: if_splits option.splits bool.splits)
  moreover have "length (dropWhile (\<lambda>c. \<not> csi_final c) (dropWhile param_char s)) \<le> length s"
    by (meson length_dropWhile_le le_trans)
  ultimately show ?thesis by (cases r) auto
qed

function strip_mode_sequences :: "string \<Rightarrow> string option" where
  "strip_mode_sequences [] = Some []"
| "strip_mode_sequences (c # s) =
     (if c = ESC \<and> is_prefix ''[?'' s then
        case mode_sequence (drop 2 s) of
          None \<Rightarrow> None
        | Some (Some rest) \<Rightarrow> strip_mode_sequences rest
        | Some None \<Rightarrow> map_option ((#) c) (strip_mode_sequences s)
      else map_option ((#) c) (strip_mode_sequences s))"
  by pat_completeness auto
termination
  by (relation "measure length") (auto dest!: mode_sequence_shorter)

section \<open>Clipboard\<close>

record Osc52Result =
  cleaned_text :: string
  clipboard_text :: "string option"

text \<open>The body before the terminator and the text from the terminator on.\<close>

fun find_osc_end :: "string \<Rightarrow> (string \<times> string) option" where
  "find_osc_end [] = None"
| "find_osc_end (c # s) =
     (if c = BEL \<or> (c = ESC \<and> s \<noteq> [] \<and> hd s = CHR 0x5C) then Some ([], c # s)
      else map_option (\<lambda>(b, r). (c # b, r)) (find_osc_end s))"

lemma find_osc_end_Some: "find_osc_end s = Some (b, r) \<Longrightarrow> s = b @ r \<and> r \<noteq> []"
  by (induction s arbitrary: b rule: find_osc_end.induct) (auto split: if_splits)

definition decode_osc52_body :: "string \<Rightarrow> string option" where
  "decode_osc52_body body =
     (case find_index (\<lambda>c. c = CHR '';'') body of
        None \<Rightarrow> None
      | Some semicolon \<Rightarrow>
          let b64 = drop (Suc semicolon) body in
          if b64 = [] then None else Some (osc52_b64_loop 0 0 b64))"

function scan_osc52_loop :: "string \<Rightarrow> string option \<Rightarrow> Osc52Result" where
  "scan_osc52_loop [] clip = \<lparr>cleaned_text = [], clipboard_text = clip\<rparr>"
| "scan_osc52_loop (c # s) clip =
     (case (if c = ESC \<and> is_prefix '']52;'' s then find_osc_end (drop 4 s) else None) of
        Some (body, rest) \<Rightarrow>
          let clip' = (case decode_osc52_body body of
                         None \<Rightarrow> clip | Some d \<Rightarrow> if d = [] then clip else Some d) in
          scan_osc52_loop (if hd rest = ESC then drop 2 rest else drop 1 rest) clip'
      | None \<Rightarrow>
          let r = scan_osc52_loop s clip in r\<lparr>cleaned_text := c # cleaned_text r\<rparr>)"
  by pat_completeness auto
termination
  by (relation "measure (\<lambda>(s, _). length s)")
    (auto dest!: find_osc_end_Some arg_cong [of _ _ length] split: if_splits)

definition scan_osc52 :: "string \<Rightarrow> Osc52Result" where
  "scan_osc52 input = scan_osc52_loop input None"

section \<open>Lemmas\<close>

lemma ESC_dropped: "dropped_control ESC"
  by (simp add: dropped_control_def ESC_def code_of_def)

lemma strip_ansi_clean: "filter dropped_control (strip_ansi_escapes s) = []"
  by (induction s rule: strip_ansi_escapes.induct) (simp_all add: Let_def)

lemma strip_ansi_plain: "filter dropped_control s = [] \<Longrightarrow> strip_ansi_escapes s = s"
proof (induction s)
  case (Cons c s)
  then have "\<not> dropped_control c" "filter dropped_control s = []" by (simp_all split: if_splits)
  then have "c \<noteq> ESC" using ESC_dropped by auto
  with Cons \<open>\<not> dropped_control c\<close> show ?case by (simp split: if_splits)
qed simp

lemma strip_mode_plain:
  "ESC \<notin> set a \<Longrightarrow> strip_mode_sequences (a @ s) = map_option ((@) a) (strip_mode_sequences s)"
  by (induction a; cases "strip_mode_sequences s") auto

text \<open>The later clipboard text wins.\<close>

lemma scan_osc52_clip:
  "scan_osc52_loop s clip =
     \<lparr>cleaned_text = cleaned_text (scan_osc52_loop s None),
      clipboard_text = (case clipboard_text (scan_osc52_loop s None) of None \<Rightarrow> clip | Some d \<Rightarrow> Some d)\<rparr>"
proof (induction "length s" arbitrary: s clip rule: less_induct)
  case less
  show ?case
  proof (cases s)
    case (Cons c t)
    show ?thesis
    proof (cases "if c = ESC \<and> is_prefix '']52;'' t then find_osc_end (drop 4 t) else None")
      case None
      with Cons less [of t clip] show ?thesis by (auto simp: Let_def split: option.splits)
    next
      case (Some br)
      obtain body rest where br: "br = (body, rest)" by force
      let ?u = "if hd rest = ESC then drop 2 rest else drop 1 rest"
      from Some br have "find_osc_end (drop 4 t) = Some (body, rest)" by (auto split: if_splits)
      from find_osc_end_Some [OF this] have "length ?u < length s"
        using Cons by (auto dest!: arg_cong [of _ _ length])
      note ih = less [OF this]
      let ?new = "\<lambda>clip. case decode_osc52_body body of None \<Rightarrow> clip | Some d \<Rightarrow> if d = [] then clip else Some d"
      have step: "scan_osc52_loop s clip = scan_osc52_loop ?u (?new clip)" for clip
        using Some br Cons by (simp add: Let_def)
      show ?thesis
        unfolding step [of clip] step [of None] ih [of "?new clip"] ih [of "?new None"]
        by (auto split: option.splits)
    qed
  qed simp
qed

lemma scan_osc52_plain:
  "ESC \<notin> set a \<Longrightarrow> scan_osc52_loop (a @ s) clip =
     (let r = scan_osc52_loop s clip in r\<lparr>cleaned_text := a @ cleaned_text r\<rparr>)"
  by (induction a) (auto simp: Let_def)

lemma find_osc_end_BEL:
  "ESC \<notin> set b \<Longrightarrow> BEL \<notin> set b \<Longrightarrow> find_osc_end (b @ BEL # s) = Some (b, BEL # s)"
  by (induction b) (auto simp: ESC_def BEL_def)

lemma b64enc_clean: "ESC \<notin> set (b64enc s)" "BEL \<notin> set (b64enc s)"
proof -
  have c: "b64_char n \<noteq> ESC" "b64_char n \<noteq> BEL" for n
    using b64_char_facts [of n] by (simp_all add: ESC_def BEL_def)
  have d: "ESC \<noteq> b64_char n" "BEL \<noteq> b64_char n" for n
    using c [of n] by metis+
  show "ESC \<notin> set (b64enc s)" by (induction s rule: b64enc.induct) (simp_all add: Let_def d)
  show "BEL \<notin> set (b64enc s)" by (induction s rule: b64enc.induct) (simp_all add: Let_def d)
qed

lemma b64enc_Nil_iff [simp]: "b64enc s = [] \<longleftrightarrow> s = []"
  by (cases s rule: b64enc.cases) (simp_all add: Let_def)

lemma split_on_absent: "sep \<notin> set xs \<Longrightarrow> split_on sep cur xs = [rev cur @ xs]"
  by (induction xs arbitrary: cur) auto

lemma digit_param: "is_digit c \<Longrightarrow> param_char c \<and> c \<noteq> CHR '';''"
  by (auto simp: param_char_def is_digit_def code_of_def)

lemma parse_digits_mono: "n \<le> parse_digits n s"
proof (induction s arbitrary: n)
  case (Cons c s)
  from Cons [of "n * 10 + digit_val c"] show ?case by (simp add: parse_digits_def)
qed (simp add: parse_digits_def)

lemma mode_value_digits:
  "(\<forall>c \<in> set s. is_digit c) \<Longrightarrow> int (parse_digits n s) \<le> INT_MAX \<Longrightarrow>
   mode_value (int n) s = Some (Some (int (parse_digits n s)))"
proof (induction s arbitrary: n)
  case (Cons c s)
  let ?m = "n * 10 + digit_val c"
  have p: "parse_digits n (c # s) = parse_digits ?m s" by (simp add: parse_digits_def)
  then have "int ?m \<le> INT_MAX" using parse_digits_mono [of ?m s] Cons.prems(2) by linarith
  moreover have "int n * 10 + int (code_of c - 48) = int ?m" by (simp add: digit_val_def)
  ultimately show ?case using Cons.IH [of ?m] Cons.prems p by simp
qed (simp add: parse_digits_def)

section \<open>Properties\<close>

text \<open>The plain-text filter leaves no escape character and no control character other than
  line ends and tabs, whatever the input, and a second pass changes nothing.\<close>

theorem stripped_text_is_plain:
  "filter dropped_control (strip_ansi_escapes s) = [] \<and>
   strip_ansi_escapes (strip_ansi_escapes s) = strip_ansi_escapes s"
  by (simp add: strip_ansi_clean strip_ansi_plain)

text \<open>A clipboard sequence in the terminal output is taken out of it and its text delivered,
  unless a later sequence replaces it: nothing else of the output changes, and what was encoded
  is what arrives.\<close>

theorem clipboard_is_extracted:
  assumes "ESC \<notin> set a" "x \<noteq> []"
  shows "scan_osc52 (a @ ESC # '']52;c;'' @ b64enc x @ BEL # s) =
    \<lparr>cleaned_text = a @ cleaned_text (scan_osc52 s),
     clipboard_text = (case clipboard_text (scan_osc52 s) of None \<Rightarrow> Some x | Some y \<Rightarrow> Some y)\<rparr>"
proof -
  have body: "decode_osc52_body (''c;'' @ b64enc x) = Some x"
    using assms(2) osc52_b64_round_trip [of x] by (simp add: decode_osc52_body_def)
  have "find_osc_end ((''c;'' @ b64enc x) @ BEL # s) = Some (''c;'' @ b64enc x, BEL # s)"
    using b64enc_clean [of x] by (intro find_osc_end_BEL) (auto simp: ESC_def BEL_def)
  then have step: "scan_osc52_loop (ESC # '']52;c;'' @ b64enc x @ BEL # s) None = scan_osc52_loop s (Some x)"
    using body assms(2)
    by (subst scan_osc52_loop.simps) (simp add: is_prefix_def ESC_def BEL_def del: scan_osc52_loop.simps)
  show ?thesis
    unfolding scan_osc52_def scan_osc52_plain [OF assms(1)] step scan_osc52_clip [of s "Some x"] Let_def
    by (simp del: scan_osc52_loop.simps)
qed

lemma clipboard_is_extracted_witness:
  "scan_osc52 (''ab'' @ ESC # '']52;c;'' @ b64enc ''hi'' @ BEL # ''cd'') =
    \<lparr>cleaned_text = ''abcd'', clipboard_text = Some ''hi''\<rparr>"
proof -
  have "ESC \<notin> set ''ab''" by (simp add: ESC_def)
  then have "scan_osc52 (''ab'' @ ESC # '']52;c;'' @ b64enc ''hi'' @ BEL # ''cd'') =
    \<lparr>cleaned_text = ''ab'' @ cleaned_text (scan_osc52 ''cd''),
     clipboard_text = (case clipboard_text (scan_osc52 ''cd'') of None \<Rightarrow> Some ''hi'' | Some y \<Rightarrow> Some y)\<rparr>"
    by (rule clipboard_is_extracted) simp
  moreover have "scan_osc52 ''cd'' = \<lparr>cleaned_text = ''cd'', clipboard_text = None\<rparr>"
    using scan_osc52_plain [of "''cd''" "[]" None]
    by (simp add: scan_osc52_def ESC_def Let_def del: scan_osc52_loop.simps(2))
  ultimately show ?thesis by simp
qed

text \<open>Replayed scrollback loses a private-mode sequence of any of the listed modes, set or
  reset, and nothing around it.\<close>

theorem mode_sequences_are_stripped:
  assumes "ESC \<notin> set a" "int v \<in> set stripped_modes" "fin = CHR ''h'' \<or> fin = CHR ''l''"
  shows "strip_mode_sequences (a @ ESC # ''[?'' @ dec_digits v @ fin # s)
    = map_option ((@) a) (strip_mode_sequences s)"
proof -
  have fin: "csi_final fin" "\<not> param_char fin"
    using assms(3) by (auto simp: csi_final_def param_char_def code_of_def)
  have "\<forall>c \<in> set (dec_digits v). param_char c \<and> c \<noteq> CHR '';''"
    by (intro ballI digit_param dec_digits_digits)
  then have v: "list_all param_char (dec_digits v)" "split_on (CHR '';'') [] (dec_digits v) = [dec_digits v]"
    by (auto simp: list_all_iff intro!: split_on_absent [of _ _ "[]", simplified])
  have "int v \<le> INT_MAX" using assms(2) by (auto simp: stripped_modes_def INT_MAX_def)
  then have val: "mode_value 0 (dec_digits v) = Some (Some (int v))"
    using mode_value_digits [of "dec_digits v" 0] dec_digits_digits [of _ v] by simp
  have "takeWhile param_char (dec_digits v @ fin # s) = dec_digits v"
    "dropWhile param_char (dec_digits v @ fin # s) = fin # s"
    using v(1) fin(2) by (simp_all add: takeWhile_append dropWhile_append list_all_iff)
  then have "mode_sequence (dec_digits v @ fin # s) = Some (Some s)"
    using v(2) val assms(2,3) fin(1) by (auto simp: mode_sequence_def Let_def)
  then show ?thesis
    using assms(1) by (simp add: strip_mode_plain is_prefix_def)
qed

lemma mode_sequences_are_stripped_witness:
  "strip_mode_sequences (''ab'' @ ESC # ''[?'' @ dec_digits 1049 @ CHR ''h'' # ''cd'') = Some ''abcd''"
proof -
  have "ESC \<notin> set ''ab''" "int 1049 \<in> set stripped_modes" by (simp_all add: ESC_def stripped_modes_def)
  note w = mode_sequences_are_stripped [OF this, of "CHR ''h''" "''cd''"]
  have "strip_mode_sequences ''cd'' = Some ''cd''" by (simp add: ESC_def)
  with w show ?thesis by (simp del: strip_mode_sequences.simps)
qed

text \<open>A private-mode sequence with a parameter of eleven digits, which a program in a session
  can print, overflows the \<open>int\<close> that holds the parameter: the behaviour of the source is
  undefined there.\<close>

theorem long_parameter_overflows:
  "strip_mode_sequences (ESC # ''[?99999999999h'') = None"
  by (simp add: is_prefix_def mode_sequence_def param_char_def csi_final_def code_of_def ESC_def
      is_digit_def INT_MAX_def)

end
