(* ===== verification/Sorted_Map.thy ===== *)
theory Sorted_Map
  imports Prelude "HOL-Library.List_Lexorder" "HOL-Library.Char_ord"
begin

text \<open>
  The contract of a finite map, as far as the components use one, and the ordered map that
  stands for \<open>std::map\<close>: an association list with strictly increasing keys. Strings are
  compared byte by byte, as \<open>std::string\<close> is.
\<close>

section \<open>Contract\<close>

locale map_ops =
  fixes empty :: "'m" and get :: "'m \<Rightarrow> 'k \<Rightarrow> 'v option"
    and put :: "'k \<Rightarrow> 'v \<Rightarrow> 'm \<Rightarrow> 'm" and del :: "'k \<Rightarrow> 'm \<Rightarrow> 'm" and ok :: "'m \<Rightarrow> bool"
  assumes get_empty: "get empty j = None" and ok_empty: "ok empty"
    and get_put: "ok m \<Longrightarrow> get (put k v m) j = (if j = k then Some v else get m j)"
    and get_del: "ok m \<Longrightarrow> get (del k m) j = (if j = k then None else get m j)"
    and ok_put: "ok m \<Longrightarrow> ok (put k v m)" and ok_del: "ok m \<Longrightarrow> ok (del k m)"
begin

text \<open>A sequence of edits: \<open>Some v\<close> puts a value, \<open>None\<close> removes the key.\<close>

definition edit :: "'m \<Rightarrow> 'k \<times> 'v option \<Rightarrow> 'm" where
  "edit m e = (case snd e of Some v \<Rightarrow> put (fst e) v m | None \<Rightarrow> del (fst e) m)"

lemma ok_edits: "ok m \<Longrightarrow> ok (foldl edit m es)"
  by (induction es arbitrary: m) (auto simp: edit_def intro: ok_put ok_del split: option.splits)

lemma get_edits:
  "ok m \<Longrightarrow> distinct (map fst es) \<Longrightarrow>
   get (foldl edit m es) j = (case map_of es j of None \<Rightarrow> get m j | Some ov \<Rightarrow> ov)"
proof (induction es arbitrary: m)
  case (Cons e es)
  have ok: "ok (edit m e)" using Cons.prems(1) by (auto simp: edit_def intro: ok_put ok_del split: option.splits)
  have get: "get (edit m e) j = (if j = fst e then snd e else get m j)"
    using Cons.prems(1) by (auto simp: edit_def get_put get_del split: option.splits)
  have "map_of es (fst e) = None" using Cons.prems(2) by (simp add: map_of_eq_None_iff)
  with Cons.IH [OF ok] Cons.prems(2) get show ?case by (cases e) (auto split: option.splits)
qed simp

end

section \<open>Ordered association lists\<close>

fun map_put :: "'k::linorder \<Rightarrow> 'v \<Rightarrow> ('k \<times> 'v) list \<Rightarrow> ('k \<times> 'v) list" where
  "map_put k v [] = [(k, v)]"
| "map_put k v ((j, w) # m) =
     (if k < j then (k, v) # (j, w) # m
      else if k = j then (k, v) # m
      else (j, w) # map_put k v m)"

definition map_del :: "'k \<Rightarrow> ('k \<times> 'v) list \<Rightarrow> ('k \<times> 'v) list" where
  "map_del k m = filter (\<lambda>e. fst e \<noteq> k) m"

definition ordered :: "('k::linorder \<times> 'v) list \<Rightarrow> bool" where
  "ordered m \<longleftrightarrow> sorted_wrt (<) (map fst m)"

lemma map_of_put: "map_of (map_put k v m) j = (if j = k then Some v else map_of m j)"
  by (induction k v m rule: map_put.induct) auto

lemma map_of_del: "map_of (map_del k m) j = (if j = k then None else map_of m j)"
  by (induction m) (auto simp: map_del_def)

lemma keys_put: "fst ` set (map_put k v m) = insert k (fst ` set m)"
  by (induction k v m rule: map_put.induct) auto

lemma set_map_put: "set (map_put k v m) \<subseteq> insert (k, v) (set m)"
  by (induction k v m rule: map_put.induct) auto

lemma ordered_put: "ordered m \<Longrightarrow> ordered (map_put k v m)"
proof (induction k v m rule: map_put.induct)
  case (2 k v j w m)
  then show ?case by (fastforce simp: ordered_def keys_put [unfolded image_def] keys_put)
qed (simp add: ordered_def)

lemma ordered_del: "ordered m \<Longrightarrow> ordered (map_del k m)"
  by (induction m) (auto simp: ordered_def map_del_def)

interpretation smap: map_ops "[]" map_of map_put map_del ordered
  by unfold_locales (auto simp: map_of_put map_of_del ordered_put ordered_del, simp_all add: ordered_def)

lemma ordered_distinct: "ordered m \<Longrightarrow> distinct (map fst m)"
  by (simp add: ordered_def strict_sorted_iff)

text \<open>An ordered map is determined by its lookups.\<close>

lemma ordered_eqI:
  "ordered m \<Longrightarrow> ordered m' \<Longrightarrow> map_of m = map_of m' \<Longrightarrow> m = m'"
proof -
  assume o: "ordered m" "ordered m'" and eq: "map_of m = map_of m'"
  then have "map fst m = map fst m'"
    by (intro sorted_distinct_set_unique) (simp_all add: ordered_def strict_sorted_iff flip: dom_map_of_conv_image_fst)
  moreover have "map snd m = map (the \<circ> map_of m) (map fst m)" if "ordered m" for m :: "('a \<times> 'b) list"
    using ordered_distinct [OF that] by auto
  ultimately have "map snd m = map snd m'" using o eq by metis
  with \<open>map fst m = map fst m'\<close> show ?thesis by (metis zip_map_fst_snd)
qed

end
