(* ===== verification/Sync_Pair.thy ===== *)
theory Sync_Pair
  imports Sorted_Map Paths
begin

text \<open>
  Folder mirroring: bs-sync-pair.h (exclusions, the scan, the manifest of two indexes, pair
  identifiers) and the \<open>sync pair\<close> commands of main.cpp on the stored pairs and manifests.
  SHA-256 is the parameter \<open>sha\<close>; the two JSON files are the fields of a record, for they are
  read back as they were written. A local tree is a datatype; the printed texts other than that
  of a manifest are left out, the exit codes are not.
\<close>

section \<open>Exclusions\<close>

definition sync_excluded_dir :: "string \<Rightarrow> bool" where
  "sync_excluded_dir name \<longleftrightarrow>
     name = ''.git'' \<or> name = ''.bridgesessions'' \<or> name = ''.bs-sync'' \<or> name = ''node_modules''"

definition sync_excluded_file :: "string \<Rightarrow> bool" where
  "sync_excluded_file name \<longleftrightarrow>
     is_prefix ''.env'' name \<or>
     name = ''id_rsa'' \<or> name = ''id_ed25519'' \<or>
     name \<in> {''secrets'', ''secrets.json'', ''credentials.json'', ''.netrc''} \<or>
     (length name > 4 \<and> ends_with ''.pem'' name) \<or>
     (length name > 4 \<and> ends_with ''.key'' name) \<or>
     find_sub ''.secret'' name \<noteq> None \<or>
     find_sub ''.conflict-'' name \<noteq> None \<or>
     is_prefix ''.tmp-bs'' name"

section \<open>Index, scan and manifest\<close>

record SyncEntry =
  se_relpath :: string
  se_size :: nat
  se_sha256 :: string

type_synonym SyncIndex = "(string \<times> SyncEntry) list"

datatype fs_node =
  RegularFile bytes
| Symlink
| Directory "(string \<times> fs_node) list"
| OtherNode

text \<open>The recursive walk: \<open>rel\<close> is the path relative to the root.\<close>

fun scan_node :: "(bytes \<Rightarrow> string) \<Rightarrow> string \<Rightarrow> string \<Rightarrow> fs_node \<Rightarrow> SyncIndex \<Rightarrow> SyncIndex"
  and scan_nodes :: "(bytes \<Rightarrow> string) \<Rightarrow> string \<Rightarrow> (string \<times> fs_node) list \<Rightarrow> SyncIndex \<Rightarrow> SyncIndex"
where
  "scan_node sha rel name (RegularFile b) idx =
     (if sync_excluded_file name then idx
      else map_put rel \<lparr>se_relpath = rel, se_size = length b, se_sha256 = sha b\<rparr> idx)"
| "scan_node sha rel name Symlink idx = idx"
| "scan_node sha rel name (Directory es) idx =
     (if sync_excluded_dir name then idx else scan_nodes sha (rel @ ''/'') es idx)"
| "scan_node sha rel name OtherNode idx = idx"
| "scan_nodes sha dir [] idx = idx"
| "scan_nodes sha dir ((name, n) # es) idx = scan_nodes sha dir es (scan_node sha (dir @ name) name n idx)"

definition sync_scan_dir :: "(bytes \<Rightarrow> string) \<Rightarrow> fs_node option \<Rightarrow> SyncIndex" where
  "sync_scan_dir sha root =
     (case root of Some (Directory es) \<Rightarrow> scan_nodes sha [] es [] | _ \<Rightarrow> [])"

record SyncOp =
  op_kind :: string
  op_relpath :: string
  op_size :: nat
  op_sha256 :: string

record SyncManifest =
  mf_pair_id :: string
  mf_clock :: u64
  mf_ops :: "SyncOp list"

definition sync_op :: "string \<Rightarrow> string \<Rightarrow> nat \<Rightarrow> string \<Rightarrow> SyncOp" where
  "sync_op kind rel sz sha =
     \<lparr>op_kind = kind, op_relpath = rel, op_size = sz, op_sha256 = sha\<rparr>"

text \<open>The two loops of \<open>sync_diff\<close>.\<close>

definition changed_ops :: "SyncIndex \<Rightarrow> SyncIndex \<Rightarrow> SyncOp list" where
  "changed_ops prev current =
     concat (map (\<lambda>(rel, e). case map_of prev rel of
                    None \<Rightarrow> [sync_op ''create'' rel (se_size e) (se_sha256 e)]
                  | Some p \<Rightarrow> if se_sha256 p \<noteq> se_sha256 e
                             then [sync_op ''modify'' rel (se_size e) (se_sha256 e)] else [])
              current)"

definition deleted_ops :: "SyncIndex \<Rightarrow> SyncIndex \<Rightarrow> SyncOp list" where
  "deleted_ops prev current =
     concat (map (\<lambda>(rel, _). if map_of current rel = None then [sync_op ''delete'' rel 0 []] else [])
              prev)"

definition sync_diff :: "string \<Rightarrow> SyncIndex \<Rightarrow> SyncIndex \<Rightarrow> u64 \<Rightarrow> SyncManifest" where
  "sync_diff pair_id prev current clock =
     \<lparr>mf_pair_id = pair_id, mf_clock = clock,
      mf_ops = changed_ops prev current @ deleted_ops prev current\<rparr>"

definition apply_op :: "SyncIndex \<Rightarrow> SyncOp \<Rightarrow> SyncIndex" where
  "apply_op idx op =
     (if op_kind op = ''delete'' then map_del (op_relpath op) idx
      else map_put (op_relpath op)
             \<lparr>se_relpath = op_relpath op, se_size = op_size op, se_sha256 = op_sha256 op\<rparr> idx)"

definition sync_index_from_manifest :: "SyncManifest \<Rightarrow> SyncIndex" where
  "sync_index_from_manifest m = foldl apply_op [] (mf_ops m)"

definition sync_pending_count :: "SyncManifest \<Rightarrow> nat" where
  "sync_pending_count m = length (mf_ops m)"

section \<open>Pairs\<close>

record SyncPairSpec =
  sp_id :: string
  sp_local_dir :: string
  sp_peer :: string
  sp_remote_dir :: string
  sp_clock :: u64
  sp_via_run_script :: bool
  sp_approved :: bool
  sp_created_at :: string

text \<open>Records without an identifier are dropped when the pairs are read.\<close>

definition sync_pairs_load :: "SyncPairSpec list \<Rightarrow> SyncPairSpec list" where
  "sync_pairs_load stored = filter (\<lambda>p. sp_id p \<noteq> []) stored"

definition id_char :: "char \<Rightarrow> char" where
  "id_char c = (if is_alnum c \<or> c = CHR ''.'' \<or> c = CHR ''_'' \<or> c = CHR ''-'' then c else CHR ''-'')"

definition pair_base :: "string \<Rightarrow> string" where
  "pair_base local_dir =
     (let base = path_filename local_dir in
      map id_char (if base = [] \<or> base = ''/'' \<or> base = ''.'' then ''dir'' else base))"

text \<open>The loop over the suffixes; \<open>Suc (length existing)\<close> tries are enough, for each taken name
  is that of another pair.\<close>

fun try_ids :: "nat \<Rightarrow> SyncPairSpec list \<Rightarrow> string \<Rightarrow> nat \<Rightarrow> string \<Rightarrow> string option" where
  "try_ids 0 existing stem n cand = None"
| "try_ids (Suc fuel) existing stem n cand =
     (if cand \<in> sp_id ` set existing
      then try_ids fuel existing stem (Suc n) (stem @ ''-'' @ dec_digits n)
      else Some cand)"

definition sync_make_pair_id :: "SyncPairSpec list \<Rightarrow> string \<Rightarrow> string \<Rightarrow> string option" where
  "sync_make_pair_id existing local_dir peer =
     (let stem = pair_base local_dir @ ''-'' @ peer in
      try_ids (Suc (length existing)) existing stem 2 stem)"

definition sync_parse_peer_dir :: "string \<Rightarrow> (string \<times> string) option" where
  "sync_parse_peer_dir spec =
     (case find_index (\<lambda>c. c = CHR '':'') spec of
        None \<Rightarrow> None
      | Some colon \<Rightarrow>
          if colon = 0 \<or> colon + 1 \<ge> length spec then None
          else
            let peer = take colon spec; remote_dir = drop (colon + 1) spec in
            if length remote_dir \<ge> 2 \<and> remote_dir ! 1 = CHR '':'' then None
            else if CHR ''/'' \<in> set peer then None
            else Some (peer, remote_dir))"

definition sync_clock_tick :: "SyncPairSpec \<Rightarrow> SyncPairSpec" where
  "sync_clock_tick p = p\<lparr>sp_clock := sp_clock p + 1\<rparr>"

definition NL :: string where "NL = [CHR 0x0A]"

definition sync_manifest_text :: "SyncManifest \<Rightarrow> string" where
  "sync_manifest_text m =
     ''manifest '' @ mf_pair_id m @ '' (logical clock '' @ dec_digits (unat (mf_clock m)) @ '')'' @ NL @
     concat (map (\<lambda>op. ''  '' @ op_kind op @ ''  '' @ op_relpath op @
                    (if op_kind op \<noteq> ''delete'' then ''  ('' @ dec_digits (op_size op) @ '' bytes)'' else []) @ NL)
              (mf_ops m)) @
     (if mf_ops m = []
      then ''  (no changes '' @ [CHR 0xE2, CHR 0x80, CHR 0x94] @ '' trees already converge)'' @ NL
      else [])"

section \<open>Commands\<close>

text \<open>The stored state under the home directory, and what the environment answers.\<close>

record sync_home =
  sh_pairs :: "SyncPairSpec list"
  sh_manifest :: "string \<Rightarrow> SyncManifest option"

record sync_env =
  se_tree :: "string \<Rightarrow> fs_node option"
  se_save_pairs :: bool
  se_save_manifest :: bool

definition is_dir :: "fs_node option \<Rightarrow> bool" where
  "is_dir n = (case n of Some (Directory _) \<Rightarrow> True | _ \<Rightarrow> False)"

text \<open>\<open>sync pair init\<close>: the exit code and the new state.\<close>

definition sp_init ::
  "(bytes \<Rightarrow> string) \<Rightarrow> sync_env \<Rightarrow> string \<Rightarrow> string \<Rightarrow> bool \<Rightarrow> bool \<Rightarrow> sync_home \<Rightarrow> int \<times> sync_home"
where
  "sp_init sha E sp_local peer_spec via_run_script approve H =
     (case sync_parse_peer_dir peer_spec of
        None \<Rightarrow> (2, H)
      | Some (peer, remote_dir) \<Rightarrow>
          if \<not> is_dir (se_tree E sp_local) then (2, H)
          else
            let pairs = sync_pairs_load (sh_pairs H) in
            case sync_make_pair_id pairs sp_local peer of
              None \<Rightarrow> (1, H)
            | Some i \<Rightarrow>
                let p = sync_clock_tick \<lparr>sp_id = i, sp_local_dir = sp_local, sp_peer = peer,
                          sp_remote_dir = remote_dir, sp_clock = 0,
                          sp_via_run_script = via_run_script, sp_approved = approve,
                          sp_created_at = ''created''\<rparr>;
                    m = sync_diff i [] (sync_scan_dir sha (se_tree E sp_local)) (sp_clock p)
                in if \<not> approve \<and> \<not> se_save_manifest E then (1, H)
                   else
                     let H1 = H\<lparr>sh_manifest := (sh_manifest H)(i := if approve then None else Some m)\<rparr> in
                     if \<not> se_save_pairs E then (1, H1)
                     else (0, H1\<lparr>sh_pairs := pairs @ [p]\<rparr>))"

text \<open>\<open>sync pair status\<close>: the pending changes of each pair.\<close>

definition sp_status ::
  "(bytes \<Rightarrow> string) \<Rightarrow> sync_env \<Rightarrow> string \<Rightarrow> sync_home \<Rightarrow> (string \<times> nat) list"
where
  "sp_status sha E i H =
     map (\<lambda>p. let current = sync_scan_dir sha (se_tree E (sp_local_dir p));
                  applied = (case sh_manifest H (sp_id p) of
                               None \<Rightarrow> [] | Some prev \<Rightarrow> sync_index_from_manifest prev)
              in (sp_id p, sync_pending_count (sync_diff (sp_id p) applied current (sp_clock p))))
       (filter (\<lambda>p. i = [] \<or> sp_id p = i) (sync_pairs_load (sh_pairs H)))"

text \<open>The first pair with the identifier is the one that is changed.\<close>

fun approve_first :: "string \<Rightarrow> SyncPairSpec list \<Rightarrow> SyncPairSpec list" where
  "approve_first i [] = []"
| "approve_first i (p # ps) =
     (if sp_id p = i then p\<lparr>sp_approved := True\<rparr> # ps else p # approve_first i ps)"

definition sp_approve_cmd :: "sync_env \<Rightarrow> string \<Rightarrow> sync_home \<Rightarrow> int \<times> sync_home" where
  "sp_approve_cmd E i H =
     (let pairs = sync_pairs_load (sh_pairs H) in
      if pairs = [] then (0, H)
      else case find (\<lambda>p. sp_id p = i) pairs of
        None \<Rightarrow> (1, H)
      | Some p \<Rightarrow>
          if sp_approved p then (0, H)
          else if sh_manifest H (sp_id p) = None then (1, H)
          else if \<not> se_save_pairs E then (1, H)
          else (0, H\<lparr>sh_pairs := approve_first i pairs\<rparr>))"

text \<open>\<open>sync pair run\<close>: \<open>file_send peer local dest\<close> is the transfer of one file. The result also
  lists the paths that were sent.\<close>

definition sp_run ::
  "sync_env \<Rightarrow> (string \<Rightarrow> string \<Rightarrow> string \<Rightarrow> string) \<Rightarrow> string \<Rightarrow> sync_home
     \<Rightarrow> int \<times> string list \<times> sync_home"
where
  "sp_run E file_send i H =
     (let pairs = sync_pairs_load (sh_pairs H) in
      if pairs = [] then (0, [], H)
      else case find (\<lambda>p. sp_id p = i) pairs of
        None \<Rightarrow> (1, [], H)
      | Some p \<Rightarrow>
          if \<not> sp_approved p then (1, [], H)
          else case sh_manifest H (sp_id p) of
            None \<Rightarrow> (1, [], H)
          | Some m \<Rightarrow>
              let ops = filter (\<lambda>op. op_kind op \<noteq> ''delete'') (mf_ops m);
                  dir = (if last (sp_remote_dir p) = CHR ''/'' then sp_remote_dir p
                         else sp_remote_dir p @ ''/'');
                  failed = filter (\<lambda>op. is_prefix ''ERROR''
                             (file_send (sp_peer p) (path_join (sp_local_dir p) (op_relpath op))
                                (dir @ op_relpath op))) ops;
                  H1 = H\<lparr>sh_manifest := (sh_manifest H)(sp_id p := None)\<rparr>;
                  pairs' = map (\<lambda>q. if sp_id q = sp_id p then q\<lparr>sp_approved := True\<rparr> else q) pairs
              in (if failed = [] then 0 else 1,
                  map op_relpath (filter (\<lambda>op. op \<notin> set failed) ops),
                  if se_save_pairs E then H1\<lparr>sh_pairs := pairs'\<rparr> else H1))"

section \<open>Lemmas\<close>

text \<open>An index is well formed when it is ordered and each entry holds its own key.\<close>

definition index_ok :: "SyncIndex \<Rightarrow> bool" where
  "index_ok idx \<longleftrightarrow> ordered idx \<and> (\<forall>(rel, e) \<in> set idx. se_relpath e = rel)"

lemma index_ok_Nil [simp]: "index_ok []"
  by (simp add: index_ok_def ordered_def)

lemma index_ok_put: "index_ok idx \<Longrightarrow> se_relpath e = rel \<Longrightarrow> index_ok (map_put rel e idx)"
  using set_map_put [of rel e idx] by (fastforce simp: index_ok_def ordered_put)

lemma scan_index_ok:
  "index_ok idx \<Longrightarrow> index_ok (scan_node sha rel name n idx)"
  "index_ok idx \<Longrightarrow> index_ok (scan_nodes sha dir es idx)"
  by (induction sha rel name n idx and sha dir es idx rule: scan_node_scan_nodes.induct)
    (simp_all add: index_ok_put)

lemma sync_scan_index_ok: "index_ok (sync_scan_dir sha root)"
  by (auto simp: sync_scan_dir_def scan_index_ok split: option.split fs_node.split)

text \<open>An operation is an edit of the index.\<close>

definition op_edit :: "SyncOp \<Rightarrow> string \<times> SyncEntry option" where
  "op_edit op = (op_relpath op,
     if op_kind op = ''delete'' then None
     else Some \<lparr>se_relpath = op_relpath op, se_size = op_size op, se_sha256 = op_sha256 op\<rparr>)"

lemma apply_ops_edits: "foldl apply_op idx ops = foldl smap.edit idx (map op_edit ops)"
  by (induction ops arbitrary: idx) (simp_all add: apply_op_def smap.edit_def op_edit_def)

lemma diff_paths:
  "map op_relpath (changed_ops prev current) =
     filter (\<lambda>rel. \<exists>e. map_of current rel = Some e \<and> map_option se_sha256 (map_of prev rel) \<noteq> Some (se_sha256 e))
       (map fst current)" if "distinct (map fst current)"
proof -
  have "map op_relpath (concat (map (\<lambda>(rel, e). case map_of prev rel of
          None \<Rightarrow> [sync_op ''create'' rel (se_size e) (se_sha256 e)]
        | Some p \<Rightarrow> if se_sha256 p \<noteq> se_sha256 e
                   then [sync_op ''modify'' rel (se_size e) (se_sha256 e)] else []) xs)) =
      filter (\<lambda>rel. \<exists>e. map_of current rel = Some e \<and> map_option se_sha256 (map_of prev rel) \<noteq> Some (se_sha256 e))
       (map fst xs)" if "set xs \<subseteq> set current" for xs
    using that
  proof (induction xs)
    case (Cons x xs)
    obtain rel e where x: "x = (rel, e)" by force
    have "map_of current rel = Some e" using Cons.prems x \<open>distinct (map fst current)\<close> by simp
    with Cons x show ?case by (auto simp: sync_op_def split: option.splits)
  qed simp
  then show ?thesis by (simp add: changed_ops_def)
qed

lemma deleted_paths:
  "map op_relpath (deleted_ops prev current) = filter (\<lambda>rel. map_of current rel = None) (map fst prev)"
  by (induction prev) (auto simp: deleted_ops_def sync_op_def)

lemma sync_diff_distinct:
  assumes "index_ok prev" "index_ok current"
  shows "distinct (map op_relpath (mf_ops (sync_diff i prev current c)))"
proof -
  have d: "distinct (map fst prev)" "distinct (map fst current)"
    using assms by (simp_all add: index_ok_def ordered_distinct)
  have "rel \<notin> set (map op_relpath (deleted_ops prev current))"
    if "rel \<in> set (map op_relpath (changed_ops prev current))" for rel
    using that unfolding diff_paths [OF d(2)] deleted_paths by auto
  then show ?thesis
    using d by (auto simp: sync_diff_def diff_paths deleted_paths simp del: set_map)
qed

lemma diff_mem:
  assumes "index_ok current"
  shows "rel \<in> set (map op_relpath (mf_ops (sync_diff i prev current c))) \<longleftrightarrow>
    (case map_of current rel of
       Some e \<Rightarrow> map_option se_sha256 (map_of prev rel) \<noteq> Some (se_sha256 e)
     | None \<Rightarrow> map_of prev rel \<noteq> None)"
proof -
  have d: "distinct (map fst current)" using assms by (simp add: index_ok_def ordered_distinct)
  have "map op_relpath (mf_ops (sync_diff i prev current c)) =
      map op_relpath (changed_ops prev current) @ map op_relpath (deleted_ops prev current)"
    by (simp add: sync_diff_def)
  then have "rel \<in> set (map op_relpath (mf_ops (sync_diff i prev current c))) \<longleftrightarrow>
      (\<exists>e. map_of current rel = Some e \<and> map_option se_sha256 (map_of prev rel) \<noteq> Some (se_sha256 e)) \<and>
        rel \<in> fst ` set current \<or> map_of current rel = None \<and> rel \<in> fst ` set prev"
    unfolding diff_paths [OF d] deleted_paths by auto
  then show ?thesis
    by (auto simp flip: dom_map_of_conv_image_fst simp: dom_def split: option.splits)
qed

lemma op_lookup:
  assumes "index_ok prev" "index_ok current"
  shows "map_of (map op_edit (mf_ops (sync_diff i prev current c))) rel =
    (case map_of current rel of
       Some e \<Rightarrow> (if map_option se_sha256 (map_of prev rel) = Some (se_sha256 e) then None else Some (Some e))
     | None \<Rightarrow> (if map_of prev rel = None then None else Some None))"
proof -
  let ?ops = "mf_ops (sync_diff i prev current c)"
  have d: "distinct (map fst prev)" "distinct (map fst current)"
    using assms by (simp_all add: index_ok_def ordered_distinct)
  have keys: "map fst (map op_edit ?ops) = map op_relpath ?ops" by (simp add: op_edit_def)
  have dist: "distinct (map fst (map op_edit ?ops))"
    unfolding keys by (rule sync_diff_distinct [OF assms])
  have mem: "map_of (map op_edit ?ops) rel = Some (snd (op_edit op))" if "op \<in> set ?ops" "op_relpath op = rel" for op
  proof -
    have "(rel, snd (op_edit op)) = op_edit op" using that(2) by (simp add: op_edit_def)
    with that(1) have "(rel, snd (op_edit op)) \<in> set (map op_edit ?ops)" by simp
    with dist show ?thesis by simp
  qed
  show ?thesis
  proof (cases "map_of current rel")
    case None
    show ?thesis
    proof (cases "map_of prev rel")
      case None
      with \<open>map_of current rel = None\<close> have "rel \<notin> set (map op_relpath ?ops)"
        unfolding diff_mem [OF assms(2)] by simp
      then have "map_of (map op_edit ?ops) rel = None" by (auto simp: map_of_eq_None_iff op_edit_def)
      with \<open>map_of prev rel = None\<close> \<open>map_of current rel = None\<close> show ?thesis by simp
    next
      case (Some e)
      then have "(rel, e) \<in> set prev" by (rule map_of_SomeD)
      then have "sync_op ''delete'' rel 0 [] \<in> set ?ops"
        using None by (force simp: sync_diff_def deleted_ops_def)
      from mem [OF this] None Some show ?thesis by (simp add: sync_op_def op_edit_def)
    qed
  next
    case (Some e)
    then have e: "(rel, e) \<in> set current" by (rule map_of_SomeD)
    with assms(2) have rel: "se_relpath e = rel" by (auto simp: index_ok_def)
    show ?thesis
    proof (cases "map_option se_sha256 (map_of prev rel) = Some (se_sha256 e)")
      case True
      with Some have "rel \<notin> set (map op_relpath ?ops)"
        unfolding diff_mem [OF assms(2)] by simp
      then have "map_of (map op_edit ?ops) rel = None" by (auto simp: map_of_eq_None_iff op_edit_def)
      with True Some show ?thesis by simp
    next
      case False
      define kind where "kind = (if map_of prev rel = None then ''create'' else ''modify'')"
      have "sync_op kind rel (se_size e) (se_sha256 e) \<in> set (case map_of prev rel of
          None \<Rightarrow> [sync_op ''create'' rel (se_size e) (se_sha256 e)]
        | Some p \<Rightarrow> if se_sha256 p \<noteq> se_sha256 e
                   then [sync_op ''modify'' rel (se_size e) (se_sha256 e)] else [])"
        using False by (simp add: kind_def split: option.split)
      with e have "sync_op kind rel (se_size e) (se_sha256 e) \<in> set (changed_ops prev current)"
        unfolding changed_ops_def set_concat set_map by blast
      then have "sync_op kind rel (se_size e) (se_sha256 e) \<in> set ?ops" by (simp add: sync_diff_def)
      moreover have "kind \<noteq> ''delete''" by (simp add: kind_def)
      ultimately show ?thesis
        using mem [of "sync_op kind rel (se_size e) (se_sha256 e)"] Some False rel
        by (simp add: sync_op_def op_edit_def)
    qed
  qed
qed

lemma map_of_apply_diff:
  assumes "index_ok prev" "index_ok current"
  shows "map_of (foldl apply_op prev (mf_ops (sync_diff i prev current c))) rel =
    (case map_of current rel of
       Some e \<Rightarrow> (if map_option se_sha256 (map_of prev rel) = Some (se_sha256 e) then map_of prev rel else Some e)
     | None \<Rightarrow> None)"
proof -
  have "distinct (map fst (map op_edit (mf_ops (sync_diff i prev current c))))"
    using sync_diff_distinct [OF assms] by (simp add: op_edit_def comp_def)
  then show ?thesis
    unfolding apply_ops_edits using assms
    by (simp add: smap.get_edits index_ok_def) (auto simp: op_lookup [OF assms] split: option.split)
qed

text \<open>The candidates of the loop over the suffixes are all different, so one of them is free.\<close>

lemma dec_digits_inject [simp]: "dec_digits m = dec_digits n \<longleftrightarrow> m = n"
proof
  assume "dec_digits m = dec_digits n"
  then have "parse_digits 0 (dec_digits m) = parse_digits 0 (dec_digits n)" by (rule arg_cong)
  then show "m = n" by simp
qed simp

definition id_cand :: "string \<Rightarrow> nat \<Rightarrow> string" where
  "id_cand stem n = (if n = 1 then stem else stem @ ''-'' @ dec_digits n)"

lemma id_cand_inject: "id_cand stem m = id_cand stem n \<longleftrightarrow> m = n"
  by (auto simp: id_cand_def)

lemma try_ids_fresh:
  assumes "card (sp_id ` set existing - id_cand stem ` {1..<n}) < fuel" "1 \<le> n"
    "id_cand stem ` {1..<n} \<subseteq> sp_id ` set existing"
  shows "\<exists>i. try_ids fuel existing stem (Suc n) (id_cand stem n) = Some i \<and> i \<notin> sp_id ` set existing"
  using assms
proof (induction fuel arbitrary: n)
  case (Suc fuel)
  show ?case
  proof (cases "id_cand stem n \<in> sp_id ` set existing")
    case True
    have step: "id_cand stem ` {1..<Suc n} = insert (id_cand stem n) (id_cand stem ` {1..<n})"
      using Suc.prems(2) by (auto simp: less_Suc_eq_le le_less)
    have "id_cand stem n \<in> sp_id ` set existing - id_cand stem ` {1..<n}"
    proof -
      have "id_cand stem n \<notin> id_cand stem ` {1..<n}" by (auto simp: id_cand_inject)
      with True show ?thesis by blast
    qed
    then have "card (sp_id ` set existing - id_cand stem ` {1..<Suc n}) < fuel"
      using Suc.prems(1) card_Diff1_less [of "sp_id ` set existing - id_cand stem ` {1..<n}"]
      unfolding step Diff_insert [of _ "id_cand stem n" "id_cand stem ` {1..<n}"]
      by fastforce
    moreover have "id_cand stem ` {1..<Suc n} \<subseteq> sp_id ` set existing"
      using True Suc.prems(3) unfolding step by simp
    moreover have "stem @ ''-'' @ dec_digits (Suc n) = id_cand stem (Suc n)"
      using Suc.prems(2) by (simp add: id_cand_def)
    ultimately show ?thesis using Suc.IH [of "Suc n"] True by simp
  next
    case False
    then show ?thesis by simp
  qed
qed simp

lemma try_ids_not_Nil:
  "try_ids fuel existing stem n cand = Some i \<Longrightarrow> stem \<noteq> [] \<Longrightarrow> cand \<noteq> [] \<Longrightarrow> i \<noteq> []"
  by (induction fuel existing stem n cand rule: try_ids.induct) (auto split: if_splits)

lemma find_append: "find P (xs @ ys) = (case find P xs of None \<Rightarrow> find P ys | Some x \<Rightarrow> Some x)"
  by (induction xs) auto

lemma make_pair_id_fresh:
  "\<exists>i. sync_make_pair_id existing local_dir peer = Some i \<and> i \<notin> sp_id ` set existing"
proof -
  let ?stem = "pair_base local_dir @ ''-'' @ peer"
  have "card (sp_id ` set existing) < Suc (length existing)"
    using card_image_le [of "set existing" sp_id] card_length [of existing] by simp
  moreover have "id_cand ?stem 1 = ?stem" by (simp add: id_cand_def)
  ultimately show ?thesis
    using try_ids_fresh [of existing ?stem 1 "Suc (length existing)"]
    by (simp add: sync_make_pair_id_def Let_def numeral_2_eq_2)
qed

lemma first_manifest_index:
  "sync_index_from_manifest (sync_diff i [] (sync_scan_dir sha root) c) = sync_scan_dir sha root"
proof -
  let ?idx = "sync_scan_dir sha root"
  have ok: "index_ok ?idx" by (rule sync_scan_index_ok)
  have "ordered (foldl apply_op [] (mf_ops (sync_diff i [] ?idx c)))"
    unfolding apply_ops_edits by (rule smap.ok_edits) (simp add: ordered_def)
  moreover have "map_of (foldl apply_op [] (mf_ops (sync_diff i [] ?idx c))) = map_of ?idx"
    by (rule ext) (simp add: map_of_apply_diff [OF _ ok] split: option.split)
  ultimately show ?thesis
    using ok by (auto simp: sync_index_from_manifest_def index_ok_def intro: ordered_eqI)
qed

lemma diff_self: "index_ok current \<Longrightarrow> mf_ops (sync_diff i current current c) = []"
proof -
  assume "index_ok current"
  from diff_mem [OF this]
  have "rel \<notin> set (map op_relpath (mf_ops (sync_diff i current current c)))" for rel
    by (simp split: option.split)
  then have "set (map op_relpath (mf_ops (sync_diff i current current c))) = {}"
    by (intro equals0I) (erule notE [rotated])
  then show ?thesis by simp
qed

lemma diff_from_nothing:
  "map (\<lambda>op. (op_kind op, op_relpath op)) (mf_ops (sync_diff i [] current c))
     = map (\<lambda>(rel, e). (''create'', rel)) current"
  by (induction current) (auto simp: sync_diff_def changed_ops_def deleted_ops_def sync_op_def)

text \<open>What a successful \<open>init\<close> has stored.\<close>

lemma sp_init_stores:
  assumes "sp_init sha E dir peer_spec via approve H = (0, H')"
  shows "\<exists>ps p. sh_pairs H' = ps @ [p] \<and> ps = sync_pairs_load (sh_pairs H) \<and>
    sp_id p \<notin> sp_id ` set ps \<and> sp_id p \<noteq> [] \<and> sp_approved p = approve \<and> sp_local_dir p = dir \<and>
    sh_manifest H' (sp_id p) = (if approve then None
      else Some (sync_diff (sp_id p) [] (sync_scan_dir sha (se_tree E dir)) (sp_clock p)))"
proof -
  let ?ps = "sync_pairs_load (sh_pairs H)"
  from assms obtain peer rd i where
    i: "sync_make_pair_id ?ps dir peer = Some i"
    and H': "sh_pairs H' = ?ps @ [sync_clock_tick
       \<lparr>sp_id = i, sp_local_dir = dir, sp_peer = peer, sp_remote_dir = rd, sp_clock = 0,
        sp_via_run_script = via, sp_approved = approve, sp_created_at = ''created''\<rparr>]"
      "sh_manifest H' i = (if approve then None
        else Some (sync_diff i [] (sync_scan_dir sha (se_tree E dir)) 1))"
    by (auto simp: sp_init_def sync_clock_tick_def Let_def split: option.splits prod.splits if_splits)
  from make_pair_id_fresh [of ?ps dir peer] i have "i \<notin> sp_id ` set ?ps" by auto
  moreover have "i \<noteq> []"
    using i by (auto simp: sync_make_pair_id_def Let_def simp del: try_ids.simps dest: try_ids_not_Nil)
  ultimately show ?thesis
    using H' by (simp add: sync_clock_tick_def)
qed

section \<open>A sample tree\<close>

definition sample_tree :: fs_node where
  "sample_tree = Directory [(''a'', RegularFile [1]), (''.git'', Directory [(''x'', RegularFile [])]),
     (''d'', Directory [(''k.pem'', RegularFile [2]), (''b'', RegularFile [2, 3])])]"

definition sync_sample_env :: sync_env where
  "sync_sample_env = \<lparr>se_tree = (\<lambda>_. Some sample_tree), se_save_pairs = True, se_save_manifest = True\<rparr>"

definition empty_home :: sync_home where
  "empty_home = \<lparr>sh_pairs = [], sh_manifest = (\<lambda>_. None)\<rparr>"

text \<open>After an \<open>init\<close> without \<open>--approve\<close>, and an \<open>approve\<close>.\<close>

definition approved_home :: sync_home where
  "approved_home = snd (sp_approve_cmd sync_sample_env ''x-p''
     (snd (sp_init (\<lambda>_. ''h'') sync_sample_env ''/x'' ''p:/y'' False False empty_home)))"

section \<open>Properties\<close>

text \<open>C17. A manifest does what it says: after its operations the previous index has, for every
  path, the content hash of the scanned tree, and no path that the tree lacks.\<close>

theorem manifest_converges:
  assumes "index_ok prev" "index_ok current"
  shows "map_option se_sha256 (map_of (foldl apply_op prev (mf_ops (sync_diff i prev current c))) rel)
    = map_option se_sha256 (map_of current rel)"
  by (auto simp: map_of_apply_diff [OF assms] split: option.splits)

lemma manifest_converges_witness:
  "map_option se_sha256 (map_of (foldl apply_op [] (mf_ops (sync_diff ''p'' []
     (sync_scan_dir (\<lambda>b. ''h'') (Some sample_tree)) 1))) ''d/b'') = Some ''h''"
proof -
  have "map_of (sync_scan_dir (\<lambda>b. ''h'') (Some sample_tree)) ''d/b''
      = Some \<lparr>se_relpath = ''d/b'', se_size = 2, se_sha256 = ''h''\<rparr>"
    by code_simp
  then show ?thesis
    using manifest_converges [OF index_ok_Nil sync_scan_index_ok, of "''p''" _ _ 1 "''d/b''"] by simp
qed

text \<open>The index rebuilt from the first manifest of a pair is exactly the scanned index; a first
  manifest only creates, one operation for each file of the scan, and a tree equal to the
  previous index needs no operation.\<close>

theorem first_manifest_round_trip:
  "sync_index_from_manifest (sync_diff i [] (sync_scan_dir sha root) c) = sync_scan_dir sha root \<and>
   map (\<lambda>op. (op_kind op, op_relpath op)) (mf_ops (sync_diff i [] (sync_scan_dir sha root) c))
     = map (\<lambda>(rel, e). (''create'', rel)) (sync_scan_dir sha root) \<and>
   mf_ops (sync_diff i (sync_scan_dir sha root) (sync_scan_dir sha root) c) = []"
  by (simp add: first_manifest_index diff_from_nothing diff_self sync_scan_index_ok)

text \<open>C18. A new pair always gets an identifier, and one that no other pair has.\<close>

theorem pair_id_is_fresh:
  "\<exists>i. sync_make_pair_id existing local_dir peer = Some i \<and> i \<notin> sp_id ` set existing"
  by (rule make_pair_id_fresh)

text \<open>A pair created with \<open>--approve\<close> can never run: \<open>init\<close> approves it and removes its
  manifest, so \<open>run\<close> ends with an error and sends nothing, although \<open>init\<close> tells the user to run
  it. A pair created without it is reported as having no pending change, although nothing has
  been transferred, because \<open>status\<close> takes the pending manifest for the applied one.\<close>

theorem new_pair_cannot_run_or_looks_done:
  assumes "sp_init sha E dir peer_spec via approve H = (0, H')"
  defines "p \<equiv> last (sh_pairs H')"
  shows "if approve
    then sp_approved p \<and> sp_run E file_send (sp_id p) H' = (1, [], H')
    else sp_status sha E (sp_id p) H' = [(sp_id p, 0)]"
proof -
  obtain ps q where q: "sh_pairs H' = ps @ [q]" "ps = sync_pairs_load (sh_pairs H)"
    "sp_id q \<notin> sp_id ` set ps" "sp_id q \<noteq> []" "sp_approved q = approve" "sp_local_dir q = dir"
    "sh_manifest H' (sp_id q) = (if approve then None
      else Some (sync_diff (sp_id q) [] (sync_scan_dir sha (se_tree E dir)) (sp_clock q)))"
    using sp_init_stores [OF assms(1)] by (elim exE conjE)
  have p: "p = q" using q(1) by (simp add: p_def)
  have load: "sync_pairs_load (sh_pairs H') = ps @ [q]"
    using q(1,4) by (simp add: q(2) sync_pairs_load_def)
  have "sp_id x \<noteq> sp_id q" if "x \<in> set ps" for x using that q(3) by (metis image_eqI)
  then have none: "find (\<lambda>p. sp_id p = sp_id q) ps = None" "filter (\<lambda>p. sp_id p = sp_id q) ps = []"
    by (auto simp: find_None_iff filter_empty_conv)
  with none load q(4-7) show ?thesis
    unfolding p
    by (simp add: sp_run_def sp_status_def find_append Let_def first_manifest_index diff_self
        sync_scan_index_ok sync_pending_count_def)
qed

lemma new_pair_cannot_run_or_looks_done_witness:
  "fst (sp_run sync_sample_env (\<lambda>_ _ _. ''OK'')  ''x-p''
     (snd (sp_init (\<lambda>_. ''h'') sync_sample_env ''/x'' ''p:/y'' False True empty_home))) = 1"
proof -
  let ?i = "sp_init (\<lambda>_. ''h'') sync_sample_env ''/x'' ''p:/y'' False True empty_home"
  have "fst ?i = 0" "sp_id (last (sh_pairs (snd ?i))) = ''x-p''" by code_simp+
  then have "?i = (0, snd ?i)" by (simp add: prod_eq_iff)
  from new_pair_cannot_run_or_looks_done [OF this, of "\<lambda>_ _ _. ''OK''"] \<open>sp_id _ = _\<close> show ?thesis by simp
qed

text \<open>A run drops the manifest of its pair and stores no new baseline: the next run of the
  pair ends with an error, and \<open>status\<close> reports every file of the tree as a pending change.\<close>

theorem run_forgets_the_baseline:
  assumes "find (\<lambda>p. sp_id p = i) (sync_pairs_load (sh_pairs H)) = Some p" "i \<noteq> []"
    and "sp_approved p" "sh_manifest H i = Some m" "sp_run E file_send i H = (rc, sent, H')"
  shows "fst (sp_run E file_send i H') = 1 \<and>
    (\<forall>(j, n) \<in> set (sp_status sha E i H'). \<exists>q \<in> set (sync_pairs_load (sh_pairs H')). sp_id q = i \<and>
        n = length (sync_scan_dir sha (se_tree E (sp_local_dir q))))"
proof -
  let ?ps = "sync_pairs_load (sh_pairs H)" and ?ps' = "sync_pairs_load (sh_pairs H')"
  let ?upd = "\<lambda>q. if sp_id q = i then q\<lparr>sp_approved := True\<rparr> else q"
  have p: "sp_id p = i" using assms(1) by (auto simp: find_Some_iff)
  have ne: "?ps \<noteq> []" using assms(1) by auto
  from assms(1,3-5) ne p have H': "sh_manifest H' i = None" "sh_pairs H' = map ?upd ?ps \<or> sh_pairs H' = sh_pairs H"
    by (auto simp: sp_run_def Let_def split: if_splits)
  have upd: "sp_id (?upd q) = sp_id q" for q by simp
  have "sync_pairs_load (map ?upd ?ps) = map ?upd ?ps"
    by (auto simp: sync_pairs_load_def filter_id_conv)
  with H'(2) have ps': "?ps' = map ?upd ?ps \<or> ?ps' = ?ps" by auto
  have upd_find: "find (\<lambda>q. sp_id q = i) (map ?upd ps) = map_option ?upd (find (\<lambda>q. sp_id q = i) ps)" for ps
    by (induction ps) auto
  from ps' have "find (\<lambda>q. sp_id q = i) ?ps' \<noteq> None"
    by (elim disjE) (simp_all only: upd_find assms(1), simp_all)
  then obtain q where q: "find (\<lambda>q. sp_id q = i) ?ps' = Some q" by blast
  moreover from q have "sp_id q = i" by (auto simp: find_Some_iff)
  moreover from q have "?ps' \<noteq> []" by auto
  ultimately have "fst (sp_run E file_send i H') = 1"
    using H'(1) by (simp add: sp_run_def Let_def)
  moreover have "length (mf_ops (sync_diff j [] current c)) = length current" for j current c
    using arg_cong [OF diff_from_nothing [of j current c], of length] by simp
  ultimately show ?thesis
    using H'(1) assms(2) by (auto simp: sp_status_def sync_pending_count_def Let_def)
qed

lemma run_forgets_the_baseline_witness:
  "fst (sp_run sync_sample_env (\<lambda>_ _ _. ''OK'') ''x-p'' (snd (snd (sp_run sync_sample_env (\<lambda>_ _ _. ''OK'') ''x-p'' approved_home)))) = 1"
proof -
  let ?ps = "sync_pairs_load (sh_pairs approved_home)"
  have "find (\<lambda>p. sp_id p = ''x-p'') ?ps = Some (hd ?ps)" "sp_approved (hd ?ps)"
    "sh_manifest approved_home ''x-p'' = Some (the (sh_manifest approved_home ''x-p''))"
    by code_simp+
  from run_forgets_the_baseline [OF this(1) _ this(2,3), of sync_sample_env "\<lambda>_ _ _. ''OK''"] show ?thesis
    by (simp add: prod_eq_iff)
qed

end
