(* ===== verification/Sessions.thy ===== *)
theory Sessions
  imports Ring_Buffer Sorted_Map
begin

text \<open>
  The \<open>Session\<close> of bs-session.h on POSIX: its states, its attachments and the runtime it owns.
  Time points are integers (ticks of the steady clock), descriptors and process identifiers are
  integers with -1 for none.
\<close>

datatype SessionState =
  Created | Running | Detached | Attached | Died | Exited | Killed | Recoverable

fun session_state_str :: "SessionState \<Rightarrow> string" where
  "session_state_str Created = ''created''"
| "session_state_str Running = ''running''"
| "session_state_str Detached = ''detached''"
| "session_state_str Attached = ''attached''"
| "session_state_str Died = ''died''"
| "session_state_str Exited = ''exited''"
| "session_state_str Killed = ''killed''"
| "session_state_str Recoverable = ''recoverable''"

definition kDefaultRingBufferSize :: nat where "kDefaultRingBufferSize = 1048576"

record Attachment =
  at_attach_id :: u32
  at_cols :: u16
  at_rows :: u16
  at_spectator :: bool
  at_pubkey :: string

datatype Kind = User | Harness | Probe

record Session =
  s_name :: string
  s_peer_ids :: "string list"
  s_attachments :: "(u32 \<times> Attachment) list"
  s_command :: string
  s_detach_signal :: string
  s_parent_id :: string
  s_owner_pubkey :: string
  s_kind :: Kind
  s_master_fd :: int
  s_child_pid :: int
  s_pending_input :: bytes
  s_input_backpressured :: bool
  s_hosted :: bool
  s_worker_pid :: int
  s_worker_died :: bool
  s_worker_exit_code :: "32 word"
  s_worker_signal_num :: "32 word"
  s_worker_rx :: bytes
  s_worker_tx :: bytes
  s_state :: SessionState
  s_scrollback :: ring
  s_created_at :: int
  s_created_at_sys :: int
  s_last_output_at :: int
  s_last_attach_at :: int
  s_finished_at :: int
  s_auto_restart :: bool
  s_restart_failures :: int
  s_restart_window_start :: int
  s_history_recorded :: bool
  s_generation :: u64

text \<open>\<open>Session()\<close>: the defaults, at the time \<open>now\<close> of the steady clock and \<open>sys\<close> of the wall
  clock.\<close>

definition new_Session :: "int \<Rightarrow> int \<Rightarrow> Session" where
  "new_Session now sys =
     \<lparr>s_name = [], s_peer_ids = [], s_attachments = [], s_command = [], s_detach_signal = [],
      s_parent_id = [], s_owner_pubkey = [], s_kind = User, s_master_fd = -1, s_child_pid = -1,
      s_pending_input = [], s_input_backpressured = False, s_hosted = False, s_worker_pid = -1,
      s_worker_died = False, s_worker_exit_code = -1, s_worker_signal_num = 0, s_worker_rx = [],
      s_worker_tx = [], s_state = Created, s_scrollback = ring_new kDefaultRingBufferSize,
      s_created_at = now, s_created_at_sys = sys, s_last_output_at = now, s_last_attach_at = now,
      s_finished_at = 0, s_auto_restart = False, s_restart_failures = 0,
      s_restart_window_start = 0, s_history_recorded = False, s_generation = 0\<rparr>"

definition is_valid :: "Session \<Rightarrow> bool" where
  "is_valid s \<longleftrightarrow> s_master_fd s \<ge> 0"

definition is_pollable :: "Session \<Rightarrow> bool" where
  "is_pollable s \<longleftrightarrow> s_master_fd s \<ge> 0 \<and> s_child_pid s > 0"

definition touch_output :: "int \<Rightarrow> Session \<Rightarrow> Session" where
  "touch_output now s = s\<lparr>s_last_output_at := now\<rparr>"

definition reset_restart_failures :: "int \<Rightarrow> Session \<Rightarrow> Session" where
  "reset_restart_failures now s = s\<lparr>s_restart_failures := 0, s_restart_window_start := now\<rparr>"

text \<open>\<open>release_exited_runtime\<close> closes the descriptor and forgets the runtime.\<close>

definition release_exited_runtime :: "Session \<Rightarrow> Session" where
  "release_exited_runtime s =
     s\<lparr>s_master_fd := (if s_master_fd s \<ge> 0 then -1 else s_master_fd s),
       s_pending_input := [], s_input_backpressured := False,
       s_worker_tx := [], s_worker_rx := [], s_worker_pid := -1, s_hosted := False\<rparr>"

end
