(* ===== verification/Worker_Wire.thy ===== *)
theory Worker_Wire
  imports Sessions Wire Framing
begin

text \<open>
  The protocol between the controller and a session worker (bs-session-worker.h) and the
  controller's end of it in bs-pty.h: frames of one type byte, a 32-bit big-endian length and a
  payload, socket paths, the identity in READY, the queue of outgoing frames and the pump of a
  hosted session. What a non-blocking \<open>read\<close> or \<open>write\<close> answers is a list of events.
\<close>

section \<open>Message types and frames\<close>

definition WMSG_INPUT :: byte where "WMSG_INPUT = 0x01"
definition WMSG_RESIZE :: byte where "WMSG_RESIZE = 0x02"
definition WMSG_DETACH :: byte where "WMSG_DETACH = 0x03"
definition WMSG_PING :: byte where "WMSG_PING = 0x04"
definition WMSG_SHUTDOWN :: byte where "WMSG_SHUTDOWN = 0x05"
definition WMSG_OUTPUT :: byte where "WMSG_OUTPUT = 0x81"
definition WMSG_SCROLLBACK :: byte where "WMSG_SCROLLBACK = 0x82"
definition WMSG_DIED :: byte where "WMSG_DIED = 0x83"
definition WMSG_READY :: byte where "WMSG_READY = 0x84"
definition WMSG_PONG :: byte where "WMSG_PONG = 0x85"
definition WMSG_ERROR :: byte where "WMSG_ERROR = 0x86"

lemmas wmsg_defs =
  WMSG_INPUT_def WMSG_RESIZE_def WMSG_DETACH_def WMSG_PING_def WMSG_SHUTDOWN_def WMSG_OUTPUT_def
  WMSG_SCROLLBACK_def WMSG_DIED_def WMSG_READY_def WMSG_PONG_def WMSG_ERROR_def

definition kMaxWorkerPayload :: nat where "kMaxWorkerPayload = 16 * 1024 * 1024"

definition worker_frame :: "byte \<Rightarrow> bytes \<Rightarrow> bytes" where
  "worker_frame t d = t # write_u32be (word_of_nat (length d)) @ d"

section \<open>Socket events\<close>

datatype sock_read = SrData bytes | SrIntr | SrAgain | SrEof | SrError
datatype sock_write = SwWrote nat | SwIntr | SwAgain | SwError

text \<open>The blocking writer: it ends with success when everything is written. A socket that has no
  more events blocks for ever, which no caller of the model waits for: \<open>None\<close>.\<close>

fun write_all :: "bytes \<Rightarrow> sock_write list \<Rightarrow> (bool \<times> bytes \<times> sock_write list) option" where
  "write_all [] evs = Some (True, [], evs)"
| "write_all d [] = None"
| "write_all d (SwWrote n # evs) =
     (if n = 0 then Some (False, [], evs)
      else map_option (\<lambda>(ok, w, r). (ok, take n d @ w, r)) (write_all (drop n d) evs))"
| "write_all d (SwIntr # evs) = write_all d evs"
| "write_all d (SwAgain # evs) = Some (False, [], evs)"
| "write_all d (SwError # evs) = Some (False, [], evs)"

text \<open>\<open>worker_send\<close>: success and the bytes that left.\<close>

definition worker_send :: "byte \<Rightarrow> bytes \<Rightarrow> sock_write list \<Rightarrow> (bool \<times> bytes) option" where
  "worker_send t d evs =
     (if length d > kMaxWorkerPayload then Some (False, [])
      else case write_all (t # write_u32be (word_of_nat (length d))) evs of
        None \<Rightarrow> None
      | Some (False, w, _) \<Rightarrow> Some (False, w)
      | Some (True, w, evs') \<Rightarrow>
          map_option (\<lambda>(ok, w', _). (ok, w @ w')) (write_all d evs'))"

text \<open>The blocking reader of exactly \<open>n\<close> bytes; what a read leaves behind stays in front of the
  events.\<close>

fun read_n :: "nat \<Rightarrow> sock_read list \<Rightarrow> (bytes \<times> sock_read list) option" where
  "read_n 0 evs = Some ([], evs)"
| "read_n n [] = None"
| "read_n (Suc n) (SrData d # evs) =
     (if d = [] then None
      else if length d \<le> Suc n then map_option (\<lambda>(b, r). (d @ b, r)) (read_n (Suc n - length d) evs)
      else Some (take (Suc n) d, SrData (drop (Suc n) d) # evs))"
| "read_n (Suc n) (SrIntr # evs) = read_n (Suc n) evs"
| "read_n (Suc n) (ev # evs) = None"

definition worker_recv :: "sock_read list \<Rightarrow> ((byte \<times> bytes) \<times> sock_read list) option" where
  "worker_recv evs =
     (case read_n 5 evs of
        Some ([t, a, b, c, d], evs1) \<Rightarrow>
          let len = unat (read_u32be a b c d) in
          if len > kMaxWorkerPayload then None
          else map_option (\<lambda>(p, evs2). ((t, p), evs2)) (read_n len evs1)
      | _ \<Rightarrow> None)"

section \<open>The frame loop\<close>

text \<open>The complete frames of a buffer, the rest, and whether the length of a frame was too
  large.\<close>

function parse_worker_frames :: "bytes \<Rightarrow> (byte \<times> bytes) list \<times> bytes \<times> bool" where
  "parse_worker_frames buf =
     (if length buf < 5 then ([], buf, False)
      else
        let len = unat (read_u32be (buf ! 1) (buf ! 2) (buf ! 3) (buf ! 4)) in
        if len > kMaxWorkerPayload then ([], buf, True)
        else if length buf < 5 + len then ([], buf, False)
        else case parse_worker_frames (drop (5 + len) buf) of
          (ms, rest, desync) \<Rightarrow> ((hd buf, take len (drop 5 buf)) # ms, rest, desync))"
  by pat_completeness auto
termination by (relation "measure length") auto

declare parse_worker_frames.simps [simp del]

text \<open>The loop of \<open>read\<close> until the socket would block: the bytes, and whether it ended or failed.\<close>

fun drain_socket :: "sock_read list \<Rightarrow> bytes \<times> bool" where
  "drain_socket [] = ([], False)"
| "drain_socket (SrData d # evs) =
     (if d = [] then ([], True) else case drain_socket evs of (b, e) \<Rightarrow> (d @ b, e))"
| "drain_socket (SrIntr # evs) = drain_socket evs"
| "drain_socket (SrAgain # evs) = ([], False)"
| "drain_socket (SrEof # evs) = ([], True)"
| "drain_socket (SrError # evs) = ([], True)"

section \<open>Hosted sessions\<close>

text \<open>\<open>worker_queue_frame\<close>: the frame is queued, then what the socket takes is written; an error
  leaves the rest queued. The result also has the bytes written.\<close>

fun flush_queue :: "bytes \<Rightarrow> sock_write list \<Rightarrow> bytes \<times> bytes" where
  "flush_queue [] evs = ([], [])"
| "flush_queue tx [] = (tx, [])"
| "flush_queue tx (SwWrote n # evs) =
     (if n = 0 then (tx, [])
      else case flush_queue (drop n tx) evs of (tx', w) \<Rightarrow> (tx', take n tx @ w))"
| "flush_queue tx (SwIntr # evs) = flush_queue tx evs"
| "flush_queue tx (SwAgain # evs) = (tx, [])"
| "flush_queue tx (SwError # evs) = (tx, [])"

definition worker_queue_frame :: "Session \<Rightarrow> byte \<Rightarrow> bytes \<Rightarrow> sock_write list \<Rightarrow> Session \<times> bytes" where
  "worker_queue_frame s t d evs =
     (if length d > kMaxWorkerPayload \<or> s_master_fd s < 0 then (s, [])
      else case flush_queue (s_worker_tx s @ worker_frame t d) evs of
        (tx, w) \<Rightarrow> (s\<lparr>s_worker_tx := tx\<rparr>, w))"

record HostedPump =
  hp_output :: bytes
  hp_scrollback :: bytes

definition be32_at :: "bytes \<Rightarrow> nat \<Rightarrow> u32" where
  "be32_at p i = read_u32be (p ! i) (p ! (i + 1)) (p ! (i + 2)) (p ! (i + 3))"

text \<open>The \<open>switch\<close> on the type of a frame.\<close>

definition pump_frame :: "Session \<times> HostedPump \<Rightarrow> byte \<times> bytes \<Rightarrow> Session \<times> HostedPump" where
  "pump_frame st m =
     (case (st, m) of ((s, out), (t, payload)) \<Rightarrow>
        if t = WMSG_OUTPUT then (s, out\<lparr>hp_output := hp_output out @ payload\<rparr>)
        else if t = WMSG_SCROLLBACK then (s, out\<lparr>hp_scrollback := hp_scrollback out @ payload\<rparr>)
        else if t = WMSG_DIED then
          ((if length payload \<ge> 8
            then s\<lparr>s_worker_exit_code := be32_at payload 0, s_worker_signal_num := be32_at payload 4\<rparr>
            else s)\<lparr>s_worker_died := True\<rparr>, out)
        else (s, out))"

definition pump_hosted_session :: "Session \<Rightarrow> sock_read list \<Rightarrow> Session \<times> HostedPump" where
  "pump_hosted_session s evs =
     (let none = \<lparr>hp_output = [], hp_scrollback = []\<rparr> in
      if \<not> s_hosted s \<or> s_master_fd s < 0 \<or> s_worker_died s then (s, none)
      else
        case drain_socket evs of (bytes, ended) \<Rightarrow>
        case parse_worker_frames (s_worker_rx s @ bytes) of (ms, rest, desync) \<Rightarrow>
        case foldl pump_frame (s\<lparr>s_worker_died := ended\<rparr>, none) ms of (s1, out) \<Rightarrow>
          let s2 = s1\<lparr>s_worker_rx := rest, s_worker_died := s_worker_died s1 \<or> desync\<rparr> in
          if length rest > 32 * 1024 * 1024
          then (s2\<lparr>s_worker_rx := [], s_worker_died := True\<rparr>, out)
          else (s2, out))"

section \<open>Socket paths and identity\<close>

definition safe_byte :: "char \<Rightarrow> bool" where
  "safe_byte c \<longleftrightarrow> is_alnum c \<or> c = CHR ''-'' \<or> c = CHR ''_'' \<or> c = CHR ''.''"

definition fnv1a :: "string \<Rightarrow> u64" where
  "fnv1a s = foldl (\<lambda>h c. (h XOR word_of_nat (code_of c)) * 1099511628211) 1469598103934665603 s"

definition hex64 :: "u64 \<Rightarrow> string" where
  "hex64 h = map (\<lambda>i. hex_digit (unat (drop_bit (i * 4) h AND 0xF))) (rev [0..<16])"

definition worker_file_name :: "string \<Rightarrow> string" where
  "worker_file_name name =
     (if list_all safe_byte name then name
      else
        let tail = take 8 (filter safe_byte name) in
        CHR ''!'' # hex64 (fnv1a name) @ (if tail \<noteq> [] then CHR ''-'' # tail else []))"

definition worker_socket_dir :: "string \<Rightarrow> string" where
  "worker_socket_dir app_home = app_home @ ''/run/bs-sessions''"

definition worker_socket_path :: "string \<Rightarrow> string \<Rightarrow> string" where
  "worker_socket_path app_home name = worker_socket_dir app_home @ ''/'' @ worker_file_name name @ ''.sock''"

definition legacy_worker_socket_path :: "string \<Rightarrow> string \<Rightarrow> string" where
  "legacy_worker_socket_path app_home name =
     worker_socket_dir app_home @ ''/'' @
       map (\<lambda>c. if safe_byte c then c else CHR ''_'') name @ ''.sock''"

definition ready_matches :: "string \<Rightarrow> string \<Rightarrow> bytes \<Rightarrow> string option" where
  "ready_matches app_home path d =
     (if d = [] then None
      else let candidate = string_of_bytes d in
        if worker_socket_path app_home candidate \<noteq> path \<and>
           legacy_worker_socket_path app_home candidate \<noteq> path then None
        else Some candidate)"

text \<open>The name and the process identifier of the child, -1 for the older payload without one.\<close>

definition decode_ready_identity :: "bytes \<Rightarrow> string \<Rightarrow> string \<Rightarrow> (string \<times> int) option" where
  "decode_ready_identity payload app_home path =
     (let n = length payload - 4 in
      case (if length payload \<ge> 4 then ready_matches app_home path (take n payload) else None) of
        Some name \<Rightarrow> Some (name, sint (be32_at payload n))
      | None \<Rightarrow> map_option (\<lambda>name. (name, -1)) (ready_matches app_home path payload))"

text \<open>The payload of READY that a worker sends.\<close>

definition ready_payload :: "string \<Rightarrow> u32 \<Rightarrow> bytes" where
  "ready_payload name pid = bytes_of_string name @ write_u32be pid"

section \<open>Lemmas\<close>

lemma unat_payload_length:
  "length (d :: bytes) \<le> kMaxWorkerPayload \<Longrightarrow> unat (word_of_nat (length d) :: u32) = length d"
  by (simp add: kMaxWorkerPayload_def)

lemma worker_frame_header:
  assumes "length d \<le> kMaxWorkerPayload"
  shows "read_u32be (worker_frame t d ! 1) (worker_frame t d ! 2) (worker_frame t d ! 3) (worker_frame t d ! 4)
      = word_of_nat (length d)"
    "length (worker_frame t d) = 5 + length d" "hd (worker_frame t d) = t" "drop 5 (worker_frame t d) = d"
  using assms by (simp_all add: worker_frame_def write_u32be_def kMaxWorkerPayload_def)

lemma parse_frame_front:
  assumes "length d \<le> kMaxWorkerPayload"
  shows "parse_worker_frames (worker_frame t d @ r) =
    (case parse_worker_frames r of (ms, rest, e) \<Rightarrow> ((t, d) # ms, rest, e))"
proof -
  note h = worker_frame_header [OF assms, of t] unat_payload_length [OF assms]
  have n: "(worker_frame t d @ r) ! i = worker_frame t d ! i" if "i < 5" for i
    using that h(2) by (simp add: nth_append)
  have hd: "hd (worker_frame t d @ r) = t" by (simp add: worker_frame_def)
  have "drop 5 (worker_frame t d @ r) = d @ r" using h(2,4) by simp
  then have "take (length d) (drop 5 (worker_frame t d @ r)) = d" by simp
  moreover have "drop (5 + length d) (worker_frame t d @ r) = r" using h(2) by simp
  ultimately show ?thesis
    using assms h hd by (subst parse_worker_frames.simps) (simp add: n Let_def)
qed

lemma parse_frame_incomplete:
  assumes "length d \<le> kMaxWorkerPayload" "worker_frame t d = p @ q" "q \<noteq> []"
  shows "parse_worker_frames p = ([], p, False)"
proof (cases "length p < 5")
  case True
  then show ?thesis by (simp add: parse_worker_frames.simps)
next
  case False
  note h = worker_frame_header [OF assms(1), of t] unat_payload_length [OF assms(1)]
  have n: "p ! i = worker_frame t d ! i" if "i < 5" for i
    using that False assms(2) by (simp add: nth_append)
  have "length p < 5 + length d" using h(2) assms(2,3) by (cases q) simp_all
  with False assms(1) h show ?thesis
    by (subst parse_worker_frames.simps) (simp add: n Let_def)
qed

definition worker_drain :: "bytes \<Rightarrow> ((byte \<times> bytes) list \<times> bytes) option" where
  "worker_drain p = (case parse_worker_frames p of (ms, rest, e) \<Rightarrow> if e then None else Some (ms, rest))"

definition is_worker_frame :: "byte \<times> bytes \<Rightarrow> bytes \<Rightarrow> bool" where
  "is_worker_frame m f \<longleftrightarrow> length (snd m) \<le> kMaxWorkerPayload \<and> f = worker_frame (fst m) (snd m)"

interpretation worker_stream: stream_framing is_worker_frame worker_drain "\<lambda>m. m"
proof unfold_locales
  fix m f r
  assume "is_worker_frame m f"
  then show "worker_drain (f @ r) = map_option (\<lambda>(ms, q). (m # ms, q)) (worker_drain r)"
    by (auto simp: is_worker_frame_def worker_drain_def parse_frame_front split: prod.split)
next
  fix m f p q
  assume "is_worker_frame m f" "f = p @ q" "q \<noteq> []"
  then show "worker_drain p = Some ([], p)"
    using parse_frame_incomplete [of "snd m" "fst m" p q] by (simp add: is_worker_frame_def worker_drain_def)
next
  show "worker_drain [] = Some ([], [])"
    by (simp add: worker_drain_def parse_worker_frames.simps)
qed

text \<open>A queue loses nothing: what left and what waits are what there was.\<close>

lemma flush_queue_split: "flush_queue tx evs = (tx', w) \<Longrightarrow> w @ tx' = tx"
  by (induction tx evs arbitrary: tx' w rule: flush_queue.induct) (auto split: if_splits prod.splits)

lemma write_all_complete: "write_all d evs = Some (True, w, r) \<Longrightarrow> w = d"
proof (induction d evs arbitrary: w r rule: write_all.induct)
  case (3 b bs n evs)
  then show ?case
    by (auto split: if_splits)
qed auto

lemma read_n_chunks:
  "list_all (\<lambda>c. c \<noteq> []) cs \<Longrightarrow> concat cs = b @ r \<Longrightarrow>
   \<exists>cs'. read_n (length b) (map SrData cs) = Some (b, map SrData cs') \<and> concat cs' = r \<and>
     list_all (\<lambda>c. c \<noteq> []) cs'"
proof (induction cs arbitrary: b)
  case Nil
  then show ?case by simp
next
  case (Cons c cs)
  show ?case
  proof (cases b)
    case Nil
    with Cons.prems show ?thesis by (intro exI [of _ "c # cs"]) simp
  next
    case b: (Cons x xs)
    show ?thesis
    proof (cases "length c \<le> length b")
      case True
      with Cons.prems(2) have "c = take (length c) b" "concat cs = drop (length c) b @ r"
        by (auto simp: append_eq_append_conv_if)
      moreover from this(1) have "b = c @ drop (length c) b" by (metis append_take_drop_id)
      ultimately have "b = c @ drop (length c) b" "concat cs = drop (length c) b @ r" by simp_all
      with Cons.IH [of "drop (length c) b"] Cons.prems(1) True b show ?thesis
        by (auto simp: option.map_comp comp_def)
    next
      case False
      with Cons.prems(2) have "take (length b) c = b" "drop (length b) c @ concat cs = r"
        by (auto simp: append_eq_append_conv_if)
      with False Cons.prems b show ?thesis
        by (intro exI [of _ "drop (length b) c # cs"]) auto
    qed
  qed
qed

text \<open>A hosted session whose socket delivers the bytes in the given pieces, one pump each.\<close>

definition piece_events :: "bytes \<Rightarrow> sock_read list" where
  "piece_events c = (if c = [] then [SrAgain] else [SrData c, SrAgain])"

fun pump_pieces :: "Session \<Rightarrow> bytes list \<Rightarrow> Session \<times> bytes \<times> bytes" where
  "pump_pieces s [] = (s, [], [])"
| "pump_pieces s (c # cs) =
     (case pump_hosted_session s (piece_events c) of (s1, out) \<Rightarrow>
      case pump_pieces s1 cs of (s2, o2, b2) \<Rightarrow> (s2, hp_output out @ o2, hp_scrollback out @ b2))"

definition payloads :: "byte \<Rightarrow> (byte \<times> bytes) list \<Rightarrow> bytes" where
  "payloads t ms = concat (map snd (filter (\<lambda>m. fst m = t) ms))"

lemma pump_frames_alive:
  assumes "list_all (\<lambda>m. fst m \<noteq> WMSG_DIED) ms"
  shows "foldl pump_frame (s, \<lparr>hp_output = o1, hp_scrollback = b1\<rparr>) ms =
    (s, \<lparr>hp_output = o1 @ payloads WMSG_OUTPUT ms, hp_scrollback = b1 @ payloads WMSG_SCROLLBACK ms\<rparr>)"
  using assms
proof (induction ms arbitrary: o1 b1)
  case (Cons m ms)
  have "WMSG_OUTPUT \<noteq> WMSG_SCROLLBACK" by (simp add: wmsg_defs)
  with Cons show ?case by (cases m) (simp add: pump_frame_def payloads_def)
qed (simp add: payloads_def)

lemma parse_rest_bound:
  "parse_worker_frames p = (ms, rest, False) \<Longrightarrow> length rest < 5 + kMaxWorkerPayload"
proof (induction p arbitrary: ms rule: parse_worker_frames.induct)
  case (1 p)
  have step: "parse_worker_frames p = (if length p < 5 then ([], p, False)
      else let len = unat (read_u32be (p ! 1) (p ! 2) (p ! 3) (p ! 4)) in
        if len > kMaxWorkerPayload then ([], p, True)
        else if length p < 5 + len then ([], p, False)
        else case parse_worker_frames (drop (5 + len) p) of
          (ms, rest, e) \<Rightarrow> ((hd p, take len (drop 5 p)) # ms, rest, e))"
    by (rule parse_worker_frames.simps)
  from 1(2) show ?case
    unfolding step Let_def
    using 1(1) [OF _ refl]
    by (fastforce split: if_splits prod.splits)
qed

lemma pump_piece_alive:
  assumes "s_hosted s" "s_master_fd s \<ge> 0" "\<not> s_worker_died s"
    and "worker_drain (s_worker_rx s @ c) = Some (ms, rest)" "list_all (\<lambda>m. fst m \<noteq> WMSG_DIED) ms"
  shows "pump_hosted_session s (piece_events c) =
    (s\<lparr>s_worker_rx := rest\<rparr>, \<lparr>hp_output = payloads WMSG_OUTPUT ms, hp_scrollback = payloads WMSG_SCROLLBACK ms\<rparr>)"
proof -
  have d: "drain_socket (piece_events c) = (c, False)" by (simp add: piece_events_def)
  have p: "parse_worker_frames (s_worker_rx s @ c) = (ms, rest, False)"
    using assms(4) by (auto simp: worker_drain_def split: prod.splits if_splits)
  have small: "\<not> length rest > 32 * 1024 * 1024"
    using parse_rest_bound [OF p] by (simp add: kMaxWorkerPayload_def)
  have died: "s\<lparr>s_worker_died := False\<rparr> = s" using assms(3) by simp
  show ?thesis
    using assms(1-3) small
    by (simp add: pump_hosted_session_def d p Let_def pump_frames_alive [OF assms(5)] died)
qed

lemma pump_pieces_alive:
  assumes "s_hosted s" "s_master_fd s \<ge> 0" "\<not> s_worker_died s"
    and "list_all2 is_worker_frame ms fs" "list_all (\<lambda>m. fst m \<noteq> WMSG_DIED) ms"
    and "s_worker_rx s @ concat cs = concat fs" "cs \<noteq> []"
  shows "pump_pieces s cs = (s\<lparr>s_worker_rx := []\<rparr>, payloads WMSG_OUTPUT ms, payloads WMSG_SCROLLBACK ms)"
  using assms
proof (induction cs arbitrary: s ms fs)
  case (Cons c cs)
  from worker_stream.drain_prefix [OF Cons.prems(4), of "s_worker_rx s @ c" "concat cs"] Cons.prems(6)
  obtain j rest where j: "worker_drain (s_worker_rx s @ c) = Some (take j ms, rest)"
    "rest @ concat cs = concat (drop j fs)" by auto
  have alive: "list_all (\<lambda>m. fst m \<noteq> WMSG_DIED) (take j ms)" "list_all (\<lambda>m. fst m \<noteq> WMSG_DIED) (drop j ms)"
    using Cons.prems(5) by (auto simp: list_all_iff dest: in_set_takeD in_set_dropD)
  have split: "payloads t ms = payloads t (take j ms) @ payloads t (drop j ms)" for t
    unfolding payloads_def by (subst append_take_drop_id [of j ms, symmetric]) (simp only: filter_append map_append concat_append)
  note step = pump_piece_alive [OF Cons.prems(1-3) j(1) alive(1)]
  show ?case
  proof (cases "cs = []")
    case True
    with Cons.prems(6) have "worker_drain (s_worker_rx s @ c) = Some (ms, [])"
      using worker_stream.drain_all [OF Cons.prems(4)] by simp
    with j(1) have "rest = []" "take j ms = ms" by simp_all
    with step True show ?thesis by simp
  next
    case False
    have rx: "s_worker_rx (s\<lparr>s_worker_rx := rest\<rparr>) @ concat cs = concat (drop j fs)" using j(2) by simp
    from Cons.IH [OF _ _ _ list_all2_dropI [OF Cons.prems(4)] alive(2) rx False] Cons.prems(1-3) step
    show ?thesis by (simp add: split)
  qed
qed simp

lemma string_of_bytes_take_append:
  "string_of_bytes (take (length n) (bytes_of_string n @ d)) = n"
  by simp

lemma legacy_path_length:
  "length (legacy_worker_socket_path app name) = length (worker_socket_dir app) + length name + 6"
  by (simp add: legacy_worker_socket_path_def)

lemma worker_file_name_legacy:
  "worker_file_name a = map (\<lambda>c. if safe_byte c then c else CHR ''_'') b \<Longrightarrow> length a = length b"
proof -
  assume eq: "worker_file_name a = map (\<lambda>c. if safe_byte c then c else CHR ''_'') b"
  show ?thesis
  proof (cases "list_all safe_byte a")
    case True
    with eq show ?thesis by (metis worker_file_name_def length_map)
  next
    case False
    then have "CHR ''!'' \<in> set (worker_file_name a)" by (simp add: worker_file_name_def Let_def)
    then have "CHR ''!'' \<in> (\<lambda>c. if safe_byte c then c else CHR ''_'') ` set b" using eq by simp
    then have "safe_byte (CHR ''!'')" by (auto split: if_splits)
    then show ?thesis by (simp add: safe_byte_def is_alnum_def is_alpha_def is_upper_def is_lower_def is_digit_def code_of_def)
  qed
qed

text \<open>A hosted session for the concrete runs.\<close>

definition hosted_session :: Session where
  "hosted_session = (new_Session 0 0)\<lparr>s_hosted := True, s_master_fd := 5\<rparr>"

section \<open>Properties\<close>

text \<open>A hosted session that is alive gets exactly the output and the scrollback its worker
  sent, in order, however the socket cuts the frames into reads, and keeps no bytes back.\<close>

theorem hosted_output_is_complete:
  assumes "s_hosted s" "s_master_fd s \<ge> 0" "\<not> s_worker_died s" "s_worker_rx s = []"
    and "list_all (\<lambda>m. length (snd m) \<le> kMaxWorkerPayload \<and> fst m \<noteq> WMSG_DIED) ms"
    and "concat cs = concat (map (\<lambda>(t, d). worker_frame t d) ms)" "cs \<noteq> []"
  shows "pump_pieces s cs = (s, payloads WMSG_OUTPUT ms, payloads WMSG_SCROLLBACK ms)"
proof -
  have "list_all2 is_worker_frame ms (map (\<lambda>(t, d). worker_frame t d) ms)"
    using assms(5) by (induction ms) (auto simp: is_worker_frame_def)
  moreover have "list_all (\<lambda>m. fst m \<noteq> WMSG_DIED) ms" using assms(5) by (simp add: list_all_iff)
  ultimately have "pump_pieces s cs = (s\<lparr>s_worker_rx := []\<rparr>, payloads WMSG_OUTPUT ms, payloads WMSG_SCROLLBACK ms)"
    using assms(1-4,6,7) by (intro pump_pieces_alive) simp_all
  with assms(4) show ?thesis by simp
qed

lemma hosted_output_is_complete_witness:
  "pump_pieces hosted_session [[0x81, 0, 0], [], [0, 2, 1, 2, 0x82], [0, 0, 0, 1, 7]]
     = (hosted_session, [1, 2], [7])"
  using hosted_output_is_complete
    [of hosted_session "[(0x81, [1, 2]), (0x82, [7])]" "[[0x81, 0, 0], [], [0, 2, 1, 2, 0x82], [0, 0, 0, 1, 7]]"]
  by (simp add: hosted_session_def new_Session_def payloads_def wmsg_defs worker_frame_def write_u32be_def
        kMaxWorkerPayload_def)

text \<open>What \<open>worker_send\<close> reports as sent is one frame, and \<open>worker_recv\<close> reads that frame
  back, however the stream is cut.\<close>

theorem worker_send_recv_round_trip:
  assumes "worker_send t d evs = Some (True, w)" "concat cs = w @ r" "list_all (\<lambda>c. c \<noteq> []) cs"
  shows "w = worker_frame t d \<and>
    (\<exists>cs'. worker_recv (map SrData cs) = Some ((t, d), map SrData cs') \<and> concat cs' = r)"
proof -
  have len: "length d \<le> kMaxWorkerPayload"
    using assms(1) by (auto simp: worker_send_def not_less split: if_splits)
  from assms(1) len obtain w1 evs1 w2 evs2 where
    w: "write_all (t # write_u32be (word_of_nat (length d))) evs = Some (True, w1, evs1)"
      "write_all d evs1 = Some (True, w2, evs2)" "w = w1 @ w2"
    by (auto simp: worker_send_def split: option.splits prod.splits bool.splits if_splits)
  from write_all_complete [OF w(1)] write_all_complete [OF w(2)] w(3)
  have frame: "w = worker_frame t d" by (simp add: worker_frame_def)
  let ?h = "t # write_u32be (word_of_nat (length d))"
  have "concat cs = ?h @ d @ r" using assms(2) frame by (simp add: worker_frame_def)
  from read_n_chunks [OF assms(3) this] obtain cs1 where
    cs1: "read_n (length ?h) (map SrData cs) = Some (?h, map SrData cs1)" "concat cs1 = d @ r"
      "list_all (\<lambda>c. c \<noteq> []) cs1"
    by (elim exE conjE)
  from read_n_chunks [OF cs1(3,2)] obtain cs2 where
    cs2: "read_n (length d) (map SrData cs1) = Some (d, map SrData cs2)" "concat cs2 = r"
    by (elim exE conjE)
  have "read_n 5 (map SrData cs) = Some (?h, map SrData cs1)" using cs1(1) by (simp add: numeral_eq_Suc)
  then have "worker_recv (map SrData cs) = Some ((t, d), map SrData cs2)"
    using len cs2(1) unat_payload_length [OF len]
    by (simp add: worker_recv_def write_u32be_def Let_def)
  with cs2(2) frame show ?thesis by blast
qed

lemma worker_send_recv_round_trip_witness:
  "worker_send WMSG_PING [9] [SwWrote 2, SwIntr, SwWrote 3, SwWrote 1] = Some (True, [4, 0, 0, 0, 1, 9]) \<and>
   (\<exists>cs'. worker_recv (map SrData [[4, 0, 0], [0, 1, 9, 8]]) = Some ((WMSG_PING, [9]), map SrData cs') \<and>
      concat cs' = [8])"
proof -
  have s: "worker_send WMSG_PING [9] [SwWrote 2, SwIntr, SwWrote 3, SwWrote 1] = Some (True, [4, 0, 0, 0, 1, 9])"
    by (simp add: worker_send_def kMaxWorkerPayload_def WMSG_PING_def write_u32be_def)
  with worker_send_recv_round_trip [OF s, of "[[4, 0, 0], [0, 1, 9, 8]]" "[8]"] show ?thesis by simp
qed

text \<open>The identity in READY is read back for both payload formats: the name and the process
  identifier from a current worker at its own path, the name alone from a worker of an older
  daemon at the older path.\<close>

theorem ready_identity_round_trip:
  assumes "name \<noteq> []"
  shows "decode_ready_identity (ready_payload name pid) app (worker_socket_path app name)
      = Some (name, sint pid) \<and>
    decode_ready_identity (bytes_of_string name) app (legacy_worker_socket_path app name) = Some (name, -1)"
proof
  have "be32_at (ready_payload name pid) (length name) = pid"
    by (simp add: be32_at_def ready_payload_def nth_append write_u32be_def)
  then show "decode_ready_identity (ready_payload name pid) app (worker_socket_path app name)
      = Some (name, sint pid)"
    using assms by (simp add: decode_ready_identity_def ready_payload_def ready_matches_def Let_def)
next
  let ?d = "bytes_of_string name"
  have "ready_matches app (legacy_worker_socket_path app name) (take (length ?d - 4) ?d) = None"
    if "length ?d \<ge> 4"
  proof (cases "take (length ?d - 4) ?d = []")
    case False
    let ?c = "string_of_bytes (take (length ?d - 4) ?d)"
    have "length ?c < length name" using that False by simp
    then have "legacy_worker_socket_path app ?c \<noteq> legacy_worker_socket_path app name"
      by (auto dest!: arg_cong [of _ _ length] simp: legacy_path_length)
    moreover have "worker_socket_path app ?c \<noteq> legacy_worker_socket_path app name"
    proof
      assume "worker_socket_path app ?c = legacy_worker_socket_path app name"
      then have "worker_file_name ?c = map (\<lambda>c. if safe_byte c then c else CHR ''_'') name"
        by (simp add: worker_socket_path_def legacy_worker_socket_path_def)
      with \<open>length ?c < length name\<close> worker_file_name_legacy show False by fastforce
    qed
    ultimately show ?thesis using False by (simp add: ready_matches_def Let_def)
  qed (simp add: ready_matches_def)
  moreover have "ready_matches app (legacy_worker_socket_path app name) ?d = Some name"
    using assms by (simp add: ready_matches_def)
  ultimately show "decode_ready_identity ?d app (legacy_worker_socket_path app name) = Some (name, -1)"
    by (simp add: decode_ready_identity_def Let_def)
qed

lemma ready_identity_round_trip_witness:
  "decode_ready_identity [97, 0, 0, 0, 7] ''/h/'' (worker_socket_path ''/h/'' ''a'') = Some (''a'', 7)"
  using ready_identity_round_trip [of "''a''" 7 "''/h/''"]
  by (simp add: ready_payload_def bytes_of_string_def write_u32be_def code_of_def byte_of_char_def)

text \<open>A frame queued for the worker is neither lost, duplicated nor reordered by partial
  writes: what is written and what stays queued are the old queue followed by the frame.\<close>

theorem queued_frame_is_kept:
  assumes "s_master_fd s \<ge> 0" "length d \<le> kMaxWorkerPayload" "worker_queue_frame s t d evs = (s', w)"
  shows "w @ s_worker_tx s' = s_worker_tx s @ worker_frame t d"
  using assms flush_queue_split
  by (auto simp: worker_queue_frame_def split: prod.splits)

lemma queued_frame_is_kept_witness:
  "worker_queue_frame (hosted_session\<lparr>s_worker_tx := [1]\<rparr>) WMSG_INPUT [5] [SwWrote 3, SwAgain]
     = (hosted_session\<lparr>s_worker_tx := [0, 0, 1, 5]\<rparr>, [1, 1, 0]) \<and>
   [1, 1, 0] @ [0, 0, 1, 5] = [1] @ worker_frame WMSG_INPUT [5]"
proof -
  have q: "worker_queue_frame (hosted_session\<lparr>s_worker_tx := [1]\<rparr>) WMSG_INPUT [5] [SwWrote 3, SwAgain]
     = (hosted_session\<lparr>s_worker_tx := [0, 0, 1, 5]\<rparr>, [1, 1, 0])"
    by (simp add: worker_queue_frame_def hosted_session_def new_Session_def kMaxWorkerPayload_def
          worker_frame_def write_u32be_def WMSG_INPUT_def)
  with queued_frame_is_kept [OF _ _ q] show ?thesis
    by (simp add: hosted_session_def new_Session_def kMaxWorkerPayload_def)
qed

end
