(* ===== verification/Session_Io.thy ===== *)
theory Session_Io
  imports Worker_Wire Terminal_Text Text_Guards
begin

text \<open>
  The daemon's end of a session: \<open>write_pty_input\<close> and \<open>drain_pending_pty_input\<close> of
  bs-mesh-transfer.h with their bounded queue, \<open>read_available_pty_output\<close> of bs-cua-dispatch.h
  and, for one session, a pass of \<open>pty_output_poller\<close>. The results of \<open>read\<close>, \<open>write\<close> and
  \<open>waitpid\<close> are inputs.
\<close>

section \<open>Input\<close>

definition kPtyInputHighWater :: nat where "kPtyInputHighWater = 64 * 1024"
definition kPtyInputLowWater :: nat where "kPtyInputLowWater = 16 * 1024"
definition kPtyInputMax :: nat where "kPtyInputMax = 256 * 1024"

lemmas pty_limits = kPtyInputHighWater_def kPtyInputLowWater_def kPtyInputMax_def

text \<open>The loop of writes to a PTY: what is left, what was written, and whether a write failed. An
  interrupted write ends the loop like one that would block.\<close>

fun pty_write :: "bytes \<Rightarrow> sock_write list \<Rightarrow> bytes \<times> bytes \<times> bool" where
  "pty_write [] evs = ([], [], False)"
| "pty_write d [] = (d, [], False)"
| "pty_write d (SwWrote n # evs) =
     (if n = 0 then (d, [], True)
      else case pty_write (drop n d) evs of (r, w, e) \<Rightarrow> (r, take n d @ w, e))"
| "pty_write d (SwIntr # evs) = (d, [], False)"
| "pty_write d (SwAgain # evs) = (d, [], False)"
| "pty_write d (SwError # evs) = (d, [], True)"

text \<open>Bytes go behind the queue, unless that would exceed its maximum.\<close>

definition queue_input :: "Session \<Rightarrow> bytes \<Rightarrow> bool \<times> Session" where
  "queue_input s d =
     (if length (s_pending_input s) + length d > kPtyInputMax then (False, s)
      else
        let q = s_pending_input s @ d in
        (True, s\<lparr>s_pending_input := q,
                 s_input_backpressured := (s_input_backpressured s \<or> length q \<ge> kPtyInputHighWater)\<rparr>))"

definition write_new :: "Session \<Rightarrow> bytes \<Rightarrow> sock_write list \<Rightarrow> bool \<times> Session \<times> bytes" where
  "write_new s d evs =
     (case pty_write d evs of (rest, w, err) \<Rightarrow>
        if err then (False, s\<lparr>s_state := Died\<rparr>, w)
        else if rest = [] then (True, s, w)
        else case queue_input s rest of (ok, s') \<Rightarrow> (ok, s', w))"

text \<open>One write of the queued input before the new one.\<close>

definition write_queued_once :: "Session \<Rightarrow> sock_write list \<Rightarrow> Session \<times> bytes \<times> bool \<times> sock_write list" where
  "write_queued_once s evs =
     (case evs of
        [] \<Rightarrow> (s, [], False, [])
      | SwWrote n # evs' \<Rightarrow>
          (s\<lparr>s_pending_input := drop n (s_pending_input s)\<rparr>, take n (s_pending_input s), False, evs')
      | SwError # evs' \<Rightarrow> (s\<lparr>s_state := Died\<rparr>, [], True, evs')
      | _ # evs' \<Rightarrow> (s, [], False, evs'))"

text \<open>\<open>write_pty_input\<close>: the answer, the session and the bytes that reached the descriptor.\<close>

definition write_hosted_input :: "Session \<Rightarrow> bytes \<Rightarrow> sock_write list \<Rightarrow> bool \<times> Session \<times> bytes" where
  "write_hosted_input s d evs =
     (if s_worker_died s then (False, s\<lparr>s_state := Died\<rparr>, [])
      else if length (s_worker_tx s) + length d + 5 > kPtyInputMax then (False, s, [])
      else case worker_queue_frame s WMSG_INPUT d evs of (s', w) \<Rightarrow>
        (\<not> s_worker_died s',
         s'\<lparr>s_input_backpressured := (length (s_worker_tx s') \<ge> kPtyInputHighWater)\<rparr>, w))"

definition write_pty_input :: "Session \<Rightarrow> bytes \<Rightarrow> sock_write list \<Rightarrow> bool \<times> Session \<times> bytes" where
  "write_pty_input s d evs =
     (if d = [] then (True, s, [])
      else if \<not> is_valid s then (False, s, [])
      else if s_hosted s then write_hosted_input s d evs
      else if s_input_backpressured s \<or> length (s_pending_input s) \<ge> kPtyInputHighWater then
        if length (s_pending_input s) + length d > kPtyInputMax then (False, s, [])
        else (True, s\<lparr>s_pending_input := s_pending_input s @ d, s_input_backpressured := True\<rparr>, [])
      else if s_pending_input s \<noteq> [] then
        case write_queued_once s evs of (s1, w, err, evs1) \<Rightarrow>
          if err then (False, s1, w)
          else if s_pending_input s1 \<noteq> [] then case queue_input s1 d of (ok, s2) \<Rightarrow> (ok, s2, w)
          else case write_new s1 d evs1 of (ok, s2, w2) \<Rightarrow> (ok, s2, w @ w2)
      else write_new s d evs)"

text \<open>\<open>drain_pending_pty_input\<close>. The first loop is that of the socket of a worker, whose writes are
  repeated when interrupted; its last component is a hard error.\<close>

fun drain_worker_tx :: "bytes \<Rightarrow> sock_write list \<Rightarrow> bytes \<times> bytes \<times> bool" where
  "drain_worker_tx [] evs = ([], [], False)"
| "drain_worker_tx tx [] = (tx, [], False)"
| "drain_worker_tx tx (SwWrote n # evs) =
     (if n = 0 then (tx, [], True)
      else case drain_worker_tx (drop n tx) evs of (r, w, e) \<Rightarrow> (r, take n tx @ w, e))"
| "drain_worker_tx tx (SwIntr # evs) = drain_worker_tx tx evs"
| "drain_worker_tx tx (SwAgain # evs) = (tx, [], False)"
| "drain_worker_tx tx (SwError # evs) = (tx, [], True)"

definition drain_pending_pty_input :: "Session \<Rightarrow> sock_write list \<Rightarrow> bool \<times> Session \<times> bytes" where
  "drain_pending_pty_input s evs =
     (if s_hosted s then
        case drain_worker_tx (s_worker_tx s) evs of (tx, w, err) \<Rightarrow>
          let s1 = s\<lparr>s_worker_tx := tx\<rparr> in
          if err then (False, s1, w)
          else
            let s2 = s1\<lparr>s_input_backpressured :=
                          (s_input_backpressured s \<and> \<not> length tx \<le> kPtyInputLowWater)\<rparr> in
            (\<not> s_input_backpressured s2, s2, w)
      else if s_master_fd s < 0 \<or> s_pending_input s = [] then (True, s, [])
      else
        case pty_write (s_pending_input s) evs of (q, w, err) \<Rightarrow>
          let s1 = s\<lparr>s_pending_input := q\<rparr> in
          if err then (False, s1\<lparr>s_state := Died\<rparr>, w)
          else
            let s2 = s1\<lparr>s_input_backpressured :=
                          (s_input_backpressured s \<and> \<not> length q \<le> kPtyInputLowWater)\<rparr> in
            (\<not> s_input_backpressured s2, s2, w))"

text \<open>The part of the event loop that empties the queue of a session: it calls the drain only when
  something is queued and the descriptor is writable.\<close>

definition input_tick :: "Session \<Rightarrow> sock_write list \<Rightarrow> Session \<times> bytes" where
  "input_tick s evs =
     (if s_master_fd s < 0 then (s, [])
      else if s_pending_input s = [] \<and> \<not> (s_hosted s \<and> s_worker_tx s \<noteq> []) then (s, [])
      else case drain_pending_pty_input s evs of (_, s', w) \<Rightarrow> (s', w))"

section \<open>Output\<close>

text \<open>\<open>read_available_pty_output\<close>: reads of at most 16 KiB until 256 KiB are there, the PTY would
  block or a read fails.\<close>

fun read_pty :: "nat \<Rightarrow> sock_read list \<Rightarrow> bytes" where
  "read_pty 0 evs = []"
| "read_pty n [] = []"
| "read_pty n (SrData d # evs) =
     (let b = take (min (16 * 1024) n) d in
      if b = [] then [] else b @ read_pty (n - length b) evs)"
| "read_pty n (SrIntr # evs) = read_pty n evs"
| "read_pty n (ev # evs) = []"

definition read_available_pty_output :: "sock_read list \<Rightarrow> bytes" where
  "read_available_pty_output evs = read_pty (256 * 1024) evs"

datatype exit_status = WIfExited nat | WIfSignaled nat

text \<open>What one pass does for a session: the session afterwards and the messages it fans out, as
  the clipboard text, the output text and the death of the session.\<close>

datatype fanout =
  FanClipboard string
| FanOutput string bool
| FanDied "32 word" "32 word"

definition render_flag :: "string \<Rightarrow> string \<Rightarrow> bool" where
  "render_flag hint d = (if hint = ''markdown'' then True else if hint \<noteq> ''raw'' then looks_like_markdown d 200 else False)"

definition poll_read :: "Session \<Rightarrow> sock_read list \<Rightarrow> int \<Rightarrow> Session \<times> string" where
  "poll_read s evs now =
     (if s_hosted s then
        case pump_hosted_session s evs of (s1, p) \<Rightarrow>
          if hp_scrollback p \<noteq> [] then
            (touch_output now
               (s1\<lparr>s_scrollback := ring_write kDefaultRingBufferSize (string_of_bytes (hp_scrollback p)) (s_scrollback s1)\<rparr>),
             string_of_bytes (hp_output p @ hp_scrollback p))
          else (s1, string_of_bytes (hp_output p))
      else (s, string_of_bytes (read_available_pty_output evs)))"

definition poll_output :: "string \<Rightarrow> Session \<Rightarrow> string \<Rightarrow> int \<Rightarrow> Session \<times> fanout list" where
  "poll_output hint s buf now =
     (if buf = [] then (s, [])
      else
        let osc = scan_osc52 buf in
        (touch_output now (s\<lparr>s_scrollback := ring_write kDefaultRingBufferSize buf (s_scrollback s)\<rparr>),
         (case clipboard_text osc of Some t \<Rightarrow> if t \<noteq> [] then [FanClipboard t] else [] | None \<Rightarrow> []) @
         (if cleaned_text osc \<noteq> [] then [FanOutput (cleaned_text osc) (render_flag hint (cleaned_text osc))] else [])))"

text \<open>The exit check; \<open>wait\<close> is what \<open>waitpid\<close> says of the child. The last component is the entry
  for the history.\<close>

definition poll_exit :: "Session \<Rightarrow> exit_status option \<Rightarrow> Session \<times> fanout list \<times> (32 word) option" where
  "poll_exit s wait =
     (let dead = (\<lambda>s. (release_exited_runtime (s\<lparr>s_child_pid := -1\<rparr>))\<lparr>s_state := Died\<rparr>) in
      if s_hosted s then
        if s_worker_died s then
          let code = (if 0 \<le> sint (s_worker_exit_code s) then s_worker_exit_code s else -1) in
          (dead s, [FanDied code (s_worker_signal_num s)], Some code)
        else (s, [], None)
      else if s_child_pid s > 0 then
        case wait of
          None \<Rightarrow> (s, [], None)
        | Some (WIfExited c) \<Rightarrow> (dead s, [FanDied (word_of_nat c) 0], Some (word_of_nat c))
        | Some (WIfSignaled n) \<Rightarrow> (dead s, [FanDied 0 (word_of_nat n)], Some 0)
      else (s, [], None))"

definition poll_session ::
  "string \<Rightarrow> Session \<Rightarrow> sock_read list \<Rightarrow> exit_status option \<Rightarrow> int \<Rightarrow>
   Session \<times> fanout list \<times> (32 word) option"
where
  "poll_session hint s evs wait now =
     (if \<not> is_pollable s then (s, [], None)
      else
        case poll_read s evs now of (s1, buf) \<Rightarrow>
        case poll_output hint s1 buf now of (s2, fs) \<Rightarrow>
        case poll_exit s2 wait of (s3, gs, h) \<Rightarrow> (s3, fs @ gs, h))"

section \<open>The queue of input\<close>

text \<open>What waits for the descriptor of a session, and the bytes an input becomes there.\<close>

definition input_queue :: "Session \<Rightarrow> bytes" where
  "input_queue s = (if s_hosted s then s_worker_tx s else s_pending_input s)"

definition input_wire :: "Session \<Rightarrow> bytes \<Rightarrow> bytes" where
  "input_wire s d = (if d = [] then [] else if s_hosted s then worker_frame WMSG_INPUT d else d)"

definition queue_ok :: "Session \<Rightarrow> bool" where
  "queue_ok s \<longleftrightarrow> length (input_queue s) \<le> kPtyInputMax \<and>
     (s_input_backpressured s \<longrightarrow> kPtyInputLowWater < length (input_queue s))"

text \<open>Writes that do not fail for good.\<close>

definition healthy :: "sock_write list \<Rightarrow> bool" where
  "healthy evs \<longleftrightarrow> list_all (\<lambda>e. e \<noteq> SwError \<and> e \<noteq> SwWrote 0) evs"

lemma healthy_simps [simp]:
  "healthy []"
  "healthy (e # evs) \<longleftrightarrow> e \<noteq> SwError \<and> e \<noteq> SwWrote 0 \<and> healthy evs"
  by (simp_all add: healthy_def)

lemma pty_write_split: "pty_write d evs = (r, w, e) \<Longrightarrow> w @ r = d"
  by (induction d evs arbitrary: r w e rule: pty_write.induct) (auto split: if_splits prod.splits)

lemma pty_write_healthy: "healthy evs \<Longrightarrow> \<not> snd (snd (pty_write d evs))"
  by (induction d evs rule: pty_write.induct) (auto split: prod.splits)

lemma drain_worker_tx_split: "drain_worker_tx d evs = (r, w, e) \<Longrightarrow> w @ r = d"
  by (induction d evs arbitrary: r w e rule: drain_worker_tx.induct) (auto split: if_splits prod.splits)

lemma drain_worker_tx_healthy: "healthy evs \<Longrightarrow> \<not> snd (snd (drain_worker_tx d evs))"
  by (induction d evs rule: drain_worker_tx.induct) (auto split: prod.splits)

lemma pty_write_length: "pty_write d evs = (r, w, e) \<Longrightarrow> length r \<le> length d"
  using pty_write_split by fastforce

lemma drain_worker_tx_length: "drain_worker_tx d evs = (r, w, e) \<Longrightarrow> length r \<le> length d"
  using drain_worker_tx_split by fastforce

lemma queue_input_ok:
  "queue_input s d = (True, s') \<Longrightarrow> \<not> s_hosted s \<Longrightarrow> queue_ok s \<Longrightarrow>
   s_pending_input s' = s_pending_input s @ d \<and> s_hosted s' = s_hosted s \<and> s_master_fd s' = s_master_fd s \<and>
   queue_ok s'"
  by (auto simp: queue_input_def queue_ok_def input_queue_def pty_limits Let_def split: if_splits)

lemma write_new_ok:
  assumes "write_new s d evs = (True, s', w)" "\<not> s_hosted s" "s_pending_input s = []" "queue_ok s"
  shows "w @ s_pending_input s' = d \<and> s_hosted s' = s_hosted s \<and> s_master_fd s' = s_master_fd s \<and> queue_ok s'"
proof -
  obtain r v e where p: "pty_write d evs = (r, v, e)" by (cases "pty_write d evs") auto
  from pty_write_split [OF p] have split: "v @ r = d" .
  show ?thesis
  proof (cases "r = []")
    case True
    with assms p split show ?thesis by (auto simp: write_new_def split: if_splits)
  next
    case False
    with assms(1) p have q: "queue_input s r = (True, s')" "w = v"
      by (auto simp: write_new_def split: if_splits prod.splits)
    from queue_input_ok [OF q(1) assms(2,4)] assms(3) split q(2) show ?thesis by simp
  qed
qed

text \<open>One accepted input: the bytes keep their order and the queue its bounds.\<close>

lemma write_hosted_input_ok:
  assumes "write_hosted_input s d evs = (True, s', w)" "s_hosted s" "s_master_fd s \<ge> 0" "queue_ok s"
  shows "w @ s_worker_tx s' = s_worker_tx s @ worker_frame WMSG_INPUT d \<and> s_hosted s' \<and>
    s_master_fd s' = s_master_fd s \<and> queue_ok s'"
proof -
  from assms(1) have room: "length (s_worker_tx s) + length d + 5 \<le> kPtyInputMax"
    by (auto simp: write_hosted_input_def not_less split: if_splits)
  then have small: "length d \<le> kMaxWorkerPayload" by (simp add: kPtyInputMax_def kMaxWorkerPayload_def)
  obtain tx v where f: "flush_queue (s_worker_tx s @ worker_frame WMSG_INPUT d) evs = (tx, v)"
    by fastforce
  from flush_queue_split [OF f] have split: "v @ tx = s_worker_tx s @ worker_frame WMSG_INPUT d" .
  from arg_cong [OF this, of length] have "length tx \<le> length (s_worker_tx s) + length d + 5"
    by (simp add: worker_frame_def write_u32be_def)
  with assms room small f split show ?thesis
    by (auto simp: write_hosted_input_def worker_queue_frame_def queue_ok_def input_queue_def pty_limits
        split: if_splits)
qed

lemma write_pty_input_ok:
  assumes ok: "write_pty_input s d evs = (True, s', w)" and "queue_ok s"
  shows "w @ input_queue s' = input_queue s @ input_wire s d \<and> s_hosted s' = s_hosted s \<and>
    s_master_fd s' = s_master_fd s \<and> queue_ok s'"
proof (cases "d = [] \<or> s_hosted s")
  case True
  with ok assms(2) write_hosted_input_ok [of s d evs s' w] show ?thesis
    by (auto simp: write_pty_input_def input_queue_def input_wire_def is_valid_def split: if_splits)
next
  case False
  then have h: "\<not> s_hosted s" "d \<noteq> []" by simp_all
  show ?thesis
  proof (cases "s_input_backpressured s \<or> length (s_pending_input s) \<ge> kPtyInputHighWater")
    case True
    with ok h assms(2) show ?thesis
      by (auto simp: write_pty_input_def queue_ok_def input_queue_def input_wire_def pty_limits
          split: if_splits)
  next
    case False
    then have nb: "\<not> s_input_backpressured s" by simp
    show ?thesis
    proof (cases "s_pending_input s = []")
      case True
      with ok False h have "write_new s d evs = (True, s', w)"
        by (simp add: write_pty_input_def split: if_splits)
      from write_new_ok [OF this h(1) True assms(2)] True h show ?thesis
        by (simp add: input_queue_def input_wire_def)
    next
      case pending: False
      obtain s1 v e evs1 where q: "write_queued_once s evs = (s1, v, e, evs1)"
        by (cases "write_queued_once s evs") auto
      have e: "\<not> e" using ok q False h pending
        by (auto simp: write_pty_input_def split: if_splits)
      have s1: "v @ s_pending_input s1 = s_pending_input s" "\<not> s_hosted s1"
        "s_master_fd s1 = s_master_fd s" "queue_ok s1"
        using q e h(1) nb assms(2)
        by (auto simp: write_queued_once_def queue_ok_def input_queue_def
            split: list.splits sock_write.splits)
      show ?thesis
      proof (cases "s_pending_input s1 = []")
        case True
        then obtain u where u: "write_new s1 d evs1 = (True, s', u)" "w = v @ u"
          using ok q e False h pending
          by (auto simp: write_pty_input_def split: if_splits prod.splits)
        from write_new_ok [OF u(1) s1(2) True s1(4)] u(2) s1 True h show ?thesis
          by (simp add: input_queue_def input_wire_def)
      next
        case left: False
        then have u: "queue_input s1 d = (True, s')" "w = v"
          using ok q e False h pending
          by (auto simp: write_pty_input_def split: if_splits prod.splits)
        from queue_input_ok [OF u(1) s1(2,4)] u(2) s1 h show ?thesis
          by (simp add: input_queue_def input_wire_def)
      qed
    qed
  qed
qed

lemma drain_pending_ok:
  assumes "drain_pending_pty_input s evs = (ok, s', w)" "queue_ok s" "healthy evs"
  shows "w @ input_queue s' = input_queue s \<and> s_hosted s' = s_hosted s \<and>
    s_master_fd s' = s_master_fd s \<and> queue_ok s'"
proof (cases "s_hosted s")
  case True
  obtain tx v e where d: "drain_worker_tx (s_worker_tx s) evs = (tx, v, e)"
    by (cases "drain_worker_tx (s_worker_tx s) evs") auto
  have "\<not> e" using drain_worker_tx_healthy [OF assms(3), of "s_worker_tx s"] d by simp
  with True assms(1,2) d drain_worker_tx_split [OF d] drain_worker_tx_length [OF d] show ?thesis
    by (auto simp: drain_pending_pty_input_def Let_def input_queue_def queue_ok_def)
next
  case False
  obtain q v e where d: "pty_write (s_pending_input s) evs = (q, v, e)"
    by (cases "pty_write (s_pending_input s) evs") auto
  have "\<not> e" using pty_write_healthy [OF assms(3), of "s_pending_input s"] d by simp
  with False assms(1,2) d pty_write_split [OF d] pty_write_length [OF d] show ?thesis
    by (auto simp: drain_pending_pty_input_def Let_def input_queue_def queue_ok_def split: if_splits)
qed

lemma input_tick_ok:
  assumes "input_tick s evs = (s', w)" "queue_ok s" "healthy evs"
  shows "w @ input_queue s' = input_queue s \<and> s_hosted s' = s_hosted s \<and>
    s_master_fd s' = s_master_fd s \<and> queue_ok s'"
  using assms drain_pending_ok [of s evs]
  by (cases "drain_pending_pty_input s evs") (auto simp: input_tick_def split: if_splits)

text \<open>A session between inputs of its peers and turns of the event loop, until an input is
  refused.\<close>

datatype input_event = Input bytes "sock_write list" | Tick "sock_write list"

fun run_input :: "Session \<Rightarrow> input_event list \<Rightarrow> (Session \<times> bytes \<times> bytes) option" where
  "run_input s [] = Some (s, [], [])"
| "run_input s (Input d evs # xs) =
     (case write_pty_input s d evs of
        (False, _, _) \<Rightarrow> None
      | (True, s1, w) \<Rightarrow>
          map_option (\<lambda>(s2, v, a). (s2, w @ v, input_wire s d @ a)) (run_input s1 xs))"
| "run_input s (Tick evs # xs) =
     (case input_tick s evs of (s1, w) \<Rightarrow>
        map_option (\<lambda>(s2, v, a). (s2, w @ v, a)) (run_input s1 xs))"

definition healthy_event :: "input_event \<Rightarrow> bool" where
  "healthy_event x = (case x of Input d evs \<Rightarrow> True | Tick evs \<Rightarrow> healthy evs)"

lemma run_input_ok:
  assumes "run_input s xs = Some (s', w, a)" "queue_ok s" "list_all healthy_event xs"
  shows "w @ input_queue s' = input_queue s @ a \<and> queue_ok s' \<and> s_hosted s' = s_hosted s \<and>
    s_master_fd s' = s_master_fd s"
  using assms
proof (induction xs arbitrary: s w a)
  case (Cons x xs)
  show ?case
  proof (cases x)
    case (Input d evs)
    with Cons.prems(1) obtain s1 w1 w2 a2 where
      step: "write_pty_input s d evs = (True, s1, w1)" "run_input s1 xs = Some (s', w2, a2)"
        "w = w1 @ w2" "a = input_wire s d @ a2"
      by (auto split: prod.splits bool.splits)
    from write_pty_input_ok [OF step(1) Cons.prems(2)]
      have s1: "w1 @ input_queue s1 = input_queue s @ input_wire s d" "queue_ok s1"
        "s_hosted s1 = s_hosted s" "s_master_fd s1 = s_master_fd s" by simp_all
    from Cons.IH [OF step(2) s1(2)] Cons.prems(3)
      have "w2 @ input_queue s' = input_queue s1 @ a2" "queue_ok s'"
        "s_hosted s' = s_hosted s1" "s_master_fd s' = s_master_fd s1" by simp_all
    with s1 step(3,4) show ?thesis by (metis append.assoc)
  next
    case (Tick evs)
    with Cons.prems(1) obtain s1 w1 w2 where
      step: "input_tick s evs = (s1, w1)" "run_input s1 xs = Some (s', w2, a)" "w = w1 @ w2"
      by (auto split: prod.splits)
    from Cons.prems(3) Tick have "healthy evs" by (simp add: healthy_event_def)
    from input_tick_ok [OF step(1) Cons.prems(2) this]
      have s1: "w1 @ input_queue s1 = input_queue s" "queue_ok s1"
        "s_hosted s1 = s_hosted s" "s_master_fd s1 = s_master_fd s" by simp_all
    from Cons.IH [OF step(2) s1(2)] Cons.prems(3)
      have "w2 @ input_queue s' = input_queue s1 @ a" "queue_ok s'"
        "s_hosted s' = s_hosted s1" "s_master_fd s' = s_master_fd s1" by simp_all
    with s1 step(3) show ?thesis by (metis append.assoc)
  qed
qed simp

lemma full_write:
  "length d \<le> n \<Longrightarrow> 0 < n \<Longrightarrow> pty_write d [SwWrote n] = ([], d, False)"
  "length d \<le> n \<Longrightarrow> 0 < n \<Longrightarrow> drain_worker_tx d [SwWrote n] = ([], d, False)"
  by (cases d; simp)+

lemma full_tick:
  assumes "queue_ok s" "s_master_fd s \<ge> 0" "length (input_queue s) \<le> n" "0 < n"
    and "s_input_backpressured s"
  shows "fst (input_tick s [SwWrote n]) = (if s_hosted s then s\<lparr>s_worker_tx := [], s_input_backpressured := False\<rparr>
       else s\<lparr>s_pending_input := [], s_input_backpressured := False\<rparr>)"
  using assms
  by (auto simp: input_tick_def drain_pending_pty_input_def Let_def full_write queue_ok_def input_queue_def)

lemma worker_frame_not_Nil [simp]: "worker_frame t d \<noteq> []"
  by (simp add: worker_frame_def)

lemma poll_exit_scrollback: "s_scrollback (fst (poll_exit s wait)) = s_scrollback s"
  by (auto simp: poll_exit_def Let_def release_exited_runtime_def split: option.splits exit_status.splits)

lemma touch_output_simps [simp]:
  "s_scrollback (touch_output now s) = s_scrollback s"
  "s_hosted (touch_output now s) = s_hosted s"
  by (simp_all add: touch_output_def)

lemma pump_frames_scrollback: "s_scrollback (fst (foldl pump_frame st ms)) = s_scrollback (fst st)"
proof (induction ms arbitrary: st)
  case (Cons m ms)
  have "s_scrollback (fst (pump_frame st m)) = s_scrollback (fst st)"
    by (auto simp: pump_frame_def split: prod.splits)
  with Cons show ?case by simp
qed simp

lemma pump_scrollback: "s_scrollback (fst (pump_hosted_session s evs)) = s_scrollback s"
  using pump_frames_scrollback
  by (fastforce simp: pump_hosted_session_def Let_def split: prod.splits dest: arg_cong [of _ _ fst])

lemma poll_session_scrollback:
  "is_pollable s \<Longrightarrow> s_scrollback (fst (poll_session hint s evs wait now))
     = s_scrollback (fst (poll_output hint (fst (poll_read s evs now)) (snd (poll_read s evs now)) now))"
  by (simp add: poll_session_def split_beta poll_exit_scrollback)

section \<open>Properties\<close>

text \<open>C9. Over any sequence of accepted inputs, partial writes and turns of the event loop the bytes
  that reached the descriptor and the queue are, in order and without loss, the old queue and the
  inputs, framed for a hosted session; the queue never exceeds its maximum.\<close>

theorem pty_input_is_in_order:
  assumes "run_input s xs = Some (s', w, a)" "queue_ok s" "list_all healthy_event xs"
  shows "w @ input_queue s' = input_queue s @ a \<and> length (input_queue s') \<le> kPtyInputMax"
  using run_input_ok [OF assms] by (simp add: queue_ok_def)

lemma pty_input_is_in_order_witness:
  "run_input hosted_session [Input [5] [SwWrote 2, SwIntr, SwAgain], Tick [SwWrote 9]]
     = Some (hosted_session, [1, 0, 0, 0, 1, 5], [1, 0, 0, 0, 1, 5]) \<and>
   [1, 0, 0, 0, 1, 5] @ input_queue hosted_session
     = input_queue hosted_session @ [1, 0, 0, 0, 1, 5]"
proof -
  note defs = hosted_session_def new_Session_def
  have run: "run_input hosted_session [Input [5] [SwWrote 2, SwIntr, SwAgain], Tick [SwWrote 9]]
     = Some (hosted_session, [1, 0, 0, 0, 1, 5], [1, 0, 0, 0, 1, 5])"
    by (simp add: defs write_pty_input_def write_hosted_input_def is_valid_def pty_limits worker_queue_frame_def
        kMaxWorkerPayload_def worker_frame_def write_u32be_def WMSG_INPUT_def input_tick_def
        drain_pending_pty_input_def Let_def input_wire_def)
  moreover have "queue_ok hosted_session" by (simp add: defs queue_ok_def input_queue_def pty_limits)
  ultimately show ?thesis
    using pty_input_is_in_order [OF run] by (simp add: healthy_event_def)
qed

text \<open>Backpressure ends: after any such sequence a session that holds its peers back has input
  queued, so the event loop drains it, and the first turn whose write takes the queue lets the peers
  in again.\<close>

theorem backpressure_is_released:
  assumes "run_input s xs = Some (s', w, a)" "queue_ok s" "list_all healthy_event xs"
    and "s_master_fd s \<ge> 0" "s_input_backpressured s'" "length (input_queue s') \<le> n"
  shows "input_queue s' \<noteq> [] \<and> \<not> s_input_backpressured (fst (input_tick s' [SwWrote n]))"
proof -
  from run_input_ok [OF assms(1-3)] assms(4)
  have ok: "queue_ok s'" "s_master_fd s' \<ge> 0" by simp_all
  then have ne: "input_queue s' \<noteq> []" using assms(5) by (auto simp: queue_ok_def)
  then have "0 < n" using assms(6) by (cases n) auto
  with full_tick [OF ok assms(6) _ assms(5)] ne show ?thesis by simp
qed

lemma backpressure_is_released_witness:
  defines "s \<equiv> hosted_session\<lparr>s_worker_tx := replicate 20000 1, s_input_backpressured := True\<rparr>"
  shows "\<not> s_input_backpressured (fst (input_tick s [SwWrote 20000]))"
proof -
  have q: "input_queue s = replicate 20000 1" by (simp add: s_def hosted_session_def input_queue_def)
  then have "queue_ok s"
    by (simp only: queue_ok_def q length_replicate) (simp add: s_def hosted_session_def new_Session_def pty_limits)
  with backpressure_is_released [of s "[]" s "[]" "[]" 20000] q show ?thesis
    by (simp add: s_def hosted_session_def new_Session_def)
qed

text \<open>A frame that is not input breaks this: when a change of geometry queues its frame on a
  hosted session that holds its peers back and the socket takes the whole queue, the session holds
  them back for ever, because the event loop only drains a queue that is not empty.\<close>

theorem resize_strands_backpressure:
  assumes "s_hosted s" "s_master_fd s \<ge> 0" "s_pending_input s = []" "s_input_backpressured s"
    and "length p \<le> kMaxWorkerPayload" "length (s_worker_tx s) + 5 + length p \<le> n"
    and "worker_queue_frame s WMSG_RESIZE p [SwWrote n] = (s', w)"
  shows "s_input_backpressured s' \<and> (\<forall>evs. input_tick s' evs = (s', []))"
proof -
  have full: "flush_queue d [SwWrote k] = ([], d)" if "length d \<le> k" "d \<noteq> []" for d k
    using that by (cases d) auto
  have "flush_queue (s_worker_tx s @ worker_frame WMSG_RESIZE p) [SwWrote n]
    = ([], s_worker_tx s @ worker_frame WMSG_RESIZE p)"
    using assms(6) by (intro full) (simp_all add: worker_frame_def write_u32be_def)
  with assms show ?thesis
    by (auto simp: worker_queue_frame_def input_tick_def)
qed

lemma resize_strands_backpressure_witness:
  "\<exists>s'. worker_queue_frame (hosted_session\<lparr>s_worker_tx := [7], s_input_backpressured := True\<rparr>)
      WMSG_RESIZE [0, 80, 0, 24] [SwWrote 10] = (s', [7, 2, 0, 0, 0, 4, 0, 80, 0, 24]) \<and>
    s_input_backpressured s' \<and> (\<forall>evs. input_tick s' evs = (s', []))"
proof -
  let ?s = "hosted_session\<lparr>s_worker_tx := [7], s_input_backpressured := True\<rparr>"
  let ?s' = "hosted_session\<lparr>s_worker_tx := [], s_input_backpressured := True\<rparr>"
  have "worker_queue_frame ?s WMSG_RESIZE [0, 80, 0, 24] [SwWrote 10] = (?s', [7, 2, 0, 0, 0, 4, 0, 80, 0, 24])"
    by (simp add: worker_queue_frame_def hosted_session_def new_Session_def kMaxWorkerPayload_def
        worker_frame_def write_u32be_def WMSG_RESIZE_def)
  with resize_strands_backpressure [OF _ _ _ _ _ _ this] show ?thesis
    by (simp add: hosted_session_def new_Session_def kMaxWorkerPayload_def)
qed

text \<open>A pass of the poller stores the scrollback that a worker replays twice, before and after
  the fresh output, and shows it to the attached peers after the output that follows it.\<close>

theorem replayed_scrollback_is_stored_twice:
  assumes "is_pollable s" "s_hosted s" "pump_hosted_session s evs = (s1, p)" "hp_scrollback p \<noteq> []"
    and "holds kDefaultRingBufferSize (s_scrollback s) st"
  defines "b \<equiv> string_of_bytes (hp_scrollback p)"
  defines "o1 \<equiv> string_of_bytes (hp_output p)"
  assumes "length (st @ b @ o1 @ b) < 2 ^ 64"
  shows "holds kDefaultRingBufferSize (s_scrollback (fst (poll_session hint s evs wait now))) (st @ b @ o1 @ b) \<and>
    snd (poll_read s evs now) = o1 @ b"
proof -
  have cap: "capacity_ok kDefaultRingBufferSize"
    by (auto simp: capacity_ok_def kDefaultRingBufferSize_def intro: exI [of _ 20])
  have app: "string_of_bytes (x @ y) = string_of_bytes x @ string_of_bytes y" for x y
    by (simp add: string_of_bytes_def)
  have same: "s_scrollback s1 = s_scrollback s" using pump_scrollback [of s evs] assms(3) by simp
  have ne: "b \<noteq> []" using assms(4) by (simp add: b_def string_of_bytes_def)
  let ?s2 = "touch_output now (s1\<lparr>s_scrollback := ring_write kDefaultRingBufferSize b (s_scrollback s1)\<rparr>)"
  have read: "poll_read s evs now = (?s2, o1 @ b)"
    using assms(2,3,4) by (simp add: poll_read_def app b_def o1_def)
  have h1: "holds kDefaultRingBufferSize (s_scrollback ?s2) (st @ b)"
    using holds_write [OF cap assms(5), of b] same assms(8) by simp
  have h2: "holds kDefaultRingBufferSize (ring_write kDefaultRingBufferSize (o1 @ b) (s_scrollback ?s2)) ((st @ b) @ o1 @ b)"
    using assms(8) by (intro holds_write [OF cap h1]) simp
  have "s_scrollback (fst (poll_output hint ?s2 (o1 @ b) now))
    = ring_write kDefaultRingBufferSize (o1 @ b) (s_scrollback ?s2)"
    using ne by (simp add: poll_output_def Let_def)
  then have "s_scrollback (fst (poll_session hint s evs wait now))
    = ring_write kDefaultRingBufferSize (o1 @ b) (s_scrollback ?s2)"
    by (simp only: poll_session_scrollback [OF assms(1)] read fst_conv snd_conv)
  with h2 read show ?thesis by simp
qed

lemma replayed_scrollback_is_stored_twice_witness:
  defines "s \<equiv> hosted_session\<lparr>s_child_pid := 9\<rparr>"
  shows "\<exists>s1. pump_hosted_session s [SrData (worker_frame 0x82 [65] @ worker_frame 0x81 [66])] =
      (s1, \<lparr>hp_output = [66], hp_scrollback = [65]\<rparr>) \<and>
    holds kDefaultRingBufferSize
      (s_scrollback (fst (poll_session [] s [SrData (worker_frame 0x82 [65] @ worker_frame 0x81 [66])] None 0))) ''ABA''"
proof -
  let ?evs = "[SrData (worker_frame 0x82 [65] @ worker_frame 0x81 [66])]"
  have nil: "parse_worker_frames [] = ([], [], False)" by (simp add: parse_worker_frames.simps)
  have l: "length [65 :: byte] \<le> kMaxWorkerPayload" "length [66 :: byte] \<le> kMaxWorkerPayload"
    by (simp_all add: kMaxWorkerPayload_def)
  have parse: "parse_worker_frames (worker_frame 0x82 [65] @ worker_frame 0x81 [66]) = ([(0x82, [65]), (0x81, [66])], [], False)"
    using parse_frame_front [OF l(1), where t = "0x82" and r = "worker_frame 0x81 [66]"] parse_frame_front [OF l(2), where t = "0x81" and r = "[]"] nil
    by simp
  have pump: "pump_hosted_session s ?evs = (s, \<lparr>hp_output = [66], hp_scrollback = [65]\<rparr>)"
    using parse
    by (simp add: pump_hosted_session_def s_def hosted_session_def new_Session_def pump_frame_def wmsg_defs)
  have "is_pollable s" "s_hosted s" "s_scrollback s = ring_new kDefaultRingBufferSize"
    by (simp_all add: s_def hosted_session_def new_Session_def is_pollable_def)
  moreover have "char_of (65 :: nat) = CHR ''A''" "char_of (66 :: nat) = CHR ''B''" by code_simp+
  ultimately show ?thesis
    using pump replayed_scrollback_is_stored_twice [OF _ _ pump, where st = "[]" and hint = "[]" and wait = None and now = 0]
    by (simp add: holds_new string_of_bytes_def char_of_byte_def)
qed

text \<open>A child of the daemon that a signal kills is recorded in the history with exit code 0,
  and its peers are told exit code 0 with the signal.\<close>

theorem signaled_child_is_recorded_as_success:
  assumes "is_pollable s" "\<not> s_hosted s" "poll_session hint s evs (Some (WIfSignaled n)) now = (s', fs, h)"
  shows "h = Some 0 \<and> last fs = FanDied 0 (word_of_nat n) \<and> s_state s' = Died"
proof -
  obtain s1 b where r: "poll_read s evs now = (s1, b)" by fastforce
  then have s1: "s1 = s" using assms(2) by (simp add: poll_read_def)
  obtain s2 gs where w: "poll_output hint s1 b now = (s2, gs)" by fastforce
  then have "\<not> s_hosted s2" "s_child_pid s2 = s_child_pid s"
    using assms(2) s1 by (auto simp: poll_output_def touch_output_def Let_def split: if_splits)
  with assms(1,3) r w show ?thesis
    by (auto simp: poll_session_def poll_exit_def is_pollable_def Let_def)
qed

lemma signaled_child_is_recorded_as_success_witness:
  "snd (snd (poll_session [] ((new_Session 0 0)\<lparr>s_master_fd := 5, s_child_pid := 9\<rparr>) []
      (Some (WIfSignaled 11)) 0)) = Some 0"
proof -
  let ?s = "(new_Session 0 0)\<lparr>s_master_fd := 5, s_child_pid := 9\<rparr>"
  obtain s' fs h where p: "poll_session [] ?s [] (Some (WIfSignaled 11)) 0 = (s', fs, h)"
    by (cases "poll_session [] ?s [] (Some (WIfSignaled 11)) 0") auto
  with signaled_child_is_recorded_as_success [OF _ _ p] show ?thesis
    by (simp add: is_pollable_def new_Session_def)
qed

end
