(* ===== verification/Session_Worker.thy ===== *)
theory Session_Worker
  imports Session_Io
begin

text \<open>
  The event loop of the session worker, \<open>run_session_worker_posix\<close> in bs-session-worker.h: the
  process that owns the terminal of a hosted session and serves the daemons that connect to its
  socket. What \<open>poll\<close>, \<open>read\<close>, \<open>write\<close>, \<open>accept\<close> and \<open>waitpid\<close> answer is the
  input of a pass of the loop; what is written to the terminal and to the clients is its output.
\<close>

section \<open>State\<close>

definition kPendingPtyInputCap :: nat where "kPendingPtyInputCap = 1024 * 1024"
definition kClientRxCap :: nat where "kClientRxCap = 16 * 1024 * 1024 + 5"
definition kClientTxCap :: nat where "kClientTxCap = 4 * 1024 * 1024"
definition kCompact :: nat where "kCompact = 64 * 1024"

record WorkerClient =
  wc_fd :: int
  wc_rx :: bytes
  wc_tx :: bytes
  wc_tx_off :: nat

record worker =
  wk_session_name :: string
  wk_child_pid :: int
  wk_pending :: bytes
  wk_pending_off :: nat
  wk_scrollback :: ring
  wk_clients :: "WorkerClient list"
  wk_exit_code :: u32
  wk_signal_num :: u32
  wk_child_died :: bool
  wk_ever_connected :: bool
  wk_died_at :: int

section \<open>Writing\<close>

text \<open>The loop of writes to a non-blocking descriptor: whether it ended without a hard error, the
  bytes written and the answers left. A write of nothing counts as an error.\<close>

fun sock_write_loop :: "bytes \<Rightarrow> sock_write list \<Rightarrow> bool \<times> bytes \<times> sock_write list" where
  "sock_write_loop [] evs = (True, [], evs)"
| "sock_write_loop d [] = (True, [], [])"
| "sock_write_loop d (SwWrote n # evs) =
     (if n = 0 then (False, [], evs)
      else case sock_write_loop (drop n d) evs of (ok, w, rest) \<Rightarrow> (ok, take n d @ w, rest))"
| "sock_write_loop d (SwIntr # evs) = sock_write_loop d evs"
| "sock_write_loop d (SwAgain # evs) = (True, [], evs)"
| "sock_write_loop d (SwError # evs) = (False, [], evs)"

text \<open>The consumed prefix of a queue is dropped when everything is written or it has grown.\<close>

definition compact :: "bytes \<Rightarrow> nat \<Rightarrow> bytes \<times> nat" where
  "compact q off = (if off = length q then ([], 0) else if off \<ge> kCompact then (drop off q, 0) else (q, off))"

text \<open>\<open>drain_pending_pty_input\<close>: an error drops the input.\<close>

definition drain_pty_input :: "bytes \<Rightarrow> nat \<Rightarrow> sock_write list \<Rightarrow> (bytes \<times> nat) \<times> bytes \<times> sock_write list" where
  "drain_pty_input q off evs =
     (case sock_write_loop (drop off q) evs of (ok, w, rest) \<Rightarrow>
        (if ok then compact q (off + length w) else ([], 0), w, rest))"

definition queue_to_client :: "WorkerClient \<Rightarrow> byte \<Rightarrow> bytes \<Rightarrow> bool \<times> WorkerClient" where
  "queue_to_client c t d =
     (if wc_fd c < 0 then (False, c)
      else if length (wc_tx c) - wc_tx_off c + 5 + length d > kClientTxCap then (False, c)
      else (True, c\<lparr>wc_tx := wc_tx c @ worker_frame t d\<rparr>))"

definition flush_client :: "WorkerClient \<Rightarrow> sock_write list \<Rightarrow> bool \<times> WorkerClient \<times> bytes \<times> sock_write list" where
  "flush_client c evs =
     (case sock_write_loop (drop (wc_tx_off c) (wc_tx c)) evs of (ok, w, rest) \<Rightarrow>
        if \<not> ok then (False, c\<lparr>wc_tx_off := wc_tx_off c + length w\<rparr>, w, rest)
        else (case compact (wc_tx c) (wc_tx_off c + length w) of
                (q, off) \<Rightarrow> (True, c\<lparr>wc_tx := q, wc_tx_off := off\<rparr>, w, rest)))"

section \<open>Accepting a client\<close>

definition died_payload :: "worker \<Rightarrow> bytes" where
  "died_payload W = write_u32be (wk_exit_code W) @ write_u32be (wk_signal_num W)"

text \<open>The greeting: READY, the scrollback when there is some, and the death of the child when it has
  happened. The first component says whether everything found room in the queue.\<close>

definition greet :: "worker \<Rightarrow> WorkerClient \<Rightarrow> bool \<times> WorkerClient" where
  "greet W c =
     (case queue_to_client c WMSG_READY (ready_payload (wk_session_name W) (word_of_int (wk_child_pid W))) of (q1, c1) \<Rightarrow>
      let sb = bytes_of_string (read_last_lines kDefaultRingBufferSize 8192 (wk_scrollback W)) in
      case (if q1 \<and> sb \<noteq> [] then queue_to_client c1 WMSG_SCROLLBACK sb else (q1, c1)) of (q2, c2) \<Rightarrow>
      if q2 \<and> wk_child_died W then queue_to_client c2 WMSG_DIED (died_payload W) else (q2, c2))"

text \<open>\<open>accept\<close> gave a descriptor; \<open>nonblock\<close> says whether it became non-blocking. The second
  component is what was written to the client.\<close>

definition accept_client :: "int \<Rightarrow> bool \<Rightarrow> sock_write list \<Rightarrow> worker \<Rightarrow> worker \<times> bytes" where
  "accept_client fd nonblock evs W =
     (let W1 = W\<lparr>wk_ever_connected := True\<rparr> in
      if \<not> nonblock then (W1, [])
      else case greet W \<lparr>wc_fd = fd, wc_rx = [], wc_tx = [], wc_tx_off = 0\<rparr> of (queued, c) \<Rightarrow>
        if \<not> queued then (W1, [])
        else case flush_client c evs of (ok, c1, w, _) \<Rightarrow>
          (if ok then W1\<lparr>wk_clients := wk_clients W @ [c1]\<rparr> else W1, w))"

section \<open>Output of the terminal\<close>

text \<open>A read of the terminal goes to the scrollback and to every client; a client whose queue has no
  room is dropped.\<close>

fun fan_output :: "bytes \<Rightarrow> WorkerClient list \<Rightarrow> WorkerClient list" where
  "fan_output d [] = []"
| "fan_output d (c # cs) =
     (case queue_to_client c WMSG_OUTPUT d of (ok, c1) \<Rightarrow> if ok then c1 # fan_output d cs else fan_output d cs)"

definition scroll :: "bytes \<Rightarrow> worker \<Rightarrow> worker" where
  "scroll d W = W\<lparr>wk_scrollback := ring_write kDefaultRingBufferSize (string_of_bytes d) (wk_scrollback W)\<rparr>"

definition pty_output :: "bytes \<Rightarrow> worker \<Rightarrow> worker" where
  "pty_output d W =
     (if d = [] then W
      else (scroll d W)\<lparr>wk_clients := fan_output d (wk_clients W)\<rparr>)"

section \<open>Serving a client\<close>

text \<open>The state while the frames of one client are handled: the input queue, the client, whether it
  is to be dropped and whether the worker is to end, what was written to the terminal and to the
  client, the resizes, and the answers left of the writes to either.\<close>

record serving =
  sv_pending :: bytes
  sv_pending_off :: nat
  sv_client :: WorkerClient
  sv_drop :: bool
  sv_shutdown :: bool
  sv_pty :: bytes
  sv_out :: bytes
  sv_resizes :: "(u16 \<times> u16) list"
  sv_pty_evs :: "sock_write list"
  sv_client_evs :: "sock_write list"

definition serve_input :: "bytes \<Rightarrow> serving \<Rightarrow> serving" where
  "serve_input d v =
     (if d = [] then v
      else
        let waiting = length (sv_pending v) - sv_pending_off v in
        if length d > kPendingPtyInputCap - min waiting kPendingPtyInputCap then v\<lparr>sv_drop := True\<rparr>
        else case drain_pty_input (drop (sv_pending_off v) (sv_pending v) @ d) 0 (sv_pty_evs v) of
          ((q, off), w, evs) \<Rightarrow>
            v\<lparr>sv_pending := q, sv_pending_off := off, sv_pty := sv_pty v @ w, sv_pty_evs := evs\<rparr>)"

definition serve_resize :: "bytes \<Rightarrow> serving \<Rightarrow> serving" where
  "serve_resize d v =
     (if length d \<ge> 4
      then v\<lparr>sv_resizes := sv_resizes v @ [(read_u16 (d ! 0) (d ! 1), read_u16 (d ! 2) (d ! 3))]\<rparr>
      else v)"

definition serve_ping :: "serving \<Rightarrow> serving" where
  "serve_ping v =
     (case queue_to_client (sv_client v) WMSG_PONG [] of (ok, c) \<Rightarrow>
        if \<not> ok then v\<lparr>sv_drop := True\<rparr>
        else case flush_client c (sv_client_evs v) of (_, c1, w, evs) \<Rightarrow>
          v\<lparr>sv_client := c1, sv_out := sv_out v @ w, sv_client_evs := evs\<rparr>)"

definition serve_frame :: "byte \<times> bytes \<Rightarrow> serving \<Rightarrow> serving" where
  "serve_frame m v =
     (case m of (t, d) \<Rightarrow>
        if t = WMSG_INPUT then serve_input d v
        else if t = WMSG_RESIZE then serve_resize d v
        else if t = WMSG_DETACH then v\<lparr>sv_drop := True\<rparr>
        else if t = WMSG_PING then serve_ping v
        else if t = WMSG_SHUTDOWN then v\<lparr>sv_shutdown := True\<rparr>
        else v)"

text \<open>The frames in what a client has sent; those after SHUTDOWN are not looked at.\<close>

function serve_frames :: "bytes \<Rightarrow> serving \<Rightarrow> bytes \<times> serving" where
  "serve_frames buf v =
     (if length buf < 5 then (buf, v)
      else
        let len = unat (read_u32be (buf ! 1) (buf ! 2) (buf ! 3) (buf ! 4)) in
        if len > kMaxWorkerPayload then (buf, v\<lparr>sv_drop := True\<rparr>)
        else if length buf < 5 + len then (buf, v)
        else
          let v1 = serve_frame (hd buf, take len (drop 5 buf)) v in
          if sv_shutdown v1 then (buf, v1) else serve_frames (drop (5 + len) buf) v1)"
  by pat_completeness auto
termination by (relation "measure (\<lambda>(buf, _). length buf)") auto

declare serve_frames.simps [simp del]

text \<open>What \<open>poll\<close> and the calls answer for a client.\<close>

record client_ready =
  cr_pollout :: bool
  cr_flush :: "sock_write list"
  cr_pollin :: bool
  cr_reads :: "sock_read list"
  cr_pongs :: "sock_write list"
  cr_pty :: "sock_write list"

definition serve_client :: "client_ready \<Rightarrow> bytes \<Rightarrow> nat \<Rightarrow> WorkerClient \<Rightarrow> serving" where
  "serve_client r q off c =
     (case (if cr_pollout r then flush_client c (cr_flush r) else (True, c, [], [])) of (ok, c0, w, _) \<Rightarrow>
        let v0 = \<lparr>sv_pending = q, sv_pending_off = off, sv_client = c0, sv_drop = \<not> ok, sv_shutdown = False, sv_pty = [],
                  sv_out = w, sv_resizes = [], sv_pty_evs = cr_pty r, sv_client_evs = cr_pongs r\<rparr> in
        if \<not> ok \<or> \<not> cr_pollin r then v0
        else
          case drain_socket (cr_reads r) of (b, ended) \<Rightarrow>
          case serve_frames (wc_rx c0 @ b) (v0\<lparr>sv_drop := ended \<or> length (wc_rx c0 @ b) > kClientRxCap\<rparr>) of (rest, v) \<Rightarrow>
            v\<lparr>sv_client := (sv_client v)\<lparr>wc_rx := rest\<rparr>\<rparr>)"

datatype worker_out =
  ToPty bytes
| ToClient int bytes
| ResizePty u16 u16
| KillGroup int int

definition serving_outs :: "serving \<Rightarrow> worker_out list" where
  "serving_outs v =
     [ToPty (sv_pty v), ToClient (wc_fd (sv_client v)) (sv_out v)] @ map (\<lambda>(c, r). ResizePty c r) (sv_resizes v)"

text \<open>All clients in turn: the clients kept, the input queue, whether the worker is to end, and the
  output.\<close>

fun serve_clients ::
  "(int \<Rightarrow> client_ready) \<Rightarrow> WorkerClient list \<Rightarrow> bytes \<Rightarrow> nat \<Rightarrow>
   WorkerClient list \<times> bytes \<times> nat \<times> bool \<times> worker_out list"
where
  "serve_clients rd [] q off = ([], q, off, False, [])"
| "serve_clients rd (c # cs) q off =
     (if wc_fd c < 0 then
        case serve_clients rd cs q off of (cs', q', off', stop, outs) \<Rightarrow> (c # cs', q', off', stop, outs)
      else
        let v = serve_client (rd (wc_fd c)) q off c in
        if sv_shutdown v then (sv_client v # cs, sv_pending v, sv_pending_off v, True, serving_outs v)
        else
          case serve_clients rd cs (sv_pending v) (sv_pending_off v) of (cs', q', off', stop, outs) \<Rightarrow>
            (if sv_drop v then cs' else sv_client v # cs', q', off', stop, serving_outs v @ outs))"

section \<open>The end of the child\<close>

text \<open>Passes that write what the queues hold until they are empty. A client that fails is closed.\<close>

definition flush_open :: "sock_write list \<Rightarrow> WorkerClient \<Rightarrow> WorkerClient \<times> bytes" where
  "flush_open evs c =
     (if wc_fd c < 0 then (c, [])
      else case flush_client c evs of (ok, c1, w, _) \<Rightarrow> (if ok then c1 else c1\<lparr>wc_fd := -1\<rparr>, w))"

definition unsent_tx :: "WorkerClient \<Rightarrow> bytes" where
  "unsent_tx c = drop (wc_tx_off c) (wc_tx c)"

definition flush_pass :: "(int \<Rightarrow> sock_write list) \<Rightarrow> WorkerClient list \<Rightarrow> WorkerClient list \<times> worker_out list" where
  "flush_pass answers cs =
     (map (\<lambda>c. fst (flush_open (answers (wc_fd c)) c)) cs,
      map (\<lambda>c. ToClient (wc_fd c) (snd (flush_open (answers (wc_fd c)) c))) cs)"

fun flush_passes :: "(int \<Rightarrow> sock_write list) list \<Rightarrow> WorkerClient list \<Rightarrow> WorkerClient list \<times> worker_out list" where
  "flush_passes [] cs = (cs, [])"
| "flush_passes (a # as) cs =
     (case flush_pass a cs of (cs1, outs) \<Rightarrow>
        if list_all (\<lambda>c. wc_fd c < 0 \<or> unsent_tx c = []) cs1 then (cs1, outs)
        else case flush_passes as cs1 of (cs2, outs2) \<Rightarrow> (cs2, outs @ outs2))"

text \<open>The last reads of the terminal end at the first that gives nothing.\<close>

fun last_output :: "sock_read list \<Rightarrow> bytes list" where
  "last_output (SrData d # evs) = (if d = [] then [] else d # last_output evs)"
| "last_output _ = []"

definition queue_quietly :: "byte \<Rightarrow> bytes \<Rightarrow> WorkerClient list \<Rightarrow> WorkerClient list" where
  "queue_quietly t d cs = map (\<lambda>c. snd (queue_to_client c t d)) cs"

definition final_output :: "bytes \<Rightarrow> worker \<Rightarrow> worker" where
  "final_output d W = (scroll d W)\<lparr>wk_clients := queue_quietly WMSG_OUTPUT d (wk_clients W)\<rparr>"

definition child_ended ::
  "exit_status \<Rightarrow> int \<Rightarrow> sock_read list \<Rightarrow> (int \<Rightarrow> sock_write list) list \<Rightarrow> worker \<Rightarrow> worker \<times> worker_out list"
where
  "child_ended st now reads answers W =
     (let W1 = (case st of
                  WIfExited c \<Rightarrow> W\<lparr>wk_exit_code := word_of_nat c, wk_signal_num := 0\<rparr>
                | WIfSignaled n \<Rightarrow> W\<lparr>wk_exit_code := word_of_nat (128 + n), wk_signal_num := word_of_nat n\<rparr>);
          W2 = W1\<lparr>wk_child_died := True, wk_died_at := now\<rparr>;
          W3 = foldl (\<lambda>W d. final_output d W) W2 (last_output reads) in
      case flush_passes (take 20 answers) (queue_quietly WMSG_DIED (died_payload W3) (wk_clients W3)) of
        (cs, outs) \<Rightarrow> (W3\<lparr>wk_clients := cs\<rparr>, outs))"

section \<open>The loop\<close>

record worker_pass_in =
  wp_now :: int
  wp_stop :: bool
  wp_pty_writable :: "sock_write list option"
  wp_accept :: "(int \<times> bool \<times> sock_write list) option"
  wp_pty_read :: bytes
  wp_clients :: "int \<Rightarrow> client_ready"
  wp_wait :: "exit_status option"
  wp_last_reads :: "sock_read list"
  wp_answers :: "(int \<Rightarrow> sock_write list) list"

definition not_ready :: client_ready where
  "not_ready = \<lparr>cr_pollout = False, cr_flush = [], cr_pollin = False, cr_reads = [], cr_pongs = [], cr_pty = []\<rparr>"

text \<open>Whether the loop ends before this pass: the worker was told to or \<open>poll\<close> fails, or the child has
  ended and nobody is waited for any more.\<close>

definition loop_ends :: "worker_pass_in \<Rightarrow> worker \<Rightarrow> bool" where
  "loop_ends I W \<longleftrightarrow> wp_stop I \<or>
     (wk_child_died W \<and> \<not> (\<not> wk_ever_connected W \<and> wp_now I - wk_died_at W < 4 * 1000000000))"

definition pass_drain :: "worker_pass_in \<Rightarrow> worker \<Rightarrow> worker \<times> worker_out list" where
  "pass_drain I W =
     (case wp_pty_writable I of
        Some evs \<Rightarrow>
          if wk_child_died W then (W, [])
          else (case drain_pty_input (wk_pending W) (wk_pending_off W) evs of
                  ((q, off), w, _) \<Rightarrow> (W\<lparr>wk_pending := q, wk_pending_off := off\<rparr>, [ToPty w]))
      | None \<Rightarrow> (W, []))"

definition pass_accept :: "worker_pass_in \<Rightarrow> worker \<Rightarrow> worker \<times> worker_out list" where
  "pass_accept I W =
     (case wp_accept I of
        Some (fd, nonblock, evs) \<Rightarrow>
          if fd \<ge> 0 then (case accept_client fd nonblock evs W of (W1, w) \<Rightarrow> (W1, [ToClient fd w])) else (W, [])
      | None \<Rightarrow> (W, []))"

definition worker_pass :: "worker_pass_in \<Rightarrow> worker \<Rightarrow> worker \<times> bool \<times> worker_out list" where
  "worker_pass I W =
     (let polled = map wc_fd (wk_clients W) in
      case pass_drain I W of (W1, o1) \<Rightarrow>
      case pass_accept I W1 of (W2, o2) \<Rightarrow>
      let W3 = (if wk_child_died W then W2 else pty_output (wp_pty_read I) W2) in
      case serve_clients (\<lambda>fd. if fd \<in> set polled then wp_clients I fd else not_ready)
             (wk_clients W3) (wk_pending W3) (wk_pending_off W3) of
        (cs, q, off, stop, o3) \<Rightarrow>
          let W4 = W3\<lparr>wk_clients := cs, wk_pending := q, wk_pending_off := off\<rparr> in
          if stop then (W4, True, o1 @ o2 @ o3)
          else case wp_wait I of
            Some st \<Rightarrow>
              if wk_child_pid W4 > 0 \<and> \<not> wk_child_died W4
              then (case child_ended st (wp_now I) (wp_last_reads I) (wp_answers I) W4 of
                      (W5, o4) \<Rightarrow> (W5, False, o1 @ o2 @ o3 @ o4))
              else (W4, False, o1 @ o2 @ o3)
          | None \<Rightarrow> (W4, False, o1 @ o2 @ o3))"

text \<open>The passes of the loop until it ends: the worker, the output, and what the terminal gave while
  the child was alive.\<close>

fun worker_run :: "worker_pass_in list \<Rightarrow> worker \<Rightarrow> worker \<times> worker_out list \<times> bytes" where
  "worker_run [] W = (W, [], [])"
| "worker_run (I # Is) W =
     (if loop_ends I W then (W, [], [])
      else
        case worker_pass I W of (W1, stop, outs) \<Rightarrow>
        let d = (if wk_child_died W then [] else wp_pty_read I) in
        if stop then (W1, outs, d)
        else case worker_run Is W1 of (W2, outs2, d2) \<Rightarrow> (W2, outs @ outs2, d @ d2))"

text \<open>\<open>worker_shutdown\<close>: the process group of the child is ended, then what the clients still wait
  for is written, at most 50 passes. \<open>reaped\<close> says of each \<open>waitpid\<close> whether the child is gone.\<close>

definition worker_shutdown ::
  "bool list \<Rightarrow> (int \<Rightarrow> sock_write list) list \<Rightarrow> worker \<Rightarrow> (u32 \<times> u32) \<times> worker_out list"
where
  "worker_shutdown reaped answers W =
     (case flush_passes (take 50 answers) (wk_clients W) of (cs, outs) \<Rightarrow>
        ((wk_exit_code W, wk_signal_num W),
         (if wk_child_pid W > 0
          then KillGroup (wk_child_pid W) 15 # (if list_ex id (take 10 reaped) then [] else [KillGroup (wk_child_pid W) 9])
          else []) @ outs))"

end
