(* ===== verification/Session_Worker_Inv.thy ===== *)
theory Session_Worker_Inv
  imports Session_Worker
begin

text \<open>
  What the event loop of the session worker keeps: the stream of every client is a sequence of whole
  frames that carries all the output of the terminal.
\<close>

section \<open>Queues\<close>

lemma sock_write_loop_prefix: "sock_write_loop d evs = (ok, w, rest) \<Longrightarrow> w @ drop (length w) d = d \<and> length w \<le> length d"
proof (induction d evs arbitrary: ok w rest rule: sock_write_loop.induct)
  case (3 x xs n evs)
  then show ?case
    by (cases "n = 0"; cases "sock_write_loop (drop n (x # xs)) evs")
       (fastforce simp: min_def drop_drop add.commute split: if_splits)+
qed auto

lemma sock_write_loop_healthy: "healthy evs \<Longrightarrow> fst (sock_write_loop d evs)"
  by (induction d evs rule: sock_write_loop.induct) (auto split: prod.splits)

lemma compact_keeps:
  assumes "compact q off = (q1, off1)" "off \<le> length q"
  shows "drop off1 q1 = drop off q" "off1 \<le> length q1"
  using assms by (auto simp: compact_def split: if_splits)

definition frames :: "(byte \<times> bytes) list \<Rightarrow> bytes" where
  "frames ms = concat (map (\<lambda>(t, d). worker_frame t d) ms)"

lemma frames_simps [simp]:
  "frames [] = []" "frames (m # ms) = worker_frame (fst m) (snd m) @ frames ms" "frames (ms @ ns) = frames ms @ frames ns"
  by (simp_all add: frames_def case_prod_beta)

lemma payloads_simps [simp]:
  "payloads t [] = []" "payloads t (m # ms) = (if fst m = t then snd m else []) @ payloads t ms"
  "payloads t (ms @ ns) = payloads t ms @ payloads t ns"
  by (simp_all add: payloads_def)

text \<open>A client whose queue is in order, and the step of a client: from \<open>c\<close> to \<open>c1\<close> the frames
  \<open>ms\<close> were queued and the bytes \<open>w\<close> written.\<close>

definition client_ok :: "WorkerClient \<Rightarrow> bool" where
  "client_ok c \<longleftrightarrow> wc_fd c \<ge> 0 \<and> wc_tx_off c \<le> length (wc_tx c) \<and> length (unsent_tx c) \<le> kClientTxCap"

definition sendable :: "(byte \<times> bytes) list \<Rightarrow> bool" where
  "sendable ms \<longleftrightarrow> list_all (\<lambda>m. length (snd m) \<le> kMaxWorkerPayload) ms"

lemma sendable_simps [simp]:
  "sendable []" "sendable (m # ms) \<longleftrightarrow> length (snd m) \<le> kMaxWorkerPayload \<and> sendable ms"
  "sendable (ms @ ns) \<longleftrightarrow> sendable ms \<and> sendable ns"
  by (simp_all add: sendable_def)

definition forwards :: "WorkerClient \<Rightarrow> bytes \<Rightarrow> (byte \<times> bytes) list \<Rightarrow> WorkerClient \<Rightarrow> bool" where
  "forwards c w ms c1 \<longleftrightarrow> wc_fd c1 = wc_fd c \<and> client_ok c1 \<and> sendable ms \<and> unsent_tx c @ frames ms = w @ unsent_tx c1"

lemma forwards_refl [intro]: "client_ok c \<Longrightarrow> forwards c [] [] c"
  by (simp add: forwards_def)

lemma forwards_trans:
  assumes "forwards c w ms c1" "forwards c1 w1 ms1 c2"
  shows "forwards c (w @ w1) (ms @ ms1) c2"
proof -
  have "unsent_tx c @ frames ms @ frames ms1 = w @ (unsent_tx c1 @ frames ms1)"
    using assms(1) by (simp add: forwards_def flip: append_assoc)
  with assms show ?thesis by (simp add: forwards_def)
qed

lemma forwards_rx: "forwards c w ms c1 \<Longrightarrow> forwards c w ms (c1\<lparr>wc_rx := r\<rparr>)"
  by (simp add: forwards_def client_ok_def unsent_tx_def)

lemma cap_below_payload: "kClientTxCap \<le> kMaxWorkerPayload"
  by (simp add: kClientTxCap_def kMaxWorkerPayload_def)

lemma queue_forwards:
  assumes "queue_to_client c t d = (True, c1)" "client_ok c"
  shows "forwards c [] [(t, d)] c1"
proof -
  from assms(1) have c1: "c1 = c\<lparr>wc_tx := wc_tx c @ worker_frame t d\<rparr>"
    and room: "length (wc_tx c) - wc_tx_off c + 5 + length d \<le> kClientTxCap"
    by (auto simp: queue_to_client_def split: if_splits)
  have len: "length (worker_frame t d) = 5 + length d" by (simp add: worker_frame_def write_u32be_def)
  have un: "unsent_tx c1 = unsent_tx c @ worker_frame t d"
    using assms(2) by (simp add: c1 unsent_tx_def client_ok_def)
  have "length (unsent_tx c1) \<le> kClientTxCap"
    unfolding un using room len by (simp add: unsent_tx_def)
  then have "client_ok c1" using assms(2) by (auto simp: client_ok_def c1)
  moreover have "length d \<le> kMaxWorkerPayload" using room cap_below_payload by simp
  moreover have "wc_fd c1 = wc_fd c" by (simp add: c1)
  ultimately show ?thesis by (simp add: forwards_def un)
qed

lemma queue_fd: "queue_to_client c t d = (ok, c1) \<Longrightarrow> wc_fd c1 = wc_fd c"
  by (auto simp: queue_to_client_def split: if_splits)

lemma flush_forwards:
  assumes "flush_client c evs = (ok, c1, w, rest)" "client_ok c"
  shows "forwards c w [] c1"
proof -
  obtain ok1 w1 r1 where w: "sock_write_loop (drop (wc_tx_off c) (wc_tx c)) evs = (ok1, w1, r1)" by (metis prod_cases3)
  obtain q off where q: "compact (wc_tx c) (wc_tx_off c + length w1) = (q, off)" by fastforce
  from sock_write_loop_prefix [OF w] have p: "w1 @ drop (wc_tx_off c + length w1) (wc_tx c) = unsent_tx c"
    "wc_tx_off c + length w1 \<le> length (wc_tx c)"
    using assms(2) by (auto simp: unsent_tx_def client_ok_def add.commute)
  have "w = w1" and "unsent_tx c1 = drop (wc_tx_off c + length w1) (wc_tx c)" "wc_tx_off c1 \<le> length (wc_tx c1)" "wc_fd c1 = wc_fd c"
    using assms(1) w q p(2) compact_keeps [OF q p(2)] by (auto simp: flush_client_def unsent_tx_def split: if_splits)
  moreover from this p(1) have "w @ unsent_tx c1 = unsent_tx c" by simp
  moreover from this have "length (unsent_tx c1) \<le> length (unsent_tx c)" by (metis length_append le_add2)
  ultimately show ?thesis using assms(2) by (auto simp: forwards_def client_ok_def)
qed

section \<open>One pass\<close>

definition pongs :: "(byte \<times> bytes) list \<Rightarrow> bool" where
  "pongs ms \<longleftrightarrow> list_all (\<lambda>m. m = (WMSG_PONG, [])) ms"

lemma pongs_simps [simp]:
  "pongs []" "pongs (m # ms) \<longleftrightarrow> m = (WMSG_PONG, []) \<and> pongs ms" "pongs (ms @ ns) \<longleftrightarrow> pongs ms \<and> pongs ns"
  by (simp_all add: pongs_def)

lemma pongs_payloads [simp]: "pongs ms \<Longrightarrow> payloads t ms = []"
  by (induction ms) auto

text \<open>Serving one client only answers PINGs.\<close>

definition served :: "serving \<Rightarrow> serving \<Rightarrow> bool" where
  "served v v1 \<longleftrightarrow> (\<exists>w ms. sv_out v1 = sv_out v @ w \<and> pongs ms \<and> forwards (sv_client v) w ms (sv_client v1))"

lemma served_trans: "served v v1 \<Longrightarrow> served v1 v2 \<Longrightarrow> served v v2"
  unfolding served_def by (metis append_assoc forwards_trans pongs_simps(3))

lemma served_client_ok: "served v v1 \<Longrightarrow> client_ok (sv_client v1)"
  by (auto simp: served_def forwards_def)

lemma served_same: "client_ok (sv_client v) \<Longrightarrow> sv_client v1 = sv_client v \<Longrightarrow> sv_out v1 = sv_out v \<Longrightarrow> served v v1"
  by (auto simp: served_def intro!: exI [of _ "[]"])

lemma serve_ping_served:
  assumes "client_ok (sv_client v)"
  shows "served v (serve_ping v)"
proof -
  obtain ok c where q: "queue_to_client (sv_client v) WMSG_PONG [] = (ok, c)" by fastforce
  obtain ok1 c1 w r where f: "flush_client c (sv_client_evs v) = (ok1, c1, w, r)" by (metis prod_cases4)
  show ?thesis
  proof (cases ok)
    case True
    with q assms have fw: "forwards (sv_client v) [] [(WMSG_PONG, [])] c" by (auto intro: queue_forwards)
    then have "client_ok c" by (simp add: forwards_def)
    from forwards_trans [OF fw flush_forwards [OF f this]]
    have "forwards (sv_client v) w [(WMSG_PONG, [])] c1" by simp
    with True q f show ?thesis
      by (auto simp: serve_ping_def served_def intro!: exI [of _ "[(WMSG_PONG, [])]"])
  next
    case False
    with q assms show ?thesis by (auto simp: serve_ping_def intro: served_same)
  qed
qed

lemma serve_frame_served: "client_ok (sv_client v) \<Longrightarrow> served v (serve_frame m v)"
  by (cases m)
     (auto simp: serve_frame_def serve_input_def serve_resize_def Let_def
           intro: serve_ping_served served_same split: prod.split)

lemma serve_frames_served:
  "serve_frames buf v = (rest, v1) \<Longrightarrow> client_ok (sv_client v) \<Longrightarrow> served v v1"
proof (induction buf v rule: serve_frames.induct)
  case (1 buf v)
  note step = serve_frames.simps [of buf v]
  let ?len = "unat (read_u32be (buf ! 1) (buf ! 2) (buf ! 3) (buf ! 4))"
  let ?v = "serve_frame (hd buf, take ?len (drop 5 buf)) v"
  have s: "served v ?v" by (rule serve_frame_served [OF 1(3)])
  show ?case
  proof (cases "length buf < 5 \<or> ?len > kMaxWorkerPayload \<or> length buf < 5 + ?len")
    case True
    with 1(2,3) step show ?thesis by (auto simp: Let_def intro: served_same split: if_splits)
  next
    case False
    then have go: "\<not> length buf < 5" "\<not> ?len > kMaxWorkerPayload" "\<not> length buf < 5 + ?len" by auto
    show ?thesis
    proof (cases "sv_shutdown ?v")
      case True
      with go 1(2) step have "v1 = ?v" by (auto simp: Let_def)
      with s show ?thesis by (simp only:)
    next
      case False
      with go 1(2) step have "serve_frames (drop (5 + ?len) buf) ?v = (rest, v1)" by (simp add: Let_def)
      from 1(1) [OF go(1) refl go(2,3) refl False this served_client_ok [OF s]] s show ?thesis
        by (blast intro: served_trans)
    qed
  qed
qed

lemma serve_client_served:
  assumes "client_ok c"
  shows "\<exists>ms. pongs ms \<and> forwards c (sv_out (serve_client r q off c)) ms (sv_client (serve_client r q off c))"
proof -
  obtain ok c0 w e where f: "(if cr_pollout r then flush_client c (cr_flush r) else (True, c, [], [])) = (ok, c0, w, e)"
    by (metis prod_cases4)
  then have fw: "forwards c w [] c0"
    using assms by (auto intro: flush_forwards split: if_splits)
  then have ok: "client_ok c0" by (simp add: forwards_def)
  let ?v0 = "\<lparr>sv_pending = q, sv_pending_off = off, sv_client = c0, sv_drop = \<not> ok, sv_shutdown = False, sv_pty = [],
                  sv_out = w, sv_resizes = [], sv_pty_evs = cr_pty r, sv_client_evs = cr_pongs r\<rparr>"
  obtain b ended where d: "drain_socket (cr_reads r) = (b, ended)" by fastforce
  let ?v1 = "?v0\<lparr>sv_drop := ended \<or> length (wc_rx c0 @ b) > kClientRxCap\<rparr>"
  obtain rest v where sf: "serve_frames (wc_rx c0 @ b) ?v1 = (rest, v)" by fastforce
  from serve_frames_served [OF sf] ok have "served ?v1 v" by simp
  then obtain w1 ms where m: "sv_out v = w @ w1" "pongs ms" "forwards c0 w1 ms (sv_client v)"
    by (auto simp: served_def)
  from forwards_trans [OF fw m(3)] have "forwards c (w @ w1) ms (sv_client v)" by simp
  moreover have "\<exists>ms. pongs ms \<and> forwards c w ms c0" using fw by (intro exI [of _ "[]"]) simp
  ultimately show ?thesis using m(1,2) f d sf
    by (auto simp: serve_client_def Let_def intro: forwards_rx)
qed

definition client_bytes :: "int \<Rightarrow> worker_out list \<Rightarrow> bytes" where
  "client_bytes fd outs = concat (map (\<lambda>e. case e of ToClient k d \<Rightarrow> if k = fd then d else [] | _ \<Rightarrow> []) outs)"

lemma client_bytes_simps [simp]:
  "client_bytes fd [] = []"
  "client_bytes fd (ToClient k d # outs) = (if k = fd then d else []) @ client_bytes fd outs"
  "client_bytes fd (ToPty d # outs) = client_bytes fd outs"
  "client_bytes fd (ResizePty a b # outs) = client_bytes fd outs"
  "client_bytes fd (KillGroup p n # outs) = client_bytes fd outs"
  "client_bytes fd (outs @ outs2) = client_bytes fd outs @ client_bytes fd outs2"
  by (simp_all add: client_bytes_def)

lemma client_bytes_resizes [simp]: "client_bytes fd (map (\<lambda>(c, r). ResizePty c r) rs) = []"
  by (induction rs) auto

lemma client_bytes_serving: "client_bytes fd (serving_outs v) = (if wc_fd (sv_client v) = fd then sv_out v else [])"
  by (simp add: serving_outs_def)

lemma serve_client_fd: "client_ok c \<Longrightarrow> wc_fd (sv_client (serve_client r q off c)) = wc_fd c"
  using serve_client_served [of c r q off] by (auto simp: forwards_def)

definition clients_ok :: "WorkerClient list \<Rightarrow> bool" where
  "clients_ok cs \<longleftrightarrow> list_all client_ok cs \<and> distinct (map wc_fd cs)"

text \<open>What became of the clients: each of \<open>cs1\<close> is one of \<open>cs\<close> that was written \<open>w\<close> of
  its descriptor and queued frames of \<open>P\<close>.\<close>

definition carried :: "((byte \<times> bytes) list \<Rightarrow> bool) \<Rightarrow> WorkerClient list \<Rightarrow> (int \<Rightarrow> bytes) \<Rightarrow> WorkerClient list \<Rightarrow> bool" where
  "carried P cs w cs1 \<longleftrightarrow>
     clients_ok cs1 \<and> (\<forall>c1\<in>set cs1. \<exists>c\<in>set cs. \<exists>ms. P ms \<and> forwards c (w (wc_fd c)) ms c1)"

lemma carried_fds: "carried P cs w cs1 \<Longrightarrow> set (map wc_fd cs1) \<subseteq> set (map wc_fd cs)"
  by (force simp: carried_def forwards_def)

lemma serve_clients_fds:
  "serve_clients rd cs q off = (cs1, q1, off1, stop, outs) \<Longrightarrow> list_all client_ok cs \<Longrightarrow>
   set (map wc_fd cs1) \<subseteq> set (map wc_fd cs) \<and> (\<forall>fd. fd \<notin> set (map wc_fd cs) \<longrightarrow> client_bytes fd outs = [])"
proof (induction rd cs q off arbitrary: cs1 q1 off1 stop outs rule: serve_clients.induct)
  case (2 rd c cs q off)
  let ?v = "serve_client (rd (wc_fd c)) q off c"
  have pos: "\<not> wc_fd c < 0" using 2(4) by (simp add: client_ok_def)
  have fd: "wc_fd (sv_client ?v) = wc_fd c" using 2(4) by (simp add: serve_client_fd)
  show ?case
  proof (cases "sv_shutdown ?v")
    case True
    with 2(3) pos fd show ?thesis by (auto simp: Let_def client_bytes_serving)
  next
    case False
    obtain cs2 q2 off2 stop2 outs2 where r:
      "serve_clients rd cs (sv_pending ?v) (sv_pending_off ?v) = (cs2, q2, off2, stop2, outs2)"
      by (metis prod_cases5)
    from 2(2) [OF pos refl False r] 2(4) have ih: "set (map wc_fd cs2) \<subseteq> set (map wc_fd cs)"
      "\<And>fd. fd \<notin> set (map wc_fd cs) \<Longrightarrow> client_bytes fd outs2 = []" by auto
    from 2(3) False pos r have "cs1 = (if sv_drop ?v then cs2 else sv_client ?v # cs2)" "outs = serving_outs ?v @ outs2"
      by (auto simp: Let_def)
    with ih fd show ?thesis by (auto simp: client_bytes_serving)
  qed
qed auto

lemma carried_cons:
  assumes "carried P cs w cs1" "forwards c (w (wc_fd c)) ms c1" "P ms" "wc_fd c \<notin> set (map wc_fd cs)"
  shows "carried P (c # cs) w (c1 # cs1)"
  using assms carried_fds [OF assms(1)] unfolding carried_def clients_ok_def
  by (auto simp: forwards_def)

lemma carried_weaken: "carried P cs w cs1 \<Longrightarrow> set cs \<subseteq> set cs2 \<Longrightarrow> carried P cs2 w cs1"
  unfolding carried_def by blast

lemma carried_cong: "(\<And>c. c \<in> set cs \<Longrightarrow> w (wc_fd c) = w1 (wc_fd c)) \<Longrightarrow> carried P cs w cs1 = carried P cs w1 cs1"
  unfolding carried_def by fastforce

lemma serve_clients_carried:
  "serve_clients rd cs q off = (cs1, q1, off1, stop, outs) \<Longrightarrow> clients_ok cs \<Longrightarrow>
   carried pongs cs (\<lambda>fd. client_bytes fd outs) cs1"
proof (induction rd cs q off arbitrary: cs1 q1 off1 stop outs rule: serve_clients.induct)
  case (2 rd c cs q off)
  let ?v = "serve_client (rd (wc_fd c)) q off c"
  have c: "client_ok c" "wc_fd c \<notin> set (map wc_fd cs)" and cs: "clients_ok cs" and pos: "\<not> wc_fd c < 0"
    using 2(4) by (auto simp: clients_ok_def client_ok_def)
  have fd: "wc_fd (sv_client ?v) = wc_fd c" by (rule serve_client_fd [OF c(1)])
  from serve_client_served [OF c(1)] obtain ms where ms: "pongs ms" "forwards c (sv_out ?v) ms (sv_client ?v)" by blast
  show ?case
  proof (cases "sv_shutdown ?v")
    case True
    with 2(3) pos have e: "cs1 = sv_client ?v # cs" "outs = serving_outs ?v" by (auto simp: Let_def)
    have "\<exists>c\<in>set cs. \<exists>ms. pongs ms \<and> forwards c (client_bytes (wc_fd c) outs) ms d" if "d \<in> set cs" for d
      using that cs c(2) fd
      by (intro bexI [of _ d] exI [of _ "[]"])
         (auto simp: e client_bytes_serving clients_ok_def list_all_iff)
    then have "carried pongs cs (\<lambda>fd. client_bytes fd outs) cs" using cs by (simp add: carried_def)
    from carried_cons [OF this, of c ms "sv_client ?v"] ms fd c(2) show ?thesis
      by (simp add: e client_bytes_serving)
  next
    case False
    obtain cs2 q2 off2 stop2 outs2 where r:
      "serve_clients rd cs (sv_pending ?v) (sv_pending_off ?v) = (cs2, q2, off2, stop2, outs2)"
      by (metis prod_cases5)
    from 2(3) False pos r have e: "cs1 = (if sv_drop ?v then cs2 else sv_client ?v # cs2)" "outs = serving_outs ?v @ outs2"
      by (auto simp: Let_def)
    from 2(2) [OF pos refl False r cs]
    have ih: "carried pongs cs (\<lambda>fd. client_bytes fd outs) cs2"
      using c(2) fd by (subst carried_cong [of _ _ "\<lambda>fd. client_bytes fd outs2"]) (auto simp: e client_bytes_serving)
    have own: "client_bytes (wc_fd c) outs = sv_out ?v"
      using serve_clients_fds [OF r] cs c(2) fd by (simp add: e client_bytes_serving clients_ok_def)
    show ?thesis
      using carried_cons [OF ih, of c ms "sv_client ?v"] carried_weaken [OF ih, of "c # cs"] ms c(2) own
      by (auto simp: e)
  qed
qed (auto simp: carried_def)

text \<open>The frames a client gets while the child lives: all the output \<open>d\<close> of the terminal and
  answers to PINGs.\<close>

definition relay :: "bytes \<Rightarrow> (byte \<times> bytes) list \<Rightarrow> bool" where
  "relay d ms \<longleftrightarrow> payloads WMSG_OUTPUT ms = d \<and> list_all (\<lambda>m. fst m = WMSG_OUTPUT \<or> fst m = WMSG_PONG) ms"

lemma relay_append: "relay d ms \<Longrightarrow> relay e ns \<Longrightarrow> relay (d @ e) (ms @ ns)"
  by (simp add: relay_def)

lemma relay_pongs: "pongs ms \<Longrightarrow> relay [] ms"
  by (auto simp: relay_def pongs_def list_all_iff)

lemma relay_output: "relay d [(WMSG_OUTPUT, d)]"
  by (simp add: relay_def)

lemma carried_trans:
  assumes "carried P cs w cs1" "carried Q cs1 w1 cs2" "\<And>ms ns. P ms \<Longrightarrow> Q ns \<Longrightarrow> R (ms @ ns)"
  shows "carried R cs (\<lambda>fd. w fd @ w1 fd) cs2"
  unfolding carried_def
proof (intro conjI ballI)
  show "clients_ok cs2" using assms(2) by (simp add: carried_def)
  fix c2 assume "c2 \<in> set cs2"
  with assms(2) obtain c1 ns where c1: "c1 \<in> set cs1" "Q ns" "forwards c1 (w1 (wc_fd c1)) ns c2"
    unfolding carried_def by blast
  with assms(1) obtain c ms where c: "c \<in> set cs" "P ms" "forwards c (w (wc_fd c)) ms c1"
    unfolding carried_def by blast
  moreover from c(3) have "wc_fd c1 = wc_fd c" by (simp add: forwards_def)
  ultimately show "\<exists>c\<in>set cs. \<exists>ms. R ms \<and> forwards c (w (wc_fd c) @ w1 (wc_fd c)) ms c2"
    using c1 assms(3) forwards_trans by metis
qed

lemma carried_refl: "clients_ok cs \<Longrightarrow> P [] \<Longrightarrow> carried P cs (\<lambda>_. []) cs"
  unfolding carried_def clients_ok_def list_all_iff by (metis forwards_refl)

lemma fan_output_carried:
  "clients_ok cs \<Longrightarrow> carried (relay d) cs (\<lambda>_. []) (fan_output d cs)"
proof (induction cs)
  case (Cons c cs)
  then have ok: "client_ok c" "clients_ok cs" "wc_fd c \<notin> set (map wc_fd cs)" by (auto simp: clients_ok_def)
  obtain b c1 where q: "queue_to_client c WMSG_OUTPUT d = (b, c1)" by fastforce
  show ?case
  proof (cases b)
    case True
    with q have "forwards c [] [(WMSG_OUTPUT, d)] c1" by (auto intro: queue_forwards ok)
    from carried_cons [OF Cons.IH [OF ok(2)], OF this relay_output ok(3)] True q show ?thesis by simp
  next
    case False
    with q carried_weaken [OF Cons.IH [OF ok(2)], of "c # cs"] show ?thesis by auto
  qed
qed (simp add: carried_def clients_ok_def)

lemma pty_output_carried:
  "clients_ok (wk_clients W) \<Longrightarrow> carried (relay d) (wk_clients W) (\<lambda>_. []) (wk_clients (pty_output d W))"
  by (cases "d = []") (auto simp: pty_output_def scroll_def fan_output_carried relay_def intro!: carried_refl)

lemma pty_output_same [simp]:
  "wk_child_died (pty_output d W) = wk_child_died W" "wk_pending (pty_output d W) = wk_pending W"
  "wk_pending_off (pty_output d W) = wk_pending_off W" "wk_child_pid (pty_output d W) = wk_child_pid W"
  by (simp_all add: pty_output_def scroll_def)

section \<open>Accepting\<close>

definition fresh_client :: "int \<Rightarrow> WorkerClient" where
  "fresh_client fd = \<lparr>wc_fd = fd, wc_rx = [], wc_tx = [], wc_tx_off = 0\<rparr>"

lemma fresh_client_simps [simp]:
  "wc_fd (fresh_client fd) = fd" "unsent_tx (fresh_client fd) = []" "client_ok (fresh_client fd) \<longleftrightarrow> fd \<ge> 0"
  by (simp_all add: fresh_client_def unsent_tx_def client_ok_def)

definition shown_scrollback :: "worker \<Rightarrow> bytes" where
  "shown_scrollback W = bytes_of_string (read_last_lines kDefaultRingBufferSize 8192 (wk_scrollback W))"

definition greeting :: "worker \<Rightarrow> (byte \<times> bytes) list" where
  "greeting W =
     [(WMSG_READY, ready_payload (wk_session_name W) (word_of_int (wk_child_pid W)))]
     @ (if shown_scrollback W = [] then [] else [(WMSG_SCROLLBACK, shown_scrollback W)])
     @ (if wk_child_died W then [(WMSG_DIED, died_payload W)] else [])"

lemma greet_forwards:
  assumes "greet W c = (True, c1)" "client_ok c"
  shows "forwards c [] (greeting W) c1"
proof -
  let ?r = "ready_payload (wk_session_name W) (word_of_int (wk_child_pid W))"
  obtain q1 a where q1: "queue_to_client c WMSG_READY ?r = (q1, a)" by fastforce
  obtain q2 b where q2: "(if q1 \<and> shown_scrollback W \<noteq> [] then queue_to_client a WMSG_SCROLLBACK (shown_scrollback W) else (q1, a)) = (q2, b)"
    by fastforce
  from assms(1) q1 q2 have q3: "(if q2 \<and> wk_child_died W then queue_to_client b WMSG_DIED (died_payload W) else (q2, b)) = (True, c1)"
    unfolding greet_def Let_def shown_scrollback_def [symmetric] by (simp only: q1 q2 prod.case)
  then have "q2" by (auto split: if_splits)
  with q2 have "q1" by (auto split: if_splits)
  from q1 \<open>q1\<close> have a: "forwards c [] [(WMSG_READY, ?r)] a" by (auto intro: queue_forwards assms(2))
  have b: "forwards a [] (if shown_scrollback W = [] then [] else [(WMSG_SCROLLBACK, shown_scrollback W)]) b"
    using q2 \<open>q1\<close> \<open>q2\<close> a by (auto simp: forwards_def [of c] intro: queue_forwards split: if_splits)
  have c: "forwards b [] (if wk_child_died W then [(WMSG_DIED, died_payload W)] else []) c1"
    using q3 \<open>q2\<close> b by (auto simp: forwards_def [of a] intro: queue_forwards split: if_splits)
  from forwards_trans [OF forwards_trans [OF a b] c] show ?thesis by (simp add: greeting_def)
qed

lemma accept_forwards:
  assumes "accept_client fd nb evs W = (W1, w)" "fd \<ge> 0"
  shows "wk_clients W1 = wk_clients W \<or>
    (\<exists>c. wk_clients W1 = wk_clients W @ [c] \<and> forwards (fresh_client fd) w (greeting W) c)"
proof (cases "nb \<and> fst (greet W (fresh_client fd))")
  case True
  then obtain c where g: "greet W (fresh_client fd) = (True, c)" by (metis prod.collapse)
  obtain ok c1 w1 r where f: "flush_client c evs = (ok, c1, w1, r)" by (metis prod_cases4)
  from greet_forwards [OF g] assms(2) have fw: "forwards (fresh_client fd) [] (greeting W) c" by simp
  then have "client_ok c" by (simp add: forwards_def)
  from forwards_trans [OF fw flush_forwards [OF f this]] assms True g f show ?thesis
    by (auto simp: accept_client_def fresh_client_def Let_def split: if_splits)
next
  case False
  with assms(1) show ?thesis
    by (auto simp: accept_client_def fresh_client_def Let_def split: if_splits prod.splits)
qed

lemma accept_same:
  "accept_client fd nb evs W = (W1, w) \<Longrightarrow>
   wk_child_died W1 = wk_child_died W \<and> wk_pending W1 = wk_pending W \<and> wk_pending_off W1 = wk_pending_off W \<and>
   wk_child_pid W1 = wk_child_pid W \<and> wk_scrollback W1 = wk_scrollback W"
  by (auto simp: accept_client_def Let_def split: if_splits prod.splits)

section \<open>The passes\<close>

definition accepted :: "worker_pass_in \<Rightarrow> int option" where
  "accepted I = (case wp_accept I of Some (fd, _, _) \<Rightarrow> if fd \<ge> 0 then Some fd else None | None \<Rightarrow> None)"

text \<open>\<open>accept\<close> never gives a descriptor that is open.\<close>

definition accept_ok :: "worker_pass_in \<Rightarrow> worker \<Rightarrow> bool" where
  "accept_ok I W \<longleftrightarrow> (case accepted I of Some fd \<Rightarrow> fd \<notin> set (map wc_fd (wk_clients W)) | None \<Rightarrow> True)"

lemma accept_ok_cong: "wk_clients V = wk_clients W \<Longrightarrow> accept_ok I V = accept_ok I W"
  by (simp add: accept_ok_def split: option.split)

fun accepts_ok :: "worker_pass_in list \<Rightarrow> worker \<Rightarrow> bool" where
  "accepts_ok [] W = True"
| "accepts_ok (I # Is) W = (accept_ok I W \<and> accepts_ok Is (fst (worker_pass I W)))"

lemma pass_drain_same:
  "pass_drain I W = (W1, outs) \<Longrightarrow>
   wk_clients W1 = wk_clients W \<and> wk_child_died W1 = wk_child_died W \<and> wk_session_name W1 = wk_session_name W \<and>
   wk_child_pid W1 = wk_child_pid W \<and> wk_scrollback W1 = wk_scrollback W \<and> wk_exit_code W1 = wk_exit_code W \<and>
   wk_signal_num W1 = wk_signal_num W \<and> client_bytes fd outs = []"
  by (auto simp: pass_drain_def split: option.splits if_splits prod.splits)

lemma greeting_drain: "pass_drain I W = (W1, outs) \<Longrightarrow> greeting W1 = greeting W"
  using pass_drain_same [of I W W1 outs] by (simp add: greeting_def shown_scrollback_def died_payload_def)

text \<open>The clients after \<open>accept\<close>, and what the new one was written.\<close>

lemma pass_accept_cases:
  assumes "pass_accept I W = (W1, outs)" "clients_ok (wk_clients W)" "accept_ok I W"
  shows "(wk_clients W1 = wk_clients W \<or>
      (\<exists>k c. accepted I = Some k \<and> wk_clients W1 = wk_clients W @ [c] \<and>
        forwards (fresh_client k) (client_bytes k outs) (greeting W) c))"
    and "clients_ok (wk_clients W1)" and "wk_child_died W1 = wk_child_died W"
    and "accepted I \<noteq> Some fd \<Longrightarrow> client_bytes fd outs = []"
proof -
  have "(wk_clients W1 = wk_clients W \<or>
      (\<exists>k c. accepted I = Some k \<and> wk_clients W1 = wk_clients W @ [c] \<and>
        forwards (fresh_client k) (client_bytes k outs) (greeting W) c)) \<and> wk_child_died W1 = wk_child_died W \<and>
      (accepted I \<noteq> Some fd \<longrightarrow> client_bytes fd outs = [])"
  proof (cases "accepted I")
    case None
    with assms(1) show ?thesis
      by (auto simp: pass_accept_def accepted_def split: option.splits if_splits)
  next
    case (Some k)
    then obtain nb evs where k: "wp_accept I = Some (k, nb, evs)" "k \<ge> 0"
      by (auto simp: accepted_def split: option.splits if_splits)
    obtain W2 w where a: "accept_client k nb evs W = (W2, w)" by fastforce
    with assms(1) k have "W1 = W2" "outs = [ToClient k w]" by (auto simp: pass_accept_def)
    with accept_forwards [OF a k(2)] accept_same [OF a] Some show ?thesis by auto
  qed
  then show c: "(wk_clients W1 = wk_clients W \<or>
      (\<exists>k c. accepted I = Some k \<and> wk_clients W1 = wk_clients W @ [c] \<and>
        forwards (fresh_client k) (client_bytes k outs) (greeting W) c))"
    and "wk_child_died W1 = wk_child_died W"
    and "accepted I \<noteq> Some fd \<Longrightarrow> client_bytes fd outs = []" by blast+
  from c assms(2,3) show "clients_ok (wk_clients W1)"
    by (auto simp: clients_ok_def forwards_def accept_ok_def)
qed

text \<open>The parts of a pass.\<close>

lemma worker_pass_parts:
  assumes "worker_pass I W = (W1, stop, outs)"
  obtains Wd o1 Wa o2 rd W3 cs q off st o3 W4 where
    "pass_drain I W = (Wd, o1)" "pass_accept I Wd = (Wa, o2)"
    "W3 = (if wk_child_died W then Wa else pty_output (wp_pty_read I) Wa)"
    "serve_clients rd (wk_clients W3) (wk_pending W3) (wk_pending_off W3) = (cs, q, off, st, o3)"
    "W4 = W3\<lparr>wk_clients := cs, wk_pending := q, wk_pending_off := off\<rparr>"
    "W1 = W4 \<and> outs = o1 @ o2 @ o3 \<or>
     (\<exists>x o4. child_ended x (wp_now I) (wp_last_reads I) (wp_answers I) W4 = (W1, o4))"
proof -
  obtain Wd o1 where d: "pass_drain I W = (Wd, o1)" by fastforce
  obtain Wa o2 where a: "pass_accept I Wd = (Wa, o2)" by fastforce
  let ?W3 = "if wk_child_died W then Wa else pty_output (wp_pty_read I) Wa"
  let ?rd = "\<lambda>fd. if fd \<in> set (map wc_fd (wk_clients W)) then wp_clients I fd else not_ready"
  obtain cs q off st o3 where s: "serve_clients ?rd (wk_clients ?W3) (wk_pending ?W3) (wk_pending_off ?W3) = (cs, q, off, st, o3)"
    by (rule prod_cases5)
  let ?W4 = "?W3\<lparr>wk_clients := cs, wk_pending := q, wk_pending_off := off\<rparr>"
  from assms d a s have e: "(W1, stop, outs) =
      (if st then (?W4, True, o1 @ o2 @ o3)
       else case wp_wait I of
            Some x \<Rightarrow>
              if wk_child_pid ?W4 > 0 \<and> \<not> wk_child_died ?W4
              then (case child_ended x (wp_now I) (wp_last_reads I) (wp_answers I) ?W4 of
                      (W5, o4) \<Rightarrow> (W5, False, o1 @ o2 @ o3 @ o4))
              else (?W4, False, o1 @ o2 @ o3)
          | None \<Rightarrow> (?W4, False, o1 @ o2 @ o3))"
    unfolding worker_pass_def Let_def by (simp only: prod.case)
  then have "W1 = ?W4 \<and> outs = o1 @ o2 @ o3 \<or>
     (\<exists>x o4. child_ended x (wp_now I) (wp_last_reads I) (wp_answers I) ?W4 = (W1, o4))"
    by (simp only: split: if_splits option.splits prod.splits) blast+
  from that [OF d a refl s refl this] show ?thesis .
qed

text \<open>A pass after which the child is still alive.\<close>

lemma worker_pass_alive:
  assumes "worker_pass I W = (W1, stop, outs)" "\<not> wk_child_died W1" "clients_ok (wk_clients W)" "accept_ok I W"
  obtains Wd Wa o1 o2 o3 where
    "pass_drain I W = (Wd, o1)" "pass_accept I Wd = (Wa, o2)" "outs = o1 @ o2 @ o3" "\<not> wk_child_died W"
    "carried (relay (wp_pty_read I)) (wk_clients Wa) (\<lambda>fd. client_bytes fd o3) (wk_clients W1)"
proof -
  obtain Wd o1 Wa o2 rd W3 cs q off st o3 W4 where d: "pass_drain I W = (Wd, o1)" and a: "pass_accept I Wd = (Wa, o2)"
    and W3: "W3 = (if wk_child_died W then Wa else pty_output (wp_pty_read I) Wa)"
    and s: "serve_clients rd (wk_clients W3) (wk_pending W3) (wk_pending_off W3) = (cs, q, off, st, o3)"
    and W4: "W4 = W3\<lparr>wk_clients := cs, wk_pending := q, wk_pending_off := off\<rparr>"
    and last: "W1 = W4 \<and> outs = o1 @ o2 @ o3 \<or>
     (\<exists>x o4. child_ended x (wp_now I) (wp_last_reads I) (wp_answers I) W4 = (W1, o4))"
    by (rule worker_pass_parts [OF assms(1)])
  have same: "wk_clients Wd = wk_clients W" "wk_child_died Wd = wk_child_died W"
    using pass_drain_same [OF d] by blast+
  then have ok: "clients_ok (wk_clients Wd)" "accept_ok I Wd" using assms(3,4) by (simp_all add: accept_ok_cong [OF same(1)])
  note acc = pass_accept_cases [OF a ok]
  have died4: "wk_child_died W4 = wk_child_died W" using same acc(3) by (simp add: W3 W4)
  have dead: "wk_child_died (fst (child_ended x t r an V))" for x t r an V
  proof -
    have "wk_child_died (foldl (\<lambda>W d. final_output d W) V ds)" if "wk_child_died V" for V ds
      using that by (induction ds arbitrary: V) (auto simp: final_output_def scroll_def)
    then show ?thesis by (auto simp: child_ended_def Let_def split: exit_status.split prod.split)
  qed
  have w1: "W1 = W4 \<and> outs = o1 @ o2 @ o3" using last assms(2) dead by (metis fst_conv)
  with died4 assms(2) have alive: "\<not> wk_child_died W" by simp
  from pty_output_carried [OF acc(2)] have p: "carried (relay (wp_pty_read I)) (wk_clients Wa) (\<lambda>_. []) (wk_clients W3)"
    using alive by (simp add: W3)
  then have "clients_ok (wk_clients W3)" by (simp add: carried_def)
  from carried_trans [OF p serve_clients_carried [OF s this], of "relay (wp_pty_read I)"]
  have "carried (relay (wp_pty_read I)) (wk_clients Wa) (\<lambda>fd. client_bytes fd o3) cs"
    using relay_append relay_pongs by fastforce
  with w1 that [OF d a _ alive] show ?thesis by (simp add: W4)
qed

lemma worker_pass_keeps_clients:
  assumes "worker_pass I W = (W1, stop, outs)" "\<not> wk_child_died W1" "clients_ok (wk_clients W)" "accept_ok I W"
    and "c1 \<in> set (wk_clients W1)" "accepted I \<noteq> Some (wc_fd c1)"
  shows "\<exists>c\<in>set (wk_clients W). \<exists>ms. relay (wp_pty_read I) ms \<and> forwards c (client_bytes (wc_fd c) outs) ms c1"
proof -
  obtain Wd Wa o1 o2 o3 where
    d: "pass_drain I W = (Wd, o1)" and a: "pass_accept I Wd = (Wa, o2)" and o: "outs = o1 @ o2 @ o3" and "\<not> wk_child_died W"
    and c: "carried (relay (wp_pty_read I)) (wk_clients Wa) (\<lambda>fd. client_bytes fd o3) (wk_clients W1)"
    by (rule worker_pass_alive [OF assms(1-4)])
  have same: "wk_clients Wd = wk_clients W" "\<And>fd. client_bytes fd o1 = []" using pass_drain_same [OF d] by blast+
  then have ok: "clients_ok (wk_clients Wd)" "accept_ok I Wd" using assms(3,4) by (simp_all add: accept_ok_cong [OF same(1)])
  note acc = pass_accept_cases [OF a ok]
  from c assms(5) obtain x ms where x: "x \<in> set (wk_clients Wa)" "relay (wp_pty_read I) ms" "forwards x (client_bytes (wc_fd x) o3) ms c1"
    unfolding carried_def by blast
  then have fd: "wc_fd c1 = wc_fd x" by (simp add: forwards_def)
  have "x \<in> set (wk_clients W)"
    using acc(1) x(1) same(1) assms(6) fd by (auto simp: forwards_def)
  moreover have "client_bytes (wc_fd x) outs = client_bytes (wc_fd x) o3"
    using acc(4) [of "wc_fd x"] assms(6) fd by (simp add: o same(2))
  ultimately show ?thesis using x(2,3) by (intro bexI [of _ x] exI [of _ ms]) simp_all
qed

lemma worker_pass_greets:
  assumes "worker_pass I W = (W1, stop, outs)" "\<not> wk_child_died W1" "clients_ok (wk_clients W)" "accept_ok I W"
    and "c1 \<in> set (wk_clients W1)" "accepted I = Some (wc_fd c1)"
  shows "\<exists>ms. relay (wp_pty_read I) ms \<and> forwards (fresh_client (wc_fd c1)) (client_bytes (wc_fd c1) outs) (greeting W @ ms) c1"
proof -
  obtain Wd Wa o1 o2 o3 where
    d: "pass_drain I W = (Wd, o1)" and a: "pass_accept I Wd = (Wa, o2)" and o: "outs = o1 @ o2 @ o3" and "\<not> wk_child_died W"
    and c: "carried (relay (wp_pty_read I)) (wk_clients Wa) (\<lambda>fd. client_bytes fd o3) (wk_clients W1)"
    by (rule worker_pass_alive [OF assms(1-4)])
  have same: "wk_clients Wd = wk_clients W" "\<And>fd. client_bytes fd o1 = []" using pass_drain_same [OF d] by blast+
  then have ok: "clients_ok (wk_clients Wd)" "accept_ok I Wd" using assms(3,4) by (simp_all add: accept_ok_cong [OF same(1)])
  from c assms(5) obtain x ms where x: "x \<in> set (wk_clients Wa)" "relay (wp_pty_read I) ms" "forwards x (client_bytes (wc_fd x) o3) ms c1"
    unfolding carried_def by blast
  then have fd: "wc_fd c1 = wc_fd x" by (simp add: forwards_def)
  have "wc_fd x \<notin> set (map wc_fd (wk_clients W))" using assms(4,6) fd by (simp add: accept_ok_def)
  with pass_accept_cases(1) [OF a ok] x(1) same(1) assms(6) fd
  have "forwards (fresh_client (wc_fd x)) (client_bytes (wc_fd x) o2) (greeting Wd) x" by auto
  from forwards_trans [OF this x(3)] x(2) show ?thesis
    by (auto simp: o same(2) fd greeting_drain [OF d])
qed

lemma worker_pass_clients_ok:
  assumes "worker_pass I W = (W1, stop, outs)" "\<not> wk_child_died W1" "clients_ok (wk_clients W)" "accept_ok I W"
  shows "clients_ok (wk_clients W1)"
  using worker_pass_alive [OF assms] unfolding carried_def by blast

lemma pass_accept_died: "pass_accept I W = (W1, outs) \<Longrightarrow> wk_child_died W1 = wk_child_died W"
  by (auto simp: pass_accept_def split: option.splits if_splits prod.splits dest: accept_same)

lemma died_stays:
  assumes "worker_pass I W = (W1, stop, outs)" "wk_child_died W"
  shows "wk_child_died W1"
proof -
  obtain Wd o1 where d: "pass_drain I W = (Wd, o1)" by fastforce
  obtain Wa o2 where a: "pass_accept I Wd = (Wa, o2)" by fastforce
  have "wk_child_died Wd" using pass_drain_same [OF d] assms(2) by blast
  then have "wk_child_died Wa" using pass_accept_died [OF a] by simp
  with assms d a show ?thesis
    by (auto simp: worker_pass_def Let_def split: prod.splits option.splits if_splits)
qed

lemma run_died_stays: "worker_run Is W = (W1, outs, d) \<Longrightarrow> wk_child_died W \<Longrightarrow> wk_child_died W1"
proof (induction Is arbitrary: W outs d)
  case (Cons I Is)
  then show ?case
    by (auto simp: Let_def split: if_splits prod.splits dest: died_stays)
qed simp

text \<open>A client that is there after the run and was not accepted in it was there before, and between
  the two it was queued all the output of the terminal.\<close>

lemma worker_run_carries:
  assumes "worker_run Is W = (W1, outs, d)" "\<not> wk_child_died W1" "clients_ok (wk_clients W)" "accepts_ok Is W"
    and "c1 \<in> set (wk_clients W1)" "list_all (\<lambda>I. accepted I \<noteq> Some (wc_fd c1)) Is"
  shows "\<exists>c\<in>set (wk_clients W). \<exists>ms. relay d ms \<and> forwards c (client_bytes (wc_fd c) outs) ms c1"
  using assms
proof (induction Is arbitrary: W outs d)
  case Nil
  then show ?case by (auto simp: relay_def clients_ok_def list_all_iff intro!: bexI [of _ c1] exI [of _ "[]"])
next
  case (Cons I Is)
  show ?case
  proof (cases "loop_ends I W")
    case True
    with Cons.prems show ?thesis
      by (auto simp: relay_def clients_ok_def list_all_iff intro!: bexI [of _ c1] exI [of _ "[]"])
  next
    case False
    obtain W2 stop o1 where p: "worker_pass I W = (W2, stop, o1)" by (metis prod_cases3)
    obtain W3 o2 d2 where r: "worker_run Is W2 = (W3, o2, d2)" by (metis prod_cases3)
    have ok: "accept_ok I W" "accepts_ok Is W2" using Cons.prems(4) p by simp_all
    show ?thesis
    proof (cases stop)
      case True
      with Cons.prems(1) False p have e: "W1 = W2" "outs = o1" "d = (if wk_child_died W then [] else wp_pty_read I)"
        by (auto simp: Let_def)
      then have "\<not> wk_child_died W" using Cons.prems(2) died_stays [OF p] by blast
      with worker_pass_keeps_clients [OF p _ Cons.prems(3) ok(1)] Cons.prems(2,5,6) show ?thesis
        unfolding e by simp
    next
      case stop: False
      with Cons.prems(1) False p r have e: "W1 = W3" "outs = o1 @ o2" "d = (if wk_child_died W then [] else wp_pty_read I) @ d2"
        by (auto simp: Let_def)
      have alive2: "\<not> wk_child_died W2" using Cons.prems(2) run_died_stays [OF r] by (auto simp: e)
      then have alive: "\<not> wk_child_died W" using died_stays [OF p] by blast
      note ok2 = worker_pass_clients_ok [OF p alive2 Cons.prems(3) ok(1)]
      from Cons.IH [OF r [folded e(1)] Cons.prems(2) ok2 ok(2) Cons.prems(5)] Cons.prems(6)
      obtain c2 ms2 where c2: "c2 \<in> set (wk_clients W2)" "relay d2 ms2" "forwards c2 (client_bytes (wc_fd c2) o2) ms2 c1"
        by auto
      then have fd2: "wc_fd c1 = wc_fd c2" by (simp add: forwards_def)
      from worker_pass_keeps_clients [OF p alive2 Cons.prems(3) ok(1) c2(1)] Cons.prems(6) fd2
      obtain c ms where c: "c \<in> set (wk_clients W)" "relay (wp_pty_read I) ms" "forwards c (client_bytes (wc_fd c) o1) ms c2"
        by auto
      then have "wc_fd c2 = wc_fd c" by (simp add: forwards_def)
      with forwards_trans [OF c(3) c2(3)] relay_append [OF c(2) c2(2)] c(1) alive show ?thesis
        unfolding e by auto
    qed
  qed
qed

end
