(* ===== verification/Session_Worker_Props.thy ===== *)
theory Session_Worker_Props
  imports Session_Worker_Inv
begin

text \<open>
  Properties of the event loop of the session worker: the output a daemon sees, the input that reaches
  the terminal, the caps of the queues and the end of the child.
\<close>

section \<open>Frames as a list\<close>

lemma serve_frames_parse:
  assumes "parse_worker_frames buf = (ms, rest, desync)" "list_all (\<lambda>m. fst m \<noteq> WMSG_SHUTDOWN) ms" "\<not> sv_shutdown v"
  shows "serve_frames buf v =
    (rest, let v1 = foldl (\<lambda>v m. serve_frame m v) v ms in if desync then v1\<lparr>sv_drop := True\<rparr> else v1)"
  using assms
proof (induction buf arbitrary: ms v rule: parse_worker_frames.induct)
  case (1 buf)
  let ?len = "unat (read_u32be (buf ! 1) (buf ! 2) (buf ! 3) (buf ! 4))"
  let ?m = "(hd buf, take ?len (drop 5 buf))"
  note steps = parse_worker_frames.simps [of buf] serve_frames.simps [of buf v]
  show ?case
  proof (cases "length buf < 5 \<or> ?len > kMaxWorkerPayload \<or> length buf < 5 + ?len")
    case True
    with 1(2) steps show ?thesis by (auto simp: Let_def split: if_splits)
  next
    case False
    then have go: "\<not> length buf < 5" "\<not> ?len > kMaxWorkerPayload" "\<not> length buf < 5 + ?len" by auto
    obtain ns r e where p: "parse_worker_frames (drop (5 + ?len) buf) = (ns, r, e)" by (metis prod_cases3)
    with go 1(2) steps(1) have ms: "ms = ?m # ns" "r = rest" "e = desync" by (auto simp: Let_def)
    then have t: "hd buf \<noteq> WMSG_SHUTDOWN" "list_all (\<lambda>m. fst m \<noteq> WMSG_SHUTDOWN) ns" using 1(3) by simp_all
    have "\<not> sv_shutdown (serve_frame ?m v)"
      using 1(4) t(1)
      by (auto simp: serve_frame_def serve_input_def serve_resize_def serve_ping_def Let_def split: prod.splits)
    with 1(1) [OF go(1) refl go(2,3) _ t(2), of "serve_frame ?m v"] p ms go steps(2) show ?thesis
      by (simp add: Let_def)
  qed
qed

section \<open>Input of the terminal\<close>

definition unsent_input :: "serving \<Rightarrow> bytes" where
  "unsent_input v = drop (sv_pending_off v) (sv_pending v)"

text \<open>The terminal has taken or will take: what it was written and what waits.\<close>

definition input_so_far :: "serving \<Rightarrow> bytes" where
  "input_so_far v = sv_pty v @ unsent_input v"

definition input_ok :: "serving \<Rightarrow> bool" where
  "input_ok v \<longleftrightarrow> sv_pending_off v \<le> length (sv_pending v) \<and> healthy (sv_pty_evs v)"

lemma sock_write_loop_rest_healthy: "sock_write_loop d evs = (ok, w, rest) \<Longrightarrow> healthy evs \<Longrightarrow> healthy rest"
  by (induction d evs arbitrary: ok w rest rule: sock_write_loop.induct) (auto split: prod.splits if_splits)

lemma drain_pty_input_keeps:
  assumes "drain_pty_input q off evs = ((q1, off1), w, rest)" "off \<le> length q" "healthy evs"
  shows "w @ drop off1 q1 = drop off q" "off1 \<le> length q1" "healthy rest"
proof -
  obtain ok w1 r1 where w: "sock_write_loop (drop off q) evs = (ok, w1, r1)" by (metis prod_cases3)
  with sock_write_loop_healthy [OF assms(3), of "drop off q"] have "ok" by simp
  with assms(1) w have e: "compact q (off + length w1) = (q1, off1)" "w = w1" "rest = r1"
    by (auto simp: drain_pty_input_def)
  from sock_write_loop_prefix [OF w] assms(2) have p: "w1 @ drop (off + length w1) q = drop off q" "off + length w1 \<le> length q"
    by (auto simp: add.commute)
  from compact_keeps [OF e(1) p(2)] p(1) show "w @ drop off1 q1 = drop off q" "off1 \<le> length q1" by (simp_all add: e)
  from sock_write_loop_rest_healthy [OF w assms(3)] show "healthy rest" by (simp add: e)
qed

lemma serve_input_takes:
  assumes "input_ok v" "length (unsent_input v) + length d \<le> kPendingPtyInputCap"
  shows "input_so_far (serve_input d v) = input_so_far v @ d \<and> input_ok (serve_input d v) \<and>
    length (unsent_input (serve_input d v)) \<le> length (unsent_input v) + length d"
proof (cases "d = []")
  case True
  with assms show ?thesis by (simp add: serve_input_def)
next
  case False
  obtain q off w evs where e: "drain_pty_input (drop (sv_pending_off v) (sv_pending v) @ d) 0 (sv_pty_evs v) = ((q, off), w, evs)"
    by (metis prod.collapse)
  from drain_pty_input_keeps [OF e] assms(1)
  have k: "w @ drop off q = unsent_input v @ d" "off \<le> length q" "healthy evs" by (simp_all add: unsent_input_def input_ok_def)
  from arg_cong [OF k(1), of length] have "length (drop off q) \<le> length (unsent_input v) + length d" by simp
  moreover have "\<not> length d > kPendingPtyInputCap - min (length (unsent_input v)) kPendingPtyInputCap" using assms(2) by simp
  ultimately show ?thesis
    using False k e by (simp add: serve_input_def input_so_far_def input_ok_def unsent_input_def Let_def)
qed

lemma serve_other_input:
  assumes "fst m \<noteq> WMSG_INPUT"
  shows "input_so_far (serve_frame m v) = input_so_far v" "input_ok (serve_frame m v) = input_ok v"
    "unsent_input (serve_frame m v) = unsent_input v"
  using assms
  by (auto simp: serve_frame_def serve_resize_def serve_ping_def input_so_far_def input_ok_def unsent_input_def
      split: prod.splits)

lemma serve_frames_take_input:
  assumes "input_ok v" "length (unsent_input v) + length (payloads WMSG_INPUT ms) \<le> kPendingPtyInputCap"
  shows "input_so_far (foldl (\<lambda>v m. serve_frame m v) v ms) = input_so_far v @ payloads WMSG_INPUT ms \<and>
    input_ok (foldl (\<lambda>v m. serve_frame m v) v ms) \<and>
    length (unsent_input (foldl (\<lambda>v m. serve_frame m v) v ms)) \<le> length (unsent_input v) + length (payloads WMSG_INPUT ms)"
  using assms
proof (induction ms arbitrary: v)
  case (Cons m ms)
  show ?case
  proof (cases "fst m = WMSG_INPUT")
    case True
    then have m: "serve_frame m v = serve_input (snd m) v" by (simp add: serve_frame_def case_prod_beta)
    from serve_input_takes [of v "snd m"] Cons.prems True
    have s: "input_so_far (serve_input (snd m) v) = input_so_far v @ snd m" "input_ok (serve_input (snd m) v)"
      "length (unsent_input (serve_input (snd m) v)) \<le> length (unsent_input v) + length (snd m)" by simp_all
    with Cons.prems True Cons.IH [of "serve_input (snd m) v"] m show ?thesis by simp
  next
    case False
    with serve_other_input [of m v] Cons.IH [of "serve_frame m v"] Cons.prems show ?thesis by simp
  qed
qed simp

section \<open>Properties\<close>

lemma sendable_stream: "sendable ms \<Longrightarrow> list_all2 is_worker_frame ms (map (\<lambda>(t, d). worker_frame t d) ms)"
  by (induction ms) (auto simp: is_worker_frame_def)

lemma payloads_absent: "list_all (\<lambda>m. fst m \<noteq> t) ms \<Longrightarrow> payloads t ms = []"
  by (induction ms) auto

lemma relay_other:
  assumes "relay d ms" "t \<noteq> WMSG_OUTPUT" "t \<noteq> WMSG_PONG"
  shows "list_all (\<lambda>m. fst m \<noteq> t) ms \<and> payloads t ms = []"
proof -
  have "fst m \<noteq> t" if "m \<in> set ms" for m using assms that unfolding relay_def list_all_iff by metis
  then have "list_all (\<lambda>m. fst m \<noteq> t) ms" by (simp add: list_all_iff)
  then show ?thesis by (simp add: payloads_absent)
qed

lemma default_capacity_ok: "capacity_ok kDefaultRingBufferSize"
  unfolding capacity_ok_def kDefaultRingBufferSize_def by (rule exI [of _ 20]) simp

text \<open>What the worker replays of its scrollback: whole lines, as many as it may show and as it has.\<close>

definition is_replay :: "string \<Rightarrow> string \<Rightarrow> string \<Rightarrow> bool" where
  "is_replay before older shown \<longleftrightarrow>
     before = older @ shown \<and> line_count shown \<le> 8192 \<and>
     (older \<noteq> [] \<longrightarrow> last older = CHR 0x0A \<and> line_count shown = 8192 \<or> length shown = kDefaultRingBufferSize)"

lemma shown_scrollback_replay:
  assumes "holds kDefaultRingBufferSize (wk_scrollback W) s"
  shows "\<exists>older. is_replay s older (string_of_bytes (shown_scrollback W))"
proof -
  let ?n = "length s - kDefaultRingBufferSize"
  let ?shown = "read_last_lines kDefaultRingBufferSize 8192 (wk_scrollback W)"
  from last_lines_are_whole_lines [of kDefaultRingBufferSize "wk_scrollback W" 8192] obtain p where
    p: "drop ?n s = p @ ?shown" "line_count ?shown \<le> 8192" "p \<noteq> [] \<longrightarrow> last p = CHR 0x0A \<and> line_count ?shown = 8192"
    using snapshot_is_tail [OF default_capacity_ok assms] by auto
  have s: "s = (take ?n s @ p) @ ?shown" using append_take_drop_id [of ?n s] p(1) by simp
  have "length ?shown = kDefaultRingBufferSize" if "p = []" "take ?n s @ p \<noteq> []"
  proof -
    from that have "?n > 0" and d: "drop ?n s = ?shown" using p(1) by auto
    moreover have "length s - ?n = length ?shown" using arg_cong [OF d, of length] by (simp only: length_drop)
    ultimately show ?thesis by linarith
  qed
  moreover have "last (take ?n s @ p) = CHR 0x0A \<and> line_count ?shown = 8192" if "p \<noteq> []"
    using p(3) that by simp
  ultimately have "is_replay s (take ?n s @ p) ?shown" using p(2) s unfolding is_replay_def by blast
  then show ?thesis by (auto simp: shown_scrollback_def)
qed

text \<open>A client that the first pass accepts and that is still there was queued the greeting and then all
  the output of the terminal.\<close>

lemma accepted_client_carries:
  assumes "clients_ok (wk_clients W)" "accepts_ok (I # Is) W"
    and "accepted I = Some k" "list_all (\<lambda>J. accepted J \<noteq> Some k) Is"
    and "worker_run (I # Is) W = (W1, outs, since)" "\<not> wk_child_died W1"
    and c1: "c1 \<in> set (wk_clients W1)" "wc_fd c1 = k"
  shows "\<not> wk_child_died W"
    and "\<exists>ms. relay since ms \<and> forwards (fresh_client k) (client_bytes k outs) (greeting W @ ms) c1"
proof -
  have acc: "accept_ok I W" and accs: "accepts_ok Is (fst (worker_pass I W))" using assms(2) by simp_all
  have go: "\<not> loop_ends I W"
  proof
    assume "loop_ends I W"
    with assms(5) have "W1 = W" by simp
    with c1 acc assms(3) show False by (auto simp: accept_ok_def)
  qed
  obtain W2 stop o1 where p: "worker_pass I W = (W2, stop, o1)" by (metis prod_cases3)
  obtain W3 o2 d2 where r: "worker_run Is W2 = (W3, o2, d2)" by (metis prod_cases3)
  define o3 where "o3 = (if stop then [] else o2)"
  define d3 where "d3 = (if stop then [] else d2)"
  from assms(5) go p r have e: "W1 = (if stop then W2 else W3)" "outs = o1 @ o3"
      "since = (if wk_child_died W then [] else wp_pty_read I) @ d3"
    by (auto simp: Let_def o3_def d3_def split: if_splits)
  have alive2: "\<not> wk_child_died W2" using assms(6) run_died_stays [OF r] e(1) by (auto split: if_splits)
  have alive: "\<not> wk_child_died W" using alive2 died_stays [OF p] by blast
  have ok2: "clients_ok (wk_clients W2)" by (rule worker_pass_clients_ok [OF p alive2 assms(1) acc])
  have "\<exists>c\<in>set (wk_clients W2). \<exists>ms. relay d3 ms \<and> forwards c (client_bytes (wc_fd c) o3) ms c1"
  proof (cases stop)
    case True
    with c1(1) e(1) ok2 show ?thesis
      by (auto simp: o3_def d3_def relay_def clients_ok_def list_all_iff intro!: bexI [of _ c1] exI [of _ "[]"])
  next
    case False
    with worker_run_carries [OF r, of c1] assms(4,6) c1 ok2 accs p e(1) show ?thesis by (simp add: o3_def d3_def)
  qed
  then obtain c ms where c: "c \<in> set (wk_clients W2)" "relay d3 ms" "forwards c (client_bytes (wc_fd c) o3) ms c1" by blast
  then have fd: "wc_fd c = k" using c1(2) by (simp add: forwards_def)
  with worker_pass_greets [OF p alive2 assms(1) acc c(1)] assms(3) obtain ms1 where
    m1: "relay (wp_pty_read I) ms1" "forwards (fresh_client k) (client_bytes k o1) (greeting W @ ms1) c" by auto
  show "\<not> wk_child_died W" by (rule alive)
  have "forwards (fresh_client k) (client_bytes k outs) (greeting W @ ms1 @ ms) c1"
    using forwards_trans [OF m1(2) c(3)] fd e(2) by simp
  moreover have "relay since (ms1 @ ms)" using relay_append [OF m1(1) c(2)] alive e(3) by simp
  ultimately show "\<exists>ms. relay since ms \<and> forwards (fresh_client k) (client_bytes k outs) (greeting W @ ms) c1" by blast
qed

text \<open>C10. A daemon that connects, over any passes of the loop at whose end the child is still alive and the
  daemon is still a client with nothing left in its queue: the output it gets is everything the terminal gave
  since, in order and without a gap, however the socket cuts the frames and whatever the other
  clients do; and the scrollback it gets before it is what the terminal gave last, up to 8192 lines: it
  ends where that output starts, and when it leaves out something older it starts after a line
  end and has exactly 8192 lines, or it is the whole content of the ring. (When the child ends, the
  last output may be lost, see \<open>last_output_can_be_lost\<close>.)\<close>

theorem daemon_sees_terminal_without_gap:
  assumes "clients_ok (wk_clients W)" "accepts_ok (I # Is) W"
    and "accepted I = Some k" "list_all (\<lambda>J. accepted J \<noteq> Some k) Is"
    and "holds kDefaultRingBufferSize (wk_scrollback W) before"
    and "worker_run (I # Is) W = (W1, outs, since)" "\<not> wk_child_died W1"
    and "list_ex (\<lambda>c. wc_fd c = k \<and> unsent_tx c = []) (wk_clients W1)"
    and "s_hosted s" "s_master_fd s \<ge> 0" "\<not> s_worker_died s" "s_worker_rx s = []"
    and "concat pieces = client_bytes k outs" "pieces \<noteq> []"
  shows "\<exists>older shown. is_replay before older (string_of_bytes shown) \<and> pump_pieces s pieces = (s, since, shown)"
proof -
  from assms(8) obtain c1 where c1: "c1 \<in> set (wk_clients W1)" "wc_fd c1 = k" "unsent_tx c1 = []"
    by (auto simp: list_ex_iff)
  note carries = accepted_client_carries [OF assms(1-4,6,7) c1(1,2)]
  then have alive: "\<not> wk_child_died W" by blast
  from carries(2) obtain ms where rel: "relay since ms"
    and fw: "forwards (fresh_client k) (client_bytes k outs) (greeting W @ ms) c1" by blast
  let ?ms = "greeting W @ ms"
  have stream: "list_all2 is_worker_frame ?ms (map (\<lambda>(t, d). worker_frame t d) ?ms)"
    using fw by (intro sendable_stream) (simp add: forwards_def)
  have bytes: "s_worker_rx s @ concat pieces = concat (map (\<lambda>(t, d). worker_frame t d) ?ms)"
    using fw c1(3) assms(12,13) by (simp add: forwards_def flip: frames_def)
  have "list_all (\<lambda>m. fst m \<noteq> WMSG_DIED) ?ms"
    using relay_other [OF rel, of WMSG_DIED] alive by (auto simp: greeting_def wmsg_defs)
  from pump_pieces_alive [OF assms(9-11) stream this bytes assms(14)]
  have "pump_pieces s pieces = (s\<lparr>s_worker_rx := []\<rparr>, payloads WMSG_OUTPUT ?ms, payloads WMSG_SCROLLBACK ?ms)" .
  moreover have "s\<lparr>s_worker_rx := []\<rparr> = s" using assms(12) by simp
  moreover have "payloads WMSG_SCROLLBACK (ms) = []"
    using relay_other [OF rel, of WMSG_SCROLLBACK] by (simp add: wmsg_defs)
  moreover have "payloads WMSG_OUTPUT (ms) = since" using rel by (simp add: relay_def)
  moreover have "payloads WMSG_OUTPUT (greeting W) = []" "payloads WMSG_SCROLLBACK (greeting W) = shown_scrollback W"
    using alive by (simp_all add: greeting_def wmsg_defs)
  ultimately have "pump_pieces s pieces = (s, since, shown_scrollback W)" by simp
  with shown_scrollback_replay [OF assms(5)] show ?thesis by blast
qed

text \<open>A worker whose child runs and that has no client yet.\<close>

definition sample_worker :: worker where
  "sample_worker = \<lparr>wk_session_name = ''w'', wk_child_pid = 42, wk_pending = [], wk_pending_off = 0,
     wk_scrollback = ring_new kDefaultRingBufferSize, wk_clients = [], wk_exit_code = 0, wk_signal_num = 0,
     wk_child_died = False, wk_ever_connected = False, wk_died_at = 0\<rparr>"

definition sample_pass :: worker_pass_in where
  "sample_pass = \<lparr>wp_now = 0, wp_stop = False, wp_pty_writable = None, wp_accept = None, wp_pty_read = [7],
     wp_clients = (\<lambda>_. not_ready\<lparr>cr_pollout := True, cr_flush := [SwWrote 100]\<rparr>), wp_wait = None,
     wp_last_reads = [], wp_answers = []\<rparr>"

lemma read_last_lines_new [simp]: "read_last_lines cap n (ring_new cap) = []"
  by (simp add: read_last_lines_def snapshot_def ring_new_def)

lemma daemon_sees_terminal_without_gap_witness:
  "\<exists>older shown. is_replay [] older (string_of_bytes shown) \<and>
     pump_pieces hosted_session
       [[0x84, 0, 0, 0, 5, 119, 0, 0, 0], [42, 0x81, 0, 0, 0, 1, 7]] = (hosted_session, [7], shown)"
proof -
  let ?I = "sample_pass\<lparr>wp_accept := Some (5, True, [SwWrote 100]), wp_pty_read := []\<rparr>"
  note w = sample_worker_def sample_pass_def
  let ?W1 = "sample_worker\<lparr>wk_clients := [fresh_client 5], wk_ever_connected := True\<rparr>"
  let ?o1 = "[ToClient 5 [0x84, 0, 0, 0, 5, 119, 0, 0, 0, 42], ToPty [], ToClient 5 []]"
  let ?o2 = "[ToPty [], ToClient 5 [0x81, 0, 0, 0, 1, 7]]"
  note evaluate = worker_pass_def w pass_drain_def pass_accept_def accept_client_def greet_def Let_def
        queue_to_client_def kClientTxCap_def ready_payload_def bytes_of_string_def byte_of_char_def wmsg_defs worker_frame_def
        write_u32be_def flush_client_def compact_def pty_output_def scroll_def serve_client_def not_ready_def serving_outs_def fresh_client_def
  have p1: "worker_pass ?I sample_worker = (?W1, False, ?o1)" by (simp add: evaluate)
  have p2: "worker_pass sample_pass ?W1 = (scroll [7] ?W1, False, ?o2)" by (simp add: evaluate)
  have "loop_ends ?I sample_worker = False" "loop_ends sample_pass ?W1 = False" by (simp_all add: loop_ends_def w)
  with p1 p2 have run: "worker_run [?I, sample_pass] sample_worker = (scroll [7] ?W1, ?o1 @ ?o2, [7])"
    by (simp add: w Let_def)
  show ?thesis
  proof (rule daemon_sees_terminal_without_gap [OF _ _ _ _ _ run, where k = 5])
    show "accepts_ok [?I, sample_pass] sample_worker" by (simp add: p1 accept_ok_def accepted_def w)
  qed (simp_all add: clients_ok_def accepted_def w holds_new scroll_def fresh_client_def unsent_tx_def
       hosted_session_def new_Session_def)
qed

text \<open>A pass in which one client's socket gives a piece of input and the terminal answers the writes.\<close>

definition input_ready :: "bytes \<times> sock_write list \<Rightarrow> client_ready" where
  "input_ready pe = not_ready\<lparr>cr_pollin := True, cr_reads := piece_events (fst pe), cr_pty := snd pe\<rparr>"

definition input_pass :: "bytes \<times> sock_write list \<Rightarrow> worker_pass_in" where
  "input_pass pe =
     \<lparr>wp_now = 0, wp_stop = False, wp_pty_writable = None, wp_accept = None, wp_pty_read = [],
      wp_clients = (\<lambda>_. input_ready pe), wp_wait = None, wp_last_reads = [], wp_answers = []\<rparr>"

text \<open>What the terminal was written.\<close>

definition pty_bytes :: "worker_out list \<Rightarrow> bytes" where
  "pty_bytes outs = concat (map (\<lambda>e. case e of ToPty w \<Rightarrow> w | _ \<Rightarrow> []) outs)"

lemma pty_bytes_simps [simp]:
  "pty_bytes [] = []" "pty_bytes (os @ os') = pty_bytes os @ pty_bytes os'"
  by (simp_all add: pty_bytes_def)

lemma pty_bytes_serving: "pty_bytes (serving_outs v) = sv_pty v"
proof -
  have "pty_bytes (map (\<lambda>(c, r). ResizePty c r) rs) = []" for rs
    by (induction rs) (simp_all add: pty_bytes_def case_prod_beta)
  then show ?thesis by (simp add: serving_outs_def) (simp add: pty_bytes_def)
qed

definition inputs_only :: "(byte \<times> bytes) list \<Rightarrow> bool" where
  "inputs_only ms \<longleftrightarrow> list_all (\<lambda>m. fst m = WMSG_INPUT \<and> length (snd m) \<le> kMaxWorkerPayload) ms"

lemma serve_input_client: "sv_client (serve_input d v) = sv_client v"
  by (simp add: serve_input_def Let_def split: prod.split)

lemma serve_inputs_client:
  "list_all (\<lambda>m. fst m = WMSG_INPUT) ms \<Longrightarrow> sv_client (foldl (\<lambda>v m. serve_frame m v) v ms) = sv_client v"
  by (induction ms arbitrary: v) (auto simp: serve_frame_def serve_input_client split: prod.split)

lemma serve_inputs_quiet:
  assumes "list_all (\<lambda>m. fst m = WMSG_INPUT) ms" "input_ok v"
    and "length (unsent_input v) + length (payloads WMSG_INPUT ms) \<le> kPendingPtyInputCap"
  shows "sv_drop (foldl (\<lambda>v m. serve_frame m v) v ms) = sv_drop v \<and>
    sv_shutdown (foldl (\<lambda>v m. serve_frame m v) v ms) = sv_shutdown v"
  using assms
proof (induction ms arbitrary: v)
  case (Cons m ms)
  then have m: "serve_frame m v = serve_input (snd m) v" by (simp add: serve_frame_def case_prod_beta)
  have fit: "length (unsent_input v) + length (snd m) \<le> kPendingPtyInputCap" using Cons.prems by simp
  have quiet: "sv_drop (serve_input (snd m) v) = sv_drop v \<and> sv_shutdown (serve_input (snd m) v) = sv_shutdown v"
    using fit by (auto simp: serve_input_def unsent_input_def Let_def split: prod.split)
  from serve_input_takes [OF Cons.prems(2) fit] Cons.prems
  have "input_ok (serve_input (snd m) v)"
    "length (unsent_input (serve_input (snd m) v)) + length (payloads WMSG_INPUT ms) \<le> kPendingPtyInputCap" by auto
  with Cons.IH [of "serve_input (snd m) v"] Cons.prems(1) quiet m show ?case by simp
qed simp

lemma serve_piece:
  assumes "worker_drain (wc_rx c @ p) = Some (ms, rest)" "list_all (\<lambda>m. fst m = WMSG_INPUT) ms"
    and "off \<le> length q" "healthy evs" "length (drop off q) + length (payloads WMSG_INPUT ms) \<le> kPendingPtyInputCap"
    and v: "v = serve_client (input_ready (p, evs)) q off c"
    and fits: "length (wc_rx c @ p) \<le> kClientRxCap"
  shows "sv_pty v @ drop (sv_pending_off v) (sv_pending v) = drop off q @ payloads WMSG_INPUT ms"
    and "sv_pending_off v \<le> length (sv_pending v)"
    and "length (drop (sv_pending_off v) (sv_pending v)) \<le> length (drop off q) + length (payloads WMSG_INPUT ms)"
    and "sv_client v = c\<lparr>wc_rx := rest\<rparr>"
    and "\<not> sv_drop v" "\<not> sv_shutdown v"
proof -
  let ?v0 = "\<lparr>sv_pending = q, sv_pending_off = off, sv_client = c, sv_drop = length (wc_rx c @ p) > kClientRxCap,
     sv_shutdown = False, sv_pty = [], sv_out = [], sv_resizes = [], sv_pty_evs = evs, sv_client_evs = []\<rparr>"
  let ?v1 = "foldl (\<lambda>v m. serve_frame m v) ?v0 ms"
  have d: "drain_socket (piece_events p) = (p, False)" by (simp add: piece_events_def)
  have pr: "parse_worker_frames (wc_rx c @ p) = (ms, rest, False)"
    using assms(1) by (auto simp: worker_drain_def split: prod.splits if_splits)
  have ns: "list_all (\<lambda>m. fst m \<noteq> WMSG_SHUTDOWN) ms"
    using assms(2) by (auto simp: wmsg_defs elim: list.pred_mono_strong)
  have sf: "serve_frames (wc_rx c @ p) ?v0 = (rest, ?v1)"
    using serve_frames_parse [OF pr ns, of ?v0] by (simp add: Let_def)
  have v1: "v = ?v1\<lparr>sv_client := (sv_client ?v1)\<lparr>wc_rx := rest\<rparr>\<rparr>"
    using sf unfolding v by (simp add: serve_client_def input_ready_def not_ready_def d Let_def)
  have "input_ok ?v0" "length (unsent_input ?v0) + length (payloads WMSG_INPUT ms) \<le> kPendingPtyInputCap"
    using assms(3-5) by (simp_all add: input_ok_def unsent_input_def)
  note io = this
  from serve_inputs_quiet [OF assms(2) io] fits show "\<not> sv_drop v" "\<not> sv_shutdown v" by (simp_all add: v1)
  from serve_frames_take_input [OF io]
  show "sv_pty v @ drop (sv_pending_off v) (sv_pending v) = drop off q @ payloads WMSG_INPUT ms"
    and "sv_pending_off v \<le> length (sv_pending v)"
    and "length (drop (sv_pending_off v) (sv_pending v)) \<le> length (drop off q) + length (payloads WMSG_INPUT ms)"
    by (simp_all add: v1 input_so_far_def unsent_input_def input_ok_def)
  show "sv_client v = c\<lparr>wc_rx := rest\<rparr>" using serve_inputs_client [OF assms(2), of ?v0] by (simp add: v1)
qed

lemma input_pass_serves:
  assumes "wk_clients W = [c]" "wc_fd c \<ge> 0"
    and v: "v = serve_client (input_ready pe) (wk_pending W) (wk_pending_off W) c"
    and "\<not> sv_drop v" "\<not> sv_shutdown v"
  shows "worker_pass (input_pass pe) W =
    (W\<lparr>wk_clients := [sv_client v], wk_pending := sv_pending v, wk_pending_off := sv_pending_off v\<rparr>, False, serving_outs v)"
  using assms(1,2,4,5)
  by (simp add: worker_pass_def pass_drain_def pass_accept_def pty_output_def input_pass_def Let_def v [symmetric])

lemma worker_takes_input:
  assumes "list_all2 is_worker_frame ms fs" "list_all (\<lambda>m. fst m = WMSG_INPUT) ms"
    and "wk_clients W = [c]" "wc_fd c \<ge> 0" "\<not> wk_child_died W" "wk_pending_off W \<le> length (wk_pending W)"
    and "list_all (\<lambda>(p, evs). healthy evs) ps" "ps \<noteq> []" "wc_rx c @ concat (map fst ps) = concat fs"
    and "length (concat fs) \<le> kClientRxCap"
    and "length (drop (wk_pending_off W) (wk_pending W)) + length (payloads WMSG_INPUT ms) \<le> kPendingPtyInputCap"
    and "worker_run (map input_pass ps) W = (W1, outs, d)"
  shows "pty_bytes outs @ drop (wk_pending_off W1) (wk_pending W1) =
      drop (wk_pending_off W) (wk_pending W) @ payloads WMSG_INPUT ms \<and> wk_clients W1 = [c\<lparr>wc_rx := []\<rparr>]"
  using assms
proof (induction ps arbitrary: ms fs W c outs d)
  case (Cons pe ps)
  obtain p evs where pe: "pe = (p, evs)" by fastforce
  from worker_stream.drain_prefix [OF Cons.prems(1), of "wc_rx c @ p" "concat (map fst ps)"] Cons.prems(9) pe
  obtain j rest where j: "worker_drain (wc_rx c @ p) = Some (take j ms, rest)" "rest @ concat (map fst ps) = concat (drop j fs)"
    by auto
  have kinds: "list_all (\<lambda>m. fst m = WMSG_INPUT) (take j ms)" "list_all (\<lambda>m. fst m = WMSG_INPUT) (drop j ms)"
    using Cons.prems(2) by (auto simp: list_all_iff dest: in_set_takeD in_set_dropD)
  have split: "payloads WMSG_INPUT ms = payloads WMSG_INPUT (take j ms) @ payloads WMSG_INPUT (drop j ms)"
    by (metis append_take_drop_id payloads_simps(3))
  let ?q = "drop (wk_pending_off W) (wk_pending W)"
  define v where "v = serve_client (input_ready (p, evs)) (wk_pending W) (wk_pending_off W) c"
  have h: "healthy evs" "list_all (\<lambda>(p, evs). healthy evs) ps" using Cons.prems(7) pe by simp_all
  have fit: "length ?q + length (payloads WMSG_INPUT (take j ms)) \<le> kPendingPtyInputCap"
    using Cons.prems(11) by (simp add: split)
  have "length (wc_rx c @ p) \<le> length (wc_rx c @ concat (map fst (pe # ps)))" by (simp add: pe)
  with Cons.prems(9,10) have room: "length (wc_rx c @ p) \<le> kClientRxCap" by simp
  note s = serve_piece [OF j(1) kinds(1) Cons.prems(6) h(1) fit v_def room]
  define W2 where "W2 = W\<lparr>wk_clients := [sv_client v], wk_pending := sv_pending v, wk_pending_off := sv_pending_off v\<rparr>"
  have pass: "worker_pass (input_pass pe) W = (W2, False, serving_outs v)"
    unfolding W2_def by (rule input_pass_serves [OF Cons.prems(3,4) v_def [folded pe] s(5,6)])
  have W2: "wk_clients W2 = [c\<lparr>wc_rx := rest\<rparr>]" "\<not> wk_child_died W2" "wk_pending W2 = sv_pending v"
    "wk_pending_off W2 = sv_pending_off v"
    using Cons.prems(5) s(4) by (simp_all add: W2_def)
  have "\<not> loop_ends (input_pass pe) W" using Cons.prems(5) by (simp add: loop_ends_def input_pass_def)
  with pass Cons.prems(12) obtain o2 d2 where run: "worker_run (map input_pass ps) W2 = (W1, o2, d2)"
    and outs: "outs = serving_outs v @ o2"
    by (auto simp: Let_def split: prod.splits)
  show ?case
  proof (cases "ps = []")
    case True
    with Cons.prems(9) pe have "worker_drain (wc_rx c @ p) = Some (ms, [])"
      using worker_stream.drain_all [OF Cons.prems(1)] by simp
    with j(1) have "take j ms = ms" "rest = []" by simp_all
    with s(1) True run outs W2 show ?thesis by (simp add: pty_bytes_serving)
  next
    case False
    have fit2: "length (drop (wk_pending_off W2) (wk_pending W2)) + length (payloads WMSG_INPUT (drop j ms)) \<le> kPendingPtyInputCap"
      using s(3) Cons.prems(11) by (simp add: split W2)
    have "length (concat (take j fs @ drop j fs)) \<le> kClientRxCap" using Cons.prems(10) by simp
    then have room2: "length (concat (drop j fs)) \<le> kClientRxCap" by (simp only: concat_append length_append)
    have "pty_bytes o2 @ drop (wk_pending_off W1) (wk_pending W1) =
        drop (wk_pending_off W2) (wk_pending W2) @ payloads WMSG_INPUT (drop j ms) \<and> wk_clients W1 = [(c\<lparr>wc_rx := rest\<rparr>)\<lparr>wc_rx := []\<rparr>]"
      by (rule Cons.IH [OF list_all2_dropI [OF Cons.prems(1)] kinds(2) W2(1) _ W2(2) _ h(2) False _ room2 fit2 run])
        (use Cons.prems(4) s(2) j(2) W2 in simp_all)
    with s(1) outs W2 show ?thesis by (simp add: split pty_bytes_serving)
  qed
qed simp

text \<open>C11. The keystrokes a daemon frames reach the terminal: over passes of the worker's loop in which its one
  client sends INPUT frames, however the socket cuts them into reads, what the terminal is written
  and what still waits in the queue is what waited before followed by every payload, in order,
  and the client is still connected, with nothing of its bytes left over. This is for a child that
  runs, a terminal that does not fail, payloads that fit with what waits into the queue's cap of
  1 MiB, and frames of together at most the 16 MiB of the receive buffer.\<close>

theorem framed_input_reaches_terminal:
  assumes "inputs_only ms" "wk_clients W = [c]" "wc_fd c \<ge> 0" "wc_rx c = []" "\<not> wk_child_died W"
    and "wk_pending_off W \<le> length (wk_pending W)" "list_all (\<lambda>(p, evs). healthy evs) ps" "ps \<noteq> []"
    and "concat (map fst ps) = concat (map (\<lambda>(t, d). worker_frame t d) ms)"
    and "length (concat (map fst ps)) \<le> kClientRxCap"
    and "length (drop (wk_pending_off W) (wk_pending W)) + length (payloads WMSG_INPUT ms) \<le> kPendingPtyInputCap"
    and "worker_run (map input_pass ps) W = (W1, outs, d)"
  shows "pty_bytes outs @ drop (wk_pending_off W1) (wk_pending W1) =
      drop (wk_pending_off W) (wk_pending W) @ payloads WMSG_INPUT ms \<and> wk_clients W1 = [c]"
proof -
  let ?fs = "map (\<lambda>(t, d). worker_frame t d) ms"
  have frames: "list_all2 is_worker_frame ms ?fs"
    using assms(1) by (intro sendable_stream) (simp add: inputs_only_def sendable_def list_all_iff)
  have kinds: "list_all (\<lambda>m. fst m = WMSG_INPUT) ms" using assms(1) by (simp add: inputs_only_def list_all_iff)
  have "wc_rx c @ concat (map fst ps) = concat ?fs" "length (concat ?fs) \<le> kClientRxCap" using assms(4,9,10) by simp_all
  from worker_takes_input [OF frames kinds assms(2,3,5-8) this assms(11,12)] assms(4) show ?thesis by simp
qed

lemma framed_input_reaches_terminal_witness:
  "case worker_run (map input_pass [([1, 0, 0], [SwAgain]), ([0, 2, 104, 105], [SwWrote 1, SwAgain])])
     (sample_worker\<lparr>wk_clients := [fresh_client 5]\<rparr>) of
     (W1, outs, d) \<Rightarrow> pty_bytes outs @ drop (wk_pending_off W1) (wk_pending W1) = [104, 105] \<and> wk_clients W1 = [fresh_client 5]"
proof -
  let ?ps = "[([1, 0, 0], [SwAgain]), ([0, 2, 104, 105], [SwWrote 1, SwAgain])] :: (bytes \<times> sock_write list) list"
  let ?W = "sample_worker\<lparr>wk_clients := [fresh_client 5]\<rparr>"
  obtain W1 outs d where r: "worker_run (map input_pass ?ps) ?W = (W1, outs, d)" by (rule prod_cases3)
  have "pty_bytes outs @ drop (wk_pending_off W1) (wk_pending W1) =
      drop (wk_pending_off ?W) (wk_pending ?W) @ payloads WMSG_INPUT [(WMSG_INPUT, [104, 105])] \<and> wk_clients W1 = [fresh_client 5]"
    by (rule framed_input_reaches_terminal [OF _ _ _ _ _ _ _ _ _ _ _ r])
      (simp_all add: inputs_only_def sample_worker_def wmsg_defs worker_frame_def write_u32be_def kMaxWorkerPayload_def
        kPendingPtyInputCap_def kClientRxCap_def fresh_client_def)
  with r show ?thesis by (simp add: sample_worker_def)
qed

section \<open>Bounds of the queues\<close>

definition backlog_ok :: "WorkerClient \<Rightarrow> bool" where
  "backlog_ok c \<longleftrightarrow> wc_tx_off c \<le> length (wc_tx c) \<and> length (unsent_tx c) \<le> kClientTxCap"

definition pending_ok :: "bytes \<Rightarrow> nat \<Rightarrow> bool" where
  "pending_ok q off \<longleftrightarrow> off \<le> length q \<and> length (drop off q) \<le> kPendingPtyInputCap"

definition queues_ok :: "worker \<Rightarrow> bool" where
  "queues_ok W \<longleftrightarrow> list_all backlog_ok (wk_clients W) \<and> pending_ok (wk_pending W) (wk_pending_off W)"

lemma queue_tx_ok: "queue_to_client c t d = (ok, c1) \<Longrightarrow> backlog_ok c \<Longrightarrow> backlog_ok c1"
  by (auto simp: backlog_ok_def queue_to_client_def unsent_tx_def worker_frame_def write_u32be_def split: if_splits)

lemma flush_tx_ok:
  assumes "flush_client c evs = (ok, c1, w, rest)" "backlog_ok c"
  shows "backlog_ok c1"
proof -
  obtain ok1 w1 r1 where w: "sock_write_loop (drop (wc_tx_off c) (wc_tx c)) evs = (ok1, w1, r1)" by (metis prod_cases3)
  obtain q off where q: "compact (wc_tx c) (wc_tx_off c + length w1) = (q, off)" by fastforce
  have p: "wc_tx_off c + length w1 \<le> length (wc_tx c)"
    using sock_write_loop_prefix [OF w] assms(2) by (auto simp: backlog_ok_def)
  have "drop (wc_tx_off c1) (wc_tx c1) = drop (wc_tx_off c + length w1) (wc_tx c)" "wc_tx_off c1 \<le> length (wc_tx c1)"
    using assms(1) w q p compact_keeps [OF q p] by (auto simp: flush_client_def split: if_splits)
  then show ?thesis using assms(2) by (auto simp: backlog_ok_def unsent_tx_def)
qed

lemma drain_pty_ok:
  assumes "drain_pty_input q off evs = ((q1, off1), w, rest)" "pending_ok q off"
  shows "pending_ok q1 off1"
proof -
  obtain ok w1 r1 where w: "sock_write_loop (drop off q) evs = (ok, w1, r1)" by (metis prod_cases3)
  have p: "off + length w1 \<le> length q" using sock_write_loop_prefix [OF w] assms(2) by (auto simp: pending_ok_def)
  show ?thesis
  proof (cases ok)
    case True
    with assms(1) w have e: "compact q (off + length w1) = (q1, off1)" by (auto simp: drain_pty_input_def)
    from compact_keeps [OF e p] have "length (drop off1 q1) \<le> length (drop off q)" "off1 \<le> length q1" by simp_all
    with assms(2) show ?thesis by (simp only: pending_ok_def HOL.simp_thms) linarith
  next
    case False
    with assms(1) w show ?thesis by (simp add: drain_pty_input_def pending_ok_def)
  qed
qed

definition serving_ok :: "serving \<Rightarrow> bool" where
  "serving_ok v \<longleftrightarrow> backlog_ok (sv_client v) \<and> pending_ok (sv_pending v) (sv_pending_off v)"

lemma serve_input_ok:
  assumes "serving_ok v"
  shows "serving_ok (serve_input d v)"
proof (cases "length d > kPendingPtyInputCap - min (length (sv_pending v) - sv_pending_off v) kPendingPtyInputCap")
  case True
  with assms show ?thesis by (simp add: serve_input_def serving_ok_def)
next
  case False
  obtain q off w evs where e: "drain_pty_input (drop (sv_pending_off v) (sv_pending v) @ d) 0 (sv_pty_evs v) = ((q, off), w, evs)"
    by (metis prod.collapse)
  have "pending_ok (drop (sv_pending_off v) (sv_pending v) @ d) 0"
    using assms False by (auto simp: serving_ok_def pending_ok_def)
  from drain_pty_ok [OF e this] assms False e show ?thesis
    by (simp add: serve_input_def serving_ok_def Let_def)
qed

lemma serve_ping_ok:
  assumes "serving_ok v"
  shows "serving_ok (serve_ping v)"
proof -
  obtain ok c where q: "queue_to_client (sv_client v) WMSG_PONG [] = (ok, c)" by fastforce
  obtain ok1 c1 w r where f: "flush_client c (sv_client_evs v) = (ok1, c1, w, r)" by (rule prod_cases4)
  have "backlog_ok c1" using assms by (auto simp: serving_ok_def intro: flush_tx_ok [OF f] queue_tx_ok [OF q])
  with assms q f show ?thesis by (simp add: serve_ping_def serving_ok_def)
qed

lemma serve_frame_ok: "serving_ok v \<Longrightarrow> serving_ok (serve_frame m v)"
proof -
  assume v: "serving_ok v"
  then have "serving_ok (serve_resize d v)" for d by (simp add: serve_resize_def serving_ok_def)
  moreover from v have "serving_ok (v\<lparr>sv_drop := x\<rparr>)" "serving_ok (v\<lparr>sv_shutdown := x\<rparr>)" for x
    by (simp_all add: serving_ok_def)
  ultimately show ?thesis using v by (simp add: serve_frame_def serve_input_ok serve_ping_ok split: prod.split)
qed

lemma serve_frames_ok: "serve_frames buf v = (rest, v1) \<Longrightarrow> serving_ok v \<Longrightarrow> serving_ok v1"
proof (induction buf v rule: serve_frames.induct)
  case (1 buf v)
  note step = serve_frames.simps [of buf v]
  let ?len = "unat (read_u32be (buf ! 1) (buf ! 2) (buf ! 3) (buf ! 4))"
  let ?v = "serve_frame (hd buf, take ?len (drop 5 buf)) v"
  have s: "serving_ok ?v" by (rule serve_frame_ok [OF 1(3)])
  consider "length buf < 5 \<or> ?len > kMaxWorkerPayload \<or> length buf < 5 + ?len"
    | "\<not> length buf < 5" "\<not> ?len > kMaxWorkerPayload" "\<not> length buf < 5 + ?len" by blast
  then show ?case
  proof cases
    case 1
    with "1.prems" step show ?thesis by (auto simp: Let_def serving_ok_def split: if_splits)
  next
    case 2
    show ?thesis
    proof (cases "sv_shutdown ?v")
      case True
      with 2 1(2) step have "v1 = ?v" by (auto simp: Let_def)
      with s show ?thesis by (simp only:)
    next
      case False
      with 2 1(2) step have "serve_frames (drop (5 + ?len) buf) ?v = (rest, v1)" by (simp add: Let_def)
      from 1(1) [OF 2(1) refl 2(2,3) refl False this s] show ?thesis .
    qed
  qed
qed

lemma serve_client_ok:
  assumes "backlog_ok c" "pending_ok q off"
  shows "serving_ok (serve_client r q off c)"
proof -
  obtain ok c0 w e where f: "(if cr_pollout r then flush_client c (cr_flush r) else (True, c, [], [])) = (ok, c0, w, e)"
    by (metis prod_cases4)
  then have "backlog_ok c0" using assms(1) by (auto intro: flush_tx_ok split: if_splits)
  then have v0: "serving_ok \<lparr>sv_pending = q, sv_pending_off = off, sv_client = c0, sv_drop = x, sv_shutdown = False, sv_pty = [],
                  sv_out = w, sv_resizes = [], sv_pty_evs = cr_pty r, sv_client_evs = cr_pongs r\<rparr>" for x
    using assms(2) by (simp add: serving_ok_def)
  obtain b ended where d: "drain_socket (cr_reads r) = (b, ended)" by fastforce
  obtain rest v where sf: "serve_frames (wc_rx c0 @ b)
      \<lparr>sv_pending = q, sv_pending_off = off, sv_client = c0, sv_drop = ended \<or> length (wc_rx c0 @ b) > kClientRxCap,
       sv_shutdown = False, sv_pty = [], sv_out = w, sv_resizes = [], sv_pty_evs = cr_pty r, sv_client_evs = cr_pongs r\<rparr> = (rest, v)"
    by fastforce
  have "serving_ok (v\<lparr>sv_client := (sv_client v)\<lparr>wc_rx := rest\<rparr>\<rparr>)"
    using serve_frames_ok [OF sf v0] by (simp add: serving_ok_def backlog_ok_def unsent_tx_def)
  with f d sf v0 show ?thesis by (simp add: serve_client_def Let_def)
qed

lemma serve_clients_ok:
  "serve_clients rd cs q off = (cs1, q1, off1, stop, outs) \<Longrightarrow> list_all backlog_ok cs \<Longrightarrow> pending_ok q off \<Longrightarrow>
   list_all backlog_ok cs1 \<and> pending_ok q1 off1"
proof (induction rd cs q off arbitrary: cs1 q1 off1 stop outs rule: serve_clients.induct)
  case (2 rd c cs q off)
  let ?v = "serve_client (rd (wc_fd c)) q off c"
  have s: "backlog_ok (sv_client ?v)" "pending_ok (sv_pending ?v) (sv_pending_off ?v)"
    using serve_client_ok [of c q off] 2(4,5) by (simp_all add: serving_ok_def)
  consider "wc_fd c < 0" | "\<not> wc_fd c < 0" "sv_shutdown ?v" | "\<not> wc_fd c < 0" "\<not> sv_shutdown ?v" by blast
  then show ?case
  proof cases
    case 1
    with 2 show ?thesis by (auto split: prod.splits)
  next
    case 2
    with "2.prems" s show ?thesis by (auto simp: Let_def)
  next
    case 3
    obtain cs2 q2 off2 stop2 outs2 where r:
      "serve_clients rd cs (sv_pending ?v) (sv_pending_off ?v) = (cs2, q2, off2, stop2, outs2)"
      by (rule prod_cases5)
    from 2(2) [OF 3(1) refl 3(2) r] 2(4) s have "list_all backlog_ok cs2 \<and> pending_ok q2 off2" by simp
    with 3 2(3) r s show ?thesis by (auto simp: Let_def)
  qed
qed simp

lemma flush_open_ok:
  assumes "backlog_ok c"
  shows "backlog_ok (fst (flush_open evs c))"
proof -
  obtain ok c1 w r where f: "flush_client c evs = (ok, c1, w, r)" by (rule prod_cases4)
  from flush_tx_ok [OF f assms] assms f show ?thesis
    by (auto simp: flush_open_def) (simp add: backlog_ok_def unsent_tx_def)
qed

lemma flush_passes_ok: "flush_passes as cs = (cs1, outs) \<Longrightarrow> list_all backlog_ok cs \<Longrightarrow> list_all backlog_ok cs1"
proof (induction as cs arbitrary: cs1 outs rule: flush_passes.induct)
  case (2 a as cs)
  have "list_all backlog_ok (fst (flush_pass a cs))"
    using 2(3) by (simp add: flush_pass_def list_all_iff flush_open_ok)
  with 2 show ?case by (auto split: prod.splits if_splits)
qed simp

lemma fan_output_ok: "list_all backlog_ok cs \<Longrightarrow> list_all backlog_ok (fan_output d cs)"
  by (induction cs) (auto dest: queue_tx_ok split: prod.splits)

lemma queue_quietly_ok: "list_all backlog_ok cs \<Longrightarrow> list_all backlog_ok (queue_quietly t d cs)"
  by (induction cs) (auto simp: queue_quietly_def intro: queue_tx_ok [OF prod.collapse [symmetric]])

lemma final_outputs_ok: "queues_ok W \<Longrightarrow> queues_ok (foldl (\<lambda>W d. final_output d W) W ds)"
  by (induction ds arbitrary: W) (auto simp: queues_ok_def final_output_def scroll_def queue_quietly_ok)

lemma child_ended_ok:
  assumes "child_ended st now reads answers W = (W1, outs)" "queues_ok W"
  shows "queues_ok W1"
proof -
  let ?W2 = "(case st of
      WIfExited c \<Rightarrow> W\<lparr>wk_exit_code := word_of_nat c, wk_signal_num := 0\<rparr>
    | WIfSignaled n \<Rightarrow> W\<lparr>wk_exit_code := word_of_nat (128 + n), wk_signal_num := word_of_nat n\<rparr>)\<lparr>wk_child_died := True, wk_died_at := now\<rparr>"
  let ?W3 = "foldl (\<lambda>W d. final_output d W) ?W2 (last_output reads)"
  have "queues_ok ?W2" using assms(2) by (simp add: queues_ok_def split: exit_status.split)
  then have ok: "queues_ok ?W3" by (rule final_outputs_ok)
  obtain cs o1 where f: "flush_passes (take 20 answers) (queue_quietly WMSG_DIED (died_payload ?W3) (wk_clients ?W3)) = (cs, o1)"
    by fastforce
  with assms(1) have "W1 = ?W3\<lparr>wk_clients := cs\<rparr>" by (simp add: child_ended_def Let_def)
  with flush_passes_ok [OF f] ok queue_quietly_ok show ?thesis by (simp add: queues_ok_def)
qed

lemma greet_tx_ok:
  assumes "greet W c = (ok, c1)" "backlog_ok c"
  shows "backlog_ok c1"
  using assms by (auto simp: greet_def Let_def dest: queue_tx_ok split: prod.splits if_splits)

lemma accept_queues_ok:
  assumes "accept_client fd nb evs W = (W1, w)" "queues_ok W"
  shows "queues_ok W1"
proof -
  have "backlog_ok (fresh_client fd)" by (simp add: backlog_ok_def fresh_client_def unsent_tx_def)
  with assms show ?thesis
    by (auto simp: accept_client_def queues_ok_def Let_def fresh_client_def
        dest: greet_tx_ok flush_tx_ok split: prod.splits if_splits)
qed

lemma worker_pass_queues_ok:
  assumes "worker_pass I W = (W1, stop, outs)" "queues_ok W"
  shows "queues_ok W1"
proof -
  obtain Wd o1 Wa o2 rd W3 cs q off st o3 W4 where d: "pass_drain I W = (Wd, o1)" and a: "pass_accept I Wd = (Wa, o2)"
    and W3: "W3 = (if wk_child_died W then Wa else pty_output (wp_pty_read I) Wa)"
    and s: "serve_clients rd (wk_clients W3) (wk_pending W3) (wk_pending_off W3) = (cs, q, off, st, o3)"
    and W4: "W4 = W3\<lparr>wk_clients := cs, wk_pending := q, wk_pending_off := off\<rparr>"
    and last: "W1 = W4 \<and> outs = o1 @ o2 @ o3 \<or>
     (\<exists>x o4. child_ended x (wp_now I) (wp_last_reads I) (wp_answers I) W4 = (W1, o4))"
    by (rule worker_pass_parts [OF assms(1)])
  have "queues_ok Wd"
    using d assms(2) by (auto simp: pass_drain_def queues_ok_def dest: drain_pty_ok split: option.splits if_splits prod.splits)
  then have "queues_ok Wa"
    using a by (auto simp: pass_accept_def dest: accept_queues_ok split: option.splits if_splits prod.splits)
  then have "queues_ok W3"
    unfolding W3 by (simp add: queues_ok_def) (simp add: pty_output_def scroll_def fan_output_ok)
  then have "queues_ok W4" using serve_clients_ok [OF s] by (simp add: queues_ok_def W4)
  with last child_ended_ok show ?thesis by blast
qed

text \<open>C16. The worker keeps its memory bounded whatever the clients and the terminal do: after any number of passes of
  the loop no client has more than 4 MiB of output waiting, and no more than 1 MiB of input waits for
  the terminal.\<close>

theorem worker_queues_stay_bounded:
  assumes "queues_ok W" "worker_run Is W = (W1, outs, d)"
  shows "list_all (\<lambda>c. length (unsent_tx c) \<le> 4 * 1024 * 1024) (wk_clients W1) \<and>
    length (wk_pending W1) - wk_pending_off W1 \<le> 1024 * 1024"
proof -
  have "queues_ok W1"
    using assms
  proof (induction Is arbitrary: W outs d)
    case (Cons I Is)
    obtain W2 stop o1 where p: "worker_pass I W = (W2, stop, o1)" by (rule prod_cases3)
    obtain W3 o2 d2 where r: "worker_run Is W2 = (W3, o2, d2)" by (rule prod_cases3)
    have "queues_ok W2" by (rule worker_pass_queues_ok [OF p Cons.prems(1)])
    with Cons.IH [OF this] Cons.prems p r show ?case by (auto simp: Let_def split: if_splits)
  qed simp
  then show ?thesis by (simp add: queues_ok_def backlog_ok_def pending_ok_def kClientTxCap_def kPendingPtyInputCap_def list_all_iff)
qed

lemma worker_queues_stay_bounded_witness:
  "case worker_run [sample_pass] sample_worker of (W1, outs, d) \<Rightarrow>
     list_all (\<lambda>c. length (unsent_tx c) \<le> 4 * 1024 * 1024) (wk_clients W1) \<and>
     length (wk_pending W1) - wk_pending_off W1 \<le> 1024 * 1024"
proof -
  obtain W1 outs d where r: "worker_run [sample_pass] sample_worker = (W1, outs, d)" by (rule prod_cases3)
  have "queues_ok sample_worker" by (simp add: queues_ok_def sample_worker_def pending_ok_def)
  from worker_queues_stay_bounded [OF this r] r show ?thesis by simp
qed

text \<open>A controller that connects after the child has ended learns how: when it was written the whole
  greeting and reads it, its session has died with the exit code and the signal the worker recorded.\<close>

theorem late_controller_learns_exit:
  assumes "wk_child_died W" "k \<ge> 0" "accept_client k nb evs W = (W1, w)"
    and "wk_clients W1 = wk_clients W @ [c]" "unsent_tx c = []"
    and "s_hosted s" "s_master_fd s \<ge> 0" "\<not> s_worker_died s" "s_worker_rx s = []"
  shows "case pump_hosted_session s (piece_events w) of (s1, out) \<Rightarrow>
    s_worker_died s1 \<and> s_worker_exit_code s1 = wk_exit_code W \<and> s_worker_signal_num s1 = wk_signal_num W"
proof -
  from accept_forwards [OF assms(3,2)] assms(4) have fw: "forwards (fresh_client k) w (greeting W) c" by auto
  then have w: "w = frames (greeting W)" and snd: "sendable (greeting W)" using assms(5) by (simp_all add: forwards_def)
  from worker_stream.drain_all [OF sendable_stream [OF snd]]
  have "parse_worker_frames w = (greeting W, [], False)"
    by (auto simp: worker_drain_def w frames_def split: prod.splits if_splits)
  moreover have "be32_at (died_payload W) 0 = wk_exit_code W" "be32_at (died_payload W) 4 = wk_signal_num W"
    by (simp_all add: be32_at_def died_payload_def write_u32be_def)
  moreover have "drain_socket (piece_events w) = (w, False)" by (simp add: piece_events_def)
  moreover have "length (died_payload W) = 8" by (simp add: died_payload_def write_u32be_def)
  ultimately show ?thesis
    using assms(1,6-9)
    by (simp add: pump_hosted_session_def Let_def greeting_def pump_frame_def wmsg_defs split: prod.split)
qed

lemma late_controller_learns_exit_witness:
  "case pump_hosted_session hosted_session
     (piece_events (snd (accept_client 5 True [SwWrote 100] (sample_worker\<lparr>wk_child_died := True, wk_exit_code := 3\<rparr>)))) of
     (s1, out) \<Rightarrow> s_worker_died s1 \<and> s_worker_exit_code s1 = 3 \<and> s_worker_signal_num s1 = 0"
proof -
  let ?W = "sample_worker\<lparr>wk_child_died := True, wk_exit_code := 3\<rparr>"
  let ?W1 = "?W\<lparr>wk_ever_connected := True, wk_clients := [fresh_client 5]\<rparr>"
  let ?w = "[0x84, 0, 0, 0, 5, 119, 0, 0, 0, 42, 0x83, 0, 0, 0, 8, 0, 0, 0, 3, 0, 0, 0, 0]"
  have a: "accept_client 5 True [SwWrote 100] ?W = (?W1, ?w)"
    by (simp add: sample_worker_def accept_client_def greet_def Let_def died_payload_def
        queue_to_client_def kClientTxCap_def ready_payload_def bytes_of_string_def byte_of_char_def wmsg_defs worker_frame_def
        write_u32be_def flush_client_def compact_def fresh_client_def)
  from late_controller_learns_exit [OF _ _ a, of "fresh_client 5" hosted_session] a show ?thesis
    by (simp add: sample_worker_def hosted_session_def new_Session_def split: prod.splits)
qed

text \<open>When the child ends, the last output is queued without looking at the answer: a client whose
  queue has room for the death notice but not for the output gets the notice right after a gap.\<close>

theorem last_output_can_be_lost:
  assumes "wk_clients W = [c]" "wc_fd c \<ge> 0" "d \<noteq> []"
    and "length (wc_tx c) - wc_tx_off c + 13 \<le> kClientTxCap"
    and "kClientTxCap < length (wc_tx c) - wc_tx_off c + 5 + length d"
  shows "wk_clients (fst (child_ended (WIfExited n) now [SrData d] [] W)) =
    [c\<lparr>wc_tx := wc_tx c @ worker_frame WMSG_DIED (write_u32be (word_of_nat n) @ write_u32be 0)\<rparr>]"
proof -
  have "length (write_u32be (word_of_nat n) @ write_u32be 0) = 8" by (simp add: write_u32be_def)
  with assms show ?thesis
    by (simp add: child_ended_def Let_def final_output_def scroll_def queue_quietly_def queue_to_client_def died_payload_def)
qed

lemma last_output_can_be_lost_witness:
  "wk_clients (fst (child_ended (WIfExited 1) 9 [SrData (replicate 9 65)] []
     (sample_worker\<lparr>wk_clients := [(fresh_client 5)\<lparr>wc_tx := replicate (kClientTxCap - 13) 0\<rparr>]\<rparr>))) =
   [(fresh_client 5)\<lparr>wc_tx := replicate (kClientTxCap - 13) 0 @ worker_frame WMSG_DIED (write_u32be (word_of_nat 1) @ write_u32be 0)\<rparr>]"
proof -
  let ?c = "(fresh_client 5)\<lparr>wc_tx := replicate (kClientTxCap - 13) 0\<rparr>"
  have "wk_clients (sample_worker\<lparr>wk_clients := [?c]\<rparr>) = [?c]" by (simp add: sample_worker_def)
  from last_output_can_be_lost [OF this, of "replicate 9 65" 1 9] show ?thesis
    by (simp add: fresh_client_def kClientTxCap_def)
qed

end
