(* ===== verification/Output_Queue.thy ===== *)
theory Output_Queue
  imports Frame Versions
begin

text \<open>
  The sending side of a connection of bs-mesh-transfer.h: \<open>enqueue_frame\<close> and
  \<open>flush_tx_queue\<close> with their queue of encoded frames, the fan-out of the output of a session to
  one of its connections and \<open>drain_output_queues\<close> with the queue of logical output behind it.
  What \<open>SSL_write_ex\<close> answers is a list of events; the bytes it takes are part of the results.
\<close>

section \<open>State\<close>

definition kOutputQueueHighWater :: nat where "kOutputQueueHighWater = 256"
definition kTxQueueHighWaterBytes :: nat where "kTxQueueHighWaterBytes = 8 * 1024 * 1024"

record QueuedOutput =
  qo_data :: string
  qo_render_markdown :: bool

record QueuedTxFrame =
  tf_data :: bytes
  tf_offset :: nat

text \<open>The part of \<open>Conn\<close> that sending uses; \<open>tc_open\<close> is a valid socket with its TLS object.\<close>

record tx_conn =
  tc_open :: bool
  tc_exec_busy :: bool
  tc_remote_version :: string
  tc_output_queue :: "QueuedOutput list"
  tc_output_dropped_bytes :: u64
  tc_output_gap_pending :: bool
  tc_tx_queue :: "QueuedTxFrame list"
  tc_tx_queue_bytes :: nat
  tc_want_write :: bool
  tc_bytes_out :: u64

section \<open>Encoded frames\<close>

datatype flush_end = FlushDone | FlushWant | FlushFail

text \<open>The loop of writes: how it ended, the queue, its byte count, \<open>bytes_out\<close>, the bytes written
  and the events left. A write takes at most what it is offered.\<close>

function flush_loop ::
  "QueuedTxFrame list \<Rightarrow> nat \<Rightarrow> u64 \<Rightarrow> ssl_write list \<Rightarrow>
   flush_end \<times> QueuedTxFrame list \<times> nat \<times> u64 \<times> bytes \<times> ssl_write list"
where
  "flush_loop [] tb bo evs = (FlushDone, [], tb, bo, [], evs)"
| "flush_loop (f # q) tb bo evs =
     (if tf_offset f \<ge> length (tf_data f) then flush_loop q tb bo evs
      else case evs of
        [] \<Rightarrow> (FlushWant, f # q, tb, bo, [], [])
      | SslWrote m # evs' \<Rightarrow>
          let n = min m (length (tf_data f) - tf_offset f) in
          if n = 0 then (FlushFail, f # q, tb, bo, [], evs')
          else
            let f' = f\<lparr>tf_offset := tf_offset f + n\<rparr> in
            (case flush_loop (if tf_offset f' \<ge> length (tf_data f') then q else f' # q)
                    (if tb \<ge> n then tb - n else 0) (bo + word_of_nat n) evs' of
               (r, q', tb', bo', w, rest) \<Rightarrow> (r, q', tb', bo', take n (drop (tf_offset f) (tf_data f)) @ w, rest))
      | SslWriteWant _ # evs' \<Rightarrow> (FlushWant, f # q, tb, bo, [], evs')
      | SslWriteFail # evs' \<Rightarrow> (FlushFail, f # q, tb, bo, [], evs'))"
  by pat_completeness auto
termination by (relation "measure (\<lambda>(q, _, _, evs). length q + length evs)") auto

definition clear_tx :: "tx_conn \<Rightarrow> tx_conn" where
  "clear_tx c = c\<lparr>tc_tx_queue := [], tc_tx_queue_bytes := 0, tc_want_write := False\<rparr>"

definition flush_tx_queue :: "tx_conn \<Rightarrow> ssl_write list \<Rightarrow> tx_conn \<times> bytes \<times> ssl_write list" where
  "flush_tx_queue c evs =
     (if \<not> tc_open c then (clear_tx c, [], evs)
      else if tc_exec_busy c then (c, [], evs)
      else case flush_loop (tc_tx_queue c) (tc_tx_queue_bytes c) (tc_bytes_out c) evs of
        (r, q, tb, bo, w, rest) \<Rightarrow>
          let c' = c\<lparr>tc_tx_queue := q, tc_tx_queue_bytes := tb, tc_bytes_out := bo\<rparr> in
          (case r of
             FlushDone \<Rightarrow> (c'\<lparr>tc_want_write := False\<rparr>, w, rest)
           | FlushWant \<Rightarrow> (c'\<lparr>tc_want_write := True\<rparr>, w, rest)
           | FlushFail \<Rightarrow> ((clear_tx c')\<lparr>tc_open := False\<rparr>, w, rest)))"

definition enqueue_frame ::
  "zstd_lib \<Rightarrow> tx_conn \<Rightarrow> Message \<Rightarrow> u16 \<Rightarrow> ssl_write list \<Rightarrow> bool \<times> tx_conn \<times> bytes \<times> ssl_write list"
where
  "enqueue_frame Z c msg stream_id evs =
     (if \<not> tc_open c \<or> tc_exec_busy c then (False, c, [], evs)
      else case encode Z msg stream_id (version_has_cap (tc_remote_version c) kCapFrm2) of
        Inl _ \<Rightarrow> (False, c, [], evs)
      | Inr frame \<Rightarrow>
          if tc_tx_queue_bytes c + length frame > kTxQueueHighWaterBytes then (False, c, [], evs)
          else
            case flush_tx_queue
                   (c\<lparr>tc_tx_queue_bytes := tc_tx_queue_bytes c + length frame,
                      tc_tx_queue := tc_tx_queue c @ [\<lparr>tf_data = frame, tf_offset = 0\<rparr>],
                      tc_want_write := True\<rparr>) evs of
              (c', w, rest) \<Rightarrow> (True, c', w, rest))"

section \<open>Logical output\<close>

definition drop_oldest_output :: "tx_conn \<Rightarrow> tx_conn" where
  "drop_oldest_output c =
     (case tc_output_queue c of
        [] \<Rightarrow> c
      | q # qs \<Rightarrow>
          c\<lparr>tc_output_dropped_bytes := tc_output_dropped_bytes c + word_of_nat (length (qo_data q)),
            tc_output_gap_pending := True, tc_output_queue := qs\<rparr>)"

definition queue_output :: "tx_conn \<Rightarrow> OutputMsg \<Rightarrow> tx_conn" where
  "queue_output c om =
     (let c1 = (if length (tc_output_queue c) \<ge> kOutputQueueHighWater then drop_oldest_output c else c) in
      c1\<lparr>tc_output_queue := tc_output_queue c1 @
           [\<lparr>qo_data = out_data om, qo_render_markdown = out_render_markdown om\<rparr>]\<rparr>)"

text \<open>The fan-out of a message to a connection that is attached to the session.\<close>

definition fan_out ::
  "zstd_lib \<Rightarrow> tx_conn \<Rightarrow> Message \<Rightarrow> ssl_write list \<Rightarrow> tx_conn \<times> bytes \<times> ssl_write list"
where
  "fan_out Z c msg evs =
     (if \<not> tc_open c \<or> tc_exec_busy c then (c, [], evs)
      else case enqueue_frame Z c msg 0 evs of
        (True, c', w, rest) \<Rightarrow> (c', w, rest)
      | (False, c', w, rest) \<Rightarrow>
          (case msg of MOutput om \<Rightarrow> (queue_output c' om, w, rest) | _ \<Rightarrow> (c', w, rest)))"

text \<open>Up to \<open>n\<close> queued outputs become frames, until one is refused.\<close>

fun promote :: "nat \<Rightarrow> zstd_lib \<Rightarrow> tx_conn \<Rightarrow> ssl_write list \<Rightarrow> tx_conn \<times> bytes \<times> ssl_write list" where
  "promote 0 Z c evs = (c, [], evs)"
| "promote (Suc n) Z c evs =
     (case tc_output_queue c of
        [] \<Rightarrow> (c, [], evs)
      | q # _ \<Rightarrow>
          (case enqueue_frame Z c
                  (MOutput \<lparr>out_data = qo_data q, out_render_markdown = qo_render_markdown q\<rparr>) 0 evs of
             (False, c1, w, rest) \<Rightarrow> (c1, w, rest)
           | (True, c1, w, rest) \<Rightarrow>
               (case promote n Z (c1\<lparr>tc_output_queue := tl (tc_output_queue c1)\<rparr>) rest of
                  (c2, w2, rest2) \<Rightarrow> (c2, w @ w2, rest2))))"

fun trim_output :: "nat \<Rightarrow> tx_conn \<Rightarrow> tx_conn" where
  "trim_output 0 c = c"
| "trim_output (Suc n) c = trim_output n (drop_oldest_output c)"

definition send_gap ::
  "zstd_lib \<Rightarrow> tx_conn \<Rightarrow> ssl_write list \<Rightarrow> tx_conn \<times> bytes \<times> ssl_write list"
where
  "send_gap Z c evs =
     (if tc_output_gap_pending c then
        case enqueue_frame Z c (MOutputGap \<lparr>gap_dropped_bytes = tc_output_dropped_bytes c\<rparr>) 0 evs of
          (True, c1, w, rest) \<Rightarrow>
            (c1\<lparr>tc_output_gap_pending := False, tc_output_dropped_bytes := 0\<rparr>, w, rest)
        | (False, c1, w, rest) \<Rightarrow> (c1, w, rest)
      else (c, [], evs))"

definition nothing_to_send :: "tx_conn \<Rightarrow> bool" where
  "nothing_to_send c \<longleftrightarrow> tc_output_queue c = [] \<and> \<not> tc_output_gap_pending c \<and> tc_tx_queue c = []"

text \<open>\<open>drain_output_queues\<close> for one connection.\<close>

definition drain_output_queue ::
  "zstd_lib \<Rightarrow> tx_conn \<Rightarrow> ssl_write list \<Rightarrow> tx_conn \<times> bytes \<times> ssl_write list"
where
  "drain_output_queue Z c evs =
     (if nothing_to_send c then (c, [], evs)
      else if \<not> tc_open c then
        ((clear_tx c)\<lparr>tc_output_queue := [], tc_output_gap_pending := False\<rparr>, [], evs)
      else if tc_exec_busy c then (c, [], evs)
      else
        case send_gap Z c evs of (c1, w1, evs1) \<Rightarrow>
        case promote 8 Z c1 evs1 of (c2, w2, evs2) \<Rightarrow>
          let c3 = trim_output (length (tc_output_queue c2) - kOutputQueueHighWater) c2 in
          if tc_tx_queue c3 \<noteq> [] then
            case flush_tx_queue c3 evs2 of (c4, w4, evs4) \<Rightarrow> (c4, w1 @ w2 @ w4, evs4)
          else (c3, w1 @ w2, evs2))"

section \<open>Lemmas\<close>

text \<open>The bytes that still wait in a queue of frames.\<close>

definition unsent :: "QueuedTxFrame list \<Rightarrow> bytes" where
  "unsent q = concat (map (\<lambda>f. drop (tf_offset f) (tf_data f)) q)"

lemma unsent_simps [simp]:
  "unsent [] = []"
  "unsent (f # q) = drop (tf_offset f) (tf_data f) @ unsent q"
  "unsent (q @ q') = unsent q @ unsent q'"
  by (simp_all add: unsent_def)

lemma flush_loop_spec:
  "flush_loop q tb bo evs = (r, q', tb', bo', w, rest) \<Longrightarrow> tb = length (unsent q) \<Longrightarrow>
   w @ unsent q' = unsent q \<and> tb' = length (unsent q') \<and> bo' = bo + word_of_nat (length w) \<and>
   (r = FlushDone \<longrightarrow> q' = [])"
proof (induction q tb bo evs arbitrary: r q' tb' bo' w rest rule: flush_loop.induct)
  case (2 f q tb bo evs)
  show ?case
  proof (cases "tf_offset f \<ge> length (tf_data f)")
    case True
    with 2 show ?thesis by simp
  next
    case False
    show ?thesis
    proof (cases evs)
      case (Cons e evs')
      show ?thesis
      proof (cases e)
        case (SslWrote m)
        define n where "n = min m (length (tf_data f) - tf_offset f)"
        show ?thesis
        proof (cases "n = 0")
          case True
          with 2(3,4) False Cons SslWrote show ?thesis by (auto simp: n_def)
        next
          case n: False
          let ?f = "f\<lparr>tf_offset := tf_offset f + n\<rparr>"
          let ?q = "if tf_offset ?f \<ge> length (tf_data ?f) then q else ?f # q"
          obtain r1 q1 tb1 bo1 w1 rest1 where
            rec: "flush_loop ?q (if tb \<ge> n then tb - n else 0) (bo + word_of_nat n) evs'
              = (r1, q1, tb1, bo1, w1, rest1)" by (metis prod_cases6)
          have len: "n \<le> length (tf_data f) - tf_offset f" by (simp add: n_def)
          have split: "unsent (f # q) = take n (drop (tf_offset f) (tf_data f)) @ unsent ?q"
            using append_take_drop_id [of n "drop (tf_offset f) (tf_data f)", symmetric]
            by (auto simp: add.commute)
          have "(if tb \<ge> n then tb - n else 0) = length (unsent ?q)"
            using arg_cong [OF split, of length] 2(4) len by auto
          from 2(2) [OF False Cons SslWrote n_def n refl rec this]
          have *: "w1 @ unsent q1 = unsent ?q" "tb1 = length (unsent q1)"
            "bo1 = bo + word_of_nat n + word_of_nat (length w1)" "r1 = FlushDone \<longrightarrow> q1 = []"
            by simp_all
          have out: "r = r1" "q' = q1" "tb' = tb1" "bo' = bo1"
            "w = take n (drop (tf_offset f) (tf_data f)) @ w1"
            using 2(3) False Cons SslWrote n rec by (auto simp: n_def [symmetric] Let_def)
          have "length w = n + length w1" using out(5) len by simp
          with * out split show ?thesis by (simp add: add.assoc)
        qed
      qed (use "2.prems" False Cons in auto)
    qed (use "2.prems" False in auto)
  qed
next
  case (1 tb bo evs)
  then show ?case by simp
qed

definition tx_ok :: "tx_conn \<Rightarrow> bool" where
  "tx_ok c \<longleftrightarrow> tc_tx_queue_bytes c = length (unsent (tc_tx_queue c)) \<and>
     tc_tx_queue_bytes c \<le> kTxQueueHighWaterBytes \<and>
     length (tc_output_queue c) \<le> kOutputQueueHighWater \<and>
     (\<not> tc_open c \<longrightarrow> tc_tx_queue c = [])"

definition encoded :: "zstd_lib \<Rightarrow> bytes \<Rightarrow> bool" where
  "encoded Z f \<longleftrightarrow> (\<exists>m stream large. encode Z m stream large = Inr f)"

text \<open>What an operation does on the wire: the bytes it writes and leaves in the queue are the old
  queue followed by whole frames; only a connection that closes loses the end.\<close>

definition sends :: "zstd_lib \<Rightarrow> tx_conn \<Rightarrow> tx_conn \<Rightarrow> bytes \<Rightarrow> bytes list \<Rightarrow> bool" where
  "sends Z c c' w fs \<longleftrightarrow> tx_ok c' \<and> list_all (encoded Z) fs \<and>
     (\<exists>lost. w @ unsent (tc_tx_queue c') @ lost = unsent (tc_tx_queue c) @ concat fs \<and> (tc_open c' \<longrightarrow> lost = [])) \<and>
     (\<not> tc_open c \<longrightarrow> \<not> tc_open c' \<and> w = [] \<and> fs = [])"

lemma sends_refl: "tx_ok c \<Longrightarrow> sends Z c c [] []"
  by (simp add: sends_def)

lemma sends_trans:
  assumes "sends Z c c1 w1 fs1" "sends Z c1 c2 w2 fs2"
  shows "sends Z c c2 (w1 @ w2) (fs1 @ fs2)"
proof -
  from assms(1) obtain l1 where 1: "w1 @ unsent (tc_tx_queue c1) @ l1 = unsent (tc_tx_queue c) @ concat fs1"
    "tc_open c1 \<longrightarrow> l1 = []" "tx_ok c1" "list_all (encoded Z) fs1"
    "\<not> tc_open c \<longrightarrow> \<not> tc_open c1 \<and> w1 = [] \<and> fs1 = []" by (auto simp: sends_def)
  from assms(2) obtain l2 where 2: "w2 @ unsent (tc_tx_queue c2) @ l2 = unsent (tc_tx_queue c1) @ concat fs2"
    "tc_open c2 \<longrightarrow> l2 = []" "tx_ok c2" "list_all (encoded Z) fs2"
    "\<not> tc_open c1 \<longrightarrow> \<not> tc_open c2 \<and> w2 = [] \<and> fs2 = []" by (auto simp: sends_def)
  have "\<exists>lost. (w1 @ w2) @ unsent (tc_tx_queue c2) @ lost = unsent (tc_tx_queue c) @ concat (fs1 @ fs2) \<and>
    (tc_open c2 \<longrightarrow> lost = [])"
  proof (cases "tc_open c1")
    case True
    with 1(2) have "l1 = []" by simp
    with 1(1) 2(1) have "(w1 @ w2) @ unsent (tc_tx_queue c2) @ l2 = unsent (tc_tx_queue c) @ concat (fs1 @ fs2)"
      by simp
    with 2(2) show ?thesis by blast
  next
    case False
    then have "tc_tx_queue c1 = []" "tc_tx_queue c2 = []" "w2 = []" "fs2 = []" "\<not> tc_open c2"
      using 1(3) 2(3,5) by (auto simp: tx_ok_def)
    with 1(1) show ?thesis by (intro exI [of _ l1]) simp
  qed
  with 1 2 show ?thesis by (auto simp: sends_def)
qed

lemma clear_tx_simps [simp]:
  "tc_tx_queue (clear_tx c) = []" "tc_tx_queue_bytes (clear_tx c) = 0"
  "tc_output_queue (clear_tx c) = tc_output_queue c" "tc_open (clear_tx c) = tc_open c"
  "tc_exec_busy (clear_tx c) = tc_exec_busy c"
  "tc_output_gap_pending (clear_tx c) = tc_output_gap_pending c"
  "tc_remote_version (clear_tx c) = tc_remote_version c"
  by (simp_all add: clear_tx_def)

lemma flush_sends:
  assumes "flush_tx_queue c evs = (c', w, rest)" "tx_ok c"
  shows "sends Z c c' w [] \<and> tc_output_queue c' = tc_output_queue c \<and>
    tc_output_gap_pending c' = tc_output_gap_pending c \<and> tc_remote_version c' = tc_remote_version c \<and>
    tc_exec_busy c' = tc_exec_busy c"
proof (cases "tc_open c \<and> \<not> tc_exec_busy c")
  case False
  with assms show ?thesis by (auto simp: flush_tx_queue_def sends_def tx_ok_def split: if_splits)
next
  case True
  obtain r q tb bo v l where f: "flush_loop (tc_tx_queue c) (tc_tx_queue_bytes c) (tc_bytes_out c) evs
    = (r, q, tb, bo, v, l)" by (metis prod_cases6)
  have tb: "tc_tx_queue_bytes c = length (unsent (tc_tx_queue c))" using assms(2) by (simp add: tx_ok_def)
  from flush_loop_spec [OF f tb] have s: "v @ unsent q = unsent (tc_tx_queue c)" "tb = length (unsent q)"
    by simp_all
  from arg_cong [OF s(1), of length] s(2) tb have le: "tb \<le> tc_tx_queue_bytes c" by simp
  with True assms f s show ?thesis
    by (auto simp: flush_tx_queue_def Let_def sends_def tx_ok_def split: flush_end.splits)
qed

lemma sends_app:
  assumes "sends Z (c\<lparr>tc_tx_queue_bytes := b, tc_tx_queue := tc_tx_queue c @ [f], tc_want_write := ww\<rparr>) c' w []"
    and "tc_open c" "encoded Z (drop (tf_offset f) (tf_data f))"
  shows "sends Z c c' w [drop (tf_offset f) (tf_data f)]"
  using assms by (simp add: sends_def)

lemma enqueue_sends:
  assumes "enqueue_frame Z c m stream evs = (ok, c', w, rest)" "tx_ok c"
  shows "(if ok then tc_open c \<and> (\<exists>f. encode Z m stream (version_has_cap (tc_remote_version c) kCapFrm2) = Inr f \<and> sends Z c c' w [f])
      else c' = c \<and> w = []) \<and>
    tc_output_queue c' = tc_output_queue c \<and> tc_output_gap_pending c' = tc_output_gap_pending c \<and>
    tc_remote_version c' = tc_remote_version c"
proof (cases ok)
  case False
  with assms(1) show ?thesis
    by (auto simp: enqueue_frame_def split: if_splits sum.splits prod.splits)
next
  case True
  let ?large = "version_has_cap (tc_remote_version c) kCapFrm2"
  from assms(1) True obtain f where f: "tc_open c" "encode Z m stream ?large = Inr f"
    "tc_tx_queue_bytes c + length f \<le> kTxQueueHighWaterBytes"
    by (auto simp: enqueue_frame_def not_less split: if_splits sum.splits prod.splits)
  let ?c = "c\<lparr>tc_tx_queue_bytes := tc_tx_queue_bytes c + length f,
    tc_tx_queue := tc_tx_queue c @ [\<lparr>tf_data = f, tf_offset = 0\<rparr>], tc_want_write := True\<rparr>"
  from assms(1) True f have flush: "flush_tx_queue ?c evs = (c', w, rest)"
    by (auto simp: enqueue_frame_def split: if_splits prod.splits)
  have "tx_ok ?c" using assms(2) f by (auto simp: tx_ok_def)
  from flush_sends [OF flush this, of Z] f
    sends_app [where Z = Z and c = c and c' = c' and w = w and ww = True
      and b = "tc_tx_queue_bytes c + length f" and f = "\<lparr>tf_data = f, tf_offset = 0\<rparr>"]
  show ?thesis using True by (auto simp: encoded_def)
qed


text \<open>The logical queue: its operations send nothing and keep the connection well-formed.\<close>

lemma sends_output:
  assumes "tx_ok c" "length q \<le> kOutputQueueHighWater"
  shows "sends Z c (c\<lparr>tc_output_queue := q\<rparr>) [] []"
  using assms by (simp add: sends_def tx_ok_def)

lemma sends_same_wire:
  assumes "sends Z c c1 w fs" "tc_tx_queue c2 = tc_tx_queue c1" "tc_tx_queue_bytes c2 = tc_tx_queue_bytes c1"
    and "tc_open c2 = tc_open c1" "length (tc_output_queue c2) \<le> kOutputQueueHighWater"
  shows "sends Z c c2 w fs"
  using assms by (auto simp: sends_def tx_ok_def)

lemma queue_output_wire:
  "tc_tx_queue (queue_output c om) = tc_tx_queue c"
  "tc_tx_queue_bytes (queue_output c om) = tc_tx_queue_bytes c"
  "tc_open (queue_output c om) = tc_open c"
  "length (tc_output_queue c) \<le> kOutputQueueHighWater \<Longrightarrow>
    length (tc_output_queue (queue_output c om)) \<le> kOutputQueueHighWater"
  by (auto simp: queue_output_def drop_oldest_output_def Let_def kOutputQueueHighWater_def split: list.splits)

lemma fan_out_sends:
  assumes "fan_out Z c m evs = (c', w, rest)" "tx_ok c"
  shows "\<exists>fs. sends Z c c' w fs"
proof (cases "\<not> tc_open c \<or> tc_exec_busy c")
  case True
  with assms sends_refl show ?thesis by (auto simp: fan_out_def)
next
  case False
  obtain ok c1 w1 r1 where e: "enqueue_frame Z c m 0 evs = (ok, c1, w1, r1)" by (metis prod_cases4)
  from enqueue_sends [OF e assms(2)] have s: "if ok then \<exists>f. sends Z c c1 w1 [f] else c1 = c \<and> w1 = []"
    by (auto split: if_splits)
  have out: "w = w1" "c' = c1 \<or> (\<not> ok \<and> (\<exists>om. c' = queue_output c1 om))"
    using assms(1) False e by (auto simp: fan_out_def split: bool.splits Message.splits)
  show ?thesis
  proof (cases "c' = c1")
    case True
    with s out assms(2) sends_refl [of c Z] show ?thesis by (auto split: if_splits)
  next
    case False
    with out s obtain om where om: "c' = queue_output c om" "w = []" by auto
    have "length (tc_output_queue c) \<le> kOutputQueueHighWater" using assms(2) by (simp add: tx_ok_def)
    then have "sends Z c (queue_output c om) [] []"
      by (intro sends_same_wire [OF sends_refl [OF assms(2)]]) (simp_all add: queue_output_wire)
    with om show ?thesis by blast
  qed
qed

lemma promote_sends:
  assumes "promote n Z c evs = (c', w, rest)" "tx_ok c"
  shows "\<exists>fs. sends Z c c' w fs"
  using assms
proof (induction n arbitrary: c evs c' w rest)
  case 0
  then have "c' = c" "w = []" by simp_all
  with sends_refl [OF 0(2)] show ?case by blast
next
  case (Suc n)
  show ?case
  proof (cases "tc_output_queue c")
    case Nil
    with Suc.prems(1) have "c' = c" "w = []" by simp_all
    with sends_refl [OF Suc.prems(2)] show ?thesis by blast
  next
    case (Cons q qs)
    let ?m = "MOutput \<lparr>out_data = qo_data q, out_render_markdown = qo_render_markdown q\<rparr>"
    obtain ok c1 w1 r1 where e: "enqueue_frame Z c ?m 0 evs = (ok, c1, w1, r1)" by (metis prod_cases4)
    note s = enqueue_sends [OF e Suc.prems(2)]
    show ?thesis
    proof (cases ok)
      case False
      with s Suc.prems(1) Cons e have "c' = c" "w = []" by simp_all
      with sends_refl [OF Suc.prems(2)] show ?thesis by blast
    next
      case True
      let ?c = "c1\<lparr>tc_output_queue := tl (tc_output_queue c1)\<rparr>"
      from s True obtain f where f: "sends Z c c1 w1 [f]" "tc_output_queue c1 = q # qs"
        using Cons by auto
      have ok1: "tx_ok c1" using f(1) by (simp add: sends_def)
      have len: "length (tl (tc_output_queue c1)) \<le> kOutputQueueHighWater"
        using ok1 by (auto simp: tx_ok_def)
      have c: "sends Z c ?c w1 [f]"
        by (rule sends_same_wire [OF f(1)]) (use len in simp_all)
      obtain c2 w2 r2 where rec: "promote n Z ?c r1 = (c2, w2, r2)" by (metis prod_cases3)
      have "tx_ok ?c" using c by (simp add: sends_def)
      from Suc.IH [OF rec this] obtain fs where "sends Z ?c c2 w2 fs" by blast
      from sends_trans [OF c this] Suc.prems(1) Cons e True rec show ?thesis by auto
    qed
  qed
qed

lemma send_gap_sends:
  assumes "send_gap Z c evs = (c', w, rest)" "tx_ok c"
  shows "\<exists>fs. sends Z c c' w fs"
proof (cases "tc_output_gap_pending c")
  case False
  with assms sends_refl show ?thesis by (auto simp: send_gap_def)
next
  case True
  obtain ok c1 w1 r1 where
    e: "enqueue_frame Z c (MOutputGap \<lparr>gap_dropped_bytes = tc_output_dropped_bytes c\<rparr>) 0 evs = (ok, c1, w1, r1)"
    by (metis prod_cases4)
  note s = enqueue_sends [OF e assms(2)]
  show ?thesis
  proof (cases ok)
    case False
    with s assms(1) True e have "c' = c" "w = []" by (auto simp: send_gap_def)
    with sends_refl [OF assms(2)] show ?thesis by blast
  next
    case ok: True
    with s obtain f where f: "sends Z c c1 w1 [f]" by auto
    from ok assms(1) True e have out: "c' = c1\<lparr>tc_output_gap_pending := False, tc_output_dropped_bytes := 0\<rparr>" "w = w1"
      by (auto simp: send_gap_def)
    have "length (tc_output_queue c1) \<le> kOutputQueueHighWater" using f by (simp add: sends_def tx_ok_def)
    then have "sends Z c c' w1 [f]" unfolding out(1) by (intro sends_same_wire [OF f]) simp_all
    with out(2) show ?thesis by blast
  qed
qed

lemma trim_output_short: "length (tc_output_queue c) \<le> kOutputQueueHighWater \<Longrightarrow>
    trim_output (length (tc_output_queue c) - kOutputQueueHighWater) c = c"
  by simp

lemma drain_output_cases:
  "nothing_to_send c \<Longrightarrow> drain_output_queue Z c evs = (c, [], evs)"
  "\<not> nothing_to_send c \<Longrightarrow> \<not> tc_open c \<Longrightarrow> drain_output_queue Z c evs =
     ((clear_tx c)\<lparr>tc_output_queue := [], tc_output_gap_pending := False\<rparr>, [], evs)"
  "\<not> nothing_to_send c \<Longrightarrow> tc_open c \<Longrightarrow> tc_exec_busy c \<Longrightarrow> drain_output_queue Z c evs = (c, [], evs)"
  "\<not> nothing_to_send c \<Longrightarrow> tc_open c \<Longrightarrow> \<not> tc_exec_busy c \<Longrightarrow> drain_output_queue Z c evs =
     (case send_gap Z c evs of (c1, w1, evs1) \<Rightarrow>
      case promote 8 Z c1 evs1 of (c2, w2, evs2) \<Rightarrow>
        let c3 = trim_output (length (tc_output_queue c2) - kOutputQueueHighWater) c2 in
        if tc_tx_queue c3 \<noteq> [] then
          case flush_tx_queue c3 evs2 of (c4, w4, evs4) \<Rightarrow> (c4, w1 @ w2 @ w4, evs4)
        else (c3, w1 @ w2, evs2))"
  by (simp_all add: drain_output_queue_def)

lemma drain_busy_line:
  assumes live: "\<not> nothing_to_send c" "tc_open c" "\<not> tc_exec_busy c"
    and drain: "drain_output_queue Z c evs = (c', w, rest)" "tx_ok c"
  shows "\<exists>fs. sends Z c c' w fs"
proof -
  obtain c1 w1 r1 where g: "send_gap Z c evs = (c1, w1, r1)" by (metis prod_cases3)
  from send_gap_sends [OF this drain(2)] obtain fs1 where 1: "sends Z c c1 w1 fs1" by blast
  then have ok1: "tx_ok c1" by (simp add: sends_def)
  obtain c2 w2 r2 where p: "promote 8 Z c1 r1 = (c2, w2, r2)" by (metis prod_cases3)
  from promote_sends [OF this ok1] obtain fs2 where 2: "sends Z c1 c2 w2 fs2" by blast
  then have ok2: "tx_ok c2" by (simp add: sends_def)
  note 12 = sends_trans [OF 1 2]
  have trim: "trim_output (length (tc_output_queue c2) - kOutputQueueHighWater) c2 = c2"
    using ok2 by (intro trim_output_short) (simp add: tx_ok_def)
  show ?thesis
  proof (cases "tc_tx_queue c2 = []")
    case True
    with drain(1) g p trim have "c' = c2" "w = w1 @ w2"
      by (simp_all add: drain_output_cases(4) [OF live] Let_def)
    with 12 show ?thesis by blast
  next
    case ne: False
    obtain c4 w4 r4 where f: "flush_tx_queue c2 r2 = (c4, w4, r4)" by (metis prod_cases3)
    from flush_sends [OF this ok2] have 3: "sends Z c2 c4 w4 []" by simp
    from drain(1) g p trim ne f have "c' = c4" "w = w1 @ w2 @ w4"
      by (simp_all add: drain_output_cases(4) [OF live] Let_def)
    with sends_trans [OF 12 3] show ?thesis by auto
  qed
qed

lemma drain_output_sends:
  assumes "drain_output_queue Z c evs = (c', w, rest)" "tx_ok c"
  shows "\<exists>fs. sends Z c c' w fs"
proof -
  have idle: "\<exists>fs. sends Z c c [] fs" using sends_refl [OF assms(2)] by blast
  have gone: "\<exists>fs. sends Z c ((clear_tx c)\<lparr>tc_output_queue := [], tc_output_gap_pending := False\<rparr>) [] fs"
    if "\<not> tc_open c"
    using that assms(2) by (intro exI [of _ "[]"]) (simp add: sends_def tx_ok_def)
  consider "nothing_to_send c" | "\<not> nothing_to_send c" "\<not> tc_open c"
    | "\<not> nothing_to_send c" "tc_open c" "tc_exec_busy c"
    | "\<not> nothing_to_send c" "tc_open c" "\<not> tc_exec_busy c" by blast
  then show ?thesis
  proof cases
    case 4
    then show ?thesis using assms by (rule drain_busy_line)
  qed (use assms(1) idle gone in \<open>simp_all add: drain_output_cases\<close>)
qed

text \<open>A connection over time: control messages, fan-outs, turns of the drain and of the flush.\<close>

datatype tx_event = TxSend Message u16 | TxFan Message | TxDrain | TxFlush

fun tx_step :: "zstd_lib \<Rightarrow> tx_conn \<Rightarrow> tx_event \<Rightarrow> ssl_write list \<Rightarrow> tx_conn \<times> bytes \<times> ssl_write list" where
  "tx_step Z c (TxSend m stream) evs = snd (enqueue_frame Z c m stream evs)"
| "tx_step Z c (TxFan m) evs = fan_out Z c m evs"
| "tx_step Z c TxDrain evs = drain_output_queue Z c evs"
| "tx_step Z c TxFlush evs = flush_tx_queue c evs"

fun tx_run :: "zstd_lib \<Rightarrow> tx_conn \<Rightarrow> (tx_event \<times> ssl_write list) list \<Rightarrow> tx_conn \<times> bytes" where
  "tx_run Z c [] = (c, [])"
| "tx_run Z c ((e, evs) # xs) =
     (case tx_step Z c e evs of (c1, w, _) \<Rightarrow> case tx_run Z c1 xs of (c2, w2) \<Rightarrow> (c2, w @ w2))"

lemma tx_step_sends:
  assumes "tx_step Z c e evs = (c', w, rest)" "tx_ok c"
  shows "\<exists>fs. sends Z c c' w fs"
proof (cases e)
  case (TxSend m stream)
  then obtain ok where q: "enqueue_frame Z c m stream evs = (ok, c', w, rest)"
    using assms(1) by (cases "enqueue_frame Z c m stream evs") simp
  from enqueue_sends [OF q assms(2)] sends_refl [OF assms(2)] show ?thesis
    by (cases ok) auto
next
  case (TxFan m)
  with assms fan_out_sends show ?thesis by simp
next
  case TxDrain
  with assms drain_output_sends show ?thesis by simp
next
  case TxFlush
  with assms flush_sends [of c evs c' w rest Z] show ?thesis by auto
qed

lemma tx_run_sends:
  "tx_run Z c xs = (c', w) \<Longrightarrow> tx_ok c \<Longrightarrow> \<exists>fs. sends Z c c' w fs"
proof (induction xs arbitrary: c w)
  case Nil
  then have "c' = c" "w = []" by simp_all
  with sends_refl [OF Nil(2)] show ?case by blast
next
  case (Cons x xs)
  obtain e evs where x: "x = (e, evs)" by (cases x)
  obtain c1 w1 r1 where s: "tx_step Z c e evs = (c1, w1, r1)" by (metis prod_cases3)
  obtain w2 where r: "tx_run Z c1 xs = (c', w2)" "w = w1 @ w2"
    using Cons.prems(1) x s by (auto split: prod.splits)
  from tx_step_sends [OF s Cons.prems(2)] obtain fs1 where 1: "sends Z c c1 w1 fs1" by blast
  then have "tx_ok c1" by (simp add: sends_def)
  from Cons.IH [OF r(1) this] obtain fs2 where "sends Z c1 c' w2 fs2" by blast
  from sends_trans [OF 1 this] r(2) show ?case by blast
qed

text \<open>When the socket takes everything, a frame leaves behind the queued ones.\<close>

lemma enqueue_full:
  assumes "tc_open c" "\<not> tc_exec_busy c" "f \<noteq> []" "tc_tx_queue c = q" "tc_tx_queue_bytes c = length (concat (map tf_data q))"
    and "list_all (\<lambda>g. tf_offset g = 0 \<and> tf_data g \<noteq> []) q"
    and "encode Z m stream (version_has_cap (tc_remote_version c) kCapFrm2) = Inr f"
    and "length (concat (map tf_data q)) + length f \<le> kTxQueueHighWaterBytes"
  shows "\<exists>c'. enqueue_frame Z c m stream (map (\<lambda>g. SslWrote (length (tf_data g))) q @ [SslWrote (length f)])
      = (True, c', concat (map tf_data q) @ f, []) \<and> tc_tx_queue c' = [] \<and> tc_tx_queue_bytes c' = 0 \<and>
      tc_open c' \<and> tc_exec_busy c' = tc_exec_busy c \<and> tc_output_queue c' = tc_output_queue c \<and>
      tc_output_gap_pending c' = tc_output_gap_pending c \<and> tc_remote_version c' = tc_remote_version c"
proof -
  have loop: "\<exists>bo'. flush_loop (q @ [\<lparr>tf_data = f, tf_offset = 0\<rparr>]) tb bo
      (map (\<lambda>g. SslWrote (length (tf_data g))) q @ [SslWrote (length f)])
      = (FlushDone, [], 0, bo', concat (map tf_data q) @ f, [])"
    if "tb = length (concat (map tf_data q)) + length f" "list_all (\<lambda>g. tf_offset g = 0 \<and> tf_data g \<noteq> []) q" for q tb bo
    using that
  proof (induction q arbitrary: tb bo)
    case Nil
    with assms(3) show ?case by (simp add: Let_def)
  next
    case (Cons g q)
    have g: "tf_offset g = 0" "tf_data g \<noteq> []" using Cons.prems(2) by simp_all
    have tb: "length (tf_data g) \<le> tb"
      "tb - length (tf_data g) = length (concat (map tf_data q)) + length f"
      using Cons.prems(1) by simp_all
    obtain bo' where "flush_loop (q @ [\<lparr>tf_data = f, tf_offset = 0\<rparr>]) (tb - length (tf_data g))
        (bo + word_of_nat (length (tf_data g)))
        (map (\<lambda>g. SslWrote (length (tf_data g))) q @ [SslWrote (length f)])
        = (FlushDone, [], 0, bo', concat (map tf_data q) @ f, [])"
      using Cons.IH [OF tb(2)] Cons.prems(2) by auto
    with g tb(1) show ?case by (simp add: Let_def)
  qed
  from loop [OF refl assms(6)] obtain bo' where
    "flush_loop (q @ [\<lparr>tf_data = f, tf_offset = 0\<rparr>]) (length (concat (map tf_data q)) + length f)
      (tc_bytes_out c) (map (\<lambda>g. SslWrote (length (tf_data g))) q @ [SslWrote (length f)])
      = (FlushDone, [], 0, bo', concat (map tf_data q) @ f, [])" by blast
  with assms show ?thesis
    by (simp add: enqueue_frame_def flush_tx_queue_def Let_def)
qed

text \<open>A message that cannot be encoded is refused and changes nothing.\<close>

lemma enqueue_unencodable:
  "encode Z m stream (version_has_cap (tc_remote_version c) kCapFrm2) = Inl e \<Longrightarrow>
   enqueue_frame Z c m stream evs = (False, c, [], evs)"
  by (simp add: enqueue_frame_def)

lemma large_output_unencodable:
  assumes "length (out_data om) \<ge> MAX_FRAME_PAYLOAD_U16"
  shows "encode Z (MOutput om) stream False = Inl ''logical payload exceeds frame capacity''"
proof -
  have "\<exists>b. serialize_msg (MOutput om) = Inr b \<and> length b = 1 + length (out_data om)"
    by (simp add: ser_OutputMsg_def ser_seq_Cons_Inr ser_seq_Nil_Inr wire_simps)
  with assms show ?thesis by (auto simp: encode_def)
qed

lemma enqueue_too_long:
  assumes "encode Z m stream (version_has_cap (tc_remote_version c) kCapFrm2) = Inr f"
    and "tc_tx_queue_bytes c + length f > kTxQueueHighWaterBytes"
  shows "enqueue_frame Z c m stream evs = (False, c, [], evs)"
  using assms by (simp add: enqueue_frame_def)

lemma output_again [simp]: "\<lparr>out_data = out_data om, out_render_markdown = out_render_markdown om\<rparr> = om"
  by (cases om) simp

lemma promote_blocked:
  assumes "tc_output_queue c = q # qs"
    and "encode Z (MOutput \<lparr>out_data = qo_data q, out_render_markdown = qo_render_markdown q\<rparr>) 0
      (version_has_cap (tc_remote_version c) kCapFrm2) = Inl e"
  shows "promote (Suc n) Z c evs = (c, [], evs)"
  using assms by (simp add: enqueue_unencodable)

text \<open>An output at the head of the queue that cannot be encoded stays there, turn after turn.\<close>

lemma drain_blocked:
  assumes "drain_output_queue Z c evs = (c', w, rest)" "tc_open c'"
    and "tc_output_queue c = [q]" "\<not> tc_output_gap_pending c"
    and "encode Z (MOutput \<lparr>out_data = qo_data q, out_render_markdown = qo_render_markdown q\<rparr>) 0
      (version_has_cap (tc_remote_version c) kCapFrm2) = Inl e"
  shows "tc_output_queue c' = [q] \<and> \<not> tc_output_gap_pending c' \<and> tc_remote_version c' = tc_remote_version c"
proof -
  have work: "\<not> nothing_to_send c" using assms(3) by (simp add: nothing_to_send_def)
  show ?thesis
  proof (cases "tc_open c \<and> \<not> tc_exec_busy c")
    case True
    have g: "send_gap Z c evs = (c, [], evs)" using assms(4) by (simp add: send_gap_def)
    have p: "promote 8 Z c evs = (c, [], evs)"
      using promote_blocked [OF assms(3,5), of 7] by (simp add: eval_nat_numeral)
    have t: "trim_output (length (tc_output_queue c) - kOutputQueueHighWater) c = c"
      using assms(3) by (intro trim_output_short) (simp add: kOutputQueueHighWater_def)
    have keep: "tc_output_queue (fst (flush_tx_queue c evs)) = tc_output_queue c \<and>
        tc_output_gap_pending (fst (flush_tx_queue c evs)) = tc_output_gap_pending c \<and>
        tc_remote_version (fst (flush_tx_queue c evs)) = tc_remote_version c"
      by (auto simp: flush_tx_queue_def Let_def split: prod.splits flush_end.splits)
    have "c' = c \<or> c' = fst (flush_tx_queue c evs)"
      using assms(1) True drain_output_cases(4) [OF work, of Z evs] g p t
      by (auto simp: Let_def split: if_splits prod.splits)
    with keep assms(3,4) show ?thesis by auto
  next
    case False
    with work assms(1-4) drain_output_cases(2,3) [OF work, of Z evs] show ?thesis
      by (cases "tc_open c") auto
  qed
qed

lemma drains_blocked:
  assumes "tx_run Z c (map (\<lambda>evs. (TxDrain, evs)) ess) = (c', w)" "tc_open c'"
    and "tc_output_queue c = [q]" "\<not> tc_output_gap_pending c"
    and "encode Z (MOutput \<lparr>out_data = qo_data q, out_render_markdown = qo_render_markdown q\<rparr>) 0
      (version_has_cap (tc_remote_version c) kCapFrm2) = Inl e"
  shows "tc_output_queue c' = [q]"
  using assms
proof (induction ess arbitrary: c w)
  case (Cons evs ess)
  obtain c1 w1 r1 where d: "drain_output_queue Z c evs = (c1, w1, r1)" by (metis prod_cases3)
  obtain w2 where r: "tx_run Z c1 (map (\<lambda>evs. (TxDrain, evs)) ess) = (c', w2)"
    using Cons.prems(1) d by (auto split: prod.splits)
  have "tc_open c1"
  proof (rule ccontr)
    assume closed: "\<not> tc_open c1"
    have stay: "\<not> tc_open (fst (tx_run Z c (map (\<lambda>evs. (TxDrain, evs)) ess)))" if "\<not> tc_open c" for c ess
      using that
    proof (induction ess arbitrary: c)
      case (Cons evs ess)
      have "\<not> tc_open (fst (drain_output_queue Z c evs))"
        using Cons.prems drain_output_cases(1,2) [of c Z evs] by (cases "nothing_to_send c") auto
      with Cons.IH [of "fst (drain_output_queue Z c evs)"] show ?case by (auto split: prod.splits)
    qed simp
    from stay [OF closed, of ess] r Cons.prems(2) show False by simp
  qed
  from drain_blocked [OF d this Cons.prems(3-5)] Cons.IH [OF r Cons.prems(2)] Cons.prems(5) show ?case by simp
qed simp


lemma encode_not_Nil: "encode Z m stream large = Inr f \<Longrightarrow> f \<noteq> []"
  by (auto simp: encode_def frame_bytes_def bindR_eq_Inr Let_def split: if_splits)

section \<open>Properties\<close>

text \<open>C12. Whatever messages, fan-outs, drains and flushes a connection goes through and however the
  socket takes the bytes, what is written is a sequence of whole frames, cut only where the rest
  still waits in the queue or the connection closed; the byte count of the queue is exact and both
  queues keep their limits.\<close>

theorem wire_carries_whole_frames:
  assumes "tx_run Z c xs = (c', w)" "tx_ok c" "tc_tx_queue c = []"
  shows "tx_ok c' \<and> (\<exists>fs rest. list_all (encoded Z) fs \<and> w @ rest = concat fs \<and>
    (tc_open c' \<longrightarrow> rest = unsent (tc_tx_queue c')))"
proof -
  from tx_run_sends [OF assms(1,2)] obtain fs where "sends Z c c' w fs" by blast
  then obtain lost where "tx_ok c'" "list_all (encoded Z) fs"
    "w @ unsent (tc_tx_queue c') @ lost = unsent (tc_tx_queue c) @ concat fs" "tc_open c' \<longrightarrow> lost = []"
    by (auto simp: sends_def)
  with assms(3) show ?thesis
    by (intro conjI exI [of _ fs] exI [of _ "unsent (tc_tx_queue c') @ lost"]) simp_all
qed

text \<open>Output of a session is reordered: an output that did not fit behind a long queue waits in
  the logical queue, the next one is shorter, fits and is sent first, because the fan-out tries the
  socket without looking at the logical queue.\<close>

theorem newer_output_overtakes_queued:
  assumes "tc_open c" "\<not> tc_exec_busy c" "tc_output_queue c = []" "\<not> tc_output_gap_pending c"
    and "tc_tx_queue c = [\<lparr>tf_data = p, tf_offset = 0\<rparr>]" "p \<noteq> []" "tc_tx_queue_bytes c = length p"
  defines "large \<equiv> version_has_cap (tc_remote_version c) kCapFrm2"
  assumes "encode Z (MOutput old) 0 large = Inr f" "encode Z (MOutput new) 0 large = Inr g"
    and "length p + length f > kTxQueueHighWaterBytes" "length p + length g \<le> kTxQueueHighWaterBytes"
    and "length f \<le> kTxQueueHighWaterBytes"
  shows "snd (tx_run Z c [(TxFan (MOutput old), []),
      (TxFan (MOutput new), [SslWrote (length p), SslWrote (length g)]),
      (TxDrain, [SslWrote (length f)])]) = p @ g @ f"
proof -
  let ?q = "\<lparr>qo_data = out_data old, qo_render_markdown = out_render_markdown old\<rparr>"
  let ?c1 = "c\<lparr>tc_output_queue := [?q]\<rparr>"
  have 1: "fan_out Z c (MOutput old) [] = (?c1, [], [])"
    using assms by (simp add: fan_out_def enqueue_too_long queue_output_def kOutputQueueHighWater_def)
  from enqueue_full [of ?c1 g "tc_tx_queue c" Z "MOutput new" 0] assms encode_not_Nil [OF assms(10)]
  obtain c2 where 2: "enqueue_frame Z ?c1 (MOutput new) 0 [SslWrote (length p), SslWrote (length g)] = (True, c2, p @ g, [])"
    "tc_tx_queue c2 = []" "tc_tx_queue_bytes c2 = 0" "tc_open c2" "\<not> tc_exec_busy c2"
    "tc_output_queue c2 = [?q]" "\<not> tc_output_gap_pending c2" "tc_remote_version c2 = tc_remote_version c"
    by auto
  have fan2: "fan_out Z ?c1 (MOutput new) [SslWrote (length p), SslWrote (length g)] = (c2, p @ g, [])"
    using 2(1) assms(1,2) by (simp add: fan_out_def)
  from enqueue_full [of c2 f "[]" Z "MOutput old" 0] 2 assms encode_not_Nil [OF assms(9)]
  obtain c3 where 3: "enqueue_frame Z c2 (MOutput old) 0 [SslWrote (length f)] = (True, c3, f, [])"
    "tc_tx_queue c3 = []" "tc_output_queue c3 = [?q]" by auto
  let ?c4 = "c3\<lparr>tc_output_queue := []\<rparr>"
  have "promote 8 Z c2 [SslWrote (length f)] = (?c4, f, [])"
    using 2(6) 3 by (simp add: eval_nat_numeral)
  moreover have "send_gap Z c2 [SslWrote (length f)] = (c2, [], [SslWrote (length f)])"
    using 2(7) by (simp add: send_gap_def)
  moreover have "\<not> nothing_to_send c2" using 2(6) by (simp add: nothing_to_send_def)
  ultimately have "drain_output_queue Z c2 [SslWrote (length f)] = (?c4, f, [])"
    using 2(4,5) 3(2) by (simp add: drain_output_cases(4))
  with 1 fan2 show ?thesis by simp
qed

text \<open>A burst of output of 64 KiB or more never reaches a peer without large frames: it is put
  into the logical queue because it cannot be encoded, and no turn of the drain, however many, takes
  it out again while the connection is open.\<close>

theorem large_output_never_reaches_legacy_peer:
  assumes "tc_open c" "\<not> tc_exec_busy c" "tc_output_queue c = []" "\<not> tc_output_gap_pending c"
    and "\<not> version_has_cap (tc_remote_version c) kCapFrm2" "length (out_data om) \<ge> MAX_FRAME_PAYLOAD_U16"
    and "fan_out Z c (MOutput om) evs = (c1, w1, rest)"
    and "tx_run Z c1 (map (\<lambda>evs. (TxDrain, evs)) ess) = (c2, w2)" "tc_open c2"
  shows "w1 = [] \<and> tc_output_queue c2 =
    [\<lparr>qo_data = out_data om, qo_render_markdown = out_render_markdown om\<rparr>]"
proof -
  note no = large_output_unencodable [OF assms(6)]
  have "enqueue_frame Z c (MOutput om) 0 evs = (False, c, [], evs)"
    using assms(5) no by (intro enqueue_unencodable) simp
  with assms have c1: "w1 = []" "c1 = c\<lparr>tc_output_queue :=
      [\<lparr>qo_data = out_data om, qo_render_markdown = out_render_markdown om\<rparr>]\<rparr>"
    by (auto simp: fan_out_def queue_output_def kOutputQueueHighWater_def)
  have "tc_output_queue c2 = [\<lparr>qo_data = out_data om, qo_render_markdown = out_render_markdown om\<rparr>]"
    by (rule drains_blocked [OF assms(8,9), where e = "''logical payload exceeds frame capacity''"])
      (use assms(4,5) c1(2) no in simp_all)
  with c1(1) show ?thesis by simp
qed

text \<open>A connection for the concrete runs.\<close>

definition idle_tx :: tx_conn where
  "idle_tx = \<lparr>tc_open = True, tc_exec_busy = False, tc_remote_version = ''1.0.0'',
     tc_output_queue = [], tc_output_dropped_bytes = 0, tc_output_gap_pending = False,
     tc_tx_queue = [], tc_tx_queue_bytes = 0, tc_want_write = False, tc_bytes_out = 0\<rparr>"

lemma idle_tx_legacy: "\<not> version_has_cap (tc_remote_version idle_tx) kCapFrm2"
  by code_simp

lemma wire_carries_whole_frames_witness:
  "\<exists>c' w fs rest. tx_run store_zstd idle_tx [(TxSend MPing 0, [SslWrote 4]), (TxFlush, [SslWrote 9])] = (c', w) \<and>
     w @ rest = concat fs \<and> list_all (encoded store_zstd) fs"
proof -
  obtain c' w where r: "tx_run store_zstd idle_tx [(TxSend MPing 0, [SslWrote 4]), (TxFlush, [SslWrote 9])] = (c', w)"
    by fastforce
  from wire_carries_whole_frames [OF r] show ?thesis
    using r by (auto simp: idle_tx_def tx_ok_def)
qed

lemma short_output_frame:
  assumes "length s < 255"
  shows "encode Z (MOutput \<lparr>out_data = s, out_render_markdown = False\<rparr>) 0 False
     = Inr ([0, 0, 0x02, 0x02] @ write_u16 (word_of_nat (1 + length s)) @ 0 # bytes_of_string s)"
proof -
  have "serialize_msg (MOutput \<lparr>out_data = s, out_render_markdown = False\<rparr>) = Inr (0 # bytes_of_string s)"
    by (simp add: ser_OutputMsg_def ser_bool_def ser_u8_def ser_str_def ser_seq.simps)
  with assms show ?thesis
    by (simp add: encode_def frame_bytes_def frame_consts write_u16_def Let_def)
qed

lemma newer_output_overtakes_queued_witness:
  "\<exists>p c. length p = 8388600 \<and> snd (tx_run store_zstd c
      [(TxFan (MOutput \<lparr>out_data = ''older'', out_render_markdown = False\<rparr>), []),
       (TxFan (MOutput \<lparr>out_data = ''n'', out_render_markdown = False\<rparr>), [SslWrote 8388600, SslWrote 8]),
       (TxDrain, [SslWrote 12])])
    = p @ ([0, 0, 0x02, 0x02, 0, 2, 0] @ bytes_of_string ''n'')
        @ ([0, 0, 0x02, 0x02, 0, 6, 0] @ bytes_of_string ''older'')"
proof -
  obtain p :: bytes where p: "length p = 8388600"
    by (rule that [of "replicate 8388600 0"]) (rule length_replicate)
  let ?c = "idle_tx\<lparr>tc_tx_queue := [\<lparr>tf_data = p, tf_offset = 0\<rparr>], tc_tx_queue_bytes := 8388600\<rparr>"
  have v: "\<not> version_has_cap (tc_remote_version ?c) kCapFrm2" using idle_tx_legacy by simp
  have f: "encode store_zstd (MOutput \<lparr>out_data = ''older'', out_render_markdown = False\<rparr>) 0 False
      = Inr ([0, 0, 0x02, 0x02, 0, 6, 0] @ bytes_of_string ''older'')"
    and g: "encode store_zstd (MOutput \<lparr>out_data = ''n'', out_render_markdown = False\<rparr>) 0 False
      = Inr ([0, 0, 0x02, 0x02, 0, 2, 0] @ bytes_of_string ''n'')"
    using short_output_frame [of "''older''" store_zstd] short_output_frame [of "''n''" store_zstd]
    by (simp_all add: write_u16_def)
  let ?f = "[0, 0, 0x02, 0x02, 0, 6, 0] @ bytes_of_string ''older''"
  let ?g = "[0, 0, 0x02, 0x02, 0, 2, 0] @ bytes_of_string ''n''"
  have len: "length ?f = 12" "length ?g = 8" by simp_all
  have "snd (tx_run store_zstd ?c
      [(TxFan (MOutput \<lparr>out_data = ''older'', out_render_markdown = False\<rparr>), []),
       (TxFan (MOutput \<lparr>out_data = ''n'', out_render_markdown = False\<rparr>), [SslWrote (length p), SslWrote (length ?g)]),
       (TxDrain, [SslWrote (length ?f)])]) = p @ ?g @ ?f"
    using f g v p unfolding idle_tx_def
    by (intro newer_output_overtakes_queued) (auto simp: kTxQueueHighWaterBytes_def simp del: append_Cons)
  then have "snd (tx_run store_zstd ?c
      [(TxFan (MOutput \<lparr>out_data = ''older'', out_render_markdown = False\<rparr>), []),
       (TxFan (MOutput \<lparr>out_data = ''n'', out_render_markdown = False\<rparr>), [SslWrote 8388600, SslWrote 8]),
       (TxDrain, [SslWrote 12])]) = p @ ?g @ ?f"
    unfolding len p .
  with p show ?thesis by blast
qed

lemma large_output_never_reaches_legacy_peer_witness:
  "\<exists>s c1. length s = 65535 \<and> fan_out store_zstd idle_tx (MOutput \<lparr>out_data = s, out_render_markdown = False\<rparr>) [SslWrote 9] = (c1, [], [SslWrote 9]) \<and>
     tc_output_queue (fst (tx_run store_zstd c1 [(TxDrain, [SslWrote 70000]), (TxDrain, [SslWrote 70000])]))
       = [\<lparr>qo_data = s, qo_render_markdown = False\<rparr>]"
proof -
  obtain s :: string where s: "length s = 65535"
    by (rule that [of "replicate 65535 (CHR ''x'')"]) (rule length_replicate)
  let ?om = "\<lparr>out_data = s, out_render_markdown = False\<rparr>"
  let ?c1 = "idle_tx\<lparr>tc_output_queue := [\<lparr>qo_data = s, qo_render_markdown = False\<rparr>]\<rparr>"
  have big: "length (out_data ?om) \<ge> MAX_FRAME_PAYLOAD_U16" using s by (simp add: MAX_FRAME_PAYLOAD_U16_def)
  have idle: "tc_open idle_tx" "\<not> tc_exec_busy idle_tx" "tc_output_queue idle_tx = []"
    "\<not> tc_output_gap_pending idle_tx" "tc_tx_queue idle_tx = []" by (simp_all add: idle_tx_def)
  have no: "enqueue_frame store_zstd c (MOutput ?om) 0 evs = (False, c, [], evs)"
    if "tc_remote_version c = tc_remote_version idle_tx" for c evs
    using that idle_tx_legacy large_output_unencodable [OF big] by (intro enqueue_unencodable) simp
  have fan: "fan_out store_zstd idle_tx (MOutput ?om) [SslWrote 9] = (?c1, [], [SslWrote 9])"
    using idle no by (simp add: fan_out_def queue_output_def kOutputQueueHighWater_def)
  have stay: "drain_output_queue store_zstd ?c1 evs = (?c1, [], evs)" for evs
    using idle no by (simp add: drain_output_queue_def nothing_to_send_def send_gap_def eval_nat_numeral
        kOutputQueueHighWater_def)
  have run: "tx_run store_zstd ?c1 (map (\<lambda>evs. (TxDrain, evs)) [[SslWrote 70000], [SslWrote 70000]]) = (?c1, [])"
    using stay by simp
  have "tc_open ?c1" using idle by simp
  from large_output_never_reaches_legacy_peer [OF idle(1-4) idle_tx_legacy big fan run this] fan s run
  show ?thesis by (intro exI [of _ s] exI [of _ ?c1]) simp
qed

end
