(* ===== verification/Registry.thy ===== *)
theory Registry
  imports Session_Io Bounded_Log Messages
begin

text \<open>
  The session registry of bs-session-registry.h on POSIX: attaching and detaching connections,
  the effective geometry, killing, reaping and pruning sessions, and what survives a restart of
  the daemon. The results of the system calls an operation makes are its environment, what it does
  to the outside are its effects. \<open>unordered_map\<close> is an association list ordered by its keys: the
  source promises no order. Times are nanoseconds of the steady clock.
\<close>

section \<open>Names and commands\<close>

datatype SessionCommandSource = ClientOverride | NamedProfile | ConfigDefault

record ResolvedSessionCommand =
  rsc_command :: string
  rsc_source :: SessionCommandSource

definition is_ephemeral_session_name :: "string \<Rightarrow> bool" where
  "is_ephemeral_session_name name \<longleftrightarrow>
     is_prefix ''health-'' name \<or> is_prefix ''cmd-'' name \<or> is_prefix ''oneshot-'' name \<or>
     is_prefix ''script-'' name \<or> is_prefix ''hcheck-'' name \<or> is_prefix ''vcheck-'' name \<or>
     is_prefix ''tty-'' name"

fun session_kind_str :: "Kind \<Rightarrow> string" where
  "session_kind_str User = ''user''"
| "session_kind_str Harness = ''harness''"
| "session_kind_str Probe = ''probe''"

definition classify_session_kind :: "string \<Rightarrow> SessionCommandSource \<Rightarrow> Kind" where
  "classify_session_kind name source =
     (if is_prefix ''health-'' name \<or> is_prefix ''cmd-'' name \<or> is_prefix ''oneshot-'' name \<or>
         is_prefix ''script-'' name \<or> is_prefix ''hcheck-'' name \<or> is_prefix ''vcheck-'' name
      then Probe
      else if source = ClientOverride then Harness
      else User)"

definition prepare_session_command :: "ResolvedSessionCommand \<Rightarrow> string" where
  "prepare_session_command r = rsc_command r"

definition resolve_session_command ::
  "(string \<Rightarrow> string option) \<Rightarrow> string \<Rightarrow> string \<Rightarrow> string \<Rightarrow> ResolvedSessionCommand"
where
  "resolve_session_command session_commands default_shell name client =
     (if client \<noteq> [] then \<lparr>rsc_command = client, rsc_source = ClientOverride\<rparr>
      else case session_commands name of
        Some c \<Rightarrow>
          if c \<noteq> [] then \<lparr>rsc_command = c, rsc_source = NamedProfile\<rparr>
          else \<lparr>rsc_command = default_shell, rsc_source = ConfigDefault\<rparr>
      | None \<Rightarrow> \<lparr>rsc_command = default_shell, rsc_source = ConfigDefault\<rparr>)"

definition session_name_ok :: "string \<Rightarrow> bool" where
  "session_name_ok name \<longleftrightarrow> name \<noteq> [] \<and> list_all (\<lambda>c. code_of c > 0x20 \<and> code_of c \<noteq> 0x7F) name"

section \<open>State\<close>

record SessionHistoryEntry =
  he_name :: string
  he_peer :: string
  he_pid :: string
  he_state :: string
  he_exit_code :: "32 word"
  he_runtime_seconds :: u64
  he_bytes :: u64

record registry =
  rg_sessions :: "(string \<times> Session) list"
  rg_next_attach_id :: u32
  rg_recent :: "SessionHistoryEntry list"
  rg_app_home :: string
  rg_worker_exe :: string
  rg_generation :: u64
  rg_pruned_since_log :: nat
  rg_expired_since_log :: nat
  rg_last_prune_log :: int

definition kMaxRecentSessions :: nat where "kMaxRecentSessions = 50"

definition seconds :: "int \<Rightarrow> int" where "seconds n = n * 1000000000"

definition to_seconds :: "int \<Rightarrow> int" where
  "to_seconds d = (if d < 0 then - (- d div 1000000000) else d div 1000000000)"

datatype wait_result = WaitNone | WaitStatus exit_status | WaitEchild | WaitError

text \<open>What the system answers during one operation. For a hosted spawn: whether a worker already
  serves the name, the descriptors and the process that connecting and spawning give, whether the
  worker exited meanwhile, its first message, its pid file and whether the socket became
  non-blocking. For the rest: the clocks, \<open>forkpty\<close> with the descriptor and the child, whether
  the descriptor became non-blocking, what \<open>waitpid\<close> says of a child, what a worker's socket
  delivers and takes, and whether a worker that was told to end is gone.\<close>

record hosted_env =
  hv_ping :: bool
  hv_connect :: int
  hv_spawn :: int
  hv_wait_connect :: int
  hv_exited :: bool
  hv_ready :: "(byte \<times> bytes) option"
  hv_pid_file :: "int option"
  hv_nonblock :: bool

record reg_env =
  re_now :: int
  re_sys :: int
  re_parent :: string
  re_worker_enabled :: bool
  re_hosted :: "string \<Rightarrow> hosted_env"
  re_pty_nonblock :: bool
  re_forkpty :: "string \<Rightarrow> string \<Rightarrow> u16 \<Rightarrow> u16 \<Rightarrow> string \<Rightarrow> (int \<times> int) option"
  re_wait :: "int \<Rightarrow> wait_result"
  re_pump :: "string \<Rightarrow> sock_read list"
  re_take :: "string \<Rightarrow> sock_write list"
  re_worker_stopped :: "string \<Rightarrow> bool"
  re_worker_dead :: "int \<Rightarrow> bool"

datatype reg_effect =
  EffResize int u16 u16
| EffWorkerBytes string bytes
| EffSignal int int
| EffShutdown string
| EffTerminate int
| EffKillGroup int
| EffErased string
| EffStopUnit string

definition live :: "Session \<Rightarrow> bool" where
  "live s \<longleftrightarrow> s_state s = Running \<or> s_state s = Detached \<or> s_state s = Attached"

definition lookup :: "registry \<Rightarrow> string \<Rightarrow> Session option" where
  "lookup R name = map_of (rg_sessions R) name"

definition put :: "string \<Rightarrow> Session \<Rightarrow> registry \<Rightarrow> registry" where
  "put name s R = R\<lparr>rg_sessions := map_put name s (rg_sessions R)\<rparr>"

definition erase :: "string \<Rightarrow> registry \<Rightarrow> registry" where
  "erase name R = R\<lparr>rg_sessions := map_del name (rg_sessions R)\<rparr>"

section \<open>History and runtimes\<close>

definition session_pid_string :: "Session \<Rightarrow> string" where
  "session_pid_string s = (if s_child_pid s > 0 then dec_digits (nat (s_child_pid s)) else ''-'')"

definition history_append :: "SessionHistoryEntry list \<Rightarrow> SessionHistoryEntry \<Rightarrow> SessionHistoryEntry list" where
  "history_append recent h =
     (let r = recent @ [h] in
      if length r > kMaxRecentSessions then drop (length r - kMaxRecentSessions) r else r)"

definition record_history :: "reg_env \<Rightarrow> Session \<Rightarrow> 32 word \<Rightarrow> string \<Rightarrow> registry \<Rightarrow> Session \<times> registry" where
  "record_history E s code st R =
     (if s_history_recorded s then (s, R)
      else
        let h = \<lparr>he_name = s_name s,
                 he_peer = (case s_peer_ids s of [] \<Rightarrow> ''-'' | p # _ \<Rightarrow> take 16 p),
                 he_pid = session_pid_string s, he_state = st, he_exit_code = code,
                 he_runtime_seconds = word_of_int (to_seconds (re_now E - s_created_at s)),
                 he_bytes = total_written (s_scrollback s)\<rparr>
        in (s\<lparr>s_history_recorded := True\<rparr>, R\<lparr>rg_recent := history_append (rg_recent R) h\<rparr>))"

text \<open>The destructor of a session kills the process group of a child that is the daemon's own.\<close>

definition destroy_effects :: "Session \<Rightarrow> reg_effect list" where
  "destroy_effects s = (if s_child_pid s > 0 \<and> \<not> s_hosted s then [EffKillGroup (s_child_pid s)] else [])"

definition install_spawned_runtime :: "Session \<Rightarrow> Session \<Rightarrow> SessionState \<Rightarrow> Session" where
  "install_spawned_runtime target spawned st =
     spawned\<lparr>s_peer_ids := s_peer_ids target, s_attachments := s_attachments target,
       s_scrollback := s_scrollback target, s_pending_input := s_pending_input target,
       s_input_backpressured := s_input_backpressured target,
       s_last_attach_at := s_last_attach_at target, s_auto_restart := s_auto_restart target,
       s_restart_failures := s_restart_failures target,
       s_restart_window_start := s_restart_window_start target, s_kind := s_kind target,
       s_parent_id := s_parent_id target, s_detach_signal := s_detach_signal target,
       s_owner_pubkey := s_owner_pubkey target, s_history_recorded := False, s_state := st\<rparr>"

text \<open>\<open>create_session\<close>: the fork with its PTY.\<close>

definition next_generation :: "registry \<Rightarrow> registry" where
  "next_generation R = R\<lparr>rg_generation := rg_generation R + 1\<rparr>"

definition create_session ::
  "reg_env \<Rightarrow> registry \<Rightarrow> string \<Rightarrow> string \<Rightarrow> u16 \<Rightarrow> u16 \<Rightarrow> string \<Rightarrow> Session option \<times> reg_effect list"
where
  "create_session E R name command cols rows trm =
     (case re_forkpty E name command cols rows trm of
        None \<Rightarrow> (None, [])
      | Some (fd, child) \<Rightarrow>
          if \<not> re_pty_nonblock E then (None, [EffSignal child 15])
          else
            (Some ((new_Session (re_now E) (re_sys E))
              \<lparr>s_name := name, s_command := command, s_parent_id := re_parent E, s_master_fd := fd,
               s_child_pid := child, s_generation := rg_generation R + 1, s_state := Running\<rparr>), []))"

text \<open>\<open>create_session_hosted\<close>: an orphaned worker of the same name is used again; otherwise a worker
  is started. A start that fails leaves no worker behind.\<close>

definition worker_cleanup :: "string \<Rightarrow> int \<Rightarrow> reg_effect list" where
  "worker_cleanup name wpid = EffTerminate wpid # (if wpid = 0 then [EffStopUnit name] else [])"

definition create_session_hosted ::
  "reg_env \<Rightarrow> registry \<Rightarrow> string \<Rightarrow> string \<Rightarrow> Session option \<times> reg_effect list"
where
  "create_session_hosted E R name command =
     (let h = re_hosted E name in
      if rg_app_home R = [] \<or> rg_worker_exe R = [] then (None, [])
      else if length (worker_socket_path (rg_app_home R) name) \<ge> 100 then (None, [])
      else if \<not> hv_ping h \<and> hv_spawn h < 0 then (None, [])
      else
        let wpid = (if hv_ping h then -1 else hv_spawn h);
            fd = (if hv_ping h then hv_connect h else hv_wait_connect h) in
        if fd < 0 then (None, if \<not> hv_ping h \<and> hv_exited h then [] else worker_cleanup name wpid)
        else case hv_ready h of
          None \<Rightarrow> (None, worker_cleanup name wpid)
        | Some (t, d) \<Rightarrow>
            let child = (if length d \<ge> 4 then sint (be32_at d (length d - 4)) else -1) in
            if t \<noteq> WMSG_READY \<or> child \<le> 0 then (None, worker_cleanup name wpid)
            else
              let wpid' = (case hv_pid_file h of Some v \<Rightarrow> if v > 0 then v else wpid | None \<Rightarrow> wpid) in
              if \<not> hv_nonblock h
              then (None, if wpid' > 0 then [EffSignal wpid' 15] else if wpid' = 0 then [EffStopUnit name] else [])
              else
                (Some ((new_Session (re_now E) (re_sys E))
                   \<lparr>s_name := name, s_command := command, s_parent_id := re_parent E, s_hosted := True,
                    s_worker_pid := wpid', s_master_fd := fd, s_child_pid := child,
                    s_generation := rg_generation R + 1, s_state := Running\<rparr>), []))"

text \<open>\<open>spawn_session_runtime\<close>: the worker first, the direct fork when it fails or is disabled.\<close>

definition spawn_session_runtime ::
  "reg_env \<Rightarrow> registry \<Rightarrow> string \<Rightarrow> string \<Rightarrow> u16 \<Rightarrow> u16 \<Rightarrow> string \<Rightarrow> Session option \<times> reg_effect list"
where
  "spawn_session_runtime E R name command cols rows trm =
     (if re_worker_enabled E \<and> rg_app_home R \<noteq> [] \<and> rg_worker_exe R \<noteq> [] then
        (case create_session_hosted E R name command of
           (Some s, fx) \<Rightarrow> (Some s, fx)
         | (None, fx) \<Rightarrow> (case create_session E R name command cols rows trm of (r, gx) \<Rightarrow> (r, fx @ gx)))
      else create_session E R name command cols rows trm)"

definition add_peer :: "string \<Rightarrow> Session \<Rightarrow> Session" where
  "add_peer pk s =
     (if pk \<noteq> [] \<and> pk \<notin> set (s_peer_ids s) then s\<lparr>s_peer_ids := s_peer_ids s @ [pk]\<rparr> else s)"

section \<open>Geometry\<close>

definition min_geometry :: "u16 \<Rightarrow> u16 \<Rightarrow> (u32 \<times> Attachment) list \<Rightarrow> u16 \<times> u16" where
  "min_geometry c r atts = foldl (\<lambda>(c, r) (_, a). (min c (at_cols a), min r (at_rows a))) (c, r) atts"

definition apply_min_geometry :: "reg_env \<Rightarrow> Session \<Rightarrow> Session \<times> reg_effect list" where
  "apply_min_geometry E s =
     (if s_attachments s = [] then (s, [])
      else case min_geometry 0xFFFF 0xFFFF (s_attachments s) of (c, r) \<Rightarrow>
        if s_master_fd s \<ge> 0 then
          if s_hosted s then
            case worker_queue_frame s WMSG_RESIZE (write_u16 c @ write_u16 r) (re_take E (s_name s)) of
              (s', w) \<Rightarrow> (s', [EffWorkerBytes (s_name s) w])
          else (s, [EffResize (s_master_fd s) c r])
        else (s, []))"

text \<open>The session that has an attachment.\<close>

definition session_by_attach_id :: "u32 \<Rightarrow> registry \<Rightarrow> (string \<times> Session) option" where
  "session_by_attach_id aid R = find (\<lambda>(_, s). map_of (s_attachments s) aid \<noteq> None) (rg_sessions R)"

definition set_attachment_geometry ::
  "reg_env \<Rightarrow> u32 \<Rightarrow> u16 \<Rightarrow> u16 \<Rightarrow> registry \<Rightarrow> registry \<times> reg_effect list"
where
  "set_attachment_geometry E aid cols rows R =
     (let cols = max cols 20; rows = max rows 5 in
      case session_by_attach_id aid R of
        None \<Rightarrow> (R, [])
      | Some (name, s) \<Rightarrow>
          (case map_of (s_attachments s) aid of
             None \<Rightarrow> (R, [])
           | Some a \<Rightarrow>
               (case apply_min_geometry E
                       (s\<lparr>s_attachments := map_put aid (a\<lparr>at_cols := cols, at_rows := rows\<rparr>) (s_attachments s)\<rparr>) of
                  (s', fx) \<Rightarrow> (put name s' R, fx))))"

section \<open>Attaching\<close>

text \<open>The session a connection gets: the live one, a replacement in the same entry or a new one.
  \<open>None\<close> is a refusal; a refused replacement still leaves its traces in the entry.\<close>

definition replace_session ::
  "reg_env \<Rightarrow> string \<Rightarrow> ResolvedSessionCommand \<Rightarrow> u16 \<Rightarrow> u16 \<Rightarrow> string \<Rightarrow> string \<Rightarrow> bool \<Rightarrow> Session \<Rightarrow> registry \<Rightarrow>
   Session option \<times> registry \<times> reg_effect list"
where
  "replace_session E name res cols rows trm pk force s R =
     (case record_history E s (-1) (session_state_str (s_state s)) R of (s1, R1) \<Rightarrow>
        let s2 = s1\<lparr>s_attachments := []\<rparr>;
            stop = force \<and> s_hosted s2;
            fx = (if stop
                  then (if s_master_fd s2 \<ge> 0 then [EffShutdown name] else []) @ [EffTerminate (s_worker_pid s2)]
                  else []) in
        if stop \<and> \<not> re_worker_stopped E name then (None, put name s2 R1, fx)
        else
          let s3 = (if stop then release_exited_runtime s2 else s2) in
          case spawn_session_runtime E R1 name (prepare_session_command res) cols rows trm of
            (None, sx) \<Rightarrow> (None, put name s3 R1, fx @ sx)
          | (Some n, sx) \<Rightarrow>
              let s4 = add_peer pk
                (install_spawned_runtime s3 (n\<lparr>s_kind := classify_session_kind name (rsc_source res)\<rparr>) Attached) in
              (Some s4, put name s4 (next_generation R1), fx @ sx @ destroy_effects s3))"

definition session_for_attach ::
  "reg_env \<Rightarrow> string \<Rightarrow> ResolvedSessionCommand \<Rightarrow> u16 \<Rightarrow> u16 \<Rightarrow> string \<Rightarrow> string \<Rightarrow> bool \<Rightarrow> registry \<Rightarrow>
   Session option \<times> registry \<times> reg_effect list"
where
  "session_for_attach E name res cols rows trm pk require_live R =
     (case lookup R name of
        None \<Rightarrow>
          if require_live then (None, R, [])
          else (case spawn_session_runtime E R name (prepare_session_command res) cols rows trm of
             (None, sx) \<Rightarrow> (None, R, sx)
           | (Some n, sx) \<Rightarrow>
               let s = n\<lparr>s_state := Attached, s_kind := classify_session_kind name (rsc_source res),
                         s_owner_pubkey := pk, s_peer_ids := s_peer_ids n @ (if pk \<noteq> [] then [pk] else [])\<rparr> in
               (Some s, put name s (next_generation R), sx))
      | Some s \<Rightarrow>
          if require_live \<and> \<not> live s then (None, R, [])
          else
            let force = (\<not> require_live \<and> rsc_source res = ClientOverride \<and> rsc_command res \<noteq> []) in
            if live s \<and> (\<not> force \<or> s_attachments s \<noteq> []) then
              let s' = add_peer pk (s\<lparr>s_state := Attached, s_last_attach_at := re_now E\<rparr>) in
              (Some s', put name s' R, [])
            else replace_session E name res cols rows trm pk force s R)"

text \<open>\<open>fetch_add\<close> on the counter; 0 is skipped when it wraps.\<close>

definition take_attach_id :: "registry \<Rightarrow> u32 \<times> registry" where
  "take_attach_id R =
     (let n = rg_next_attach_id R in
      if n = 0 then (1, R\<lparr>rg_next_attach_id := 2\<rparr>) else (n, R\<lparr>rg_next_attach_id := n + 1\<rparr>))"

definition attach_connection ::
  "reg_env \<Rightarrow> string \<Rightarrow> ResolvedSessionCommand \<Rightarrow> u16 \<Rightarrow> u16 \<Rightarrow> string \<Rightarrow> string \<Rightarrow> bool \<Rightarrow> bool \<Rightarrow> registry \<Rightarrow>
   (u32 \<times> u16 \<times> u16) option \<times> registry \<times> reg_effect list"
where
  "attach_connection E name res cols rows trm pk spectator require_live R =
     (if \<not> session_name_ok name then (None, R, [])
      else case session_for_attach E name res cols rows trm pk require_live R of
        (None, R1, fx) \<Rightarrow> (None, R1, fx)
      | (Some s, R1, fx) \<Rightarrow>
          (case take_attach_id R1 of (aid, R2) \<Rightarrow>
             let att = \<lparr>at_attach_id = aid, at_cols = cols, at_rows = rows, at_spectator = spectator, at_pubkey = pk\<rparr>;
                 s1 = s\<lparr>s_attachments := map_put aid att (s_attachments s)\<rparr> in
             case min_geometry cols rows (s_attachments s1) of (c, r) \<Rightarrow>
             case apply_min_geometry E s1 of (s2, gx) \<Rightarrow>
               (Some (aid, c, r), put name s2 R2, fx @ gx)))"


section \<open>Detaching\<close>

text \<open>The signal numbers are those of Linux.\<close>

definition resolve_detach_signal :: "string \<Rightarrow> int" where
  "resolve_detach_signal name =
     (if name = [] then -1
      else if name = ''HUP'' then 1
      else if name = ''TERM'' then 15
      else if name = ''INT'' then 2
      else if name = ''QUIT'' then 3
      else if name = ''KILL'' then 9
      else -1)"

text \<open>A session that lost its last attachment: the requested signal, then \<open>Detached\<close>.\<close>

definition leave_session :: "Session \<Rightarrow> Session \<times> reg_effect list" where
  "leave_session s =
     (if s_state s = Attached \<or> s_state s = Running then
        (s\<lparr>s_state := Detached\<rparr>,
         (let sig = resolve_detach_signal (s_detach_signal s) in
          if s_detach_signal s \<noteq> [] \<and> sig \<ge> 0 \<and> s_child_pid s \<noteq> 0 then [EffSignal (s_child_pid s) sig] else []))
      else (s, []))"

text \<open>\<open>detach(attach_id)\<close>: whether attachments remain.\<close>

definition forget_peer :: "string \<Rightarrow> Session \<Rightarrow> Session" where
  "forget_peer pk s =
     (if pk \<noteq> [] \<and> list_all (\<lambda>(_, a). at_pubkey a \<noteq> pk) (s_attachments s)
      then s\<lparr>s_peer_ids := filter (\<lambda>p. p \<noteq> pk) (s_peer_ids s)\<rparr> else s)"

definition settle :: "Session \<Rightarrow> Session \<times> reg_effect list" where
  "settle s = (if s_attachments s = [] then leave_session s else (s, []))"

definition drop_attachment :: "reg_env \<Rightarrow> u32 \<Rightarrow> Session \<Rightarrow> Session \<times> reg_effect list" where
  "drop_attachment E aid s =
     (let pk = (case map_of (s_attachments s) aid of Some a \<Rightarrow> at_pubkey a | None \<Rightarrow> []) in
      case apply_min_geometry E (s\<lparr>s_attachments := map_del aid (s_attachments s)\<rparr>) of (s1, gx) \<Rightarrow>
      case settle (forget_peer pk s1) of (s2, fx) \<Rightarrow> (s2, gx @ fx))"

definition detach_attachment :: "reg_env \<Rightarrow> u32 \<Rightarrow> registry \<Rightarrow> bool \<times> registry \<times> reg_effect list" where
  "detach_attachment E aid R =
     (case session_by_attach_id aid R of
        None \<Rightarrow> (False, R, [])
      | Some (name, s) \<Rightarrow>
          (case drop_attachment E aid s of (s', fx) \<Rightarrow> (s_attachments s' \<noteq> [], put name s' R, fx)))"

text \<open>\<open>detach(name, peer_pubkey)\<close>.\<close>

definition drop_peer :: "string \<Rightarrow> Session \<Rightarrow> Session" where
  "drop_peer pk s =
     (let s1 = s\<lparr>s_attachments := filter (\<lambda>(_, a). at_pubkey a \<noteq> pk) (s_attachments s)\<rparr> in
      if pk \<noteq> [] then s1\<lparr>s_peer_ids := filter (\<lambda>p. p \<noteq> pk) (s_peer_ids s1)\<rparr> else s1)"

definition detach_peer :: "string \<Rightarrow> string \<Rightarrow> registry \<Rightarrow> bool \<times> registry \<times> reg_effect list" where
  "detach_peer name pk R =
     (case lookup R name of
        None \<Rightarrow> (False, R, [])
      | Some s \<Rightarrow>
          let s2 = drop_peer pk s in
          case settle s2 of (s3, fx) \<Rightarrow>
            (s_attachments s3 \<noteq> [], put name s3 R, fx))"

text \<open>\<open>detach_all(name)\<close> and \<open>detach(name)\<close>, which do the same.\<close>

definition detach_all :: "string \<Rightarrow> registry \<Rightarrow> bool \<times> registry \<times> reg_effect list" where
  "detach_all name R =
     (case lookup R name of
        None \<Rightarrow> (False, R, [])
      | Some s \<Rightarrow>
          (case leave_session (s\<lparr>s_attachments := [], s_peer_ids := []\<rparr>) of
             (s1, fx) \<Rightarrow> (False, put name s1 R, fx)))"

section \<open>Killing and reaping\<close>

definition shutdown_effects :: "string \<Rightarrow> Session \<Rightarrow> reg_effect list" where
  "shutdown_effects name s =
     (if s_hosted s
      then (if s_master_fd s \<ge> 0 then [EffShutdown name] else []) @ [EffTerminate (s_worker_pid s)]
      else [])"

definition kill :: "reg_env \<Rightarrow> string \<Rightarrow> registry \<Rightarrow> bool \<times> registry \<times> reg_effect list" where
  "kill E name R =
     (case lookup R name of
        None \<Rightarrow> (False, R, [])
      | Some s \<Rightarrow>
          (case record_history E (s\<lparr>s_state := Killed\<rparr>) (-1) ''killed'' R of
             (s1, R1) \<Rightarrow> (True, erase name R1,
               shutdown_effects name s1 @ [EffErased (s_name s)] @ destroy_effects s1)))"

definition exit_code_of :: "exit_status \<Rightarrow> 32 word" where
  "exit_code_of st = (case st of WIfExited c \<Rightarrow> word_of_nat c | WIfSignaled n \<Rightarrow> word_of_nat (128 + n))"

text \<open>Whether the child of a session is dead, with its exit code, as \<open>reap_dead\<close> finds out.\<close>

definition observe_death :: "reg_env \<Rightarrow> Session \<Rightarrow> Session \<times> (32 word) option" where
  "observe_death E s =
     (if s_hosted s then
        let s1 = (if s_master_fd s \<ge> 0 \<and> \<not> s_worker_died s
                  then fst (pump_hosted_session s (re_pump E (s_name s))) else s) in
        (s1, if s_worker_died s1 then Some (s_worker_exit_code s1) else None)
      else if s_child_pid s > 0 then
        (s, (case re_wait E (s_child_pid s) of WaitStatus st \<Rightarrow> Some (exit_code_of st) | _ \<Rightarrow> None))
      else (s, None))"

definition restart_window :: int where "restart_window = seconds 60"

text \<open>The automatic restart: at most three in a minute, then the circuit breaker.\<close>

definition auto_restart :: "reg_env \<Rightarrow> registry \<Rightarrow> Session \<Rightarrow> Session \<times> registry \<times> reg_effect list" where
  "auto_restart E R s =
     (let s1 = (if re_now E - s_restart_window_start s > restart_window
                then reset_restart_failures (re_now E) s else s) in
      if s_restart_failures s1 < 3 then
        let s2 = s1\<lparr>s_restart_failures := s_restart_failures s1 + 1\<rparr> in
        case spawn_session_runtime E R (s_name s2) (s_command s2) 80 24 ''xterm-256color'' of
          (Some n, sx) \<Rightarrow>
            (install_spawned_runtime s2 n (if s_peer_ids s2 = [] then Detached else Attached),
             next_generation R, sx @ destroy_effects s2)
        | (None, sx) \<Rightarrow> (s2\<lparr>s_state := Exited\<rparr>, R, sx)
      else (s1\<lparr>s_state := Exited\<rparr>, R, []))"

definition reap_session :: "reg_env \<Rightarrow> bool \<Rightarrow> Session \<Rightarrow> registry \<Rightarrow> Session \<times> registry \<times> reg_effect list" where
  "reap_session E include_attached s R =
     (if (\<not> include_attached \<and> s_state s = Attached) \<or> \<not> live s then (s, R, [])
      else case observe_death E s of
        (s1, None) \<Rightarrow> (s1, R, [])
      | (s1, Some code) \<Rightarrow>
          (case record_history E (s1\<lparr>s_state := Died\<rparr>) code ''died'' R of (s2, R1) \<Rightarrow>
             let s3 = release_exited_runtime (s2\<lparr>s_child_pid := -1\<rparr>) in
             if s_auto_restart s3 then auto_restart E R1 s3
             else (s3, R1, [])))"

text \<open>A pass over the sessions of the registry. A session may be kept, changed, or erased.\<close>

fun for_sessions ::
  "(Session \<Rightarrow> registry \<Rightarrow> Session option \<times> registry \<times> reg_effect list) \<Rightarrow> string list \<Rightarrow> registry \<Rightarrow>
   registry \<times> reg_effect list"
where
  "for_sessions f [] R = (R, [])"
| "for_sessions f (k # ks) R =
     (case lookup R k of
        None \<Rightarrow> for_sessions f ks R
      | Some s \<Rightarrow>
          (case f s R of (r, R1, fx) \<Rightarrow>
             let R2 = (case r of Some s' \<Rightarrow> put k s' R1 | None \<Rightarrow> erase k R1) in
             case for_sessions f ks R2 of (R3, gx) \<Rightarrow> (R3, fx @ gx)))"

definition reap_dead :: "reg_env \<Rightarrow> bool \<Rightarrow> registry \<Rightarrow> registry \<times> reg_effect list" where
  "reap_dead E include_attached R =
     for_sessions (\<lambda>s R. case reap_session E include_attached s R of (s', R', fx) \<Rightarrow> (Some s', R', fx))
       (map fst (rg_sessions R)) R"

section \<open>Pruning\<close>

definition erase_effects :: "Session \<Rightarrow> reg_effect list" where
  "erase_effects s = EffErased (s_name s) # destroy_effects s"

definition is_idle :: "reg_env \<Rightarrow> int \<Rightarrow> Session \<Rightarrow> bool" where
  "is_idle E max_idle s \<longleftrightarrow> s_state s = Detached \<and> re_now E - s_last_output_at s > max_idle"

definition prune_idle_session ::
  "reg_env \<Rightarrow> int \<Rightarrow> Session \<Rightarrow> registry \<Rightarrow> Session option \<times> registry \<times> reg_effect list"
where
  "prune_idle_session E max_idle s R =
     (if \<not> is_idle E max_idle s then (Some s, R, [])
      else
        let fx = shutdown_effects (s_name s) s in
        if s_hosted s \<and> \<not> re_worker_dead E (s_worker_pid s) then (Some s, R, fx)
        else case record_history E s (-1) ''pruned'' R of (s1, R1) \<Rightarrow> (None, R1, fx @ erase_effects s1))"

definition prune_idle :: "reg_env \<Rightarrow> int \<Rightarrow> registry \<Rightarrow> registry \<times> reg_effect list" where
  "prune_idle E max_idle R = for_sessions (prune_idle_session E max_idle) (map fst (rg_sessions R)) R"

definition terminal :: "Session \<Rightarrow> bool" where
  "terminal s \<longleftrightarrow> s_state s = Died \<or> s_state s = Exited \<or> s_state s = Killed"

definition prune_finished_session ::
  "reg_env \<Rightarrow> int \<Rightarrow> Session \<Rightarrow> registry \<Rightarrow> Session option \<times> registry \<times> reg_effect list"
where
  "prune_finished_session E max_age s R =
     (if \<not> terminal s then (Some (s\<lparr>s_finished_at := 0\<rparr>), R, [])
      else if s_finished_at s = 0 then (Some (s\<lparr>s_finished_at := re_now E\<rparr>), R, [])
      else if re_now E - s_finished_at s < max_age then (Some s, R, [])
      else case record_history E s (-1) ''finished_expired'' R of (s1, R1) \<Rightarrow> (None, R1, erase_effects s1))"

definition prune_finished_sessions :: "reg_env \<Rightarrow> int \<Rightarrow> registry \<Rightarrow> registry \<times> reg_effect list" where
  "prune_finished_sessions E max_age R =
     for_sessions (prune_finished_session E max_age) (map fst (rg_sessions R)) R"

datatype liveness = ChildDead Session registry | ChildAlive | LivenessError

definition probe_child :: "reg_env \<Rightarrow> Session \<Rightarrow> registry \<Rightarrow> liveness" where
  "probe_child E s R =
     (if s_hosted s then
        (if s_worker_died s \<or> s_state s = Died \<or> s_state s = Exited then ChildDead s R else ChildAlive)
      else if s_child_pid s \<le> 0 then ChildDead s R
      else case re_wait E (s_child_pid s) of
        WaitStatus st \<Rightarrow>
          (case record_history E s (exit_code_of st) ''died'' R of (s1, R1) \<Rightarrow>
             ChildDead (release_exited_runtime (s1\<lparr>s_child_pid := -1, s_state := Died\<rparr>)) R1)
      | WaitEchild \<Rightarrow> ChildDead (s\<lparr>s_child_pid := -1\<rparr>) R
      | WaitError \<Rightarrow> LivenessError
      | WaitNone \<Rightarrow> ChildAlive)"

definition prune_ephemeral_session ::
  "reg_env \<Rightarrow> int \<Rightarrow> Session \<Rightarrow> registry \<Rightarrow> Session option \<times> registry \<times> reg_effect list"
where
  "prune_ephemeral_session E max_age s R =
     (if \<not> is_ephemeral_session_name (s_name s) then (Some s, R, [])
      else if \<not> (re_now E - s_last_attach_at s > max_age \<or> re_now E - s_last_output_at s > max_age) then (Some s, R, [])
      else
        let R1 = R\<lparr>rg_expired_since_log := rg_expired_since_log R + 1\<rparr> in
        case probe_child E s R1 of
          LivenessError \<Rightarrow> (Some s, R1, [])
        | ChildAlive \<Rightarrow> (Some s, R1, [])
        | ChildDead s1 R2 \<Rightarrow>
            (case record_history E s1 (-1) ''ephemeral_pruned'' R2 of (s2, R3) \<Rightarrow>
               (None, R3\<lparr>rg_pruned_since_log := rg_pruned_since_log R3 + 1\<rparr>, erase_effects s2)))"

definition log_prunes :: "reg_env \<Rightarrow> registry \<Rightarrow> registry" where
  "log_prunes E R =
     (if (rg_pruned_since_log R > 0 \<or> rg_expired_since_log R > 0) \<and>
         (rg_last_prune_log R = 0 \<or> re_now E - rg_last_prune_log R \<ge> seconds 60)
      then R\<lparr>rg_pruned_since_log := 0, rg_expired_since_log := 0, rg_last_prune_log := re_now E\<rparr>
      else R)"

definition prune_ephemeral_sessions :: "reg_env \<Rightarrow> int \<Rightarrow> registry \<Rightarrow> registry \<times> reg_effect list" where
  "prune_ephemeral_sessions E max_age R =
     (case prune_finished_sessions E (seconds (48 * 3600)) R of (R1, fx) \<Rightarrow>
      case for_sessions (prune_ephemeral_session E max_age) (map fst (rg_sessions R1)) R1 of (R2, gx) \<Rightarrow>
        (log_prunes E R2, fx @ gx))"

section \<open>Persistence and adoption\<close>

record SessionMeta =
  sm_name :: string
  sm_owner_id :: string
  sm_command :: string
  sm_state :: string
  sm_created_at :: string

text \<open>\<open>std::stoll\<close>: blanks, a sign, digits, whatever follows; \<open>None\<close> when it throws.\<close>

definition stoll :: "string \<Rightarrow> int option" where
  "stoll s =
     (let t = dropWhile is_space s;
          u = (if t \<noteq> [] \<and> (hd t = CHR ''-'' \<or> hd t = CHR ''+'') then tl t else t);
          ds = takeWhile is_digit u;
          v = (if t \<noteq> [] \<and> hd t = CHR ''-'' then - int (parse_digits 0 ds) else int (parse_digits 0 ds)) in
      if ds = [] \<or> v < - (2 ^ 63) \<or> v \<ge> 2 ^ 63 then None else Some v)"

definition load_meta :: "reg_env \<Rightarrow> SessionMeta \<Rightarrow> registry \<Rightarrow> registry" where
  "load_meta E m R =
     (if lookup R (sm_name m) \<noteq> None then R
      else
        let sys = (if sm_created_at m = [] then re_sys E
                   else case stoll (sm_created_at m) of Some t \<Rightarrow> seconds t | None \<Rightarrow> re_sys E) in
        put (sm_name m)
          ((new_Session (re_now E) sys)\<lparr>s_name := sm_name m, s_command := sm_command m, s_state := Recoverable\<rparr>) R)"

definition load_persisted_sessions :: "reg_env \<Rightarrow> SessionMeta list \<Rightarrow> registry \<Rightarrow> registry" where
  "load_persisted_sessions E metas R = foldl (\<lambda>R m. load_meta E m R) R metas"

definition session_meta :: "Session \<Rightarrow> SessionMeta" where
  "session_meta s =
     \<lparr>sm_name = s_name s, sm_owner_id = [], sm_command = s_command s, sm_state = session_state_str (s_state s),
      sm_created_at = dec_int (to_seconds (s_created_at_sys s))\<rparr>"

text \<open>What \<open>save_persisted_sessions\<close> and \<open>save_sessions\<close> write: the command goes through
  \<open>redact_secrets\<close>.\<close>

definition saved_meta :: "SessionMeta \<Rightarrow> SessionMeta" where
  "saved_meta m = m\<lparr>sm_command := redact_secrets (sm_command m)\<rparr>"

definition save_persisted_sessions :: "registry \<Rightarrow> SessionMeta list" where
  "save_persisted_sessions R = map (\<lambda>(_, s). saved_meta (session_meta s)) (rg_sessions R)"

record discovered_worker =
  dw_fd :: int
  dw_child_pid :: int
  dw_session_name :: string
  dw_pid_file :: "int option"
  dw_nonblock_ok :: bool

definition adopt_worker :: "reg_env \<Rightarrow> discovered_worker \<Rightarrow> registry \<Rightarrow> registry" where
  "adopt_worker E dw R =
     (if dw_fd dw < 0 \<or> dw_child_pid dw \<le> 0 \<or> \<not> dw_nonblock_ok dw then R
      else
        let name = dw_session_name dw;
            wpid = (case dw_pid_file dw of Some v \<Rightarrow> if v > 0 then v else -1 | None \<Rightarrow> -1);
            s = (case lookup R name of Some s \<Rightarrow> s
                 | None \<Rightarrow> (new_Session (re_now E) (re_sys E))\<lparr>s_name := name\<rparr>);
            g = rg_generation R + 1 in
        (put name
          (touch_output (re_now E)
            (s\<lparr>s_hosted := True, s_worker_pid := wpid, s_master_fd := dw_fd dw, s_child_pid := dw_child_pid dw,
               s_worker_died := False, s_state := Detached, s_generation := g\<rparr>)) R)\<lparr>rg_generation := g\<rparr>)"

definition adopt_workers :: "reg_env \<Rightarrow> discovered_worker list \<Rightarrow> registry \<Rightarrow> registry" where
  "adopt_workers E ws R =
     (if rg_app_home R = [] then R else foldl (\<lambda>R w. adopt_worker E w R) R ws)"

definition resurrect ::
  "reg_env \<Rightarrow> string \<Rightarrow> u16 \<Rightarrow> u16 \<Rightarrow> string \<Rightarrow> registry \<Rightarrow> bool \<times> registry \<times> reg_effect list"
where
  "resurrect E name cols rows trm R =
     (case lookup R name of
        None \<Rightarrow> (False, R, [])
      | Some s \<Rightarrow>
          if s_state s \<noteq> Recoverable then (False, R, [])
          else (case spawn_session_runtime E R name
                       (prepare_session_command \<lparr>rsc_command = s_command s, rsc_source = NamedProfile\<rparr>) cols rows trm of
             (None, sx) \<Rightarrow> (False, R, sx)
           | (Some n, sx) \<Rightarrow>
               (True, put name (install_spawned_runtime s n Attached) (next_generation R), sx @ destroy_effects s)))"

definition list_sessions :: "reg_env \<Rightarrow> registry \<Rightarrow> SessionInfo list" where
  "list_sessions E R =
     map (\<lambda>(_, s). \<lparr>si_name = s_name s, si_state = session_state_str (s_state s),
                   si_uptime_seconds = word_of_int (to_seconds (re_now E - s_created_at s))\<rparr>) (rg_sessions R)"

end
