(* ===== verification/Registry_Inv.thy ===== *)
theory Registry_Inv
  imports Registry
begin

text \<open>
  The invariant of the session registry, its preservation by every operation, and the properties
  of attaching, detaching, killing, reaping and pruning.
\<close>

section \<open>The invariant\<close>

definition aids :: "Session \<Rightarrow> u32 set" where
  "aids s = fst ` set (s_attachments s)"

definition attachments_ok :: "(u32 \<times> Attachment) list \<Rightarrow> bool" where
  "attachments_ok m \<longleftrightarrow> ordered m \<and> (\<forall>(k, a) \<in> set m. at_attach_id a = k \<and> k \<noteq> 0)"

text \<open>A session of the registry: its name is its key, its attachments are keyed by their
  identifiers, the peers of its attachments are recorded, and a live session has a process.\<close>

definition session_ok :: "string \<Rightarrow> Session \<Rightarrow> bool" where
  "session_ok name s \<longleftrightarrow> s_name s = name \<and> attachments_ok (s_attachments s) \<and> distinct (s_peer_ids s) \<and>
     (\<forall>(k, a) \<in> set (s_attachments s). at_pubkey a \<noteq> [] \<longrightarrow> at_pubkey a \<in> set (s_peer_ids s)) \<and>
     (live s \<longrightarrow> s_child_pid s > 0)"

definition reg_ok :: "registry \<Rightarrow> bool" where
  "reg_ok R \<longleftrightarrow> ordered (rg_sessions R) \<and> length (rg_recent R) \<le> kMaxRecentSessions \<and>
     (\<forall>k s. lookup R k = Some s \<longrightarrow> session_ok k s) \<and>
     (\<forall>k s k' s'. lookup R k = Some s \<longrightarrow> lookup R k' = Some s' \<longrightarrow> aids s \<inter> aids s' \<noteq> {} \<longrightarrow> k = k')"

text \<open>Identifiers given out are below the counter, which has not wrapped.\<close>

definition ids_below :: "registry \<Rightarrow> bool" where
  "ids_below R \<longleftrightarrow> 0 < rg_next_attach_id R \<and>
     (\<forall>k s. lookup R k = Some s \<longrightarrow> (\<forall>aid \<in> aids s. aid < rg_next_attach_id R))"

text \<open>\<open>forkpty\<close> gives the parent the process identifier of the child, which is positive.\<close>

definition env_ok :: "reg_env \<Rightarrow> bool" where
  "env_ok E \<longleftrightarrow> (\<forall>name c cols rows trm fd child. re_forkpty E name c cols rows trm = Some (fd, child) \<longrightarrow> child > 0)"

section \<open>Lemmas\<close>

lemma lookup_put [simp]: "lookup (put k s R) j = (if j = k then Some s else lookup R j)"
  by (simp add: lookup_def put_def map_of_put)

lemma lookup_erase [simp]: "lookup (erase k R) j = (if j = k then None else lookup R j)"
  by (simp add: lookup_def erase_def map_of_del)

lemma put_simps [simp]:
  "rg_recent (put k s R) = rg_recent R" "rg_next_attach_id (put k s R) = rg_next_attach_id R"
  "rg_recent (erase k R) = rg_recent R" "rg_next_attach_id (erase k R) = rg_next_attach_id R"
  "rg_app_home (put k s R) = rg_app_home R" "rg_worker_exe (put k s R) = rg_worker_exe R"
  by (simp_all add: put_def erase_def)

lemma ordered_sessions [simp]:
  "ordered (rg_sessions R) \<Longrightarrow> ordered (rg_sessions (put k s R))"
  "ordered (rg_sessions R) \<Longrightarrow> ordered (rg_sessions (erase k R))"
  by (simp_all add: put_def erase_def ordered_put ordered_del)

interpretation history: bounded_log kMaxRecentSessions history_append
  by unfold_locales (simp_all add: history_append_def kMaxRecentSessions_def Let_def drop_Suc)

definition aids_at :: "registry \<Rightarrow> string \<Rightarrow> u32 set" where
  "aids_at R k = (case lookup R k of Some s \<Rightarrow> aids s | None \<Rightarrow> {})"

text \<open>The two ways an operation changes the sessions: an entry whose attachments only shrink, and
  an entry removed. Everything else of the registry but the history may change.\<close>

definition reg_inv :: "registry \<Rightarrow> bool" where "reg_inv R \<longleftrightarrow> reg_ok R \<and> ids_below R"

lemma inv_put:
  assumes "reg_inv R" "session_ok k s" "aids s \<subseteq> aids_at R k"
  shows "reg_inv (put k s R)"
proof -
  have old: "\<exists>s'. lookup R k = Some s' \<and> a \<in> aids s'" if "a \<in> aids s" for a
    using assms(3) that by (auto simp: aids_at_def split: option.splits)
  have "reg_ok (put k s R)"
    unfolding reg_ok_def
  proof (intro conjI allI impI)
    fix j t j' t'
    assume l: "lookup (put k s R) j = Some t" "lookup (put k s R) j' = Some t'" and "aids t \<inter> aids t' \<noteq> {}"
    then obtain a where a: "a \<in> aids t" "a \<in> aids t'" by blast
    from l(1) a(1) old obtain u where u: "lookup R j = Some u" "a \<in> aids u" by (auto split: if_splits)
    from l(2) a(2) old obtain u' where u': "lookup R j' = Some u'" "a \<in> aids u'" by (auto split: if_splits)
    from u(2) u'(2) have "aids u \<inter> aids u' \<noteq> {}" by blast
    with u(1) u'(1) assms(1) show "j = j'" by (auto simp: reg_inv_def reg_ok_def)
  qed (use assms(1,2) in \<open>auto simp: reg_inv_def reg_ok_def split: if_splits\<close>)
  moreover have "ids_below (put k s R)"
    using assms(1) old by (fastforce simp: reg_inv_def ids_below_def split: if_splits)
  ultimately show ?thesis by (simp add: reg_inv_def)
qed

lemma inv_erase: "reg_inv R \<Longrightarrow> reg_inv (erase k R)"
  by (auto simp: reg_inv_def reg_ok_def ids_below_def split: if_splits)

lemma inv_same:
  assumes "reg_inv R" "rg_sessions R' = rg_sessions R" "rg_next_attach_id R' = rg_next_attach_id R"
    and "length (rg_recent R') \<le> kMaxRecentSessions"
  shows "reg_inv R'"
  using assms by (simp add: reg_inv_def reg_ok_def ids_below_def lookup_def)

lemma inv_session: "reg_inv R \<Longrightarrow> lookup R k = Some s \<Longrightarrow> session_ok k s"
  by (simp add: reg_inv_def reg_ok_def)

lemma inv_recent: "reg_inv R \<Longrightarrow> length (rg_recent R) \<le> kMaxRecentSessions"
  by (simp add: reg_inv_def reg_ok_def)

lemma lookup_next_generation [simp]: "lookup (next_generation R) k = lookup R k"
  by (simp add: lookup_def next_generation_def)

lemma inv_next_generation: "reg_inv R \<Longrightarrow> reg_inv (next_generation R)"
  by (rule inv_same) (simp_all add: next_generation_def inv_recent)

lemma record_history_registry:
  assumes "record_history E s code st R = (s', R')" "reg_inv R"
  shows "reg_inv R' \<and> lookup R' = lookup R \<and> rg_next_attach_id R' = rg_next_attach_id R \<and>
    s' = s\<lparr>s_history_recorded := True\<rparr>"
proof (cases "s_history_recorded s")
  case True
  with assms show ?thesis by (auto simp: record_history_def)
next
  case False
  with assms have R': "\<exists>h. R' = R\<lparr>rg_recent := history_append (rg_recent R) h\<rparr>" "s' = s\<lparr>s_history_recorded := True\<rparr>"
    by (auto simp: record_history_def Let_def)
  then obtain h where "R' = R\<lparr>rg_recent := history_append (rg_recent R) h\<rparr>" by blast
  with R'(2) assms(2) history.append_bound [OF inv_recent [OF assms(2)], of h] show ?thesis
    by (auto simp: lookup_def fun_eq_iff intro: inv_same)
qed

text \<open>Sessions with the same name, attachments and peers.\<close>

definition same_frame :: "Session \<Rightarrow> Session \<Rightarrow> bool" where
  "same_frame s t \<longleftrightarrow> s_name t = s_name s \<and> s_attachments t = s_attachments s \<and> s_peer_ids t = s_peer_ids s"

lemma session_ok_frame:
  "session_ok k s \<Longrightarrow> same_frame s t \<Longrightarrow> (live t \<Longrightarrow> s_child_pid t > 0) \<Longrightarrow> session_ok k t"
  by (auto simp: session_ok_def same_frame_def)

lemma aids_frame: "same_frame s t \<Longrightarrow> aids t = aids s"
  by (simp add: aids_def same_frame_def)

lemma inv_put_frame:
  assumes "reg_inv R" "lookup R k = Some s" "same_frame s t" "live t \<Longrightarrow> s_child_pid t > 0"
  shows "reg_inv (put k t R)"
  using assms session_ok_frame [OF inv_session [OF assms(1,2)] assms(3,4)]
  by (intro inv_put) (simp_all add: aids_at_def aids_frame)

lemma spawned_session:
  assumes "spawn_session_runtime E R name c cols rows trm = (Some n, fx)" "env_ok E"
  shows "s_name n = name \<and> s_attachments n = [] \<and> s_peer_ids n = [] \<and> s_child_pid n > 0"
proof -
  have direct: "s_name n = name \<and> s_attachments n = [] \<and> s_peer_ids n = [] \<and> s_child_pid n > 0"
    if "create_session E R name c cols rows trm = (Some n, gx)" for gx
    using that assms(2) by (auto simp: create_session_def env_ok_def new_Session_def split: option.splits if_splits)
  have hosted: "s_name n = name \<and> s_attachments n = [] \<and> s_peer_ids n = [] \<and> s_child_pid n > 0"
    if "create_session_hosted E R name c = (Some n, gx)" for gx
    using that by (auto simp: create_session_hosted_def new_Session_def Let_def split: if_splits option.splits prod.splits)
  from assms(1) direct hosted show ?thesis
    by (auto simp: spawn_session_runtime_def split: if_splits prod.splits option.splits)
qed

lemma install_frame:
  "same_frame s (install_spawned_runtime s n st) \<longleftrightarrow> s_name n = s_name s"
  by (simp add: same_frame_def install_spawned_runtime_def)

lemma install_child [simp]: "s_child_pid (install_spawned_runtime s n st) = s_child_pid n"
  by (simp add: install_spawned_runtime_def)

lemma release_frame: "same_frame s (release_exited_runtime s)"
  by (simp add: same_frame_def release_exited_runtime_def)

lemma pump_frame_frame: "same_frame s t \<Longrightarrow> same_frame s (fst (pump_frame (t, out) m)) \<and>
    s_state (fst (pump_frame (t, out) m)) = s_state t \<and> s_child_pid (fst (pump_frame (t, out) m)) = s_child_pid t"
  by (auto simp: pump_frame_def same_frame_def split: prod.splits)

lemma pump_frames_frame:
  "same_frame s t \<Longrightarrow> same_frame s (fst (foldl pump_frame (t, out) ms)) \<and>
   s_state (fst (foldl pump_frame (t, out) ms)) = s_state t \<and>
   s_child_pid (fst (foldl pump_frame (t, out) ms)) = s_child_pid t"
proof (induction ms arbitrary: t out)
  case (Cons m ms)
  obtain t1 out1 where p: "pump_frame (t, out) m = (t1, out1)" by fastforce
  from pump_frame_frame [OF Cons.prems, of out m] p
    have "same_frame s t1" "s_state t1 = s_state t" "s_child_pid t1 = s_child_pid t" by simp_all
  with Cons.IH [of t1 out1] p show ?case by simp
qed simp

lemma pump_hosted_frame:
  "same_frame s (fst (pump_hosted_session s evs)) \<and> s_state (fst (pump_hosted_session s evs)) = s_state s \<and>
   s_child_pid (fst (pump_hosted_session s evs)) = s_child_pid s"
proof -
  have refl: "same_frame s s" "same_frame s (s\<lparr>s_worker_died := d\<rparr>)" for d by (simp_all add: same_frame_def)
  show ?thesis
  proof (cases "\<not> s_hosted s \<or> s_master_fd s < 0 \<or> s_worker_died s")
    case True
    with refl show ?thesis by (simp add: pump_hosted_session_def Let_def)
  next
    case False
    obtain b e where d: "drain_socket evs = (b, e)" by fastforce
    obtain ms r x where p: "parse_worker_frames (s_worker_rx s @ b) = (ms, r, x)" by (metis prod_cases3)
    obtain s1 out where f: "foldl pump_frame (s\<lparr>s_worker_died := e\<rparr>, \<lparr>hp_output = [], hp_scrollback = []\<rparr>) ms = (s1, out)"
      by fastforce
    from pump_frames_frame [OF refl(2), of e "\<lparr>hp_output = [], hp_scrollback = []\<rparr>" ms] f
      have "same_frame s s1" "s_state s1 = s_state s" "s_child_pid s1 = s_child_pid s"
      by simp_all
    with False d p f show ?thesis
      by (simp add: pump_hosted_session_def Let_def same_frame_def)
  qed
qed

text \<open>What changes neither the frame of a session nor whether it is alive.\<close>

definition same_life :: "Session \<Rightarrow> Session \<Rightarrow> bool" where
  "same_life s t \<longleftrightarrow> s_state t = s_state s \<and> s_child_pid t = s_child_pid s"

lemma same_life_live: "same_life s t \<Longrightarrow> session_ok k s \<Longrightarrow> live t \<Longrightarrow> s_child_pid t > 0"
  by (auto simp: same_life_def session_ok_def live_def)

lemma queue_frame_frame:
  "worker_queue_frame s t d evs = (s', w) \<Longrightarrow> same_frame s s' \<and> same_life s s'"
  by (auto simp: worker_queue_frame_def same_frame_def same_life_def split: if_splits prod.splits)

lemma apply_geometry_frame:
  "apply_min_geometry E s = (s', fx) \<Longrightarrow> same_frame s s' \<and> same_life s s'"
  by (auto simp: apply_min_geometry_def same_frame_def same_life_def split: if_splits prod.splits
      dest!: queue_frame_frame)

lemma lookup_by_attach_id:
  assumes "session_by_attach_id aid R = Some (k, s)" "ordered (rg_sessions R)"
  shows "lookup R k = Some s \<and> aid \<in> aids s"
proof -
  from assms(1) have "(k, s) \<in> set (rg_sessions R)" "map_of (s_attachments s) aid \<noteq> None"
    by (auto simp: session_by_attach_id_def find_Some_iff in_set_conv_nth)
  with ordered_distinct [OF assms(2)] show ?thesis
    by (auto simp: lookup_def aids_def map_of_eq_Some_iff dest: map_of_SomeD intro: rev_image_eqI)
qed

lemma attachments_ok_put:
  "attachments_ok m \<Longrightarrow> at_attach_id a = k \<Longrightarrow> k \<noteq> 0 \<Longrightarrow> attachments_ok (map_put k a m)"
  by (auto simp: attachments_ok_def ordered_put dest!: subsetD [OF set_map_put])


text \<open>A subset of the attachments of a session, with the peers it still needs.\<close>

lemma session_ok_shrink:
  assumes "session_ok k s" "s_name t = s_name s" "attachments_ok (s_attachments t)"
    and "set (s_attachments t) \<subseteq> set (s_attachments s)" "distinct (s_peer_ids t)"
    and "\<forall>(j, a) \<in> set (s_attachments t). at_pubkey a \<noteq> [] \<longrightarrow> at_pubkey a \<in> set (s_peer_ids t)"
    and "live t \<Longrightarrow> s_child_pid t > 0"
  shows "session_ok k t \<and> aids t \<subseteq> aids s"
  using assms by (auto simp: session_ok_def aids_def)

lemma attachments_ok_del: "attachments_ok m \<Longrightarrow> attachments_ok (map_del k m)"
  by (auto simp: attachments_ok_def ordered_del) (auto simp: map_del_def)

lemma attachments_ok_filter: "attachments_ok m \<Longrightarrow> attachments_ok (filter P m)"
  by (auto simp: attachments_ok_def ordered_def sorted_wrt_map intro: sorted_wrt_filter)

lemma attachments_ok_Nil [simp]: "attachments_ok []"
  by (simp add: attachments_ok_def ordered_def)

lemma inv_shrink:
  assumes "reg_inv R" "lookup R k = Some s" "session_ok k t \<and> aids t \<subseteq> aids s"
  shows "reg_inv (put k t R)"
  using assms by (intro inv_put) (simp_all add: aids_at_def)

lemma leave_session_frame:
  "leave_session s = (t, fx) \<Longrightarrow> same_frame s t \<and> s_child_pid t = s_child_pid s \<and> (live t \<longrightarrow> live s)"
  by (auto simp: leave_session_def same_frame_def live_def split: if_splits)

lemma inv_ordered: "reg_inv R \<Longrightarrow> ordered (rg_sessions R)"
  by (simp add: reg_inv_def reg_ok_def)

lemma inv_set_geometry:
  assumes "set_attachment_geometry E aid cols rows R = (R', fx)" "reg_inv R"
  shows "reg_inv R'"
proof (cases "session_by_attach_id aid R")
  case None
  with assms show ?thesis by (simp add: set_attachment_geometry_def Let_def)
next
  case (Some e)
  obtain k s where e: "e = (k, s)" by (cases e)
  from lookup_by_attach_id [OF Some [unfolded e] inv_ordered [OF assms(2)]]
  have s: "lookup R k = Some s" "aid \<in> aids s" by simp_all
  note ok = inv_session [OF assms(2) s(1)]
  from s(2) obtain a where a: "map_of (s_attachments s) aid = Some a"
    by (auto simp: aids_def dest: weak_map_of_SomeI)
  let ?a = "a\<lparr>at_cols := max cols 20, at_rows := max rows 5\<rparr>"
  let ?s = "s\<lparr>s_attachments := map_put aid ?a (s_attachments s)\<rparr>"
  obtain s2 gx where g: "apply_min_geometry E ?s = (s2, gx)" by fastforce
  have R': "R' = put k s2 R" using assms(1) Some e a g by (simp add: set_attachment_geometry_def Let_def)
  from a have mem: "(aid, a) \<in> set (s_attachments s)" by (rule map_of_SomeD)
  have "session_ok k ?s"
    using ok mem by (fastforce simp: session_ok_def live_def attachments_ok_def ordered_put
        dest!: subsetD [OF set_map_put])
  moreover from apply_geometry_frame [OF g] have "same_frame ?s s2" "same_life ?s s2" by simp_all
  ultimately have "session_ok k s2" using same_life_live session_ok_frame by blast
  moreover have "aids s2 = aids s"
    using \<open>same_frame ?s s2\<close> s(2) by (auto simp: same_frame_def aids_def keys_put)
  ultimately show ?thesis unfolding R' using assms(2) s(1) by (intro inv_put) (simp_all add: aids_at_def)
qed

lemma forget_peer_simps [simp]:
  "s_state (forget_peer pk s) = s_state s" "s_child_pid (forget_peer pk s) = s_child_pid s"
  "s_name (forget_peer pk s) = s_name s" "s_attachments (forget_peer pk s) = s_attachments s"
  "live (forget_peer pk s) = live s"
  by (simp_all add: forget_peer_def live_def)

lemma settle_frame:
  "settle s = (t, fx) \<Longrightarrow> same_frame s t \<and> s_child_pid t = s_child_pid s \<and> (live t \<longrightarrow> live s)"
  using leave_session_frame [of s t fx] by (auto simp: settle_def same_frame_def split: if_splits)

lemma drop_attachment_ok:
  assumes "drop_attachment E aid s = (t, fx)" "session_ok k s"
  shows "session_ok k t \<and> aids t \<subseteq> aids s \<and> s_attachments t = map_del aid (s_attachments s)"
proof -
  define pk where "pk = (case map_of (s_attachments s) aid of Some a \<Rightarrow> at_pubkey a | None \<Rightarrow> [])"
  let ?s = "s\<lparr>s_attachments := map_del aid (s_attachments s)\<rparr>"
  obtain s1 gx where g: "apply_min_geometry E ?s = (s1, gx)" by fastforce
  obtain hx where l: "settle (forget_peer pk s1) = (t, hx)"
    using assms(1) g by (auto simp: drop_attachment_def Let_def pk_def [symmetric] split: prod.splits)
  from apply_geometry_frame [OF g] have 1: "same_frame ?s s1" "same_life ?s s1" by simp_all
  from settle_frame [OF l] have 2: "same_frame (forget_peer pk s1) t"
    "s_child_pid t = s_child_pid (forget_peer pk s1)" "live t \<longrightarrow> live (forget_peer pk s1)" by simp_all
  have atts: "s_attachments t = map_del aid (s_attachments s)"
    using 1(1) 2(1) by (simp add: same_frame_def)
  have life: "live t \<longrightarrow> live s" "s_child_pid t = s_child_pid s"
    using 1(2) 2(2,3) by (auto simp: same_life_def live_def)
  have ids: "s_peer_ids t = s_peer_ids (forget_peer pk s1)" "s_attachments s1 = s_attachments t"
    "s_peer_ids s1 = s_peer_ids s" "s_name t = s_name s"
    using 1(1) 2(1) by (simp_all add: same_frame_def)
  have sub: "set (s_attachments t) \<subseteq> set (s_attachments s)" unfolding atts by (auto simp: map_del_def)
  have "session_ok k t \<and> aids t \<subseteq> aids s"
  proof (rule session_ok_shrink [OF assms(2)])
    show "\<forall>(j, a) \<in> set (s_attachments t). at_pubkey a \<noteq> [] \<longrightarrow> at_pubkey a \<in> set (s_peer_ids t)"
    proof (intro ballI, clarify)
      fix j a assume m: "(j, a) \<in> set (s_attachments t)" and ne: "at_pubkey a \<noteq> []"
      with sub assms(2) have "at_pubkey a \<in> set (s_peer_ids s)" by (auto simp: session_ok_def)
      with m show "at_pubkey a \<in> set (s_peer_ids t)"
        unfolding ids(1) forget_peer_def ids(2,3) by (auto simp: list_all_iff ids(3))
    qed
    show "distinct (s_peer_ids t)" "s_name t = s_name s"
      using assms(2) ids by (auto simp: session_ok_def forget_peer_def)
    show "live t \<Longrightarrow> s_child_pid t > 0" using life assms(2) by (simp add: session_ok_def)
    show "attachments_ok (s_attachments t)" "set (s_attachments t) \<subseteq> set (s_attachments s)"
      using sub assms(2) attachments_ok_del unfolding atts by (auto simp: session_ok_def)
  qed
  with atts show ?thesis by simp
qed

lemma inv_detach_attachment:
  assumes "detach_attachment E aid R = (b, R', fx)" "reg_inv R"
  shows "reg_inv R'"
proof (cases "session_by_attach_id aid R")
  case None
  with assms show ?thesis by (simp add: detach_attachment_def)
next
  case (Some e)
  obtain k s where e: "e = (k, s)" by (cases e)
  from lookup_by_attach_id [OF Some [unfolded e] inv_ordered [OF assms(2)]] have s: "lookup R k = Some s" by simp
  obtain t gx where d: "drop_attachment E aid s = (t, gx)" by fastforce
  from drop_attachment_ok [OF d inv_session [OF assms(2) s]]
  have "reg_inv (put k t R)" by (intro inv_shrink [OF assms(2) s]) simp
  with assms(1) Some e d show ?thesis by (simp add: detach_attachment_def)
qed

lemma inv_detach_peer:
  assumes "detach_peer name pk R = (b, R', fx)" "reg_inv R"
  shows "reg_inv R'"
proof (cases "lookup R name")
  case None
  with assms show ?thesis by (simp add: detach_peer_def)
next
  case (Some s)
  note ok = inv_session [OF assms(2) Some]
  define s2 where "s2 = drop_peer pk s"
  note s2 = s2_def [unfolded drop_peer_def]
  obtain s3 hx where l: "settle s2 = (s3, hx)" by fastforce
  have R': "R' = put name s3 R"
    using assms(1) Some l by (auto simp: detach_peer_def Let_def s2_def [symmetric] split: prod.splits)
  have 3: "same_frame s2 s3" "s_child_pid s3 = s_child_pid s2" "live s3 \<longrightarrow> live s2"
    using settle_frame [OF l] by simp_all
  have atts: "s_attachments s3 = filter (\<lambda>(_, a). at_pubkey a \<noteq> pk) (s_attachments s)"
    using 3(1) by (simp add: same_frame_def s2 Let_def)
  have "session_ok name s3 \<and> aids s3 \<subseteq> aids s"
  proof (rule session_ok_shrink [OF ok])
    show "\<forall>(j, a) \<in> set (s_attachments s3). at_pubkey a \<noteq> [] \<longrightarrow> at_pubkey a \<in> set (s_peer_ids s3)"
      using ok 3(1) atts by (fastforce simp: session_ok_def same_frame_def s2 Let_def)
    show "distinct (s_peer_ids s3)" "s_name s3 = s_name s"
      using ok 3(1) by (auto simp: session_ok_def same_frame_def s2 Let_def)
    show "live s3 \<Longrightarrow> s_child_pid s3 > 0"
      using 3 ok by (auto simp: session_ok_def live_def s2 Let_def split: if_splits)
    show "attachments_ok (s_attachments s3)" "set (s_attachments s3) \<subseteq> set (s_attachments s)"
      using ok attachments_ok_filter unfolding atts by (auto simp: session_ok_def)
  qed
  with inv_shrink [OF assms(2) Some] R' show ?thesis by simp
qed

lemma inv_detach_all:
  assumes "detach_all name R = (b, R', fx)" "reg_inv R"
  shows "reg_inv R'"
proof (cases "lookup R name")
  case None
  with assms show ?thesis by (simp add: detach_all_def)
next
  case (Some s)
  note ok = inv_session [OF assms(2) Some]
  let ?s = "s\<lparr>s_attachments := [], s_peer_ids := []\<rparr>"
  obtain t hx where l: "leave_session ?s = (t, hx)" by fastforce
  have R': "R' = put name t R" using assms(1) Some l by (auto simp: detach_all_def)
  from leave_session_frame [OF l] have t: "s_attachments t = []" "s_peer_ids t = []" "s_name t = s_name s"
    "s_child_pid t = s_child_pid s" "live t \<longrightarrow> live s" by (auto simp: same_frame_def live_def)
  have "session_ok name t \<and> aids t \<subseteq> aids s"
    using ok t by (simp add: session_ok_def aids_def)
  with inv_shrink [OF assms(2) Some] R' show ?thesis by simp
qed

text \<open>What a pass does to one session.\<close>

definition visit_ok ::
  "(Session \<Rightarrow> registry \<Rightarrow> Session option \<times> registry \<times> reg_effect list) \<Rightarrow> bool"
where
  "visit_ok f \<longleftrightarrow>
     (\<forall>k s R r R1 fx. reg_inv R \<longrightarrow> lookup R k = Some s \<longrightarrow> f s R = (r, R1, fx) \<longrightarrow>
        reg_inv R1 \<and> lookup R1 = lookup R \<and>
        (case r of Some t \<Rightarrow> same_frame s t \<and> (live t \<longrightarrow> s_child_pid t > 0) | None \<Rightarrow> True))"

lemma inv_for_sessions:
  "visit_ok f \<Longrightarrow> reg_inv R \<Longrightarrow> for_sessions f ks R = (R', fx) \<Longrightarrow> reg_inv R'"
proof (induction f ks R arbitrary: R' fx rule: for_sessions.induct)
  case (1 f R)
  then show ?case by simp
next
  case (2 f k ks R)
  show ?case
  proof (cases "lookup R k")
    case None
    with "2.prems"(3) have "for_sessions f ks R = (R', fx)" by simp
    with "2.IH"(1) [OF None "2.prems"(1,2)] show ?thesis by blast
  next
    case (Some s)
    obtain r R1 gx where f: "f s R = (r, R1, gx)" by (metis prod_cases3)
    note v0 = "2.prems"(1) [unfolded visit_ok_def, rule_format, OF "2.prems"(2) Some f]
    from v0 have v: "reg_inv R1" "lookup R1 = lookup R"
      "case r of Some t \<Rightarrow> same_frame s t \<and> (live t \<longrightarrow> s_child_pid t > 0) | None \<Rightarrow> True"
      by blast+
    define R2 where "R2 = (case r of Some s' \<Rightarrow> put k s' R1 | None \<Rightarrow> erase k R1)"
    have "reg_inv R2"
    proof (cases r)
      case None
      then show ?thesis unfolding R2_def using inv_erase [OF v(1)] by simp
    next
      case t: (Some t)
      with v(3) have "same_frame s t" "live t \<Longrightarrow> s_child_pid t > 0" by simp_all
      moreover have "lookup R1 k = Some s" using v(2) Some by simp
      ultimately show ?thesis unfolding R2_def t using inv_put_frame [OF v(1)] by simp
    qed
    moreover obtain R3 hx where g: "for_sessions f ks R2 = (R3, hx)" by fastforce
    ultimately have "reg_inv R3" using "2.IH"(2) [OF Some f [symmetric] refl R2_def "2.prems"(1)] by blast
    moreover have "R' = R3" using "2.prems"(3) Some f g by (simp add: R2_def [symmetric])
    ultimately show ?thesis by simp
  qed
qed

lemma frame_refl [simp]: "same_frame s s"
  by (simp add: same_frame_def)

lemma inv_kill:
  assumes "kill E name R = (b, R', fx)" "reg_inv R"
  shows "reg_inv R'"
proof (cases "lookup R name")
  case None
  with assms show ?thesis by (simp add: kill_def)
next
  case (Some s)
  obtain t R1 where h: "record_history E (s\<lparr>s_state := Killed\<rparr>) (-1) ''killed'' R = (t, R1)" by fastforce
  from record_history_registry [OF h assms(2)] have "reg_inv R1" by simp
  with assms(1) Some h inv_erase show ?thesis by (auto simp: kill_def)
qed

lemma not_live [simp]:
  "\<not> live (s\<lparr>s_state := Died\<rparr>)" "\<not> live (s\<lparr>s_state := Exited\<rparr>)" "\<not> live (s\<lparr>s_state := Killed\<rparr>)"
  by (simp_all add: live_def)

lemma observe_death_frame:
  "observe_death E s = (t, d) \<Longrightarrow> same_frame s t \<and> s_state t = s_state s \<and> s_child_pid t = s_child_pid s"
  using pump_hosted_frame [of s "re_pump E (s_name s)"]
  by (auto simp: observe_death_def Let_def split: if_splits)

lemma auto_restart_ok:
  assumes "auto_restart E R s = (t, R', fx)" "env_ok E" "reg_inv R"
  shows "same_frame s t \<and> (live t \<longrightarrow> s_child_pid t > 0) \<and> reg_inv R' \<and> lookup R' = lookup R"
proof -
  define s1 where "s1 = (if re_now E - s_restart_window_start s > restart_window
                then reset_restart_failures (re_now E) s else s)"
  have 1: "same_frame s s1" by (simp add: s1_def same_frame_def reset_restart_failures_def)
  show ?thesis
  proof (cases "s_restart_failures s1 < 3")
    case False
    with assms(1,3) 1 show ?thesis by (auto simp: auto_restart_def s1_def [symmetric] same_frame_def)
  next
    case True
    define s2 where "s2 = s1\<lparr>s_restart_failures := s_restart_failures s1 + 1\<rparr>"
    have 2: "same_frame s s2" using 1 by (simp add: s2_def same_frame_def)
    obtain r gx where sp: "spawn_session_runtime E R (s_name s2) (s_command s2) 80 24 ''xterm-256color'' = (r, gx)"
      by fastforce
    show ?thesis
    proof (cases r)
      case None
      have "(t, R', fx) = (s2\<lparr>s_state := Exited\<rparr>, R, gx)"
        using assms(1) True sp None unfolding auto_restart_def s1_def [symmetric] Let_def
        by (simp add: s2_def)
      with 2 assms(3) show ?thesis by (auto simp: same_frame_def)
    next
      case (Some n)
      from spawned_session [OF sp [unfolded Some] assms(2)] have n: "s_name n = s_name s2" "s_child_pid n > 0" by simp_all
      have "\<exists>st. (t, R') = (install_spawned_runtime s2 n st, next_generation R)"
        using assms(1) True sp Some unfolding auto_restart_def s1_def [symmetric] Let_def
        by (auto simp: s2_def)
      then obtain st where t: "t = install_spawned_runtime s2 n st" "R' = next_generation R" by blast
      have "same_frame s2 t" using n(1) t(1) by (simp add: install_frame)
      with 2 have "same_frame s t" by (simp add: same_frame_def)
      with n(2) t inv_next_generation [OF assms(3)] show ?thesis by (auto simp: fun_eq_iff)
    qed
  qed
qed

lemma reap_session_live:
  "\<not> ((\<not> inc \<and> s_state s = Attached) \<or> \<not> live s) \<Longrightarrow> reap_session E inc s R =
     (case observe_death E s of
        (s1, None) \<Rightarrow> (s1, R, [])
      | (s1, Some code) \<Rightarrow>
          (case record_history E (s1\<lparr>s_state := Died\<rparr>) code ''died'' R of (s2, R1) \<Rightarrow>
             let s3 = release_exited_runtime (s2\<lparr>s_child_pid := -1\<rparr>) in
             if s_auto_restart s3 then auto_restart E R1 s3 else (s3, R1, [])))"
  unfolding reap_session_def by (rule if_not_P)

lemma reap_session_ok:
  assumes "reap_session E inc s R = (t, R', fx)" "env_ok E" "reg_inv R" "live s \<longrightarrow> s_child_pid s > 0"
  shows "reg_inv R' \<and> lookup R' = lookup R \<and> same_frame s t \<and> (live t \<longrightarrow> s_child_pid t > 0)"
proof (cases "(\<not> inc \<and> s_state s = Attached) \<or> \<not> live s")
  case True
  with assms have "t = s" "R' = R" by (auto simp: reap_session_def)
  with assms(3,4) show ?thesis by simp
next
  case False
  obtain s1 d where o: "observe_death E s = (s1, d)" by fastforce
  note 1 = observe_death_frame [OF o]
  show ?thesis
  proof (cases d)
    case None
    with o assms(1) have "t = s1" "R' = R" by (simp_all add: reap_session_live [OF False])
    with 1 assms(3,4) show ?thesis by (auto simp: live_def)
  next
    case (Some code)
    obtain s2 R1 where h: "record_history E (s1\<lparr>s_state := Died\<rparr>) code ''died'' R = (s2, R1)" by fastforce
    from record_history_registry [OF h assms(3)] have 2: "reg_inv R1" "lookup R1 = lookup R"
      "s2 = s1\<lparr>s_state := Died, s_history_recorded := True\<rparr>" by simp_all
    define s3 where "s3 = release_exited_runtime (s2\<lparr>s_child_pid := -1\<rparr>)"
    have 3: "same_frame s s3" "\<not> live s3"
      using 1 2(3) by (simp_all add: s3_def same_frame_def release_exited_runtime_def live_def)
    show ?thesis
    proof (cases "s_auto_restart s3")
      case True
      with o Some h assms(1) have "auto_restart E R1 s3 = (t, R', fx)"
        by (simp add: reap_session_live [OF False] s3_def Let_def)
      from auto_restart_ok [OF this assms(2) 2(1)] 2(2) 3(1) show ?thesis
        by (auto simp: same_frame_def)
    next
      case no: False
      with o Some h assms(1) have "t = s3" "R' = R1"
        by (simp_all add: reap_session_live [OF False] s3_def Let_def)
      with 2 3 show ?thesis by simp
    qed
  qed
qed

lemma visit_reap: "env_ok E \<Longrightarrow>
    visit_ok (\<lambda>s R. case reap_session E inc s R of (s', R', fx) \<Rightarrow> (Some s', R', fx))"
proof (unfold visit_ok_def, intro allI impI)
  fix k s R r R1 fx
  assume E: "env_ok E" and i: "reg_inv R" and l: "lookup R k = Some s"
    and f: "(case reap_session E inc s R of (s', R', fx) \<Rightarrow> (Some s', R', fx)) = (r, R1, fx)"
  obtain t R' gx where rp: "reap_session E inc s R = (t, R', gx)" by (metis prod_cases3)
  from inv_session [OF i l] have "live s \<longrightarrow> s_child_pid s > 0" by (simp add: session_ok_def)
  from reap_session_ok [OF rp E i this] f rp
  show "reg_inv R1 \<and> lookup R1 = lookup R \<and> (case r of None \<Rightarrow> True | Some t \<Rightarrow> same_frame s t \<and> (live t \<longrightarrow> 0 < s_child_pid t))"
    by auto
qed

lemma visit_prune_idle: "visit_ok (prune_idle_session E m)"
  by (auto simp: visit_ok_def prune_idle_session_def Let_def inv_session session_ok_def
      split: if_splits prod.splits option.splits dest: record_history_registry inv_session)


lemma visit_prune_finished: "visit_ok (prune_finished_session E m)"
proof (unfold visit_ok_def, intro allI impI)
  fix k s R r R1 fx
  assume i: "reg_inv R" and l: "lookup R k = Some s" and f: "prune_finished_session E m s R = (r, R1, fx)"
  have ok: "live s \<longrightarrow> s_child_pid s > 0" using inv_session [OF i l] by (simp add: session_ok_def)
  obtain s1 R2 where h: "record_history E s (-1) ''finished_expired'' R = (s1, R2)" by fastforce
  from record_history_registry [OF h i] f h ok i
  show "reg_inv R1 \<and> lookup R1 = lookup R \<and> (case r of None \<Rightarrow> True | Some t \<Rightarrow> same_frame s t \<and> (live t \<longrightarrow> 0 < s_child_pid t))"
    by (auto simp: prune_finished_session_def same_frame_def live_def split: if_splits)
qed

lemma inv_counters:
  "reg_inv (R\<lparr>rg_expired_since_log := a\<rparr>) = reg_inv R" "reg_inv (R\<lparr>rg_pruned_since_log := a\<rparr>) = reg_inv R"
  "lookup (R\<lparr>rg_expired_since_log := a\<rparr>) = lookup R" "lookup (R\<lparr>rg_pruned_since_log := a\<rparr>) = lookup R"
  "reg_inv (R\<lparr>rg_last_prune_log := t\<rparr>) = reg_inv R" "reg_inv (R\<lparr>rg_generation := g\<rparr>) = reg_inv R"
  by (simp_all add: reg_inv_def reg_ok_def ids_below_def lookup_def fun_eq_iff)

lemma probe_child_ok:
  assumes "probe_child E s R = ChildDead t R1" "reg_inv R"
  shows "reg_inv R1 \<and> lookup R1 = lookup R"
proof (cases "s_hosted s \<or> s_child_pid s \<le> 0")
  case True
  with assms show ?thesis by (auto simp: probe_child_def split: if_splits)
next
  case False
  show ?thesis
  proof (cases "re_wait E (s_child_pid s)")
    case (WaitStatus st)
    obtain s1 R2 where h: "record_history E s (exit_code_of st) ''died'' R = (s1, R2)" by fastforce
    from record_history_registry [OF h assms(2)] False WaitStatus h assms(1) show ?thesis
      by (auto simp: probe_child_def)
  qed (use False assms in \<open>auto simp: probe_child_def\<close>)
qed

lemma visit_prune_ephemeral: "visit_ok (prune_ephemeral_session E m)"
proof (unfold visit_ok_def, intro allI impI)
  fix k s R r R1 fx
  assume i: "reg_inv R" and l: "lookup R k = Some s" and f: "prune_ephemeral_session E m s R = (r, R1, fx)"
  have ok: "live s \<longrightarrow> s_child_pid s > 0" using inv_session [OF i l] by (simp add: session_ok_def)
  let ?R = "R\<lparr>rg_expired_since_log := rg_expired_since_log R + 1\<rparr>"
  have i1: "reg_inv ?R" using i by (simp add: inv_counters)
  have dead: "reg_inv R1 \<and> lookup R1 = lookup R \<and> r = None"
    if p: "probe_child E s ?R = ChildDead s1 R2" and
      g: "(case record_history E s1 (-1) ''ephemeral_pruned'' R2 of (s2, R3) \<Rightarrow>
        (None, R3\<lparr>rg_pruned_since_log := rg_pruned_since_log R3 + 1\<rparr>, erase_effects s2)) = (r, R1, fx)" for s1 R2
  proof -
    obtain s2 R3 where h: "record_history E s1 (-1) ''ephemeral_pruned'' R2 = (s2, R3)" by fastforce
    from probe_child_ok [OF p i1] have "reg_inv R2" "lookup R2 = lookup R" by (simp_all add: inv_counters)
    with record_history_registry [OF h] have 3: "reg_inv R3" "lookup R3 = lookup R" by simp_all
    have out: "R1 = R3\<lparr>rg_pruned_since_log := rg_pruned_since_log R3 + 1\<rparr>" "r = None" using g h by auto
    show ?thesis unfolding out(1) inv_counters(4) using 3 out(2) by (simp add: inv_counters)
  qed
  show "reg_inv R1 \<and> lookup R1 = lookup R \<and> (case r of None \<Rightarrow> True | Some t \<Rightarrow> same_frame s t \<and> (live t \<longrightarrow> 0 < s_child_pid t))"
  proof (cases "is_ephemeral_session_name (s_name s) \<and>
      (re_now E - s_last_attach_at s > m \<or> re_now E - s_last_output_at s > m)")
    case False
    with f have "r = Some s" "R1 = R" by (auto simp: prune_ephemeral_session_def split: if_splits)
    with i ok show ?thesis by simp
  next
    case True
    note f1 = f [unfolded prune_ephemeral_session_def Let_def]
    show ?thesis
    proof (cases "probe_child E s ?R")
      case (ChildDead s1 R2)
      with True f1 dead [OF ChildDead] show ?thesis by simp
    qed (use True f1 ok i1 in \<open>auto simp: inv_counters\<close>)
  qed
qed

lemma inv_log_prunes: "reg_inv R \<Longrightarrow> reg_inv (log_prunes E R)"
  by (simp add: log_prunes_def inv_counters)

lemma inv_prune_ephemeral:
  assumes "prune_ephemeral_sessions E m R = (R', fx)" "reg_inv R"
  shows "reg_inv R'"
proof -
  obtain R1 gx where 1: "prune_finished_sessions E (seconds (48 * 3600)) R = (R1, gx)" by fastforce
  obtain R2 hx where 2: "for_sessions (prune_ephemeral_session E m) (map fst (rg_sessions R1)) R1 = (R2, hx)" by fastforce
  have "reg_inv R1" using 1 inv_for_sessions [OF visit_prune_finished assms(2)] by (simp add: prune_finished_sessions_def)
  with 2 have "reg_inv R2" using inv_for_sessions [OF visit_prune_ephemeral] by blast
  with assms(1) 1 2 inv_log_prunes show ?thesis by (auto simp: prune_ephemeral_sessions_def)
qed

text \<open>A session that enters the registry without attachments.\<close>

lemma inv_put_new:
  assumes "reg_inv R" "session_ok k s" "s_attachments s = []"
  shows "reg_inv (put k s R)"
  using assms by (intro inv_put) (simp_all add: aids_def)

lemma inv_load_meta: "reg_inv R \<Longrightarrow> reg_inv (load_meta E m R)"
  by (auto simp: load_meta_def Let_def new_Session_def session_ok_def live_def intro!: inv_put_new)

lemma inv_load: "reg_inv R \<Longrightarrow> reg_inv (load_persisted_sessions E ms R)"
  unfolding load_persisted_sessions_def by (induction ms arbitrary: R) (auto intro: inv_load_meta)

lemma inv_adopt_worker:
  assumes "reg_inv R"
  shows "reg_inv (adopt_worker E dw R)"
proof (cases "dw_fd dw < 0 \<or> dw_child_pid dw \<le> 0 \<or> \<not> dw_nonblock_ok dw")
  case True
  with assms show ?thesis by (simp add: adopt_worker_def)
next
  case False
  let ?k = "dw_session_name dw"
  define s where "s = (case lookup R ?k of Some s \<Rightarrow> s
    | None \<Rightarrow> (new_Session (re_now E) (re_sys E))\<lparr>s_name := ?k\<rparr>)"
  have s: "session_ok ?k s" "aids s \<subseteq> aids_at R ?k"
    using inv_session [OF assms]
    by (auto simp: s_def session_ok_def new_Session_def live_def aids_def aids_at_def split: option.splits)
  define t where "t = touch_output (re_now E)
    (s\<lparr>s_hosted := True, s_worker_pid := (case dw_pid_file dw of Some v \<Rightarrow> if v > 0 then v else -1 | None \<Rightarrow> -1),
       s_master_fd := dw_fd dw, s_child_pid := dw_child_pid dw, s_worker_died := False, s_state := Detached,
       s_generation := rg_generation R + 1\<rparr>)"
  have t: "same_frame s t" "s_child_pid t > 0" using False by (simp_all add: t_def same_frame_def touch_output_def)
  have "reg_inv (put ?k t R)"
    using assms session_ok_frame [OF s(1) t(1)] t(2) s(2) aids_frame [OF t(1)] by (intro inv_put) simp_all
  moreover have "adopt_worker E dw R = (put ?k t R)\<lparr>rg_generation := rg_generation R + 1\<rparr>"
    using False by (simp add: adopt_worker_def Let_def t_def s_def)
  ultimately show ?thesis by (simp add: inv_counters)
qed

lemma inv_adopt: "reg_inv R \<Longrightarrow> reg_inv (adopt_workers E ws R)"
proof -
  have "reg_inv R \<Longrightarrow> reg_inv (foldl (\<lambda>R w. adopt_worker E w R) R ws)" for R
    by (induction ws arbitrary: R) (auto intro: inv_adopt_worker)
  then show "reg_inv R \<Longrightarrow> reg_inv (adopt_workers E ws R)" by (simp add: adopt_workers_def)
qed

lemma inv_resurrect:
  assumes "resurrect E name cols rows trm R = (b, R', fx)" "reg_inv R" "env_ok E"
  shows "reg_inv R'"
proof (cases "lookup R name")
  case None
  with assms show ?thesis by (simp add: resurrect_def)
next
  case (Some s)
  show ?thesis
  proof (cases "s_state s = Recoverable")
    case False
    with assms Some show ?thesis by (simp add: resurrect_def)
  next
    case True
    obtain r gx where sp: "spawn_session_runtime E R name
      (prepare_session_command \<lparr>rsc_command = s_command s, rsc_source = NamedProfile\<rparr>) cols rows trm = (r, gx)" by fastforce
    show ?thesis
    proof (cases r)
      case None
      with assms(1,2) Some True sp show ?thesis by (simp add: resurrect_def)
    next
      case n: (Some n)
      from spawned_session [OF sp [unfolded n] assms(3)] have 1: "s_name n = name" "s_child_pid n > 0" by simp_all
      let ?t = "install_spawned_runtime s n Attached"
      have "s_name s = name" using inv_session [OF assms(2) Some] by (simp add: session_ok_def)
      then have "reg_inv (put name ?t (next_generation R))"
        using Some 1 assms(2) by (intro inv_put_frame [of _ name s]) (simp_all add: install_frame inv_next_generation)
      moreover have "R' = put name ?t (next_generation R)"
        using assms(1) Some True sp n by (simp add: resurrect_def)
      ultimately show ?thesis by simp
    qed
  qed
qed

end
