(* ===== verification/Registry_Ops.thy ===== *)
theory Registry_Ops
  imports Registry_Inv
begin

text \<open>
  Attaching keeps the registry well formed; the registry as a transition system over all its
  operations, and the properties of attaching, detaching, restarting and pruning.
\<close>

section \<open>Attaching\<close>

lemma next_id_next_generation [simp]: "rg_next_attach_id (next_generation R) = rg_next_attach_id R"
  by (simp add: next_generation_def)

lemma add_peer_simps [simp]:
  "s_name (add_peer pk s) = s_name s" "s_attachments (add_peer pk s) = s_attachments s"
  "s_state (add_peer pk s) = s_state s" "s_child_pid (add_peer pk s) = s_child_pid s"
  "set (s_peer_ids (add_peer pk s)) = (if pk \<noteq> [] then insert pk (set (s_peer_ids s)) else set (s_peer_ids s))"
  "distinct (s_peer_ids (add_peer pk s)) = distinct (s_peer_ids s)"
  by (auto simp: add_peer_def)

text \<open>A replaced session starts without attachments but keeps its peers.\<close>

lemma replace_session_ok:
  assumes "replace_session E name res cols rows trm pk force s R = (r, R1, fx)"
    and "reg_inv R" "lookup R name = Some s" "env_ok E"
  shows "reg_inv R1 \<and> rg_next_attach_id R1 = rg_next_attach_id R \<and>
    (\<forall>t. r = Some t \<longrightarrow> lookup R1 name = Some t \<and> s_state t = Attached \<and> s_attachments t = [] \<and>
      (pk \<noteq> [] \<longrightarrow> pk \<in> set (s_peer_ids t)))"
proof -
  obtain s1 R0 where h: "record_history E s (-1) (session_state_str (s_state s)) R = (s1, R0)" by fastforce
  from record_history_registry [OF h assms(2)] have 0: "reg_inv R0" "lookup R0 = lookup R"
    "rg_next_attach_id R0 = rg_next_attach_id R" "s1 = s\<lparr>s_history_recorded := True\<rparr>" by simp_all
  note ok = inv_session [OF assms(2,3)]
  define s2 where "s2 = s1\<lparr>s_attachments := []\<rparr>"
  define s3 where "s3 = (if force \<and> s_hosted s2 then release_exited_runtime s2 else s2)"
  have frame: "s_name s3 = name" "s_attachments s3 = []" "distinct (s_peer_ids s3)" "live s3 = live s"
    "s_child_pid s3 = s_child_pid s" "s_name s2 = name" "s_attachments s2 = []" "distinct (s_peer_ids s2)" "live s2 = live s"
    "s_child_pid s2 = s_child_pid s"
    using ok 0(4) by (simp_all add: s3_def s2_def session_ok_def release_exited_runtime_def live_def)
  have ok3: "session_ok name s3" and ok2: "session_ok name s2" using frame ok by (simp_all add: session_ok_def)
  have inv3: "reg_inv (put name s3 R0)" and inv2: "reg_inv (put name s2 R0)"
    using ok3 ok2 frame 0(1) by (auto intro: inv_put_new)
  show ?thesis
  proof (cases "force \<and> s_hosted s2 \<and> \<not> re_worker_stopped E name")
    case True
    with assms(1) h have "r = None" "R1 = put name s2 R0"
      by (simp_all add: replace_session_def Let_def s2_def)
    with inv2 0(3) show ?thesis by simp
  next
    case False
    obtain q sx where sp: "spawn_session_runtime E R0 name (prepare_session_command res) cols rows trm = (q, sx)" by fastforce
    show ?thesis
    proof (cases q)
      case None
      with False assms(1) h sp have "r = None" "R1 = put name s3 R0"
        by (auto simp: replace_session_def Let_def s2_def s3_def split: if_splits)
      with inv3 0(3) show ?thesis by simp
    next
      case (Some n)
      from spawned_session [OF sp [unfolded Some] assms(4)] have n: "s_name n = name" "s_child_pid n > 0" by simp_all
      define t where "t = add_peer pk (install_spawned_runtime s3
        (n\<lparr>s_kind := classify_session_kind name (rsc_source res)\<rparr>) Attached)"
      have t: "s_name t = name" "s_child_pid t > 0" "s_attachments t = []" "s_state t = Attached"
        "distinct (s_peer_ids t)" "pk \<noteq> [] \<longrightarrow> pk \<in> set (s_peer_ids t)"
        using n frame by (simp_all add: t_def install_spawned_runtime_def)
      then have "reg_inv (put name t (next_generation R0))"
        using 0(1) by (intro inv_put_new inv_next_generation) (simp_all add: session_ok_def)
      moreover from False assms(1) h sp Some have "r = Some t" "R1 = put name t (next_generation R0)"
        by (auto simp: replace_session_def Let_def s2_def s3_def t_def split: if_splits)
      ultimately show ?thesis using t 0(3) by simp
    qed
  qed
qed

lemma session_for_attach_ok:
  assumes "session_for_attach E name res cols rows trm pk require_live R = (r, R1, fx)"
    and "reg_inv R" "env_ok E"
  shows "reg_inv R1 \<and> rg_next_attach_id R1 = rg_next_attach_id R \<and>
    (\<forall>t. r = Some t \<longrightarrow> lookup R1 name = Some t \<and> s_state t = Attached \<and>
      (pk \<noteq> [] \<longrightarrow> pk \<in> set (s_peer_ids t)))"
proof (cases "lookup R name")
  case None
  obtain q sx where sp: "spawn_session_runtime E R name (prepare_session_command res) cols rows trm = (q, sx)" by fastforce
  show ?thesis
  proof (cases "require_live \<or> q = None")
    case True
    with assms None sp show ?thesis by (auto simp: session_for_attach_def split: if_splits)
  next
    case False
    then obtain n where q: "q = Some n" by auto
    from spawned_session [OF sp [unfolded q] assms(3)]
    have n: "s_name n = name" "s_child_pid n > 0" "s_attachments n = []" "s_peer_ids n = []" by simp_all
    define t where "t = n\<lparr>s_state := Attached, s_kind := classify_session_kind name (rsc_source res),
      s_owner_pubkey := pk, s_peer_ids := s_peer_ids n @ (if pk \<noteq> [] then [pk] else [])\<rparr>"
    have t: "session_ok name t" "s_attachments t = []" "s_state t = Attached" "pk \<noteq> [] \<longrightarrow> pk \<in> set (s_peer_ids t)"
      using n by (simp_all add: t_def session_ok_def)
    then have "reg_inv (put name t (next_generation R))"
      using assms(2) by (intro inv_put_new inv_next_generation)
    moreover from False assms(1) None sp q have "r = Some t" "R1 = put name t (next_generation R)"
      by (auto simp: session_for_attach_def Let_def t_def)
    ultimately show ?thesis using t by simp
  qed
next
  case (Some s)
  note ok = inv_session [OF assms(2) Some]
  define force where "force = (\<not> require_live \<and> rsc_source res = ClientOverride \<and> rsc_command res \<noteq> [])"
  show ?thesis
  proof (cases "require_live \<and> \<not> live s")
    case True
    with assms Some show ?thesis by (auto simp: session_for_attach_def split: if_splits)
  next
    case go: False
    show ?thesis
    proof (cases "live s \<and> (\<not> force \<or> s_attachments s \<noteq> [])")
      case True
      define t where "t = add_peer pk (s\<lparr>s_state := Attached, s_last_attach_at := re_now E\<rparr>)"
      have t: "session_ok name t" "aids t = aids s" "s_state t = Attached" "pk \<noteq> [] \<longrightarrow> pk \<in> set (s_peer_ids t)"
        using ok True by (auto simp: t_def session_ok_def aids_def live_def)
      then have "reg_inv (put name t R)" using assms(2) Some by (intro inv_put) (simp_all add: aids_at_def)
      moreover from True go assms(1) Some have "r = Some t" "R1 = put name t R"
        by (auto simp: session_for_attach_def Let_def t_def force_def)
      ultimately show ?thesis using t by simp
    next
      case False
      with go assms(1) Some have "replace_session E name res cols rows trm pk force s R = (r, R1, fx)"
        by (auto simp: session_for_attach_def Let_def force_def split: if_splits)
      from replace_session_ok [OF this assms(2) Some assms(3)] show ?thesis by auto
    qed
  qed
qed

lemma inv_register:
  assumes "reg_inv R" "lookup R k = Some s" "rg_next_attach_id R \<noteq> -1" "session_ok k t"
    and "aids t = insert (rg_next_attach_id R) (aids s)"
  shows "reg_inv (put k t (R\<lparr>rg_next_attach_id := rg_next_attach_id R + 1\<rparr>))"
proof -
  let ?n = "rg_next_attach_id R"
  have lk: "lookup (R\<lparr>rg_next_attach_id := ?n + 1\<rparr>) = lookup R" by (simp add: lookup_def fun_eq_iff)
  have more: "x < ?n + 1" if "x \<le> ?n" for x :: u32
  proof -
    have "1 + ?n \<noteq> 0" using assms(3) by (metis add.commute eq_neg_iff_add_eq_0)
    then have "unat (?n + 1) = Suc (unat ?n)" by (simp add: unatSuc add.commute)
    with that show ?thesis by (simp add: word_less_nat_alt word_le_nat_alt)
  qed
  have new: "?n \<notin> aids u" if "lookup R j = Some u" for j u
    using assms(1) that by (auto simp: reg_inv_def ids_below_def)
  have "reg_ok (put k t (R\<lparr>rg_next_attach_id := ?n + 1\<rparr>))"
    unfolding reg_ok_def
  proof (intro conjI allI impI)
    fix j u j' u'
    assume l: "lookup (put k t (R\<lparr>rg_next_attach_id := ?n + 1\<rparr>)) j = Some u"
      "lookup (put k t (R\<lparr>rg_next_attach_id := ?n + 1\<rparr>)) j' = Some u'" and x: "aids u \<inter> aids u' \<noteq> {}"
    have disj: "j = j'" if "lookup R j = Some u" "lookup R j' = Some u'" "a \<in> aids u" "a \<in> aids u'" for j u j' u' a
    proof -
      from that(3,4) have "aids u \<inter> aids u' \<noteq> {}" by blast
      with that(1,2) assms(1) show ?thesis unfolding reg_inv_def reg_ok_def by blast
    qed
    from x obtain a where a: "a \<in> aids u" "a \<in> aids u'" by blast
    have place: "(a = ?n \<and> i = k) \<or> (\<exists>v. lookup R i = Some v \<and> a \<in> aids v)"
      if "lookup (put k t (R\<lparr>rg_next_attach_id := ?n + 1\<rparr>)) i = Some w" "a \<in> aids w" for i w
      using that assms(2,5) by (cases "i = k") (auto simp: lk)
    from place [OF l(1) a(1)] place [OF l(2) a(2)] new disj show "j = j'" by blast
  next
    show "ordered (rg_sessions (put k t (R\<lparr>rg_next_attach_id := ?n + 1\<rparr>)))"
      using assms(1) by (simp add: reg_inv_def reg_ok_def put_def ordered_put)
  qed (use assms(1,4) in \<open>auto simp: lk reg_inv_def reg_ok_def split: if_splits\<close>)
  moreover have "ids_below (put k t (R\<lparr>rg_next_attach_id := ?n + 1\<rparr>))"
    using assms(1,2,5) more
    by (auto simp: lk reg_inv_def ids_below_def order.strict_implies_order)
  ultimately show ?thesis by (simp add: reg_inv_def)
qed


lemma inv_attach:
  assumes "attach_connection E name res cols rows trm pk sp rl R = (r, R', fx)"
    and "reg_inv R" "env_ok E" "rg_next_attach_id R \<noteq> -1"
  shows "reg_inv R' \<and> (\<forall>aid c rw. r = Some (aid, c, rw) \<longrightarrow> aid = rg_next_attach_id R \<and>
    rg_next_attach_id R' = aid + 1 \<and>
    (\<exists>s. lookup R' name = Some s \<and> s_state s = Attached \<and>
      map_of (s_attachments s) aid = Some \<lparr>at_attach_id = aid, at_cols = cols, at_rows = rows, at_spectator = sp, at_pubkey = pk\<rparr> \<and>
      min_geometry cols rows (s_attachments s) = (c, rw)))"
proof (cases "session_name_ok name")
  case False
  with assms(1,2) show ?thesis by (simp add: attach_connection_def)
next
  case nm: True
  obtain q R1 gx where f: "session_for_attach E name res cols rows trm pk rl R = (q, R1, gx)" by (metis prod_cases3)
  note 1 = session_for_attach_ok [OF f assms(2,3)]
  show ?thesis
  proof (cases q)
    case None
    with nm f assms(1) 1 show ?thesis by (simp add: attach_connection_def)
  next
    case (Some s)
    let ?n = "rg_next_attach_id R"
    have i: "reg_inv R1" "rg_next_attach_id R1 = ?n" "lookup R1 name = Some s" "s_state s = Attached"
      "pk \<noteq> [] \<longrightarrow> pk \<in> set (s_peer_ids s)" using 1 Some by simp_all
    have n0: "?n \<noteq> 0" using assms(2) by (auto simp: reg_inv_def ids_below_def)
    let ?a = "\<lparr>at_attach_id = ?n, at_cols = cols, at_rows = rows, at_spectator = sp, at_pubkey = pk\<rparr>"
    let ?s = "s\<lparr>s_attachments := map_put ?n ?a (s_attachments s)\<rparr>"
    obtain s2 hx where g: "apply_min_geometry E ?s = (s2, hx)" by fastforce
    obtain c rw where m: "min_geometry cols rows (s_attachments ?s) = (c, rw)" by fastforce
    from apply_geometry_frame [OF g] have fr: "same_frame ?s s2" "same_life ?s s2" by simp_all
    have out: "r = Some (?n, c, rw)" "R' = put name s2 (R1\<lparr>rg_next_attach_id := ?n + 1\<rparr>)"
      using assms(1) nm f Some i(2) n0 g m by (simp_all add: attach_connection_def take_attach_id_def Let_def)
    have "session_ok name ?s"
      using inv_session [OF i(1,3)] i(5) n0
      by (fastforce simp: session_ok_def live_def attachments_ok_put dest!: subsetD [OF set_map_put])
    then have ok: "session_ok name s2" using fr same_life_live session_ok_frame by blast
    have "aids s2 = insert ?n (aids s)" using fr(1) by (simp add: same_frame_def aids_def keys_put)
    with inv_register [OF i(1,3) _ ok] i(2) assms(4) have "reg_inv R'" unfolding out by simp
    moreover have "map_of (s_attachments s2) ?n = Some ?a" "s_state s2 = Attached"
      "min_geometry cols rows (s_attachments s2) = (c, rw)"
      using fr i(4) m by (simp_all add: same_frame_def same_life_def map_of_put)
    ultimately show ?thesis using out by simp
  qed
qed

section \<open>The registry as a transition system\<close>

text \<open>A connection that attached may name the signal to send when the session is left.\<close>

definition request_detach_signal :: "string \<Rightarrow> string \<Rightarrow> registry \<Rightarrow> registry" where
  "request_detach_signal name sig R =
     (case lookup R name of
        Some s \<Rightarrow> if sig \<noteq> [] then put name (s\<lparr>s_detach_signal := sig\<rparr>) R else R
      | None \<Rightarrow> R)"

lemma inv_request_detach_signal:
  assumes "reg_inv R"
  shows "reg_inv (request_detach_signal name sig R)"
proof (cases "lookup R name")
  case (Some s)
  have "live s \<longrightarrow> s_child_pid s > 0" using inv_session [OF assms Some] by (simp add: session_ok_def)
  then have "reg_inv (put name (s\<lparr>s_detach_signal := sig\<rparr>) R)"
    by (intro inv_put_frame [OF assms Some]) (auto simp: same_frame_def live_def)
  with assms Some show ?thesis by (simp add: request_detach_signal_def)
qed (simp add: request_detach_signal_def assms)

datatype reg_op =
  OpAttach reg_env string ResolvedSessionCommand u16 u16 string string bool bool
| OpRequestSignal string string
| OpGeometry reg_env u32 u16 u16
| OpDetach reg_env u32
| OpDetachPeer string string
| OpDetachAll string
| OpKill reg_env string
| OpReap reg_env bool
| OpPruneIdle reg_env int
| OpPruneEphemeral reg_env int
| OpLoad reg_env "SessionMeta list"
| OpAdopt reg_env "discovered_worker list"
| OpResurrect reg_env string u16 u16 string

fun reg_step :: "reg_op \<Rightarrow> registry \<Rightarrow> registry \<times> reg_effect list" where
  "reg_step (OpAttach E name res cols rows trm pk sp rl) R = snd (attach_connection E name res cols rows trm pk sp rl R)"
| "reg_step (OpRequestSignal name sig) R = (request_detach_signal name sig R, [])"
| "reg_step (OpGeometry E aid cols rows) R = set_attachment_geometry E aid cols rows R"
| "reg_step (OpDetach E aid) R = snd (detach_attachment E aid R)"
| "reg_step (OpDetachPeer name pk) R = snd (detach_peer name pk R)"
| "reg_step (OpDetachAll name) R = snd (detach_all name R)"
| "reg_step (OpKill E name) R = snd (kill E name R)"
| "reg_step (OpReap E inc) R = reap_dead E inc R"
| "reg_step (OpPruneIdle E m) R = prune_idle E m R"
| "reg_step (OpPruneEphemeral E m) R = prune_ephemeral_sessions E m R"
| "reg_step (OpLoad E ms) R = (load_persisted_sessions E ms R, [])"
| "reg_step (OpAdopt E ws) R = (adopt_workers E ws R, [])"
| "reg_step (OpResurrect E name cols rows trm) R = snd (resurrect E name cols rows trm R)"

fun op_env :: "reg_op \<Rightarrow> reg_env option" where
  "op_env (OpAttach E name res cols rows trm pk sp rl) = Some E"
| "op_env (OpReap E inc) = Some E"
| "op_env (OpResurrect E name cols rows trm) = Some E"
| "op_env _ = None"

definition op_ok :: "reg_op \<Rightarrow> bool" where
  "op_ok op \<longleftrightarrow> (case op_env op of Some E \<Rightarrow> env_ok E | None \<Rightarrow> True)"

definition new_registry :: "string \<Rightarrow> string \<Rightarrow> registry" where
  "new_registry home exe =
     \<lparr>rg_sessions = [], rg_next_attach_id = 1, rg_recent = [], rg_app_home = home, rg_worker_exe = exe,
      rg_generation = 0, rg_pruned_since_log = 0, rg_expired_since_log = 0, rg_last_prune_log = 0\<rparr>"

text \<open>The registries a daemon can reach, with everything it did to the outside, as long as its
  counter of attachments has not wrapped.\<close>

inductive reachable :: "registry \<Rightarrow> reg_effect list \<Rightarrow> bool" where
  start: "reachable (new_registry home exe) []"
| step: "reachable R fx \<Longrightarrow> op_ok op \<Longrightarrow> rg_next_attach_id R \<noteq> -1 \<Longrightarrow> reg_step op R = (R', gx) \<Longrightarrow>
    reachable R' (fx @ gx)"

lemma inv_reg_step:
  assumes "reg_inv R" "op_ok op" "rg_next_attach_id R \<noteq> -1" "reg_step op R = (R', fx)"
  shows "reg_inv R'"
proof (cases op)
  case (OpAttach E name res cols rows trm pk sp rl)
  obtain r R1 gx where a: "attach_connection E name res cols rows trm pk sp rl R = (r, R1, gx)" by (metis prod_cases3)
  with assms(2,4) OpAttach inv_attach [OF a assms(1) _ assms(3)] show ?thesis by (simp add: op_ok_def)
next
  case (OpDetach E aid)
  with assms(1,4) inv_detach_attachment show ?thesis by (metis prod.collapse reg_step.simps(4))
next
  case (OpDetachPeer name pk)
  with assms(1,4) inv_detach_peer show ?thesis by (metis prod.collapse reg_step.simps(5))
next
  case (OpDetachAll name)
  with assms(1,4) inv_detach_all show ?thesis by (metis prod.collapse reg_step.simps(6))
next
  case (OpKill E name)
  with assms(1,4) inv_kill show ?thesis by (metis prod.collapse reg_step.simps(7))
next
  case (OpReap E inc)
  with assms inv_for_sessions [OF visit_reap [of E inc] assms(1)] show ?thesis by (simp add: op_ok_def reap_dead_def)
next
  case (OpPruneIdle E m)
  with assms(4) inv_for_sessions [OF visit_prune_idle assms(1)] show ?thesis by (simp add: prune_idle_def)
next
  case (OpResurrect E name cols rows trm)
  obtain b R1 gx where a: "resurrect E name cols rows trm R = (b, R1, gx)" by (metis prod_cases3)
  with assms(2,4) OpResurrect inv_resurrect [OF a assms(1)] show ?thesis by (simp add: op_ok_def)
next
  case (OpRequestSignal name sig)
  with assms(4) inv_request_detach_signal [OF assms(1)] show ?thesis by auto
next
  case (OpGeometry E aid cols rows)
  with assms(4) inv_set_geometry [OF _ assms(1)] show ?thesis by simp
next
  case (OpPruneEphemeral E m)
  with assms(4) inv_prune_ephemeral [OF _ assms(1)] show ?thesis by simp
next
  case (OpLoad E ms)
  with assms(4) inv_load [OF assms(1)] show ?thesis by auto
next
  case (OpAdopt E ws)
  with assms(4) inv_adopt [OF assms(1)] show ?thesis by auto
qed

lemma inv_new_registry: "reg_inv (new_registry home exe)"
  by (simp add: reg_inv_def reg_ok_def ids_below_def new_registry_def ordered_def lookup_def)

lemma inv_reachable: "reachable R fx \<Longrightarrow> reg_inv R"
  by (induction rule: reachable.induct) (auto intro: inv_new_registry inv_reg_step)

section \<open>Signals\<close>

text \<open>Every signal to a process goes to a positive identifier, and so does, before it is negated, the
  one of the destructor to the process group of a child.\<close>

definition one_process :: "reg_effect list \<Rightarrow> bool" where
  "one_process fx \<longleftrightarrow> (\<forall>e \<in> set fx. case e of EffSignal p g \<Rightarrow> p > 0 | EffKillGroup p \<Rightarrow> p > 0 | _ \<Rightarrow> True)"

lemma one_process_simps [simp]:
  "one_process []" "one_process (fx @ gx) \<longleftrightarrow> one_process fx \<and> one_process gx"
  "one_process (EffSignal p g # fx) \<longleftrightarrow> p > 0 \<and> one_process fx"
  "one_process (EffResize f c r # fx) \<longleftrightarrow> one_process fx" "one_process (EffWorkerBytes n w # fx) \<longleftrightarrow> one_process fx"
  "one_process (EffShutdown n # fx) \<longleftrightarrow> one_process fx" "one_process (EffTerminate p # fx) \<longleftrightarrow> one_process fx"
  "one_process (EffKillGroup p # fx) \<longleftrightarrow> p > 0 \<and> one_process fx" "one_process (EffErased n # fx) \<longleftrightarrow> one_process fx"
  "one_process (EffStopUnit n # fx) \<longleftrightarrow> one_process fx"
  by (auto simp: one_process_def)

lemma one_process_parts [simp]:
  "one_process (destroy_effects s)" "one_process (shutdown_effects k s)" "one_process (erase_effects s)"
  "one_process (worker_cleanup k p)"
  by (simp_all add: destroy_effects_def shutdown_effects_def erase_effects_def worker_cleanup_def)

lemma spawn_one_process:
  assumes "spawn_session_runtime E R name c cols rows trm = (r, fx)" "env_ok E"
  shows "one_process fx"
proof -
  have 1: "one_process (snd (create_session_hosted E R name c))"
    by (simp add: create_session_hosted_def Let_def split: option.splits prod.splits)
  have 2: "one_process (snd (create_session E R name c cols rows trm))"
    using assms(2) by (simp add: create_session_def env_ok_def split: option.splits prod.splits)
  from assms(1) 1 2 show ?thesis
    by (auto simp: spawn_session_runtime_def split: if_splits prod.splits option.splits)
qed

lemma apply_geometry_one_process: "apply_min_geometry E s = (t, fx) \<Longrightarrow> one_process fx"
  by (auto simp: apply_min_geometry_def split: if_splits prod.splits)

lemma leave_one_process: "leave_session s = (t, fx) \<Longrightarrow> (live s \<longrightarrow> s_child_pid s > 0) \<Longrightarrow> one_process fx"
  by (auto simp: leave_session_def live_def Let_def split: if_splits)

lemma settle_one_process: "settle s = (t, fx) \<Longrightarrow> (live s \<longrightarrow> s_child_pid s > 0) \<Longrightarrow> one_process fx"
  by (auto simp: settle_def dest: leave_one_process split: if_splits)

lemma visits_one_process:
  assumes "\<And>s R. one_process (snd (snd (f s R)))"
  shows "one_process (snd (for_sessions f ks R))"
proof (induction ks arbitrary: R)
  case (Cons k ks)
  show ?case
  proof (cases "lookup R k")
    case (Some s)
    obtain r R1 gx where f: "f s R = (r, R1, gx)" by (metis prod_cases3)
    with assms [of s R] have "one_process gx" by simp
    with Some f Cons.IH show ?thesis by (simp add: Let_def case_prod_beta)
  qed (simp add: Cons.IH)
qed simp

lemma auto_restart_one_process: "env_ok E \<Longrightarrow> one_process (snd (snd (auto_restart E R s)))"
  by (auto simp: auto_restart_def Let_def split: prod.splits option.splits dest: spawn_one_process)

lemma reap_one_process: "env_ok E \<Longrightarrow> one_process (snd (snd (reap_session E inc s R)))"
  by (auto simp: reap_session_def Let_def auto_restart_one_process split: prod.splits option.splits)

lemma replace_one_process: "env_ok E \<Longrightarrow> one_process (snd (snd (replace_session E name res cols rows trm pk force s R)))"
  by (auto simp: replace_session_def Let_def split: prod.splits option.splits dest: spawn_one_process)

lemma attach_one_process:
  assumes "env_ok E"
  shows "one_process (snd (snd (attach_connection E name res cols rows trm pk sp rl R)))"
proof -
  have "one_process (snd (snd (session_for_attach E name res cols rows trm pk rl R)))"
    using replace_one_process [OF assms] assms
    by (auto simp: session_for_attach_def Let_def split: prod.splits option.splits dest: spawn_one_process)
  then show ?thesis
    by (auto simp: attach_connection_def Let_def split: prod.splits option.splits dest: apply_geometry_one_process)
qed

lemma session_live_pid: "reg_inv R \<Longrightarrow> lookup R k = Some s \<Longrightarrow> live s \<longrightarrow> s_child_pid s > 0"
  using inv_session by (simp add: session_ok_def)

lemma drop_attachment_one_process:
  assumes "drop_attachment E aid s = (t, fx)" "live s \<longrightarrow> s_child_pid s > 0"
  shows "one_process fx"
proof -
  let ?s = "s\<lparr>s_attachments := map_del aid (s_attachments s)\<rparr>"
  obtain s1 gx where g: "apply_min_geometry E ?s = (s1, gx)" by fastforce
  define pk where "pk = (case map_of (s_attachments s) aid of Some a \<Rightarrow> at_pubkey a | None \<Rightarrow> [])"
  obtain hx where l: "settle (forget_peer pk s1) = (t, hx)" "fx = gx @ hx"
    using assms(1) g by (auto simp: drop_attachment_def Let_def pk_def [symmetric] split: prod.splits)
  from apply_geometry_frame [OF g] assms(2) have "live s1 \<longrightarrow> s_child_pid s1 > 0"
    by (auto simp: same_life_def live_def)
  with settle_one_process [OF l(1)] apply_geometry_one_process [OF g] l(2) show ?thesis by simp
qed

lemma detaches_one_process:
  assumes "reg_inv R"
  shows "one_process (snd (snd (detach_attachment E aid R)))"
    and "one_process (snd (snd (detach_peer name pk R)))"
    and "one_process (snd (snd (detach_all name R)))"
proof -
  show "one_process (snd (snd (detach_attachment E aid R)))"
  proof (cases "session_by_attach_id aid R")
    case (Some e)
    obtain k s where e: "e = (k, s)" by (cases e)
    from lookup_by_attach_id [OF Some [unfolded e] inv_ordered [OF assms]] session_live_pid [OF assms]
    have "live s \<longrightarrow> s_child_pid s > 0" by blast
    with Some e show ?thesis
      by (auto simp: detach_attachment_def split: prod.splits dest: drop_attachment_one_process)
  qed (simp add: detach_attachment_def)
  show "one_process (snd (snd (detach_peer name pk R)))"
  proof (cases "lookup R name")
    case (Some s)
    from session_live_pid [OF assms Some] have "live (drop_peer pk s) \<longrightarrow> s_child_pid (drop_peer pk s) > 0"
      by (simp add: drop_peer_def Let_def live_def)
    with Some show ?thesis by (auto simp: detach_peer_def Let_def split: prod.splits dest: settle_one_process)
  qed (simp add: detach_peer_def)
  show "one_process (snd (snd (detach_all name R)))"
  proof (cases "lookup R name")
    case (Some s)
    let ?s = "s\<lparr>s_attachments := [], s_peer_ids := []\<rparr>"
    from session_live_pid [OF assms Some] have "live ?s \<longrightarrow> s_child_pid ?s > 0" by (simp add: live_def)
    with Some show ?thesis by (auto simp: detach_all_def split: prod.splits dest: leave_one_process)
  qed (simp add: detach_all_def)
qed

lemma reg_step_one_process:
  assumes "reg_inv R" "op_ok op"
  shows "one_process (snd (reg_step op R))"
proof (cases op)
  case (OpAttach E name res cols rows trm pk sp rl)
  with assms(2) attach_one_process show ?thesis by (simp add: op_ok_def)
next
  case (OpGeometry E aid cols rows)
  then show ?thesis
    by (auto simp: set_attachment_geometry_def Let_def split: prod.splits option.splits dest: apply_geometry_one_process)
next
  case (OpKill E name)
  then show ?thesis by (simp add: kill_def split: prod.splits option.splits)
next
  case (OpReap E inc)
  with assms(2) have "env_ok E" by (simp add: op_ok_def)
  with OpReap show ?thesis using reap_one_process [of E inc]
    by (auto simp: reap_dead_def intro!: visits_one_process split: prod.splits) (metis snd_conv)
next
  case (OpPruneIdle E m)
  then show ?thesis
    by (auto simp: prune_idle_def prune_idle_session_def Let_def intro!: visits_one_process split: prod.splits)
next
  case (OpPruneEphemeral E m)
  have 1: "one_process (snd (prune_finished_sessions E m' R))" for m' R
    by (auto simp: prune_finished_sessions_def prune_finished_session_def Let_def intro!: visits_one_process split: prod.splits)
  have 2: "one_process (snd (for_sessions (prune_ephemeral_session E m) ks R))" for ks R
    by (auto simp: prune_ephemeral_session_def Let_def intro!: visits_one_process split: prod.splits liveness.splits)
  show ?thesis unfolding OpPruneEphemeral reg_step.simps prune_ephemeral_sessions_def
    using 1 2 by (auto split: prod.splits) (metis snd_conv)+
next
  case (OpResurrect E name cols rows trm)
  with assms(2) have "env_ok E" by (simp add: op_ok_def)
  with OpResurrect show ?thesis
    by (auto simp: resurrect_def split: prod.splits option.splits dest: spawn_one_process)
qed (simp_all add: detaches_one_process assms)

lemma reachable_one_process: "reachable R fx \<Longrightarrow> one_process fx"
proof (induction rule: reachable.induct)
  case (step R fx op R' gx)
  from reg_step_one_process [OF inv_reachable [OF step.hyps(1)] step.hyps(2)] step show ?case by simp
qed simp

end
