(* ===== verification/Registry_Props.thy ===== *)
theory Registry_Props
  imports Registry_Ops
begin

text \<open>
  The properties of the session registry: well-formedness and signals, attaching and detaching, the end and the automatic restart of a session, what a restart
  of the daemon keeps, and two divergences.
\<close>

section \<open>Passes over the sessions\<close>

text \<open>A pass whose verdict on a session depends on the session alone decides each session once.\<close>

lemma pass_decides:
  assumes "\<And>s R. fst (f s R) = g s" "\<And>s R. lookup (fst (snd (f s R))) = lookup R" "distinct ks"
  shows "lookup (fst (for_sessions f ks R)) k =
    (if k \<in> set ks then Option.bind (lookup R k) g else lookup R k)"
  using assms(3)
proof (induction ks arbitrary: R)
  case (Cons j ks)
  show ?case
  proof (cases "lookup R j")
    case None
    with Cons show ?thesis by auto
  next
    case (Some s)
    obtain R1 fx where f: "f s R = (g s, R1, fx)" using assms(1) [of s R] by (metis prod.collapse)
    with assms(2) [of s R] have l: "lookup R1 = lookup R" by simp
    define R2 where "R2 = (case g s of Some s' \<Rightarrow> put j s' R1 | None \<Rightarrow> erase j R1)"
    have R2: "lookup R2 i = (if i = j then g s else lookup R i)" for i
      by (simp add: R2_def l split: option.splits)
    have "fst (for_sessions f (j # ks) R) = fst (for_sessions f ks R2)"
      using Some f by (simp add: Let_def R2_def case_prod_beta split: option.split)
    with Cons R2 Some show ?thesis by simp
  qed
qed simp

lemma lookup_keys: "k \<in> fst ` set (rg_sessions R) \<longleftrightarrow> lookup R k \<noteq> None"
  by (simp add: lookup_def map_of_eq_None_iff)

lemma record_history_sessions: "rg_sessions (snd (record_history E s c st R)) = rg_sessions R"
  by (simp add: record_history_def Let_def)

lemma lookup_record_history [simp]: "lookup (snd (record_history E s c st R)) = lookup R"
  by (simp add: lookup_def fun_eq_iff record_history_sessions)

definition finished_verdict :: "int \<Rightarrow> int \<Rightarrow> Session \<Rightarrow> Session option" where
  "finished_verdict now max_age s =
     (if \<not> terminal s then Some (s\<lparr>s_finished_at := 0\<rparr>)
      else if s_finished_at s = 0 then Some (s\<lparr>s_finished_at := now\<rparr>)
      else if now - s_finished_at s < max_age then Some s
      else None)"

lemma prune_finished_decides:
  assumes "reg_inv R"
  shows "lookup (fst (prune_finished_sessions E m R)) k = Option.bind (lookup R k) (finished_verdict (re_now E) m)"
proof -
  let ?f = "prune_finished_session E m"
  have "fst (?f s R) = finished_verdict (re_now E) m s" "lookup (fst (snd (?f s R))) = lookup R" for s R
    by (simp_all add: prune_finished_session_def finished_verdict_def case_prod_beta)
  from pass_decides [of ?f, OF this ordered_distinct [OF inv_ordered [OF assms]]]
  show ?thesis by (auto simp: prune_finished_sessions_def lookup_keys)
qed

lemma inv_prune_finished: "reg_inv R \<Longrightarrow> reg_inv (fst (prune_finished_sessions E m R))"
  by (metis inv_for_sessions prod.collapse prune_finished_sessions_def visit_prune_finished)

text \<open>An ended session is kept for inspection and then forgotten: the first pass after its end
  stamps it, passes less than \<open>max_age\<close> later keep it as it is, and the first pass at least
  \<open>max_age\<close> later erases it; a session that has not ended is never erased.\<close>

theorem ended_session_expires:
  assumes "reg_inv R" "lookup R k = Some s" "terminal s" "s_finished_at s = 0" "re_now E1 \<noteq> 0"
  shows "lookup (fst (prune_finished_sessions E2 m (fst (prune_finished_sessions E1 m R)))) k =
    (if re_now E2 - re_now E1 < m then Some (s\<lparr>s_finished_at := re_now E1\<rparr>) else None)"
  using assms
  by (simp add: prune_finished_decides inv_prune_finished finished_verdict_def terminal_def)

section \<open>Geometry\<close>

lemma min_geometry_bounds:
  "min_geometry c r atts =
     (Min (insert c (at_cols ` snd ` set atts)), Min (insert r (at_rows ` snd ` set atts)))"
proof (induction atts arbitrary: c r)
  case (Cons x atts)
  obtain k a where x: "x = (k, a)" by (cases x)
  from Cons [of "min c (at_cols a)" "min r (at_rows a)"]
  have 1: "min_geometry c r (x # atts) =
    (Min (insert (min c (at_cols a)) (at_cols ` snd ` set atts)), Min (insert (min r (at_rows a)) (at_rows ` snd ` set atts)))"
    by (simp add: min_geometry_def x)
  have 2: "Min (insert (min u v) A) = Min (insert u (insert v A))" if "finite A" for A and u v :: u16
    using that by (cases "A = {}") (simp_all add: min.assoc)
  show ?case unfolding 1 by (simp add: x 2)
qed (simp add: min_geometry_def)

text \<open>Attaching gives the connection an identifier no attachment has, records its terminal under
  it, marks the session as attached and reports the smallest width and the smallest height of all
  the session's attachments.\<close>

theorem attach_registers_connection:
  assumes "attach_connection E name res cols rows trm pk sp rl R = (Some (aid, c, r), R', fx)"
    and "reg_inv R" "env_ok E" "rg_next_attach_id R \<noteq> -1"
  shows "(\<forall>k s. lookup R k = Some s \<longrightarrow> aid \<notin> aids s) \<and>
    (\<exists>s. lookup R' name = Some s \<and> s_state s = Attached \<and>
      map_of (s_attachments s) aid = Some \<lparr>at_attach_id = aid, at_cols = cols, at_rows = rows, at_spectator = sp, at_pubkey = pk\<rparr> \<and>
      c = Min (at_cols ` snd ` set (s_attachments s)) \<and> r = Min (at_rows ` snd ` set (s_attachments s)))"
proof -
  from inv_attach [OF assms] obtain s where s: "aid = rg_next_attach_id R" "lookup R' name = Some s" "s_state s = Attached"
    "map_of (s_attachments s) aid = Some \<lparr>at_attach_id = aid, at_cols = cols, at_rows = rows, at_spectator = sp, at_pubkey = pk\<rparr>"
    "min_geometry cols rows (s_attachments s) = (c, r)" by auto
  from map_of_SomeD [OF s(4)] have "cols \<in> at_cols ` snd ` set (s_attachments s)" "rows \<in> at_rows ` snd ` set (s_attachments s)"
    by force+
  then have "insert cols (at_cols ` snd ` set (s_attachments s)) = at_cols ` snd ` set (s_attachments s)"
    "insert rows (at_rows ` snd ` set (s_attachments s)) = at_rows ` snd ` set (s_attachments s)" by auto
  moreover have "aid \<notin> aids u" if "lookup R k = Some u" for k u
    using assms(2) that s(1) by (auto simp: reg_inv_def ids_below_def)
  ultimately show ?thesis using s by (simp add: min_geometry_bounds)
qed


section \<open>Well-formedness and signals\<close>

text \<open>What the invariant of the registry says of a session.\<close>

lemma reg_inv_session:
  assumes "reg_inv R" "lookup R k = Some s"
  shows "s_name s = k \<and> (\<forall>(aid, a) \<in> set (s_attachments s). at_attach_id a = aid \<and> aid \<noteq> 0 \<and>
      (at_pubkey a \<noteq> [] \<longrightarrow> at_pubkey a \<in> set (s_peer_ids s))) \<and>
    distinct (map fst (s_attachments s)) \<and> distinct (s_peer_ids s) \<and> (live s \<longrightarrow> s_child_pid s > 0) \<and>
    (\<forall>j t. lookup R j = Some t \<longrightarrow> aids s \<inter> aids t \<noteq> {} \<longrightarrow> j = k) \<and> length (rg_recent R) \<le> 50"
proof -
  from inv_session [OF assms] have "session_ok k s" .
  moreover have "j = k" if "lookup R j = Some t" "aids s \<inter> aids t \<noteq> {}" for j t
    using that assms unfolding reg_inv_def reg_ok_def by (metis Int_commute)
  ultimately show ?thesis using inv_recent [OF assms(1)]
    by (auto simp: session_ok_def attachments_ok_def kMaxRecentSessions_def dest: ordered_distinct)
qed

section \<open>Detaching\<close>

lemma settle_state:
  assumes "settle s = (t, fx)"
  shows "s_attachments t = s_attachments s \<and>
    s_state t = (if s_attachments s = [] \<and> (s_state s = Attached \<or> s_state s = Running) then Detached else s_state s)"
  using assms by (auto simp: settle_def leave_session_def split: if_splits)

lemma drop_attachment_state:
  assumes "drop_attachment E aid s = (t, fx)"
  shows "s_state t = (if map_del aid (s_attachments s) = [] \<and> (s_state s = Attached \<or> s_state s = Running)
    then Detached else s_state s)"
proof -
  define pk where "pk = (case map_of (s_attachments s) aid of Some a \<Rightarrow> at_pubkey a | None \<Rightarrow> [])"
  let ?s = "s\<lparr>s_attachments := map_del aid (s_attachments s)\<rparr>"
  obtain s1 gx where g: "apply_min_geometry E ?s = (s1, gx)" by fastforce
  obtain hx where l: "settle (forget_peer pk s1) = (t, hx)"
    using assms(1) g by (auto simp: drop_attachment_def Let_def pk_def [symmetric] split: prod.splits)
  from apply_geometry_frame [OF g] settle_state [OF l] show ?thesis
    by (auto simp: same_frame_def same_life_def)
qed

lemma session_by_attach_id_eq:
  assumes "reg_inv R" "lookup R k = Some s" "aid \<in> aids s"
  shows "session_by_attach_id aid R = Some (k, s)"
proof -
  from assms(3) have a: "map_of (s_attachments s) aid \<noteq> None" by (simp add: aids_def map_of_eq_None_iff)
  have "session_by_attach_id aid R \<noteq> None"
  proof
    assume "session_by_attach_id aid R = None"
    with map_of_SomeD [OF assms(2) [unfolded lookup_def]] a show False
      by (fastforce simp: session_by_attach_id_def find_None_iff)
  qed
  then obtain j t where jt: "session_by_attach_id aid R = Some (j, t)" by auto
  from lookup_by_attach_id [OF jt inv_ordered [OF assms(1)]] have t: "lookup R j = Some t" "aid \<in> aids t" by auto
  with assms have "j = k" unfolding reg_inv_def reg_ok_def by blast
  with t(1) assms(2) jt show ?thesis by simp
qed

text \<open>Detaching a connection removes its attachment and no other, leaves every other session as
  it is, answers whether attachments remain, and makes an attached session detached exactly when
  none does.\<close>

theorem detach_removes_one_attachment:
  assumes "reg_inv R" "lookup R k = Some s" "aid \<in> aids s" "s_state s = Attached"
    and "detach_attachment E aid R = (remain, R', fx)"
  shows "\<exists>t. lookup R' k = Some t \<and> s_attachments t = filter (\<lambda>e. fst e \<noteq> aid) (s_attachments s) \<and>
    (\<forall>j. j \<noteq> k \<longrightarrow> lookup R' j = lookup R j) \<and> remain = (s_attachments t \<noteq> []) \<and>
    s_state t = (if remain then Attached else Detached)"
proof -
  obtain t gx where d: "drop_attachment E aid s = (t, gx)" by fastforce
  from assms(5) d session_by_attach_id_eq [OF assms(1-3)]
  have out: "R' = put k t R" "remain = (s_attachments t \<noteq> [])" by (simp_all add: detach_attachment_def)
  from drop_attachment_ok [OF d inv_session [OF assms(1,2)]] drop_attachment_state [OF d] assms(4) out
  show ?thesis by (auto simp: map_del_def case_prod_beta)
qed

section \<open>Restarts\<close>

text \<open>How often the automatic restart brings a session back, over a series of deaths. A session
  that is not brought back is not reaped again.\<close>

fun comebacks :: "reg_env list \<Rightarrow> Session \<Rightarrow> registry \<Rightarrow> nat" where
  "comebacks [] s R = 0"
| "comebacks (E # Es) s R =
     (case auto_restart E R s of (t, R', _) \<Rightarrow> if live t then Suc (comebacks Es t R') else 0)"

lemma auto_restart_counts:
  assumes "auto_restart E R s = (t, R', fx)" "live t"
  shows "(re_now E - s_restart_window_start s \<le> restart_window \<longrightarrow>
      s_restart_window_start t = s_restart_window_start s \<and> s_restart_failures t = s_restart_failures s + 1 \<and> s_restart_failures s < 3) \<and>
    (re_now E - s_restart_window_start s > restart_window \<longrightarrow>
      s_restart_window_start t = re_now E \<and> s_restart_failures t = 1)"
  using assms
  by (auto simp: auto_restart_def Let_def reset_restart_failures_def install_spawned_runtime_def
      split: prod.splits option.splits if_splits)

lemma comebacks_in_window:
  "\<forall>E \<in> set Es. re_now E - s_restart_window_start s \<le> restart_window \<Longrightarrow> s_restart_failures s \<ge> 0 \<Longrightarrow>
   int (comebacks Es s R) + min 3 (s_restart_failures s) \<le> 3"
proof (induction Es arbitrary: s R)
  case (Cons E Es)
  obtain t R' fx where a: "auto_restart E R s = (t, R', fx)" by (metis prod_cases3)
  show ?case
  proof (cases "live t")
    case True
    from auto_restart_counts [OF a True] Cons.prems
    have t: "s_restart_window_start t = s_restart_window_start s" "s_restart_failures t = s_restart_failures s + 1"
      "s_restart_failures s < 3" by simp_all
    with Cons.IH [of t R'] Cons.prems have "int (comebacks Es t R') + min 3 (s_restart_failures t) \<le> 3" by simp
    with t a True show ?thesis by simp
  qed (simp add: a)
qed simp

text \<open>The circuit breaker: of a burst of deaths, a first one and any number within 60 seconds of
  it, a session comes back at most three times.\<close>

theorem restart_burst_is_bounded:
  assumes "re_now E - s_restart_window_start s > seconds 60" "\<forall>D \<in> set Es. re_now D - re_now E \<le> seconds 60"
  shows "comebacks (E # Es) s R \<le> 3"
proof -
  obtain t R' fx where a: "auto_restart E R s = (t, R', fx)" by (metis prod_cases3)
  show ?thesis
  proof (cases "live t")
    case True
    from auto_restart_counts [OF a True] assms(1)
    have t: "s_restart_window_start t = re_now E" "s_restart_failures t = 1" by (simp_all add: restart_window_def)
    with comebacks_in_window [of Es t R'] assms(2) have "int (comebacks Es t R') \<le> 2" by (simp add: restart_window_def)
    with a True show ?thesis by simp
  qed (simp add: a)
qed

section \<open>Persistence\<close>

text \<open>The session a stored one becomes.\<close>

definition recovered :: "reg_env \<Rightarrow> SessionMeta \<Rightarrow> Session" where
  "recovered E m =
     (let sys = (if sm_created_at m = [] then re_sys E
                 else case stoll (sm_created_at m) of Some t \<Rightarrow> seconds t | None \<Rightarrow> re_sys E) in
      (new_Session (re_now E) sys)\<lparr>s_name := sm_name m, s_command := sm_command m, s_state := Recoverable\<rparr>)"

lemma lookup_load_meta:
  "lookup (load_meta E m R) k =
     (if k = sm_name m \<and> lookup R k = None then Some (recovered E m) else lookup R k)"
  by (auto simp: load_meta_def recovered_def Let_def)

lemma load_Cons: "load_persisted_sessions E (m # ms) R = load_persisted_sessions E ms (load_meta E m R)"
  by (simp add: load_persisted_sessions_def)

lemma load_other: "lookup R k \<noteq> None \<or> k \<notin> sm_name ` set ms \<Longrightarrow> lookup (load_persisted_sessions E ms R) k = lookup R k"
proof (induction ms arbitrary: R)
  case (Cons m ms)
  then show ?case by (auto simp: load_Cons lookup_load_meta)
qed (simp add: load_persisted_sessions_def)

lemma load_new:
  "m \<in> set ms \<Longrightarrow> distinct (map sm_name ms) \<Longrightarrow> lookup R (sm_name m) = None \<Longrightarrow>
   lookup (load_persisted_sessions E ms R) (sm_name m) = Some (recovered E m)"
proof (induction ms arbitrary: R)
  case (Cons n ms)
  show ?case
  proof (cases "n = m")
    case True
    with Cons.prems(3) show ?thesis by (simp add: load_Cons load_other lookup_load_meta)
  next
    case False
    with Cons.prems(1,2) have "m \<in> set ms" "sm_name m \<noteq> sm_name n" by (auto simp: image_iff)
    with Cons.IH [of "load_meta E n R"] Cons.prems(2,3) show ?thesis by (simp add: load_Cons lookup_load_meta)
  qed
qed simp

lemma stoll_dec_int:
  assumes "- (2 ^ 63) \<le> i" "i < 2 ^ 63"
  shows "stoll (dec_int i) = Some i"
proof -
  have ds: "dropWhile is_space (dec_digits n) = dec_digits n" "takeWhile is_digit (dec_digits n) = dec_digits n"
    "hd (dec_digits n) \<noteq> CHR ''-''" "hd (dec_digits n) \<noteq> CHR ''+''" for n
  proof -
    have h: "is_digit (hd (dec_digits n))" using dec_digits_digits [OF hd_in_set] by simp
    then have "\<not> is_space (hd (dec_digits n))" by (auto simp: is_digit_def is_space_def)
    then show "dropWhile is_space (dec_digits n) = dec_digits n" by (cases "dec_digits n") simp_all
    show "takeWhile is_digit (dec_digits n) = dec_digits n" by (simp add: takeWhile_eq_all_conv dec_digits_digits)
    show "hd (dec_digits n) \<noteq> CHR ''-''" "hd (dec_digits n) \<noteq> CHR ''+''"
      using h by (auto simp: is_digit_def code_of_def)
  qed
  have "\<not> is_space (CHR ''-'')" by (simp add: is_space_def code_of_def)
  with assms show ?thesis by (auto simp: stoll_def dec_int_def ds Let_def nat_less_iff le_nat_iff)
qed

text \<open>A restarted daemon knows every session of the old one: it is recoverable, was created in
  the same second, and has neither process nor attachments; of its command the secrets are gone.\<close>

theorem saved_sessions_are_recoverable:
  assumes "reg_inv R" "lookup R k = Some s" "- (2 ^ 63) \<le> s_created_at_sys s" "s_created_at_sys s < 2 ^ 63"
  shows "\<exists>t. lookup (load_persisted_sessions E (save_persisted_sessions R) (new_registry home exe)) k = Some t \<and>
    s_name t = k \<and> s_state t = Recoverable \<and> s_command t = redact_secrets (s_command s) \<and>
    s_created_at_sys t = seconds (to_seconds (s_created_at_sys s)) \<and> s_child_pid t = -1 \<and> s_attachments t = []"
proof -
  let ?ms = "save_persisted_sessions R"
  let ?m = "saved_meta (session_meta s)"
  have key: "s_name u = j" if "(j, u) \<in> set (rg_sessions R)" for j u
  proof -
    from that ordered_distinct [OF inv_ordered [OF assms(1)]] have "lookup R j = Some u" by (simp add: lookup_def)
    from inv_session [OF assms(1) this] show ?thesis by (simp add: session_ok_def)
  qed
  have "map sm_name ?ms = map fst (rg_sessions R)"
    using key by (auto simp: save_persisted_sessions_def saved_meta_def session_meta_def)
  then have d: "distinct (map sm_name ?ms)" using ordered_distinct [OF inv_ordered [OF assms(1)]] by simp
  from assms(2) have mem: "(k, s) \<in> set (rg_sessions R)" unfolding lookup_def by (rule map_of_SomeD)
  then have "?m \<in> set ?ms" by (force simp: save_persisted_sessions_def)
  moreover have "sm_name ?m = k" using key [OF mem] by (simp add: saved_meta_def session_meta_def)
  moreover have "lookup (new_registry home exe) j = None" for j by (simp add: lookup_def new_registry_def)
  ultimately have "lookup (load_persisted_sessions E ?ms (new_registry home exe)) k = Some (recovered E ?m)"
    using load_new [OF _ d] by metis
  moreover have "dec_int i \<noteq> []" for i by (simp add: dec_int_def)
  moreover have "stoll (dec_int (to_seconds (s_created_at_sys s))) = Some (to_seconds (s_created_at_sys s))"
    using assms(3,4) by (intro stoll_dec_int) (auto simp: to_seconds_def)
  ultimately show ?thesis using key [OF mem]
    by (simp add: recovered_def saved_meta_def session_meta_def Let_def new_Session_def)
qed

section \<open>Divergences\<close>

text \<open>The kind a replacement session is given is lost: the entry keeps the kind of the session it
  replaces, so an agent's command started in the entry of an ended user shell counts as the user's.\<close>

theorem replaced_session_keeps_its_kind:
  assumes "lookup R name = Some s" "\<not> live s" "\<not> rl"
    and "session_for_attach E name res cols rows trm pk rl R = (Some t, R', fx)"
  shows "s_kind t = s_kind s"
proof -
  define force where "force = (\<not> rl \<and> rsc_source res = ClientOverride \<and> rsc_command res \<noteq> [])"
  from assms have "replace_session E name res cols rows trm pk force s R = (Some t, R', fx)"
    by (simp add: session_for_attach_def Let_def force_def)
  then show ?thesis
    by (auto simp: replace_session_def Let_def add_peer_def install_spawned_runtime_def release_exited_runtime_def
        record_history_def split: prod.splits option.splits if_splits)
qed

text \<open>The output and the replayed scrollback that the reaper reads from the worker of a session
  are lost: it takes them from the socket, and the session, the registry and the outside are as if
  the worker had sent nothing.\<close>

theorem reaper_drops_worker_output:
  assumes "s_hosted s" "s_master_fd s \<ge> 0" "\<not> s_worker_died s" "s_worker_rx s = []"
    and "live s" "inc \<or> s_state s \<noteq> Attached"
    and "\<forall>m \<in> set ms. length (snd m) \<le> kMaxWorkerPayload \<and> fst m \<noteq> WMSG_DIED"
    and "re_pump E (s_name s) = piece_events (concat (map (\<lambda>(t, d). worker_frame t d) ms))"
  shows "snd (pump_hosted_session s (re_pump E (s_name s))) =
      \<lparr>hp_output = payloads WMSG_OUTPUT ms, hp_scrollback = payloads WMSG_SCROLLBACK ms\<rparr> \<and>
    reap_session E inc s R = (s, R, [])"
proof -
  let ?fs = "map (\<lambda>(t, d). worker_frame t d) ms"
  have fr: "list_all2 is_worker_frame ms ?fs"
    using assms(7) by (induction ms) (auto simp: is_worker_frame_def)
  have alive: "list_all (\<lambda>m. fst m \<noteq> WMSG_DIED) ms" using assms(7) by (simp add: list_all_iff)
  from worker_stream.drain_all [OF fr] have "worker_drain (s_worker_rx s @ concat ?fs) = Some (ms, [])"
    using assms(4) by simp
  from pump_piece_alive [OF assms(1-3) this alive] assms(4)
  have p: "pump_hosted_session s (re_pump E (s_name s)) =
    (s, \<lparr>hp_output = payloads WMSG_OUTPUT ms, hp_scrollback = payloads WMSG_SCROLLBACK ms\<rparr>)"
    using assms(8) by simp
  from assms(1-3) p have "observe_death E s = (s, None)" by (simp add: observe_death_def)
  moreover have "\<not> ((\<not> inc \<and> s_state s = Attached) \<or> \<not> live s)" using assms(5,6) by simp
  ultimately show ?thesis using p by (simp add: reap_session_live)
qed


section \<open>Witnesses\<close>

text \<open>An environment without workers, where a fork gives process 4242, and a connection's attach.\<close>

definition reg_sample_env :: "int \<Rightarrow> reg_env" where
  "reg_sample_env now =
     \<lparr>re_now = now, re_sys = 0, re_parent = [], re_worker_enabled = False,
      re_hosted = (\<lambda>_. \<lparr>hv_ping = False, hv_connect = -1, hv_spawn = -1, hv_wait_connect = -1, hv_exited = False,
        hv_ready = None, hv_pid_file = None, hv_nonblock = False\<rparr>),
      re_pty_nonblock = True, re_forkpty = (\<lambda>_ _ _ _ _. Some (7, 4242)), re_wait = (\<lambda>_. WaitNone), re_pump = (\<lambda>_. []), re_take = (\<lambda>_. []),
      re_worker_stopped = (\<lambda>_. False), re_worker_dead = (\<lambda>_. False)\<rparr>"

lemma reg_sample_env_ok: "env_ok (reg_sample_env now)"
  by (simp add: env_ok_def reg_sample_env_def)

definition sample_session :: Session where
  "sample_session = (new_Session 5 0)\<lparr>s_name := ''w'', s_command := ''sh'', s_master_fd := 7, s_child_pid := 4242,
     s_generation := 1, s_state := Attached, s_kind := Harness, s_owner_pubkey := ''pk'', s_peer_ids := [''pk''],
     s_attachments := [(1, \<lparr>at_attach_id = 1, at_cols = 80, at_rows = 24, at_spectator = False, at_pubkey = ''pk''\<rparr>)]\<rparr>"

definition sample_registry :: registry where
  "sample_registry = (new_registry [] [])\<lparr>rg_sessions := [(''w'', sample_session)], rg_next_attach_id := 2, rg_generation := 1\<rparr>"

definition sample_attach :: reg_op where
  "sample_attach = OpAttach (reg_sample_env 5) ''w'' \<lparr>rsc_command = ''sh'', rsc_source = ClientOverride\<rparr> 80 24 ''xterm'' ''pk'' False False"

lemma sample_attach_run:
  "attach_connection (reg_sample_env 5) ''w'' \<lparr>rsc_command = ''sh'', rsc_source = ClientOverride\<rparr> 80 24 ''xterm'' ''pk'' False False
     (new_registry [] []) = (Some (1, 80, 24), sample_registry, [EffResize 7 80 24])"
  by (simp add: attach_connection_def session_name_ok_def session_for_attach_def lookup_def new_registry_def
      spawn_session_runtime_def create_session_def reg_sample_env_def take_attach_id_def sample_registry_def sample_session_def
      min_geometry_def apply_min_geometry_def put_def next_generation_def classify_session_kind_def is_prefix_def
      code_of_def Let_def new_Session_def prepare_session_command_def)

lemma sample_reachable: "reachable sample_registry [EffResize 7 80 24]"
proof -
  have "reachable sample_registry ([] @ [EffResize 7 80 24])"
  proof (rule reachable.step [OF reachable.start [of "[]" "[]"]])
    show "op_ok sample_attach" by (simp add: op_ok_def sample_attach_def reg_sample_env_ok)
    show "reg_step sample_attach (new_registry [] []) = (sample_registry, [EffResize 7 80 24])"
      by (simp add: sample_attach_def sample_attach_run)
    show "rg_next_attach_id (new_registry [] []) \<noteq> -1" by (simp add: new_registry_def)
  qed
  then show ?thesis by simp
qed

lemma sample_lookup [simp]: "lookup sample_registry k = (if k = ''w'' then Some sample_session else None)"
  by (simp add: lookup_def sample_registry_def)

lemma sample_inv: "reg_inv sample_registry"
  using inv_reachable [OF sample_reachable] .

lemma sample_simps [simp]:
  "s_state sample_session = Attached" "s_child_pid sample_session = 4242" "s_detach_signal sample_session = []"
  "s_attachments sample_session = [(1, \<lparr>at_attach_id = 1, at_cols = 80, at_rows = 24, at_spectator = False, at_pubkey = ''pk''\<rparr>)]"
  "aids sample_session = {1}" "s_name sample_session = ''w''"
  by (simp_all add: sample_session_def aids_def new_Session_def)

text \<open>The session is asked for a hangup signal and then left.\<close>

definition hup_registry :: registry where
  "hup_registry = request_detach_signal ''w'' ''HUP'' sample_registry"

lemma next_id_hup [simp]: "rg_next_attach_id hup_registry = 2" "rg_next_attach_id sample_registry = 2"
  by (simp_all add: hup_registry_def request_detach_signal_def sample_registry_def new_registry_def split: option.split)

lemma hup_reachable: "reachable hup_registry [EffResize 7 80 24]"
proof -
  have "reachable hup_registry ([EffResize 7 80 24] @ [])"
    by (rule reachable.step [OF sample_reachable, of "OpRequestSignal ''w'' ''HUP''"])
      (simp_all add: op_ok_def hup_registry_def [symmetric])
  then show ?thesis by simp
qed

lemma hup_sessions: "rg_sessions hup_registry = [(''w'', sample_session\<lparr>s_detach_signal := ''HUP''\<rparr>)]"
  by (simp add: hup_registry_def request_detach_signal_def put_def) (simp add: sample_registry_def)

lemma hup_detach:
  "\<exists>R. detach_attachment (reg_sample_env 9) 1 hup_registry = (False, R, [EffSignal 4242 1])"
  by (simp add: detach_attachment_def session_by_attach_id_def hup_sessions drop_attachment_def map_del_def
      apply_min_geometry_def settle_def leave_session_def forget_peer_def resolve_detach_signal_def)

lemma attach_registers_connection_witness:
  "\<exists>s. lookup sample_registry ''w'' = Some s \<and> s_state s = Attached \<and>
     80 = Min (at_cols ` snd ` set (s_attachments s)) \<and> 24 = Min (at_rows ` snd ` set (s_attachments s))"
  using attach_registers_connection [OF sample_attach_run inv_new_registry reg_sample_env_ok]
  by (auto simp: new_registry_def)

lemma detach_removes_one_attachment_witness:
  "\<exists>t. lookup (fst (snd (detach_attachment (reg_sample_env 9) 1 sample_registry))) ''w'' = Some t \<and>
     s_attachments t = [] \<and> s_state t = Detached"
proof -
  obtain b R' fx where d: "detach_attachment (reg_sample_env 9) 1 sample_registry = (b, R', fx)" by (metis prod_cases3)
  from detach_removes_one_attachment [OF sample_inv _ _ _ d, of "''w''" sample_session] d show ?thesis
    by (auto split: if_splits)
qed

lemma ended_inv: "reg_inv (put ''w'' (sample_session\<lparr>s_state := Died, s_attachments := []\<rparr>) sample_registry)"
proof -
  from inv_session [OF sample_inv, of "''w''" sample_session]
  have "session_ok ''w'' (sample_session\<lparr>s_state := Died, s_attachments := []\<rparr>)"
    by (simp add: session_ok_def)
  with sample_inv show ?thesis by (intro inv_put) (simp_all add: aids_def)
qed

lemma ended_session_expires_witness:
  "lookup (fst (prune_finished_sessions (reg_sample_env 25) 10 (fst (prune_finished_sessions (reg_sample_env 15) 10
     (put ''w'' (sample_session\<lparr>s_state := Died, s_attachments := []\<rparr>) sample_registry))))) ''w'' = None"
  using ended_session_expires [OF ended_inv, of "''w''" _ "reg_sample_env 15" "reg_sample_env 25" 10]
  by (simp add: terminal_def reg_sample_env_def sample_session_def new_Session_def)

lemma restart_burst_is_bounded_witness:
  "comebacks (map (\<lambda>i. reg_sample_env (seconds 100 + i)) [0, 1, 2, 3, 4]) sample_session sample_registry \<le> 3"
  using restart_burst_is_bounded [of "reg_sample_env (seconds 100)" sample_session
      "map (\<lambda>i. reg_sample_env (seconds 100 + i)) [1, 2, 3, 4]" sample_registry]
  by (simp add: seconds_def reg_sample_env_def sample_session_def new_Session_def)

lemma saved_sessions_are_recoverable_witness:
  "\<exists>t. lookup (load_persisted_sessions (reg_sample_env 50) (save_persisted_sessions sample_registry) (new_registry [] [])) ''w'' = Some t \<and>
     s_state t = Recoverable \<and> s_command t = redact_secrets ''sh''"
  using saved_sessions_are_recoverable [OF sample_inv, of "''w''" sample_session "reg_sample_env 50" "[]" "[]"]
  by (auto simp: sample_session_def new_Session_def)

definition ended_registry :: registry where
  "ended_registry = put ''w'' (sample_session\<lparr>s_state := Died, s_kind := User\<rparr>) sample_registry"

lemma replaced_session_keeps_its_kind_witness:
  "\<exists>t R' fx. session_for_attach (reg_sample_env 9) ''w'' \<lparr>rsc_command = ''agent'', rsc_source = ClientOverride\<rparr> 80 24 ''xterm'' ''pk'' False
      ended_registry = (Some t, R', fx) \<and> s_kind t = User \<and> classify_session_kind ''w'' ClientOverride = Harness"
proof -
  let ?res = "\<lparr>rsc_command = ''agent'', rsc_source = ClientOverride\<rparr>"
  obtain t R' fx where r: "session_for_attach (reg_sample_env 9) ''w'' ?res 80 24 ''xterm'' ''pk'' False ended_registry = (Some t, R', fx)"
    by (simp add: session_for_attach_def ended_registry_def live_def replace_session_def spawn_session_runtime_def
        create_session_def record_history_def sample_session_def new_Session_def reg_sample_env_def Let_def)
  from replaced_session_keeps_its_kind [OF _ _ _ r] have "s_kind t = User"
    by (simp add: ended_registry_def live_def)
  with r show ?thesis by (auto simp: classify_session_kind_def is_prefix_def)
qed

lemma reaper_drops_worker_output_witness:
  "reap_session ((reg_sample_env 9)\<lparr>re_pump := (\<lambda>_. [SrData [0x81, 0, 0, 0, 1, 65], SrAgain])\<rparr>) False
     (hosted_session\<lparr>s_state := Detached, s_child_pid := 77\<rparr>) sample_registry
     = (hosted_session\<lparr>s_state := Detached, s_child_pid := 77\<rparr>, sample_registry, [])"
  using reaper_drops_worker_output
    [of "hosted_session\<lparr>s_state := Detached, s_child_pid := 77\<rparr>" False "[(0x81, [65])]"
      "(reg_sample_env 9)\<lparr>re_pump := (\<lambda>_. [SrData [0x81, 0, 0, 0, 1, 65], SrAgain])\<rparr>" sample_registry]
  by (simp add: hosted_session_def new_Session_def live_def piece_events_def wmsg_defs worker_frame_def
      write_u32be_def kMaxWorkerPayload_def)

end
