(* ===== verification/Peer_Names.thy ===== *)
theory Peer_Names
  imports Prelude
begin

text \<open>
  Names of peers: the entries of the directory (bs-config.h) and the resolution of what an operator
  typed to a peer (\<open>resolve_peer\<close> of bs-mesh-cli.h): exact names, hyphen segments, typing errors.
\<close>

section \<open>Comparing names\<close>

record PeerEntry =
  pe_name :: string
  pe_addr :: string
  pe_pubkey_hex :: string
  pe_last_seen :: u64

text \<open>\<open>peer_name_eq\<close> lowers the ASCII letters, \<open>config_peer_name_eq\<close> uses \<open>std::tolower\<close>, which
  is the same in the C locale.\<close>

definition lower_ascii :: "char \<Rightarrow> char" where
  "lower_ascii c = (if 65 \<le> code_of c \<and> code_of c \<le> 90 then char_of (code_of c + 32) else c)"

definition peer_name_eq :: "string \<Rightarrow> string \<Rightarrow> bool" where
  "peer_name_eq a b \<longleftrightarrow> length a = length b \<and> list_all2 (\<lambda>x y. lower_ascii x = lower_ascii y) a b"

definition config_peer_name_eq :: "string \<Rightarrow> string \<Rightarrow> bool" where
  "config_peer_name_eq a b \<longleftrightarrow> length a = length b \<and> list_all2 (\<lambda>x y. to_lower x = to_lower y) a b"

definition is_local_node_name :: "string \<Rightarrow> string \<Rightarrow> bool" where
  "is_local_node_name query node \<longleftrightarrow> query \<noteq> [] \<and> config_peer_name_eq query node"

definition first_label :: "string \<Rightarrow> string" where
  "first_label s = takeWhile (\<lambda>c. c \<noteq> CHR ''.'') s"

text \<open>The host name of the machine is an argument.\<close>

definition is_self_target :: "string \<Rightarrow> string \<Rightarrow> string \<Rightarrow> bool" where
  "is_self_target node host name \<longleftrightarrow>
     is_local_node_name name node \<or> is_local_node_name name host \<or>
     is_local_node_name (first_label name) (first_label host)"

definition self_display_name :: "string \<Rightarrow> string \<Rightarrow> string" where
  "self_display_name node host =
     (if node \<noteq> [] \<and> node \<noteq> ''unnamed'' then node else if host = [] then ''this node'' else host)"

section \<open>Typing errors\<close>

text \<open>\<open>levenshtein\<close> with its two rows. \<open>edit_cells\<close> computes the cells of a row from the one above;
  \<open>l\<close> is the cell to the left.\<close>

fun edit_cells :: "char \<Rightarrow> string \<Rightarrow> nat list \<Rightarrow> nat \<Rightarrow> nat list" where
  "edit_cells c (y # ys) (d # u # us) l =
     (let cost = (if to_lower c = to_lower y then 0 else 1); v = min (u + 1) (min (l + 1) (d + cost))
      in v # edit_cells c ys (u # us) v)"
| "edit_cells c _ _ l = []"

fun edit_rows :: "nat \<Rightarrow> string \<Rightarrow> string \<Rightarrow> nat list \<Rightarrow> nat list" where
  "edit_rows i [] b prev = prev"
| "edit_rows i (c # cs) b prev = edit_rows (i + 1) cs b (i # edit_cells c b prev i)"

definition levenshtein :: "string \<Rightarrow> string \<Rightarrow> nat" where
  "levenshtein a b =
     (if a = [] then length b else if b = [] then length a
      else edit_rows 1 a b [0..<length b + 1] ! length b)"

definition name_diffs :: "string \<Rightarrow> string \<Rightarrow> (char \<times> char) list" where
  "name_diffs a b = filter (\<lambda>(x, y). to_lower x \<noteq> to_lower y) (zip a b)"

definition names_are_numeric_siblings :: "string \<Rightarrow> string \<Rightarrow> bool" where
  "names_are_numeric_siblings a b \<longleftrightarrow>
     length a = length b \<and> a \<noteq> [] \<and> length (name_diffs a b) = 1 \<and>
     list_ex (\<lambda>(x, y). is_digit (to_lower x) \<and> is_digit (to_lower y)) (name_diffs a b)"

text \<open>The query with a hyphen before it at the end of the name, or with one after it at the start.\<close>

definition name_has_segment :: "string \<Rightarrow> string \<Rightarrow> bool" where
  "name_has_segment name query \<longleftrightarrow>
     query \<noteq> [] \<and> length query < length name \<and>
     (let n = length name; m = length query; eq = list_all2 (\<lambda>x y. to_lower x = to_lower y) in
      (name ! (n - m - 1) = CHR ''-'' \<and> eq (drop (n - m) name) query) \<or>
      (name ! m = CHR ''-'' \<and> eq (take m name) query))"

section \<open>Looking peers up\<close>

definition peer_lookup :: "PeerEntry list \<Rightarrow> string \<Rightarrow> PeerEntry option" where
  "peer_lookup peers canonical = find (\<lambda>p. peer_name_eq (pe_name p) canonical) peers"

definition trusted_peer_pubkey :: "PeerEntry list \<Rightarrow> PeerEntry list \<Rightarrow> string \<Rightarrow> string" where
  "trusted_peer_pubkey seeds discovered name =
     (case find (\<lambda>p. config_peer_name_eq (pe_name p) name) (seeds @ discovered) of
        Some p \<Rightarrow> pe_pubkey_hex p | None \<Rightarrow> [])"

definition find_peer_entry_by_addr :: "PeerEntry list \<Rightarrow> PeerEntry list \<Rightarrow> string \<Rightarrow> PeerEntry option" where
  "find_peer_entry_by_addr seeds discovered addr = find (\<lambda>p. pe_addr p = addr) (seeds @ discovered)"

definition find_peer_addr :: "PeerEntry list \<Rightarrow> PeerEntry list \<Rightarrow> string \<Rightarrow> string" where
  "find_peer_addr seeds discovered name =
     (case peer_lookup (seeds @ discovered) name of Some p \<Rightarrow> pe_addr p | None \<Rightarrow> [])"

datatype resolve_tier = NoTier | Exact | Suffix | Levenshtein

record PeerResolveResult =
  rr_name :: string
  rr_addr :: string
  rr_pubkey_hex :: string
  rr_tier :: resolve_tier
  rr_suggestions :: "string list"

definition no_peer :: PeerResolveResult where
  "no_peer = \<lparr>rr_name = [], rr_addr = [], rr_pubkey_hex = [], rr_tier = NoTier, rr_suggestions = []\<rparr>"

definition found_peer :: "string \<Rightarrow> PeerEntry \<Rightarrow> resolve_tier \<Rightarrow> PeerResolveResult" where
  "found_peer name p tier =
     \<lparr>rr_name = name, rr_addr = pe_addr p, rr_pubkey_hex = pe_pubkey_hex p, rr_tier = tier, rr_suggestions = []\<rparr>"

text \<open>\<open>std::sort\<close> and \<open>std::unique\<close> on strings, whose order compares the bytes.\<close>

fun name_less :: "string \<Rightarrow> string \<Rightarrow> bool" where
  "name_less _ [] = False"
| "name_less [] (y # ys) = True"
| "name_less (x # xs) (y # ys) = (code_of x < code_of y \<or> (code_of x = code_of y \<and> name_less xs ys))"

fun insert_name :: "string \<Rightarrow> string list \<Rightarrow> string list" where
  "insert_name x [] = [x]"
| "insert_name x (y # ys) = (if name_less y x then y # insert_name x ys else if x = y then y # ys else x # y # ys)"

definition sorted_names :: "string list \<Rightarrow> string list" where
  "sorted_names xs = foldr insert_name xs []"

definition segment_matches :: "string \<Rightarrow> PeerEntry list \<Rightarrow> string \<Rightarrow> string list" where
  "segment_matches node peers query =
     map pe_name (filter (\<lambda>p. \<not> is_local_node_name (pe_name p) node \<and> name_has_segment (pe_name p) query) peers)"

definition fuzzy_matches :: "string \<Rightarrow> PeerEntry list \<Rightarrow> string \<Rightarrow> string list" where
  "fuzzy_matches node peers query =
     map pe_name (filter (\<lambda>p. 3 \<le> length query \<and> 3 \<le> length (pe_name p) \<and>
       \<not> is_local_node_name (pe_name p) node \<and> \<not> names_are_numeric_siblings query (pe_name p) \<and>
       levenshtein query (pe_name p) \<le> 2) peers)"

definition resolve_peer :: "string \<Rightarrow> PeerEntry list \<Rightarrow> string \<Rightarrow> PeerResolveResult" where
  "resolve_peer node peers query =
     (if is_local_node_name query node then no_peer
      else case peer_lookup peers query of
        Some p \<Rightarrow> found_peer query p Exact
      | None \<Rightarrow>
          let segs = sorted_names (segment_matches node peers query) in
          case (if length segs = 1 then peer_lookup peers (hd segs) else None) of
            Some p \<Rightarrow> found_peer (hd segs) p Suffix
          | None \<Rightarrow>
              if length segs > 1 then no_peer\<lparr>rr_suggestions := segs\<rparr>
              else
                let fuzzy = fuzzy_matches node peers query in
                case (if length fuzzy = 1 then peer_lookup peers (hd fuzzy) else None) of
                  Some p \<Rightarrow> found_peer (hd fuzzy) p Levenshtein
                | None \<Rightarrow>
                    if length fuzzy > 1 then no_peer\<lparr>rr_suggestions := fuzzy\<rparr>
                    else no_peer\<lparr>rr_suggestions := (if segs = [] then fuzzy else segs)\<rparr>)"

section \<open>The edit distance\<close>

text \<open>\<open>aligned n a b\<close>: \<open>a\<close> becomes \<open>b\<close>, up to the case of letters, by \<open>n\<close> substitutions,
  deletions and insertions of one character.\<close>

inductive aligned :: "nat \<Rightarrow> string \<Rightarrow> string \<Rightarrow> bool" where
  al_nil: "aligned 0 [] []"
| al_keep: "aligned n xs ys \<Longrightarrow> to_lower x = to_lower y \<Longrightarrow> aligned n (x # xs) (y # ys)"
| al_sub: "aligned n xs ys \<Longrightarrow> aligned (Suc n) (x # xs) (y # ys)"
| al_del: "aligned n xs ys \<Longrightarrow> aligned (Suc n) (x # xs) ys"
| al_ins: "aligned n xs ys \<Longrightarrow> aligned (Suc n) xs (y # ys)"

lemma aligned_append: "aligned n a b \<Longrightarrow> aligned m c d \<Longrightarrow> aligned (n + m) (a @ c) (b @ d)"
  by (induction rule: aligned.induct) (auto intro: aligned.intros)

lemma aligned_rev: "aligned n a b \<Longrightarrow> aligned n (rev a) (rev b)"
proof (induction rule: aligned.induct)
  case (al_keep n xs ys x y)
  from aligned_append [OF al_keep.IH aligned.al_keep [OF aligned.al_nil al_keep.hyps(2)]] show ?case by simp
next
  case (al_sub n xs ys x y)
  from aligned_append [OF al_sub.IH aligned.al_sub [OF aligned.al_nil]] show ?case by simp
next
  case (al_del n xs ys x)
  from aligned_append [OF al_del.IH aligned.al_del [OF aligned.al_nil]] show ?case by simp
next
  case (al_ins n xs ys y)
  from aligned_append [OF al_ins.IH aligned.al_ins [OF aligned.al_nil]] show ?case by simp
qed (simp add: aligned.al_nil)

text \<open>The distance by recursion, and what it has to do with alignments.\<close>

fun distance :: "string \<Rightarrow> string \<Rightarrow> nat" where
  "distance [] ys = length ys"
| "distance xs [] = length xs"
| "distance (x # xs) (y # ys) =
     min (distance xs (y # ys) + 1)
         (min (distance (x # xs) ys + 1) (distance xs ys + (if to_lower x = to_lower y then 0 else 1)))"

lemma distance_Nil [simp]: "distance xs [] = length xs"
  by (cases xs) simp_all

lemma aligned_distance: "aligned (distance xs ys) xs ys"
proof (induction xs ys rule: distance.induct)
  case (1 ys)
  show ?case by (induction ys) (auto intro: aligned.intros)
next
  case (2 x xs)
  have "aligned (length zs) zs []" for zs by (induction zs) (auto intro: aligned.intros)
  then show ?case by (metis distance.simps(2))
next
  case (3 x xs y ys)
  have "aligned (distance xs (y # ys) + 1) (x # xs) (y # ys)" "aligned (distance (x # xs) ys + 1) (x # xs) (y # ys)"
    using 3(1,2) by (auto intro: aligned.intros)
  moreover have "aligned (distance xs ys + (if to_lower x = to_lower y then 0 else 1)) (x # xs) (y # ys)"
    using 3(3) by (auto intro: aligned.intros)
  ultimately show ?case by (simp add: min_def)
qed

lemma distance_minimal: "aligned n xs ys \<Longrightarrow> distance xs ys \<le> n"
proof (induction rule: aligned.induct)
  case (al_del n xs ys x)
  then show ?case by (cases ys) auto
next
  case (al_ins n xs ys y)
  then show ?case by (cases xs) auto
qed auto

lemma edit_cells_distance:
  "i + length ys = length b \<Longrightarrow> ys = drop i b \<Longrightarrow>
   edit_cells c ys (map (\<lambda>j. distance p (rev (take j b))) [i..<length b + 1]) (distance (c # p) (rev (take i b)))
     = map (\<lambda>j. distance (c # p) (rev (take j b))) [i + 1..<length b + 1]"
proof (induction ys arbitrary: i)
  case (Cons y ys)
  have i: "i < length b" using Cons.prems(1) by simp
  then have y: "y = b ! i" "ys = drop (i + 1) b" using Cons.prems(2) by (simp_all add: Cons_nth_drop_Suc [symmetric])
  have r: "rev (take (i + 1) b) = y # rev (take i b)" using i y by (simp add: take_Suc_conv_app_nth)
  have u: "[i..<length b + 1] = i # (i + 1) # [i + 2..<length b + 1]" "[i + 1..<length b + 1] = (i + 1) # [i + 2..<length b + 1]"
    using i by (simp_all add: upt_conv_Cons)
  have "edit_cells c ys (map (\<lambda>j. distance p (rev (take j b))) [i + 1..<length b + 1]) (distance (c # p) (rev (take (i + 1) b)))
     = map (\<lambda>j. distance (c # p) (rev (take j b))) [i + 1 + 1..<length b + 1]"
    using Cons.IH [of "i + 1"] Cons.prems(1) y(2) by simp
  moreover have "min (distance p (rev (take (i + 1) b)) + 1)
      (min (distance (c # p) (rev (take i b)) + 1) (distance p (rev (take i b)) + (if to_lower c = to_lower y then 0 else 1)))
      = distance (c # p) (rev (take (i + 1) b))"
    unfolding r by simp
  ultimately show ?case unfolding u by (simp add: Let_def u del: upt_Suc)
qed simp

lemma edit_rows_distance:
  "edit_rows (length p + 1) cs b (map (\<lambda>j. distance (rev p) (rev (take j b))) [0..<length b + 1])
     = map (\<lambda>j. distance (rev (p @ cs)) (rev (take j b))) [0..<length b + 1]"
proof (induction cs arbitrary: p)
  case (Cons c cs)
  have u: "[0..<length b + 1] = 0 # [0 + 1..<length b + 1]" by (simp add: upt_conv_Cons del: upt_Suc)
  have "length p + 1 = distance (c # rev p) (rev (take 0 b))" by simp
  then have "(length p + 1) # edit_cells c b (map (\<lambda>j. distance (rev p) (rev (take j b))) [0..<length b + 1]) (length p + 1)
      = map (\<lambda>j. distance (c # rev p) (rev (take j b))) [0..<length b + 1]"
    using edit_cells_distance [of 0 b b c "rev p"] unfolding u by simp
  with Cons.IH [of "p @ [c]"] show ?case by simp
qed simp

lemma levenshtein_distance: "levenshtein a b = distance (rev a) (rev b)"
proof -
  have "edit_rows 1 a b (map (\<lambda>j. distance (rev []) (rev (take j b))) [0..<length b + 1])
      = map (\<lambda>j. distance (rev ([] @ a)) (rev (take j b))) [0..<length b + 1]"
    using edit_rows_distance [of "[]" a b] by simp
  moreover have "map (\<lambda>j. distance (rev []) (rev (take j b))) [0..<length b + 1] = [0..<length b + 1]"
    by (rule nth_equalityI) (auto simp del: upt_Suc)
  ultimately show ?thesis by (simp add: levenshtein_def del: upt_Suc)
qed

section \<open>Properties\<close>

text \<open>C40. The two-row computation gives the edit distance: \<open>levenshtein a b\<close> single-character edits turn one
  name into the other, up to the case of letters, and no smaller number does.\<close>

theorem levenshtein_is_edit_distance:
  "aligned (levenshtein a b) a b \<and> (\<forall>n<levenshtein a b. \<not> aligned n a b)"
proof -
  have "aligned (levenshtein a b) a b"
    using aligned_rev [OF aligned_distance [of "rev a" "rev b"]] by (simp add: levenshtein_distance)
  moreover have "levenshtein a b \<le> n" if "aligned n a b" for n
    using distance_minimal [OF aligned_rev [OF that]] by (simp add: levenshtein_distance)
  ultimately show ?thesis by (meson not_less)
qed

lemma levenshtein_is_edit_distance_witness:
  "aligned 2 ''shadwo'' ''Shadow'' \<and> \<not> aligned 1 ''shadwo'' ''Shadow''"
proof -
  have "levenshtein ''shadwo'' ''Shadow'' = 2" by code_simp
  with levenshtein_is_edit_distance [of "''shadwo''" "''Shadow''"] show ?thesis by simp
qed

lemma lower_ascii_eq: "lower_ascii c = to_lower c"
  by (simp add: lower_ascii_def to_lower_def is_upper_def)

lemma peer_name_eq_config: "peer_name_eq a b = config_peer_name_eq a b"
  by (simp add: peer_name_eq_def config_peer_name_eq_def lower_ascii_eq)

lemma config_peer_name_eq_iff: "config_peer_name_eq a b \<longleftrightarrow> map to_lower a = map to_lower b"
  by (auto simp: config_peer_name_eq_def list_all2_conv_all_nth list_eq_iff_nth_eq)

lemma peer_lookup_Some: "peer_lookup peers n = Some p \<Longrightarrow> p \<in> set peers \<and> config_peer_name_eq (pe_name p) n"
  by (auto simp: peer_lookup_def find_Some_iff peer_name_eq_config)

lemma set_insert_name: "set (insert_name x xs) = insert x (set xs)"
  by (induction xs) auto

lemma set_sorted_names [simp]: "set (sorted_names xs) = set xs"
  by (induction xs) (auto simp: sorted_names_def set_insert_name)

lemma segment_match_peer:
  "n \<in> set (segment_matches node peers query) \<Longrightarrow> \<not> is_local_node_name n node"
  by (auto simp: segment_matches_def)

lemma fuzzy_match_peer:
  "n \<in> set (fuzzy_matches node peers query) \<Longrightarrow> \<not> is_local_node_name n node \<and> levenshtein query n \<le> 2"
  by (auto simp: fuzzy_matches_def)

text \<open>A name is only ever resolved to a configured peer and never to the node itself: the address and
  the key are those of an entry of the directory whose name is the resolved one, and a resolution by
  typing error stays within two edits of what was typed.\<close>

theorem resolved_peer_is_configured:
  assumes "rr_tier (resolve_peer node peers query) \<noteq> NoTier"
  shows "list_ex (\<lambda>p. config_peer_name_eq (pe_name p) (rr_name (resolve_peer node peers query)) \<and>
      pe_addr p = rr_addr (resolve_peer node peers query) \<and> pe_pubkey_hex p = rr_pubkey_hex (resolve_peer node peers query)) peers
    \<and> \<not> is_local_node_name (rr_name (resolve_peer node peers query)) node
    \<and> (rr_tier (resolve_peer node peers query) = Levenshtein \<longrightarrow>
         levenshtein query (rr_name (resolve_peer node peers query)) \<le> 2)"
proof -
  let ?r = "resolve_peer node peers query"
  let ?segs = "sorted_names (segment_matches node peers query)"
  let ?fuzzy = "fuzzy_matches node peers query"
  have local: "\<not> is_local_node_name query node" using assms by (auto simp: resolve_peer_def no_peer_def)
  consider (exact) p where "peer_lookup peers query = Some p" "?r = found_peer query p Exact"
    | (seg) p where "length ?segs = 1" "peer_lookup peers (hd ?segs) = Some p" "?r = found_peer (hd ?segs) p Suffix"
    | (fuzzy) p where "length ?fuzzy = 1" "peer_lookup peers (hd ?fuzzy) = Some p" "?r = found_peer (hd ?fuzzy) p Levenshtein"
    using assms local
    by (auto simp: resolve_peer_def no_peer_def Let_def split: option.splits if_splits)
  then show ?thesis
  proof cases
    case exact
    with peer_lookup_Some [OF exact(1)] local show ?thesis by (auto simp: found_peer_def list_ex_iff)
  next
    case seg
    have "hd ?segs \<in> set ?segs" using seg(1) by (cases ?segs) auto
    with segment_match_peer have "\<not> is_local_node_name (hd ?segs) node" by simp
    with seg peer_lookup_Some [OF seg(2)] show ?thesis by (auto simp: found_peer_def list_ex_iff)
  next
    case fuzzy
    have "hd ?fuzzy \<in> set ?fuzzy" using fuzzy(1) by (cases ?fuzzy) auto
    with fuzzy_match_peer have "\<not> is_local_node_name (hd ?fuzzy) node" "levenshtein query (hd ?fuzzy) \<le> 2" by blast+
    with fuzzy peer_lookup_Some [OF fuzzy(2)] show ?thesis by (auto simp: found_peer_def list_ex_iff)
  qed
qed

definition named_peer :: "string \<Rightarrow> PeerEntry" where
  "named_peer name = \<lparr>pe_name = name, pe_addr = ''10.0.0.7:19949'', pe_pubkey_hex = ''aa'', pe_last_seen = 0\<rparr>"

lemmas resolve_evaluate =
  resolve_peer_def named_peer_def is_local_node_name_def config_peer_name_eq_def peer_lookup_def peer_name_eq_def
  lower_ascii_def to_lower_def is_upper_def code_of_def segment_matches_def name_has_segment_def sorted_names_def
  fuzzy_matches_def names_are_numeric_siblings_def name_diffs_def is_digit_def levenshtein_def found_peer_def no_peer_def
  Let_def

text \<open>A name with a digit more is taken for a typing error: \<open>node-1\<close>, which is not configured, is
  resolved to \<open>node-10\<close>.\<close>

lemma numbered_host_is_taken_for_typo:
  "resolve_peer ''hub'' [named_peer ''node-10''] ''node-1'' = found_peer ''node-10'' (named_peer ''node-10'') Levenshtein"
  by (simp add: resolve_evaluate)

text \<open>A peer listed as a seed and as discovered is not found by a typing error: its name is ambiguous
  with itself.\<close>

lemma listed_twice_is_ambiguous:
  "resolve_peer ''hub'' [named_peer ''shadow'', named_peer ''shadow''] ''shadwo''
     = no_peer\<lparr>rr_suggestions := [''shadow'', ''shadow'']\<rparr>"
  by (simp add: resolve_evaluate)

lemma resolved_peer_is_configured_witness:
  "list_ex (\<lambda>p. config_peer_name_eq (pe_name p) ''node-10'' \<and> pe_addr p = ''10.0.0.7:19949'' \<and> pe_pubkey_hex p = ''aa'')
     [named_peer ''node-10''] \<and> \<not> is_local_node_name ''node-10'' ''hub''"
  using resolved_peer_is_configured [of "''hub''" "[named_peer ''node-10'']" "''node-1''"]
  unfolding numbered_host_is_taken_for_typo by (simp add: found_peer_def named_peer_def)

end
