(* ===== verification/Connections.thy ===== *)
theory Connections
  imports Registry_Props Peer_Names
begin

text \<open>
  The connections of the daemon and the session messages a peer sends over them: the handlers of
  \<open>handle_inbound_session\<close> in bs-mesh-transfer.h for attach, keystroke, resize, detach, signal,
  clipboard and the session list, closing a connection, the callback that clears the connections of
  an erased session, and the parts of the event loop that change the sessions directly: the poller of
  their output (\<open>pty_output_poller\<close>), the drain of their input queues and the watchdog of busy
  connections (\<open>check_stale_exec\<close>).

  The pointer a connection holds to its session is the name of the session's entry: an entry stays
  in place while its session is replaced. Replies are the messages handed to \<open>enqueue_frame\<close>, whose
  result the handlers ignore.
\<close>

section \<open>State\<close>

record conn_state =
  cn_peer_name :: string
  cn_pubkey :: string
  cn_open :: bool
  cn_session :: "string option"
  cn_attach_id :: u32
  cn_spectator :: bool
  cn_close_requested :: bool
  cn_exec_busy :: bool

record daemon =
  dm_reg :: registry
  dm_conns :: "conn_state list"
  dm_node_name :: string
  dm_commands :: "string \<Rightarrow> string option"
  dm_shell :: string
  dm_scrollback_lines :: nat

text \<open>What a handler does to the outside: what the registry does, a reply to the connection with a
  number, bytes to the terminal of a session, \<open>kill\<close>, a message of the poller to the connections
  of a session, and an overflow whose behaviour C++ leaves undefined.\<close>

datatype dm_effect =
  DReg reg_effect
| DSend nat Message
| DPty string bytes
| DKill int int
| DResize int u16 u16
| DFan string fanout
| DUndefined

definition session_of :: "daemon \<Rightarrow> nat \<Rightarrow> Session option" where
  "session_of D i = (case cn_session (dm_conns D ! i) of Some k \<Rightarrow> lookup (dm_reg D) k | None \<Rightarrow> None)"

definition set_conn :: "nat \<Rightarrow> conn_state \<Rightarrow> daemon \<Rightarrow> daemon" where
  "set_conn i c D = D\<lparr>dm_conns := (dm_conns D)[i := c]\<rparr>"

definition put_session :: "string \<Rightarrow> Session \<Rightarrow> daemon \<Rightarrow> daemon" where
  "put_session k s D = D\<lparr>dm_reg := put k s (dm_reg D)\<rparr>"

section \<open>Erased sessions\<close>

text \<open>The callback set in \<open>run\<close>: no connection keeps a pointer to a session that is erased.\<close>

definition forget_session :: "string \<Rightarrow> conn_state list \<Rightarrow> conn_state list" where
  "forget_session k cs = map (\<lambda>c. if cn_session c = Some k then c\<lparr>cn_session := None\<rparr> else c) cs"

fun notify :: "reg_effect list \<Rightarrow> conn_state list \<Rightarrow> conn_state list" where
  "notify [] cs = cs"
| "notify (EffErased k # fx) cs = notify fx (forget_session k cs)"
| "notify (_ # fx) cs = notify fx cs"

text \<open>An operation of the registry that the daemon runs: the passes of the event loop and the
  commands of the local user.\<close>

definition dm_registry :: "reg_op \<Rightarrow> daemon \<Rightarrow> daemon \<times> dm_effect list" where
  "dm_registry op D =
     (case reg_step op (dm_reg D) of (R, fx) \<Rightarrow>
        (D\<lparr>dm_reg := R, dm_conns := notify fx (dm_conns D)\<rparr>, map DReg fx))"

section \<open>Leaving a session\<close>

definition has_replacement_transport :: "daemon \<Rightarrow> nat \<Rightarrow> bool" where
  "has_replacement_transport D i =
     (let c = dm_conns D ! i in
      cn_session c \<noteq> None \<and>
      list_ex (\<lambda>j. j \<noteq> i \<and> cn_open (dm_conns D ! j) \<and> cn_session (dm_conns D ! j) = cn_session c \<and>
                   cn_pubkey (dm_conns D ! j) = cn_pubkey c) [0..<length (dm_conns D)])"

definition detach_connection_session :: "reg_env \<Rightarrow> nat \<Rightarrow> bool \<Rightarrow> daemon \<Rightarrow> daemon \<times> dm_effect list" where
  "detach_connection_session E i replacement_attached D =
     (let c = dm_conns D ! i;
          aid = cn_attach_id c;
          D1 = set_conn i (c\<lparr>cn_session := None, cn_attach_id := 0, cn_spectator := False\<rparr>) D in
      case cn_session c of
        None \<Rightarrow> (D1, [])
      | Some k \<Rightarrow>
          if replacement_attached then (D1, [])
          else if aid \<noteq> 0 \<and> session_by_attach_id aid (dm_reg D1) \<noteq> None
          then (case detach_attachment E aid (dm_reg D1) of (_, R, fx) \<Rightarrow> (D1\<lparr>dm_reg := R\<rparr>, map DReg fx))
          else (case detach_all k (dm_reg D1) of (_, R, fx) \<Rightarrow> (D1\<lparr>dm_reg := R\<rparr>, map DReg fx)))"

definition handle_detach :: "reg_env \<Rightarrow> nat \<Rightarrow> daemon \<Rightarrow> daemon \<times> dm_effect list" where
  "handle_detach E i D =
     (if cn_session (dm_conns D ! i) \<noteq> None
      then detach_connection_session E i (has_replacement_transport D i) D
      else (D, []))"

text \<open>\<open>close_conn\<close>, for the session: a connection that a background transfer owns is only marked.\<close>

definition close_conn :: "reg_env \<Rightarrow> nat \<Rightarrow> daemon \<Rightarrow> bool \<times> daemon \<times> dm_effect list" where
  "close_conn E i D =
     (let c = dm_conns D ! i in
      if cn_exec_busy c then (False, set_conn i (c\<lparr>cn_close_requested := True\<rparr>) D, [])
      else
        let D1 = set_conn i (c\<lparr>cn_close_requested := False\<rparr>) D in
        case (if cn_session c \<noteq> None
              then detach_connection_session E i (has_replacement_transport D1 i) D1 else (D1, [])) of
          (D2, fx) \<Rightarrow> (True, set_conn i ((dm_conns D2 ! i)\<lparr>cn_open := False\<rparr>) D2, fx))"

section \<open>Attaching\<close>

definition forwarded_attach_is_unsupported :: "bool \<Rightarrow> bool" where
  "forwarded_attach_is_unsupported routed_to_other_node = routed_to_other_node"

definition session_died :: "u32 \<Rightarrow> Message" where
  "session_died code = MSessionDied \<lparr>died_exit_code = code, died_signal_num = 0\<rparr>"

definition scrollback_reply :: "nat \<Rightarrow> nat \<Rightarrow> Session \<Rightarrow> dm_effect list" where
  "scrollback_reply i lines s =
     (case strip_mode_sequences (read_last_lines kDefaultRingBufferSize lines (s_scrollback s)) of
        None \<Rightarrow> [DUndefined]
      | Some t \<Rightarrow> if t = [] then [] else [DSend i (MScrollback \<lparr>sb_data = t, sb_total_lines = 0, sb_chunk_index = 0\<rparr>)])"

definition attach_local :: "reg_env \<Rightarrow> nat \<Rightarrow> AttachMsg \<Rightarrow> daemon \<Rightarrow> daemon \<times> dm_effect list" where
  "attach_local E i a D =
     (let c = dm_conns D ! i;
          name = att_session_name a;
          res = resolve_session_command (dm_commands D) (dm_shell D) name (att_command a) in
      case attach_connection E name res (att_cols a) (att_rows a) (att_term a) (cn_pubkey c) (att_spectator a)
             (att_reconnect_only a) (dm_reg D) of
        (None, R, fx) \<Rightarrow> (D\<lparr>dm_reg := R\<rparr>, map DReg fx @ [DSend i (session_died 127)])
      | (Some (aid, cols, rows), R, fx) \<Rightarrow>
          let R1 = request_detach_signal name (att_signal_on_detach a) R;
              D1 = set_conn i (c\<lparr>cn_session := Some name, cn_attach_id := aid, cn_spectator := att_spectator a\<rparr>)
                     (D\<lparr>dm_reg := R1\<rparr>) in
          (D1, map DReg fx @
             DSend i (MAttachAck \<lparr>ack_attach_id = aid, ack_session_name = name, ack_cols = cols, ack_rows = rows\<rparr>) #
             (case lookup R1 name of Some s \<Rightarrow> scrollback_reply i (dm_scrollback_lines D) s | None \<Rightarrow> [])))"

definition handle_attach :: "reg_env \<Rightarrow> nat \<Rightarrow> AttachMsg \<Rightarrow> daemon \<Rightarrow> daemon \<times> dm_effect list" where
  "handle_attach E i a D =
     (if att_routing a \<noteq> [] \<and>
         forwarded_attach_is_unsupported
           (\<not> peer_name_eq (takeWhile (\<lambda>ch. ch \<noteq> CHR '':'') (att_routing a)) (dm_node_name D))
      then (D, [DSend i (session_died 126)])
      else
        case (if cn_attach_id (dm_conns D ! i) \<noteq> 0 \<or> cn_session (dm_conns D ! i) \<noteq> None
              then detach_connection_session E i False D else (D, [])) of
          (D1, fx) \<Rightarrow> (case attach_local E i a D1 of (D2, gx) \<Rightarrow> (D2, fx @ gx)))"

section \<open>Input\<close>

text \<open>\<open>write_pty_input\<close> for a connection: a refused input closes it.\<close>

definition type_input :: "reg_env \<Rightarrow> nat \<Rightarrow> string \<Rightarrow> bytes \<Rightarrow> daemon \<Rightarrow> daemon \<times> dm_effect list" where
  "type_input E i k d D =
     (case lookup (dm_reg D) k of
        None \<Rightarrow> (D, [])
      | Some s \<Rightarrow>
          (case write_pty_input s d (re_take E k) of (ok, s1, w) \<Rightarrow>
             let D1 = put_session k s1 D in
             (if ok then D1 else set_conn i ((dm_conns D ! i)\<lparr>cn_close_requested := True\<rparr>) D1, [DPty k w])))"

definition handle_keystroke :: "reg_env \<Rightarrow> nat \<Rightarrow> KeystrokeMsg \<Rightarrow> daemon \<Rightarrow> daemon \<times> dm_effect list" where
  "handle_keystroke E i ks D =
     (if cn_spectator (dm_conns D ! i) then (D, [])
      else case cn_session (dm_conns D ! i) of
        Some k \<Rightarrow>
          (case lookup (dm_reg D) k of
             Some s \<Rightarrow> if is_valid s then type_input E i k (bytes_of_string (ks_data ks)) D else (D, [])
           | None \<Rightarrow> (D, []))
      | None \<Rightarrow> (D, []))"

definition bracketed_paste :: "string \<Rightarrow> bytes" where
  "bracketed_paste t = bytes_of_string (ESC # ''[200~'' @ t @ ESC # ''[201~'')"

definition handle_clipboard :: "reg_env \<Rightarrow> nat \<Rightarrow> ClipboardMsg \<Rightarrow> daemon \<Rightarrow> daemon \<times> dm_effect list" where
  "handle_clipboard E i cb D =
     (case cn_session (dm_conns D ! i) of
        Some k \<Rightarrow>
          (case lookup (dm_reg D) k of
             Some s \<Rightarrow>
               if is_valid s then
                 (case type_input E i k (bracketed_paste (clip_text cb)) D of (D1, fx) \<Rightarrow>
                    (D1, fx @ (if clip_hash cb \<noteq> [] then [DSend i (MClipboardEcho \<lparr>echo_hash = clip_hash cb\<rparr>)] else [])))
               else (D, [])
           | None \<Rightarrow> (D, []))
      | None \<Rightarrow> (D, []))"

definition handle_resize :: "reg_env \<Rightarrow> nat \<Rightarrow> ResizeMsg \<Rightarrow> daemon \<Rightarrow> daemon \<times> dm_effect list" where
  "handle_resize E i r D =
     (let c = dm_conns D ! i in
      case cn_session c of
        Some k \<Rightarrow>
          (case lookup (dm_reg D) k of
             Some s \<Rightarrow>
               if \<not> is_valid s then (D, [])
               else if cn_attach_id c \<noteq> 0 then
                 (case set_attachment_geometry E (cn_attach_id c) (rsz_cols r) (rsz_rows r) (dm_reg D) of
                    (R, fx) \<Rightarrow> (D\<lparr>dm_reg := R\<rparr>, map DReg fx))
               else if s_hosted s then
                 (case worker_queue_frame s WMSG_RESIZE (write_u16 (rsz_cols r) @ write_u16 (rsz_rows r)) (re_take E k) of
                    (s1, w) \<Rightarrow> (put_session k s1 D, [DReg (EffWorkerBytes k w)]))
               else (D, [DResize (s_master_fd s) (rsz_cols r) (rsz_rows r)])
           | None \<Rightarrow> (D, []))
      | None \<Rightarrow> (D, []))"

section \<open>Signals\<close>

definition SIGINT :: int where "SIGINT = 2"
definition SIGQUIT :: int where "SIGQUIT = 3"
definition SIGHUP :: int where "SIGHUP = 1"
definition SIGKILL :: int where "SIGKILL = 9"
definition SIGTERM :: int where "SIGTERM = 15"
definition SIGTSTP :: int where "SIGTSTP = 20"

text \<open>\<open>SignalMsg::SignalType\<close>; the decoder casts any byte.\<close>

definition SIG_CtrlC :: byte where "SIG_CtrlC = 0"
definition SIG_CtrlZ :: byte where "SIG_CtrlZ = 1"
definition SIG_Restart :: byte where "SIG_Restart = 3"
definition SIG_Kill :: byte where "SIG_Kill = 4"

text \<open>The end of a child before a restart, given what its successive \<open>waitpid\<close> calls answer: at most
  30 polls after SIGTERM, then one more call decides on SIGKILL.\<close>

fun poll_child :: "nat \<Rightarrow> wait_result list \<Rightarrow> wait_result list" where
  "poll_child 0 ws = ws"
| "poll_child (Suc n) [] = []"
| "poll_child (Suc n) (w # ws) = (case w of WaitStatus _ \<Rightarrow> ws | _ \<Rightarrow> poll_child n ws)"

definition stop_child :: "int \<Rightarrow> wait_result list \<Rightarrow> dm_effect list" where
  "stop_child child ws =
     DKill child SIGTERM #
     (case poll_child 30 ws of WaitStatus _ # _ \<Rightarrow> [] | _ \<Rightarrow> [DKill child SIGKILL])"

definition release_for_restart :: "Session \<Rightarrow> Session" where
  "release_for_restart s =
     (let s1 = (if s_hosted s
                then s\<lparr>s_child_pid := -1, s_worker_pid := -1, s_hosted := False, s_worker_died := False,
                       s_worker_rx := [], s_worker_tx := []\<rparr>
                else if s_child_pid s > 0 then s\<lparr>s_child_pid := -1\<rparr> else s) in
      s1\<lparr>s_master_fd := (if s_master_fd s1 \<ge> 0 then -1 else s_master_fd s1), s_pending_input := [],
         s_input_backpressured := False\<rparr>)"

definition restart_session ::
  "reg_env \<Rightarrow> wait_result list \<Rightarrow> string \<Rightarrow> string \<Rightarrow> Session \<Rightarrow> registry \<Rightarrow> registry \<times> dm_effect list"
where
  "restart_session E ws cmd k s R =
     (let fx = (if s_hosted s then map DReg (shutdown_effects k s)
                else if s_child_pid s > 0 then stop_child (s_child_pid s) ws else []);
          s1 = release_for_restart s in
      case spawn_session_runtime E R (s_name s) cmd 80 24 ''xterm-256color'' of
        (Some n, sx) \<Rightarrow>
          (put k (s1\<lparr>s_master_fd := s_master_fd n, s_child_pid := s_child_pid n, s_hosted := s_hosted n,
                    s_worker_pid := s_worker_pid n, s_worker_died := False, s_command := s_command n,
                    s_generation := s_generation n, s_last_output_at := s_last_output_at n, s_state := Attached\<rparr>)
             (next_generation R), fx @ map DReg sx)
      | (None, sx) \<Rightarrow> (put k (s1\<lparr>s_state := Died\<rparr>) R, fx @ map DReg sx))"

definition signal_child :: "byte \<Rightarrow> Session \<Rightarrow> dm_effect list" where
  "signal_child sig s =
     (if is_valid s \<and> s_child_pid s > 0 then
        if sig = SIG_Kill then [DKill (- s_child_pid s) SIGHUP, DKill (- s_child_pid s) SIGTERM]
        else [DKill (s_child_pid s) (if sig = SIG_CtrlC then SIGINT else if sig = SIG_CtrlZ then SIGTSTP else SIGQUIT)]
      else [])"

definition kill_by_name :: "reg_env \<Rightarrow> nat \<Rightarrow> string \<Rightarrow> daemon \<Rightarrow> daemon \<times> dm_effect list" where
  "kill_by_name E i name D =
     (case kill E name (dm_reg D) of (existed, R, fx) \<Rightarrow>
        (D\<lparr>dm_reg := R, dm_conns := notify fx (dm_conns D)\<rparr>,
         map DReg fx @ [DSend i (MExitCode \<lparr>exit_code = (if existed then 0 else 1)\<rparr>)]))"

definition handle_signal :: "reg_env \<Rightarrow> wait_result list \<Rightarrow> nat \<Rightarrow> SignalMsg \<Rightarrow> daemon \<Rightarrow> daemon \<times> dm_effect list" where
  "handle_signal E ws i sig D =
     (let c = dm_conns D ! i in
      if sig_signal sig = SIG_Kill \<and> sig_process sig \<noteq> [] \<and> cn_session c = None
      then kill_by_name E i (sig_process sig) D
      else if cn_spectator c then (D, [])
      else case cn_session c of
        None \<Rightarrow> (D, [])
      | Some k \<Rightarrow>
          (case lookup (dm_reg D) k of
             None \<Rightarrow> (D, [])
           | Some s \<Rightarrow>
               if sig_signal sig = SIG_Restart \<and> is_valid s then
                 (case restart_session E ws
                         (if sig_process sig \<noteq> [] then prepare_session_command \<lparr>rsc_command = sig_process sig, rsc_source = ClientOverride\<rparr>
                          else s_command s) k s (dm_reg D) of
                    (R, fx) \<Rightarrow> (D\<lparr>dm_reg := R\<rparr>, signal_child (sig_signal sig) s @ fx))
               else (D, signal_child (sig_signal sig) s)))"

section \<open>The event loop\<close>

text \<open>\<open>pty_output_poller\<close> for one session: output, then the end of the child. A child of the daemon's own
  takes its process group with it.\<close>

definition exit_wait :: "wait_result \<Rightarrow> exit_status option" where
  "exit_wait w = (case w of WaitStatus st \<Rightarrow> Some st | _ \<Rightarrow> None)"

definition poller_visit :: "string \<Rightarrow> reg_env \<Rightarrow> string \<Rightarrow> registry \<Rightarrow> registry \<times> dm_effect list" where
  "poller_visit hint E k R =
     (case lookup R k of
        None \<Rightarrow> (R, [])
      | Some s \<Rightarrow>
          if \<not> is_pollable s then (R, [])
          else
            case poll_read s (re_pump E k) (re_now E) of (s1, buf) \<Rightarrow>
            case poll_output hint s1 buf (re_now E) of (s2, fs) \<Rightarrow>
            let wait = exit_wait (re_wait E (s_child_pid s2)) in
            case snd (snd (poll_exit s2 wait)) of
              None \<Rightarrow> (put k s2 R, map (DFan k) fs)
            | Some code \<Rightarrow>
                (case record_history E s2 code ''died'' R of (s3, R1) \<Rightarrow>
                 case poll_exit s3 wait of (s4, gs, _) \<Rightarrow>
                   (put k s4 R1,
                    map (DFan k) fs @
                    (if s_hosted s2 then [] else [DKill (- s_child_pid s2) SIGHUP, DKill (- s_child_pid s2) SIGTERM]) @
                    map (DFan k) gs)))"

text \<open>The drain of the input queue of one session.\<close>

definition drain_visit :: "reg_env \<Rightarrow> string \<Rightarrow> registry \<Rightarrow> registry \<times> dm_effect list" where
  "drain_visit E k R =
     (case lookup R k of
        None \<Rightarrow> (R, [])
      | Some s \<Rightarrow> (case input_tick s (re_take E k) of (s1, w) \<Rightarrow> (put k s1 R, [DPty k w])))"

fun visits :: "(string \<Rightarrow> registry \<Rightarrow> registry \<times> dm_effect list) \<Rightarrow> string list \<Rightarrow> registry \<Rightarrow> registry \<times> dm_effect list" where
  "visits f [] R = (R, [])"
| "visits f (k # ks) R = (case f k R of (R1, fx) \<Rightarrow> case visits f ks R1 of (R2, gx) \<Rightarrow> (R2, fx @ gx))"

definition pty_output_poller :: "string \<Rightarrow> reg_env \<Rightarrow> daemon \<Rightarrow> daemon \<times> dm_effect list" where
  "pty_output_poller hint E D =
     (case visits (poller_visit hint E) (map fst (rg_sessions (dm_reg D))) (dm_reg D) of (R, fx) \<Rightarrow> (D\<lparr>dm_reg := R\<rparr>, fx))"

definition drain_inputs :: "reg_env \<Rightarrow> daemon \<Rightarrow> daemon \<times> dm_effect list" where
  "drain_inputs E D =
     (case visits (drain_visit E) (map fst (rg_sessions (dm_reg D))) (dm_reg D) of (R, fx) \<Rightarrow> (D\<lparr>dm_reg := R\<rparr>, fx))"

text \<open>\<open>check_stale_exec\<close> for a connection whose background operation has made no progress for the limit:
  an attached session whose child is alive saves it, otherwise it is marked for closing. The child
  is waited for here as well, and when it is gone its session is changed.\<close>

definition watched_session :: "wait_result \<Rightarrow> Session \<Rightarrow> bool \<times> Session" where
  "watched_session w s =
     (if s_hosted s then (\<not> s_worker_died s \<and> s_master_fd s \<ge> 0, s)
      else if s_child_pid s > 0 then
        (case w of
           WaitNone \<Rightarrow> (True, s)
         | WaitStatus _ \<Rightarrow> (False, release_exited_runtime (s\<lparr>s_child_pid := -1, s_state := Died\<rparr>))
         | WaitEchild \<Rightarrow> (False, s\<lparr>s_child_pid := -1\<rparr>)
         | WaitError \<Rightarrow> (False, s))
      else (False, s))"

definition stale_exec :: "wait_result \<Rightarrow> nat \<Rightarrow> daemon \<Rightarrow> daemon" where
  "stale_exec w i D =
     (let c = dm_conns D ! i;
          cancel = (\<lambda>D. set_conn i (c\<lparr>cn_close_requested := True\<rparr>) D) in
      if \<not> cn_exec_busy c then D
      else case cn_session c of
        None \<Rightarrow> cancel D
      | Some k \<Rightarrow>
          (case lookup (dm_reg D) k of
             None \<Rightarrow> cancel D
           | Some s \<Rightarrow> (case watched_session w s of (alive, t) \<Rightarrow>
               let D1 = put_session k t D in if alive then D1 else cancel D1)))"

section \<open>The session list and the dispatch\<close>

definition session_list_reply :: "reg_env \<Rightarrow> registry \<Rightarrow> SessionListMsg" where
  "session_list_reply E R =
     \<lparr>sl_sessions = map (\<lambda>(_, s).
        \<lparr>si_name = s_name s, si_state = session_state_str (s_state s),
         si_uptime_seconds = (if s_state s = Died then 0 else word_of_int (to_seconds (re_now E - s_created_at s)))\<rparr>)
        (rg_sessions R)\<rparr>"

definition handle_session_message ::
  "reg_env \<Rightarrow> wait_result list \<Rightarrow> nat \<Rightarrow> Message \<Rightarrow> daemon \<Rightarrow> daemon \<times> dm_effect list"
where
  "handle_session_message E ws i m D =
     (case m of
        MSessionList _ \<Rightarrow> (D, [DSend i (MSessionList (session_list_reply E (dm_reg D)))])
      | MAttach a \<Rightarrow> handle_attach E i a D
      | MKeystroke ks \<Rightarrow> handle_keystroke E i ks D
      | MResize r \<Rightarrow> handle_resize E i r D
      | MDetach \<Rightarrow> handle_detach E i D
      | MSignal sig \<Rightarrow> handle_signal E ws i sig D
      | MClipboard cb \<Rightarrow> handle_clipboard E i cb D
      | _ \<Rightarrow> (D, []))"

text \<open>What the daemon goes through: its own operations on the registry, a session message on an open
  connection, a new connection and the end of one, a pass of the poller and one over the queues
  of input, a background operation that takes or releases a connection, and the watchdog of
  one that makes no progress.\<close>

datatype dm_event =
  DmRegistry reg_op
| DmMessage reg_env "wait_result list" nat Message
| DmAccept string string
| DmClose reg_env nat
| DmPoll string reg_env
| DmDrain reg_env
| DmBusy nat bool
| DmWatch wait_result nat

definition new_conn :: "string \<Rightarrow> string \<Rightarrow> conn_state" where
  "new_conn name pk =
     \<lparr>cn_peer_name = name, cn_pubkey = pk, cn_open = True, cn_session = None, cn_attach_id = 0, cn_spectator = False,
      cn_close_requested = False, cn_exec_busy = False\<rparr>"

fun dm_step :: "dm_event \<Rightarrow> daemon \<Rightarrow> daemon \<times> dm_effect list" where
  "dm_step (DmRegistry op) D = dm_registry op D"
| "dm_step (DmMessage E ws i m) D =
     (if i < length (dm_conns D) \<and> cn_open (dm_conns D ! i) then handle_session_message E ws i m D else (D, []))"
| "dm_step (DmAccept name pk) D = (D\<lparr>dm_conns := dm_conns D @ [new_conn name pk]\<rparr>, [])"
| "dm_step (DmClose E i) D =
     (if i < length (dm_conns D) then
        (case close_conn E i D of (closed, D1, fx) \<Rightarrow>
           (if closed then D1\<lparr>dm_conns := take i (dm_conns D1) @ drop (Suc i) (dm_conns D1)\<rparr> else D1, fx))
      else (D, []))"
| "dm_step (DmPoll hint E) D = pty_output_poller hint E D"
| "dm_step (DmDrain E) D = drain_inputs E D"
| "dm_step (DmBusy i b) D =
     (if i < length (dm_conns D) then (set_conn i ((dm_conns D ! i)\<lparr>cn_exec_busy := b\<rparr>) D, []) else (D, []))"
| "dm_step (DmWatch w i) D = (if i < length (dm_conns D) then (stale_exec w i D, []) else (D, []))"

end
