(* ===== verification/Connections_Inv.thy ===== *)
theory Connections_Inv
  imports Connections
begin

text \<open>
  The invariant of the daemon's connections and registry, and its preservation by every handler:
  the registry stays well formed and every connection's session exists. The latter rests on the
  registry announcing each session it erases.
\<close>

section \<open>Sessions that stay\<close>

definition keeps :: "registry \<Rightarrow> registry \<Rightarrow> bool" where
  "keeps R R' \<longleftrightarrow> (\<forall>k. lookup R k \<noteq> None \<longrightarrow> lookup R' k \<noteq> None)"

lemma keeps_intros [intro]:
  "keeps R R" "keeps R R1 \<Longrightarrow> keeps R (put k s R1)" "lookup R1 = lookup R \<Longrightarrow> keeps R R1"
  by (auto simp: keeps_def)

lemma keeps_trans: "keeps R R1 \<Longrightarrow> keeps R1 R2 \<Longrightarrow> keeps R R2"
  by (simp add: keeps_def)

lemma keeps_put [simp]: "keeps R (put k s R)" "keeps R R" "lookup R1 = lookup R \<Longrightarrow> keeps R (put k s R1)"
  by (auto simp: keeps_def)

lemma lookup_same [simp]:
  "lookup (R\<lparr>rg_next_attach_id := n\<rparr>) = lookup R" "lookup (R\<lparr>rg_generation := g\<rparr>) = lookup R"
  by (simp_all add: lookup_def fun_eq_iff)

lemma lookup_next [simp]: "lookup (next_generation R) = lookup R"
  by (simp add: fun_eq_iff)

lemma lookup_history:
  "record_history E s c st R = (s', R') \<Longrightarrow> lookup R' = lookup R"
  using lookup_record_history by (metis snd_conv)

lemma keeps_attach: "attach_connection E name res cols rows trm pk sp rl R = (r, R', fx) \<Longrightarrow> keeps R R'"
proof -
  have replace: "keeps R R1" if "replace_session E name res cols rows trm pk force s R = (r, R1, gx)" for r R1 gx s force
    using that by (auto simp: replace_session_def Let_def dest!: lookup_history split: prod.splits option.splits if_splits)
  have session: "keeps R R1" if "session_for_attach E name res cols rows trm pk rl R = (r, R1, gx)" for r R1 gx
    using that by (auto simp: session_for_attach_def Let_def dest!: replace split: prod.splits option.splits if_splits)
  have reg: "lookup (snd (take_attach_id R1)) = lookup R1" for R1 by (simp add: take_attach_id_def Let_def)
  assume a: "attach_connection E name res cols rows trm pk sp rl R = (r, R', fx)"
  obtain q R1 gx where f: "session_for_attach E name res cols rows trm pk rl R = (q, R1, gx)" by (metis prod_cases3)
  note k = session [OF f]
  show "keeps R R'"
  proof (cases q)
    case None
    with a f k show ?thesis by (auto simp: attach_connection_def split: if_splits)
  next
    case (Some s)
    obtain aid R2 where t: "take_attach_id R1 = (aid, R2)" by fastforce
    with reg [of R1] have "lookup R2 = lookup R1" by simp
    moreover from a f Some t have "R' = R \<or> (\<exists>s. R' = put name s R2)"
      by (auto simp: attach_connection_def Let_def case_prod_beta split: if_splits)
    ultimately show ?thesis using k by (auto simp: keeps_def)
  qed
qed

lemma keeps_geometry: "set_attachment_geometry E aid cols rows R = (R', fx) \<Longrightarrow> keeps R R'"
  by (auto simp: set_attachment_geometry_def Let_def split: option.splits prod.splits)

lemma keeps_detach:
  "detach_attachment E aid R = (b, R', fx) \<Longrightarrow> keeps R R'"
  "detach_peer name pk R = (b, R', fx) \<Longrightarrow> keeps R R'"
  "detach_all name R = (b, R', fx) \<Longrightarrow> keeps R R'"
  by (auto simp: detach_attachment_def detach_peer_def detach_all_def Let_def split: option.splits prod.splits)

lemma keeps_request: "keeps R (request_detach_signal name sig R)"
  by (auto simp: request_detach_signal_def split: option.splits)

lemma keeps_resurrect: "resurrect E name cols rows trm R = (b, R', fx) \<Longrightarrow> keeps R R'"
  by (auto simp: resurrect_def split: option.splits prod.splits if_splits)

lemma keeps_load: "keeps R (load_persisted_sessions E ms R)"
proof (induction ms arbitrary: R)
  case (Cons m ms)
  have "keeps R (load_meta E m R)" by (auto simp: keeps_def lookup_load_meta)
  with Cons [of "load_meta E m R"] show ?case by (auto simp: load_Cons intro: keeps_trans)
qed (auto simp: load_persisted_sessions_def)

lemma keeps_adopt: "keeps R (adopt_workers E ws R)"
proof -
  have "keeps R (adopt_worker E w R)" for w R by (simp add: adopt_worker_def Let_def keeps_def)
  then have "keeps R (foldl (\<lambda>R w. adopt_worker E w R) R ws)" for R
    by (induction ws arbitrary: R) (auto intro: keeps_trans)
  then show ?thesis by (simp add: adopt_workers_def)
qed

section \<open>Sessions that are erased are announced\<close>

definition announced :: "registry \<Rightarrow> registry \<Rightarrow> reg_effect list \<Rightarrow> bool" where
  "announced R R' fx \<longleftrightarrow> (\<forall>k. lookup R k \<noteq> None \<longrightarrow> lookup R' k = None \<longrightarrow> EffErased k \<in> set fx)"

lemma keeps_announced: "keeps R R' \<Longrightarrow> announced R R' fx"
  by (auto simp: keeps_def announced_def)

lemma pass_announces:
  assumes "visit_ok f" "\<And>s R R1 fx. f s R = (None, R1, fx) \<Longrightarrow> EffErased (s_name s) \<in> set fx"
  shows "reg_inv R \<Longrightarrow> for_sessions f ks R = (R', fx) \<Longrightarrow> announced R R' fx"
  using assms
proof (induction ks arbitrary: R R' fx)
  case Nil
  then show ?case by (simp add: announced_def)
next
  case (Cons k ks)
  show ?case
  proof (cases "lookup R k")
    case None
    with Cons show ?thesis by simp
  next
    case (Some s)
    obtain r R1 gx where f: "f s R = (r, R1, gx)" by (metis prod_cases3)
    note v = Cons.prems(3) [unfolded visit_ok_def, rule_format, OF Cons.prems(1) Some f]
    from v have v1: "reg_inv R1" "lookup R1 = lookup R"
      "case r of Some t \<Rightarrow> same_frame s t \<and> (live t \<longrightarrow> s_child_pid t > 0) | None \<Rightarrow> True" by blast+
    define R2 where "R2 = (case r of Some s' \<Rightarrow> put k s' R1 | None \<Rightarrow> erase k R1)"
    obtain R3 hx where g: "for_sessions f ks R2 = (R3, hx)" by fastforce
    have out: "R' = R3" "fx = gx @ hx" using Cons.prems(2) Some f g by (simp_all add: R2_def [symmetric])
    have i2: "reg_inv R2"
    proof (cases r)
      case None
      then show ?thesis unfolding R2_def using inv_erase [OF v1(1)] by simp
    next
      case t: (Some t)
      with v1(3) have "same_frame s t" "live t \<Longrightarrow> s_child_pid t > 0" by simp_all
      moreover have "lookup R1 k = Some s" using v1(2) Some by simp
      ultimately show ?thesis unfolding R2_def t using inv_put_frame [OF v1(1)] by simp
    qed
    have name: "s_name s = k" using inv_session [OF Cons.prems(1) Some] by (simp add: session_ok_def)
    have "announced R R2 gx"
      using f Cons.prems(4) name v1(2) by (cases r) (auto simp: announced_def R2_def)
    moreover have "announced R2 R3 hx" using Cons.IH [OF i2 g Cons.prems(3,4)] .
    ultimately show ?thesis unfolding out announced_def by auto
  qed
qed

lemma prune_ephemeral_announces: "prune_ephemeral_session E m s R = (None, R1, fx) \<Longrightarrow> EffErased (s_name s) \<in> set fx"
proof -
  have "s_name s1 = s_name s" if "probe_child E s R0 = ChildDead s1 R2" for s1 R0 R2
    using that
    by (auto simp: probe_child_def record_history_def release_exited_runtime_def Let_def
        split: if_splits wait_result.splits prod.splits)
  moreover have "s_name s2 = s_name s1" if "record_history E s1 c st R0 = (s2, R3)" for s1 s2 c st R0 R3
    using that by (auto simp: record_history_def Let_def split: if_splits)
  ultimately show "prune_ephemeral_session E m s R = (None, R1, fx) \<Longrightarrow> EffErased (s_name s) \<in> set fx"
    by (fastforce simp: prune_ephemeral_session_def Let_def erase_effects_def split: if_splits liveness.splits prod.splits)
qed

lemma history_name: "record_history E s c st R = (s', R') \<Longrightarrow> s_name s' = s_name s"
  by (auto simp: record_history_def Let_def split: if_splits)

lemma kill_announces:
  assumes "kill E name R = (b, R', fx)" "reg_inv R"
  shows "announced R R' fx"
proof (cases "lookup R name")
  case None
  with assms show ?thesis by (simp add: kill_def announced_def)
next
  case (Some s)
  obtain t R1 where h: "record_history E (s\<lparr>s_state := Killed\<rparr>) (-1) ''killed'' R = (t, R1)" by fastforce
  have "s_name s = name" using inv_session [OF assms(2) Some] by (simp add: session_ok_def)
  with assms(1) Some h lookup_history [OF h] show ?thesis by (auto simp: kill_def announced_def)
qed

lemma announced_trans:
  "announced R R1 fx \<Longrightarrow> announced R1 R2 gx \<Longrightarrow> announced R R2 (fx @ gx)"
  by (auto simp: announced_def)

lemma lookup_log_prunes [simp]: "lookup (log_prunes E R) = lookup R"
  by (simp add: log_prunes_def lookup_def fun_eq_iff)

lemma passes_announce:
  assumes "reg_inv R"
  shows "env_ok E \<Longrightarrow> reap_dead E inc R = (R', fx) \<Longrightarrow> announced R R' fx"
    and "prune_idle E m R = (R', fx) \<Longrightarrow> announced R R' fx"
    and "prune_finished_sessions E m R = (R', fx) \<Longrightarrow> announced R R' fx"
    and "prune_ephemeral_sessions E m R = (R', fx) \<Longrightarrow> announced R R' fx"
proof -
  show "announced R R' fx" if "env_ok E" "reap_dead E inc R = (R', fx)"
    by (rule pass_announces [OF visit_reap [OF that(1), of inc] _ assms that(2) [unfolded reap_dead_def]]) (auto split: prod.splits)
  show "announced R R' fx" if "prune_idle E m R = (R', fx)"
    by (rule pass_announces [OF visit_prune_idle _ assms that [unfolded prune_idle_def]])
      (auto simp: prune_idle_session_def Let_def erase_effects_def dest: history_name split: if_splits prod.splits)
  have finished: "announced S S' gx" if "prune_finished_sessions E m S = (S', gx)" "reg_inv S" for S S' gx m
    by (rule pass_announces [OF visit_prune_finished _ that(2) that(1) [unfolded prune_finished_sessions_def]])
      (auto simp: prune_finished_session_def erase_effects_def dest: history_name split: if_splits prod.splits)
  then show "announced R R' fx" if "prune_finished_sessions E m R = (R', fx)" using that assms .
  show "announced R R' fx" if p: "prune_ephemeral_sessions E m R = (R', fx)"
  proof -
    obtain R1 gx where 1: "prune_finished_sessions E (seconds (48 * 3600)) R = (R1, gx)" by fastforce
    obtain R2 hx where 2: "for_sessions (prune_ephemeral_session E m) (map fst (rg_sessions R1)) R1 = (R2, hx)" by fastforce
    have i1: "reg_inv R1" using inv_prune_finished [OF assms] 1 by (metis fst_conv)
    have "announced R1 R2 hx" by (rule pass_announces [OF visit_prune_ephemeral prune_ephemeral_announces i1 2])
    with announced_trans [OF finished [OF 1 assms] this] p 1 2 show ?thesis
      by (auto simp: prune_ephemeral_sessions_def announced_def)
  qed
qed

lemma reg_step_announces:
  assumes "reg_step op R = (R', fx)" "reg_inv R" "op_ok op"
  shows "announced R R' fx"
proof (cases op)
  case (OpAttach E name res cols rows trm pk sp rl)
  with assms(1) have "keeps R R'" using keeps_attach by (metis prod.collapse reg_step.simps(1))
  then show ?thesis by (rule keeps_announced)
next
  case (OpDetach E aid)
  with assms(1) have "keeps R R'" using keeps_detach(1) by (metis prod.collapse reg_step.simps(4))
  then show ?thesis by (rule keeps_announced)
next
  case (OpDetachPeer name pk)
  with assms(1) have "keeps R R'" using keeps_detach(2) by (metis prod.collapse reg_step.simps(5))
  then show ?thesis by (rule keeps_announced)
next
  case (OpDetachAll name)
  with assms(1) have "keeps R R'" using keeps_detach(3) by (metis prod.collapse reg_step.simps(6))
  then show ?thesis by (rule keeps_announced)
next
  case (OpKill E name)
  with assms(1,2) show ?thesis using kill_announces by (metis prod.collapse reg_step.simps(7))
next
  case (OpResurrect E name cols rows trm)
  with assms(1) have "keeps R R'" using keeps_resurrect by (metis prod.collapse reg_step.simps(13))
  then show ?thesis by (rule keeps_announced)
next
  case (OpReap E inc)
  with assms passes_announce(1) show ?thesis by (simp add: op_ok_def)
next
  case (OpPruneIdle E m)
  with assms(1) passes_announce(2) [OF assms(2)] show ?thesis by simp
next
  case (OpPruneEphemeral E m)
  with assms(1) passes_announce(4) [OF assms(2)] show ?thesis by simp
next
  case (OpGeometry E aid cols rows)
  with assms(1) keeps_geometry show ?thesis by (auto intro: keeps_announced)
next
  case (OpRequestSignal name sig)
  with assms(1) keeps_request show ?thesis by (auto intro: keeps_announced)
next
  case (OpLoad E ms)
  with assms(1) keeps_load show ?thesis by (auto intro: keeps_announced)
next
  case (OpAdopt E ws)
  with assms(1) keeps_adopt show ?thesis by (auto intro: keeps_announced)
qed

section \<open>No connection has an erased session\<close>

definition conns_ok :: "registry \<Rightarrow> conn_state list \<Rightarrow> bool" where
  "conns_ok R cs \<longleftrightarrow> (\<forall>c \<in> set cs. \<forall>k. cn_session c = Some k \<longrightarrow> lookup R k \<noteq> None)"

lemma conns_keeps: "conns_ok R cs \<Longrightarrow> keeps R R' \<Longrightarrow> conns_ok R' cs"
  by (auto simp: conns_ok_def keeps_def)

lemma notify_conns:
  "c \<in> set (notify fx cs) \<Longrightarrow> cn_session c = Some k \<Longrightarrow>
   EffErased k \<notin> set fx \<and> (\<exists>c' \<in> set cs. cn_session c' = Some k)"
proof (induction fx cs rule: notify.induct)
  case (2 j fx cs)
  from "2.IH" [OF _ "2.prems"(2)] "2.prems"(1) obtain c' where
    "EffErased k \<notin> set fx" "c' \<in> set (forget_session j cs)" "cn_session c' = Some k" by auto
  then show ?case by (auto simp: forget_session_def split: if_splits)
qed auto

lemma conns_notify: "conns_ok R cs \<Longrightarrow> announced R R' fx \<Longrightarrow> conns_ok R' (notify fx cs)"
  unfolding conns_ok_def announced_def using notify_conns by (metis (no_types, lifting))


section \<open>The handlers\<close>

definition dm_ok :: "daemon \<Rightarrow> bool" where
  "dm_ok D \<longleftrightarrow> reg_inv (dm_reg D) \<and> conns_ok (dm_reg D) (dm_conns D)"

lemma dm_simps [simp]:
  "dm_reg (set_conn i c D) = dm_reg D" "dm_conns (set_conn i c D) = (dm_conns D)[i := c]"
  "dm_reg (put_session k s D) = put k s (dm_reg D)" "dm_conns (put_session k s D) = dm_conns D"
  by (simp_all add: set_conn_def put_session_def)

lemma conns_update: "conns_ok R cs \<Longrightarrow> (\<And>k. cn_session c = Some k \<Longrightarrow> lookup R k \<noteq> None) \<Longrightarrow> conns_ok R (cs[i := c])"
  unfolding conns_ok_def by (metis insertE set_update_subset_insert subsetD)

text \<open>What is written to a terminal changes neither the frame of the session nor its process.\<close>

definition session_kept :: "Session \<Rightarrow> Session \<Rightarrow> bool" where
  "session_kept s t \<longleftrightarrow> same_frame s t \<and> s_child_pid t = s_child_pid s \<and> (live t \<longrightarrow> live s)"

lemma kept_refl [simp]: "session_kept s s"
  by (simp add: session_kept_def)

lemma kept_updates [simp]:
  "session_kept s (t\<lparr>s_pending_input := d\<rparr>) = session_kept s t" "session_kept s (t\<lparr>s_input_backpressured := b\<rparr>) = session_kept s t"
  "session_kept s (t\<lparr>s_worker_tx := d\<rparr>) = session_kept s t" "session_kept s t \<Longrightarrow> session_kept s (t\<lparr>s_state := Died\<rparr>)"
  by (auto simp: session_kept_def same_frame_def live_def)

lemma queue_frame_kept: "worker_queue_frame s t d evs = (s', w) \<Longrightarrow> session_kept s s'"
  using queue_frame_frame [of s t d evs s' w] by (auto simp: session_kept_def same_life_def live_def)

lemma kept_trans: "session_kept s t \<Longrightarrow> session_kept t u \<Longrightarrow> session_kept s u"
  by (simp add: session_kept_def same_frame_def)

lemma queue_input_kept: "queue_input s d = (ok, t) \<Longrightarrow> session_kept s t"
  by (auto simp: queue_input_def split: if_splits)

lemma write_new_kept: "write_new s d evs = (ok, t, w) \<Longrightarrow> session_kept s t"
  by (auto simp: write_new_def dest: queue_input_kept split: if_splits prod.splits)

lemma write_queued_kept: "write_queued_once s evs = (t, w, err, evs1) \<Longrightarrow> session_kept s t"
  by (auto simp: write_queued_once_def split: list.splits sock_write.splits if_splits)

lemma write_hosted_kept: "write_hosted_input s d evs = (ok, t, w) \<Longrightarrow> session_kept s t"
  by (auto simp: write_hosted_input_def dest: queue_frame_kept split: if_splits prod.splits)

lemma write_input_kept: "write_pty_input s d evs = (ok, t, w) \<Longrightarrow> session_kept s t"
  by (auto simp: write_pty_input_def dest: queue_input_kept write_new_kept write_queued_kept write_hosted_kept
      intro: kept_trans split: if_splits prod.splits)

lemma inv_put_kept:
  assumes "reg_inv R" "lookup R k = Some s" "session_kept s t"
  shows "reg_inv (put k t R)"
  using assms session_live_pid [OF assms(1,2)] by (intro inv_put_frame [OF assms(1,2)]) (auto simp: session_kept_def)

lemma dm_put_kept:
  assumes "dm_ok D" "lookup (dm_reg D) k = Some s" "session_kept s t"
  shows "dm_ok (put_session k t D)"
  using assms inv_put_kept conns_keeps [of "dm_reg D"] by (auto simp: dm_ok_def)

lemma dm_set_conn: "dm_ok D \<Longrightarrow> (\<And>k. cn_session c = Some k \<Longrightarrow> lookup (dm_reg D) k \<noteq> None) \<Longrightarrow> dm_ok (set_conn i c D)"
  by (simp add: dm_ok_def conns_update)

lemma dm_reg_update: "dm_ok D \<Longrightarrow> reg_inv R \<Longrightarrow> keeps (dm_reg D) R \<Longrightarrow> dm_ok (D\<lparr>dm_reg := R\<rparr>)"
  using conns_keeps by (auto simp: dm_ok_def)

lemma conn_session: "dm_ok D \<Longrightarrow> i < length (dm_conns D) \<Longrightarrow> cn_session (dm_conns D ! i) = Some k \<Longrightarrow> lookup (dm_reg D) k \<noteq> None"
  by (auto simp: dm_ok_def conns_ok_def)

lemma type_input_ok:
  assumes "dm_ok D" "i < length (dm_conns D)" "type_input E i k d D = (D', fx)"
  shows "dm_ok D'"
proof (cases "lookup (dm_reg D) k")
  case (Some s)
  obtain ok s1 w where w: "write_pty_input s d (re_take E k) = (ok, s1, w)" by (metis prod_cases3)
  have 1: "dm_ok (put_session k s1 D)" using dm_put_kept [OF assms(1) Some write_input_kept [OF w]] .
  have "lookup (dm_reg (put_session k s1 D)) j \<noteq> None" if "cn_session (dm_conns D ! i) = Some j" for j
    using conn_session [OF assms(1,2) that] by simp
  then have "dm_ok (set_conn i ((dm_conns D ! i)\<lparr>cn_close_requested := True\<rparr>) (put_session k s1 D))"
    by (intro dm_set_conn [OF 1]) simp
  with 1 assms(3) Some w show ?thesis by (auto simp: type_input_def Let_def split: if_splits)
qed (use assms in \<open>simp add: type_input_def\<close>)

lemma keystroke_ok:
  "dm_ok D \<Longrightarrow> i < length (dm_conns D) \<Longrightarrow> handle_keystroke E i ks D = (D', fx) \<Longrightarrow> dm_ok D'"
  by (auto simp: handle_keystroke_def dest: type_input_ok split: if_splits option.splits)

lemma clipboard_ok:
  "dm_ok D \<Longrightarrow> i < length (dm_conns D) \<Longrightarrow> handle_clipboard E i cb D = (D', fx) \<Longrightarrow> dm_ok D'"
  by (auto simp: handle_clipboard_def dest: type_input_ok split: if_splits option.splits prod.splits)

lemma resize_ok:
  assumes "dm_ok D" "handle_resize E i r D = (D', fx)"
  shows "dm_ok D'"
proof -
  have 1: "dm_ok (D\<lparr>dm_reg := R\<rparr>)" if "set_attachment_geometry E aid c w (dm_reg D) = (R, gx)" for R gx aid c w
    using dm_reg_update [OF assms(1) inv_set_geometry [OF that] keeps_geometry [OF that]] assms(1) by (simp add: dm_ok_def)
  show ?thesis using assms 1
    by (auto simp: handle_resize_def Let_def dest: dm_put_kept queue_frame_kept split: if_splits option.splits prod.splits)
qed

lemma detach_connection_ok:
  assumes "dm_ok D" "detach_connection_session E i repl D = (D', fx)"
  shows "dm_ok D' \<and> rg_next_attach_id (dm_reg D') = rg_next_attach_id (dm_reg D) \<and> length (dm_conns D') = length (dm_conns D) \<and>
    keeps (dm_reg D) (dm_reg D')"
proof -
  let ?c = "(dm_conns D ! i)\<lparr>cn_session := None, cn_attach_id := 0, cn_spectator := False\<rparr>"
  have 1: "dm_ok (set_conn i ?c D)" by (rule dm_set_conn [OF assms(1)]) simp
  then have i: "reg_inv (dm_reg D)" by (simp add: dm_ok_def)
  have next_id: "rg_next_attach_id R = rg_next_attach_id (dm_reg D)"
    if "detach_attachment E aid (dm_reg D) = (b, R, gx) \<or> detach_all k (dm_reg D) = (b, R, gx)" for aid k b R gx
    using that by (auto simp: detach_attachment_def detach_all_def split: option.splits prod.splits)
  have a: "dm_ok ((set_conn i ?c D)\<lparr>dm_reg := R\<rparr>) \<and> keeps (dm_reg D) R"
    if "detach_attachment E aid (dm_reg D) = (b, R, gx) \<or> detach_all k (dm_reg D) = (b, R, gx)" for aid k b R gx
    using that dm_reg_update [OF 1, of R] inv_detach_attachment [OF _ i] inv_detach_all [OF _ i] keeps_detach by auto
  have "D' = set_conn i ?c D \<or> (\<exists>R aid k b gx. D' = (set_conn i ?c D)\<lparr>dm_reg := R\<rparr> \<and>
      (detach_attachment E aid (dm_reg D) = (b, R, gx) \<or> detach_all k (dm_reg D) = (b, R, gx)))"
    using assms(2) unfolding detach_connection_session_def Let_def
    by (force split: option.splits if_splits prod.splits)
  then show ?thesis
  proof (elim disjE exE conjE)
    assume "D' = set_conn i ?c D"
    with 1 show ?thesis by auto
  next
    fix R aid k b gx
    assume D': "D' = (set_conn i ?c D)\<lparr>dm_reg := R\<rparr>" and "detach_attachment E aid (dm_reg D) = (b, R, gx)"
    then have s: "detach_attachment E aid (dm_reg D) = (b, R, gx) \<or> detach_all k (dm_reg D) = (b, R, gx)" by simp
    from a [OF s] next_id [OF s] show ?thesis unfolding D' by simp
  next
    fix R aid k b gx
    assume D': "D' = (set_conn i ?c D)\<lparr>dm_reg := R\<rparr>" and "detach_all k (dm_reg D) = (b, R, gx)"
    then have s: "detach_attachment E aid (dm_reg D) = (b, R, gx) \<or> detach_all k (dm_reg D) = (b, R, gx)" by simp
    from a [OF s] next_id [OF s] show ?thesis unfolding D' by simp
  qed
qed

lemma detach_ok: "dm_ok D \<Longrightarrow> handle_detach E i D = (D', fx) \<Longrightarrow> dm_ok D'"
  by (auto simp: handle_detach_def dest: detach_connection_ok split: if_splits)

lemma attach_local_ok:
  assumes "dm_ok D" "env_ok E" "rg_next_attach_id (dm_reg D) \<noteq> -1" "attach_local E i a D = (D', fx)"
  shows "dm_ok D'"
proof -
  let ?name = "att_session_name a"
  define res where "res = resolve_session_command (dm_commands D) (dm_shell D) ?name (att_command a)"
  obtain r R gx where at: "attach_connection E ?name res (att_cols a) (att_rows a) (att_term a) (cn_pubkey (dm_conns D ! i))
      (att_spectator a) (att_reconnect_only a) (dm_reg D) = (r, R, gx)" by (metis prod_cases3)
  have i: "reg_inv (dm_reg D)" using assms(1) by (simp add: dm_ok_def)
  note inv = inv_attach [OF at i assms(2,3)]
  have k: "keeps (dm_reg D) R" using keeps_attach [OF at] .
  show ?thesis
  proof (cases r)
    case None
    with at assms(4) dm_reg_update [OF assms(1) _ k] inv show ?thesis
      by (auto simp: attach_local_def Let_def res_def [symmetric])
  next
    case (Some q)
    obtain aid c w where q: "q = (aid, c, w)" by (metis prod_cases3)
    define R1 where "R1 = request_detach_signal ?name (att_signal_on_detach a) R"
    have R1: "reg_inv R1" "keeps R R1" using inv inv_request_detach_signal keeps_request by (auto simp: R1_def)
    from inv Some q have "lookup R ?name \<noteq> None" by auto
    with R1(2) have l: "lookup R1 ?name \<noteq> None" by (auto simp: keeps_def)
    have "dm_ok (D\<lparr>dm_reg := R1\<rparr>)" using dm_reg_update [OF assms(1) R1(1)] keeps_trans [OF k R1(2)] by simp
    then have "dm_ok (set_conn i ((dm_conns D ! i)\<lparr>cn_session := Some ?name, cn_attach_id := aid, cn_spectator := att_spectator a\<rparr>)
        (D\<lparr>dm_reg := R1\<rparr>))"
      using l by (intro dm_set_conn) auto
    with at assms(4) Some q show ?thesis
      by (auto simp: attach_local_def Let_def res_def [symmetric] R1_def [symmetric])
  qed
qed

lemma attach_ok:
  assumes "dm_ok D" "env_ok E" "rg_next_attach_id (dm_reg D) \<noteq> -1" "handle_attach E i a D = (D', fx)"
  shows "dm_ok D'"
proof -
  obtain D1 gx where d: "(if cn_attach_id (dm_conns D ! i) \<noteq> 0 \<or> cn_session (dm_conns D ! i) \<noteq> None
      then detach_connection_session E i False D else (D, [])) = (D1, gx)" by fastforce
  have "dm_ok D1" "rg_next_attach_id (dm_reg D1) = rg_next_attach_id (dm_reg D)"
    using d assms(1) detach_connection_ok by (auto split: if_splits)
  then have "attach_local E i a D1 = (D2, hx) \<Longrightarrow> dm_ok D2" for D2 hx
    using attach_local_ok [OF _ assms(2)] assms(3) by simp
  with assms(1,4) d show ?thesis
    by (auto simp: handle_attach_def split: if_splits prod.splits)
qed

lemma restart_ok:
  assumes "restart_session E ws cmd k s R = (R', fx)" "reg_inv R" "lookup R k = Some s" "env_ok E"
  shows "reg_inv R' \<and> keeps R R'"
proof -
  define s1 where "s1 = release_for_restart s"
  have s1: "same_frame s s1" by (simp add: s1_def same_frame_def release_for_restart_def Let_def)
  obtain r sx where sp: "spawn_session_runtime E R (s_name s) cmd 80 24 ''xterm-256color'' = (r, sx)" by fastforce
  show ?thesis
  proof (cases r)
    case None
    have "reg_inv (put k (s1\<lparr>s_state := Died\<rparr>) R)"
      using s1 by (intro inv_put_frame [OF assms(2,3)]) (simp_all add: same_frame_def live_def)
    with assms(1) sp None show ?thesis by (auto simp: restart_session_def Let_def s1_def)
  next
    case (Some n)
    from spawned_session [OF sp [unfolded Some] assms(4)] have n: "s_child_pid n > 0" by simp
    let ?t = "s1\<lparr>s_master_fd := s_master_fd n, s_child_pid := s_child_pid n, s_hosted := s_hosted n,
                    s_worker_pid := s_worker_pid n, s_worker_died := False, s_command := s_command n,
                    s_generation := s_generation n, s_last_output_at := s_last_output_at n, s_state := Attached\<rparr>"
    have "reg_inv (put k ?t (next_generation R))"
      using s1 n assms(3) by (intro inv_put_frame [OF inv_next_generation [OF assms(2)], of k s]) (simp_all add: same_frame_def)
    moreover have "R' = put k ?t (next_generation R)"
      using assms(1) sp Some by (simp add: restart_session_def Let_def s1_def)
    ultimately show ?thesis by (auto simp: keeps_def)
  qed
qed

lemma signal_ok:
  assumes "dm_ok D" "env_ok E" "handle_signal E ws i sig D = (D', fx)"
  shows "dm_ok D'"
proof -
  have i: "reg_inv (dm_reg D)" "conns_ok (dm_reg D) (dm_conns D)" using assms(1) by (simp_all add: dm_ok_def)
  have kn: "dm_ok D1" if "kill_by_name E i n D = (D1, gx)" for D1 gx n
  proof -
    obtain b R hx where k: "kill E n (dm_reg D) = (b, R, hx)" by (metis prod_cases3)
    from inv_kill [OF k i(1)] conns_notify [OF i(2) kill_announces [OF k i(1)]] that k show ?thesis
      by (auto simp: kill_by_name_def dm_ok_def)
  qed
  have rs: "dm_ok (D\<lparr>dm_reg := R\<rparr>)" if "restart_session E ws cmd k s (dm_reg D) = (R, gx)" "lookup (dm_reg D) k = Some s" for cmd k s R gx
    using restart_ok [OF that(1) i(1) that(2) assms(2)] dm_reg_update [OF assms(1)] by simp
  show ?thesis
  proof (cases "sig_signal sig = SIG_Kill \<and> sig_process sig \<noteq> [] \<and> cn_session (dm_conns D ! i) = None")
    case True
    with assms(3) kn show ?thesis by (simp add: handle_signal_def Let_def)
  next
    case False
    then show ?thesis using assms(1,3) rs
      unfolding handle_signal_def Let_def if_not_P [OF False]
      by (auto split: if_splits option.splits prod.splits)
  qed
qed

lemma message_ok:
  assumes "dm_ok D" "i < length (dm_conns D)" "env_ok E" "rg_next_attach_id (dm_reg D) \<noteq> -1"
    and "handle_session_message E ws i m D = (D', fx)"
  shows "dm_ok D'"
  using assms attach_ok [OF assms(1,3,4)] keystroke_ok [OF assms(1,2)] resize_ok [OF assms(1)] detach_ok [OF assms(1)]
    signal_ok [OF assms(1,3)] clipboard_ok [OF assms(1,2)]
  by (cases m) (auto simp: handle_session_message_def)

lemma close_ok:
  assumes "dm_ok D" "i < length (dm_conns D)" "close_conn E i D = (b, D', fx)"
  shows "dm_ok D'"
proof -
  let ?c = "dm_conns D ! i"
  have same: "dm_ok (set_conn i (?c\<lparr>cn_close_requested := b\<rparr>) D)" for b
    using conn_session [OF assms(1,2)] by (intro dm_set_conn [OF assms(1)]) simp
  let ?D1 = "set_conn i (?c\<lparr>cn_close_requested := False\<rparr>) D"
  obtain D2 gx where d: "(if cn_session ?c \<noteq> None then detach_connection_session E i (has_replacement_transport ?D1 i) ?D1
      else (?D1, [])) = (D2, gx)" by fastforce
  have 2: "dm_ok D2" "length (dm_conns D2) = length (dm_conns D)"
    using d same detach_connection_ok [OF same] by (auto split: if_splits)
  have "dm_ok (set_conn i ((dm_conns D2 ! i)\<lparr>cn_open := False\<rparr>) D2)"
    using conn_session [OF 2(1)] 2(2) assms(2) by (intro dm_set_conn [OF 2(1)]) simp
  with same assms(3) d show ?thesis by (auto simp: close_conn_def Let_def split: if_splits)
qed

text \<open>The passes of the event loop.\<close>

lemma touch_kept [simp]: "session_kept s (touch_output now t) = session_kept s t"
  by (simp add: touch_output_def session_kept_def same_frame_def live_def)

lemma scrollback_kept [simp]: "session_kept s (t\<lparr>s_scrollback := r\<rparr>) = session_kept s t"
  by (simp add: session_kept_def same_frame_def live_def)

lemma pump_kept: "pump_hosted_session s evs = (s1, p) \<Longrightarrow> session_kept s s1"
  using pump_hosted_frame [of s evs] by (auto simp: session_kept_def live_def)

lemma poll_output_kept:
  assumes "poll_read s evs now = (s1, buf)" "poll_output hint s1 buf now = (s2, fs)"
  shows "session_kept s s2"
proof -
  have "session_kept s s1"
    using assms(1) by (auto simp: poll_read_def dest: pump_kept split: if_splits prod.splits)
  moreover have "session_kept s1 s2"
    using assms(2) by (auto simp: poll_output_def Let_def split: if_splits)
  ultimately show ?thesis by (rule kept_trans)
qed

lemma drain_kept: "input_tick s evs = (t, w) \<Longrightarrow> session_kept s t"
  by (auto simp: input_tick_def drain_pending_pty_input_def Let_def split: if_splits prod.splits)

text \<open>A visit keeps the registry well formed and every session in it.\<close>

definition visit_keeps :: "(string \<Rightarrow> registry \<Rightarrow> registry \<times> dm_effect list) \<Rightarrow> bool" where
  "visit_keeps f \<longleftrightarrow> (\<forall>k R R' fx. f k R = (R', fx) \<longrightarrow> reg_inv R \<longrightarrow> reg_inv R' \<and> keeps R R')"

lemma visits_keep: "visit_keeps f \<Longrightarrow> visits f ks R = (R', fx) \<Longrightarrow> reg_inv R \<Longrightarrow> reg_inv R' \<and> keeps R R'"
proof (induction ks arbitrary: R R' fx)
  case (Cons k ks)
  obtain R1 gx where f: "f k R = (R1, gx)" by fastforce
  obtain R2 hx where g: "visits f ks R1 = (R2, hx)" by fastforce
  from Cons.prems(1) [unfolded visit_keeps_def] f Cons.prems(3) have 1: "reg_inv R1" "keeps R R1" by blast+
  from Cons.IH [OF Cons.prems(1) g 1(1)] Cons.prems(2) f g 1(2) keeps_trans show ?case by auto
qed auto

lemma poll_exit_died:
  assumes "snd (snd (poll_exit s w)) = Some code" "poll_exit s w = (t, gs, h)"
  shows "\<not> live t \<and> (same_frame u s \<longrightarrow> same_frame u t)"
  using assms
  by (auto simp: poll_exit_def Let_def live_def same_frame_def release_exited_runtime_def
      split: if_splits option.splits exit_status.splits)

lemma poll_exit_history: "snd (snd (poll_exit (s\<lparr>s_history_recorded := b\<rparr>) w)) = snd (snd (poll_exit s w))"
  by (simp add: poll_exit_def Let_def split: option.split exit_status.split)

lemma poller_visit_keeps: "visit_keeps (poller_visit hint E)"
  unfolding visit_keeps_def
proof (intro allI impI)
  fix k R R' fx
  assume v: "poller_visit hint E k R = (R', fx)" and i: "reg_inv R"
  show "reg_inv R' \<and> keeps R R'"
  proof (cases "lookup R k")
    case None
    with v i show ?thesis by (auto simp: poller_visit_def)
  next
    case (Some s)
    obtain s1 buf where r: "poll_read s (re_pump E k) (re_now E) = (s1, buf)" by fastforce
    obtain s2 fs where o: "poll_output hint s1 buf (re_now E) = (s2, fs)" by fastforce
    define w where "w = exit_wait (re_wait E (s_child_pid s2))"
    have k2: "session_kept s s2" using poll_output_kept [OF r o] .
    show ?thesis
    proof (cases "snd (snd (poll_exit s2 w))")
      case None
      with v Some r o w_def have "R' = R \<or> R' = put k s2 R"
        by (auto simp: poller_visit_def Let_def split: if_splits)
      with i inv_put_kept [OF i Some k2] show ?thesis by auto
    next
      case code: (Some code)
      obtain s3 R1 where h: "record_history E s2 code ''died'' R = (s3, R1)" by fastforce
      obtain s4 gs c4 where x: "poll_exit s3 w = (s4, gs, c4)" by (metis prod_cases3)
      from v Some r o w_def code h x have R': "R' = R \<or> R' = put k s4 R1"
        by (auto simp: poller_visit_def Let_def split: if_splits)
      have R1: "reg_inv R1" "lookup R1 = lookup R"
        using record_history_registry [OF h i] by simp_all
      have s3: "s3 = s2\<lparr>s_history_recorded := True\<rparr>" using record_history_registry [OF h i] by simp
      have "same_frame s s3" "snd (snd (poll_exit s3 w)) = Some code"
        using k2 code by (simp_all add: s3 session_kept_def same_frame_def poll_exit_history)
      with poll_exit_died [OF _ x, of code s] have "same_frame s s4" "\<not> live s4" by simp_all
      then have "reg_inv (put k s4 R1)"
        using Some R1(2) by (intro inv_put_frame [OF R1(1), of k s]) simp_all
      with R' i R1(2) show ?thesis by auto
    qed
  qed
qed

lemma drain_visit_keeps: "visit_keeps (drain_visit E)"
  unfolding visit_keeps_def
  by (auto simp: drain_visit_def dest: drain_kept intro: inv_put_kept split: option.splits prod.splits)

lemma loop_ok:
  assumes "dm_ok D"
  shows "pty_output_poller hint E D = (D', fx) \<Longrightarrow> dm_ok D'" and "drain_inputs E D = (D', fx) \<Longrightarrow> dm_ok D'"
proof -
  have i: "reg_inv (dm_reg D)" using assms by (simp add: dm_ok_def)
  show "dm_ok D'" if "pty_output_poller hint E D = (D', fx)"
    using that visits_keep [OF poller_visit_keeps _ i] dm_reg_update [OF assms]
    by (auto simp: pty_output_poller_def split: prod.splits)
  show "dm_ok D'" if "drain_inputs E D = (D', fx)"
    using that visits_keep [OF drain_visit_keeps _ i] dm_reg_update [OF assms]
    by (auto simp: drain_inputs_def split: prod.splits)
qed

lemma watch_ok:
  assumes "dm_ok D" "i < length (dm_conns D)" "w \<noteq> WaitEchild"
  shows "dm_ok (stale_exec w i D)"
proof -
  let ?c = "(dm_conns D ! i)\<lparr>cn_close_requested := True\<rparr>"
  have cancel: "dm_ok (set_conn i ?c D1)" if "dm_ok D1" "keeps (dm_reg D) (dm_reg D1)" for D1
    using conn_session [OF assms(1,2)] that(2) by (intro dm_set_conn [OF that(1)]) (auto simp: keeps_def)
  have put: "dm_ok (put_session k t D)" if l: "lookup (dm_reg D) k = Some s" and t: "watched_session w s = (b, t)" for k s b t
  proof -
    have "same_frame s t \<and> (live t \<longrightarrow> s_child_pid s > 0 \<longrightarrow> s_child_pid t > 0) \<and> (live t \<longrightarrow> live s)"
      using t assms(3)
      by (auto simp: watched_session_def same_frame_def live_def release_exited_runtime_def split: if_splits wait_result.splits)
    moreover have i: "reg_inv (dm_reg D)" using assms(1) by (simp add: dm_ok_def)
    ultimately have "reg_inv (put k t (dm_reg D))"
      using session_live_pid [OF i l] by (intro inv_put_frame [OF i l]) auto
    with assms(1) conns_keeps [of "dm_reg D"] show ?thesis by (auto simp: dm_ok_def)
  qed
  show ?thesis using assms(1) cancel [OF assms(1)] put cancel [OF put]
    unfolding stale_exec_def Let_def by (auto split: option.splits prod.splits)
qed

text \<open>What is assumed of an event: forks give positive identifiers (\<open>env_ok\<close>), and a child that nobody
  has collected is not unknown to \<open>waitpid\<close> when the watchdog asks.\<close>

fun event_ok :: "dm_event \<Rightarrow> bool" where
  "event_ok (DmRegistry op) = op_ok op"
| "event_ok (DmMessage E ws i m) = env_ok E"
| "event_ok (DmAccept name pk) = True"
| "event_ok (DmClose E i) = True"
| "event_ok (DmPoll hint E) = True"
| "event_ok (DmDrain E) = True"
| "event_ok (DmBusy i b) = True"
| "event_ok (DmWatch w i) = (w \<noteq> WaitEchild)"

lemma dm_step_ok:
  assumes "dm_ok D" "event_ok ev" "rg_next_attach_id (dm_reg D) \<noteq> -1" "dm_step ev D = (D', fx)"
  shows "dm_ok D'"
proof (cases ev)
  case (DmRegistry op)
  obtain R gx where r: "reg_step op (dm_reg D) = (R, gx)" by fastforce
  have "reg_inv R" "announced (dm_reg D) R gx"
    using inv_reg_step [OF _ _ assms(3) r] reg_step_announces [OF r] assms(1,2) DmRegistry by (simp_all add: dm_ok_def)
  with assms(1,4) DmRegistry r conns_notify show ?thesis by (auto simp: dm_registry_def dm_ok_def)
next
  case (DmMessage E ws i m)
  with assms message_ok show ?thesis by (auto split: if_splits)
next
  case (DmAccept name pk)
  with assms(1,4) show ?thesis by (auto simp: dm_ok_def conns_ok_def new_conn_def)
next
  case (DmClose E i)
  have cut: "dm_ok (D1\<lparr>dm_conns := take i (dm_conns D1) @ drop (Suc i) (dm_conns D1)\<rparr>)" if "dm_ok D1" for D1
    using that by (auto simp: dm_ok_def conns_ok_def dest: in_set_takeD in_set_dropD)
  from assms(1,4) DmClose close_ok [OF assms(1)] cut show ?thesis by (auto split: if_splits prod.splits)
next
  case (DmPoll hint E)
  with assms(4) loop_ok(1) [OF assms(1)] show ?thesis by simp
next
  case (DmDrain E)
  with assms(4) loop_ok(2) [OF assms(1)] show ?thesis by simp
next
  case (DmBusy i b)
  have "dm_ok (set_conn i ((dm_conns D ! i)\<lparr>cn_exec_busy := b\<rparr>) D)" if "i < length (dm_conns D)"
    using conn_session [OF assms(1) that] by (intro dm_set_conn [OF assms(1)]) simp
  with assms(1,4) DmBusy show ?thesis by (auto split: if_splits)
next
  case (DmWatch w i)
  with assms(1,2,4) watch_ok [OF assms(1)] show ?thesis by (auto split: if_splits)
qed

end
