(* ===== verification/Connections_Props.thy ===== *)
theory Connections_Props
  imports Connections_Inv
begin

text \<open>
  The properties of the connections: the registry stays well formed and no session dangles in
  everything the daemon goes through, whom it signals, what spectators can do, two ways in which
  an attachment and its connection part, and a signal to a process that is gone.
\<close>

section \<open>Well-formedness\<close>

text \<open>The states of a daemon that starts with an empty registry.\<close>

definition new_daemon :: "string \<Rightarrow> string \<Rightarrow> string \<Rightarrow> (string \<Rightarrow> string option) \<Rightarrow> string \<Rightarrow> nat \<Rightarrow> daemon" where
  "new_daemon home exe node commands shell lines =
     \<lparr>dm_reg = new_registry home exe, dm_conns = [], dm_node_name = node, dm_commands = commands, dm_shell = shell,
      dm_scrollback_lines = lines\<rparr>"

inductive dm_reach :: "daemon \<Rightarrow> bool" where
  start: "dm_reach (new_daemon home exe node commands shell lines)"
| step: "dm_reach D \<Longrightarrow> event_ok ev \<Longrightarrow> rg_next_attach_id (dm_reg D) \<noteq> -1 \<Longrightarrow> dm_reach (fst (dm_step ev D))"

lemma dm_reach_ok: "dm_reach D \<Longrightarrow> dm_ok D"
proof (induction rule: dm_reach.induct)
  case (start home exe node commands shell lines)
  show ?case by (simp add: dm_ok_def conns_ok_def new_daemon_def inv_new_registry)
next
  case (step D ev)
  show ?case using dm_step_ok [OF step.IH step.hyps(2,3)] by (metis prod.collapse)
qed

text \<open>C6. Whatever the daemon goes through - the operations of its registry, the session messages of
  its peers with the restart of a session among them, connections that come and go, the poller of
  the output with the end of a child, the drain of the input queues and the watchdog of busy
  connections - its registry stays well formed: a session stands under its own name, its
  attachments are keyed by their identifiers, the key of every attached peer is recorded once, a
  live session has a process, no attachment belongs to two sessions, and the history holds at
  most 50 entries. It is assumed that a fork gives a positive identifier, that the watchdog never hears
  \<open>ECHILD\<close> about a session's child (\<open>event_ok\<close>; see \<open>watchdog_forgets_the_process\<close>), and that the
  32-bit counter of attachments has not wrapped.\<close>

theorem registry_is_well_formed:
  assumes "dm_reach D" "lookup (dm_reg D) k = Some s"
  shows "s_name s = k \<and> (\<forall>(aid, a) \<in> set (s_attachments s). at_attach_id a = aid \<and> aid \<noteq> 0 \<and>
      (at_pubkey a \<noteq> [] \<longrightarrow> at_pubkey a \<in> set (s_peer_ids s))) \<and>
    distinct (map fst (s_attachments s)) \<and> distinct (s_peer_ids s) \<and> (live s \<longrightarrow> s_child_pid s > 0) \<and>
    (\<forall>j t. lookup (dm_reg D) j = Some t \<longrightarrow> aids s \<inter> aids t \<noteq> {} \<longrightarrow> j = k) \<and> length (rg_recent (dm_reg D)) \<le> 50"
proof -
  have "reg_inv (dm_reg D)" using dm_reach_ok [OF assms(1)] by (simp add: dm_ok_def)
  from reg_inv_session [OF this assms(2)] show ?thesis .
qed

text \<open>An answer \<open>ECHILD\<close> makes the watchdog forget the process of a session that it leaves attached.\<close>

lemma watchdog_forgets_the_process:
  assumes "lookup (dm_reg D) k = Some s" "\<not> s_hosted s" "s_child_pid s > 0" "s_state s = Attached"
    and "cn_session (dm_conns D ! i) = Some k" "cn_exec_busy (dm_conns D ! i)"
  shows "\<exists>t. lookup (dm_reg (stale_exec WaitEchild i D)) k = Some t \<and> s_state t = Attached \<and> s_child_pid t = -1"
  using assms by (simp add: stale_exec_def watched_session_def Let_def)

text \<open>C7. No connection ever points to a session that is gone: whatever the peers send, and whatever
  the daemon kills, reaps or prunes, the session of every connection is an entry of the registry
  under its own name. (The assumptions are those of C6.)\<close>

theorem connections_never_dangle:
  assumes "dm_reach D" "c \<in> set (dm_conns D)" "cn_session c = Some k"
  shows "\<exists>s. lookup (dm_reg D) k = Some s \<and> s_name s = k"
proof -
  have "dm_ok D" using dm_reach_ok [OF assms(1)] .
  with assms(2,3) obtain s where s: "lookup (dm_reg D) k = Some s" "reg_inv (dm_reg D)"
    by (force simp: dm_ok_def conns_ok_def)
  with inv_session [OF s(2,1)] show ?thesis by (simp add: session_ok_def)
qed

section \<open>Signals\<close>

text \<open>The first arguments of the calls of \<open>kill\<close> that an effect makes: ending a worker returns at once when
  its process is not known, and the destructor of a session signals the process group of its child.\<close>

definition kill_args :: "reg_effect \<Rightarrow> int list" where
  "kill_args e =
     (case e of
        EffSignal p sig \<Rightarrow> [p]
      | EffTerminate p \<Rightarrow> if p \<le> 0 then [] else [p]
      | EffKillGroup p \<Rightarrow> [- p]
      | _ \<Rightarrow> [])"

definition kill_targets :: "dm_effect \<Rightarrow> int list" where
  "kill_targets e = (case e of DReg f \<Rightarrow> kill_args f | DKill p sig \<Rightarrow> [p] | _ \<Rightarrow> [])"

text \<open>The three calls that go to a process group.\<close>

definition group_kill :: "int \<Rightarrow> dm_effect \<Rightarrow> bool" where
  "group_kill p e \<longleftrightarrow> e = DReg (EffKillGroup p) \<or> e = DKill (- p) SIGHUP \<or> e = DKill (- p) SIGTERM"

definition aimed :: "dm_effect \<Rightarrow> bool" where
  "aimed e \<longleftrightarrow> (\<forall>q \<in> set (kill_targets e). q > 0 \<or> (\<exists>p > 0. q = - p \<and> group_kill p e))"

lemma aimed_simps [simp]:
  "aimed (DSend i m)" "aimed (DPty k w)" "aimed (DResize f c v)" "aimed (DFan k g)" "aimed DUndefined"
  "p > 0 \<Longrightarrow> aimed (DKill p sig)" "p > 0 \<Longrightarrow> aimed (DKill (- p) SIGHUP)" "p > 0 \<Longrightarrow> aimed (DKill (- p) SIGTERM)"
  by (simp_all add: aimed_def kill_targets_def group_kill_def)


lemma list_all_aimed_fan [simp]: "list_all aimed (map (DFan k) fs)"
  by (simp add: list_all_iff)














section \<open>Spectators\<close>

text \<open>What acts on the processes of a session: bytes for its terminal, signals, and the commands
  that end it or its worker.\<close>

definition controls :: "dm_effect \<Rightarrow> bool" where
  "controls e \<longleftrightarrow>
     (case e of
        DPty k w \<Rightarrow> True
      | DKill p sig \<Rightarrow> True
      | DReg (EffSignal p sig) \<Rightarrow> True
      | DReg (EffTerminate p) \<Rightarrow> True
      | DReg (EffKillGroup p) \<Rightarrow> True
      | DReg (EffShutdown k) \<Rightarrow> True
      | DReg (EffStopUnit k) \<Rightarrow> True
      | _ \<Rightarrow> False)"

definition detach_signal_of :: "Session \<Rightarrow> dm_effect" where
  "detach_signal_of s = DReg (EffSignal (s_child_pid s) (resolve_detach_signal (s_detach_signal s)))"

lemma geometry_effects:
  "apply_min_geometry E s = (t, fx) \<Longrightarrow> s_child_pid t = s_child_pid s \<and> s_detach_signal t = s_detach_signal s \<and>
     (\<forall>e \<in> set fx. \<not> controls (DReg e))"
  by (auto simp: apply_min_geometry_def worker_queue_frame_def controls_def split: if_splits prod.splits)

lemma leave_effects:
  "leave_session s = (t, fx) \<Longrightarrow> e \<in> set fx \<Longrightarrow> s_detach_signal s \<noteq> [] \<and> DReg e = detach_signal_of s"
  by (auto simp: leave_session_def detach_signal_of_def Let_def split: if_splits)

lemma drop_attachment_effects:
  assumes "drop_attachment E aid s = (t, fx)" "e \<in> set fx" "controls (DReg e)"
  shows "s_detach_signal s \<noteq> [] \<and> DReg e = detach_signal_of s"
proof -
  define pk where "pk = (case map_of (s_attachments s) aid of Some a \<Rightarrow> at_pubkey a | None \<Rightarrow> [])"
  obtain s1 gx where g: "apply_min_geometry E (s\<lparr>s_attachments := map_del aid (s_attachments s)\<rparr>) = (s1, gx)" by fastforce
  obtain hx where l: "settle (forget_peer pk s1) = (t, hx)" "fx = gx @ hx"
    using assms(1) g by (auto simp: drop_attachment_def Let_def pk_def [symmetric] split: prod.splits)
  note g' = geometry_effects [OF g]
  with assms(2,3) l have e: "e \<in> set hx" by auto
  then have "leave_session (forget_peer pk s1) = (t, hx)" using l(1) by (auto simp: settle_def split: if_splits)
  from leave_effects [OF this e] g' show ?thesis by (simp add: detach_signal_of_def forget_peer_def split: if_splits)
qed

lemma detach_effects:
  assumes "e \<in> set (snd (detach_connection_session E i repl D))" "controls e"
  shows "\<exists>(j, s) \<in> set (rg_sessions (dm_reg D)). s_detach_signal s \<noteq> [] \<and> e = detach_signal_of s"
proof -
  let ?c = "dm_conns D ! i"
  consider (one) R b fx f where "detach_attachment E (cn_attach_id ?c) (dm_reg D) = (b, R, fx)" "f \<in> set fx" "e = DReg f"
    | (all) k R b fx f where "detach_all k (dm_reg D) = (b, R, fx)" "f \<in> set fx" "e = DReg f"
    using assms(1) by (fastforce simp: detach_connection_session_def Let_def split: option.splits prod.splits if_splits)
  then show ?thesis
  proof cases
    case one
    then obtain k s where s: "session_by_attach_id (cn_attach_id ?c) (dm_reg D) = Some (k, s)"
      by (auto simp: detach_attachment_def split: option.splits)
    obtain t gx where d: "drop_attachment E (cn_attach_id ?c) s = (t, gx)" by fastforce
    with one s have "f \<in> set gx" by (auto simp: detach_attachment_def)
    from drop_attachment_effects [OF d this] assms(2) one(3) have "s_detach_signal s \<noteq> [] \<and> e = detach_signal_of s" by simp
    moreover have "(k, s) \<in> set (rg_sessions (dm_reg D))"
      using s unfolding session_by_attach_id_def find_Some_iff by (metis nth_mem)
    ultimately show ?thesis by blast
  next
    case all
    then obtain s where s: "lookup (dm_reg D) k = Some s" by (auto simp: detach_all_def split: option.splits)
    with all have "\<exists>t. leave_session (s\<lparr>s_attachments := [], s_peer_ids := []\<rparr>) = (t, fx)"
      by (auto simp: detach_all_def split: prod.splits)
    with leave_effects [OF _ all(2)] all(3) have "s_detach_signal s \<noteq> [] \<and> e = detach_signal_of s"
      by (fastforce simp: detach_signal_of_def)
    moreover have "(k, s) \<in> set (rg_sessions (dm_reg D))" using s unfolding lookup_def by (rule map_of_SomeD)
    ultimately show ?thesis by blast
  qed
qed

lemma resize_no_controls: "e \<in> set (snd (handle_resize E i r D)) \<Longrightarrow> \<not> controls e"
proof -
  have "\<not> controls (DReg e)" if "set_attachment_geometry E aid c w R = (R', fx)" "e \<in> set fx" for aid c w R R' fx e
    using that by (auto simp: set_attachment_geometry_def Let_def split: prod.splits option.splits dest: geometry_effects)
  moreover have "\<not> controls (DReg (EffWorkerBytes k w))" "\<not> controls (DResize f c v)" for k w f c v
    by (simp_all add: controls_def)
  ultimately show "e \<in> set (snd (handle_resize E i r D)) \<Longrightarrow> \<not> controls e"
    by (auto simp: handle_resize_def Let_def split: option.splits prod.splits if_splits)
qed

text \<open>C13. What a spectator of a session can do with it by any message other than a clipboard message (C14) and
  another attach: no byte goes to a terminal, nothing is ended and no process is signalled, except
  that its detach sends the signal that was requested for a detach of a session, to the process of
  that session; and the keys it types change nothing at all. (A spectator may have requested that signal
  itself when it attached, see \<open>attach_requests_the_signal\<close>, and its resize changes the size of
  the terminal.)\<close>

theorem spectator_only_reads:
  assumes "cn_spectator (dm_conns D ! i)" "cn_session (dm_conns D ! i) = Some k"
    and "\<And>cb. m \<noteq> MClipboard cb" "\<And>a. m \<noteq> MAttach a"
  shows "(\<forall>e \<in> set (snd (handle_session_message E ws i m D)). controls e \<longrightarrow>
      m = MDetach \<and> (\<exists>(j, s) \<in> set (rg_sessions (dm_reg D)). s_detach_signal s \<noteq> [] \<and> e = detach_signal_of s)) \<and>
    (\<forall>ks. m = MKeystroke ks \<longrightarrow> handle_session_message E ws i m D = (D, []))"
proof -
  have send: "\<not> controls (DSend i x)" for x by (simp add: controls_def)
  have "handle_session_message E ws i m D = (D, []) \<or> (\<exists>x. handle_session_message E ws i m D = (D, [DSend i x])) \<or>
      (\<exists>r. m = MResize r) \<or> m = MDetach"
    using assms by (cases m) (auto simp: handle_session_message_def handle_keystroke_def handle_signal_def Let_def)
  moreover have "handle_session_message E ws i (MKeystroke ks) D = (D, [])" for ks
    using assms(1) by (simp add: handle_session_message_def handle_keystroke_def)
  moreover have "\<exists>(j, s) \<in> set (rg_sessions (dm_reg D)). s_detach_signal s \<noteq> [] \<and> e = detach_signal_of s"
    if "e \<in> set (snd (handle_session_message E ws i MDetach D))" "controls e" for e
    using that detach_effects assms(2) by (auto simp: handle_session_message_def handle_detach_def)
  moreover have "\<not> controls e" if "e \<in> set (snd (handle_session_message E ws i (MResize r) D))" for e r
    using that resize_no_controls by (simp add: handle_session_message_def)
  ultimately show ?thesis using send by auto
qed

text \<open>The signal for a detach is recorded for a spectator as for anybody else.\<close>

lemma attach_requests_the_signal:
  assumes "attach_connection E (att_session_name a) (resolve_session_command (dm_commands D) (dm_shell D) (att_session_name a) (att_command a))
      (att_cols a) (att_rows a) (att_term a) (cn_pubkey (dm_conns D ! i)) (att_spectator a) (att_reconnect_only a) (dm_reg D)
      = (Some (aid, cols, rows), R, fx)"
    and "lookup R (att_session_name a) = Some s" "att_signal_on_detach a \<noteq> []"
  shows "\<exists>t. lookup (dm_reg (fst (attach_local E i a D))) (att_session_name a) = Some t \<and>
    s_detach_signal t = att_signal_on_detach a \<and> s_child_pid t = s_child_pid s"
  using assms by (simp add: attach_local_def Let_def request_detach_signal_def)

text \<open>C14. The clipboard is the gap: a spectator's clipboard message is pasted into the terminal of the
  session like a user's, so a spectator can type what it likes into it.\<close>

theorem spectator_pastes_into_session:
  assumes "cn_spectator (dm_conns D ! i)" "cn_session (dm_conns D ! i) = Some k" "lookup (dm_reg D) k = Some s"
    and "\<not> s_hosted s" "is_valid s" "s_pending_input s = []" "\<not> s_input_backpressured s"
    and "re_take E k = [SwWrote (length (bracketed_paste (clip_text cb)))]"
  shows "DPty k (bracketed_paste (clip_text cb)) \<in> set (snd (handle_session_message E ws i (MClipboard cb) D))"
proof -
  let ?p = "bracketed_paste (clip_text cb)"
  have ne: "?p \<noteq> []" by (simp add: bracketed_paste_def bytes_of_string_def)
  have "pty_write p [SwWrote (length p)] = ([], p, False)" if "p \<noteq> []" for p :: bytes
    using that by (cases p) (simp_all del: length_Cons)
  from this [OF ne] have "\<exists>t. write_pty_input s ?p (re_take E k) = (True, t, ?p)"
    using assms(4-8) ne by (simp add: write_pty_input_def kPtyInputHighWater_def write_new_def)
  with assms(2,3,5) show ?thesis
    by (auto simp: handle_session_message_def handle_clipboard_def type_input_def Let_def)
qed

section \<open>Attachments that outlive their connection\<close>

text \<open>Two connections with the same key share a session. When the first leaves, its attachment is
  left behind because the other one counts as its replacement; when the other leaves too, no
  connection has the session, but it still counts as attached, with the first connection's
  terminal in its geometry. Only the end or the replacement of the session removes that attachment.\<close>

theorem same_key_connections_leave_an_attachment:
  assumes "reg_inv (dm_reg D)" "lookup (dm_reg D) k = Some s" "s_state s = Attached"
    and "i < length (dm_conns D)" "j < length (dm_conns D)" "i \<noteq> j"
    and "cn_session (dm_conns D ! i) = Some k" "cn_session (dm_conns D ! j) = Some k"
    and "cn_open (dm_conns D ! j)" "cn_pubkey (dm_conns D ! i) = cn_pubkey (dm_conns D ! j)"
    and "cn_attach_id (dm_conns D ! i) = a" "cn_attach_id (dm_conns D ! j) = b" "a \<noteq> b"
    and "a \<in> aids s" "b \<in> aids s"
    and "\<And>l. l < length (dm_conns D) \<Longrightarrow> l \<noteq> i \<Longrightarrow> l \<noteq> j \<Longrightarrow> cn_session (dm_conns D ! l) \<noteq> Some k"
    and "handle_detach E i D = (D1, fx)" "handle_detach F j D1 = (D2, gx)"
  shows "\<exists>t. lookup (dm_reg D2) k = Some t \<and> s_state t = Attached \<and> a \<in> aids t \<and>
    (\<forall>c \<in> set (dm_conns D2). cn_session c \<noteq> Some k)"
proof -
  let ?ci = "(dm_conns D ! i)\<lparr>cn_session := None, cn_attach_id := 0, cn_spectator := False\<rparr>"
  let ?cj = "(dm_conns D ! j)\<lparr>cn_session := None, cn_attach_id := 0, cn_spectator := False\<rparr>"
  have r: "has_replacement_transport D i"
    using assms(5-10) by (auto simp: has_replacement_transport_def Let_def list_ex_iff)
  have D1: "D1 = set_conn i ?ci D"
    using assms(7,17) r by (simp add: handle_detach_def detach_connection_session_def Let_def)
  have r1: "\<not> has_replacement_transport D1 j"
    using assms(4-8,16) by (auto simp: has_replacement_transport_def Let_def list_ex_iff D1 nth_list_update)
  have b0: "b \<noteq> 0" using assms(1,2,15) inv_session [OF assms(1,2)] by (auto simp: session_ok_def attachments_ok_def aids_def)
  note sb = session_by_attach_id_eq [OF assms(1,2,15)]
  obtain rem R hx where d: "detach_attachment F b (dm_reg D) = (rem, R, hx)" by (metis prod_cases3)
  have D2: "dm_reg D2 = R" "dm_conns D2 = (dm_conns D1)[j := ?cj]"
    using assms(6,8,12,18) r1 sb b0 d
    by (auto simp: handle_detach_def detach_connection_session_def Let_def D1)
  from detach_removes_one_attachment [OF assms(1,2,15,3) d] obtain t where t: "lookup R k = Some t"
    "s_attachments t = filter (\<lambda>e. fst e \<noteq> b) (s_attachments s)" "s_state t = (if s_attachments t \<noteq> [] then Attached else Detached)"
    by auto
  have "a \<in> aids t" using assms(13,14) by (force simp: aids_def t(2))
  moreover from this have "s_state t = Attached" using t(3) by (auto simp: aids_def)
  moreover have "cn_session c \<noteq> Some k" if "c \<in> set (dm_conns D2)" for c
  proof -
    from that obtain l where l: "l < length (dm_conns D)" "c = (dm_conns D)[i := ?ci, j := ?cj] ! l"
      by (auto simp: D2 D1 in_set_conv_nth)
    with assms(4,5) assms(16) [OF l(1)] show ?thesis by (auto simp: nth_list_update split: if_splits)
  qed
  ultimately show ?thesis using t(1) D2(1) by blast
qed

text \<open>C15. A connection whose attachment was dropped when its session was replaced evicts, when it
  leaves, everybody who has joined since: the session loses all attachments and counts as
  detached, although another connection still has it.\<close>

theorem stale_connection_evicts_the_others:
  assumes "lookup (dm_reg D) k = Some s" "s_state s = Attached" "i < length (dm_conns D)" "i \<noteq> j"
    and "cn_session (dm_conns D ! i) = Some k" "session_by_attach_id (cn_attach_id (dm_conns D ! i)) (dm_reg D) = None"
    and "cn_session (dm_conns D ! j) = Some k" "cn_attach_id (dm_conns D ! j) \<in> aids s"
    and "\<not> has_replacement_transport D i" "handle_detach E i D = (D1, fx)"
  shows "\<exists>t. lookup (dm_reg D1) k = Some t \<and> s_attachments t = [] \<and> s_peer_ids t = [] \<and> s_state t = Detached \<and>
    cn_session (dm_conns D1 ! j) = Some k"
proof -
  obtain t fx' where l: "leave_session (s\<lparr>s_attachments := [], s_peer_ids := []\<rparr>) = (t, fx')" by fastforce
  then have t: "s_attachments t = []" "s_peer_ids t = []" "s_state t = Detached"
    using assms(2) by (auto simp: leave_session_def)
  have "dm_reg D1 = put k t (dm_reg D)" "dm_conns D1 ! j = dm_conns D ! j"
    using assms(1,3-6,9,10) l
    by (auto simp: handle_detach_def detach_connection_session_def Let_def detach_all_def)
  with t assms(7) show ?thesis by simp
qed

section \<open>Restarting the process of a session\<close>

text \<open>A restart signals a process that no longer exists: when the child ends after SIGTERM, its
  end is collected and later waits fail as documented, and then SIGKILL goes to its identifier,
  which the system may have given to another process.\<close>

theorem restart_kills_a_collected_process:
  assumes "n < 30" "s_child_pid s > 0" "\<not> s_hosted s" "is_valid s"
    and "ws = replicate n WaitNone @ WaitStatus st # replicate m WaitEchild"
    and "cn_session (dm_conns D ! i) = Some k" "lookup (dm_reg D) k = Some s" "\<not> cn_spectator (dm_conns D ! i)"
  shows "DKill (s_child_pid s) SIGKILL \<in> set (snd (handle_signal E ws i \<lparr>sig_signal = SIG_Restart, sig_process = []\<rparr> D))"
proof -
  have "poll_child (n + d) (replicate n WaitNone @ WaitStatus st # us) = us" if "d > 0" for d us
    using that by (induction n) (cases d; simp)+
  from this [of "30 - n" "replicate m WaitEchild"] assms(1,5) have "poll_child 30 ws = replicate m WaitEchild" by simp
  then have "DKill (s_child_pid s) SIGKILL \<in> set (stop_child (s_child_pid s) ws)"
    by (cases m) (simp_all add: stop_child_def)
  moreover have "SIG_Restart \<noteq> SIG_Kill" by (simp add: SIG_Restart_def SIG_Kill_def)
  ultimately show ?thesis using assms(2-4,6-8)
    by (auto simp: handle_signal_def Let_def restart_session_def split: prod.splits option.splits)
qed


section \<open>Witnesses\<close>

text \<open>A peer connects and attaches to the session of the sample registry.\<close>

definition sample_conn :: "u32 \<Rightarrow> conn_state" where
  "sample_conn aid = (new_conn ''p'' ''pk'')\<lparr>cn_session := Some ''w'', cn_attach_id := aid\<rparr>"

definition sample_daemon :: daemon where
  "sample_daemon = (new_daemon [] [] ''n'' (\<lambda>_. None) ''sh'' 100)\<lparr>dm_reg := sample_registry, dm_conns := [sample_conn 1]\<rparr>"

definition sample_attach_msg :: AttachMsg where
  "sample_attach_msg = \<lparr>att_session_name = ''w'', att_routing = [], att_cols = 80, att_rows = 24, att_term = ''xterm'',
     att_command = ''sh'', att_signal_on_detach = [], att_client_instance_id = 0, att_spectator = False, att_reconnect_only = False\<rparr>"

lemma sample_daemon_reach: "dm_reach sample_daemon"
proof -
  let ?D0 = "new_daemon [] [] ''n'' (\<lambda>_. None) ''sh'' 100"
  have "dm_reach (fst (dm_step (DmAccept ''p'' ''pk'') ?D0))"
    by (rule dm_reach.step [OF dm_reach.start]) (simp_all add: new_daemon_def new_registry_def)
  then have "dm_reach (?D0\<lparr>dm_conns := [new_conn ''p'' ''pk'']\<rparr>)" by (simp add: new_daemon_def)
  from dm_reach.step [OF this, of "DmMessage (reg_sample_env 5) [] 0 (MAttach sample_attach_msg)"]
  have "dm_reach (fst (handle_attach (reg_sample_env 5) 0 sample_attach_msg (?D0\<lparr>dm_conns := [new_conn ''p'' ''pk'']\<rparr>)))"
    by (simp add: reg_sample_env_ok handle_session_message_def new_conn_def) (simp add: new_daemon_def new_registry_def)
  moreover have "fst (handle_attach (reg_sample_env 5) 0 sample_attach_msg (?D0\<lparr>dm_conns := [new_conn ''p'' ''pk'']\<rparr>)) = sample_daemon"
    by (simp add: handle_attach_def sample_attach_msg_def attach_local_def resolve_session_command_def new_conn_def
        sample_attach_run request_detach_signal_def Let_def sample_daemon_def sample_conn_def set_conn_def new_daemon_def)
  ultimately show ?thesis by simp
qed

lemma sample_daemon_simps [simp]:
  "dm_reg sample_daemon = sample_registry" "dm_conns sample_daemon = [sample_conn 1]"
  "cn_session (sample_conn a) = Some ''w''" "cn_spectator (sample_conn a) = False" "cn_attach_id (sample_conn a) = a"
  "cn_pubkey (sample_conn a) = ''pk''" "cn_open (sample_conn a)"
  by (simp_all add: sample_daemon_def sample_conn_def new_conn_def)

lemma connections_never_dangle_witness: "\<exists>s. lookup (dm_reg sample_daemon) ''w'' = Some s \<and> s_name s = ''w''"
  using connections_never_dangle [OF sample_daemon_reach, of "sample_conn 1" "''w''"] by simp

definition spectator_daemon :: daemon where
  "spectator_daemon = sample_daemon\<lparr>dm_conns := [(sample_conn 1)\<lparr>cn_spectator := True\<rparr>]\<rparr>"

lemma registry_is_well_formed_witness:
  "list_all (\<lambda>(aid, a). at_attach_id a = aid \<and> at_pubkey a \<in> set (s_peer_ids sample_session)) (s_attachments sample_session)"
  using registry_is_well_formed [OF sample_daemon_reach, of "''w''" sample_session] by simp





lemma spectator_only_reads_witness:
  "handle_session_message (reg_sample_env 9) [] 0 (MKeystroke \<lparr>ks_data = ''rm''\<rparr>) spectator_daemon = (spectator_daemon, [])"
  using spectator_only_reads [of spectator_daemon 0 "''w''" "MKeystroke \<lparr>ks_data = ''rm''\<rparr>" "reg_sample_env 9" "[]"]
  by (simp add: spectator_daemon_def)

lemma spectator_pastes_into_session_witness:
  "DPty ''w'' (bracketed_paste ''rm'') \<in> set (snd (handle_session_message
     ((reg_sample_env 9)\<lparr>re_take := (\<lambda>_. [SwWrote (length (bracketed_paste ''rm''))])\<rparr>) [] 0
     (MClipboard \<lparr>clip_text = ''rm'', clip_hash = []\<rparr>) spectator_daemon))"
  using spectator_pastes_into_session [of spectator_daemon 0 "''w''" sample_session
      "(reg_sample_env 9)\<lparr>re_take := (\<lambda>_. [SwWrote (length (bracketed_paste ''rm''))])\<rparr>" "\<lparr>clip_text = ''rm'', clip_hash = []\<rparr>" "[]"]
  by (simp add: spectator_daemon_def) (simp add: sample_session_def new_Session_def is_valid_def)

text \<open>The peer attaches a second time over another connection.\<close>

definition two_session :: Session where
  "two_session = sample_session\<lparr>s_last_attach_at := 6, s_attachments := s_attachments sample_session @
     [(2, \<lparr>at_attach_id = 2, at_cols = 100, at_rows = 30, at_spectator = False, at_pubkey = ''pk''\<rparr>)]\<rparr>"

definition two_registry :: registry where
  "two_registry = (put ''w'' two_session sample_registry)\<lparr>rg_next_attach_id := 3\<rparr>"

lemma two_attach_run:
  "attach_connection (reg_sample_env 6) ''w'' \<lparr>rsc_command = ''sh'', rsc_source = ClientOverride\<rparr> 100 30 ''xterm'' ''pk'' False False
     sample_registry = (Some (2, 80, 24), two_registry, [EffResize 7 80 24])"
  by (simp add: attach_connection_def session_name_ok_def session_for_attach_def live_def take_attach_id_def add_peer_def
      min_geometry_def apply_min_geometry_def code_of_def Let_def two_registry_def put_def)
    (simp add: sample_registry_def sample_session_def new_Session_def new_registry_def reg_sample_env_def two_session_def)

lemma two_inv: "reg_inv two_registry"
  using inv_attach [OF two_attach_run sample_inv reg_sample_env_ok] by simp

definition two_daemon :: daemon where
  "two_daemon = sample_daemon\<lparr>dm_reg := two_registry, dm_conns := [sample_conn 1, sample_conn 2]\<rparr>"

lemma two_lookup: "lookup two_registry ''w'' = Some two_session"
  by (simp add: two_registry_def)

lemma same_key_connections_leave_an_attachment_witness:
  "\<exists>t. lookup (dm_reg (fst (handle_detach (reg_sample_env 9) 1 (fst (handle_detach (reg_sample_env 8) 0 two_daemon))))) ''w'' = Some t \<and>
     s_state t = Attached \<and> 1 \<in> aids t"
proof -
  obtain D1 fx where 1: "handle_detach (reg_sample_env 8) 0 two_daemon = (D1, fx)" by fastforce
  obtain D2 gx where 2: "handle_detach (reg_sample_env 9) 1 D1 = (D2, gx)" by fastforce
  from same_key_connections_leave_an_attachment [of two_daemon "''w''" two_session 0 1 1 2, OF _ _ _ _ _ _ _ _ _ _ _ _ _ _ _ _ 1 2]
  have "\<exists>t. lookup (dm_reg D2) ''w'' = Some t \<and> s_state t = Attached \<and> 1 \<in> aids t"
    by (simp add: two_daemon_def two_inv two_lookup less_Suc_eq) (auto simp: two_session_def aids_def)
  with 1 2 show ?thesis by simp
qed

text \<open>The session was replaced after connection 0 attached; connection 1 of another peer has it now.\<close>

definition stale_daemon :: daemon where
  "stale_daemon = sample_daemon\<lparr>dm_reg := put ''w'' (sample_session\<lparr>s_attachments :=
     [(2, \<lparr>at_attach_id = 2, at_cols = 80, at_rows = 24, at_spectator = False, at_pubkey = ''other''\<rparr>)]\<rparr>) sample_registry,
     dm_conns := [sample_conn 1, (sample_conn 2)\<lparr>cn_pubkey := ''other''\<rparr>]\<rparr>"

lemma stale_connection_evicts_the_others_witness:
  "\<exists>t. lookup (dm_reg (fst (handle_detach (reg_sample_env 9) 0 stale_daemon))) ''w'' = Some t \<and> s_attachments t = [] \<and> s_state t = Detached"
proof -
  obtain D1 fx where 1: "handle_detach (reg_sample_env 9) 0 stale_daemon = (D1, fx)" by fastforce
  have "session_by_attach_id 1 (dm_reg stale_daemon) = None"
    by (simp add: stale_daemon_def session_by_attach_id_def put_def) (simp add: sample_registry_def)
  with stale_connection_evicts_the_others [of stale_daemon "''w''" _ 0 1, OF _ _ _ _ _ _ _ _ _ 1] 1 show ?thesis
    by (auto simp: stale_daemon_def aids_def has_replacement_transport_def Let_def)
qed

lemma restart_kills_a_collected_process_witness:
  "DKill 4242 SIGKILL \<in> set (snd (handle_signal (reg_sample_env 9) [WaitNone, WaitStatus (WIfExited 0), WaitEchild] 0
     \<lparr>sig_signal = SIG_Restart, sig_process = []\<rparr> sample_daemon))"
  using restart_kills_a_collected_process [of 1 sample_session "[WaitNone, WaitStatus (WIfExited 0), WaitEchild]" "WIfExited 0" 1
      sample_daemon 0 "''w''" "reg_sample_env 9"]
  by simp (simp add: sample_session_def new_Session_def is_valid_def)

end
