(* ===== verification/Trust.thy ===== *)
theory Trust
  imports Peer_Names
begin

text \<open>
  Whom a node trusts: the authorized keys file and the decision of the certificate callbacks (bs-tls.h),
  the pinned keys of the configured peers, and the checks that bind the certificate, the pin and the
  Hello of a peer (bs-config.h). What OpenSSL gives (the raw key of a certificate, signatures) is an
  argument.
\<close>

section \<open>Keys in hexadecimal\<close>

definition nibble :: "char \<Rightarrow> nat option" where
  "nibble c =
     (if is_digit c then Some (code_of c - 48)
      else if 97 \<le> code_of c \<and> code_of c \<le> 102 then Some (code_of c - 97 + 10)
      else if 65 \<le> code_of c \<and> code_of c \<le> 70 then Some (code_of c - 65 + 10)
      else None)"

fun hex_bytes :: "string \<Rightarrow> bytes option" where
  "hex_bytes (h # l # cs) =
     (case (nibble h, nibble l) of
        (Some a, Some b) \<Rightarrow> map_option (\<lambda>r. word_of_nat (a * 16 + b) # r) (hex_bytes cs)
      | _ \<Rightarrow> None)"
| "hex_bytes _ = Some []"

definition hex_decode :: "string \<Rightarrow> bytes" where
  "hex_decode hex =
     (if length hex mod 2 \<noteq> 0 then [] else case hex_bytes hex of Some b \<Rightarrow> b | None \<Rightarrow> [])"

definition pubkey_hex :: "bytes \<Rightarrow> string" where
  "pubkey_hex raw = concat (map (\<lambda>b. [hex_digit (unat b div 16), hex_digit (unat b)]) raw)"

section \<open>The authorized keys file\<close>

text \<open>The file is its content, or \<open>None\<close> when it cannot be opened.\<close>

record AuthorizedKeys =
  ak_keys :: "bytes list"
  ak_file_path :: string

definition strip_back :: "(char \<Rightarrow> bool) \<Rightarrow> string \<Rightarrow> string" where
  "strip_back P s = rev (dropWhile P (rev s))"

definition auth_line :: "string \<Rightarrow> string" where
  "auth_line line =
     (let l1 = takeWhile (\<lambda>c. c \<noteq> CHR ''#'') line;
          l2 = strip_back (\<lambda>c. c \<in> {CHR '' '', CHR 0x09, CHR 0x0D, CHR 0x0A}) l1;
          l3 = dropWhile (\<lambda>c. c \<in> {CHR '' '', CHR 0x09}) l2
      in if is_prefix ''pubkey '' l3 \<or> is_prefix (''pubkey'' @ [CHR 0x09]) l3 then drop 7 l3 else l3)"

definition auth_line_key :: "string \<Rightarrow> bytes option" where
  "auth_line_key line =
     (let l = auth_line line; raw = hex_decode l in
      if l \<noteq> [] \<and> length raw = 32 then Some raw else None)"

definition file_keys :: "string option \<Rightarrow> bytes list" where
  "file_keys content =
     (case content of None \<Rightarrow> [] | Some s \<Rightarrow> List.map_filter auth_line_key (getlines (CHR 0x0A) s))"

definition load_from_file :: "string \<Rightarrow> string option \<Rightarrow> AuthorizedKeys \<Rightarrow> AuthorizedKeys" where
  "load_from_file path content a =
     \<lparr>ak_keys = (if path = [] then [] else file_keys content), ak_file_path = path\<rparr>"

definition reload :: "string option \<Rightarrow> AuthorizedKeys \<Rightarrow> AuthorizedKeys" where
  "reload content a = (if ak_file_path a = [] then a else load_from_file (ak_file_path a) content a)"

definition ak_contains :: "AuthorizedKeys \<Rightarrow> bytes \<Rightarrow> bool" where
  "ak_contains a key \<longleftrightarrow> key \<in> set (ak_keys a)"

text \<open>The exact comparison of lines that the join and enrollment code makes before it appends.\<close>

definition has_auth_line :: "string option \<Rightarrow> string \<Rightarrow> bool" where
  "has_auth_line content pk =
     (case content of
        None \<Rightarrow> False
      | Some s \<Rightarrow> list_ex (\<lambda>l. let l1 = (if l \<noteq> [] \<and> last l = CHR 0x0D then butlast l else l)
                               in l1 = ''pubkey '' @ pk \<or> l1 = pk) (getlines (CHR 0x0A) s))"

text \<open>What becomes of a text that is given to a stream: the file cannot be opened, all of the text arrives, or
  only its beginning does. The code looks at the first alone; the second and the third are success to it.\<close>

datatype write_io = OpenFails | AllWritten | CutAt nat

fun written :: "write_io \<Rightarrow> string \<Rightarrow> string" where
  "written OpenFails t = []"
| "written AllWritten t = t"
| "written (CutAt n) t = take n t"

definition append_auth :: "write_io \<Rightarrow> string option \<Rightarrow> string \<Rightarrow> string" where
  "append_auth io content pk =
     (case content of None \<Rightarrow> [] | Some s \<Rightarrow> s) @ written io (''pubkey '' @ pk @ [CHR 0x0A])"

section \<open>Certificates\<close>

text \<open>\<open>server_cert_verify_cb\<close> on the raw key of the certificate; an empty key is one that OpenSSL
  could not give. The file is read again at every handshake.\<close>

definition server_cert_verify ::
  "string option \<Rightarrow> bytes list \<Rightarrow> bool \<Rightarrow> bytes \<Rightarrow> AuthorizedKeys \<Rightarrow> bool \<times> AuthorizedKeys"
where
  "server_cert_verify content pinned join_open raw a =
     (let a1 = reload content a in
      if raw = [] then (False, a1)
      else (ak_contains a1 raw \<or> raw \<in> set pinned \<or> join_open, a1))"

text \<open>\<open>client_cert_verify_cb\<close>: a pinned key decides alone; without a pin the fingerprint callback
  \<open>tofu\<close> does.\<close>

definition client_cert_verify :: "string \<Rightarrow> bytes \<Rightarrow> bool \<Rightarrow> bool" where
  "client_cert_verify expected raw tofu = (if expected \<noteq> [] then pubkey_hex raw = expected else tofu)"

definition ed25519_verify :: "(bytes \<Rightarrow> string \<Rightarrow> bytes \<Rightarrow> bool) \<Rightarrow> string \<Rightarrow> string \<Rightarrow> bytes \<Rightarrow> bool" where
  "ed25519_verify lib issuer payload signature \<longleftrightarrow>
     signature \<noteq> [] \<and> length (hex_decode issuer) = 32 \<and> lib (hex_decode issuer) payload signature"

section \<open>Pins\<close>

definition rebuild_pinned_seed_keys :: "PeerEntry list \<Rightarrow> bytes list" where
  "rebuild_pinned_seed_keys seeds =
     map (\<lambda>s. hex_decode (pe_pubkey_hex s))
       (filter (\<lambda>s. length (pe_pubkey_hex s) = 64 \<and> length (hex_decode (pe_pubkey_hex s)) = 32) seeds)"

definition is_trusted_pubkey_cached :: "PeerEntry list \<Rightarrow> AuthorizedKeys \<Rightarrow> string \<Rightarrow> bool" where
  "is_trusted_pubkey_cached seeds a pk \<longleftrightarrow>
     pk \<noteq> [] \<and> (list_ex (\<lambda>s. pe_pubkey_hex s = pk) seeds \<or>
       (length (hex_decode pk) = 32 \<and> ak_contains a (hex_decode pk)))"

definition is_trusted_pubkey :: "PeerEntry list \<Rightarrow> string option \<Rightarrow> AuthorizedKeys \<Rightarrow> string \<Rightarrow> bool \<times> AuthorizedKeys" where
  "is_trusted_pubkey seeds content a pk =
     (let a1 = reload content a in (is_trusted_pubkey_cached seeds a1 pk, a1))"

section \<open>The identity of a peer\<close>

definition peer_identity_matches :: "string \<Rightarrow> string \<Rightarrow> bool" where
  "peer_identity_matches expected actual \<longleftrightarrow> expected \<noteq> [] \<and> expected = actual"

definition has_control_char :: "string \<Rightarrow> bool" where
  "has_control_char name \<longleftrightarrow> list_ex (\<lambda>c. code_of c < 0x20 \<or> code_of c = 0x7f) name"

text \<open>The reason of a rejection, or \<open>None\<close>.\<close>

definition verify_outbound_peer_identity :: "string \<Rightarrow> string \<Rightarrow> string \<Rightarrow> string \<Rightarrow> string \<Rightarrow> bool \<Rightarrow> string option" where
  "verify_outbound_peer_identity expected cert hello expected_name hello_name require_pin =
     (if cert = [] then Some ''empty peer certificate public key''
      else if require_pin \<and> expected = [] then Some ''no pinned public key (seed/discovered pubkey= required)''
      else if expected \<noteq> [] \<and> \<not> peer_identity_matches expected cert then Some ''certificate public key does not match pin''
      else if hello = [] then Some ''empty Hello pubkey''
      else if hello \<noteq> cert then Some ''Hello pubkey does not match TLS certificate key''
      else if hello_name = [] then Some ''empty Hello node name''
      else if has_control_char hello_name then Some ''Hello node name contains control characters''
      else if expected_name \<noteq> [] \<and> \<not> config_peer_name_eq expected_name hello_name \<and>
              (expected = [] \<or> \<not> peer_identity_matches expected cert)
           then Some ''Hello node name does not match expected peer name''
      else None)"

definition name_is_taken :: "string \<Rightarrow> string \<Rightarrow> PeerEntry \<Rightarrow> bool" where
  "name_is_taken cert hello_name p \<longleftrightarrow>
     pe_pubkey_hex p \<noteq> [] \<and> config_peer_name_eq (pe_name p) hello_name \<and> pe_pubkey_hex p \<noteq> cert"

definition verify_inbound_peer_identity :: "PeerEntry list \<Rightarrow> PeerEntry list \<Rightarrow> string \<Rightarrow> string \<Rightarrow> string \<Rightarrow> string option" where
  "verify_inbound_peer_identity seeds discovered cert hello hello_name =
     (if cert = [] then Some ''empty peer certificate public key''
      else if hello = [] then Some ''empty Hello pubkey''
      else if hello \<noteq> cert then Some ''Hello pubkey does not match TLS certificate key''
      else if hello_name = [] then Some ''empty Hello node name''
      else if has_control_char hello_name then Some ''Hello node name contains control characters''
      else if list_ex (name_is_taken cert hello_name) seeds
        then Some ''Hello node name is pinned to a different certificate key''
      else if list_ex (\<lambda>p. pe_pubkey_hex p \<noteq> [] \<and> pe_pubkey_hex p = cert \<and> config_peer_name_eq (pe_name p) hello_name) seeds
        then None
      else if list_ex (name_is_taken cert hello_name) discovered
        then Some ''Hello node name is pinned to a different certificate key''
      else None)"

section \<open>Lemmas\<close>

lemma nibble_hex_digit: "n < 16 \<Longrightarrow> nibble (hex_digit n) = Some n"
proof -
  assume "n < 16"
  then have "n \<in> set [0..<16]" by simp
  moreover have "list_all (\<lambda>n. nibble (hex_digit n) = Some n) [0..<16]"
    by (simp add: upt_rec nibble_def hex_digit_def is_digit_def code_of_def)
  ultimately show ?thesis by (simp add: list_all_iff)
qed

lemma hex_digit_mod: "hex_digit n = hex_digit (n mod 16)"
  by (simp add: hex_digit_def)

lemma hex_bytes_pubkey_hex: "hex_bytes (pubkey_hex raw) = Some raw"
proof (induction raw)
  case (Cons b raw)
  have b: "unat b < 256" using unsigned_less [of b] by simp
  have "nibble (hex_digit (unat b div 16)) = Some (unat b div 16)" using b by (intro nibble_hex_digit) simp
  moreover have "nibble (hex_digit (unat b)) = Some (unat b mod 16)"
    by (subst hex_digit_mod) (simp add: nibble_hex_digit)
  ultimately show ?case using Cons by (simp add: pubkey_hex_def)
qed (simp add: pubkey_hex_def)

lemma length_pubkey_hex [simp]: "length (pubkey_hex raw) = 2 * length raw"
  by (induction raw) (simp_all add: pubkey_hex_def)

lemma hex_decode_pubkey_hex [simp]: "hex_decode (pubkey_hex raw) = raw"
  by (simp add: hex_decode_def hex_bytes_pubkey_hex)

lemma hex_digit_class: "is_digit (hex_digit n) \<or> is_lower (hex_digit n)"
proof -
  have "n mod 16 \<in> set [0..<16]" by simp
  moreover have "list_all (\<lambda>n. is_digit (hex_digit n) \<or> is_lower (hex_digit n)) [0..<16]"
    by (simp add: upt_rec hex_digit_def is_digit_def is_lower_def code_of_def)
  ultimately show ?thesis by (metis hex_digit_mod list_all_iff)
qed

lemma pubkey_hex_chars: "c \<in> set (pubkey_hex raw) \<Longrightarrow> is_digit c \<or> is_lower c"
  using hex_digit_class by (auto simp: pubkey_hex_def)

lemma split_on_append_sep: "split_on sep cur (xs @ sep # ys) = split_on sep cur xs @ split_on sep [] ys"
  by (induction xs arbitrary: cur) auto

lemma split_on_free: "sep \<notin> set xs \<Longrightarrow> split_on sep cur xs = [rev cur @ xs]"
  by (induction xs arbitrary: cur) auto

lemma split_on_nonempty [simp]: "split_on sep cur xs \<noteq> []"
  by (induction xs arbitrary: cur) auto

text \<open>A file whose last line is ended.\<close>

definition ends_line :: "string option \<Rightarrow> bool" where
  "ends_line content \<longleftrightarrow> (case content of None \<Rightarrow> True | Some s \<Rightarrow> s = [] \<or> last s = CHR 0x0A)"

lemma getlines_append_line:
  assumes "ends_line (Some s)" "CHR 0x0A \<notin> set t"
  shows "getlines (CHR 0x0A) (s @ t @ [CHR 0x0A]) = getlines (CHR 0x0A) s @ [t]"
proof -
  have line: "split_on (CHR 0x0A) [] (t @ [CHR 0x0A]) = [t, []]"
    using split_on_append_sep [of "CHR 0x0A" "[]" t "[]"] split_on_free [OF assms(2), of "[]"] by simp
  show ?thesis
  proof (cases "s = []")
    case True
    with line show ?thesis by (simp add: getlines_def)
  next
    case False
    define s1 where "s1 = butlast s"
  have l: "last s = CHR 0x0A" using assms(1) False by (simp add: ends_line_def)
  have s: "s = s1 @ [CHR 0x0A]" unfolding s1_def l [symmetric] by (simp add: False)
    have "split_on (CHR 0x0A) [] (s1 @ CHR 0x0A # t @ [CHR 0x0A]) = split_on (CHR 0x0A) [] s1 @ [t, []]"
      using split_on_append_sep [of "CHR 0x0A" "[]" s1 "t @ [CHR 0x0A]"] line by simp
    moreover have "split_on (CHR 0x0A) [] s = split_on (CHR 0x0A) [] s1 @ [[]]"
      using split_on_append_sep [of "CHR 0x0A" "[]" s1 "[]"] s by simp
    ultimately show ?thesis by (simp add: getlines_def s butlast_append)
  qed
qed

lemma strip_back_keeps: "xs = [] \<or> \<not> P (last xs) \<Longrightarrow> strip_back P xs = xs"
  by (cases xs rule: rev_cases) (auto simp: strip_back_def)

lemma pubkey_hex_plain:
  assumes "c \<in> set (pubkey_hex raw)"
  shows "c \<noteq> CHR ''#''" "c \<noteq> CHR '' ''" "c \<noteq> CHR 0x09" "c \<noteq> CHR 0x0D" "c \<noteq> CHR 0x0A"
  using pubkey_hex_chars [OF assms] by (auto simp: is_digit_def is_lower_def code_of_def)

lemma auth_line_pubkey:
  assumes "CHR ''#'' \<notin> set t" "t \<noteq> []" "last t \<notin> {CHR '' '', CHR 0x09, CHR 0x0D, CHR 0x0A}"
  shows "auth_line (''pubkey '' @ t) = t"
proof -
  have c: "takeWhile (\<lambda>c. c \<noteq> CHR ''#'') (''pubkey '' @ t) = ''pubkey '' @ t"
    using assms(1) by (subst takeWhile_eq_all_conv) auto
  have b: "strip_back (\<lambda>c. c \<in> {CHR '' '', CHR 0x09, CHR 0x0D, CHR 0x0A}) (''pubkey '' @ t) = ''pubkey '' @ t"
    using assms(2,3) by (intro strip_back_keeps) simp
  show ?thesis unfolding auth_line_def Let_def c b by (simp add: is_prefix_def)
qed

lemma pubkey_hex_Nil_iff [simp]: "pubkey_hex raw = [] \<longleftrightarrow> raw = []"
  by (cases raw) (simp_all add: pubkey_hex_def)

lemma last_pubkey_hex: "raw \<noteq> [] \<Longrightarrow> last (pubkey_hex raw) \<notin> {CHR '' '', CHR 0x09, CHR 0x0D, CHR 0x0A}"
  using pubkey_hex_plain [of "last (pubkey_hex raw)" raw] by simp

lemma auth_line_of_join: "raw \<noteq> [] \<Longrightarrow> auth_line (''pubkey '' @ pubkey_hex raw) = pubkey_hex raw"
  using pubkey_hex_plain(1) last_pubkey_hex by (intro auth_line_pubkey) auto

lemma auth_line_key_of_join: "length raw = 32 \<Longrightarrow> auth_line_key (''pubkey '' @ pubkey_hex raw) = Some raw"
  using auth_line_of_join [of raw] by (cases "raw = []") (simp_all add: auth_line_key_def)

lemma getlines_append_open:
  assumes "ends_line (Some s)" "CHR 0x0A \<notin> set t" "t \<noteq> []"
  shows "getlines (CHR 0x0A) (s @ t) = getlines (CHR 0x0A) s @ [t]"
proof (cases "s = []")
  case True
  with assms(2,3) show ?thesis by (simp add: getlines_def split_on_free)
next
  case False
  define s1 where "s1 = butlast s"
  have l: "last s = CHR 0x0A" using assms(1) False by (simp add: ends_line_def)
  have s: "s = s1 @ [CHR 0x0A]" unfolding s1_def l [symmetric] by (simp add: False)
  have "split_on (CHR 0x0A) [] (s1 @ CHR 0x0A # t) = split_on (CHR 0x0A) [] s1 @ [t]"
    using split_on_append_sep [of "CHR 0x0A" "[]" s1 t] split_on_free [OF assms(2), of "[]"] by simp
  moreover have "split_on (CHR 0x0A) [] s = split_on (CHR 0x0A) [] s1 @ [[]]"
    using split_on_append_sep [of "CHR 0x0A" "[]" s1 "[]"] s by simp
  ultimately show ?thesis using assms(3) by (simp add: getlines_def s)
qed

lemma file_keys_append_line:
  assumes "ends_line content" "CHR 0x0A \<notin> set t"
  shows "file_keys (Some ((case content of None \<Rightarrow> [] | Some s \<Rightarrow> s) @ t @ [CHR 0x0A]))
    = file_keys content @ (case auth_line_key t of None \<Rightarrow> [] | Some k \<Rightarrow> [k])"
proof (cases content)
  case None
  have "ends_line (Some [])" by (simp add: ends_line_def)
  from getlines_append_line [OF this assms(2)] None show ?thesis
    by (simp add: file_keys_def getlines_def List.map_filter_def split: option.split)
next
  case (Some s)
  with getlines_append_line [of s t] assms show ?thesis
    by (simp add: file_keys_def map_filter_def split: option.split)
qed

text \<open>The same for any text behind an ended line, also one of several lines.\<close>

lemma getlines_append:
  assumes "ends_line (Some s)"
  shows "getlines (CHR 0x0A) (s @ t) = getlines (CHR 0x0A) s @ getlines (CHR 0x0A) t"
proof (cases "s = []")
  case True
  then show ?thesis by (simp add: getlines_def)
next
  case False
  define s1 where "s1 = butlast s"
  have l: "last s = CHR 0x0A" using assms False by (simp add: ends_line_def)
  have s: "s = s1 @ [CHR 0x0A]" unfolding s1_def l [symmetric] by (simp add: False)
  have ne: "split_on (CHR 0x0A) acc t \<noteq> []" for acc by (induction t arbitrary: acc) simp_all
  have "split_on (CHR 0x0A) [] (s1 @ CHR 0x0A # t) = split_on (CHR 0x0A) [] s1 @ split_on (CHR 0x0A) [] t"
    using split_on_append_sep [of "CHR 0x0A" "[]" s1 t] by simp
  moreover have "split_on (CHR 0x0A) [] s = split_on (CHR 0x0A) [] s1 @ [[]]"
    using split_on_append_sep [of "CHR 0x0A" "[]" s1 "[]"] s by simp
  ultimately show ?thesis using ne by (simp add: getlines_def s butlast_append Let_def)
qed

lemma append_auth_whole:
  assumes "ends_line content"
  shows "file_keys (Some (append_auth AllWritten content k)) = file_keys content @ file_keys (Some (''pubkey '' @ k @ [CHR 0x0A]))"
    "ends_line (Some (append_auth AllWritten content k))"
proof -
  show "file_keys (Some (append_auth AllWritten content k)) = file_keys content @ file_keys (Some (''pubkey '' @ k @ [CHR 0x0A]))"
  proof (cases content)
    case None
    then show ?thesis by (simp add: append_auth_def file_keys_def)
  next
    case (Some s)
    with getlines_append [of s "''pubkey '' @ k @ [CHR 0x0A]"] assms show ?thesis
      by (simp add: append_auth_def file_keys_def map_filter_def)
  qed
  show "ends_line (Some (append_auth AllWritten content k))" by (simp add: append_auth_def ends_line_def)
qed

text \<open>A line that arrives in part is an open line: it need not hold the key, and the next key is glued to it.\<close>

lemma cut_append_is_no_key:
  assumes "n < 7" "ends_line content"
  shows "set (file_keys (Some (append_auth (CutAt n) content k))) \<subseteq> set (file_keys content)"
proof -
  let ?t = "take n (''pubkey '' @ k @ [CHR 0x0A])"
  have t: "?t = take n ''pubkey ''" using assms(1) take_append [of n "''pubkey ''" "k @ [CHR 0x0A]"] by (simp del: append.simps)
  have "n \<in> {0, 1, 2, 3, 4, 5, 6}" using assms(1) by auto
  then have "file_keys (Some ?t) = []" unfolding t by (elim insertE emptyE; hypsubst; code_simp)
  moreover have "file_keys (Some (append_auth (CutAt n) content k)) = file_keys content @ file_keys (Some ?t)"
  proof (cases content)
    case None
    then show ?thesis by (simp add: append_auth_def file_keys_def)
  next
    case (Some s)
    with getlines_append [of s ?t] assms(2) show ?thesis
      by (simp add: append_auth_def file_keys_def map_filter_def)
  qed
  ultimately show ?thesis by simp
qed

section \<open>Properties\<close>

text \<open>A key that a join or an enrollment appends to the authorized keys is trusted at the next reading of
  the file, and the keys that were trusted stay trusted, as long as the last line of the file is ended.\<close>

theorem appended_key_is_trusted:
  assumes "length raw = 32" "ends_line content"
  shows "file_keys (Some (append_auth AllWritten content (pubkey_hex raw))) = file_keys content @ [raw]"
proof -
  have "CHR 0x0A \<notin> set (''pubkey '' @ pubkey_hex raw)" using pubkey_hex_plain(5) by fastforce
  from file_keys_append_line [OF assms(2) this] auth_line_key_of_join [OF assms(1)]
  show ?thesis by (simp add: append_auth_def)
qed

lemma appended_key_is_trusted_witness:
  "file_keys (Some (append_auth AllWritten (Some (''# keys'' @ [CHR 0x0A])) (pubkey_hex (replicate 32 7)))) = [replicate 32 7]"
proof -
  have "ends_line (Some (''# keys'' @ [CHR 0x0A]))" by (simp add: ends_line_def)
  moreover have "file_keys (Some (''# keys'' @ [CHR 0x0A])) = []"
    by (simp add: file_keys_def getlines_def map_filter_def auth_line_key_def auth_line_def strip_back_def Let_def is_prefix_def)
  ultimately show ?thesis using appended_key_is_trusted [of "replicate 32 7" "Some (''# keys'' @ [CHR 0x0A])"] by simp
qed

text \<open>When the last line of the file is not ended, appending a key joins it to that line: the key of the
  line is no longer trusted and the new one is not either.\<close>

theorem append_to_open_line_loses_both_keys:
  assumes "length k1 = 32" "length k2 = 32" "ends_line (Some pre)"
  shows "file_keys (Some (pre @ ''pubkey '' @ pubkey_hex k1)) = file_keys (Some pre) @ [k1]
    \<and> file_keys (Some (append_auth AllWritten (Some (pre @ ''pubkey '' @ pubkey_hex k1)) (pubkey_hex k2))) = file_keys (Some pre)"
proof
  let ?l = "''pubkey '' @ pubkey_hex k1"
  have nl: "CHR 0x0A \<notin> set ?l" using pubkey_hex_plain(5) by fastforce
  show "file_keys (Some (pre @ ?l)) = file_keys (Some pre) @ [k1]"
    using getlines_append_open [OF assms(3) nl] auth_line_key_of_join [OF assms(1)]
    by (simp add: file_keys_def map_filter_def)
  let ?t = "pubkey_hex k1 @ ''pubkey '' @ pubkey_hex k2"
  have k2: "k2 \<noteq> []" using assms(2) by auto
  have nl2: "CHR 0x0A \<notin> set (''pubkey '' @ ?t)" using pubkey_hex_plain(5) by fastforce
  have "auth_line (''pubkey '' @ ?t) = ?t"
    using pubkey_hex_plain(1) last_pubkey_hex [OF k2] k2 by (intro auth_line_pubkey) auto
  moreover have "length ?t mod 2 \<noteq> 0" using assms(1,2) by simp
  ultimately have "auth_line_key (''pubkey '' @ ?t) = None"
    by (simp add: auth_line_key_def hex_decode_def)
  with file_keys_append_line [OF assms(3) nl2]
  show "file_keys (Some (append_auth AllWritten (Some (pre @ ?l)) (pubkey_hex k2))) = file_keys (Some pre)"
    by (simp add: append_auth_def)
qed

lemma append_to_open_line_loses_both_keys_witness:
  "file_keys (Some ([] @ ''pubkey '' @ pubkey_hex (replicate 32 1))) = file_keys (Some []) @ [replicate 32 1]
    \<and> file_keys (Some (append_auth AllWritten (Some ([] @ ''pubkey '' @ pubkey_hex (replicate 32 1))) (pubkey_hex (replicate 32 2)))) = file_keys (Some [])"
  by (rule append_to_open_line_loses_both_keys) (simp_all add: ends_line_def)

text \<open>What the checks of a Hello establish.\<close>

lemma verified_outbound:
  assumes "verify_outbound_peer_identity expected cert hello expected_name hello_name require_pin = None"
  shows "cert \<noteq> []" "hello = cert" "expected \<noteq> [] \<or> require_pin \<Longrightarrow> cert = expected" "hello_name \<noteq> []" "\<not> has_control_char hello_name"
    "expected = [] \<Longrightarrow> expected_name \<noteq> [] \<Longrightarrow> config_peer_name_eq expected_name hello_name"
  using assms by (auto simp: verify_outbound_peer_identity_def peer_identity_matches_def split: if_splits)

lemma verified_inbound:
  assumes "verify_inbound_peer_identity seeds discovered cert hello hello_name = None"
  shows "cert \<noteq> []" "hello = cert" "hello_name \<noteq> []" "\<not> has_control_char hello_name"
    "list_all (\<lambda>p. \<not> name_is_taken cert hello_name p) seeds"
  using assms by (auto simp: verify_inbound_peer_identity_def list_ex_iff list_all_iff split: if_splits)

text \<open>C39. With the join window closed a certificate is accepted only when its key is in the authorized keys file
  as it is at that moment, or is a pinned key of a configured seed: a revocation takes effect at the
  next handshake.\<close>

theorem accepted_certificate_is_trusted:
  assumes "fst (server_cert_verify content (rebuild_pinned_seed_keys seeds) False raw a)" "ak_file_path a \<noteq> []"
  shows "raw \<in> set (file_keys content) \<or> list_ex (\<lambda>s. hex_decode (pe_pubkey_hex s) = raw \<and> length raw = 32) seeds"
  using assms
  by (auto simp: server_cert_verify_def reload_def load_from_file_def ak_contains_def rebuild_pinned_seed_keys_def
      list_ex_iff Let_def split: if_splits)

lemma accepted_certificate_is_trusted_witness:
  "replicate 32 (7::byte) \<in> set (file_keys (Some (append_auth AllWritten None (pubkey_hex (replicate 32 7)))))"
proof -
  let ?c = "Some (append_auth AllWritten None (pubkey_hex (replicate 32 7)))"
  let ?a = "\<lparr>ak_keys = [], ak_file_path = ''keys''\<rparr>"
  have nl: "CHR 0x0A \<notin> set (''pubkey '' @ pubkey_hex (replicate 32 7))"
    using pubkey_hex_plain(5) [of _ "replicate 32 7"] by fastforce
  have "ends_line None" by (simp add: ends_line_def)
  from file_keys_append_line [OF this nl] auth_line_key_of_join [of "replicate 32 7"]
  have "file_keys ?c = file_keys None @ [replicate 32 7]" by (simp add: append_auth_def)
  then have "fst (server_cert_verify ?c (rebuild_pinned_seed_keys []) False (replicate 32 7) ?a)"
    by (simp add: server_cert_verify_def reload_def load_from_file_def ak_contains_def)
  from accepted_certificate_is_trusted [OF this] show ?thesis by simp
qed

end
