(* ===== verification/Enrollment.thy ===== *)
theory Enrollment
  imports Trust Versions Messages
begin

text \<open>
  How a mesh gets new members: invites and the join window, the join request, signed directory
  enrollments, and the merging of announced peers (bs-mesh-transfer.h, bs-mesh-conn.h, the INVITE and
  ENROLL commands of bs-mesh-cli.h). Log lines are left out; the frames a handler enqueues are its
  output.
\<close>

section \<open>State\<close>

record PendingInvite =
  iv_token :: string
  iv_created_at :: int
  iv_claimed_by :: string

datatype ConnectionPurpose = PurposeUnknown | PurposeMesh | PurposeDirectSession

text \<open>A connection: \<open>ml_open\<close> is whether its socket is open, times are nanoseconds of the steady clock and 0
  the default time point.\<close>

record MeshLink =
  ml_open :: bool
  ml_purpose :: ConnectionPurpose
  ml_busy :: bool
  ml_pubkey :: string
  ml_version :: string
  ml_fd :: nat
  ml_name :: string
  ml_addr :: string
  ml_outbound :: bool
  ml_hello :: "HelloMsg option"
  ml_close_requested :: bool
  ml_last_pong :: int
  ml_ping_sent :: int
  ml_rtt_ms :: int
  ml_completed :: bool
  ml_suspended :: bool

record mesh =
  ms_node_name :: string
  ms_our_pubkey :: string
  ms_listen_addr :: string
  ms_listen_port :: u16
  ms_seeds :: "PeerEntry list"
  ms_discovered :: "PeerEntry list"
  ms_window_max :: int
  ms_auth_path :: string
  ms_auth_file :: "string option"
  ms_auth :: AuthorizedKeys
  ms_invites :: "PendingInvite list"
  ms_window_opened_at :: int
  ms_join_open :: bool
  ms_expired :: u64
  ms_seen :: "string list"
  ms_pending :: "DirectoryEnrollMsg list"
  ms_generation :: u32
  ms_links :: "MeshLink list"

text \<open>Clocks (nanoseconds and unix seconds), the private key and OpenSSL, and whether the directory of
  the authorized keys can be made, and what becomes of a line that is appended to the file when it has a
  certain content.\<close>

record mesh_env =
  en_now :: int
  en_unix :: u64
  en_sign :: "string \<Rightarrow> bytes"
  en_verify :: "bytes \<Rightarrow> string \<Rightarrow> bytes \<Rightarrow> bool"
  en_dir_ok :: bool
  en_append :: "string option \<Rightarrow> write_io"

definition second_ns :: int where "second_ns = 1000000000"
definition kInviteTtl :: int where "kInviteTtl = 2 * 3600 * second_ns"
definition kMaxPendingEnrolls :: nat where "kMaxPendingEnrolls = 64"

section \<open>Invites\<close>

definition open_join_window :: "int \<Rightarrow> mesh \<Rightarrow> mesh" where
  "open_join_window now S = (if ms_join_open S then S else S\<lparr>ms_join_open := True, ms_window_opened_at := now\<rparr>)"

definition close_join_window :: "mesh \<Rightarrow> mesh" where
  "close_join_window S = (if ms_join_open S then S\<lparr>ms_join_open := False, ms_window_opened_at := 0\<rparr> else S)"

definition drop_invites :: "(PendingInvite \<Rightarrow> bool) \<Rightarrow> mesh \<Rightarrow> mesh" where
  "drop_invites P S =
     S\<lparr>ms_invites := filter (\<lambda>v. \<not> P v) (ms_invites S),
       ms_expired := ms_expired S + word_of_nat (length (filter P (ms_invites S)))\<rparr>"

definition expire_pending_invites :: "int \<Rightarrow> mesh \<Rightarrow> mesh" where
  "expire_pending_invites now S = drop_invites (\<lambda>v. \<not> now - iv_created_at v \<le> kInviteTtl) S"

definition maybe_close_join_window :: "int \<Rightarrow> mesh \<Rightarrow> mesh" where
  "maybe_close_join_window now S0 =
     (let S = expire_pending_invites now S0 in
      if \<not> ms_join_open S then S
      else if ms_window_opened_at S \<noteq> 0 \<and> now - ms_window_opened_at S \<ge> ms_window_max S * second_ns
        then close_join_window (drop_invites (\<lambda>v. iv_claimed_by v = []) S)
      else if list_ex (\<lambda>v. iv_claimed_by v = []) (ms_invites S) then S
      else close_join_window S)"

text \<open>INVITE; \<open>token\<close> is the token of the random generator, or \<open>None\<close> when it fails.\<close>

definition invite :: "int \<Rightarrow> string option \<Rightarrow> mesh \<Rightarrow> mesh \<times> string" where
  "invite now token S =
     (case token of
        None \<Rightarrow> (S, ''ERROR could not generate invite token\<newline>'')
      | Some t \<Rightarrow>
          let S1 = expire_pending_invites now S in
          (open_join_window now
             (S1\<lparr>ms_invites := ms_invites S1 @ [\<lparr>iv_token = t, iv_created_at = now, iv_claimed_by = []\<rparr>]\<rparr>), t @ ''\<newline>''))"

section \<open>Directory enrollments\<close>

definition signed_payload :: "DirectoryEnrollMsg \<Rightarrow> string" where
  "signed_payload e =
     de_name e @ [CHR 0x00] @ de_pubkey_hex e @ [CHR 0x00] @ de_addr e @ [CHR 0x00] @ de_issuer_pubkey e @ [CHR 0x00] @
     dec_digits (unat (de_issued_at e))"

definition make_directory_enroll :: "mesh_env \<Rightarrow> mesh \<Rightarrow> string \<Rightarrow> string \<Rightarrow> string \<Rightarrow> DirectoryEnrollMsg" where
  "make_directory_enroll E S name pk addr =
     (let e = \<lparr>de_name = name, de_pubkey_hex = pk, de_addr = addr, de_issuer_pubkey = ms_our_pubkey S,
               de_issued_at = en_unix E, de_signature = []\<rparr>
      in e\<lparr>de_signature := en_sign E (signed_payload e)\<rparr>)"

definition enroll_id :: "DirectoryEnrollMsg \<Rightarrow> string" where
  "enroll_id e = de_issuer_pubkey e @ ''|'' @ de_pubkey_hex e @ ''|'' @ dec_digits (unat (de_issued_at e))"

definition issuer_is_seed :: "mesh \<Rightarrow> DirectoryEnrollMsg \<Rightarrow> bool" where
  "issuer_is_seed S e \<longleftrightarrow>
     list_ex (\<lambda>s. pe_pubkey_hex s \<noteq> [] \<and> pe_pubkey_hex s = de_issuer_pubkey e) (ms_seeds S) \<or> de_issuer_pubkey e = ms_our_pubkey S"

definition enroll_is_fresh :: "mesh_env \<Rightarrow> DirectoryEnrollMsg \<Rightarrow> bool" where
  "enroll_is_fresh E e \<longleftrightarrow> \<not> (de_issued_at e = 0 \<or> de_issued_at e + 86400 < en_unix E)"

definition knows_key :: "mesh \<Rightarrow> string \<Rightarrow> bool" where
  "knows_key S pk \<longleftrightarrow> list_ex (\<lambda>p. pe_pubkey_hex p = pk) (ms_seeds S @ ms_discovered S)"

definition still_trusted :: "mesh \<Rightarrow> DirectoryEnrollMsg \<Rightarrow> bool" where
  "still_trusted S e \<longleftrightarrow>
     (if ms_auth_path S \<noteq> [] then has_auth_line (ms_auth_file S) (de_pubkey_hex e) else knows_key S (de_pubkey_hex e))"

definition authorize :: "(string option \<Rightarrow> write_io) \<Rightarrow> string \<Rightarrow> mesh \<Rightarrow> mesh option" where
  "authorize wr pk S =
     (let content = ms_auth_file S; io = wr content in
      if has_auth_line content pk then Some S
      else if io = OpenFails then None
      else Some (S\<lparr>ms_auth_file := Some (append_auth io content pk)\<rparr>))"

definition learn_member :: "mesh_env \<Rightarrow> DirectoryEnrollMsg \<Rightarrow> mesh \<Rightarrow> mesh" where
  "learn_member E e S =
     (if \<not> knows_key S (de_pubkey_hex e) \<and> de_name e \<noteq> [] \<and> de_addr e \<noteq> []
      then S\<lparr>ms_discovered := ms_discovered S @
               [\<lparr>pe_name = de_name e, pe_addr = de_addr e, pe_pubkey_hex = de_pubkey_hex e, pe_last_seen = en_unix E\<rparr>],
             ms_generation := ms_generation S + 1\<rparr>
      else S)"

definition remember_seen :: "string \<Rightarrow> mesh \<Rightarrow> mesh" where
  "remember_seen k S = (if k \<in> set (ms_seen S) then S else S\<lparr>ms_seen := ms_seen S @ [k]\<rparr>)"

definition vouched :: "mesh_env \<Rightarrow> DirectoryEnrollMsg \<Rightarrow> mesh \<Rightarrow> bool" where
  "vouched E e S \<longleftrightarrow>
     issuer_is_seed S e \<and> enroll_is_fresh E e \<and>
     ed25519_verify (en_verify E) (de_issuer_pubkey e) (signed_payload e) (de_signature e) \<and>
     de_pubkey_hex e \<noteq> de_issuer_pubkey e"

definition apply_directory_enroll :: "mesh_env \<Rightarrow> DirectoryEnrollMsg \<Rightarrow> mesh \<Rightarrow> bool \<times> mesh" where
  "apply_directory_enroll E e S =
     (if \<not> vouched E e S then (False, S)
      else if enroll_id e \<in> set (ms_seen S) then (still_trusted S e, S)
      else
        case (if ms_auth_path S = [] then Some S
              else map_option (\<lambda>S1. S1\<lparr>ms_auth := load_from_file (ms_auth_path S1) (ms_auth_file S1) (ms_auth S1)\<rparr>)
                     (authorize (en_append E) (de_pubkey_hex e) S)) of
          None \<Rightarrow> (False, S)
        | Some S2 \<Rightarrow> (True, remember_seen (enroll_id e) (learn_member E e S2)))"

definition broadcast_enroll :: "mesh \<Rightarrow> DirectoryEnrollMsg \<Rightarrow> (nat \<times> DirectoryEnrollMsg) list" where
  "broadcast_enroll S e =
     map (\<lambda>i. (i, e))
       (filter (\<lambda>i. let l = ms_links S ! i in
          ml_open l \<and> ml_purpose l = PurposeMesh \<and> \<not> ml_busy l \<and> version_has_cap (ml_version l) kCapEnroll)
        [0..<length (ms_links S)])"

definition remember_pending_enroll :: "DirectoryEnrollMsg \<Rightarrow> mesh \<Rightarrow> mesh" where
  "remember_pending_enroll e S =
     (let q = ms_pending S @ [e] in S\<lparr>ms_pending := drop (length q - kMaxPendingEnrolls) q\<rparr>)"

text \<open>The enrollment a peer sends: applied, and passed on to the other links when it is new.\<close>

definition relay_enroll :: "mesh \<Rightarrow> nat \<Rightarrow> DirectoryEnrollMsg \<Rightarrow> (nat \<times> DirectoryEnrollMsg) list" where
  "relay_enroll S i e =
     map (\<lambda>j. (j, e))
       (filter (\<lambda>j. let l = ms_links S ! j in j \<noteq> i \<and> ml_open l \<and> ml_purpose l = PurposeMesh \<and> \<not> ml_busy l)
        [0..<length (ms_links S)])"

definition dispatch_enroll :: "mesh_env \<Rightarrow> nat \<Rightarrow> DirectoryEnrollMsg \<Rightarrow> mesh \<Rightarrow> mesh \<times> (nat \<times> DirectoryEnrollMsg) list" where
  "dispatch_enroll E i e S =
     (if \<not> version_has_cap (ml_version (ms_links S ! i)) kCapEnroll then (S, [])
      else case apply_directory_enroll E e S of
        (False, S1) \<Rightarrow> (S1, [])
      | (True, S1) \<Rightarrow>
          if enroll_id e \<in> set (ms_seen S1) then (S1, [])
          else let S2 = remember_seen (enroll_id e) S1 in (remember_pending_enroll e S2, relay_enroll S2 i e))"

text \<open>The enrollments a peer is sent when it connects.\<close>

definition replay_enrolls :: "mesh \<Rightarrow> string \<Rightarrow> string \<Rightarrow> DirectoryEnrollMsg list" where
  "replay_enrolls S version peer_pk =
     (if version_has_cap version kCapEnroll then filter (\<lambda>e. de_pubkey_hex e \<noteq> peer_pk) (ms_pending S) else [])"

text \<open>ENROLL.\<close>

definition enroll_command ::
  "mesh_env \<Rightarrow> string \<Rightarrow> string \<Rightarrow> string \<Rightarrow> mesh \<Rightarrow> mesh \<times> (nat \<times> DirectoryEnrollMsg) list \<times> string"
where
  "enroll_command E name pk addr S =
     (if name = [] \<or> length pk \<noteq> 64 \<or> addr = [] then (S, [], ''ERROR usage: ENROLL <name> <pubkey64hex> <addr>\<newline>'')
      else
        let e = make_directory_enroll E S name pk addr in
        if de_signature e = [] then (S, [], ''ERROR could not sign enrollment\<newline>'')
        else case apply_directory_enroll E e S of
          (ok, S1) \<Rightarrow>
            (remember_pending_enroll e S1, broadcast_enroll S1 e,
             if ok then ''OK enrolled '' @ name @ '' '' @ addr @ ''\<newline>''
             else ''ERROR local apply failed for '' @ name @
                  '' (see daemon log: enroll_rejected_* / enroll_auth_write_failed); broadcast to connected peers only\<newline>''))"

section \<open>Joining\<close>

definition hex4 :: "nat \<Rightarrow> string" where
  "hex4 n = [hex_digit (n div 4096), hex_digit (n div 256), hex_digit (n div 16), hex_digit n]"

definition json_escape_char :: "char \<Rightarrow> string" where
  "json_escape_char c =
     (if c = CHR 0x22 then [CHR 0x5C, CHR 0x22]
      else if c = CHR 0x5C then [CHR 0x5C, CHR 0x5C]
      else if c = CHR 0x0A then [CHR 0x5C, CHR ''n'']
      else if c = CHR 0x0D then [CHR 0x5C, CHR ''r'']
      else if c = CHR 0x09 then [CHR 0x5C, CHR ''t'']
      else if code_of c < 0x20 then [CHR 0x5C, CHR ''u''] @ hex4 (code_of c)
      else [c])"

definition gossip_json_escape :: "string \<Rightarrow> string" where
  "gossip_json_escape v = concat (map json_escape_char v)"

fun join_with :: "string \<Rightarrow> string list \<Rightarrow> string" where
  "join_with sep [] = []"
| "join_with sep [x] = x"
| "join_with sep (x # y # ys) = x @ sep @ join_with sep (y # ys)"

definition quoted :: "string \<Rightarrow> string" where
  "quoted s = [CHR 0x22] @ s @ [CHR 0x22]"

definition peer_json :: "PeerEntry \<Rightarrow> string" where
  "peer_json p =
     ''{'' @ quoted ''name'' @ '':'' @ quoted (gossip_json_escape (pe_name p)) @ '','' @
     quoted ''addr'' @ '':'' @ quoted (gossip_json_escape (pe_addr p)) @ '','' @
     quoted ''pubkey_hex'' @ '':'' @ quoted (gossip_json_escape (pe_pubkey_hex p)) @ ''}''"

definition no_reply :: JoinReplyMsg where
  "no_reply = \<lparr>jp_ok = False, jp_node_name = [], jp_seeds_csv = [], jp_host_pubkey = [], jp_host_addr = [],
     jp_peer_pubkeys_json = [], jp_error = []\<rparr>"

definition welcome_reply :: "mesh \<Rightarrow> JoinRequestMsg \<Rightarrow> JoinReplyMsg" where
  "welcome_reply S jr =
     \<lparr>jp_ok = True,
      jp_node_name = (if jr_node_name jr = [] then ''node-'' @ take 8 (jr_token jr) else jr_node_name jr),
      jp_seeds_csv = join_with ''|'' (map (\<lambda>p. pe_name p @ '':'' @ pe_addr p) (ms_seeds S)),
      jp_host_pubkey = ms_our_pubkey S,
      jp_host_addr = ms_listen_addr S @ '':'' @ dec_digits (unat (ms_listen_port S)),
      jp_peer_pubkeys_json = ''['' @ join_with '','' (map peer_json (ms_seeds S)) @ '']'',
      jp_error = []\<rparr>"

fun claim_invite :: "string \<Rightarrow> string \<Rightarrow> PendingInvite list \<Rightarrow> PendingInvite list option" where
  "claim_invite token pk [] = None"
| "claim_invite token pk (v # vs) =
     (if iv_token v = token \<and> iv_claimed_by v = [] then Some (v\<lparr>iv_claimed_by := pk\<rparr> # vs)
      else map_option (\<lambda>vs1. v # vs1) (claim_invite token pk vs))"

definition redeem_invite :: "int \<Rightarrow> JoinRequestMsg \<Rightarrow> string \<Rightarrow> mesh \<Rightarrow> JoinReplyMsg \<times> mesh" where
  "redeem_invite now jr pk S0 =
     (let S = expire_pending_invites now S0 in
      case claim_invite (jr_token jr) pk (ms_invites S) of
        None \<Rightarrow> (no_reply\<lparr>jp_error := ''invalid or expired token''\<rparr>, S)
      | Some vs \<Rightarrow> (welcome_reply S jr, S\<lparr>ms_invites := vs\<rparr>))"

definition authorize_joiner :: "mesh_env \<Rightarrow> string \<Rightarrow> JoinReplyMsg \<times> mesh \<Rightarrow> JoinReplyMsg \<times> mesh" where
  "authorize_joiner E pk rS =
     (case rS of (r, S) \<Rightarrow>
        if \<not> (jp_ok r \<and> pk \<noteq> []) then (r, S)
        else if \<not> en_dir_ok E then (r\<lparr>jp_ok := False, jp_error := ''host could not prepare authorized_keys dir''\<rparr>, S)
        else case authorize (en_append E) pk S of
          None \<Rightarrow> (r\<lparr>jp_ok := False, jp_error := ''host could not persist authorization''\<rparr>, S)
        | Some S1 \<Rightarrow> (r, S1))"

definition process_join_request ::
  "mesh_env \<Rightarrow> JoinRequestMsg \<Rightarrow> string \<Rightarrow> mesh \<Rightarrow> JoinReplyMsg \<times> mesh \<times> (nat \<times> DirectoryEnrollMsg) list"
where
  "process_join_request E jr pk S =
     (case authorize_joiner E pk (redeem_invite (en_now E) jr pk S) of (r, S1) \<Rightarrow>
        if jp_ok r \<and> pk \<noteq> [] \<and> jr_listen_addr jr \<noteq> [] then
          let e = make_directory_enroll E S1 (jp_node_name r) pk (jr_listen_addr jr) in
          if de_signature e \<noteq> [] then
            let S2 = snd (apply_directory_enroll E e S1) in (r, remember_pending_enroll e S2, broadcast_enroll S2 e)
          else (r, S1, [])
        else (r, S1, []))"

section \<open>Announced peers\<close>

fun merge_seed :: "u64 \<Rightarrow> PeerInfo \<Rightarrow> PeerEntry list \<Rightarrow> bool \<times> PeerEntry list" where
  "merge_seed now p [] = (False, [])"
| "merge_seed now p (s # ss) =
     (if pe_pubkey_hex s \<noteq> [] \<and> pe_pubkey_hex s = pi_pubkey_hex p then (True, s\<lparr>pe_last_seen := now\<rparr> # ss)
      else case merge_seed now p ss of (f, ss1) \<Rightarrow>
        (f \<or> (peer_name_eq (pe_name s) (pi_name p) \<and> pe_pubkey_hex s \<noteq> pi_pubkey_hex p), s # ss1))"

definition update_discovered :: "u64 \<Rightarrow> PeerInfo \<Rightarrow> PeerEntry \<Rightarrow> PeerEntry" where
  "update_discovered now p d =
     d\<lparr>pe_addr := (if pi_addr p \<noteq> [] then pi_addr p else pe_addr d),
       pe_name := (if pi_name p \<noteq> [] then pi_name p else pe_name d), pe_last_seen := now\<rparr>"

text \<open>Whether the announcement is settled, whether an entry changed, and the entries.\<close>

fun merge_discovered :: "u64 \<Rightarrow> PeerInfo \<Rightarrow> PeerEntry list \<Rightarrow> bool \<times> bool \<times> PeerEntry list" where
  "merge_discovered now p [] = (False, False, [])"
| "merge_discovered now p (d # ds) =
     (if pe_pubkey_hex d = pi_pubkey_hex p then
        let d1 = update_discovered now p d in (True, pe_addr d1 \<noteq> pe_addr d \<or> pe_name d1 \<noteq> pe_name d, d1 # ds)
      else case merge_discovered now p ds of (f, ch, ds1) \<Rightarrow>
        (f \<or> (peer_name_eq (pe_name d) (pi_name p) \<and> pe_pubkey_hex d \<noteq> pi_pubkey_hex p), ch, d # ds1))"

definition merge_peer :: "u64 \<Rightarrow> PeerInfo \<Rightarrow> bool \<times> mesh \<Rightarrow> bool \<times> mesh" where
  "merge_peer now p cS =
     (case cS of (changed, S) \<Rightarrow>
        if pi_pubkey_hex p = [] \<or> pi_pubkey_hex p = ms_our_pubkey S then (changed, S)
        else case is_trusted_pubkey (ms_seeds S) (ms_auth_file S) (ms_auth S) (pi_pubkey_hex p) of
          (trusted, a) \<Rightarrow>
            let S1 = S\<lparr>ms_auth := a\<rparr> in
            if \<not> trusted then (changed, S1)
            else case merge_seed now p (ms_seeds S1) of (is_seed, ss) \<Rightarrow>
              let S2 = S1\<lparr>ms_seeds := ss\<rparr> in
              if is_seed then (changed, S2)
              else case merge_discovered now p (ms_discovered S2) of (found, ch, ds) \<Rightarrow>
                if found then (changed \<or> ch, S2\<lparr>ms_discovered := ds\<rparr>)
                else (True, S2\<lparr>ms_discovered := ds @
                  [\<lparr>pe_name = pi_name p, pe_addr = pi_addr p, pe_pubkey_hex = pi_pubkey_hex p, pe_last_seen = now\<rparr>]\<rparr>))"

definition merge_peers :: "u64 \<Rightarrow> PeerInfo list \<Rightarrow> mesh \<Rightarrow> mesh" where
  "merge_peers now ps S =
     (case foldl (\<lambda>cS p. merge_peer now p cS) (False, S) ps of (changed, S1) \<Rightarrow>
        if changed then S1\<lparr>ms_generation := ms_generation S1 + 1\<rparr> else S1)"

text \<open>\<open>process_mdns_announcement\<close>: the first entry with the announced key, or with the announced name and
  another key, decides. \<open>None\<close>: no entry did.\<close>

fun mdns_entries ::
  "(PeerEntry \<Rightarrow> bool) \<Rightarrow> (PeerEntry \<Rightarrow> PeerEntry) \<Rightarrow> string \<Rightarrow> string \<Rightarrow> PeerEntry list \<Rightarrow> PeerEntry list option"
where
  "mdns_entries same upd name pk [] = None"
| "mdns_entries same upd name pk (p # ps) =
     (if same p then Some (upd p # ps)
      else if peer_name_eq (pe_name p) name \<and> pe_pubkey_hex p \<noteq> pk then Some (p # ps)
      else map_option (\<lambda>ps1. p # ps1) (mdns_entries same upd name pk ps))"

definition process_mdns_announcement :: "u64 \<Rightarrow> string \<Rightarrow> string \<Rightarrow> string \<Rightarrow> mesh \<Rightarrow> mesh" where
  "process_mdns_announcement now name addr pk S0 =
     (if pk = [] \<or> pk = ms_our_pubkey S0 then S0
      else case is_trusted_pubkey (ms_seeds S0) (ms_auth_file S0) (ms_auth S0) pk of
        (trusted, a) \<Rightarrow>
          let S = S0\<lparr>ms_auth := a\<rparr> in
          if \<not> trusted then S
          else case mdns_entries (\<lambda>s. pe_pubkey_hex s \<noteq> [] \<and> pe_pubkey_hex s = pk)
                 (\<lambda>s. s\<lparr>pe_addr := (if addr \<noteq> [] then addr else pe_addr s), pe_last_seen := now\<rparr>) name pk (ms_seeds S) of
            Some ss \<Rightarrow> S\<lparr>ms_seeds := ss\<rparr>
          | None \<Rightarrow>
              (case mdns_entries (\<lambda>d. pe_pubkey_hex d = pk)
                 (\<lambda>d. d\<lparr>pe_addr := (if addr \<noteq> [] then addr else pe_addr d),
                        pe_name := (if name \<noteq> [] then name else pe_name d), pe_last_seen := now\<rparr>) name pk (ms_discovered S) of
                 Some ds \<Rightarrow> S\<lparr>ms_discovered := ds\<rparr>
               | None \<Rightarrow> S\<lparr>ms_discovered := ms_discovered S @
                   [\<lparr>pe_name = name, pe_addr = addr, pe_pubkey_hex = pk, pe_last_seen = now\<rparr>]\<rparr>))"

definition prune_stale_discovered_peers :: "int \<Rightarrow> u64 \<Rightarrow> mesh \<Rightarrow> mesh" where
  "prune_stale_discovered_peers ttl now S =
     (if ttl \<le> 0 then S
      else
        let live = (\<lambda>pk. list_ex (\<lambda>l. ml_open l \<and> ml_pubkey l = pk) (ms_links S));
            stale = (\<lambda>p. \<not> live (pe_pubkey_hex p) \<and> pe_last_seen p \<noteq> 0 \<and> now - pe_last_seen p > word_of_int ttl);
            ds = filter (\<lambda>p. \<not> stale p) (ms_discovered S)
        in if length ds \<noteq> length (ms_discovered S)
           then S\<lparr>ms_discovered := ds, ms_generation := ms_generation S + 1\<rparr> else S)"

text \<open>The links \<open>prune_revoked_connections\<close> closes.\<close>

definition revoked_links :: "mesh \<Rightarrow> nat list \<times> AuthorizedKeys" where
  "revoked_links S =
     (if ms_join_open S then ([], ms_auth S)
      else
        let a = reload (ms_auth_file S) (ms_auth S) in
        (filter (\<lambda>i. let l = ms_links S ! i in
           ml_open l \<and> ml_pubkey l \<noteq> [] \<and> \<not> is_trusted_pubkey_cached (ms_seeds S) a (ml_pubkey l))
           [0..<length (ms_links S)], a))"

text \<open>\<open>build_gossip\<close>: nothing when the peer is current.\<close>

definition peer_info :: "PeerEntry \<Rightarrow> PeerInfo" where
  "peer_info p = \<lparr>pi_name = pe_name p, pi_addr = pe_addr p, pi_pubkey_hex = pe_pubkey_hex p, pi_last_seen = pe_last_seen p\<rparr>"

definition build_gossip :: "u32 \<Rightarrow> mesh \<Rightarrow> PeerInfo list" where
  "build_gossip min_generation S =
     (if min_generation > 0 \<and> ms_generation S \<le> min_generation then []
      else map peer_info (filter (\<lambda>p. pe_pubkey_hex p \<noteq> []) (ms_seeds S)) @
           map peer_info (filter (\<lambda>p. is_trusted_pubkey_cached (ms_seeds S) (ms_auth S) (pe_pubkey_hex p)) (ms_discovered S)))"

end
