(* ===== verification/Peering.thy ===== *)
theory Peering
  imports Enrollment
begin

text \<open>
  The links of a node to its peers: which peers it dials and when (bs-mesh-transfer.h
  \<open>try_connect_to_seeds\<close>, the tie-break, back-off and cool-down of bs-mesh-conn.h), how the two ends of
  a doubled link settle on one, and the heartbeat. Sockets, DNS and the random generator are arguments;
  log lines are left out.
\<close>

section \<open>State\<close>

record Backoff =
  bo_delay_ms :: int
  bo_max_ms :: int
  bo_attempt :: int
  bo_next_attempt :: int

record DeadSeedCooldown =
  dc_failures :: int
  dc_in_cooldown :: bool
  dc_until :: int

datatype hs_state = TcpConnect | TlsHandshake | ReadHello | WriteHello | ReadJoinRequest | HsDone | HsFailed

record PendingHandshake =
  ph_fd :: nat
  ph_server_side :: bool
  ph_state :: hs_state
  ph_deadline :: int
  ph_expected_addr :: string
  ph_expected_pubkey :: string
  ph_expected_name :: string
  ph_rx :: bytes
  ph_tx :: bytes
  ph_outbound_hello :: HelloMsg
  ph_peer_hello :: HelloMsg
  ph_peer_pk :: string
  ph_contact_addr :: string
  ph_hello_written :: bool
  ph_want_read :: bool
  ph_want_write :: bool

record peering =
  pg_mesh :: mesh
  pg_backoffs :: "string \<rightharpoonup> Backoff"
  pg_cooldowns :: "string \<rightharpoonup> DeadSeedCooldown"
  pg_accept_only :: "string \<rightharpoonup> int"
  pg_extends :: "string \<rightharpoonup> nat"
  pg_pending :: "PendingHandshake list"
  pg_max_peers :: nat
  pg_require_pins :: bool
  pg_backoff_max_secs :: int
  pg_pong_timeout_secs :: int
  pg_connect_timeout_ms :: int
  pg_auto_upgrade :: bool
  pg_upgrade_origin :: string
  pg_upgrade_cooldown_secs :: int
  pg_upgrade_last :: "string \<rightharpoonup> int"
  pg_upgrade_attempts :: "string \<rightharpoonup> int"
  pg_upgrade_tasks :: "string list"

definition ms_ns :: int where "ms_ns = 1000000"

definition new_backoff :: Backoff where
  "new_backoff = \<lparr>bo_delay_ms = 10000, bo_max_ms = 30000, bo_attempt = 0, bo_next_attempt = 0\<rparr>"

definition new_cooldown :: DeadSeedCooldown where
  "new_cooldown = \<lparr>dc_failures = 0, dc_in_cooldown = False, dc_until = 0\<rparr>"

definition no_hello :: HelloMsg where
  "no_hello = \<lparr>hl_node_name = [], hl_version = [], hl_pubkey_hex = [], hl_known_peers = []\<rparr>"

definition new_handshake :: PendingHandshake where
  "new_handshake = \<lparr>ph_fd = 0, ph_server_side = False, ph_state = TlsHandshake, ph_deadline = 0, ph_expected_addr = [],
     ph_expected_pubkey = [], ph_expected_name = [], ph_rx = [], ph_tx = [], ph_outbound_hello = no_hello, ph_peer_hello = no_hello,
     ph_peer_pk = [], ph_contact_addr = [], ph_hello_written = False, ph_want_read = True, ph_want_write = False\<rparr>"

definition kMaxConnections :: nat where "kMaxConnections = 64"
definition kMaxPendingHandshakes :: nat where "kMaxPendingHandshakes = 16"
definition kDeadSeedCooldownThreshold :: int where "kDeadSeedCooldownThreshold = 3"
definition kDeadSeedCooldownBaseSecs :: int where "kDeadSeedCooldownBaseSecs = 600"
definition kTieBreakMaxExtends :: nat where "kTieBreakMaxExtends = 5"
definition kTieBreakAcceptWindowMs :: int where "kTieBreakAcceptWindowMs = 12000"

abbreviation pg_links :: "peering \<Rightarrow> MeshLink list" where
  "pg_links P \<equiv> ms_links (pg_mesh P)"

definition set_links :: "MeshLink list \<Rightarrow> peering \<Rightarrow> peering" where
  "set_links ls P = P\<lparr>pg_mesh := (pg_mesh P)\<lparr>ms_links := ls\<rparr>\<rparr>"

section \<open>Looking up links\<close>

definition has_conn_for_pubkey :: "MeshLink list \<Rightarrow> string \<Rightarrow> bool" where
  "has_conn_for_pubkey ls pk \<longleftrightarrow> list_ex (\<lambda>l. ml_purpose l = PurposeMesh \<and> ml_pubkey l = pk \<and> ml_open l) ls"

definition has_conn_for_addr :: "MeshLink list \<Rightarrow> string \<Rightarrow> bool" where
  "has_conn_for_addr ls addr \<longleftrightarrow> list_ex (\<lambda>l. ml_addr l = addr \<and> ml_open l) ls"

definition has_conn_for_seed :: "MeshLink list \<Rightarrow> PeerEntry \<Rightarrow> bool" where
  "has_conn_for_seed ls p \<longleftrightarrow>
     has_conn_for_addr ls (pe_addr p) \<or> (pe_pubkey_hex p \<noteq> [] \<and> has_conn_for_pubkey ls (pe_pubkey_hex p))"

definition has_conn_for_peer :: "MeshLink list \<Rightarrow> string \<Rightarrow> string \<Rightarrow> string \<Rightarrow> bool" where
  "has_conn_for_peer ls name addr pk \<longleftrightarrow>
     list_ex (\<lambda>l. ml_purpose l = PurposeMesh \<and> ml_open l \<and>
       (pk \<noteq> [] \<and> ml_pubkey l = pk \<or> name \<noteq> [] \<and> peer_name_eq (ml_name l) name \<or> addr \<noteq> [] \<and> ml_addr l = addr)) ls"

definition peer_listen_addr_for :: "mesh \<Rightarrow> string \<Rightarrow> string \<Rightarrow> string" where
  "peer_listen_addr_for S name pk =
     (let same = (\<lambda>p. pk \<noteq> [] \<and> pe_pubkey_hex p = pk \<or> name \<noteq> [] \<and> peer_name_eq (pe_name p) name) in
      case find same (ms_seeds S) of
        Some s \<Rightarrow> pe_addr s
      | None \<Rightarrow>
          (case find (\<lambda>d. is_trusted_pubkey_cached (ms_seeds S) (ms_auth S) (pe_pubkey_hex d) \<and> same d) (ms_discovered S) of
             Some d \<Rightarrow> pe_addr d
           | None \<Rightarrow> []))"

section \<open>Tie-break\<close>

definition ascii_lower :: "string \<Rightarrow> string" where
  "ascii_lower s = map lower_ascii s"

definition clear_accept_only_for :: "string \<Rightarrow> string \<Rightarrow> string \<Rightarrow> peering \<Rightarrow> peering" where
  "clear_accept_only_for name addr pk P =
     (let P1 = (if addr \<noteq> [] then P\<lparr>pg_accept_only := (pg_accept_only P)(addr := None), pg_extends := (pg_extends P)(addr := None)\<rparr> else P);
          la = peer_listen_addr_for (pg_mesh P) name pk
      in if la \<noteq> [] then P1\<lparr>pg_accept_only := (pg_accept_only P1)(la := None), pg_extends := (pg_extends P1)(la := None)\<rparr> else P1)"

definition should_accept_only_for :: "string \<Rightarrow> string \<Rightarrow> PeerEntry \<Rightarrow> bool" where
  "should_accept_only_for our_pubkey node_name peer =
     (if our_pubkey \<noteq> [] \<and> pe_pubkey_hex peer \<noteq> [] \<and> our_pubkey \<noteq> pe_pubkey_hex peer
        then name_less (pe_pubkey_hex peer) our_pubkey
      else if node_name \<noteq> [] \<and> pe_name peer \<noteq> [] \<and> \<not> peer_name_eq node_name (pe_name peer)
        then name_less (ascii_lower (pe_name peer)) (ascii_lower node_name)
      else False)"

text \<open>The windows of one address: the end of the accept-only window and the extensions used, before and
  after. \<open>should_defer_outbound_for\<close> applies it to the two maps.\<close>

definition defer_step :: "int \<Rightarrow> int option \<times> nat option \<Rightarrow> bool \<times> int option \<times> nat option" where
  "defer_step now w =
     (case w of (until, ext) \<Rightarrow>
        case until of
          None \<Rightarrow> (True, Some (now + kTieBreakAcceptWindowMs * ms_ns), ext)
        | Some u \<Rightarrow>
            if now \<ge> u then
              let e = (case ext of None \<Rightarrow> 0 | Some e \<Rightarrow> e) in
              if e < kTieBreakMaxExtends
                then (True, Some (now + kTieBreakAcceptWindowMs * 2 ^ Suc e * ms_ns), Some (Suc e))
                else (False, Some (now + kTieBreakAcceptWindowMs * ms_ns), None)
            else (True, Some u, ext))"

definition should_defer_outbound_for :: "PeerEntry \<Rightarrow> int \<Rightarrow> peering \<Rightarrow> bool \<times> peering" where
  "should_defer_outbound_for peer now P =
     (let a = pe_addr peer in
      if a = [] \<or> \<not> should_accept_only_for (ms_our_pubkey (pg_mesh P)) (ms_node_name (pg_mesh P)) peer then (False, P)
      else case defer_step now (pg_accept_only P a, pg_extends P a) of
        (defer, until, ext) \<Rightarrow>
          (defer, P\<lparr>pg_accept_only := (pg_accept_only P)(a := until), pg_extends := (pg_extends P)(a := ext)\<rparr>))"

section \<open>Removing links\<close>

text \<open>Of \<open>close_conn\<close>, what concerns the link: a busy one is only marked.\<close>

definition close_link :: "MeshLink \<Rightarrow> bool \<times> MeshLink" where
  "close_link l = (if ml_busy l then (False, l\<lparr>ml_close_requested := True\<rparr>)
     else (True, l\<lparr>ml_close_requested := False, ml_open := False\<rparr>))"

definition hold_redial :: "int \<Rightarrow> Backoff option \<Rightarrow> Backoff" where
  "hold_redial now bo =
     (let b = (case bo of None \<Rightarrow> new_backoff | Some b \<Rightarrow> b) in
      b\<lparr>bo_attempt := max (bo_attempt b) 1, bo_delay_ms := max (bo_delay_ms b) 10000,
        bo_next_attempt := now + 10 * second_ns\<rparr>)"

definition drop_nth :: "nat \<Rightarrow> 'a list \<Rightarrow> 'a list" where
  "drop_nth i xs = take i xs @ drop (Suc i) xs"

definition remove_conn :: "int \<Rightarrow> nat \<Rightarrow> peering \<Rightarrow> bool \<times> peering" where
  "remove_conn now i P =
     (if i \<ge> length (pg_links P) then (False, P)
      else case close_link (pg_links P ! i) of
        (False, l) \<Rightarrow> (False, set_links ((pg_links P)[i := l]) P)
      | (True, l) \<Rightarrow>
          let P1 = (if ml_addr l \<noteq> [] then P\<lparr>pg_backoffs := (pg_backoffs P)(ml_addr l \<mapsto> hold_redial now (pg_backoffs P (ml_addr l)))\<rparr> else P)
          in (True, set_links (drop_nth i (pg_links P)) P1))"

section \<open>Doubled links\<close>

definition duplicate_index_to_drop :: "bool \<Rightarrow> bool \<Rightarrow> nat" where
  "duplicate_index_to_drop i_matches j_matches = (if i_matches \<and> \<not> j_matches then 1 else 0)"

definition connections_are_mesh_duplicates :: "MeshLink \<Rightarrow> MeshLink \<Rightarrow> bool" where
  "connections_are_mesh_duplicates a b \<longleftrightarrow>
     ml_purpose a = PurposeMesh \<and> ml_purpose b = PurposeMesh \<and> ml_pubkey a \<noteq> [] \<and> ml_pubkey a = ml_pubkey b"

definition duplicate_pairs :: "MeshLink list \<Rightarrow> (nat \<times> nat) list" where
  "duplicate_pairs ls =
     [(i, j). i \<leftarrow> [0..<length ls], ml_open (ls ! i), j \<leftarrow> [Suc i..<length ls],
              ml_open (ls ! j) \<and> connections_are_mesh_duplicates (ls ! i) (ls ! j)]"

text \<open>The one of the pair to drop: the node with the smaller key keeps the link it dialled, the other the
  one it accepted.\<close>

definition duplicate_to_drop :: "string \<Rightarrow> MeshLink list \<Rightarrow> nat \<times> nat \<Rightarrow> nat" where
  "duplicate_to_drop our_pubkey ls ij =
     (case ij of (i, j) \<Rightarrow>
        let want_outbound = name_less our_pubkey (ml_pubkey (ls ! i))
        in if duplicate_index_to_drop (ml_outbound (ls ! i) = want_outbound) (ml_outbound (ls ! j) = want_outbound) = 0
           then i else j)"

lemma duplicate_pairs_lt: "(i, j) \<in> set (duplicate_pairs ls) \<Longrightarrow> i < j \<and> j < length ls"
  by (auto simp: duplicate_pairs_def split: if_splits)

lemma duplicate_to_drop_lt: "ij \<in> set (duplicate_pairs ls) \<Longrightarrow> duplicate_to_drop pk ls ij < length ls"
  by (cases ij) (auto simp: duplicate_to_drop_def Let_def dest!: duplicate_pairs_lt)

lemma length_drop_nth: "i < length xs \<Longrightarrow> length (drop_nth i xs) = length xs - 1"
  by (simp add: drop_nth_def)

lemma remove_conn_length: "remove_conn now i P = (True, P1) \<Longrightarrow> length (pg_links P1) < length (pg_links P)"
  by (auto simp: remove_conn_def set_links_def length_drop_nth Let_def split: if_splits prod.splits bool.splits)

function resolve_duplicates :: "int \<Rightarrow> peering \<Rightarrow> peering" where
  "resolve_duplicates now P =
     (case duplicate_pairs (pg_links P) of
        [] \<Rightarrow> P
      | ij # _ \<Rightarrow>
          case remove_conn now (duplicate_to_drop (ms_our_pubkey (pg_mesh P)) (pg_links P) ij) P of
            (False, P1) \<Rightarrow> P1
          | (True, P1) \<Rightarrow> resolve_duplicates now P1)"
  by pat_completeness auto
termination
  by (relation "measure (\<lambda>(now, P). length (pg_links P))") (auto dest: remove_conn_length [OF sym])

declare resolve_duplicates.simps [simp del]

definition clean_dead_conns :: "int \<Rightarrow> peering \<Rightarrow> peering" where
  "clean_dead_conns now P =
     (let ls = map (\<lambda>l. if ml_close_requested l \<and> \<not> ml_busy l then snd (close_link l) else l) (pg_links P)
      in resolve_duplicates now (set_links (filter ml_open ls) P))"

section \<open>Dead seeds\<close>

text \<open>\<open>rng\<close> is the value of the random generator; the jitter is between -25 and +24 per cent.\<close>

definition dead_seed_cooldown_duration :: "nat \<Rightarrow> int" where
  "dead_seed_cooldown_duration rng =
     (let base_ms = kDeadSeedCooldownBaseSecs * 1000;
          jitter = sgn (int (rng mod 50) - 25) * (base_ms * \<bar>int (rng mod 50) - 25\<bar> div 100)
      in (base_ms + jitter) * ms_ns)"

definition record_dead_seed_failure :: "int \<Rightarrow> nat \<Rightarrow> string \<Rightarrow> peering \<Rightarrow> peering" where
  "record_dead_seed_failure now rng addr P =
     (if addr = [] then P
      else
        let dc = (case pg_cooldowns P addr of None \<Rightarrow> new_cooldown | Some d \<Rightarrow> d);
            dc1 = dc\<lparr>dc_failures := dc_failures dc + 1\<rparr>;
            dc2 = (if dc_failures dc1 \<ge> kDeadSeedCooldownThreshold
                   then dc1\<lparr>dc_in_cooldown := True, dc_until := now + dead_seed_cooldown_duration rng\<rparr> else dc1)
        in P\<lparr>pg_cooldowns := (pg_cooldowns P)(addr \<mapsto> dc2)\<rparr>)"

definition record_dead_seed_success :: "string \<Rightarrow> peering \<Rightarrow> peering" where
  "record_dead_seed_success addr P =
     (if addr = [] then P else P\<lparr>pg_cooldowns := (pg_cooldowns P)(addr := None)\<rparr>)"

definition dead_seed_cooldown_active :: "string \<Rightarrow> int \<Rightarrow> peering \<Rightarrow> bool \<times> peering" where
  "dead_seed_cooldown_active addr now P =
     (case pg_cooldowns P addr of
        None \<Rightarrow> (False, P)
      | Some d \<Rightarrow>
          if \<not> dc_in_cooldown d then (False, P)
          else if now < dc_until d then (True, P)
          else (False, P\<lparr>pg_cooldowns := (pg_cooldowns P)(addr \<mapsto> d\<lparr>dc_in_cooldown := False\<rparr>)\<rparr>))"

definition seed_dial_health :: "string \<Rightarrow> int \<Rightarrow> peering \<Rightarrow> string" where
  "seed_dial_health addr now P =
     (case pg_cooldowns P addr of
        Some d \<Rightarrow>
          if dc_in_cooldown d \<and> now < dc_until d
          then ''cooldown(dead '' @ dec_int (max 1 ((dc_until d - now) div (60 * second_ns))) @ ''m)''
          else (case pg_backoffs P addr of Some b \<Rightarrow> if bo_attempt b > 0 then ''backoff'' else ''ok'' | None \<Rightarrow> ''ok'')
      | None \<Rightarrow> (case pg_backoffs P addr of Some b \<Rightarrow> if bo_attempt b > 0 then ''backoff'' else ''ok'' | None \<Rightarrow> ''ok''))"

section \<open>Dialling\<close>

text \<open>What the sockets and OpenSSL answer to a dial: \<open>None\<close> when the address does not resolve, the connect
  fails at once or the pin is refused; else whether the connect completed at once, and the socket.\<close>

type_synonym dial_oracle = "PeerEntry \<Rightarrow> (bool \<times> nat) option"

definition start_outbound_handshake :: "int \<Rightarrow> dial_oracle \<Rightarrow> PeerEntry \<Rightarrow> peering \<Rightarrow> bool \<times> peering" where
  "start_outbound_handshake now dial peer P =
     (if list_ex (\<lambda>ph. \<not> ph_server_side ph \<and>
          (ph_expected_addr ph = pe_addr peer \<or> (pe_pubkey_hex peer \<noteq> [] \<and> ph_expected_pubkey ph = pe_pubkey_hex peer)))
          (pg_pending P) then (False, P)
      else if length (pg_pending P) \<ge> kMaxPendingHandshakes then (False, P)
      else case dial peer of
        None \<Rightarrow> (False, P)
      | Some (immediately, fd) \<Rightarrow>
          (True, P\<lparr>pg_pending := pg_pending P @
             [new_handshake\<lparr>ph_fd := fd, ph_state := (if immediately then TlsHandshake else TcpConnect),
                ph_want_read := immediately, ph_want_write := True, ph_deadline := now + pg_connect_timeout_ms P * ms_ns,
                ph_expected_addr := pe_addr peer, ph_expected_pubkey := pe_pubkey_hex peer, ph_expected_name := pe_name peer\<rparr>]\<rparr>))"

text \<open>The retry after a dial that did not start: the wait is at least ten seconds and the delay doubles up
  to its maximum. Division of \<open>int\<close> truncates.\<close>

definition failed_dial :: "int \<Rightarrow> nat \<Rightarrow> Backoff \<Rightarrow> Backoff" where
  "failed_dial now rng bo =
     (let pct = int (rng mod 50) - 25;
          jitter = sgn pct * (bo_delay_ms bo * \<bar>pct\<bar> div 100);
          wait_ms = max 10000 (bo_delay_ms bo + jitter)
      in bo\<lparr>bo_attempt := bo_attempt bo + 1, bo_next_attempt := now + wait_ms * ms_ns,
            bo_delay_ms := min (max (bo_delay_ms bo * 2) 10000) (bo_max_ms bo)\<rparr>)"

text \<open>One candidate, once the checks before the back-off have passed; \<open>None\<close> for the flag means that the
  back-off holds it, \<open>Some False\<close> that the dial failed and the pass ends.\<close>

definition dial_candidate ::
  "int \<Rightarrow> nat \<Rightarrow> dial_oracle \<Rightarrow> (Backoff \<Rightarrow> Backoff) \<Rightarrow> PeerEntry \<Rightarrow> peering \<Rightarrow> bool option \<times> peering"
where
  "dial_candidate now rng dial init p P =
     (let a = pe_addr p;
          bo = init (case pg_backoffs P a of None \<Rightarrow> new_backoff | Some b \<Rightarrow> b);
          P1 = P\<lparr>pg_backoffs := (pg_backoffs P)(a \<mapsto> bo)\<rparr>
      in if bo_attempt bo > 0 \<and> now < bo_next_attempt bo then (None, P1)
         else case start_outbound_handshake now dial p P1 of
           (True, P2) \<Rightarrow> (Some True, P2\<lparr>pg_backoffs := (pg_backoffs P2)(a \<mapsto> hold_redial now (Some bo))\<rparr>)
         | (False, P2) \<Rightarrow> (Some False, P2\<lparr>pg_backoffs := (pg_backoffs P2)(a \<mapsto> failed_dial now rng bo)\<rparr>))"

text \<open>The checks of a candidate in the order of the code. The tie-break and the cool-down change their maps
  even when they let the candidate through.\<close>

definition gate_candidate :: "int \<Rightarrow> PeerEntry \<Rightarrow> peering \<Rightarrow> bool \<times> peering" where
  "gate_candidate now p P =
     (case should_defer_outbound_for p now P of
        (True, P1) \<Rightarrow> (False, P1)
      | (False, P1) \<Rightarrow> (case dead_seed_cooldown_active (pe_addr p) now P1 of (active, P2) \<Rightarrow> (\<not> active, P2)))"

fun dial_seeds :: "int \<Rightarrow> nat \<Rightarrow> dial_oracle \<Rightarrow> PeerEntry list \<Rightarrow> peering \<Rightarrow> peering" where
  "dial_seeds now rng dial [] P = P"
| "dial_seeds now rng dial (s # ss) P =
     (if has_conn_for_seed (pg_links P) s then dial_seeds now rng dial ss P
      else if pg_require_pins P \<and> pe_pubkey_hex s = [] then dial_seeds now rng dial ss P
      else if length (pg_links P) \<ge> pg_max_peers P then P
      else case gate_candidate now s P of
        (False, P1) \<Rightarrow> dial_seeds now rng dial ss P1
      | (True, P1) \<Rightarrow>
          (case dial_candidate now rng dial (\<lambda>b. b\<lparr>bo_max_ms := max 1000 (pg_backoff_max_secs P * 1000)\<rparr>) s P1 of
             (Some False, P2) \<Rightarrow> P2
           | (_, P2) \<Rightarrow> dial_seeds now rng dial ss P2))"

definition refresh_trust :: "string \<Rightarrow> peering \<Rightarrow> bool \<times> peering" where
  "refresh_trust pk P =
     (let S = pg_mesh P in
      case is_trusted_pubkey (ms_seeds S) (ms_auth_file S) (ms_auth S) pk of
        (trusted, a) \<Rightarrow> (trusted, P\<lparr>pg_mesh := S\<lparr>ms_auth := a\<rparr>\<rparr>))"

fun dial_discovered :: "int \<Rightarrow> nat \<Rightarrow> dial_oracle \<Rightarrow> PeerEntry list \<Rightarrow> peering \<Rightarrow> peering" where
  "dial_discovered now rng dial [] P = P"
| "dial_discovered now rng dial (d # ds) P0 =
     (if pe_addr d = [] then dial_discovered now rng dial ds P0
      else case refresh_trust (pe_pubkey_hex d) P0 of (trusted, P) \<Rightarrow>
        if \<not> trusted then dial_discovered now rng dial ds P
        else if has_conn_for_seed (pg_links P) d then dial_discovered now rng dial ds P
        else if pg_require_pins P \<and> pe_pubkey_hex d = [] then dial_discovered now rng dial ds P
        else if length (pg_links P) \<ge> pg_max_peers P then P
        else case gate_candidate now d P of
          (False, P1) \<Rightarrow> dial_discovered now rng dial ds P1
        | (True, P1) \<Rightarrow>
            (case dial_candidate now rng dial (\<lambda>b. b) d P1 of
               (Some False, P2) \<Rightarrow> P2
             | (_, P2) \<Rightarrow> dial_discovered now rng dial ds P2))"

definition try_connect_to_seeds :: "int \<Rightarrow> nat \<Rightarrow> nat \<Rightarrow> dial_oracle \<Rightarrow> peering \<Rightarrow> peering" where
  "try_connect_to_seeds now rng1 rng2 dial P =
     (let P1 = dial_seeds now rng1 dial (ms_seeds (pg_mesh P)) P in
      if length (pg_links P1) < pg_max_peers P1
      then dial_discovered now rng2 dial (ms_discovered (pg_mesh P1)) P1 else P1)"

section \<open>Reconnecting on request\<close>

definition matches_peer :: "string \<Rightarrow> string \<Rightarrow> string \<Rightarrow> MeshLink \<Rightarrow> bool" where
  "matches_peer name addr pk l \<longleftrightarrow>
     ml_purpose l = PurposeMesh \<and>
     (peer_name_eq (ml_name l) name \<or> (addr \<noteq> [] \<and> ml_addr l = addr) \<or> (pk \<noteq> [] \<and> ml_pubkey l = pk))"

definition key_of_peer :: "mesh \<Rightarrow> string \<Rightarrow> string" where
  "key_of_peer S name =
     (let key = (\<lambda>ps. case find (\<lambda>p. peer_name_eq (pe_name p) name) ps of Some p \<Rightarrow> pe_pubkey_hex p | None \<Rightarrow> [])
      in if key (ms_seeds S) \<noteq> [] then key (ms_seeds S) else key (ms_discovered S))"

fun remove_matching :: "int \<Rightarrow> (MeshLink \<Rightarrow> bool) \<Rightarrow> nat \<Rightarrow> nat \<Rightarrow> peering \<Rightarrow> bool \<times> peering" where
  "remove_matching now m 0 i P = (True, P)"
| "remove_matching now m (Suc n) i P =
     (if i \<ge> length (pg_links P) then (True, P)
      else if \<not> m (pg_links P ! i) then remove_matching now m n (Suc i) P
      else case remove_conn now i P of
        (False, P1) \<Rightarrow> (False, P1)
      | (True, P1) \<Rightarrow> remove_matching now m n i P1)"

definition daemon_reconnect_peer :: "int \<Rightarrow> dial_oracle \<Rightarrow> string \<Rightarrow> peering \<Rightarrow> peering \<times> string" where
  "daemon_reconnect_peer now dial name P =
     (let S = pg_mesh P; addr = find_peer_addr (ms_seeds S) (ms_discovered S) name in
      if addr = [] then (P, ''ERROR unknown peer: '' @ name)
      else
        let pk = key_of_peer S name; m = matches_peer name addr pk in
        if list_ex (\<lambda>l. m l \<and> ml_busy l) (pg_links P) then (P, ''ERROR peer busy with an active data operation'')
        else case remove_matching now m (length (pg_links P)) 0 P of
          (False, P1) \<Rightarrow> (P1, ''ERROR peer busy with an active data operation'')
        | (True, P1) \<Rightarrow>
            let P2 = P1\<lparr>pg_backoffs := (pg_backoffs P1)(addr := None)\<rparr>;
                target = \<lparr>pe_name = name, pe_addr = addr, pe_pubkey_hex = pk, pe_last_seen = 0\<rparr>
            in if should_accept_only_for (ms_our_pubkey S) (ms_node_name S) target
               then (P2\<lparr>pg_accept_only := (pg_accept_only P2)(addr \<mapsto> now + kTieBreakAcceptWindowMs * ms_ns)\<rparr>,
                     ''OK reconnect waiting for inbound peer '' @ name)
               else case start_outbound_handshake now dial target P2 of
                 (False, P3) \<Rightarrow> (P3, ''ERROR reconnect already pending or could not start for '' @ name)
               | (True, P3) \<Rightarrow> (P3, ''OK reconnecting '' @ name))"

section \<open>Heartbeat\<close>

definition refresh_heartbeat_after_busy :: "int \<Rightarrow> MeshLink \<Rightarrow> bool \<times> MeshLink" where
  "refresh_heartbeat_after_busy now l =
     (if ml_busy l then (True, l\<lparr>ml_suspended := True\<rparr>)
      else if ml_completed l \<or> ml_suspended l
        then (True, l\<lparr>ml_completed := False, ml_suspended := False, ml_last_pong := now\<rparr>)
      else (False, l))"

definition pong_deadline :: "int \<Rightarrow> MeshLink \<Rightarrow> int" where
  "pong_deadline timeout_secs l =
     (let base = timeout_secs * second_ns in
      if ml_rtt_ms l > 0 then max base (4 * min (ml_rtt_ms l) 5000 * ms_ns) else base)"

definition check_pong_link :: "int \<Rightarrow> int \<Rightarrow> MeshLink \<Rightarrow> MeshLink" where
  "check_pong_link timeout_secs now l =
     (if \<not> ml_open l then l
      else case refresh_heartbeat_after_busy now l of
        (True, l1) \<Rightarrow> l1
      | (False, l1) \<Rightarrow> if now - ml_last_pong l1 > pong_deadline timeout_secs l1 then snd (close_link l1) else l1)"

definition check_pong_timeouts :: "int \<Rightarrow> peering \<Rightarrow> peering" where
  "check_pong_timeouts now P = set_links (map (check_pong_link (pg_pong_timeout_secs P) now) (pg_links P)) P"

text \<open>The part of \<open>dispatch_message\<close> that concerns the link: its purpose, pings, pongs and a second Hello. A
  Hello that replaces a missing one also merges its peers.\<close>

definition classify_link :: "Message \<Rightarrow> MeshLink \<Rightarrow> MeshLink" where
  "classify_link msg l =
     (if ml_purpose l = PurposeUnknown
      then l\<lparr>ml_purpose := (case msg of MAttach _ \<Rightarrow> PurposeDirectSession | _ \<Rightarrow> PurposeMesh)\<rparr> else l)"

definition pong_link :: "int \<Rightarrow> MeshLink \<Rightarrow> MeshLink" where
  "pong_link now l =
     (let l1 = l\<lparr>ml_last_pong := now\<rparr>; rtt = (now - ml_ping_sent l1) div ms_ns in
      if ml_ping_sent l1 \<noteq> 0 \<and> rtt > 0 then l1\<lparr>ml_rtt_ms := rtt\<rparr> else l1)"

definition hello_link :: "u64 \<Rightarrow> nat \<Rightarrow> HelloMsg \<Rightarrow> peering \<Rightarrow> peering" where
  "hello_link now i h P =
     (let l = pg_links P ! i in
      case ml_hello l of
        None \<Rightarrow>
          let P1 = set_links ((pg_links P)[i := l\<lparr>ml_hello := Some h, ml_name := hl_node_name h\<rparr>]) P
          in P1\<lparr>pg_mesh := merge_peers now (hl_known_peers h) (pg_mesh P1)\<rparr>
      | Some h0 \<Rightarrow> if h0 = h then P else set_links ((pg_links P)[i := l\<lparr>ml_close_requested := True\<rparr>]) P)"

end
