(* ===== verification/Handshake.thy ===== *)
theory Handshake
  imports Peering Frame Text_Guards
begin

text \<open>
  How a link comes to exist: the limits on inbound connections, the state machine that takes a socket
  through TLS and the Hello exchange (\<open>advance_handshakes\<close> of bs-mesh-conn.h), the join of a new
  member inside it, and the promotion to a connection. OpenSSL and the sockets are the events of
  \<open>hs_io\<close>; the frames go through the reader and writer of \<open>Frame\<close>.
\<close>

section \<open>Hello\<close>

definition local_hello :: "string \<Rightarrow> u64 \<Rightarrow> mesh \<Rightarrow> HelloMsg" where
  "local_hello version now S =
     \<lparr>hl_node_name = ms_node_name S, hl_version = version_string_with_local_caps version, hl_pubkey_hex = ms_our_pubkey S,
      hl_known_peers =
        map (\<lambda>s. (peer_info s)\<lparr>pi_last_seen := now\<rparr>) (filter (\<lambda>s. pe_pubkey_hex s \<noteq> []) (ms_seeds S)) @
        map peer_info (filter (\<lambda>d. is_trusted_pubkey_cached (ms_seeds S) (ms_auth S) (pe_pubkey_hex d)) (ms_discovered S)) @
        map (\<lambda>l. \<lparr>pi_name = ml_name l, pi_addr = ml_addr l, pi_pubkey_hex = ml_pubkey l, pi_last_seen = now\<rparr>)
          (filter ml_open (ms_links S))\<rparr>"

section \<open>Automatic upgrade\<close>

definition upgrade_cooldown_secs :: "int \<Rightarrow> int \<Rightarrow> int" where
  "upgrade_cooldown_secs configured attempts =
     (if attempts \<ge> 3 then max 60 configured else if attempts \<ge> 2 then 300 else 60)"

definition maybe_schedule_auto_upgrade :: "string \<Rightarrow> int \<Rightarrow> string \<Rightarrow> string \<Rightarrow> peering \<Rightarrow> peering" where
  "maybe_schedule_auto_upgrade version now peer remote_ver P =
     (if \<not> pg_auto_upgrade P then P
      else if pg_upgrade_origin P \<noteq> [] \<and> pg_upgrade_origin P \<noteq> ms_node_name (pg_mesh P) then P
      else if peer = [] \<or> peer = ms_node_name (pg_mesh P) then P
      else if \<not> bs_peer_name_shell_safe peer then P
      else if \<not> version_is_older remote_ver version then P
      else
        let attempts = (case pg_upgrade_attempts P peer of None \<Rightarrow> 0 | Some n \<Rightarrow> n);
            P1 = P\<lparr>pg_upgrade_attempts := (pg_upgrade_attempts P)(peer \<mapsto> attempts)\<rparr>;
            cooldown = upgrade_cooldown_secs (pg_upgrade_cooldown_secs P) attempts * second_ns
        in case pg_upgrade_last P1 peer of
             Some t \<Rightarrow>
               if now - t < cooldown then P1
               else P1\<lparr>pg_upgrade_last := (pg_upgrade_last P1)(peer \<mapsto> now),
                       pg_upgrade_attempts := (pg_upgrade_attempts P1)(peer \<mapsto> attempts + 1),
                       pg_upgrade_tasks := pg_upgrade_tasks P1 @ [peer]\<rparr>
           | None \<Rightarrow> P1\<lparr>pg_upgrade_last := (pg_upgrade_last P1)(peer \<mapsto> now),
                       pg_upgrade_attempts := (pg_upgrade_attempts P1)(peer \<mapsto> attempts + 1),
                       pg_upgrade_tasks := pg_upgrade_tasks P1 @ [peer]\<rparr>)"

text \<open>The worker's side: the policy is read again from the file, \<open>rc\<close> is the result of the command.\<close>

definition auto_upgrade_command :: "string \<Rightarrow> string \<Rightarrow> string" where
  "auto_upgrade_command self peer =
     quoted (if self = [] then ''bridgesessions'' else self) @ '' shell '' @ peer @
     '' --cmd '' @ [CHR 0x27] @ ''bridgesessions upgrade'' @ [CHR 0x27] @ '' >/dev/null 2>&1''"

definition run_auto_upgrade :: "bool \<Rightarrow> string \<Rightarrow> (string \<Rightarrow> int) \<Rightarrow> string \<Rightarrow> peering \<Rightarrow> string option \<times> peering" where
  "run_auto_upgrade pin_live self system peer P =
     (if \<not> bs_peer_name_shell_safe peer then (None, P)
      else if \<not> pin_live then (None, P)
      else
        let cmd = auto_upgrade_command self peer
        in (Some cmd, if system cmd = 0 then P\<lparr>pg_upgrade_attempts := (pg_upgrade_attempts P)(peer := None)\<rparr> else P))"

section \<open>Accepting\<close>

definition kAcceptHandshakeTimeoutMs :: int where "kAcceptHandshakeTimeoutMs = 2000"

definition pending_from_source :: "string \<Rightarrow> PendingHandshake list \<Rightarrow> nat" where
  "pending_from_source ip phs =
     length (filter (\<lambda>ph. ph_server_side ph \<and> is_prefix (ip @ '':'') (ph_expected_addr ph)) phs)"

text \<open>\<open>ssl_ok\<close>: the TLS object could be created.\<close>

definition accept_inbound :: "int \<Rightarrow> bool \<Rightarrow> nat \<Rightarrow> string \<Rightarrow> nat \<Rightarrow> peering \<Rightarrow> bool \<times> peering" where
  "accept_inbound now ssl_ok fd ip port P =
     (if pending_from_source ip (pg_pending P) \<ge> 2 then (False, P)
      else if length (pg_links P) + length (pg_pending P) \<ge> kMaxConnections then (False, P)
      else if length (pg_pending P) \<ge> kMaxPendingHandshakes then (False, P)
      else if \<not> ssl_ok then (False, P)
      else (True, P\<lparr>pg_pending := pg_pending P @
        [new_handshake\<lparr>ph_fd := fd, ph_server_side := True, ph_state := TlsHandshake,
           ph_expected_addr := ip @ '':'' @ dec_digits port, ph_want_read := True, ph_want_write := False,
           ph_deadline := now + kAcceptHandshakeTimeoutMs * ms_ns\<rparr>]\<rparr>))"

section \<open>Promotion\<close>

text \<open>What is enqueued for links: an enrollment for the link at an index, and the replay for the link with a
  descriptor.\<close>

datatype hs_out = OutEnroll nat DirectoryEnrollMsg | OutReplay nat "DirectoryEnrollMsg list"

definition new_link :: "int \<Rightarrow> PendingHandshake \<Rightarrow> HelloMsg \<Rightarrow> MeshLink" where
  "new_link now ph hello =
     \<lparr>ml_open = True, ml_purpose = PurposeUnknown, ml_busy = False, ml_pubkey = ph_peer_pk ph, ml_version = hl_version hello,
      ml_fd = ph_fd ph, ml_name = hl_node_name hello, ml_addr = ph_expected_addr ph, ml_outbound = (\<not> ph_server_side ph),
      ml_hello = Some hello, ml_close_requested = False, ml_last_pong = now, ml_ping_sent = 0, ml_rtt_ms = 0,
      ml_completed = False, ml_suspended = False\<rparr>"

definition promote_handshake_to_conn ::
  "string \<Rightarrow> int \<Rightarrow> u64 \<Rightarrow> PendingHandshake \<Rightarrow> HelloMsg \<Rightarrow> peering \<Rightarrow> peering \<times> hs_out list"
where
  "promote_handshake_to_conn version now unix ph hello P =
     (let P1 = (if ph_server_side ph then P else record_dead_seed_success (ph_expected_addr ph) P);
          P2 = P1\<lparr>pg_mesh := merge_peers unix (hl_known_peers hello) (pg_mesh P1)\<rparr>;
          P3 = resolve_duplicates now (set_links (pg_links P2 @ [new_link now ph hello]) P2);
          P4 = clear_accept_only_for (hl_node_name hello) (ph_expected_addr ph) (ph_peer_pk ph) P3;
          outs = (if list_ex (\<lambda>l. ml_fd l = ph_fd ph) (pg_links P4)
                  then [OutReplay (ph_fd ph) (replay_enrolls (pg_mesh P4) (hl_version hello) (ph_peer_pk ph))] else [])
      in (maybe_schedule_auto_upgrade version now (hl_node_name hello) (hl_version hello) P4, outs))"

section \<open>One step of a handshake\<close>

text \<open>A certificate whose key OpenSSL cannot give is the empty key.\<close>

datatype tls_result = TlsDone string | TlsWant ssl_want | TlsError int

record hs_io =
  io_pollable :: bool
  io_ready :: bool
  io_connected :: bool
  io_tls :: tls_result
  io_read :: "ssl_read list"
  io_write :: "ssl_write list"
  io_reply :: "write_turn list"

record hs_env =
  he_now :: int
  he_rng :: nat
  he_version :: string
  he_zstd :: zstd_lib
  he_mesh :: mesh_env

text \<open>The handshake as it stays in the list, or \<open>None\<close> when it is erased.\<close>

type_synonym hs_result = "PendingHandshake option \<times> peering \<times> hs_out list"

definition promoted :: "hs_env \<Rightarrow> PendingHandshake \<Rightarrow> HelloMsg \<Rightarrow> peering \<Rightarrow> hs_result" where
  "promoted H ph hello P =
     (case promote_handshake_to_conn (he_version H) (he_now H) (en_unix (he_mesh H)) ph hello P of (P1, outs) \<Rightarrow> (None, P1, outs))"

definition wants :: "ssl_want \<Rightarrow> PendingHandshake \<Rightarrow> PendingHandshake" where
  "wants w ph = ph\<lparr>ph_want_read := (w = WANT_READ), ph_want_write := (w = WANT_WRITE)\<rparr>"

definition step_tls :: "hs_env \<Rightarrow> hs_io \<Rightarrow> PendingHandshake \<Rightarrow> peering \<Rightarrow> hs_result" where
  "step_tls H io ph P =
     (case io_tls io of
        TlsDone pk \<Rightarrow>
          if pk = [] then (None, P, [])
          else if ph_server_side ph
            then (Some (ph\<lparr>ph_peer_pk := pk, ph_state := ReadHello, ph_want_read := True, ph_want_write := False\<rparr>), P, [])
          else (Some (ph\<lparr>ph_peer_pk := pk, ph_outbound_hello := local_hello (he_version H) (en_unix (he_mesh H)) (pg_mesh P),
                   ph_state := WriteHello, ph_want_read := False, ph_want_write := True\<rparr>), P, [])
      | TlsWant w \<Rightarrow> (Some (wants w ph), P, [])
      | TlsError _ \<Rightarrow> (None, P, []))"

definition step_write_hello :: "hs_env \<Rightarrow> hs_io \<Rightarrow> PendingHandshake \<Rightarrow> peering \<Rightarrow> hs_result" where
  "step_write_hello H io ph P =
     (case write_frame_nonblocking (he_zstd H) (MHello (ph_outbound_hello ph)) CONTROL_STREAM_ID (ph_tx ph) (io_write io) of
        (Inl _, _, _, _) \<Rightarrow> (None, P, [])
      | (Inr True, _, _, _) \<Rightarrow>
          if ph_server_side ph then promoted H (ph\<lparr>ph_tx := [], ph_state := HsDone, ph_want_read := False, ph_want_write := False\<rparr>) (ph_peer_hello ph) P
          else (Some (ph\<lparr>ph_tx := [], ph_state := ReadHello, ph_want_read := True, ph_want_write := False\<rparr>), P, [])
      | (Inr False, tx, w, _) \<Rightarrow> (Some (wants w (ph\<lparr>ph_tx := tx\<rparr>)), P, []))"

text \<open>The answer to an inbound Hello. During a join window a peer whose key is not trusted has to present a
  token before it is promoted.\<close>

definition needs_token :: "string \<Rightarrow> peering \<Rightarrow> bool \<times> peering" where
  "needs_token pk P =
     (if ms_join_open (pg_mesh P) then case refresh_trust pk P of (trusted, P1) \<Rightarrow> (\<not> trusted, P1) else (False, P))"

definition answer_hello :: "hs_env \<Rightarrow> hs_io \<Rightarrow> PendingHandshake \<Rightarrow> peering \<Rightarrow> hs_result" where
  "answer_hello H io ph0 P0 =
     (let ph = ph0\<lparr>ph_outbound_hello := local_hello (he_version H) (en_unix (he_mesh H)) (pg_mesh P0)\<rparr> in
      case needs_token (ph_peer_pk ph) P0 of
        (join_window, P) \<Rightarrow>
          (case write_frame_nonblocking (he_zstd H) (MHello (ph_outbound_hello ph)) CONTROL_STREAM_ID (ph_tx ph) (io_write io) of
             (Inl _, _, _, _) \<Rightarrow> (None, P, [])
           | (Inr True, _, _, _) \<Rightarrow>
               if join_window
               then (Some (ph\<lparr>ph_tx := [], ph_state := ReadJoinRequest, ph_hello_written := True,
                      ph_want_read := True, ph_want_write := False\<rparr>), P, [])
               else promoted H (ph\<lparr>ph_tx := []\<rparr>) (ph_peer_hello ph) P
           | (Inr False, tx, w, _) \<Rightarrow>
               (Some (wants w (ph\<lparr>ph_tx := tx, ph_state := (if join_window then ReadJoinRequest else WriteHello)\<rparr>)), P, [])))"

definition step_read_hello :: "hs_env \<Rightarrow> hs_io \<Rightarrow> PendingHandshake \<Rightarrow> peering \<Rightarrow> hs_result" where
  "step_read_hello H io ph0 P =
     (case read_frame_nonblocking (he_zstd H) (ph_rx ph0) (io_read io) of
        (Inl _, _, _, _) \<Rightarrow> (None, P, [])
      | (Inr None, rx, w, _) \<Rightarrow> (Some (wants w (ph0\<lparr>ph_rx := rx\<rparr>)), P, [])
      | (Inr (Some msg), rx, w, _) \<Rightarrow>
          (case msg of
             MHello hello \<Rightarrow>
               let ph = wants w (ph0\<lparr>ph_rx := rx, ph_peer_hello := hello\<rparr>); S = pg_mesh P in
               if ph_server_side ph then
                 if verify_inbound_peer_identity (ms_seeds S) (ms_discovered S) (ph_peer_pk ph) (hl_pubkey_hex hello)
                      (hl_node_name hello) \<noteq> None \<and> \<not> ms_join_open S then (None, P, [])
                 else answer_hello H io ph P
               else if verify_outbound_peer_identity (ph_expected_pubkey ph) (ph_peer_pk ph) (hl_pubkey_hex hello)
                      (ph_expected_name ph) (hl_node_name hello) (pg_require_pins P) \<noteq> None then (None, P, [])
               else promoted H ph hello P
           | _ \<Rightarrow> (None, P, [])))"

text \<open>The token. A reply that could not be written leaves the invite claimed and the peer unpromoted.\<close>

definition redeem_token :: "hs_env \<Rightarrow> hs_io \<Rightarrow> JoinRequestMsg \<Rightarrow> PendingHandshake \<Rightarrow> peering \<Rightarrow> hs_result" where
  "redeem_token H io jr ph P =
     (case process_join_request (he_mesh H) jr (ph_peer_pk ph) (pg_mesh P) of (reply, S, sent) \<Rightarrow>
        let P1 = P\<lparr>pg_mesh := S\<rparr>; outs = map (\<lambda>(i, e). OutEnroll i e) sent;
            reply_sent = (case write_frame (he_zstd H) (MJoinReply reply) CONTROL_STREAM_ID False (io_reply io) of
                            (Inr _, _) \<Rightarrow> True | (Inl _, _) \<Rightarrow> False)
        in if jp_ok reply \<and> reply_sent
           then case promoted H ph (ph_peer_hello ph) P1 of (r, P2, outs2) \<Rightarrow> (r, P2, outs @ outs2)
           else (None, P1, outs))"

definition read_join_request :: "hs_env \<Rightarrow> hs_io \<Rightarrow> PendingHandshake \<Rightarrow> peering \<Rightarrow> hs_result" where
  "read_join_request H io ph P =
     (case read_frame_nonblocking (he_zstd H) (ph_rx ph) (io_read io) of
        (Inl _, _, _, _) \<Rightarrow> (None, P, [])
      | (Inr None, rx, w, _) \<Rightarrow> (Some (wants w (ph\<lparr>ph_rx := rx\<rparr>)), P, [])
      | (Inr (Some msg), rx, w, _) \<Rightarrow>
          (case msg of
             MJoinRequest jr \<Rightarrow> redeem_token H io jr (wants w (ph\<lparr>ph_rx := rx\<rparr>)) P
           | _ \<Rightarrow> (None, P, [])))"

definition queue_hello :: "zstd_lib \<Rightarrow> PendingHandshake \<Rightarrow> PendingHandshake result" where
  "queue_hello Z ph =
     (if hl_pubkey_hex (ph_outbound_hello ph) \<noteq> [] \<and> ph_tx ph = [] \<and> \<not> ph_hello_written ph
      then map_sum id (\<lambda>tx. ph\<lparr>ph_tx := tx, ph_hello_written := True\<rparr>)
             (encode Z (MHello (ph_outbound_hello ph)) CONTROL_STREAM_ID False)
      else Inr ph)"

definition finish_hello :: "hs_env \<Rightarrow> hs_io \<Rightarrow> PendingHandshake \<Rightarrow> peering \<Rightarrow> hs_result" where
  "finish_hello H io ph P =
     (if ph_tx ph = [] then read_join_request H io ph P
      else case write_frame_nonblocking (he_zstd H) (MHello (ph_outbound_hello ph)) CONTROL_STREAM_ID (ph_tx ph) (io_write io) of
        (Inl _, _, _, _) \<Rightarrow> (None, P, [])
      | (Inr True, _, _, _) \<Rightarrow> read_join_request H io (ph\<lparr>ph_tx := [], ph_want_read := True, ph_want_write := False\<rparr>) P
      | (Inr False, tx, w, _) \<Rightarrow> (Some (wants w (ph\<lparr>ph_tx := tx\<rparr>)), P, []))"

definition step_join :: "hs_env \<Rightarrow> hs_io \<Rightarrow> PendingHandshake \<Rightarrow> peering \<Rightarrow> hs_result" where
  "step_join H io ph0 P =
     (case queue_hello (he_zstd H) ph0 of Inl _ \<Rightarrow> (None, P, []) | Inr ph \<Rightarrow> finish_hello H io ph P)"

definition hs_step :: "hs_env \<Rightarrow> hs_io \<Rightarrow> PendingHandshake \<Rightarrow> peering \<Rightarrow> hs_result" where
  "hs_step H io ph P =
     (case ph_state ph of
        TcpConnect \<Rightarrow>
          if io_connected io then (Some (ph\<lparr>ph_state := TlsHandshake, ph_want_read := True, ph_want_write := True\<rparr>), P, [])
          else (None, P, [])
      | TlsHandshake \<Rightarrow> step_tls H io ph P
      | WriteHello \<Rightarrow> step_write_hello H io ph P
      | ReadHello \<Rightarrow> step_read_hello H io ph P
      | ReadJoinRequest \<Rightarrow> step_join H io ph P
      | HsDone \<Rightarrow> (None, P, [])
      | HsFailed \<Rightarrow> (None, P, []))"

text \<open>A dial that times out while the node is waiting for the peer's own dial does not count against it.\<close>

definition advance_one :: "hs_env \<Rightarrow> hs_io \<Rightarrow> PendingHandshake \<Rightarrow> peering \<Rightarrow> hs_result" where
  "advance_one H io ph P =
     (if he_now H > ph_deadline ph then
        let waiting = (case pg_accept_only P (ph_expected_addr ph) of None \<Rightarrow> False | Some u \<Rightarrow> he_now H < u)
        in (None, if \<not> ph_server_side ph \<and> \<not> waiting then record_dead_seed_failure (he_now H) (he_rng H) (ph_expected_addr ph) P else P, [])
      else if \<not> io_pollable io then (None, P, [])
      else if \<not> io_ready io then (Some ph, P, [])
      else hs_step H io ph P)"

fun advance_all :: "hs_env \<Rightarrow> (PendingHandshake \<Rightarrow> hs_io) \<Rightarrow> PendingHandshake list \<Rightarrow> peering \<Rightarrow> PendingHandshake list \<times> peering \<times> hs_out list" where
  "advance_all H io [] P = ([], P, [])"
| "advance_all H io (ph # phs) P =
     (case advance_one H (io ph) ph P of (r, P1, outs1) \<Rightarrow>
      case advance_all H io phs P1 of (kept, P2, outs2) \<Rightarrow>
        ((case r of None \<Rightarrow> kept | Some ph1 \<Rightarrow> ph1 # kept), P2, outs1 @ outs2))"

definition advance_handshakes :: "hs_env \<Rightarrow> (PendingHandshake \<Rightarrow> hs_io) \<Rightarrow> peering \<Rightarrow> peering \<times> hs_out list" where
  "advance_handshakes H io P =
     (case advance_all H io (pg_pending P) P of (kept, P1, outs) \<Rightarrow> (P1\<lparr>pg_pending := kept\<rparr>, outs))"

end
