(* ===== verification/Enrollment_Props.thy ===== *)
theory Enrollment_Props
  imports Enrollment
begin

text \<open>
  What membership guarantees over any sequence of invites, joins, enrollments, announcements and edits
  of the authorized keys file.
\<close>

section \<open>Runs\<close>

datatype mesh_op =
  OpInvite int "string option"
| OpTick int
| OpJoin mesh_env JoinRequestMsg string
| OpEnroll mesh_env nat DirectoryEnrollMsg
| OpEnrollCommand mesh_env string string string
| OpMerge u64 "PeerInfo list"
| OpMdns u64 string string string
| OpPrune int u64
| OpEditKeys "string option"

fun mesh_step :: "mesh_op \<Rightarrow> mesh \<Rightarrow> mesh" where
  "mesh_step (OpInvite now t) S = fst (invite now t S)"
| "mesh_step (OpTick now) S = maybe_close_join_window now S"
| "mesh_step (OpJoin E jr pk) S = fst (snd (process_join_request E jr pk S))"
| "mesh_step (OpEnroll E i e) S = fst (dispatch_enroll E i e S)"
| "mesh_step (OpEnrollCommand E name pk addr) S = fst (enroll_command E name pk addr S)"
| "mesh_step (OpMerge now ps) S = merge_peers now ps S"
| "mesh_step (OpMdns now name addr pk) S = process_mdns_announcement now name addr pk S"
| "mesh_step (OpPrune ttl now) S = prune_stale_discovered_peers ttl now S"
| "mesh_step (OpEditKeys content) S = S\<lparr>ms_auth_file := content\<rparr>"

definition mesh_run :: "mesh_op list \<Rightarrow> mesh \<Rightarrow> mesh" where
  "mesh_run ops S = fold mesh_step ops S"

lemma mesh_run_simps [simp]: "mesh_run [] S = S" "mesh_run (op # ops) S = mesh_run ops (mesh_step op S)"
  by (simp_all add: mesh_run_def)

lemma mesh_run_induct:
  assumes "P S" "\<And>op S. P S \<Longrightarrow> op \<in> set ops \<Longrightarrow> P (mesh_step op S)"
  shows "P (mesh_run ops S)"
  using assms by (induction ops arbitrary: S) auto

section \<open>What an enrollment changes\<close>

lemma authorize_cases:
  assumes "authorize w pk S = Some S1"
  shows "S1 = S \<or> \<not> has_auth_line (ms_auth_file S) pk \<and> S1 = S\<lparr>ms_auth_file := Some (append_auth (w (ms_auth_file S)) (ms_auth_file S) pk)\<rparr>"
  using assms by (auto simp: authorize_def Let_def split: if_splits)

lemma learn_member_cases:
  "learn_member E e S = S \<or>
   \<not> knows_key S (de_pubkey_hex e) \<and>
   learn_member E e S = S\<lparr>ms_discovered := ms_discovered S @
       [\<lparr>pe_name = de_name e, pe_addr = de_addr e, pe_pubkey_hex = de_pubkey_hex e, pe_last_seen = en_unix E\<rparr>],
     ms_generation := ms_generation S + 1\<rparr>"
  by (simp add: learn_member_def)

text \<open>The file of the authorized keys and the directory after an enrollment that is applied.\<close>

definition enrolled :: "mesh_env \<Rightarrow> DirectoryEnrollMsg \<Rightarrow> mesh \<Rightarrow> mesh \<Rightarrow> bool" where
  "enrolled E e S S1 \<longleftrightarrow>
     vouched E e S \<and> enroll_id e \<notin> set (ms_seen S) \<and>
     (\<exists>S0 a. (S0 = S \<or> \<not> has_auth_line (ms_auth_file S) (de_pubkey_hex e) \<and>
                   S0 = S\<lparr>ms_auth_file := Some (append_auth (en_append E (ms_auth_file S)) (ms_auth_file S) (de_pubkey_hex e))\<rparr>) \<and>
            S1 = remember_seen (enroll_id e) (learn_member E e (S0\<lparr>ms_auth := a\<rparr>)))"

lemma apply_cases:
  assumes "apply_directory_enroll E e S = (b, S1)"
  obtains (same) "S1 = S" "b \<longrightarrow> enroll_id e \<in> set (ms_seen S)" | (enrolled) "b" "enrolled E e S S1"
proof (cases "\<not> vouched E e S \<or> enroll_id e \<in> set (ms_seen S)")
  case True
  then have "S1 = S" "b \<longrightarrow> enroll_id e \<in> set (ms_seen S)"
    using assms by (auto simp: apply_directory_enroll_def split: if_splits)
  then show ?thesis by (rule same)
next
  case fresh: False
  show ?thesis
  proof (cases "ms_auth_path S = []")
    case True
    have "b" "S1 = remember_seen (enroll_id e) (learn_member E e (S\<lparr>ms_auth := ms_auth S\<rparr>))"
      using assms fresh True by (auto simp: apply_directory_enroll_def)
    moreover from this(2) have "enrolled E e S S1"
      unfolding enrolled_def using fresh by (intro conjI exI [of _ S] exI [of _ "ms_auth S"]) auto
    ultimately show ?thesis by (intro enrolled)
  next
    case path: False
    show ?thesis
    proof (cases "authorize (en_append E) (de_pubkey_hex e) S")
      case None
      then have "S1 = S" "b \<longrightarrow> enroll_id e \<in> set (ms_seen S)"
        using assms fresh path by (auto simp: apply_directory_enroll_def)
      then show ?thesis by (rule same)
    next
      case (Some S0)
      let ?a = "load_from_file (ms_auth_path S0) (ms_auth_file S0) (ms_auth S0)"
      have "b" "S1 = remember_seen (enroll_id e) (learn_member E e (S0\<lparr>ms_auth := ?a\<rparr>))"
        using assms fresh path Some by (auto simp: apply_directory_enroll_def)
      with authorize_cases [OF Some] fresh show ?thesis by (intro enrolled) (auto simp: enrolled_def)
    qed
  qed
qed

section \<open>What an operation leaves alone\<close>

named_theorems mesh_frame

text \<open>The invitation state of a mesh.\<close>

definition invite_view :: "mesh \<Rightarrow> PendingInvite list \<times> bool \<times> int \<times> int" where
  "invite_view S = (ms_invites S, ms_join_open S, ms_window_opened_at S, ms_window_max S)"

lemma invite_view_eqD:
  assumes "invite_view S = invite_view T"
  shows "ms_invites S = ms_invites T" "ms_join_open S = ms_join_open T"
    "ms_window_opened_at S = ms_window_opened_at T" "ms_window_max S = ms_window_max T"
  using assms by (simp_all add: invite_view_def)

lemma authorize_frame [mesh_frame]: "authorize w pk S = Some S1 \<Longrightarrow> invite_view S1 = invite_view S"
  by (auto simp: authorize_def invite_view_def Let_def split: if_splits)

lemma learn_member_frame [mesh_frame]: "invite_view (learn_member E e S) = invite_view S"
  by (simp add: learn_member_def invite_view_def)

lemma remember_seen_frame [mesh_frame]: "invite_view (remember_seen k S) = invite_view S"
  by (simp add: remember_seen_def invite_view_def)

lemma remember_pending_frame [mesh_frame]: "invite_view (remember_pending_enroll e S) = invite_view S"
  by (simp add: remember_pending_enroll_def invite_view_def Let_def)

lemma enrolled_frame [mesh_frame]: "enrolled E e S S1 \<Longrightarrow> invite_view S1 = invite_view S"
  by (auto simp: enrolled_def mesh_frame) (auto simp: invite_view_def)

lemma apply_frame [mesh_frame]: "invite_view (snd (apply_directory_enroll E e S)) = invite_view S"
  by (cases "apply_directory_enroll E e S" rule: prod.exhaust) (auto elim: apply_cases simp: enrolled_frame)

lemma apply_frameD: "apply_directory_enroll E e S = (b, S1) \<Longrightarrow> invite_view S1 = invite_view S"
  using apply_frame [of E e S] by simp

lemma merge_peer_frame [mesh_frame]: "invite_view (snd (merge_peer now p cS)) = invite_view (snd cS)"
  by (auto simp: merge_peer_def invite_view_def Let_def split: prod.splits)

lemma merge_peers_frame [mesh_frame]: "invite_view (merge_peers now ps S) = invite_view S"
proof -
  have "invite_view (snd (foldl (\<lambda>cS p. merge_peer now p cS) cS ps)) = invite_view (snd cS)" for cS
    by (induction ps arbitrary: cS) (simp_all add: merge_peer_frame)
  from this [of "(False, S)"] show ?thesis
    by (auto simp: merge_peers_def invite_view_def split: prod.split)
qed

lemma mdns_frame [mesh_frame]: "invite_view (process_mdns_announcement now name addr pk S) = invite_view S"
  by (auto simp: process_mdns_announcement_def invite_view_def Let_def split: prod.splits option.splits)

lemma prune_frame [mesh_frame]: "invite_view (prune_stale_discovered_peers ttl now S) = invite_view S"
  by (simp add: prune_stale_discovered_peers_def invite_view_def Let_def)

lemma dispatch_frame [mesh_frame]: "invite_view (fst (dispatch_enroll E i e S)) = invite_view S"
  by (auto simp: dispatch_enroll_def mesh_frame Let_def dest: apply_frameD split: prod.splits bool.splits)

lemma enroll_command_frame [mesh_frame]: "invite_view (fst (enroll_command E name pk addr S)) = invite_view S"
  by (auto simp: enroll_command_def mesh_frame Let_def dest: apply_frameD split: prod.splits)

lemma authorize_joiner_frame [mesh_frame]: "invite_view (snd (authorize_joiner E pk rS)) = invite_view (snd rS)"
  by (auto simp: authorize_joiner_def authorize_frame split: prod.splits option.splits)

lemma process_join_frame [mesh_frame]:
  "invite_view (fst (snd (process_join_request E jr pk S))) = invite_view (snd (redeem_invite (en_now E) jr pk S))"
  using authorize_joiner_frame [of E pk "redeem_invite (en_now E) jr pk S"]
  by (cases "authorize_joiner E pk (redeem_invite (en_now E) jr pk S)")
    (simp add: process_join_request_def remember_pending_frame apply_frame Let_def)

section \<open>Invites\<close>

definition spent :: "string \<Rightarrow> mesh \<Rightarrow> bool" where
  "spent t S \<longleftrightarrow> \<not> list_ex (\<lambda>v. iv_token v = t \<and> iv_claimed_by v = []) (ms_invites S)"

definition unclaimed :: "mesh \<Rightarrow> bool" where
  "unclaimed S \<longleftrightarrow> list_ex (\<lambda>v. iv_claimed_by v = []) (ms_invites S)"

lemma claim_invite_None: "claim_invite t pk vs = None \<longleftrightarrow> \<not> list_ex (\<lambda>v. iv_token v = t \<and> iv_claimed_by v = []) vs"
  by (induction vs) auto

lemma claim_invite_split:
  assumes "claim_invite t pk vs = Some ws"
  obtains xs v ys where "vs = xs @ v # ys" "iv_token v = t" "iv_claimed_by v = []" "ws = xs @ v\<lparr>iv_claimed_by := pk\<rparr> # ys"
  using assms
proof (induction vs arbitrary: ws thesis)
  case (Cons v vs)
  show ?case
  proof (cases "iv_token v = t \<and> iv_claimed_by v = []")
    case True
    with Cons.prems Cons.prems(1) [of "[]" v vs] show ?thesis by simp
  next
    case False
    with Cons.prems(2) obtain us where us: "claim_invite t pk vs = Some us" "ws = v # us" by (auto split: if_splits)
    obtain xs w ys where "vs = xs @ w # ys" "iv_token w = t" "iv_claimed_by w = []" "us = xs @ w\<lparr>iv_claimed_by := pk\<rparr> # ys"
      using Cons.IH [OF _ us(1)] by blast
    with us Cons.prems(1) [of "v # xs" w ys] show ?thesis by simp
  qed
qed simp

lemma expire_invites: "set (ms_invites (expire_pending_invites now S)) \<subseteq> set (ms_invites S)"
  by (auto simp: expire_pending_invites_def drop_invites_def)

lemma expire_fields [simp]:
  "ms_join_open (expire_pending_invites now S) = ms_join_open S"
  "ms_window_opened_at (expire_pending_invites now S) = ms_window_opened_at S"
  "ms_window_max (expire_pending_invites now S) = ms_window_max S"
  by (simp_all add: expire_pending_invites_def drop_invites_def)

lemma window_fields [simp]:
  "ms_invites (open_join_window now S) = ms_invites S" "ms_invites (close_join_window S) = ms_invites S"
  "ms_join_open (open_join_window now S)" "\<not> ms_join_open (close_join_window S)"
  by (simp_all add: open_join_window_def close_join_window_def)

lemma redeem_invites:
  "set (ms_invites (snd (redeem_invite now jr pk S))) \<subseteq>
     set (ms_invites S) \<union> {v. iv_claimed_by v = pk \<and> (\<exists>w\<in>set (ms_invites S). iv_claimed_by w = [] \<and> iv_token w = iv_token v)}"
proof (cases "claim_invite (jr_token jr) pk (ms_invites (expire_pending_invites now S))")
  case None
  then show ?thesis using expire_invites by (fastforce simp: redeem_invite_def Let_def)
next
  case (Some ws)
  then obtain xs v ys where "ms_invites (expire_pending_invites now S) = xs @ v # ys" "iv_claimed_by v = []"
      "ws = xs @ v\<lparr>iv_claimed_by := pk\<rparr> # ys"
    by (auto elim: claim_invite_split)
  then show ?thesis using Some expire_invites [of now S] by (fastforce simp: redeem_invite_def Let_def)
qed

lemma tick_invites: "set (ms_invites (maybe_close_join_window now S)) \<subseteq> set (ms_invites S)"
  using expire_invites [of now S] by (auto simp: maybe_close_join_window_def drop_invites_def Let_def)

lemma spent_step:
  assumes "spent t S" "\<forall>now. op \<noteq> OpInvite now (Some t)"
  shows "spent t (mesh_step op S)"
proof (cases op)
  case (OpInvite now u)
  then show ?thesis using assms expire_invites [of now S]
    by (cases u) (auto simp: spent_def invite_def list_ex_iff Let_def)
next
  case (OpTick now)
  then show ?thesis using assms tick_invites [of now S] by (auto simp: spent_def list_ex_iff)
next
  case (OpJoin E jr pk)
  have "ms_invites (mesh_step op S) = ms_invites (snd (redeem_invite (en_now E) jr pk S))"
    using process_join_frame [of E jr pk S] OpJoin by (simp add: invite_view_def)
  with assms redeem_invites [of "en_now E" jr pk S] show ?thesis
    by (fastforce simp: spent_def list_ex_iff)
qed (use assms in \<open>simp_all add: spent_def invite_view_eqD(1) [OF dispatch_frame]
    invite_view_eqD(1) [OF enroll_command_frame] invite_view_eqD(1) [OF merge_peers_frame]
    invite_view_eqD(1) [OF mdns_frame] invite_view_eqD(1) [OF prune_frame]\<close>)

lemma spent_run:
  assumes "spent t S" "\<forall>now. OpInvite now (Some t) \<notin> set ops"
  shows "spent t (mesh_run ops S)"
  by (rule mesh_run_induct [where P = "spent t"]) (use assms in \<open>auto intro: spent_step\<close>)

lemma spent_join:
  assumes "spent (jr_token jr) S"
  shows "process_join_request E jr pk S =
    (no_reply\<lparr>jp_error := ''invalid or expired token''\<rparr>, expire_pending_invites (en_now E) S, [])"
proof -
  let ?S = "expire_pending_invites (en_now E) S"
  have "claim_invite (jr_token jr) pk (ms_invites ?S) = None"
    using assms expire_invites [of "en_now E" S] by (auto simp: claim_invite_None spent_def list_ex_iff)
  then have "redeem_invite (en_now E) jr pk S = (no_reply\<lparr>jp_error := ''invalid or expired token''\<rparr>, ?S)"
    by (simp add: redeem_invite_def Let_def)
  then show ?thesis by (simp add: process_join_request_def authorize_joiner_def no_reply_def)
qed

lemma redeemed_is_spent:
  assumes "claim_invite t pk vs = Some ws" "pk \<noteq> []" "distinct (map iv_token vs)"
  shows "\<not> list_ex (\<lambda>v. iv_token v = t \<and> iv_claimed_by v = []) ws"
proof -
  obtain xs v ys where "vs = xs @ v # ys" "iv_token v = t" "ws = xs @ v\<lparr>iv_claimed_by := pk\<rparr> # ys"
    using assms(1) by (rule claim_invite_split)
  with assms(2,3) show ?thesis by (auto simp: list_ex_iff) (metis image_eqI)+
qed

lemma join_spends:
  assumes "pk \<noteq> []" "distinct (map iv_token (ms_invites S))"
  shows "spent (jr_token jr) (mesh_step (OpJoin E jr pk) S)"
proof -
  let ?S = "expire_pending_invites (en_now E) S"
  have d: "distinct (map iv_token (ms_invites ?S))"
    using assms(2) by (simp add: expire_pending_invites_def drop_invites_def distinct_map_filter)
  have i: "ms_invites (mesh_step (OpJoin E jr pk) S) = ms_invites (snd (redeem_invite (en_now E) jr pk S))"
    using process_join_frame [of E jr pk S] by (simp add: invite_view_def)
  show ?thesis
  proof (cases "claim_invite (jr_token jr) pk (ms_invites ?S)")
    case None
    from this [unfolded claim_invite_None] None i show ?thesis
      by (simp add: spent_def redeem_invite_def Let_def)
  next
    case (Some ws)
    from redeemed_is_spent [OF Some assms(1) d] i Some show ?thesis
      by (simp add: spent_def redeem_invite_def Let_def)
  qed
qed

text \<open>C20. An invite admits one key: after a join attempt with a token, whatever happens next (other invites,
  joins, enrollments, announcements, edits of the keys file), every later attempt with that token is
  refused, changes no trust and announces nothing.\<close>

theorem invite_is_single_use:
  assumes "distinct (map iv_token (ms_invites S))" "pk \<noteq> []" "\<forall>now. OpInvite now (Some (jr_token jr)) \<notin> set ops"
    and "jr_token jr2 = jr_token jr" "T = mesh_run (OpJoin E jr pk # ops) S"
  shows "process_join_request E2 jr2 pk2 T =
    (no_reply\<lparr>jp_error := ''invalid or expired token''\<rparr>, expire_pending_invites (en_now E2) T, [])"
proof -
  have "spent (jr_token jr) T"
    unfolding assms(5) mesh_run_simps by (rule spent_run [OF join_spends [OF assms(2,1)] assms(3)])
  with assms(4) show ?thesis by (intro spent_join) simp
qed

section \<open>The join window\<close>

lemma unclaimed_needs_window_step:
  assumes "unclaimed S \<longrightarrow> ms_join_open S"
  shows "unclaimed (mesh_step op S) \<longrightarrow> ms_join_open (mesh_step op S)"
proof (cases op)
  case (OpInvite now u)
  then show ?thesis using assms by (cases u) (auto simp: invite_def Let_def unclaimed_def)
next
  case (OpTick now)
  then show ?thesis using assms expire_invites [of now S]
    by (auto simp: unclaimed_def maybe_close_join_window_def drop_invites_def list_ex_iff Let_def)
next
  case (OpJoin E jr pk)
  let ?T = "snd (redeem_invite (en_now E) jr pk S)"
  have v: "ms_invites (mesh_step op S) = ms_invites ?T" "ms_join_open (mesh_step op S) = ms_join_open ?T"
    using process_join_frame [of E jr pk S] OpJoin by (simp_all add: invite_view_def)
  have "ms_join_open ?T = ms_join_open S" by (simp add: redeem_invite_def Let_def split: option.split)
  with v assms redeem_invites [of "en_now E" jr pk S] show ?thesis
    by (fastforce simp: unclaimed_def list_ex_iff)
qed (use assms in \<open>simp_all add: unclaimed_def invite_view_eqD(1,2) [OF dispatch_frame]
    invite_view_eqD(1,2) [OF enroll_command_frame] invite_view_eqD(1,2) [OF merge_peers_frame]
    invite_view_eqD(1,2) [OF mdns_frame] invite_view_eqD(1,2) [OF prune_frame]\<close>)

lemma tick_fields:
  assumes "T = maybe_close_join_window now S" "ms_join_open T"
  shows "unclaimed T" "ms_window_opened_at T = 0 \<or> now - ms_window_opened_at T < ms_window_max T * second_ns"
    "list_all (\<lambda>v. now - iv_created_at v \<le> kInviteTtl) (ms_invites T)"
  using assms
  by (auto simp: maybe_close_join_window_def unclaimed_def Let_def expire_pending_invites_def drop_invites_def
      close_join_window_def list_ex_iff list_all_iff split: if_splits)

text \<open>C30. After every tick of the event loop the join window, in which certificates of unknown keys are let through
  the TLS handshake, is open exactly when an invite is waiting to be claimed; such an invite is no older
  than two hours, and the window has been open for less than its configured maximum.\<close>

theorem join_window_is_bounded:
  assumes "\<not> unclaimed S0 \<or> ms_join_open S0" "T = mesh_run (ops @ [OpTick now]) S0"
  shows "(ms_join_open T \<longleftrightarrow> unclaimed T) \<and>
    (ms_join_open T \<longrightarrow>
       list_all (\<lambda>v. now - iv_created_at v \<le> kInviteTtl) (ms_invites T) \<and>
       (ms_window_opened_at T = 0 \<or> now - ms_window_opened_at T < ms_window_max T * second_ns))"
proof -
  have "unclaimed T \<longrightarrow> ms_join_open T" unfolding assms(2)
    by (rule mesh_run_induct [where P = "\<lambda>S. unclaimed S \<longrightarrow> ms_join_open S"])
      (use assms(1) unclaimed_needs_window_step in auto)
  moreover have "T = maybe_close_join_window now (mesh_run ops S0)" by (simp add: assms(2) mesh_run_def)
  ultimately show ?thesis using tick_fields by blast
qed

section \<open>Enrollments\<close>

lemma apply_seen: "apply_directory_enroll E e S = (True, S1) \<Longrightarrow> enroll_id e \<in> set (ms_seen S1)"
  by (auto simp: apply_directory_enroll_def remember_seen_def split: if_splits option.splits)

lemma learn_member_fields [simp]:
  "ms_pending (learn_member E e S) = ms_pending S" "ms_seen (learn_member E e S) = ms_seen S"
  "ms_auth_file (learn_member E e S) = ms_auth_file S" "ms_auth_path (learn_member E e S) = ms_auth_path S"
  "ms_seeds (learn_member E e S) = ms_seeds S" "ms_our_pubkey (learn_member E e S) = ms_our_pubkey S"
  by (simp_all add: learn_member_def)

lemma remember_seen_fields [simp]:
  "ms_pending (remember_seen k S) = ms_pending S" "set (ms_seen (remember_seen k S)) = insert k (set (ms_seen S))"
  "ms_auth_file (remember_seen k S) = ms_auth_file S" "ms_auth_path (remember_seen k S) = ms_auth_path S"
  "ms_seeds (remember_seen k S) = ms_seeds S" "ms_discovered (remember_seen k S) = ms_discovered S"
  "ms_our_pubkey (remember_seen k S) = ms_our_pubkey S"
  by (auto simp: remember_seen_def)

text \<open>C32. An enrollment that a peer sends is applied but never passed on and never kept for peers that
  connect later: applying it has already recorded its id, so the guard against relaying twice finds it
  seen the first time too.\<close>

theorem received_enrollment_is_never_relayed:
  "snd (dispatch_enroll E i e S) = [] \<and> ms_pending (fst (dispatch_enroll E i e S)) = ms_pending S"
proof (cases "version_has_cap (ml_version (ms_links S ! i)) kCapEnroll")
  case True
  obtain b S1 where ap: "apply_directory_enroll E e S = (b, S1)" by (cases "apply_directory_enroll E e S")
  then have "ms_pending S1 = ms_pending S" by (rule apply_cases) (auto simp: enrolled_def)
  with ap True apply_seen [of E e S S1] show ?thesis by (cases b) (simp_all add: dispatch_enroll_def)
qed (simp add: dispatch_enroll_def)

text \<open>The fields a signed payload can be read as.\<close>

lemma split_on_single: "split_on sep cur xs = [y] \<Longrightarrow> y = rev cur @ xs"
proof (induction xs arbitrary: cur)
  case (Cons x xs)
  then show ?case using Cons.IH [of "x # cur"] by (simp split: if_splits)
qed simp

lemma split_payload:
  "split_on (CHR 0x00) [] (signed_payload e) =
     split_on (CHR 0x00) [] (de_name e) @ split_on (CHR 0x00) [] (de_pubkey_hex e) @ split_on (CHR 0x00) [] (de_addr e) @
     split_on (CHR 0x00) [] (de_issuer_pubkey e) @ split_on (CHR 0x00) [] (dec_digits (unat (de_issued_at e)))"
  by (simp add: signed_payload_def split_on_append_sep)

lemma dec_digits_NUL_free: "CHR 0x00 \<notin> set (dec_digits n)"
  using dec_digits_digits [of "CHR 0x00" n] by (auto simp: is_digit_def code_of_def)

lemma five_singletons:
  assumes "as @ bs @ cs @ ds @ es = [a, b, c, d, e]" "as \<noteq> []" "bs \<noteq> []" "cs \<noteq> []" "ds \<noteq> []" "es \<noteq> []"
  shows "as = [a]" "bs = [b]" "cs = [c]" "ds = [d]" "es = [e]"
  using assms by (auto simp: append_eq_Cons_conv)

definition NUL_free :: "DirectoryEnrollMsg \<Rightarrow> bool" where
  "NUL_free e \<longleftrightarrow> list_all (\<lambda>s. CHR 0x00 \<notin> set s) [de_name e, de_pubkey_hex e, de_addr e, de_issuer_pubkey e]"

text \<open>The signed bytes of an enrollment without NUL characters have one reading: any enrollment with the same
  signed bytes names the same member, key, address, issuer and time.\<close>

theorem honest_enrollment_has_one_reading:
  assumes "NUL_free e" "signed_payload e2 = signed_payload e"
  shows "e2\<lparr>de_signature := de_signature e\<rparr> = e"
proof -
  let ?split = "split_on (CHR 0x00) []"
  have "?split (signed_payload e) =
      [de_name e, de_pubkey_hex e, de_addr e, de_issuer_pubkey e, dec_digits (unat (de_issued_at e))]"
    using assms(1) by (simp add: split_payload NUL_free_def split_on_free dec_digits_NUL_free)
  then have "?split (de_name e2) @ ?split (de_pubkey_hex e2) @ ?split (de_addr e2) @ ?split (de_issuer_pubkey e2) @
      ?split (dec_digits (unat (de_issued_at e2))) =
      [de_name e, de_pubkey_hex e, de_addr e, de_issuer_pubkey e, dec_digits (unat (de_issued_at e))]"
    by (simp add: assms(2) split_payload [of e2, symmetric])
  from five_singletons [OF this, THEN split_on_single]
  have "de_name e2 = de_name e" "de_pubkey_hex e2 = de_pubkey_hex e" "de_addr e2 = de_addr e"
      "de_issuer_pubkey e2 = de_issuer_pubkey e" "dec_digits (unat (de_issued_at e2)) = dec_digits (unat (de_issued_at e))"
    by simp_all
  moreover from this(5) have "de_issued_at e2 = de_issued_at e" using parse_dec_digits by (metis word_unat_eq_iff)
  ultimately show ?thesis by (cases e; cases e2) simp
qed

lemma signed_payload_shift:
  assumes "de_name e = n @ CHR 0x00 # k @ CHR 0x00 # a"
  shows "signed_payload (e\<lparr>de_name := n, de_pubkey_hex := k, de_addr := a @ CHR 0x00 # de_pubkey_hex e @ CHR 0x00 # de_addr e\<rparr>)
    = signed_payload e"
  using assms by (simp add: signed_payload_def)

definition redeemable :: "int \<Rightarrow> string \<Rightarrow> mesh \<Rightarrow> bool" where
  "redeemable now t S \<longleftrightarrow>
     list_ex (\<lambda>v. iv_token v = t \<and> iv_claimed_by v = [] \<and> now - iv_created_at v \<le> kInviteTtl) (ms_invites S)"

lemma redeem_cases:
  obtains (refused) "\<not> redeemable now (jr_token jr) S"
      "redeem_invite now jr pk S = (no_reply\<lparr>jp_error := ''invalid or expired token''\<rparr>, expire_pending_invites now S)"
  | (claimed) vs where "redeemable now (jr_token jr) S"
      "redeem_invite now jr pk S = (welcome_reply (expire_pending_invites now S) jr, expire_pending_invites now S\<lparr>ms_invites := vs\<rparr>)"
proof (cases "claim_invite (jr_token jr) pk (ms_invites (expire_pending_invites now S))")
  case None
  then have "\<not> redeemable now (jr_token jr) S"
    by (auto simp: claim_invite_None redeemable_def expire_pending_invites_def drop_invites_def list_ex_iff)
  with None show ?thesis by (intro refused) (simp_all add: redeem_invite_def Let_def)
next
  case (Some vs)
  then have "list_ex (\<lambda>v. iv_token v = jr_token jr \<and> iv_claimed_by v = []) (ms_invites (expire_pending_invites now S))"
    using claim_invite_None [of "jr_token jr" pk] by (metis option.distinct(1))
  then have "redeemable now (jr_token jr) S"
    by (auto simp: redeemable_def expire_pending_invites_def drop_invites_def list_ex_iff)
  with Some show ?thesis by (intro claimed) (simp_all add: redeem_invite_def Let_def)
qed

lemma expire_other [simp]:
  "ms_our_pubkey (expire_pending_invites now S) = ms_our_pubkey S" "ms_auth_file (expire_pending_invites now S) = ms_auth_file S"
  "ms_seen (expire_pending_invites now S) = ms_seen S" "ms_seeds (expire_pending_invites now S) = ms_seeds S"
  "ms_discovered (expire_pending_invites now S) = ms_discovered S"
  by (simp_all add: expire_pending_invites_def drop_invites_def)

text \<open>What the first part of a join leaves: the file has at most the joiner's key more.\<close>

lemma joined:
  assumes "authorize_joiner E pk (redeem_invite now jr pk S) = (r, S1)"
  shows "ms_our_pubkey S1 = ms_our_pubkey S" "ms_seen S1 = ms_seen S" "ms_seeds S1 = ms_seeds S" "ms_discovered S1 = ms_discovered S"
    "ms_auth_file S1 = ms_auth_file S \<or>
       redeemable now (jr_token jr) S \<and> pk \<noteq> [] \<and> ms_auth_file S1 = Some (append_auth (en_append E (ms_auth_file S)) (ms_auth_file S) pk)"
    "jp_ok r \<Longrightarrow> redeemable now (jr_token jr) S"
    "jp_ok r \<Longrightarrow> jp_node_name r = (if jr_node_name jr = [] then ''node-'' @ take 8 (jr_token jr) else jr_node_name jr)"
  using assms
  by (rule_tac [!] redeem_cases [of now jr S pk])
    (auto simp: authorize_joiner_def no_reply_def welcome_reply_def dest: authorize_cases split: if_splits option.splits)

lemma join_broadcast:
  assumes "process_join_request E jr pk S = (r, S1, out)" "(i, e) \<in> set out"
  shows "de_pubkey_hex e = pk" "de_addr e = jr_listen_addr jr" "de_issuer_pubkey e = ms_our_pubkey S"
    "jr_node_name jr \<noteq> [] \<Longrightarrow> de_name e = jr_node_name jr"
proof -
  obtain r0 S0 where j: "authorize_joiner E pk (redeem_invite (en_now E) jr pk S) = (r0, S0)"
    by (cases "authorize_joiner E pk (redeem_invite (en_now E) jr pk S)")
  have ok: "jp_ok r0" and e: "e = make_directory_enroll E S0 (jp_node_name r0) pk (jr_listen_addr jr)"
    using assms by (auto simp: process_join_request_def j broadcast_enroll_def Let_def split: if_splits)
  show "de_pubkey_hex e = pk" "de_addr e = jr_listen_addr jr" "de_issuer_pubkey e = ms_our_pubkey S"
      "jr_node_name jr \<noteq> [] \<Longrightarrow> de_name e = jr_node_name jr"
    using joined(1,7) [OF j] ok by (simp_all add: e make_directory_enroll_def Let_def)
qed

text \<open>C31. The name a joiner asks for is signed as it is. With NUL characters in it, the enrollment the host
  broadcasts for the joiner's key \<open>pk\<close> can be read as one for any other key \<open>k\<close>: every
  node that would accept the first accepts the second under the same signature, and adds \<open>k\<close> to its
  authorized keys. One invite, redeemed once, admits two keys.\<close>

theorem join_name_vouches_for_second_key:
  assumes "process_join_request E jr pk S = (r, S1, out)" "(i, e) \<in> set out"
    and "jr_node_name jr = n @ CHR 0x00 # k @ CHR 0x00 # a" "k \<noteq> ms_our_pubkey S"
    and "e2 = e\<lparr>de_name := n, de_pubkey_hex := k, de_addr := a @ CHR 0x00 # pk @ CHR 0x00 # jr_listen_addr jr\<rparr>"
    and "vouched E2 e P" "enroll_id e2 \<notin> set (ms_seen P)" "en_append E2 (ms_auth_file P) = AllWritten" "ms_auth_path P \<noteq> []"
    and "\<not> has_auth_line (ms_auth_file P) k"
  shows "fst (apply_directory_enroll E2 e2 P) \<and>
    ms_auth_file (snd (apply_directory_enroll E2 e2 P)) = Some (append_auth AllWritten (ms_auth_file P) k)"
proof -
  note e = join_broadcast [OF assms(1,2)]
  have name: "de_name e = n @ CHR 0x00 # k @ CHR 0x00 # a" using e(4) assms(3) by simp
  have "signed_payload e2 = signed_payload e"
    using signed_payload_shift [OF name] assms(5) e(1,2) by simp
  moreover have "de_issuer_pubkey e2 = de_issuer_pubkey e" "de_issued_at e2 = de_issued_at e" "de_signature e2 = de_signature e"
      "de_pubkey_hex e2 = k"
    by (simp_all add: assms(5))
  ultimately have "vouched E2 e2 P"
    using assms(4,6) e(3) by (simp add: vouched_def issuer_is_seed_def enroll_is_fresh_def)
  with assms(7-10) \<open>de_pubkey_hex e2 = k\<close> show ?thesis by (simp add: apply_directory_enroll_def authorize_def Let_def)
qed

text \<open>A host with one invite, and a peer that pins the host.\<close>

definition mesh_sample_env :: mesh_env where
  "mesh_sample_env = \<lparr>en_now = 5, en_unix = 1000, en_sign = map (\<lambda>c. word_of_nat (code_of c)),
     en_verify = (\<lambda>key payload sig. sig = map (\<lambda>c. word_of_nat (code_of c)) payload), en_dir_ok = True, en_append = (\<lambda>_. AllWritten)\<rparr>"

definition sample_key :: "byte \<Rightarrow> string" where
  "sample_key b = pubkey_hex (replicate 32 b)"

definition sample_mesh :: "PeerEntry list \<Rightarrow> byte \<Rightarrow> mesh" where
  "sample_mesh seeds b = \<lparr>ms_node_name = ''n'', ms_our_pubkey = sample_key b, ms_listen_addr = ''h'', ms_listen_port = 7,
     ms_seeds = seeds, ms_discovered = [], ms_window_max = 60, ms_auth_path = ''keys'', ms_auth_file = None,
     ms_auth = \<lparr>ak_keys = [], ak_file_path = ''keys''\<rparr>, ms_invites = [\<lparr>iv_token = ''t'', iv_created_at = 1, iv_claimed_by = []\<rparr>],
     ms_window_opened_at = 1, ms_join_open = True, ms_expired = 0, ms_seen = [], ms_pending = [], ms_generation = 0,
     ms_links = [\<lparr>ml_open = True, ml_purpose = PurposeMesh, ml_busy = False, ml_pubkey = sample_key 2, ml_version = ''1+enroll'',
        ml_fd = 3, ml_name = ''p'', ml_addr = ''p:1'', ml_outbound = False, ml_hello = None, ml_close_requested = False,
        ml_last_pong = 0, ml_ping_sent = 0, ml_rtt_ms = 0, ml_completed = False, ml_suspended = False\<rparr>]\<rparr>"

definition sample_peer :: mesh where
  "sample_peer = sample_mesh [\<lparr>pe_name = ''host'', pe_addr = ''h:7'', pe_pubkey_hex = sample_key 1, pe_last_seen = 0\<rparr>] 2"

definition sample_join :: "string \<Rightarrow> JoinRequestMsg" where
  "sample_join name = \<lparr>jr_token = ''t'', jr_node_name = name, jr_listen_addr = ''j:1''\<rparr>"

lemma sample_key_facts [simp]:
  "length (sample_key b) = 64" "sample_key b \<noteq> []" "hex_decode (sample_key b) = replicate 32 b"
  "sample_key b = sample_key c \<longleftrightarrow> b = c"
proof -
  show "sample_key b = sample_key c \<longleftrightarrow> b = c"
  proof
    assume "sample_key b = sample_key c"
    then have "hex_decode (sample_key b) = hex_decode (sample_key c)" by (rule arg_cong)
    then show "b = c" by (simp add: sample_key_def)
  qed simp
qed (auto simp: sample_key_def)

lemma sample_cap: "version_has_cap ''1+enroll'' kCapEnroll" by code_simp

lemma sample_redeem:
  "redeem_invite 5 (sample_join name) pk (sample_mesh seeds b) =
     (welcome_reply (sample_mesh seeds b) (sample_join name),
      sample_mesh seeds b\<lparr>ms_invites := [\<lparr>iv_token = ''t'', iv_created_at = 1, iv_claimed_by = pk\<rparr>]\<rparr>)"
proof -
  have "expire_pending_invites 5 (sample_mesh seeds b) = sample_mesh seeds b"
    by (simp add: expire_pending_invites_def drop_invites_def sample_mesh_def kInviteTtl_def second_ns_def)
  then show ?thesis by (simp add: redeem_invite_def) (simp add: sample_mesh_def sample_join_def)
qed

lemma sample_joined:
  assumes "pk \<noteq> []"
  shows "authorize_joiner mesh_sample_env pk (redeem_invite 5 (sample_join name) pk (sample_mesh seeds b)) =
     (welcome_reply (sample_mesh seeds b) (sample_join name),
      sample_mesh seeds b\<lparr>ms_invites := [\<lparr>iv_token = ''t'', iv_created_at = 1, iv_claimed_by = pk\<rparr>],
        ms_auth_file := Some (append_auth AllWritten None pk)\<rparr>)"
  unfolding sample_redeem authorize_joiner_def
  using assms by (simp add: welcome_reply_def mesh_sample_env_def authorize_def has_auth_line_def Let_def) (simp add: sample_mesh_def)

definition sample_enroll :: "string \<Rightarrow> DirectoryEnrollMsg" where
  "sample_enroll name = make_directory_enroll mesh_sample_env (sample_mesh [] 1) name (sample_key 3) ''j:1''"

lemma sample_signature:
  "de_signature (sample_enroll name) = en_sign mesh_sample_env (signed_payload (sample_enroll name))" "de_signature (sample_enroll name) \<noteq> []"
  by (simp_all add: sample_enroll_def make_directory_enroll_def signed_payload_def mesh_sample_env_def Let_def)

lemma sample_fields [simp]:
  "de_issuer_pubkey (sample_enroll name) = sample_key 1" "de_pubkey_hex (sample_enroll name) = sample_key 3"
  "de_name (sample_enroll name) = name" "de_addr (sample_enroll name) = ''j:1''" "de_issued_at (sample_enroll name) = 1000"
  by (simp_all add: sample_enroll_def make_directory_enroll_def sample_mesh_def mesh_sample_env_def Let_def)

lemma sample_vouched:
  assumes "issuer_is_seed P (sample_enroll name)"
  shows "vouched mesh_sample_env (sample_enroll name) P"
proof -
  have "en_verify mesh_sample_env = (\<lambda>key payload sig. sig = en_sign mesh_sample_env payload)" "en_unix mesh_sample_env = 1000"
    by (simp_all add: mesh_sample_env_def)
  with assms sample_signature [of name] show ?thesis
    by (simp add: vouched_def enroll_is_fresh_def ed25519_verify_def)
qed

lemma apply_links: "ms_links (snd (apply_directory_enroll E e S)) = ms_links S"
proof (cases "apply_directory_enroll E e S")
  case (Pair b S1)
  then have "ms_links S1 = ms_links S"
    by (rule apply_cases) (auto simp: enrolled_def remember_seen_def learn_member_def)
  with Pair show ?thesis by simp
qed

lemma sample_broadcast:
  assumes "name \<noteq> []"
  shows "(0, sample_enroll name) \<in>
    set (snd (snd (process_join_request mesh_sample_env (sample_join name) (sample_key 3) (sample_mesh [] 1))))"
proof -
  let ?S = "sample_mesh [] 1\<lparr>ms_invites := [\<lparr>iv_token = ''t'', iv_created_at = 1, iv_claimed_by = sample_key 3\<rparr>],
        ms_auth_file := Some (append_auth AllWritten None (sample_key 3))\<rparr>"
  let ?r = "welcome_reply (sample_mesh [] 1) (sample_join name)"
  have now: "en_now mesh_sample_env = 5" by (simp add: mesh_sample_env_def)
  have r: "jp_ok ?r" "jp_node_name ?r = name" using assms by (simp_all add: welcome_reply_def sample_join_def)
  have e: "make_directory_enroll mesh_sample_env ?S name (sample_key 3) (jr_listen_addr (sample_join name)) = sample_enroll name"
    by (simp add: sample_enroll_def make_directory_enroll_def sample_join_def)
  have "(0, sample_enroll name) \<in> set (broadcast_enroll (snd (apply_directory_enroll mesh_sample_env (sample_enroll name) ?S)) (sample_enroll name))"
    by (simp add: broadcast_enroll_def apply_links) (simp add: sample_mesh_def sample_cap)
  then show ?thesis
    using sample_signature(2)
    by (simp add: process_join_request_def now sample_joined r e Let_def) (simp add: sample_join_def)
qed

lemma join_name_vouches_for_second_key_witness:
  "fst (apply_directory_enroll mesh_sample_env
      (sample_enroll (''m'' @ CHR 0x00 # sample_key 4 @ CHR 0x00 # ''x'')\<lparr>de_name := ''m'', de_pubkey_hex := sample_key 4,
         de_addr := ''x'' @ CHR 0x00 # sample_key 3 @ CHR 0x00 # ''j:1''\<rparr>) sample_peer)"
proof -
  let ?name = "''m'' @ CHR 0x00 # sample_key 4 @ CHR 0x00 # ''x''"
  let ?J = "process_join_request mesh_sample_env (sample_join ?name) (sample_key 3) (sample_mesh [] 1)"
  have J: "?J = (fst ?J, fst (snd ?J), snd (snd ?J))" by simp
  have seed: "issuer_is_seed sample_peer (sample_enroll ?name)"
    by (simp add: issuer_is_seed_def sample_peer_def) (simp add: sample_mesh_def)
  have "(0, sample_enroll ?name) \<in> set (snd (snd ?J))" by (rule sample_broadcast) simp
  from join_name_vouches_for_second_key [OF J this _ _ _ sample_vouched [OF seed], of "''m''" "sample_key 4" "''x''"]
  show ?thesis
    by (simp add: sample_join_def sample_peer_def sample_mesh_def mesh_sample_env_def has_auth_line_def)
qed

section \<open>Who may be added to the authorized keys\<close>








lemma dispatch_state:
  "fst (dispatch_enroll E i e S) = S \<or> fst (dispatch_enroll E i e S) = snd (apply_directory_enroll E e S)"
  using apply_seen [of E e S] by (auto simp: dispatch_enroll_def split: prod.split bool.split)

lemma enroll_command_state:
  "fst (enroll_command E name pk addr S) = S \<or>
   length pk = 64 \<and> fst (enroll_command E name pk addr S) =
     remember_pending_enroll (make_directory_enroll E S name pk addr)
       (snd (apply_directory_enroll E (make_directory_enroll E S name pk addr) S))"
  by (auto simp: enroll_command_def Let_def split: prod.split)

lemma merge_peers_keeps:
  "ms_auth_file (merge_peers now ps S) = ms_auth_file S" "ms_seen (merge_peers now ps S) = ms_seen S"
proof -
  have "ms_auth_file (snd (foldl (\<lambda>cS p. merge_peer now p cS) cS ps)) = ms_auth_file (snd cS) \<and>
      ms_seen (snd (foldl (\<lambda>cS p. merge_peer now p cS) cS ps)) = ms_seen (snd cS)" for cS
  proof (induction ps arbitrary: cS)
    case (Cons p ps)
    have "ms_auth_file (snd (merge_peer now p cS)) = ms_auth_file (snd cS) \<and> ms_seen (snd (merge_peer now p cS)) = ms_seen (snd cS)"
      by (auto simp: merge_peer_def Let_def split: prod.splits)
    with Cons show ?case by simp
  qed simp
  from this [of "(False, S)"]
  show "ms_auth_file (merge_peers now ps S) = ms_auth_file S" "ms_seen (merge_peers now ps S) = ms_seen S"
    by (auto simp: merge_peers_def split: prod.split)
qed

lemma quiet_ops:
  "ms_auth_file (fst (invite now t S)) = ms_auth_file S" "ms_seen (fst (invite now t S)) = ms_seen S"
  "ms_auth_file (maybe_close_join_window now S) = ms_auth_file S" "ms_seen (maybe_close_join_window now S) = ms_seen S"
  "ms_auth_file (process_mdns_announcement u name addr pk S) = ms_auth_file S"
  "ms_seen (process_mdns_announcement u name addr pk S) = ms_seen S"
  "ms_auth_file (prune_stale_discovered_peers ttl u S) = ms_auth_file S" "ms_seen (prune_stale_discovered_peers ttl u S) = ms_seen S"
  by (auto simp: invite_def maybe_close_join_window_def process_mdns_announcement_def prune_stale_discovered_peers_def
      open_join_window_def close_join_window_def drop_invites_def expire_pending_invites_def Let_def
      split: option.splits prod.splits)




lemma apply_seen_mono: "set (ms_seen S) \<subseteq> set (ms_seen (snd (apply_directory_enroll E e S)))"
  by (cases "apply_directory_enroll E e S") (auto elim!: apply_cases simp: enrolled_def)

lemma process_join_seen: "set (ms_seen S) \<subseteq> set (ms_seen (fst (snd (process_join_request E jr pk S))))"
proof -
  obtain r0 S0 where j: "authorize_joiner E pk (redeem_invite (en_now E) jr pk S) = (r0, S0)"
    by (cases "authorize_joiner E pk (redeem_invite (en_now E) jr pk S)")
  let ?e = "make_directory_enroll E S0 (jp_node_name r0) pk (jr_listen_addr jr)"
  have "fst (snd (process_join_request E jr pk S)) = S0 \<or>
      fst (snd (process_join_request E jr pk S)) = remember_pending_enroll ?e (snd (apply_directory_enroll E ?e S0))"
    by (simp add: process_join_request_def j Let_def)
  then show ?thesis
    using joined(2) [OF j] apply_seen_mono [of S0 E ?e] by (auto simp: remember_pending_enroll_def Let_def)
qed

lemma seen_step: "set (ms_seen S) \<subseteq> set (ms_seen (mesh_step op S))"
proof (cases op)
  case (OpJoin E jr pk)
  then show ?thesis by (simp add: process_join_seen)
next
  case (OpEnroll E i e)
  then show ?thesis using dispatch_state [of E i e S] apply_seen_mono [of S E e] by auto
next
  case (OpEnrollCommand E name pk addr)
  then show ?thesis
    using enroll_command_state [of E name pk addr S] apply_seen_mono [of S E "make_directory_enroll E S name pk addr"]
    by (auto simp: remember_pending_enroll_def Let_def)
qed (simp_all add: quiet_ops merge_peers_keeps)

text \<open>C28. An enrollment takes effect once. After it has been applied, submitting it again, through whatever
  operations and edits of the keys file in between, changes nothing, and succeeds only when it is still
  vouched for and its member is still trusted: a revoked member does not come back by a replay.\<close>

theorem enrollment_applies_once:
  assumes "apply_directory_enroll E e S = (True, S1)" "T = mesh_run ops S1"
  shows "apply_directory_enroll E2 e T = (vouched E2 e T \<and> still_trusted T e, T)"
proof -
  have "enroll_id e \<in> set (ms_seen T)" unfolding assms(2)
    by (rule mesh_run_induct [where P = "\<lambda>S. enroll_id e \<in> set (ms_seen S)"])
      (use apply_seen [OF assms(1)] seen_step in auto)
  then show ?thesis by (simp add: apply_directory_enroll_def)
qed

lemma sample_applied: "apply_directory_enroll mesh_sample_env (sample_enroll name) sample_peer =
    (True, snd (apply_directory_enroll mesh_sample_env (sample_enroll name) sample_peer))"
proof -
  have "issuer_is_seed sample_peer (sample_enroll name)"
    by (simp add: issuer_is_seed_def sample_peer_def) (simp add: sample_mesh_def)
  from sample_vouched [OF this] show ?thesis
    by (simp add: apply_directory_enroll_def sample_peer_def sample_mesh_def mesh_sample_env_def authorize_def has_auth_line_def Let_def)
qed

lemma enrollment_applies_once_witness:
  "fst (apply_directory_enroll mesh_sample_env (sample_enroll ''m'')
     (mesh_run [OpEditKeys None] (snd (apply_directory_enroll mesh_sample_env (sample_enroll ''m'') sample_peer)))) = False"
proof -
  let ?T = "mesh_run [OpEditKeys None] (snd (apply_directory_enroll mesh_sample_env (sample_enroll ''m'') sample_peer))"
  have "ms_auth_path ?T = ''keys''"
    using sample_applied [of "''m''"]
    by (cases rule: apply_cases) (auto simp: enrolled_def remember_seen_def learn_member_def sample_peer_def sample_mesh_def)
  then have "\<not> still_trusted ?T (sample_enroll ''m'')" by (simp add: still_trusted_def has_auth_line_def)
  with enrollment_applies_once [OF sample_applied, of ?T "[OpEditKeys None]" "''m''" mesh_sample_env] show ?thesis by simp
qed

lemma invite_is_single_use_witness:
  "fst (process_join_request mesh_sample_env (sample_join ''m'') (sample_key 4)
      (mesh_run [OpJoin mesh_sample_env (sample_join ''m'') (sample_key 3)] (sample_mesh [] 1)))
    = no_reply\<lparr>jp_error := ''invalid or expired token''\<rparr>"
  using invite_is_single_use [of "sample_mesh [] 1" "sample_key 3" "sample_join ''m''" "[]" "sample_join ''m''" _ mesh_sample_env mesh_sample_env "sample_key 4"]
  by (simp add: sample_mesh_def)

lemma join_window_is_bounded_witness:
  "ms_join_open (mesh_run ([] @ [OpTick 5]) (sample_mesh [] 1)) \<longleftrightarrow> unclaimed (mesh_run ([] @ [OpTick 5]) (sample_mesh [] 1))"
  using join_window_is_bounded [of "sample_mesh [] 1" _ "[]" 5] by (simp add: sample_mesh_def)

lemma honest_enrollment_has_one_reading_witness:
  "(sample_enroll ''m'')\<lparr>de_signature := []\<rparr>\<lparr>de_signature := de_signature (sample_enroll ''m'')\<rparr> = sample_enroll ''m''"
proof (rule honest_enrollment_has_one_reading)
  show "NUL_free (sample_enroll ''m'')"
    using pubkey_hex_chars [of "CHR 0x00"] by (auto simp: NUL_free_def sample_key_def is_digit_def is_lower_def code_of_def)
qed (simp add: signed_payload_def)

section \<open>The directory\<close>

abbreviation peer_keys :: "PeerEntry list \<Rightarrow> string list" where
  "peer_keys ps \<equiv> map pe_pubkey_hex ps"

definition keys_ok :: "string list \<Rightarrow> string list \<Rightarrow> bool" where
  "keys_ok ds ss \<longleftrightarrow> distinct ds \<and> set ds \<inter> set ss = {}"

definition directory_ok :: "mesh \<Rightarrow> bool" where
  "directory_ok S \<longleftrightarrow> keys_ok (peer_keys (ms_discovered S)) (peer_keys (ms_seeds S))"

lemma keys_ok_snoc: "keys_ok ds ss \<Longrightarrow> k \<notin> set ds \<Longrightarrow> k \<notin> set ss \<Longrightarrow> keys_ok (ds @ [k]) ss"
  by (auto simp: keys_ok_def)

definition seed_identity :: "PeerEntry \<Rightarrow> string \<times> string \<times> string" where
  "seed_identity p = (pe_name p, pe_addr p, pe_pubkey_hex p)"

lemma merge_seed_identity: "map seed_identity (snd (merge_seed now p ss)) = map seed_identity ss"
  by (induction ss) (auto simp: seed_identity_def split: prod.split)

lemma merge_seed_keys: "peer_keys (snd (merge_seed now p ss)) = peer_keys ss"
  by (induction ss) (auto split: prod.split)

lemma merge_seed_False: "\<not> fst (merge_seed now p ss) \<Longrightarrow> pi_pubkey_hex p \<noteq> [] \<Longrightarrow> pi_pubkey_hex p \<notin> set (peer_keys ss)"
  by (induction ss) (auto split: prod.splits if_splits)

lemma merge_discovered_keys: "peer_keys (snd (snd (merge_discovered now p ds))) = peer_keys ds"
  by (induction ds) (auto simp: update_discovered_def Let_def split: prod.split)

lemma merge_discovered_False: "\<not> fst (merge_discovered now p ds) \<Longrightarrow> pi_pubkey_hex p \<notin> set (peer_keys ds)"
  by (induction ds) (auto simp: Let_def split: prod.splits if_splits)

text \<open>One announced peer.\<close>

lemma merge_peer_cases:
  fixes cS p now
  defines "T \<equiv> snd (merge_peer now p cS)"
  obtains (known) "peer_keys (ms_discovered T) = peer_keys (ms_discovered (snd cS))"
  | (learned) "peer_keys (ms_discovered T) = peer_keys (ms_discovered (snd cS)) @ [pi_pubkey_hex p]"
      "pi_pubkey_hex p \<notin> set (peer_keys (ms_discovered (snd cS)))" "pi_pubkey_hex p \<notin> set (peer_keys (ms_seeds (snd cS)))"
      "pi_pubkey_hex p \<noteq> ms_our_pubkey (snd cS)" "pi_pubkey_hex p \<noteq> []"
      "fst (is_trusted_pubkey (ms_seeds (snd cS)) (ms_auth_file (snd cS)) (ms_auth (snd cS)) (pi_pubkey_hex p))"
proof -
  obtain c S where cS: "cS = (c, S)" by (cases cS)
  obtain t a where t: "is_trusted_pubkey (ms_seeds S) (ms_auth_file S) (ms_auth S) (pi_pubkey_hex p) = (t, a)"
    by (cases "is_trusted_pubkey (ms_seeds S) (ms_auth_file S) (ms_auth S) (pi_pubkey_hex p)")
  obtain f ss where ss: "merge_seed now p (ms_seeds S) = (f, ss)" by (cases "merge_seed now p (ms_seeds S)")
  obtain g ch ds where ds: "merge_discovered now p (ms_discovered S) = (g, ch, ds)"
    by (cases "merge_discovered now p (ms_discovered S)" rule: prod_cases3)
  have keys: "peer_keys ds = peer_keys (ms_discovered S)" using merge_discovered_keys [of now p "ms_discovered S"] ds by simp
  show ?thesis
  proof (cases "pi_pubkey_hex p = [] \<or> pi_pubkey_hex p = ms_our_pubkey S \<or> \<not> t \<or> f \<or> g")
    case True
    then show ?thesis using keys by (intro known) (auto simp: T_def merge_peer_def cS t ss ds Let_def)
  next
    case False
    then show ?thesis
      using keys merge_seed_False [of now p "ms_seeds S"] merge_discovered_False [of now p "ms_discovered S"]
      by (intro learned) (auto simp: T_def merge_peer_def cS t ss ds Let_def)
  qed
qed

lemma merge_peer_seeds:
  "map seed_identity (ms_seeds (snd (merge_peer now p cS))) = map seed_identity (ms_seeds (snd cS))"
  "peer_keys (ms_seeds (snd (merge_peer now p cS))) = peer_keys (ms_seeds (snd cS))"
  "ms_our_pubkey (snd (merge_peer now p cS)) = ms_our_pubkey (snd cS)"
  using merge_seed_identity [of now p "ms_seeds (snd cS)"] merge_seed_keys [of now p "ms_seeds (snd cS)"]
  by (auto simp: merge_peer_def Let_def split: prod.split)

definition trusted_now :: "mesh \<Rightarrow> string \<Rightarrow> bool" where
  "trusted_now S k \<longleftrightarrow> fst (is_trusted_pubkey (ms_seeds S) (ms_auth_file S) (ms_auth S) k)"

lemma trusted_by_keys:
  "trusted_now S k \<longleftrightarrow> k \<noteq> [] \<and> (k \<in> set (peer_keys (ms_seeds S)) \<or>
     (length (hex_decode k) = 32 \<and> ak_contains (reload (ms_auth_file S) (ms_auth S)) (hex_decode k)))"
  by (auto simp: trusted_now_def is_trusted_pubkey_def is_trusted_pubkey_cached_def list_ex_iff Let_def)

lemma reload_again [simp]: "reload content (reload content a) = reload content a"
  by (simp add: reload_def load_from_file_def)

lemma merge_peer_trust: "trusted_now (snd (merge_peer now p cS)) k \<longleftrightarrow> trusted_now (snd cS) k"
proof -
  have "reload (ms_auth_file (snd (merge_peer now p cS))) (ms_auth (snd (merge_peer now p cS)))
      = reload (ms_auth_file (snd cS)) (ms_auth (snd cS))"
    by (auto simp: merge_peer_def is_trusted_pubkey_def Let_def split: prod.split)
  then show ?thesis using merge_peer_seeds(2) [of now p cS] by (simp add: trusted_by_keys)
qed

lemma merge_peers_as_fold:
  "ms_seeds (merge_peers now ps S) = ms_seeds (snd (foldl (\<lambda>cS p. merge_peer now p cS) (False, S) ps))"
  "ms_discovered (merge_peers now ps S) = ms_discovered (snd (foldl (\<lambda>cS p. merge_peer now p cS) (False, S) ps))"
  by (auto simp: merge_peers_def split: prod.split)

lemma fold_merge:
  "map seed_identity (ms_seeds (snd (foldl (\<lambda>cS p. merge_peer now p cS) cS ps))) = map seed_identity (ms_seeds (snd cS)) \<and>
   (\<forall>k\<in>set (peer_keys (ms_discovered (snd (foldl (\<lambda>cS p. merge_peer now p cS) cS ps)))).
      k \<in> set (peer_keys (ms_discovered (snd cS))) \<or>
      k \<in> pi_pubkey_hex ` set ps \<and> k \<noteq> ms_our_pubkey (snd cS) \<and> trusted_now (snd cS) k)"
proof (induction ps arbitrary: cS)
  case (Cons p ps)
  let ?T = "merge_peer now p cS"
  have "\<forall>k\<in>set (peer_keys (ms_discovered (snd ?T))). k \<in> set (peer_keys (ms_discovered (snd cS))) \<or>
      k = pi_pubkey_hex p \<and> k \<noteq> ms_our_pubkey (snd cS) \<and> trusted_now (snd cS) k"
    by (cases rule: merge_peer_cases [of now p cS]) (auto simp: trusted_now_def)
  with Cons.IH [of ?T] show ?case
    unfolding foldl_Cons merge_peer_seeds merge_peer_trust by (simp only: list.set image_insert) blast
qed simp

text \<open>C29. A Hello or Gossip cannot introduce anyone: each peer it adds to the directory has a key that is in the
  authorized keys file or pinned by a seed at that moment, is not the node's own, and was announced; and
  the name, the address and the pin of the configured seeds stay as they are.\<close>

theorem gossip_adds_only_trusted_peers:
  "map seed_identity (ms_seeds (merge_peers now ps S)) = map seed_identity (ms_seeds S) \<and>
   set (peer_keys (ms_discovered (merge_peers now ps S))) \<subseteq> set (peer_keys (ms_discovered S)) \<union>
     {k \<in> pi_pubkey_hex ` set ps. k \<noteq> ms_our_pubkey S \<and> trusted_now S k}"
  using fold_merge [of now "(False, S)" ps] by (auto simp: merge_peers_as_fold)

lemma directory_ok_cong:
  "peer_keys (ms_discovered T) = peer_keys (ms_discovered S) \<Longrightarrow> peer_keys (ms_seeds T) = peer_keys (ms_seeds S)
    \<Longrightarrow> directory_ok T \<longleftrightarrow> directory_ok S"
  by (simp add: directory_ok_def)

lemma merge_peer_directory: "directory_ok (snd cS) \<Longrightarrow> directory_ok (snd (merge_peer now p cS))"
  by (cases rule: merge_peer_cases [of now p cS])
    (simp_all add: directory_ok_def merge_peer_seeds keys_ok_snoc del: set_map)

lemma merge_peers_directory:
  assumes "directory_ok S"
  shows "directory_ok (merge_peers now ps S)"
proof -
  have "directory_ok (snd cS) \<Longrightarrow> directory_ok (snd (foldl (\<lambda>cS p. merge_peer now p cS) cS ps))" for cS
    by (induction ps arbitrary: cS) (simp_all add: merge_peer_directory)
  from this [of "(False, S)"] assms show ?thesis by (simp add: merge_peers_as_fold directory_ok_def)
qed

lemma mdns_entries_None: "mdns_entries same upd name pk ps = None \<Longrightarrow> list_all (\<lambda>p. \<not> same p) ps"
  by (induction ps) (auto split: if_splits)

lemma mdns_entries_keys:
  "mdns_entries same upd name pk ps = Some qs \<Longrightarrow> (\<And>p. pe_pubkey_hex (upd p) = pe_pubkey_hex p) \<Longrightarrow> peer_keys qs = peer_keys ps"
  by (induction ps arbitrary: qs) (auto split: if_splits)

lemma mdns_directory:
  assumes "directory_ok S"
  shows "directory_ok (process_mdns_announcement now name addr pk S)"
proof -
  let ?same = "\<lambda>s. pe_pubkey_hex s \<noteq> [] \<and> pe_pubkey_hex s = pk"
  let ?upds = "\<lambda>s. s\<lparr>pe_addr := (if addr \<noteq> [] then addr else pe_addr s), pe_last_seen := now\<rparr>"
  let ?updd = "\<lambda>d. d\<lparr>pe_addr := (if addr \<noteq> [] then addr else pe_addr d), pe_name := (if name \<noteq> [] then name else pe_name d), pe_last_seen := now\<rparr>"
  let ?ss = "mdns_entries ?same ?upds name pk (ms_seeds S)"
  let ?ds = "mdns_entries (\<lambda>d. pe_pubkey_hex d = pk) ?updd name pk (ms_discovered S)"
  have ss: "?ss = Some qs \<Longrightarrow> peer_keys qs = peer_keys (ms_seeds S)" for qs by (erule mdns_entries_keys) simp
  have ds: "?ds = Some qs \<Longrightarrow> peer_keys qs = peer_keys (ms_discovered S)" for qs by (erule mdns_entries_keys) simp
  have ns: "?ss = None \<Longrightarrow> pk \<noteq> [] \<Longrightarrow> pk \<notin> set (peer_keys (ms_seeds S))"
    by (drule mdns_entries_None) (auto simp: list_all_iff)
  have nd: "?ds = None \<Longrightarrow> pk \<notin> set (peer_keys (ms_discovered S))"
    by (drule mdns_entries_None) (auto simp: list_all_iff)
  show ?thesis
    using assms ss ds keys_ok_snoc [OF _ nd ns]
    by (auto simp: process_mdns_announcement_def directory_ok_def Let_def simp del: set_map
        split: prod.split option.split)
qed

lemma knows_key_iff: "knows_key S k \<longleftrightarrow> k \<in> set (peer_keys (ms_seeds S)) \<or> k \<in> set (peer_keys (ms_discovered S))"
  by (auto simp: knows_key_def list_ex_iff)

lemma learn_member_directory: "directory_ok S \<Longrightarrow> directory_ok (learn_member E e S)"
proof (cases "knows_key S (de_pubkey_hex e)")
  case False
  moreover assume "directory_ok S"
  ultimately show ?thesis unfolding knows_key_iff directory_ok_def learn_member_def
    by (simp add: keys_ok_snoc del: set_map)
qed (simp add: learn_member_def)

lemma apply_directory:
  assumes "directory_ok S"
  shows "directory_ok (snd (apply_directory_enroll E e S))"
proof (cases "apply_directory_enroll E e S")
  case (Pair b S1)
  then have "directory_ok S1"
  proof (cases rule: apply_cases)
    case enrolled
    from enrolled(2) obtain S0 a where S0: "S0 = S \<or> S0 = S\<lparr>ms_auth_file := Some (append_auth (en_append E (ms_auth_file S)) (ms_auth_file S) (de_pubkey_hex e))\<rparr>"
        and S1: "S1 = remember_seen (enroll_id e) (learn_member E e (S0\<lparr>ms_auth := a\<rparr>))"
      unfolding enrolled_def by blast
    from S0 assms have "directory_ok (S0\<lparr>ms_auth := a\<rparr>)" by (auto simp: directory_ok_def)
    from learn_member_directory [OF this] S1 show ?thesis by (simp add: directory_ok_def)
  qed (use assms in simp)
  with Pair show ?thesis by simp
qed

lemma pending_directory [simp]: "directory_ok (remember_pending_enroll e S) \<longleftrightarrow> directory_ok S"
  by (simp add: remember_pending_enroll_def directory_ok_def Let_def)

lemma process_join_directory:
  assumes "directory_ok S"
  shows "directory_ok (fst (snd (process_join_request E jr pk S)))"
proof -
  obtain r0 S0 where j: "authorize_joiner E pk (redeem_invite (en_now E) jr pk S) = (r0, S0)"
    by (cases "authorize_joiner E pk (redeem_invite (en_now E) jr pk S)")
  have "directory_ok S0" using assms joined(3,4) [OF j] by (simp add: directory_ok_def)
  then show ?thesis by (auto simp: process_join_request_def j Let_def intro: apply_directory)
qed

lemma quiet_directory:
  "directory_ok (fst (invite now t S)) = directory_ok S" "directory_ok (maybe_close_join_window now S) = directory_ok S"
  by (auto simp: invite_def maybe_close_join_window_def open_join_window_def close_join_window_def drop_invites_def
      directory_ok_def Let_def split: option.splits)

lemma prune_directory: "directory_ok S \<Longrightarrow> directory_ok (prune_stale_discovered_peers ttl now S)"
  by (auto simp: prune_stale_discovered_peers_def directory_ok_def keys_ok_def distinct_map_filter Let_def)

lemma directory_step: "directory_ok S \<Longrightarrow> directory_ok (mesh_step op S)"
proof (cases op)
  case (OpEnroll E i e)
  moreover assume "directory_ok S"
  ultimately show ?thesis using dispatch_state [of E i e S] by (auto intro: apply_directory)
next
  case (OpEnrollCommand E name pk addr)
  moreover assume "directory_ok S"
  ultimately show ?thesis using enroll_command_state [of E name pk addr S] by (auto intro: apply_directory)
qed (simp_all add: quiet_directory process_join_directory merge_peers_directory mdns_directory prune_directory,
  simp add: directory_ok_def)

text \<open>Whatever the order of joins, enrollments, announcements and timers, the directory lists each key once:
  no two learned peers have the same key and none has the key of a configured seed.\<close>

theorem directory_lists_each_key_once:
  assumes "directory_ok S"
  shows "directory_ok (mesh_run ops S)"
  by (rule mesh_run_induct [where P = directory_ok]) (use assms directory_step in auto)

lemma directory_lists_each_key_once_witness:
  "directory_ok (mesh_run [OpEnroll mesh_sample_env 0 (sample_enroll ''m''), OpEditKeys None] sample_peer)"
  by (rule directory_lists_each_key_once) (simp add: directory_ok_def keys_ok_def sample_peer_def sample_mesh_def)

text \<open>An entry of another key under the announced name should reject the announcement, and does unless an entry
  of the announced key follows it: then that entry takes the name too.\<close>

lemma taken_name_is_not_rejected:
  assumes "peer_name_eq (pe_name d) (pi_name p)" "pe_pubkey_hex d \<noteq> pi_pubkey_hex p" "pe_pubkey_hex d2 = pi_pubkey_hex p" "pi_name p \<noteq> []"
  shows "map pe_name (snd (snd (merge_discovered now p [d, d2]))) = [pe_name d, pi_name p]"
  using assms by (simp add: update_discovered_def Let_def)

text \<open>The freshness of an enrollment has no upper end.\<close>

lemma future_enrollment_stays_fresh:
  "unat (en_unix E) \<le> unat (de_issued_at e) \<Longrightarrow> unat (de_issued_at e) + 86400 < 2 ^ 64 \<Longrightarrow> de_issued_at e \<noteq> 0 \<Longrightarrow> enroll_is_fresh E e"
  by (simp add: enroll_is_fresh_def word_less_nat_alt unat_plus_simple [THEN iffD1] unat_word_ariths)

end
