(* ===== verification/Peering_Props.thy ===== *)
theory Peering_Props
  imports Peering Enrollment_Props
begin

text \<open>
  What holds of the links of a node: the two ends of a doubled link keep the same one, one of two nodes
  gives way to the other's dial but not for ever, a dial respects the pins, the back-off and the
  cool-down, and the heartbeat closes exactly the silent links.
\<close>

section \<open>Order of keys\<close>

lemma code_of_eq_iff: "code_of x = code_of y \<longleftrightarrow> x = y"
  by (simp add: code_of_def)

lemma name_less_irrefl [simp]: "\<not> name_less x x"
  by (induction x) auto

lemma name_less_asym: "name_less x y \<Longrightarrow> \<not> name_less y x"
  by (induction x y rule: name_less.induct) auto

lemma name_less_linear: "x \<noteq> y \<Longrightarrow> name_less x y \<or> name_less y x"
proof (induction x y rule: name_less.induct)
  case (1 x)
  then show ?case by (cases x) auto
next
  case (3 x xs y ys)
  consider "code_of x < code_of y" | "code_of y < code_of x" | "x = y" using code_of_eq_iff nat_neq_iff by blast
  then show ?case using 3 by cases auto
qed simp

section \<open>Doubled links\<close>

lemma set_links_simps [simp]:
  "pg_links (set_links ls P) = ls" "ms_our_pubkey (pg_mesh (set_links ls P)) = ms_our_pubkey (pg_mesh P)"
  "pg_backoffs (set_links ls P) = pg_backoffs P"
  by (simp_all add: set_links_def)

lemma remove_idle:
  assumes "i < length (pg_links P)" "\<not> ml_busy (pg_links P ! i)"
  obtains P1 where "remove_conn now i P = (True, P1)" "pg_links P1 = drop_nth i (pg_links P)"
    "ms_our_pubkey (pg_mesh P1) = ms_our_pubkey (pg_mesh P)"
  using assms by (auto simp: remove_conn_def close_link_def Let_def)

lemma resolve_no_pairs: "duplicate_pairs (pg_links P) = [] \<Longrightarrow> resolve_duplicates now P = P"
  by (subst resolve_duplicates.simps) simp

lemma resolve_step:
  assumes "duplicate_pairs (pg_links P) = ij # rest"
    and "remove_conn now (duplicate_to_drop (ms_our_pubkey (pg_mesh P)) (pg_links P) ij) P = (True, P1)"
  shows "resolve_duplicates now P = resolve_duplicates now P1"
  using assms by (subst resolve_duplicates.simps) simp

lemma pairs_of_two:
  assumes "ml_open l" "ml_open m" "connections_are_mesh_duplicates l m"
  shows "duplicate_pairs [l, m] = [(0, 1)]"
  using assms by (simp add: duplicate_pairs_def upt_rec)

lemma pairs_of_one [simp]: "duplicate_pairs [l] = []"
  by (simp add: duplicate_pairs_def)

text \<open>Two links of which one has the wanted direction.\<close>

lemma resolve_two:
  assumes "pg_links P = [l, m]" "ml_open l" "ml_open m" "connections_are_mesh_duplicates l m"
    and "\<not> ml_busy l" "\<not> ml_busy m" "ml_outbound l \<noteq> ml_outbound m"
  shows "pg_links (resolve_duplicates now P) =
    [if ml_outbound l = name_less (ms_our_pubkey (pg_mesh P)) (ml_pubkey l) then l else m]"
proof -
  let ?d = "duplicate_to_drop (ms_our_pubkey (pg_mesh P)) (pg_links P) (0, 1)"
  have d: "?d = (if ml_outbound l = name_less (ms_our_pubkey (pg_mesh P)) (ml_pubkey l) then 1 else 0)"
    using assms(1,7) by (auto simp: duplicate_to_drop_def duplicate_index_to_drop_def Let_def)
  obtain P1 where P1: "remove_conn now ?d P = (True, P1)" "pg_links P1 = drop_nth ?d (pg_links P)"
    by (rule remove_idle [of ?d P now]) (use assms(1,5,6) d in auto)
  have one: "pg_links P1 = [if ml_outbound l = name_less (ms_our_pubkey (pg_mesh P)) (ml_pubkey l) then l else m]"
    using P1(2) assms(1) d by (auto simp: drop_nth_def)
  have "resolve_duplicates now P = resolve_duplicates now P1"
    by (rule resolve_step [OF _ P1(1)]) (simp add: assms(1) pairs_of_two [OF assms(2-4)])
  also have "\<dots> = P1" by (rule resolve_no_pairs) (simp add: one)
  finally show ?thesis using one by simp
qed

text \<open>C24. Two nodes with different keys have dialled each other, and each of them has exactly these two links,
  both open, not in the middle of a transfer (\<open>ml_busy\<close>) and already classified as mesh links. Then both
  close the same one of the two, whatever order each of them learned the links in: the link that the node
  with the smaller key dialled survives at both ends, and the nodes stay connected. (A node for which one of
  the links is busy keeps both for the time being.)\<close>

theorem both_ends_keep_the_same_link:
  fixes xA yA xB yB :: MeshLink
  assumes "pg_links PA = [xA, yA] \<or> pg_links PA = [yA, xA]" "pg_links PB = [xB, yB] \<or> pg_links PB = [yB, xB]"
    and "list_all (\<lambda>l. ml_open l \<and> \<not> ml_busy l \<and> ml_purpose l = PurposeMesh) [xA, yA, xB, yB]"
    and "ml_outbound xA" "\<not> ml_outbound yA" "\<not> ml_outbound xB" "ml_outbound yB"
    and "ms_our_pubkey (pg_mesh PA) = a" "ms_our_pubkey (pg_mesh PB) = b" "a \<noteq> b" "a \<noteq> []" "b \<noteq> []"
    and "ml_pubkey xA = b" "ml_pubkey yA = b" "ml_pubkey xB = a" "ml_pubkey yB = a"
  shows "pg_links (resolve_duplicates t PA) = [if name_less a b then xA else yA] \<and>
    pg_links (resolve_duplicates u PB) = [if name_less a b then xB else yB]"
proof
  have order: "name_less b a \<longleftrightarrow> \<not> name_less a b" using name_less_linear [OF assms(10)] name_less_asym by blast
  have dup: "connections_are_mesh_duplicates xA yA" "connections_are_mesh_duplicates yA xA"
      "connections_are_mesh_duplicates xB yB" "connections_are_mesh_duplicates yB xB"
    using assms by (simp_all add: connections_are_mesh_duplicates_def)
  show "pg_links (resolve_duplicates t PA) = [if name_less a b then xA else yA]"
    using assms(1)
  proof
    assume "pg_links PA = [xA, yA]"
    from resolve_two [OF this _ _ dup(1)] assms show ?thesis by simp
  next
    assume "pg_links PA = [yA, xA]"
    from resolve_two [OF this _ _ dup(2)] assms show ?thesis by simp
  qed
  show "pg_links (resolve_duplicates u PB) = [if name_less a b then xB else yB]"
    using assms(2)
  proof
    assume "pg_links PB = [xB, yB]"
    from resolve_two [OF this _ _ dup(3)] assms order show ?thesis by simp
  next
    assume "pg_links PB = [yB, xB]"
    from resolve_two [OF this _ _ dup(4)] assms order show ?thesis by simp
  qed
qed

text \<open>Resolving in general.\<close>

lemma set_drop_nth: "i < length xs \<Longrightarrow> set xs = insert (xs ! i) (set (drop_nth i xs))"
  using id_take_nth_drop [of i xs] by (metis Un_insert_right drop_nth_def list.simps(15) set_append)

lemma in_drop_nth: "j < length xs \<Longrightarrow> j \<noteq> i \<Longrightarrow> xs ! j \<in> set (drop_nth i xs)"
proof -
  assume j: "j < length xs" "j \<noteq> i"
  consider "j < i" | "j > i" using j by linarith
  then show ?thesis
  proof cases
    case 1
    then have "xs ! j = take i xs ! j" "j < length (take i xs)" using j by simp_all
    then show ?thesis by (metis UnI1 drop_nth_def nth_mem set_append)
  next
    case 2
    then have "xs ! j = drop (Suc i) xs ! (j - Suc i)" "j - Suc i < length (drop (Suc i) xs)" using j by simp_all
    then show ?thesis by (metis UnI2 drop_nth_def nth_mem set_append)
  qed
qed

lemma pair_is_duplicate:
  assumes "(i, j) \<in> set (duplicate_pairs ls)"
  shows "i < j" "j < length ls" "ml_open (ls ! i)" "ml_open (ls ! j)" "connections_are_mesh_duplicates (ls ! i) (ls ! j)"
  using assms by (auto simp: duplicate_pairs_def split: if_splits)

definition mesh_peer :: "MeshLink list \<Rightarrow> string \<Rightarrow> bool" where
  "mesh_peer ls k \<longleftrightarrow> (\<exists>l\<in>set ls. ml_open l \<and> ml_purpose l = PurposeMesh \<and> ml_pubkey l = k)"

lemma mesh_peer_iff: "has_conn_for_pubkey ls k \<longleftrightarrow> mesh_peer ls k"
  by (auto simp: has_conn_for_pubkey_def mesh_peer_def list_ex_iff)

lemma drop_duplicate_keeps_peer:
  assumes "(i, j) \<in> set (duplicate_pairs ls)" "d = i \<or> d = j"
  shows "mesh_peer (drop_nth d ls) k \<longleftrightarrow> mesh_peer ls k"
proof -
  note p = pair_is_duplicate [OF assms(1)]
  let ?o = "if d = i then j else i"
  have o: "ls ! ?o \<in> set (drop_nth d ls)" using assms(2) p by (intro in_drop_nth) auto
  have d: "d < length ls" using assms(2) p by auto
  have "ml_pubkey (ls ! ?o) = ml_pubkey (ls ! d)" "ml_open (ls ! ?o)" "ml_purpose (ls ! ?o) = PurposeMesh"
    using p assms(2) by (auto simp: connections_are_mesh_duplicates_def)
  with o set_drop_nth [OF d] show ?thesis by (auto simp: mesh_peer_def)
qed

lemma resolve_invariants:
  assumes "\<forall>l\<in>set (pg_links P). \<not> ml_busy l"
  shows "duplicate_pairs (pg_links (resolve_duplicates now P)) = [] \<and>
    (\<forall>k. mesh_peer (pg_links (resolve_duplicates now P)) k \<longleftrightarrow> mesh_peer (pg_links P) k) \<and>
    set (pg_links (resolve_duplicates now P)) \<subseteq> set (pg_links P)"
  using assms
proof (induction now P rule: resolve_duplicates.induct)
  case (1 now P)
  show ?case
  proof (cases "duplicate_pairs (pg_links P)")
    case Nil
    then show ?thesis by (simp add: resolve_no_pairs)
  next
    case (Cons ij rest)
    obtain i j where ij: "ij = (i, j)" by (cases ij)
    let ?d = "duplicate_to_drop (ms_our_pubkey (pg_mesh P)) (pg_links P) ij"
    have p: "(i, j) \<in> set (duplicate_pairs (pg_links P))" using Cons ij by simp
    have d: "?d = i \<or> ?d = j" by (simp add: ij duplicate_to_drop_def Let_def)
    have lt: "?d < length (pg_links P)" using Cons by (intro duplicate_to_drop_lt) simp
    obtain P1 where P1: "remove_conn now ?d P = (True, P1)" "pg_links P1 = drop_nth ?d (pg_links P)"
      using remove_idle [OF lt, of now] 1(2) lt by (metis nth_mem)
    have sub: "set (pg_links P1) \<subseteq> set (pg_links P)" using set_drop_nth [OF lt] P1(2) by auto
    with 1(2) have "\<forall>l\<in>set (pg_links P1). \<not> ml_busy l" by blast
    from 1(1) [OF Cons P1(1) [symmetric] _ this] resolve_step [OF Cons P1(1)] sub drop_duplicate_keeps_peer [OF p d] P1(2)
    show ?thesis by auto
  qed
qed

text \<open>C25. When no link is in use by a worker, resolving the doubled links leaves each peer exactly one mesh link:
  no peer loses its last link, no two links to one key remain and no link appears.\<close>

theorem one_link_per_peer:
  assumes "\<forall>l\<in>set (pg_links P). \<not> ml_busy l" "T = resolve_duplicates now P"
  shows "(\<forall>k. has_conn_for_pubkey (pg_links T) k \<longleftrightarrow> has_conn_for_pubkey (pg_links P) k) \<and>
    (\<forall>i j. i < j \<and> j < length (pg_links T) \<and> ml_open (pg_links T ! i) \<and> ml_open (pg_links T ! j) \<longrightarrow>
       \<not> connections_are_mesh_duplicates (pg_links T ! i) (pg_links T ! j)) \<and>
    set (pg_links T) \<subseteq> set (pg_links P)"
proof -
  note r = resolve_invariants [OF assms(1), of now]
  have "(i, j) \<in> set (duplicate_pairs (pg_links T))"
    if "i < j" "j < length (pg_links T)" "ml_open (pg_links T ! i)" "ml_open (pg_links T ! j)"
      "connections_are_mesh_duplicates (pg_links T ! i) (pg_links T ! j)" for i j
    using that by (auto simp: duplicate_pairs_def)
  with r assms(2) show ?thesis by (fastforce simp: mesh_peer_iff)
qed

section \<open>Who dials\<close>

text \<open>Of two nodes that know each other's keys exactly one holds back its own dial to wait for the
  other's.\<close>

theorem exactly_one_side_waits:
  assumes "a \<noteq> b" "a \<noteq> []" "b \<noteq> []" "pe_pubkey_hex pa = a" "pe_pubkey_hex pb = b"
  shows "should_accept_only_for a na pb \<longleftrightarrow> \<not> should_accept_only_for b nb pa"
  using name_less_linear [OF assms(1)] name_less_asym assms by (auto simp: should_accept_only_for_def)

fun defer_run :: "int list \<Rightarrow> int option \<times> nat option \<Rightarrow> bool list" where
  "defer_run [] w = []"
| "defer_run (t # ts) w = (case defer_step t w of (d, w1) \<Rightarrow> d # defer_run ts w1)"

text \<open>The windows still to come after \<open>e\<close> extensions, in units of twelve seconds.\<close>

definition windows_left :: "nat \<Rightarrow> int" where
  "windows_left e = 2 ^ 6 - 2 ^ Suc e"

lemma windows_left_step: "windows_left e = 2 ^ Suc e + windows_left (Suc e)"
  by (simp add: windows_left_def)

lemma windows_left_nonneg: "e \<le> 5 \<Longrightarrow> windows_left e \<ge> 0"
  using power_increasing [of "Suc e" 6 "2::int"] by (simp add: windows_left_def)

definition window_ns :: int where
  "window_ns = kTieBreakAcceptWindowMs * ms_ns"

lemma window_pos: "window_ns > 0"
  by (simp add: window_ns_def kTieBreakAcceptWindowMs_def ms_ns_def)

lemma extend_bound:
  assumes "t < u + lag" "e < 5"
  shows "t + window_ns * 2 ^ Suc e + window_ns * windows_left (Suc e) + int (5 - Suc e) * lag
    < u + window_ns * windows_left e + int (5 - e) * lag"
proof -
  have "int (5 - e) * lag = int (5 - Suc e) * lag + lag" using assms(2) by (simp add: of_nat_diff algebra_simps)
  moreover have "window_ns * windows_left e = window_ns * 2 ^ Suc e + window_ns * windows_left (Suc e)"
    by (subst windows_left_step) (simp add: distrib_left)
  ultimately show ?thesis using assms(1) by linarith
qed

text \<open>Ticks that all wait stay before the end of the last window plus a lag for each extension.\<close>

lemma defer_run_bound:
  assumes "list_all (\<lambda>d. d) (defer_run ts (Some u, ext))" "e = (case ext of None \<Rightarrow> 0 | Some e \<Rightarrow> e)" "e \<le> 5"
    and "sorted_wrt (\<lambda>x y. x \<le> y) (t0 # ts)" "successively (\<lambda>x y. y - x \<le> lag) (t0 # ts)" "t0 < u" "lag \<ge> 0"
  shows "\<forall>t\<in>set ts. t < u + window_ns * windows_left e + int (5 - e) * lag"
  using assms
proof (induction ts arbitrary: t0 u ext e)
  case (Cons t ts)
  have lag: "t < u + lag" and tail: "successively (\<lambda>x y. y - x \<le> lag) (t # ts)" "sorted_wrt (\<lambda>x y. x \<le> y) (t # ts)"
    using Cons.prems(4,5,6) by auto
  have room: "window_ns * windows_left e \<ge> 0"
    using window_pos windows_left_nonneg [OF Cons.prems(3)] by simp
  have rl: "int (5 - e) * lag \<ge> 0" using Cons.prems(7) by simp
  show ?case
  proof (cases "t \<ge> u")
    case False
    then have "defer_step t (Some u, ext) = (True, Some u, ext)" by (simp add: defer_step_def)
    with Cons.prems(1) have "list_all (\<lambda>d. d) (defer_run ts (Some u, ext))" by simp
    from Cons.IH [OF this Cons.prems(2,3) tail(2,1) _ Cons.prems(7)] False room rl show ?thesis by auto
  next
    case True
    have e5: "e < 5" using Cons.prems(1,2) True by (rule_tac ccontr) (simp add: defer_step_def kTieBreakMaxExtends_def Let_def)
    let ?u = "t + window_ns * 2 ^ Suc e"
    have "defer_step t (Some u, ext) = (True, Some ?u, Some (Suc e))"
      using True e5 Cons.prems(2) by (simp add: defer_step_def kTieBreakMaxExtends_def Let_def window_ns_def mult.assoc mult.commute)
    with Cons.prems(1) have r: "list_all (\<lambda>d. d) (defer_run ts (Some ?u, Some (Suc e)))" by simp
    have tu: "t < ?u" using window_pos by simp
    have "\<forall>x\<in>set ts. x < ?u + window_ns * windows_left (Suc e) + int (5 - Suc e) * lag"
      using Cons.IH [OF r _ _ tail(2,1) tu Cons.prems(7)] e5 by simp
    moreover note extend_bound [OF lag e5]
    moreover have "window_ns * windows_left (Suc e) \<ge> 0"
      using window_pos windows_left_nonneg [of "Suc e"] e5 by simp
    moreover have "int (5 - Suc e) * lag \<ge> 0" using Cons.prems(7) by simp
    ultimately show ?thesis using tu by fastforce
  qed
qed simp

text \<open>The decisions of the looks at a peer at the given times, while nothing else touches the entries of its
  address.\<close>

fun defer_looks :: "PeerEntry \<Rightarrow> int list \<Rightarrow> peering \<Rightarrow> bool list" where
  "defer_looks peer [] P = []"
| "defer_looks peer (t # ts) P =
     (case should_defer_outbound_for peer t P of (d, P1) \<Rightarrow> d # defer_looks peer ts P1)"

lemma defer_looks_run:
  assumes "pe_addr peer \<noteq> []"
    and "should_accept_only_for (ms_our_pubkey (pg_mesh P)) (ms_node_name (pg_mesh P)) peer"
  shows "defer_looks peer ts P = defer_run ts (pg_accept_only P (pe_addr peer), pg_extends P (pe_addr peer))"
  using assms(2)
proof (induction ts arbitrary: P)
  case (Cons t ts)
  then show ?case using assms(1) by (simp add: should_defer_outbound_for_def Let_def split: prod.split)
qed simp

text \<open>C26. A node that leaves the dial to its peer does not wait for ever: it looks at the peer at times that
  are at most \<open>lag\<close> nanoseconds apart, starting without entries for the address; if one of the looks is
  756 seconds and five lags after the first or later, one of them has decided not to wait. Such a
  look goes on to the remaining checks of a dial (dead-seed cool-down, back-off, limits), which are
  not part of this property.\<close>

theorem waiting_ends:
  assumes "sorted_wrt (\<lambda>x y. x \<le> y) (t0 # ts)" "successively (\<lambda>x y. y - x \<le> lag) (t0 # ts)" "lag \<ge> 0"
    and "t \<in> set ts" "t \<ge> t0 + 756 * second_ns + 5 * lag"
    and "pg_accept_only P (pe_addr peer) = None" "pg_extends P (pe_addr peer) = None"
  shows "False \<in> set (defer_looks peer (t0 # ts) P)"
proof (cases "pe_addr peer \<noteq> [] \<and> should_accept_only_for (ms_our_pubkey (pg_mesh P)) (ms_node_name (pg_mesh P)) peer")
  case True
  then have run: "defer_looks peer (t0 # ts) P = defer_run (t0 # ts) (None, None)"
    using defer_looks_run [of peer P "t0 # ts"] assms(6,7) by (simp del: defer_looks.simps defer_run.simps)
  show ?thesis
  proof (rule ccontr)
    assume "\<not> ?thesis"
    then have "list_all (\<lambda>d. d) (defer_run (t0 # ts) (None, None))"
      unfolding run list_all_iff by (metis (full_types))
    then have "list_all (\<lambda>d. d) (defer_run ts (Some (t0 + window_ns), None))"
      by (simp add: defer_step_def window_ns_def)
    from defer_run_bound [OF this refl _ assms(1,2)] window_pos assms(3,4)
    have "t < t0 + window_ns + window_ns * windows_left 0 + 5 * lag" by auto
    with assms(5) show False
      by (simp add: windows_left_def window_ns_def kTieBreakAcceptWindowMs_def ms_ns_def second_ns_def)
  qed
qed (auto simp: should_defer_outbound_for_def)

lemma exactly_one_side_waits_witness:
  "should_accept_only_for ''aa'' [] \<lparr>pe_name = ''b'', pe_addr = [], pe_pubkey_hex = ''bb'', pe_last_seen = 0\<rparr> \<longleftrightarrow>
   \<not> should_accept_only_for ''bb'' [] \<lparr>pe_name = ''a'', pe_addr = [], pe_pubkey_hex = ''aa'', pe_last_seen = 0\<rparr>"
  by (rule exactly_one_side_waits [of "''aa''" "''bb''"]) simp_all

section \<open>Heartbeat\<close>

text \<open>The heartbeat closes exactly the open links that no worker uses or has just released and that have been
  silent for longer than the deadline; the deadline is at least the configured timeout and, however slow
  the peer's answers were, at most twenty seconds or that timeout.\<close>

theorem heartbeat_closes_silent_links:
  "(ml_open l \<and> \<not> ml_open (check_pong_link timeout now l) \<longleftrightarrow>
      ml_open l \<and> \<not> ml_busy l \<and> \<not> ml_completed l \<and> \<not> ml_suspended l \<and> now - ml_last_pong l > pong_deadline timeout l) \<and>
   timeout * second_ns \<le> pong_deadline timeout l \<and> pong_deadline timeout l \<le> max (timeout * second_ns) (20 * second_ns)"
  by (auto simp: check_pong_link_def refresh_heartbeat_after_busy_def close_link_def pong_deadline_def Let_def second_ns_def ms_ns_def)

section \<open>Dialling\<close>

text \<open>Whether the back-off lets an address through, and whether it is parked in a cool-down.\<close>

definition due :: "int \<Rightarrow> peering \<Rightarrow> string \<Rightarrow> bool" where
  "due now P a \<longleftrightarrow> (case pg_backoffs P a of None \<Rightarrow> True | Some b \<Rightarrow> \<not> (bo_attempt b > 0 \<and> now < bo_next_attempt b))"

definition parked :: "int \<Rightarrow> peering \<Rightarrow> string \<Rightarrow> bool" where
  "parked now P a \<longleftrightarrow> (case pg_cooldowns P a of None \<Rightarrow> False | Some d \<Rightarrow> dc_in_cooldown d \<and> now < dc_until d)"

definition may_dial :: "int \<Rightarrow> peering \<Rightarrow> PeerEntry \<Rightarrow> bool" where
  "may_dial now P p \<longleftrightarrow>
     \<not> has_conn_for_seed (pg_links P) p \<and> (pg_require_pins P \<longrightarrow> pe_pubkey_hex p \<noteq> []) \<and>
     length (pg_links P) < pg_max_peers P \<and> due now P (pe_addr p) \<and> \<not> parked now P (pe_addr p)"

definition dial_of :: "PeerEntry \<Rightarrow> PendingHandshake \<Rightarrow> bool" where
  "dial_of p ph \<longleftrightarrow> \<not> ph_server_side ph \<and> ph_state ph \<in> {TcpConnect, TlsHandshake} \<and> ph_expected_addr ph = pe_addr p \<and> ph_expected_pubkey ph = pe_pubkey_hex p \<and>
     ph_expected_name ph = pe_name p"

text \<open>What a pass keeps: it may only tighten the back-offs, and what it adds is a permitted dial.\<close>

definition pass_inv :: "int \<Rightarrow> PeerEntry set \<Rightarrow> peering \<Rightarrow> peering \<Rightarrow> bool" where
  "pass_inv now cands P Q \<longleftrightarrow>
     pg_links Q = pg_links P \<and> pg_max_peers Q = pg_max_peers P \<and> pg_require_pins Q = pg_require_pins P \<and>
     ms_seeds (pg_mesh Q) = ms_seeds (pg_mesh P) \<and> ms_discovered (pg_mesh Q) = ms_discovered (pg_mesh P) \<and>
     ms_join_open (pg_mesh Q) = ms_join_open (pg_mesh P) \<and>
     (\<forall>a. due now Q a \<longrightarrow> due now P a) \<and> (\<forall>a. parked now Q a \<longleftrightarrow> parked now P a) \<and>
     (length (pg_pending P) \<le> kMaxPendingHandshakes \<longrightarrow> length (pg_pending Q) \<le> kMaxPendingHandshakes) \<and>
     (\<exists>new. pg_pending Q = pg_pending P @ new \<and> (\<forall>ph\<in>set new. \<exists>p\<in>cands. dial_of p ph \<and> may_dial now P p))"

lemma pass_inv_refl: "pass_inv now cands P P"
  by (simp add: pass_inv_def)

lemma pass_inv_mono: "pass_inv now A P Q \<Longrightarrow> A \<subseteq> B \<Longrightarrow> pass_inv now B P Q"
  unfolding pass_inv_def by blast

lemma pass_inv_trans:
  assumes "pass_inv now A P Q" "pass_inv now B Q R"
  shows "pass_inv now (A \<union> B) P R"
proof -
  have may: "may_dial now Q p \<Longrightarrow> may_dial now P p" for p
    using assms(1) by (auto simp: pass_inv_def may_dial_def)
  obtain xs where xs: "pg_pending Q = pg_pending P @ xs" "\<forall>ph\<in>set xs. \<exists>p\<in>A. dial_of p ph \<and> may_dial now P p"
    using assms(1) unfolding pass_inv_def by blast
  obtain ys where ys: "pg_pending R = pg_pending Q @ ys" "\<forall>ph\<in>set ys. \<exists>p\<in>B. dial_of p ph \<and> may_dial now Q p"
    using assms(2) unfolding pass_inv_def by blast
  have "pg_pending R = pg_pending P @ (xs @ ys)" "\<forall>ph\<in>set (xs @ ys). \<exists>p\<in>A \<union> B. dial_of p ph \<and> may_dial now P p"
    using xs ys may by (simp, simp add: ball_Un) (blast intro: may)
  then have "\<exists>new. pg_pending R = pg_pending P @ new \<and> (\<forall>ph\<in>set new. \<exists>p\<in>A \<union> B. dial_of p ph \<and> may_dial now P p)"
    by blast
  with assms show ?thesis unfolding pass_inv_def by simp
qed

lemma defer_pass:
  "pass_inv now {} P (snd (should_defer_outbound_for p now P))"
  by (auto simp: should_defer_outbound_for_def pass_inv_def due_def parked_def Let_def split: prod.split)

lemma cooldown_pass:
  "pass_inv now {} P (snd (dead_seed_cooldown_active a now P))"
  "fst (dead_seed_cooldown_active a now P) \<longleftrightarrow> parked now P a"
  by (auto simp: dead_seed_cooldown_active_def pass_inv_def due_def parked_def split: option.split)

lemma gate_pass:
  assumes "gate_candidate now p P = (ok, Q)"
  shows "pass_inv now {} P Q" "ok \<Longrightarrow> \<not> parked now Q (pe_addr p)"
proof -
  obtain d P1 where d: "should_defer_outbound_for p now P = (d, P1)" by (cases "should_defer_outbound_for p now P")
  have P1: "pass_inv now {} P P1" using defer_pass [of now P p] d by simp
  show "pass_inv now {} P Q"
    using assms d P1 pass_inv_trans [OF P1 cooldown_pass(1) [of now P1 "pe_addr p"]]
    by (auto simp: gate_candidate_def split: bool.splits prod.splits)
  show "ok \<Longrightarrow> \<not> parked now Q (pe_addr p)"
    using assms d cooldown_pass(1) [of now P1 "pe_addr p"] cooldown_pass(2) [of "pe_addr p" now P1]
    by (auto simp: gate_candidate_def pass_inv_def split: bool.splits prod.splits)
qed

lemma start_pass:
  assumes "start_outbound_handshake now dial p P = (started, Q)"
  shows "\<not> started \<Longrightarrow> Q = P" "started \<Longrightarrow> length (pg_pending P) < kMaxPendingHandshakes \<and>
    (\<exists>ph. Q = P\<lparr>pg_pending := pg_pending P @ [ph]\<rparr> \<and> dial_of p ph)"
  using assms by (auto simp: start_outbound_handshake_def dial_of_def new_handshake_def split: if_splits option.splits)

lemma candidate_pass:
  assumes "dial_candidate now rng dial init p P = (r, Q)" "may_dial now P p \<or> \<not> due now P (pe_addr p)"
    and "\<And>b. bo_attempt (init b) = bo_attempt b \<and> bo_next_attempt (init b) = bo_next_attempt b"
  shows "pass_inv now {p} P Q"
proof -
  let ?a = "pe_addr p"
  let ?bo = "init (case pg_backoffs P ?a of None \<Rightarrow> new_backoff | Some b \<Rightarrow> b)"
  let ?P1 = "P\<lparr>pg_backoffs := (pg_backoffs P)(?a \<mapsto> ?bo)\<rparr>"
  have held: "bo_attempt ?bo > 0 \<and> now < bo_next_attempt ?bo \<longleftrightarrow> \<not> due now P ?a"
    using assms(3) by (simp add: due_def new_backoff_def split: option.split)
  show ?thesis
  proof (cases "due now P ?a")
    case False
    then have "Q = ?P1" using assms(1) held by (auto simp: dial_candidate_def Let_def)
    with False held show ?thesis by (auto simp: pass_inv_def due_def parked_def)
  next
    case True
    obtain st P2 where st: "start_outbound_handshake now dial p ?P1 = (st, P2)" by (cases "start_outbound_handshake now dial p ?P1")
    note s = start_pass [OF st]
    have "\<exists>bo. Q = P2\<lparr>pg_backoffs := (pg_backoffs P2)(?a \<mapsto> bo)\<rparr>"
      using assms(1) True held st by (auto simp: dial_candidate_def Let_def split: bool.splits)
    then obtain bo where Q: "Q = P2\<lparr>pg_backoffs := (pg_backoffs P2)(?a \<mapsto> bo)\<rparr>" ..
    show ?thesis
    proof (cases st)
      case False
      with s(1) Q True show ?thesis by (auto simp: pass_inv_def due_def parked_def)
    next
      case started: True
      then obtain ph where ph: "P2 = ?P1\<lparr>pg_pending := pg_pending P @ [ph]\<rparr>" "dial_of p ph" "length (pg_pending P) < kMaxPendingHandshakes"
        using s(2) by auto
      with Q True assms(2) show ?thesis by (auto simp: pass_inv_def due_def parked_def)
    qed
  qed
qed

lemma mesh_auth_pass: "pass_inv now {} P (snd (refresh_trust pk P))"
  by (auto simp: refresh_trust_def pass_inv_def due_def parked_def Let_def split: prod.split)

lemma dial_tail:
  assumes "gate_candidate now p P = (True, P1)" "dial_candidate now rng dial init p P1 = (r, Q)"
    and "\<not> has_conn_for_seed (pg_links P) p" "pg_require_pins P \<longrightarrow> pe_pubkey_hex p \<noteq> []" "length (pg_links P) < pg_max_peers P"
    and "\<And>b. bo_attempt (init b) = bo_attempt b \<and> bo_next_attempt (init b) = bo_next_attempt b"
  shows "pass_inv now {p} P Q"
proof -
  note g = gate_pass [OF assms(1)]
  have "may_dial now P1 p \<or> \<not> due now P1 (pe_addr p)"
    using g assms(3-5) by (auto simp: may_dial_def pass_inv_def)
  from pass_inv_trans [OF g(1) candidate_pass [OF assms(2) this assms(6)]] show ?thesis by simp
qed

lemma pass_inv_then:
  "pass_inv now A P Q \<Longrightarrow> pass_inv now B Q R \<Longrightarrow> A \<union> B \<subseteq> C \<Longrightarrow> pass_inv now C P R"
  using pass_inv_trans pass_inv_mono by blast

lemma dial_seeds_pass: "pass_inv now (set ss) P (dial_seeds now rng dial ss P)"
proof (induction ss arbitrary: P)
  case (Cons s ss)
  show ?case
  proof (cases "has_conn_for_seed (pg_links P) s \<or> (pg_require_pins P \<and> pe_pubkey_hex s = [])")
    case True
    moreover have "pass_inv now (set (s # ss)) P (dial_seeds now rng dial ss P)" by (rule pass_inv_mono [OF Cons.IH]) auto
    ultimately show ?thesis by auto
  next
    case eligible: False
    show ?thesis
    proof (cases "length (pg_links P) \<ge> pg_max_peers P")
      case True
      then show ?thesis using eligible by (auto simp: pass_inv_refl)
    next
      case room: False
      obtain ok P1 where g: "gate_candidate now s P = (ok, P1)" by (cases "gate_candidate now s P")
      let ?init = "\<lambda>b. b\<lparr>bo_max_ms := max 1000 (pg_backoff_max_secs P * 1000)\<rparr>"
      obtain r Q where c: "dial_candidate now rng dial ?init s P1 = (r, Q)" by (cases "dial_candidate now rng dial ?init s P1")
      show ?thesis
      proof (cases ok)
        case False
        with g eligible room have "dial_seeds now rng dial (s # ss) P = dial_seeds now rng dial ss P1" by auto
        moreover have "pass_inv now (set (s # ss)) P (dial_seeds now rng dial ss P1)"
          by (rule pass_inv_then [OF gate_pass(1) [OF g] Cons.IH]) auto
        ultimately show ?thesis by simp
      next
        case True
        have q: "pass_inv now {s} P Q" by (rule dial_tail [OF _ c]) (use g True eligible room in auto)
        have "dial_seeds now rng dial (s # ss) P = Q \<or> dial_seeds now rng dial (s # ss) P = dial_seeds now rng dial ss Q"
          using g c True eligible room by (auto split: option.split bool.split)
        moreover have "pass_inv now (set (s # ss)) P Q" by (rule pass_inv_mono [OF q]) auto
        moreover have "pass_inv now (set (s # ss)) P (dial_seeds now rng dial ss Q)" by (rule pass_inv_then [OF q Cons.IH]) auto
        ultimately show ?thesis by (elim disjE) simp_all
      qed
    qed
  qed
qed (simp add: pass_inv_refl)

lemma dial_discovered_pass: "pass_inv now (set ds) P (dial_discovered now rng dial ds P)"
proof (induction ds arbitrary: P)
  case (Cons d ds)
  obtain t P0 where t: "refresh_trust (pe_pubkey_hex d) P = (t, P0)" by (cases "refresh_trust (pe_pubkey_hex d) P")
  have P0: "pass_inv now {} P P0" using mesh_auth_pass [of now P "pe_pubkey_hex d"] t by simp
  let ?rest = "dial_discovered now rng dial ds"
  show ?case
  proof (cases "pe_addr d = [] \<or> \<not> t \<or> has_conn_for_seed (pg_links P0) d \<or> (pg_require_pins P0 \<and> pe_pubkey_hex d = [])")
    case True
    then have "dial_discovered now rng dial (d # ds) P = ?rest P \<or> dial_discovered now rng dial (d # ds) P = ?rest P0"
      using t by (elim disjE conjE) simp_all
    moreover have "pass_inv now (set (d # ds)) P (?rest P)" by (rule pass_inv_mono [OF Cons.IH]) auto
    moreover have "pass_inv now (set (d # ds)) P (?rest P0)" by (rule pass_inv_then [OF P0 Cons.IH]) auto
    ultimately show ?thesis by (elim disjE) simp_all
  next
    case eligible: False
    show ?thesis
    proof (cases "length (pg_links P0) \<ge> pg_max_peers P0")
      case True
      then show ?thesis using eligible t pass_inv_mono [OF P0] by auto
    next
      case room: False
      obtain ok P1 where g: "gate_candidate now d P0 = (ok, P1)" by (cases "gate_candidate now d P0")
      obtain r Q where c: "dial_candidate now rng dial (\<lambda>b. b) d P1 = (r, Q)" by (cases "dial_candidate now rng dial (\<lambda>b. b) d P1")
      show ?thesis
      proof (cases ok)
        case False
        with g t eligible room have "dial_discovered now rng dial (d # ds) P = ?rest P1" by auto
        moreover have "pass_inv now (set (d # ds)) P (?rest P1)"
          by (rule pass_inv_then [OF P0 pass_inv_then [OF gate_pass(1) [OF g] Cons.IH subset_refl]]) auto
        ultimately show ?thesis by simp
      next
        case True
        have q: "pass_inv now {d} P0 Q" by (rule dial_tail [OF _ c]) (use g True eligible room in auto)
        have "dial_discovered now rng dial (d # ds) P = Q \<or> dial_discovered now rng dial (d # ds) P = ?rest Q"
          using g c t True eligible room by (auto split: option.split bool.split)
        moreover have "pass_inv now (set (d # ds)) P Q" by (rule pass_inv_then [OF P0 q]) auto
        moreover have "pass_inv now (set (d # ds)) P (?rest Q)"
          by (rule pass_inv_then [OF P0 pass_inv_then [OF q Cons.IH subset_refl]]) auto
        ultimately show ?thesis by (elim disjE) simp_all
      qed
    qed
  qed
qed (simp add: pass_inv_refl)

lemma try_connect_pass:
  "pass_inv now (set (ms_seeds (pg_mesh P)) \<union> set (ms_discovered (pg_mesh P))) P (try_connect_to_seeds now rng1 rng2 dial P)"
proof -
  let ?P1 = "dial_seeds now rng1 dial (ms_seeds (pg_mesh P)) P"
  have one: "pass_inv now (set (ms_seeds (pg_mesh P))) P ?P1" by (rule dial_seeds_pass)
  then have "ms_discovered (pg_mesh ?P1) = ms_discovered (pg_mesh P)" by (simp add: pass_inv_def)
  then have two: "pass_inv now (set (ms_discovered (pg_mesh P))) ?P1 (dial_discovered now rng2 dial (ms_discovered (pg_mesh ?P1)) ?P1)"
    using dial_discovered_pass [of now "ms_discovered (pg_mesh ?P1)"] by simp
  show ?thesis using pass_inv_mono [OF one] pass_inv_trans [OF one two] by (auto simp: try_connect_to_seeds_def Let_def)
qed

text \<open>C27. A pass of the dialler starts only dials that are due: to a configured or learned peer that has no link
  yet by address or key, that is pinned when pins are required, whose back-off has run out and that is
  not parked after three timeouts; never beyond the limit of peers or sixteen handshakes.\<close>

theorem dials_are_due:
  assumes "T = try_connect_to_seeds now rng1 rng2 dial P" "length (pg_pending P) \<le> kMaxPendingHandshakes"
  shows "length (pg_pending T) \<le> kMaxPendingHandshakes \<and>
    (\<exists>new. pg_pending T = pg_pending P @ new \<and>
      (\<forall>ph\<in>set new. \<exists>p\<in>set (ms_seeds (pg_mesh P)) \<union> set (ms_discovered (pg_mesh P)). dial_of p ph \<and> may_dial now P p))"
  using try_connect_pass [of now P rng1 rng2 dial] assms unfolding pass_inv_def by blast

section \<open>Samples\<close>

definition sample_link :: "string \<Rightarrow> bool \<Rightarrow> nat \<Rightarrow> MeshLink" where
  "sample_link pk outbound fd = \<lparr>ml_open = True, ml_purpose = PurposeMesh, ml_busy = False, ml_pubkey = pk, ml_version = ''1'',
     ml_fd = fd, ml_name = ''p'', ml_addr = ''p:1'', ml_outbound = outbound, ml_hello = None, ml_close_requested = False,
     ml_last_pong = 0, ml_ping_sent = 0, ml_rtt_ms = 0, ml_completed = False, ml_suspended = False\<rparr>"

definition sample_peering :: "string \<Rightarrow> MeshLink list \<Rightarrow> PeerEntry list \<Rightarrow> peering" where
  "sample_peering pk ls seeds = \<lparr>pg_mesh = (sample_mesh seeds 1)\<lparr>ms_our_pubkey := pk, ms_links := ls\<rparr>, pg_backoffs = Map.empty,
     pg_cooldowns = Map.empty, pg_accept_only = Map.empty, pg_extends = Map.empty, pg_pending = [], pg_max_peers = 50,
     pg_require_pins = True, pg_backoff_max_secs = 300, pg_pong_timeout_secs = 30, pg_connect_timeout_ms = 5000,
     pg_auto_upgrade = True, pg_upgrade_origin = [], pg_upgrade_cooldown_secs = 3600, pg_upgrade_last = Map.empty,
     pg_upgrade_attempts = Map.empty, pg_upgrade_tasks = []\<rparr>"

lemma sample_peering_simps [simp]:
  "pg_links (sample_peering pk ls seeds) = ls" "ms_our_pubkey (pg_mesh (sample_peering pk ls seeds)) = pk"
  "pg_pending (sample_peering pk ls seeds) = []" "ms_seeds (pg_mesh (sample_peering pk ls seeds)) = seeds"
  by (simp_all add: sample_peering_def sample_mesh_def)

lemma sample_link_simps [simp]:
  "ml_open (sample_link pk d n)" "\<not> ml_busy (sample_link pk d n)" "ml_purpose (sample_link pk d n) = PurposeMesh"
  "ml_pubkey (sample_link pk d n) = pk" "ml_outbound (sample_link pk d n) = d"
  by (simp_all add: sample_link_def)

lemma name_less_aa_bb: "name_less ''aa'' ''bb''"
  by (simp add: code_of_def)

lemma both_ends_keep_the_same_link_witness:
  "pg_links (resolve_duplicates 0 (sample_peering ''aa'' [sample_link ''bb'' False 4, sample_link ''bb'' True 3] [])) =
     [if name_less ''aa'' ''bb'' then sample_link ''bb'' True 3 else sample_link ''bb'' False 4] \<and>
   pg_links (resolve_duplicates 0 (sample_peering ''bb'' [sample_link ''aa'' False 5, sample_link ''aa'' True 6] [])) =
     [if name_less ''aa'' ''bb'' then sample_link ''aa'' False 5 else sample_link ''aa'' True 6]"
  by (rule both_ends_keep_the_same_link) simp_all

lemma one_link_per_peer_witness:
  "has_conn_for_pubkey (pg_links (resolve_duplicates 0 (sample_peering ''aa'' [sample_link ''bb'' True 4, sample_link ''bb'' True 3] []))) ''bb''"
  using one_link_per_peer [of "sample_peering ''aa'' [sample_link ''bb'' True 4, sample_link ''bb'' True 3] []" _ 0]
  by (simp add: sample_link_def has_conn_for_pubkey_def)

lemma waiting_ends_witness:
  "False \<in> set (defer_looks \<lparr>pe_name = ''a'', pe_addr = ''h'', pe_pubkey_hex = ''aa'', pe_last_seen = 0\<rparr>
     (0 # map (\<lambda>i. i * (152 * second_ns)) [1, 2, 3, 4, 5, 6, 7, 8, 9, 10]) (sample_peering ''bb'' [] []))"
  by (rule waiting_ends [of _ _ "152 * second_ns" "10 * (152 * second_ns)"])
    (simp_all add: second_ns_def sample_peering_def)

lemma dials_are_due_witness:
  "length (pg_pending (try_connect_to_seeds 0 0 0 (\<lambda>p. Some (True, 7)) (sample_peering ''aa'' []
     [\<lparr>pe_name = ''b'', pe_addr = ''b:1'', pe_pubkey_hex = ''bb'', pe_last_seen = 0\<rparr>]))) \<le> kMaxPendingHandshakes"
  using dials_are_due [OF refl, of "sample_peering ''aa'' [] [\<lparr>pe_name = ''b'', pe_addr = ''b:1'', pe_pubkey_hex = ''bb'', pe_last_seen = 0\<rparr>]"]
  by simp

end
