(* ===== verification/Handshake_Props.thy ===== *)
theory Handshake_Props
  imports Handshake Peering_Props "HOL-Library.Sublist"
begin

text \<open>
  What a completed handshake establishes, and how many can be under way: invariants of the links over
  every sequence of accepts, steps of handshakes, dials, clean-ups and membership operations.
\<close>

section \<open>What an operation on links leaves alone\<close>

text \<open>What a link says about its peer: its socket, whether it was dialled and to which address, and the key,
  the name and the Hello of the peer.\<close>

type_synonym link_identity = "nat \<times> bool \<times> string \<times> string \<times> string \<times> HelloMsg option"

definition link_id :: "MeshLink \<Rightarrow> link_identity" where
  "link_id l = (ml_fd l, ml_outbound l, ml_addr l, ml_pubkey l, ml_name l, ml_hello l)"

abbreviation link_ids :: "peering \<Rightarrow> link_identity set" where
  "link_ids P \<equiv> link_id ` set (pg_links P)"

abbreviation join_open :: "peering \<Rightarrow> bool" where
  "join_open P \<equiv> ms_join_open (pg_mesh P)"

text \<open>The names and the pins of the seeds.\<close>

definition seed_pins :: "mesh \<Rightarrow> (string \<times> string) list" where
  "seed_pins S = map (\<lambda>s. (pe_name s, pe_pubkey_hex s)) (ms_seeds S)"

text \<open>What the checks of a Hello look at stays as it is.\<close>

definition same_checks :: "peering \<Rightarrow> peering \<Rightarrow> bool" where
  "same_checks P Q \<longleftrightarrow> join_open Q = join_open P \<and> seed_pins (pg_mesh Q) = seed_pins (pg_mesh P) \<and>
     pg_require_pins Q = pg_require_pins P"

lemma same_checks_refl [simp]: "same_checks P P"
  by (simp add: same_checks_def)

definition shrinks :: "peering \<Rightarrow> peering \<Rightarrow> bool" where
  "shrinks P Q \<longleftrightarrow> link_ids Q \<subseteq> link_ids P \<and> pg_pending Q = pg_pending P \<and> same_checks P Q"

lemma shrinks_refl [simp]: "shrinks P P"
  by (simp add: shrinks_def)

lemma shrinks_trans: "shrinks P Q \<Longrightarrow> shrinks Q R \<Longrightarrow> shrinks P R"
proof -
  assume a: "shrinks P Q" and b: "shrinks Q R"
  have "link_ids R \<subseteq> link_ids P" by (rule subset_trans [of _ "link_ids Q"]) (use a b in \<open>simp_all add: shrinks_def\<close>)
  with a b show ?thesis by (simp add: shrinks_def same_checks_def)
qed

lemma set_links_frame [simp]:
  "pg_pending (set_links ls P) = pg_pending P" "join_open (set_links ls P) = join_open P"
  "ms_seeds (pg_mesh (set_links ls P)) = ms_seeds (pg_mesh P)" "pg_require_pins (set_links ls P) = pg_require_pins P"
  by (simp_all add: set_links_def)

lemma close_link_id [simp]: "link_id (snd (close_link l)) = link_id l"
  by (simp add: close_link_def link_id_def)

lemma remove_conn_shrinks: "shrinks P (snd (remove_conn now i P))"
proof (cases "i < length (pg_links P)")
  case True
  obtain b l where l: "close_link (pg_links P ! i) = (b, l)" by (cases "close_link (pg_links P ! i)")
  have id: "link_id l = link_id (pg_links P ! i)" using close_link_id [of "pg_links P ! i"] l by simp
  have "link_id ` set ((pg_links P)[i := l]) \<subseteq> link_ids P"
    using set_update_subset_insert [of "pg_links P" i l] id nth_mem [OF True] by auto
  moreover have "link_id ` set (drop_nth i (pg_links P)) \<subseteq> link_ids P" using set_drop_nth [OF True] by auto
  ultimately show ?thesis
    using True l by (cases b) (auto simp: remove_conn_def shrinks_def same_checks_def seed_pins_def Let_def)
qed (simp add: remove_conn_def)

lemma resolve_shrinks: "shrinks P (resolve_duplicates now P)"
proof (induction now P rule: resolve_duplicates.induct)
  case (1 now P)
  show ?case
  proof (cases "duplicate_pairs (pg_links P)")
    case Nil
    then show ?thesis by (simp add: resolve_no_pairs)
  next
    case (Cons ij rest)
    let ?d = "duplicate_to_drop (ms_our_pubkey (pg_mesh P)) (pg_links P) ij"
    obtain b P1 where b: "remove_conn now ?d P = (b, P1)" by (cases "remove_conn now ?d P")
    have s: "shrinks P P1" using remove_conn_shrinks [of P now ?d] b by simp
    show ?thesis
    proof (cases b)
      case True
      then have "b = True" by simp
      from 1 [OF Cons b [symmetric] this] resolve_step [OF Cons] b True shrinks_trans [OF s] show ?thesis by simp
    next
      case False
      then show ?thesis using Cons b s by (subst resolve_duplicates.simps) simp
    qed
  qed
qed

lemma clean_shrinks: "shrinks P (clean_dead_conns now P)"
proof -
  let ?f = "\<lambda>l. if ml_close_requested l \<and> \<not> ml_busy l then snd (close_link l) else l"
  have "link_id (?f l) = link_id l" for l by simp
  then have "link_id ` set (filter ml_open (map ?f (pg_links P))) \<subseteq> link_ids P" by (auto simp: image_iff)
  then have "shrinks P (set_links (filter ml_open (map ?f (pg_links P))) P)"
    by (simp add: shrinks_def same_checks_def seed_pins_def)
  then show ?thesis unfolding clean_dead_conns_def Let_def by (rule shrinks_trans [OF _ resolve_shrinks])
qed

text \<open>A link that has not been classified survives.\<close>

lemma unknown_survives:
  assumes "l \<in> set (pg_links P)" "ml_purpose l \<noteq> PurposeMesh"
  shows "l \<in> set (pg_links (resolve_duplicates now P))"
  using assms
proof (induction now P rule: resolve_duplicates.induct)
  case (1 now P)
  show ?case
  proof (cases "duplicate_pairs (pg_links P)")
    case Nil
    then show ?thesis using 1(2) by (simp add: resolve_no_pairs)
  next
    case (Cons ij rest)
    obtain i j where ij: "ij = (i, j)" by (cases ij)
    let ?d = "duplicate_to_drop (ms_our_pubkey (pg_mesh P)) (pg_links P) ij"
    have p: "(i, j) \<in> set (duplicate_pairs (pg_links P))" using Cons ij by simp
    have d: "?d = i \<or> ?d = j" by (simp add: ij duplicate_to_drop_def Let_def)
    have lt: "?d < length (pg_links P)" using Cons by (intro duplicate_to_drop_lt) simp
    have "ml_purpose (pg_links P ! ?d) = PurposeMesh"
      using pair_is_duplicate(5) [OF p] d by (auto simp: connections_are_mesh_duplicates_def)
    then have ne: "l \<noteq> pg_links P ! ?d" using 1(3) by auto
    obtain k where k: "k < length (pg_links P)" "pg_links P ! k = l" using 1(2) by (auto simp: in_set_conv_nth)
    with ne have kd: "k \<noteq> ?d" by auto
    obtain b P1 where b: "remove_conn now ?d P = (b, P1)" by (cases "remove_conn now ?d P")
    have in1: "l \<in> set (pg_links P1)"
    proof (cases b)
      case True
      then have "pg_links P1 = drop_nth ?d (pg_links P)"
        using b lt by (auto simp: remove_conn_def Let_def split: prod.splits bool.splits)
      with in_drop_nth [OF k(1) kd] k(2) show ?thesis by simp
    next
      case False
      then obtain m where "pg_links P1 = (pg_links P)[?d := m]"
        using b lt by (auto simp: remove_conn_def Let_def split: prod.splits bool.splits)
      with k kd show ?thesis by (metis length_list_update nth_list_update_neq nth_mem)
    qed
    show ?thesis
    proof (cases b)
      case True
      then have "b = True" by simp
      from 1(1) [OF Cons b [symmetric] this in1 1(3)] resolve_step [OF Cons] b True show ?thesis by simp
    next
      case False
      then show ?thesis using Cons b in1 by (subst resolve_duplicates.simps) simp
    qed
  qed
qed

section \<open>Promotion\<close>

lemma merge_peers_view: "ms_join_open (merge_peers now ps S) = ms_join_open S" "ms_links (merge_peers now ps S) = ms_links S"
proof -
  show "ms_join_open (merge_peers now ps S) = ms_join_open S"
    using merge_peers_frame [of now ps S] by (simp add: invite_view_def)
  have "ms_links (snd (foldl (\<lambda>cS p. merge_peer now p cS) cS ps)) = ms_links (snd cS)" for cS
  proof (induction ps arbitrary: cS)
    case (Cons p ps)
    have "ms_links (snd (merge_peer now p cS)) = ms_links (snd cS)"
      by (auto simp: merge_peer_def Let_def split: prod.splits)
    with Cons show ?case by simp
  qed simp
  from this [of "(False, S)"] show "ms_links (merge_peers now ps S) = ms_links S"
    by (auto simp: merge_peers_def split: prod.split)
qed

lemma merge_peers_pins: "seed_pins (merge_peers now ps S) = seed_pins S"
proof -
  have pins: "seed_pins T = map (\<lambda>(n, a, k). (n, k)) (map seed_identity (ms_seeds T))" for T
    by (simp add: seed_pins_def seed_identity_def)
  have "map seed_identity (ms_seeds (merge_peers now ps S)) = map seed_identity (ms_seeds S)"
    using fold_merge [of now "(False, S)" ps] by (simp add: merge_peers_as_fold)
  then show ?thesis by (simp only: pins)
qed

lemma upgrade_frame [simp]:
  "pg_mesh (maybe_schedule_auto_upgrade v now peer rv P) = pg_mesh P"
  "pg_pending (maybe_schedule_auto_upgrade v now peer rv P) = pg_pending P"
  "pg_backoffs (maybe_schedule_auto_upgrade v now peer rv P) = pg_backoffs P"
  "pg_require_pins (maybe_schedule_auto_upgrade v now peer rv P) = pg_require_pins P"
  by (auto simp: maybe_schedule_auto_upgrade_def Let_def split: option.split)

lemma clear_frame [simp]:
  "pg_mesh (clear_accept_only_for name addr pk P) = pg_mesh P"
  "pg_pending (clear_accept_only_for name addr pk P) = pg_pending P"
  "pg_backoffs (clear_accept_only_for name addr pk P) = pg_backoffs P"
  "pg_require_pins (clear_accept_only_for name addr pk P) = pg_require_pins P"
  by (simp_all add: clear_accept_only_for_def Let_def)

lemma seed_success_frame [simp]:
  "pg_mesh (record_dead_seed_success addr P) = pg_mesh P" "pg_pending (record_dead_seed_success addr P) = pg_pending P"
  "pg_backoffs (record_dead_seed_success addr P) = pg_backoffs P"
  "pg_require_pins (record_dead_seed_success addr P) = pg_require_pins P"
  by (simp_all add: record_dead_seed_success_def)

lemma seed_failure_frame [simp]:
  "pg_mesh (record_dead_seed_failure now rng addr P) = pg_mesh P" "pg_pending (record_dead_seed_failure now rng addr P) = pg_pending P"
  "pg_require_pins (record_dead_seed_failure now rng addr P) = pg_require_pins P"
  by (simp_all add: record_dead_seed_failure_def Let_def)

text \<open>The state a promotion resolves doubled links in.\<close>

definition with_new_link :: "int \<Rightarrow> u64 \<Rightarrow> PendingHandshake \<Rightarrow> HelloMsg \<Rightarrow> peering \<Rightarrow> peering" where
  "with_new_link now unix ph hello P =
     (let P1 = (if ph_server_side ph then P else record_dead_seed_success (ph_expected_addr ph) P);
          P2 = P1\<lparr>pg_mesh := merge_peers unix (hl_known_peers hello) (pg_mesh P1)\<rparr>
      in set_links (pg_links P2 @ [new_link now ph hello]) P2)"

lemma with_new_link_facts:
  "pg_links (with_new_link now unix ph hello P) = pg_links P @ [new_link now ph hello]"
  "pg_pending (with_new_link now unix ph hello P) = pg_pending P"
  "same_checks P (with_new_link now unix ph hello P)"
  by (simp_all add: with_new_link_def Let_def merge_peers_view same_checks_def)
    (auto simp: seed_pins_def merge_peers_pins [unfolded seed_pins_def])

lemma promote_state:
  assumes "promote_handshake_to_conn v now unix ph hello P = (T, outs)"
  shows "pg_mesh T = pg_mesh (resolve_duplicates now (with_new_link now unix ph hello P))"
    "pg_pending T = pg_pending P"
    "pg_require_pins T = pg_require_pins (resolve_duplicates now (with_new_link now unix ph hello P))"
  using assms resolve_shrinks [of "with_new_link now unix ph hello P" now]
  by (auto simp: promote_handshake_to_conn_def with_new_link_def shrinks_def Let_def)

definition hello_id :: "PendingHandshake \<Rightarrow> HelloMsg \<Rightarrow> link_identity" where
  "hello_id ph h = (ph_fd ph, \<not> ph_server_side ph, ph_expected_addr ph, ph_peer_pk ph, hl_node_name h, Some h)"

lemma promote_effect:
  assumes "promote_handshake_to_conn v now unix ph hello P = (T, outs)"
  shows "link_ids T \<subseteq> insert (hello_id ph hello) (link_ids P)" "pg_pending T = pg_pending P" "same_checks P T"
    "new_link now ph hello \<in> set (pg_links T)"
proof -
  let ?W = "with_new_link now unix ph hello P"
  note st = promote_state [OF assms]
  have s: "shrinks ?W (resolve_duplicates now ?W)" by (rule resolve_shrinks)
  have "link_id (new_link now ph hello) = hello_id ph hello" by (simp add: new_link_def link_id_def hello_id_def)
  then show "link_ids T \<subseteq> insert (hello_id ph hello) (link_ids P)"
    using s st(1) by (auto simp: shrinks_def with_new_link_facts)
  show "pg_pending T = pg_pending P" by (rule st(2))
  show "same_checks P T"
    using s st(1,3) with_new_link_facts(3) [of P now unix ph hello] by (simp add: shrinks_def same_checks_def)
  show "new_link now ph hello \<in> set (pg_links T)"
    using unknown_survives [of "new_link now ph hello" ?W now] st(1) by (simp add: with_new_link_facts new_link_def)
qed

lemma promoted_effect:
  assumes "promoted H ph hello P = (r, T, outs)"
  shows "r = None" "link_ids T \<subseteq> insert (hello_id ph hello) (link_ids P)" "pg_pending T = pg_pending P" "same_checks P T"
    "new_link (he_now H) ph hello \<in> set (pg_links T)"
  using assms promote_effect [of "he_version H" "he_now H" "en_unix (he_mesh H)" ph hello P]
  by (auto simp: promoted_def split: prod.splits)

section \<open>What a step keeps\<close>

text \<open>The list of handshakes is not touched by a step, and one that stays keeps its side and its address.\<close>

definition hs_keeps :: "PendingHandshake \<Rightarrow> peering \<Rightarrow> hs_result \<Rightarrow> bool" where
  "hs_keeps ph P res \<longleftrightarrow>
     (case res of (r, T, outs) \<Rightarrow>
        pg_pending T = pg_pending P \<and>
        (\<forall>ph1. r = Some ph1 \<longrightarrow> ph_server_side ph1 = ph_server_side ph \<and> ph_expected_addr ph1 = ph_expected_addr ph))"

lemma keeps_None [simp]: "hs_keeps ph P (None, P, outs)"
  by (simp add: hs_keeps_def)

lemma keeps_Some [simp]:
  "hs_keeps ph P (Some ph1, Q, outs) \<longleftrightarrow> pg_pending Q = pg_pending P \<and> ph_server_side ph1 = ph_server_side ph \<and>
     ph_expected_addr ph1 = ph_expected_addr ph"
  by (auto simp: hs_keeps_def)

lemma wants_simps [simp]:
  "ph_server_side (wants w ph) = ph_server_side ph" "ph_expected_addr (wants w ph) = ph_expected_addr ph"
  "ph_state (wants w ph) = ph_state ph" "ph_peer_pk (wants w ph) = ph_peer_pk ph" "ph_peer_hello (wants w ph) = ph_peer_hello ph"
  "ph_tx (wants w ph) = ph_tx ph" "ph_rx (wants w ph) = ph_rx ph" "ph_hello_written (wants w ph) = ph_hello_written ph"
  "ph_outbound_hello (wants w ph) = ph_outbound_hello ph" "ph_fd (wants w ph) = ph_fd ph"
  "ph_expected_pubkey (wants w ph) = ph_expected_pubkey ph" "ph_expected_name (wants w ph) = ph_expected_name ph"
  by (simp_all add: wants_def)

lemma promoted_keeps: "hs_keeps ph P (promoted H ph2 hello P)"
  using promoted_effect(1,3) [of H ph2 hello P] by (cases "promoted H ph2 hello P" rule: prod_cases3) (auto simp: hs_keeps_def)

lemma keeps_cong: "pg_pending P = pg_pending Q \<Longrightarrow> hs_keeps ph P res \<longleftrightarrow> hs_keeps ph Q res"
  by (simp add: hs_keeps_def)

lemma keeps_pending [simp]: "hs_keeps ph P (None, Q, outs) \<longleftrightarrow> pg_pending Q = pg_pending P"
  by (simp add: hs_keeps_def)

lemma refresh_trust_frame [simp]:
  "pg_pending (snd (refresh_trust pk P)) = pg_pending P" "pg_links (snd (refresh_trust pk P)) = pg_links P"
  "join_open (snd (refresh_trust pk P)) = join_open P"
  by (auto simp: refresh_trust_def Let_def split: prod.split)

lemma needs_token_frame:
  "pg_pending (snd (needs_token pk P)) = pg_pending P" "pg_links (snd (needs_token pk P)) = pg_links P"
  "join_open (snd (needs_token pk P)) = join_open P"
  using refresh_trust_frame [of pk P] by (cases "refresh_trust pk P"; simp add: needs_token_def)+

lemma answer_hello_keeps: "hs_keeps ph P (answer_hello H io ph P)"
proof -
  obtain w P1 where w: "needs_token (ph_peer_pk ph) P = (w, P1)" by (cases "needs_token (ph_peer_pk ph) P")
  have p: "pg_pending P1 = pg_pending P" using w needs_token_frame(1) [of "ph_peer_pk ph" P] by simp
  show ?thesis
    using promoted_keeps [of ph P1] keeps_cong [OF p, of ph]
    by (auto simp: answer_hello_def Let_def w p split: prod.split sum.split bool.split)
qed

lemma redeem_token_keeps: "hs_keeps ph P (redeem_token H io jr ph2 P)"
proof -
  obtain reply S sent where j: "process_join_request (he_mesh H) jr (ph_peer_pk ph2) (pg_mesh P) = (reply, S, sent)"
    by (cases "process_join_request (he_mesh H) jr (ph_peer_pk ph2) (pg_mesh P)" rule: prod_cases3)
  have "pg_pending (P\<lparr>pg_mesh := S\<rparr>) = pg_pending P" by simp
  with promoted_effect(1,3) [of H ph2 "ph_peer_hello ph2" "P\<lparr>pg_mesh := S\<rparr>"]
  show ?thesis by (auto simp: redeem_token_def j Let_def hs_keeps_def split: prod.split)
qed

lemma read_join_keeps:
  "ph_server_side ph2 = ph_server_side ph \<Longrightarrow> ph_expected_addr ph2 = ph_expected_addr ph \<Longrightarrow> hs_keeps ph P (read_join_request H io ph2 P)"
  using redeem_token_keeps by (auto simp: read_join_request_def split: prod.split sum.split option.split Message.split)

lemma queue_hello_same:
  "queue_hello Z ph = Inr ph1 \<Longrightarrow> ph_server_side ph1 = ph_server_side ph \<and> ph_expected_addr ph1 = ph_expected_addr ph \<and>
     ph_peer_pk ph1 = ph_peer_pk ph \<and> ph_peer_hello ph1 = ph_peer_hello ph"
  by (cases "encode Z (MHello (ph_outbound_hello ph)) CONTROL_STREAM_ID False") (auto simp: queue_hello_def split: if_splits)

lemma finish_hello_keeps:
  assumes "ph_server_side ph1 = ph_server_side ph" "ph_expected_addr ph1 = ph_expected_addr ph"
  shows "hs_keeps ph P (finish_hello H io ph1 P)"
  using assms by (auto simp: finish_hello_def intro: read_join_keeps split: prod.split sum.split bool.split)

lemma step_join_keeps: "hs_keeps ph P (step_join H io ph P)"
  using queue_hello_same [of "he_zstd H" ph] by (auto simp: step_join_def intro!: finish_hello_keeps split: sum.split)

lemma step_read_hello_keeps: "hs_keeps ph P (step_read_hello H io ph P)"
proof -
  have a: "hs_keeps ph P (answer_hello H io (wants w (ph\<lparr>ph_rx := rx, ph_peer_hello := hello\<rparr>)) P)" for w rx hello
    using answer_hello_keeps [of "wants w (ph\<lparr>ph_rx := rx, ph_peer_hello := hello\<rparr>)" P H io]
    by (simp add: hs_keeps_def)
  show ?thesis
    using a promoted_keeps by (auto simp: step_read_hello_def Let_def split: prod.split sum.split option.split Message.split)
qed

lemma hs_step_keeps: "hs_keeps ph P (hs_step H io ph P)"
proof (cases "ph_state ph")
  case TlsHandshake
  then show ?thesis by (auto simp: hs_step_def step_tls_def split: tls_result.split)
next
  case WriteHello
  then show ?thesis using promoted_keeps
    by (auto simp: hs_step_def step_write_hello_def split: prod.split sum.split bool.split)
qed (simp_all add: hs_step_def step_join_keeps step_read_hello_keeps)

lemma advance_one_keeps: "hs_keeps ph P (advance_one H io ph P)"
  using hs_step_keeps by (simp add: advance_one_def Let_def)

abbreviation side :: "PendingHandshake \<Rightarrow> bool \<times> string" where
  "side ph \<equiv> (ph_server_side ph, ph_expected_addr ph)"

lemma advance_all_keeps:
  assumes "advance_all H io phs P = (kept, T, outs)"
  shows "pg_pending T = pg_pending P \<and> subseq (map side kept) (map side phs)"
  using assms
proof (induction phs arbitrary: P kept T outs)
  case (Cons ph phs)
  obtain r P1 o1 where one: "advance_one H (io ph) ph P = (r, P1, o1)" by (cases "advance_one H (io ph) ph P" rule: prod_cases3)
  obtain k P2 o2 where all: "advance_all H io phs P1 = (k, P2, o2)" by (cases "advance_all H io phs P1" rule: prod_cases3)
  have r: "pg_pending P1 = pg_pending P" "r = Some ph1 \<Longrightarrow> side ph1 = side ph" for ph1
    using advance_one_keeps [of ph P H "io ph"] by (auto simp: one hs_keeps_def)
  have "kept = (case r of None \<Rightarrow> k | Some ph1 \<Rightarrow> ph1 # k)" "T = P2" using Cons.prems by (auto simp: one all)
  then show ?case using Cons.IH [OF all] r by (cases r) auto
qed simp

section \<open>Runs\<close>

datatype net_op =
  NetAccept int bool nat string nat
| NetAdvance hs_env "PendingHandshake \<Rightarrow> hs_io"
| NetDial int nat nat dial_oracle
| NetClean int
| NetMembership mesh_op

fun net_step :: "net_op \<Rightarrow> peering \<Rightarrow> peering" where
  "net_step (NetAccept now ok fd ip port) P = snd (accept_inbound now ok fd ip port P)"
| "net_step (NetAdvance H io) P = fst (advance_handshakes H io P)"
| "net_step (NetDial now r1 r2 dial) P = try_connect_to_seeds now r1 r2 dial P"
| "net_step (NetClean now) P = clean_dead_conns now P"
| "net_step (NetMembership op) P = P\<lparr>pg_mesh := mesh_step op (pg_mesh P)\<rparr>"

definition net_run :: "net_op list \<Rightarrow> peering \<Rightarrow> peering" where
  "net_run ops P = fold net_step ops P"

lemma net_run_induct:
  assumes "I P" "\<And>op P. I P \<Longrightarrow> op \<in> set ops \<Longrightarrow> I (net_step op P)"
  shows "I (net_run ops P)"
  using assms by (induction ops arbitrary: P) (auto simp: net_run_def)

section \<open>Limits\<close>

definition within_limits :: "peering \<Rightarrow> bool" where
  "within_limits P \<longleftrightarrow> length (pg_pending P) \<le> kMaxPendingHandshakes \<and>
     (\<forall>ip. CHR '':'' \<notin> set ip \<longrightarrow> pending_from_source ip (pg_pending P) \<le> 2)"

lemma pending_from_side:
  "pending_from_source ip phs = length (filter (\<lambda>(s, a). s \<and> is_prefix (ip @ '':'') a) (map side phs))"
  by (simp add: pending_from_source_def filter_map comp_def)

lemma subseq_filter_length: "subseq xs ys \<Longrightarrow> length (filter f xs) \<le> length (filter f ys)"
  by (rule list_emb_length [OF subseq_filter])

lemma advance_limits: "within_limits P \<Longrightarrow> within_limits (fst (advance_handshakes H io P))"
proof -
  assume w: "within_limits P"
  obtain kept T outs where a: "advance_all H io (pg_pending P) P = (kept, T, outs)"
    by (cases "advance_all H io (pg_pending P) P" rule: prod_cases3)
  from advance_all_keeps [OF a] have sub: "subseq (map side kept) (map side (pg_pending P))" ..
  have "length kept \<le> length (pg_pending P)" using list_emb_length [OF sub] by simp
  moreover have "pending_from_source ip kept \<le> pending_from_source ip (pg_pending P)" for ip
    unfolding pending_from_side by (rule subseq_filter_length [OF sub])
  ultimately show ?thesis using w by (auto simp: within_limits_def advance_handshakes_def a intro: order_trans)
qed

lemma prefix_of_address:
  assumes "is_prefix (ip @ '':'') (jp @ '':'' @ port)" "CHR '':'' \<notin> set ip" "CHR '':'' \<notin> set jp"
  shows "ip = jp"
proof -
  obtain zs where "jp @ '':'' @ port = ip @ '':'' @ zs" using assms(1) by (auto simp: is_prefix_iff)
  then have "takeWhile (\<lambda>c. c \<noteq> CHR '':'') (jp @ '':'' @ port) = takeWhile (\<lambda>c. c \<noteq> CHR '':'') (ip @ '':'' @ zs)" by simp
  moreover have "takeWhile (\<lambda>c. c \<noteq> CHR '':'') (xs @ '':'' @ ys) = xs" if "CHR '':'' \<notin> set xs" for xs ys
    using that by (induction xs) auto
  ultimately show ?thesis using assms(2,3) by simp
qed

lemma accept_limits:
  assumes "within_limits P" "CHR '':'' \<notin> set ip"
  shows "within_limits (snd (accept_inbound now ok fd ip port P))"
proof (cases "fst (accept_inbound now ok fd ip port P)")
  case False
  then have "snd (accept_inbound now ok fd ip port P) = P" by (auto simp: accept_inbound_def split: if_splits)
  with assms(1) show ?thesis by simp
next
  case True
  then have g: "pending_from_source ip (pg_pending P) < 2" "length (pg_pending P) < kMaxPendingHandshakes"
    by (auto simp: accept_inbound_def split: if_splits)
  obtain ph where ph: "pg_pending (snd (accept_inbound now ok fd ip port P)) = pg_pending P @ [ph]"
      "ph_expected_addr ph = ip @ '':'' @ dec_digits port"
    using True by (auto simp: accept_inbound_def split: if_splits)
  have "pending_from_source jp (pg_pending P @ [ph]) \<le> 2" if jp: "CHR '':'' \<notin> set jp" for jp
  proof (cases "jp = ip")
    case True
    then show ?thesis using g(1) by (simp add: pending_from_source_def)
  next
    case False
    then have "\<not> is_prefix (jp @ '':'') (ph_expected_addr ph)"
      using prefix_of_address [of jp ip "dec_digits port"] jp assms(2) ph(2) by auto
    then show ?thesis using assms(1) jp by (simp add: pending_from_source_def within_limits_def)
  qed
  with g(2) ph(1) show ?thesis by (simp add: within_limits_def)
qed

lemma dial_limits:
  assumes "within_limits P"
  shows "within_limits (try_connect_to_seeds now r1 r2 dial P)"
proof -
  let ?T = "try_connect_to_seeds now r1 r2 dial P"
  note p = try_connect_pass [of now P r1 r2 dial]
  obtain new where new: "pg_pending ?T = pg_pending P @ new" "\<forall>ph\<in>set new. \<not> ph_server_side ph"
    using p unfolding pass_inv_def dial_of_def by blast
  then have "pending_from_source ip (pg_pending ?T) = pending_from_source ip (pg_pending P)" for ip
    by (simp add: pending_from_source_def filter_empty_conv)
  moreover have "length (pg_pending ?T) \<le> kMaxPendingHandshakes" using p assms by (simp add: pass_inv_def within_limits_def)
  ultimately show ?thesis using assms by (simp add: within_limits_def)
qed

definition accepts_addresses :: "net_op list \<Rightarrow> bool" where
  "accepts_addresses ops \<longleftrightarrow> (\<forall>now ok fd ip port. NetAccept now ok fd ip port \<in> set ops \<longrightarrow> CHR '':'' \<notin> set ip)"

text \<open>C33. However many connections arrive and however they behave, at most sixteen handshakes are under way at a
  time, and at most two of them come from one source address.\<close>

theorem handshakes_under_way_are_bounded:
  assumes "within_limits P" "accepts_addresses ops"
  shows "within_limits (net_run ops P)"
proof (rule net_run_induct)
  fix op P assume w: "within_limits P" and op: "op \<in> set ops"
  show "within_limits (net_step op P)"
  proof (cases op)
    case (NetAccept now ok fd ip port)
    with op assms(2) have "CHR '':'' \<notin> set ip" unfolding accepts_addresses_def by blast
    with w NetAccept show ?thesis by (simp add: accept_limits)
  next
    case (NetAdvance H io)
    with w show ?thesis by (simp add: advance_limits)
  next
    case (NetClean now)
    have "pg_pending (clean_dead_conns now P) = pg_pending P" using clean_shrinks [of P now] by (simp add: shrinks_def)
    with w NetClean show ?thesis by (simp add: within_limits_def)
  next
    case (NetDial now r1 r2 dial)
    with w show ?thesis by (simp add: dial_limits)
  next
    case (NetMembership x)
    with w show ?thesis by (simp add: within_limits_def)
  qed
qed (rule assms(1))

lemma handshakes_under_way_are_bounded_witness:
  "within_limits (net_run (replicate 3 (NetAccept 0 True 7 ''10.0.0.1'' 99)) (sample_peering ''aa'' [] []))"
  by (rule handshakes_under_way_are_bounded) (auto simp: within_limits_def accepts_addresses_def pending_from_source_def)

section \<open>Identity\<close>

text \<open>What the identity of a link rests on: the keys of the certificates that TLS has proven on a socket, the
  peers that could be dialled, the pins of the seeds, and whether pins are required.\<close>

record identity_basis =
  ib_certs :: "(nat \<times> string) set"
  ib_peers :: "PeerEntry set"
  ib_pins :: "(string \<times> string) list"
  ib_required :: bool

text \<open>What the checks of a Hello establish, and those of the certificate against the peer that was dialled and
  of the name against the pins of the seeds.\<close>

definition proves :: "string \<Rightarrow> HelloMsg \<Rightarrow> bool" where
  "proves pk h \<longleftrightarrow> pk \<noteq> [] \<and> hl_pubkey_hex h = pk \<and> hl_node_name h \<noteq> [] \<and> \<not> has_control_char (hl_node_name h)"

definition is_dialled_peer :: "bool \<Rightarrow> PeerEntry \<Rightarrow> string \<Rightarrow> string \<Rightarrow> bool" where
  "is_dialled_peer required p pk name \<longleftrightarrow>
     (required \<or> pe_pubkey_hex p \<noteq> [] \<longrightarrow> pk = pe_pubkey_hex p) \<and>
     (pe_pubkey_hex p = [] \<and> pe_name p \<noteq> [] \<longrightarrow> config_peer_name_eq (pe_name p) name)"

definition name_is_free :: "(string \<times> string) list \<Rightarrow> string \<Rightarrow> string \<Rightarrow> bool" where
  "name_is_free pins pk name \<longleftrightarrow> (\<forall>(n, k) \<in> set pins. k \<noteq> [] \<and> config_peer_name_eq n name \<longrightarrow> k = pk)"

definition proven_id :: "identity_basis \<Rightarrow> link_identity \<Rightarrow> bool" where
  "proven_id B x \<longleftrightarrow>
     (case x of (fd, outbound, addr, pk, name, ho) \<Rightarrow>
        (\<exists>h. ho = Some h \<and> proves pk h \<and> name = hl_node_name h) \<and> (fd, pk) \<in> ib_certs B \<and>
        (if outbound then \<exists>p \<in> ib_peers B. pe_addr p = addr \<and> is_dialled_peer (ib_required B) p pk name
         else name_is_free (ib_pins B) pk name))"

definition dialled_to :: "identity_basis \<Rightarrow> PendingHandshake \<Rightarrow> PeerEntry \<Rightarrow> bool" where
  "dialled_to B ph p \<longleftrightarrow> p \<in> ib_peers B \<and> ph_expected_addr ph = pe_addr p \<and> ph_expected_pubkey ph = pe_pubkey_hex p \<and>
     ph_expected_name ph = pe_name p"

definition hs_inv :: "identity_basis \<Rightarrow> PendingHandshake \<Rightarrow> bool" where
  "hs_inv B ph \<longleftrightarrow> ph_state ph \<noteq> ReadJoinRequest \<and>
     (ph_state ph = ReadHello \<or> ph_state ph = WriteHello \<longrightarrow> (ph_fd ph, ph_peer_pk ph) \<in> ib_certs B) \<and>
     (\<not> ph_server_side ph \<longrightarrow> (\<exists>p. dialled_to B ph p)) \<and>
     (ph_server_side ph \<and> ph_state ph = WriteHello \<longrightarrow>
        proves (ph_peer_pk ph) (ph_peer_hello ph) \<and> name_is_free (ib_pins B) (ph_peer_pk ph) (hl_node_name (ph_peer_hello ph)))"

text \<open>The state in which the checks are made.\<close>

definition checked_by :: "identity_basis \<Rightarrow> peering \<Rightarrow> bool" where
  "checked_by B P \<longleftrightarrow> \<not> join_open P \<and> seed_pins (pg_mesh P) = ib_pins B \<and> pg_require_pins P = ib_required B"

lemma checked_same: "same_checks P Q \<Longrightarrow> checked_by B P \<Longrightarrow> checked_by B Q"
  by (simp add: same_checks_def checked_by_def)

definition hs_good :: "identity_basis \<Rightarrow> peering \<Rightarrow> hs_result \<Rightarrow> bool" where
  "hs_good B P res \<longleftrightarrow> (case res of (r, T, outs) \<Rightarrow>
     checked_by B T \<and> link_ids T \<subseteq> link_ids P \<union> Collect (proven_id B) \<and> (\<forall>ph1. r = Some ph1 \<longrightarrow> hs_inv B ph1))"

lemma hs_good_None [simp]: "hs_good B P (None, P, outs) \<longleftrightarrow> checked_by B P"
  by (auto simp: hs_good_def)

lemma hs_good_Some [simp]: "hs_good B P (Some ph, P, outs) \<longleftrightarrow> checked_by B P \<and> hs_inv B ph"
  by (auto simp: hs_good_def)

lemma promoted_good:
  assumes "checked_by B P" "proven_id B (hello_id ph h)"
  shows "hs_good B P (promoted H ph h P)"
proof -
  obtain r T outs where p: "promoted H ph h P = (r, T, outs)" by (cases "promoted H ph h P" rule: prod_cases3)
  show ?thesis
    using promoted_effect(1,2) [OF p] checked_same [OF promoted_effect(4) [OF p]] assms by (auto simp: p hs_good_def)
qed

lemma inbound_id:
  assumes "ph_server_side ph" "(ph_fd ph, ph_peer_pk ph) \<in> ib_certs B" "proves (ph_peer_pk ph) h"
    and "name_is_free (ib_pins B) (ph_peer_pk ph) (hl_node_name h)"
  shows "proven_id B (hello_id ph h)"
  using assms by (simp add: proven_id_def hello_id_def)

lemma outbound_id:
  assumes "\<not> ph_server_side ph" "(ph_fd ph, ph_peer_pk ph) \<in> ib_certs B" "dialled_to B ph p"
    and v: "verify_outbound_peer_identity (ph_expected_pubkey ph) (ph_peer_pk ph) (hl_pubkey_hex h) (ph_expected_name ph)
          (hl_node_name h) (ib_required B) = None"
  shows "proven_id B (hello_id ph h)"
proof -
  have "proves (ph_peer_pk ph) h" using verified_outbound [OF v] by (simp add: proves_def)
  moreover have "is_dialled_peer (ib_required B) p (ph_peer_pk ph) (hl_node_name h)"
    using verified_outbound(3,6) [OF v] assms(3) by (auto simp: is_dialled_peer_def dialled_to_def)
  ultimately show ?thesis using assms(1-3) by (auto simp: proven_id_def hello_id_def dialled_to_def)
qed

lemma verified_name_is_free:
  assumes "verify_inbound_peer_identity (ms_seeds S) ds pk hpk name = None" "seed_pins S = pins"
  shows "name_is_free pins pk name"
  using verified_inbound(5) [OF assms(1)] assms(2)
  by (auto simp: name_is_free_def seed_pins_def list_all_iff name_is_taken_def)

lemma wants_proven [simp]: "hello_id (wants w ph) h = hello_id ph h"
  by (simp add: hello_id_def)

lemma answer_good:
  assumes "checked_by B P" "ph_server_side ph" "(ph_fd ph, ph_peer_pk ph) \<in> ib_certs B"
    and "proves (ph_peer_pk ph) (ph_peer_hello ph)" "name_is_free (ib_pins B) (ph_peer_pk ph) (hl_node_name (ph_peer_hello ph))"
  shows "hs_good B P (answer_hello H io ph P)"
proof -
  have closed: "\<not> join_open P" using assms(1) by (simp add: checked_by_def)
  have id: "proven_id B (hello_id (ph\<lparr>ph_outbound_hello := x, ph_tx := y\<rparr>) (ph_peer_hello ph))" for x y
    using inbound_id [OF assms(2-5)] by (simp add: hello_id_def)
  show ?thesis
    using assms promoted_good [OF assms(1) id] closed
    by (auto simp: answer_hello_def needs_token_def Let_def hs_inv_def split: prod.split sum.split bool.split)
qed

lemma read_hello_good:
  assumes "checked_by B P" "hs_inv B ph" "ph_state ph = ReadHello"
  shows "hs_good B P (step_read_hello H io ph P)"
proof -
  have cert: "(ph_fd ph, ph_peer_pk ph) \<in> ib_certs B" using assms(2,3) by (simp add: hs_inv_def)
  have S: "seed_pins (pg_mesh P) = ib_pins B" "pg_require_pins P = ib_required B" "\<not> join_open P"
    using assms(1) by (simp_all add: checked_by_def)
  have a: "hs_good B P (answer_hello H io (wants w (ph\<lparr>ph_rx := rx, ph_peer_hello := hello\<rparr>)) P)"
    if "ph_server_side ph" "verify_inbound_peer_identity (ms_seeds (pg_mesh P)) (ms_discovered (pg_mesh P)) (ph_peer_pk ph)
          (hl_pubkey_hex hello) (hl_node_name hello) = None" for w rx hello
    using that(1) cert verified_inbound [OF that(2)] verified_name_is_free [OF that(2) S(1)]
    by (intro answer_good [OF assms(1)]) (simp_all add: proves_def)
  have b: "hs_good B P (promoted H (wants w (ph\<lparr>ph_rx := rx, ph_peer_hello := hello\<rparr>)) hello P)"
    if out: "\<not> ph_server_side ph" and v: "verify_outbound_peer_identity (ph_expected_pubkey ph) (ph_peer_pk ph) (hl_pubkey_hex hello) (ph_expected_name ph)
          (hl_node_name hello) (pg_require_pins P) = None" for w rx hello
  proof -
    obtain p where p: "dialled_to B ph p" using assms(2) out by (auto simp: hs_inv_def)
    from outbound_id [OF out cert p v [unfolded S(2)]] show ?thesis
      by (intro promoted_good [OF assms(1)]) (simp add: hello_id_def)
  qed
  show ?thesis
    using a b assms S(3) by (auto simp: step_read_hello_def hs_inv_def dialled_to_def Let_def split: prod.split sum.split option.split Message.split)
qed

text \<open>What TLS proves in a step is recorded.\<close>

definition records_certs :: "identity_basis \<Rightarrow> hs_io \<Rightarrow> PendingHandshake \<Rightarrow> bool" where
  "records_certs B io ph \<longleftrightarrow> (\<forall>pk. ph_state ph = TlsHandshake \<and> io_tls io = TlsDone pk \<longrightarrow> (ph_fd ph, pk) \<in> ib_certs B)"

lemma hs_step_good:
  assumes "checked_by B P" "hs_inv B ph" "records_certs B io ph"
  shows "hs_good B P (hs_step H io ph P)"
proof (cases "ph_state ph")
  case TcpConnect
  then show ?thesis using assms by (auto simp: hs_step_def hs_inv_def dialled_to_def)
next
  case TlsHandshake
  then show ?thesis using assms
    by (auto simp: hs_step_def step_tls_def hs_inv_def dialled_to_def records_certs_def split: tls_result.split)
next
  case WriteHello
  have "proven_id B (hello_id (ph\<lparr>ph_tx := [], ph_state := HsDone, ph_want_read := False, ph_want_write := False\<rparr>) (ph_peer_hello ph))"
    if "ph_server_side ph"
    using inbound_id [OF that, of B "ph_peer_hello ph"] assms(2) WriteHello that by (simp add: hs_inv_def hello_id_def)
  from promoted_good [OF assms(1) this] WriteHello assms show ?thesis
    by (auto simp: hs_step_def step_write_hello_def hs_inv_def dialled_to_def split: prod.split sum.split bool.split)
next
  case ReadHello
  with assms show ?thesis by (simp add: hs_step_def read_hello_good)
qed (use assms in \<open>simp_all add: hs_step_def hs_inv_def\<close>)

lemma advance_one_good: "checked_by B P \<Longrightarrow> hs_inv B ph \<Longrightarrow> records_certs B io ph \<Longrightarrow> hs_good B P (advance_one H io ph P)"
  using hs_step_good [of B P ph io H] by (auto simp: advance_one_def Let_def hs_good_def checked_by_def)

lemma subset_Un_trans: "A \<subseteq> B \<union> C \<Longrightarrow> B \<subseteq> D \<union> C \<Longrightarrow> A \<subseteq> D \<union> C"
  by blast

lemma advance_all_good:
  assumes "advance_all H io phs P = (kept, T, outs)" "checked_by B P" "\<forall>ph\<in>set phs. hs_inv B ph \<and> records_certs B (io ph) ph"
  shows "checked_by B T \<and> link_ids T \<subseteq> link_ids P \<union> Collect (proven_id B) \<and> (\<forall>ph\<in>set kept. hs_inv B ph)"
  using assms
proof (induction phs arbitrary: P kept T outs)
  case (Cons ph phs)
  obtain r P1 o1 where one: "advance_one H (io ph) ph P = (r, P1, o1)" by (cases "advance_one H (io ph) ph P" rule: prod_cases3)
  obtain k P2 o2 where all: "advance_all H io phs P1 = (k, P2, o2)" by (cases "advance_all H io phs P1" rule: prod_cases3)
  have g: "checked_by B P1" "link_ids P1 \<subseteq> link_ids P \<union> Collect (proven_id B)" "\<forall>ph1. r = Some ph1 \<longrightarrow> hs_inv B ph1"
    using advance_one_good [OF Cons.prems(2), of ph "io ph" H] Cons.prems(3) by (simp_all add: one hs_good_def)
  have st: "kept = (case r of None \<Rightarrow> k | Some ph1 \<Rightarrow> ph1 # k)" "T = P2" using Cons.prems(1) by (auto simp: one all)
  note ih = Cons.IH [OF all g(1)]
  have "link_ids P2 \<subseteq> link_ids P \<union> Collect (proven_id B)"
    by (rule subset_Un_trans [OF _ g(2)]) (use ih Cons.prems(3) in simp)
  then show ?case using ih Cons.prems(3) g(3) st by (cases r) auto
qed simp

section \<open>Membership operations and links\<close>

lemma joined_links:
  assumes "authorize_joiner E pk (redeem_invite now jr pk S) = (r, S1)"
  shows "ms_links S1 = ms_links S \<and> ms_join_open S1 = ms_join_open S"
  using assms
  by (rule_tac redeem_cases [of now jr S pk])
    (auto simp: authorize_joiner_def expire_pending_invites_def drop_invites_def dest: authorize_cases split: if_splits option.splits)

lemma process_join_links:
  assumes "process_join_request E jr pk S = (r, S1, out)"
  shows "ms_links S1 = ms_links S \<and> ms_join_open S1 = ms_join_open S"
proof -
  obtain r0 S0 where j: "authorize_joiner E pk (redeem_invite (en_now E) jr pk S) = (r0, S0)"
    by (cases "authorize_joiner E pk (redeem_invite (en_now E) jr pk S)")
  let ?e = "make_directory_enroll E S0 (jp_node_name r0) pk (jr_listen_addr jr)"
  have "S1 = S0 \<or> S1 = remember_pending_enroll ?e (snd (apply_directory_enroll E ?e S0))"
    using assms by (auto simp: process_join_request_def j Let_def split: if_splits)
  moreover have "ms_join_open (snd (apply_directory_enroll E ?e S0)) = ms_join_open S0"
    using apply_frame [of E ?e S0] by (simp add: invite_view_def)
  ultimately show ?thesis using joined_links [OF j] by (auto simp: apply_links remember_pending_enroll_def Let_def)
qed

lemma apply_seeds: "ms_seeds (snd (apply_directory_enroll E e S)) = ms_seeds S"
proof (cases "apply_directory_enroll E e S")
  case (Pair b S1)
  then have "ms_seeds S1 = ms_seeds S"
    by (rule apply_cases) (auto simp: enrolled_def remember_seen_def learn_member_def)
  with Pair show ?thesis by simp
qed

lemma mesh_step_links: "ms_links (mesh_step op S) = ms_links S"
proof (cases op)
  case (OpInvite now t)
  then show ?thesis by (auto simp: invite_def open_join_window_def expire_pending_invites_def drop_invites_def Let_def split: option.split)
next
  case (OpTick now)
  then show ?thesis by (auto simp: maybe_close_join_window_def close_join_window_def expire_pending_invites_def drop_invites_def Let_def)
next
  case (OpJoin E jr pk)
  then show ?thesis using process_join_links [of E jr pk S] by (cases "process_join_request E jr pk S" rule: prod_cases3) simp
next
  case (OpEnroll E i e)
  then show ?thesis using dispatch_state [of E i e S] by (auto simp: apply_links)
next
  case (OpEnrollCommand E name pk addr)
  then show ?thesis using enroll_command_state [of E name pk addr S] by (auto simp: apply_links remember_pending_enroll_def Let_def)
next
  case (OpMerge now ps)
  then show ?thesis by (simp add: merge_peers_view)
next
  case (OpMdns now name addr pk)
  then show ?thesis by (auto simp: process_mdns_announcement_def Let_def split: prod.split option.split)
next
  case (OpPrune ttl now)
  then show ?thesis by (simp add: prune_stale_discovered_peers_def Let_def)
qed simp

lemma process_join_seeds:
  assumes "process_join_request E jr pk S = (r, S1, out)"
  shows "ms_seeds S1 = ms_seeds S"
proof -
  obtain r0 S0 where j: "authorize_joiner E pk (redeem_invite (en_now E) jr pk S) = (r0, S0)"
    by (cases "authorize_joiner E pk (redeem_invite (en_now E) jr pk S)")
  let ?e = "make_directory_enroll E S0 (jp_node_name r0) pk (jr_listen_addr jr)"
  have "S1 = S0 \<or> S1 = remember_pending_enroll ?e (snd (apply_directory_enroll E ?e S0))"
    using assms by (auto simp: process_join_request_def j Let_def split: if_splits)
  with joined(3) [OF j] show ?thesis by (auto simp: apply_seeds remember_pending_enroll_def Let_def)
qed

lemma mdns_entries_pins:
  "mdns_entries same upd name pk ps = Some qs \<Longrightarrow> (\<And>p. pe_pubkey_hex (upd p) = pe_pubkey_hex p \<and> pe_name (upd p) = pe_name p) \<Longrightarrow>
   map (\<lambda>s. (pe_name s, pe_pubkey_hex s)) qs = map (\<lambda>s. (pe_name s, pe_pubkey_hex s)) ps"
  by (induction ps arbitrary: qs) (auto split: if_splits)

lemma mesh_step_pins: "seed_pins (mesh_step op S) = seed_pins S"
proof (cases op)
  case (OpInvite now t)
  then show ?thesis
    by (auto simp: seed_pins_def invite_def open_join_window_def expire_pending_invites_def drop_invites_def Let_def split: option.split)
next
  case (OpTick now)
  then show ?thesis
    by (auto simp: seed_pins_def maybe_close_join_window_def close_join_window_def expire_pending_invites_def drop_invites_def Let_def)
next
  case (OpJoin E jr pk)
  then show ?thesis using process_join_seeds [of E jr pk S]
    by (cases "process_join_request E jr pk S" rule: prod_cases3) (simp add: seed_pins_def)
next
  case (OpEnroll E i e)
  then show ?thesis using dispatch_state [of E i e S] by (auto simp: seed_pins_def apply_seeds)
next
  case (OpEnrollCommand E name pk addr)
  then show ?thesis using enroll_command_state [of E name pk addr S]
    by (auto simp: seed_pins_def apply_seeds remember_pending_enroll_def Let_def)
next
  case (OpMerge now ps)
  then show ?thesis by (simp add: merge_peers_pins)
next
  case (OpMdns now name addr pk)
  have "seed_pins (process_mdns_announcement now name addr pk S) = seed_pins S"
    by (auto simp: process_mdns_announcement_def seed_pins_def Let_def dest!: mdns_entries_pins split: prod.split option.split)
  with OpMdns show ?thesis by simp
next
  case (OpPrune ttl now)
  then show ?thesis by (simp add: seed_pins_def prune_stale_discovered_peers_def Let_def)
qed (simp add: seed_pins_def)

lemma mesh_step_stays_closed:
  assumes "\<not> ms_join_open S" "\<forall>now t. op \<noteq> OpInvite now t"
  shows "\<not> ms_join_open (mesh_step op S)"
proof (cases op)
  case (OpTick now)
  then show ?thesis using assms by (auto simp: maybe_close_join_window_def Let_def)
next
  case (OpJoin E jr pk)
  then show ?thesis using process_join_links [of E jr pk S] assms by (cases "process_join_request E jr pk S" rule: prod_cases3) simp
qed (use assms in \<open>simp_all add: invite_view_eqD(2) [OF dispatch_frame] invite_view_eqD(2) [OF enroll_command_frame]
    invite_view_eqD(2) [OF merge_peers_frame] invite_view_eqD(2) [OF mdns_frame] invite_view_eqD(2) [OF prune_frame]\<close>)

section \<open>Established links\<close>

definition proven_state :: "identity_basis \<Rightarrow> peering \<Rightarrow> bool" where
  "proven_state B P \<longleftrightarrow> checked_by B P \<and> (\<forall>ph\<in>set (pg_pending P). hs_inv B ph) \<and> (\<forall>l\<in>set (pg_links P). proven_id B (link_id l))"

lemma proven_state_iff:
  "proven_state B P \<longleftrightarrow> checked_by B P \<and> (\<forall>ph\<in>set (pg_pending P). hs_inv B ph) \<and> link_ids P \<subseteq> Collect (proven_id B)"
  by (auto simp: proven_state_def)

text \<open>A basis that has what the next operation proves and dials.\<close>

definition basis_covers :: "identity_basis \<Rightarrow> net_op \<Rightarrow> peering \<Rightarrow> bool" where
  "basis_covers B op P \<longleftrightarrow>
     (case op of
        NetAdvance H io \<Rightarrow> \<forall>ph \<in> set (pg_pending P). records_certs B (io ph) ph
      | NetDial now r1 r2 dial \<Rightarrow> set (ms_seeds (pg_mesh P)) \<union> set (ms_discovered (pg_mesh P)) \<subseteq> ib_peers B
      | _ \<Rightarrow> True)"

lemma proven_step:
  assumes "proven_state B P" "\<forall>now t. op \<noteq> NetMembership (OpInvite now t)" "basis_covers B op P"
  shows "proven_state B (net_step op P)"
proof (cases op)
  case (NetAccept now ok fd ip port)
  then show ?thesis using assms(1) by (auto simp: accept_inbound_def proven_state_def hs_inv_def checked_by_def)
next
  case (NetAdvance H io)
  obtain kept T outs where a: "advance_all H io (pg_pending P) P = (kept, T, outs)"
    by (cases "advance_all H io (pg_pending P) P" rule: prod_cases3)
  have "checked_by B P" "\<forall>ph\<in>set (pg_pending P). hs_inv B ph \<and> records_certs B (io ph) ph"
    using assms(1,3) NetAdvance by (simp_all add: proven_state_def basis_covers_def)
  note g = advance_all_good [OF a this]
  have "link_ids T \<subseteq> Collect (proven_id B)"
    by (rule subset_trans [of _ "link_ids P \<union> Collect (proven_id B)"]) (use g assms(1) in \<open>simp_all add: proven_state_iff\<close>)
  with g show ?thesis using NetAdvance a by (simp add: advance_handshakes_def proven_state_iff checked_by_def)
next
  case (NetDial now r1 r2 dial)
  let ?T = "try_connect_to_seeds now r1 r2 dial P"
  note pass = try_connect_pass [of now P r1 r2 dial]
  have p: "pg_links ?T = pg_links P" "checked_by B ?T = checked_by B P"
    using pass by (simp_all add: pass_inv_def checked_by_def seed_pins_def)
  have d: "hs_inv B ph" if "dial_of q ph" "q \<in> ib_peers B" for q ph
    using that by (auto simp: dial_of_def hs_inv_def dialled_to_def)
  obtain new where "pg_pending ?T = pg_pending P @ new" "\<forall>ph\<in>set new. \<exists>q \<in> ib_peers B. dial_of q ph"
  proof -
    have sub: "set (ms_seeds (pg_mesh P)) \<union> set (ms_discovered (pg_mesh P)) \<subseteq> ib_peers B"
      using assms(3) NetDial by (simp add: basis_covers_def)
    from pass obtain new where "pg_pending ?T = pg_pending P @ new"
      "\<forall>ph\<in>set new. \<exists>q \<in> set (ms_seeds (pg_mesh P)) \<union> set (ms_discovered (pg_mesh P)). dial_of q ph"
      unfolding pass_inv_def by blast
    with sub that show thesis by (meson subsetD)
  qed
  with p NetDial assms(1) d show ?thesis by (auto simp: proven_state_def)
next
  case (NetClean now)
  have s: "shrinks P (clean_dead_conns now P)" by (rule clean_shrinks)
  have "link_ids (clean_dead_conns now P) \<subseteq> Collect (proven_id B)"
    by (rule subset_trans [of _ "link_ids P"]) (use s assms(1) in \<open>simp_all add: shrinks_def proven_state_iff\<close>)
  with s NetClean assms(1) checked_same show ?thesis by (auto simp: shrinks_def proven_state_iff)
next
  case (NetMembership x)
  then show ?thesis using assms(1,2) mesh_step_stays_closed [of "pg_mesh P" x]
    by (simp add: proven_state_def mesh_step_links mesh_step_pins checked_by_def)
qed

text \<open>In a run: TLS has ended on a socket with a certificate of a key, and a peer was a candidate of a dial.\<close>

definition certified :: "net_op list \<Rightarrow> peering \<Rightarrow> nat \<Rightarrow> string \<Rightarrow> bool" where
  "certified ops P fd pk \<longleftrightarrow>
     (\<exists>pre H io post ph. ops = pre @ NetAdvance H io # post \<and> ph \<in> set (pg_pending (net_run pre P)) \<and>
        ph_state ph = TlsHandshake \<and> ph_fd ph = fd \<and> io_tls (io ph) = TlsDone pk)"

definition dial_candidate_in :: "net_op list \<Rightarrow> peering \<Rightarrow> PeerEntry \<Rightarrow> bool" where
  "dial_candidate_in ops P p \<longleftrightarrow>
     (\<exists>pre now r1 r2 dial post. ops = pre @ NetDial now r1 r2 dial # post \<and>
        p \<in> set (ms_seeds (pg_mesh (net_run pre P))) \<union> set (ms_discovered (pg_mesh (net_run pre P))))"

definition basis_of :: "net_op list \<Rightarrow> peering \<Rightarrow> identity_basis" where
  "basis_of ops P =
     \<lparr>ib_certs = {(fd, pk). certified ops P fd pk}, ib_peers = {p. dial_candidate_in ops P p},
      ib_pins = seed_pins (pg_mesh P), ib_required = pg_require_pins P\<rparr>"

lemma certified_mono: "certified ops P fd pk \<Longrightarrow> certified (ops @ [op]) P fd pk"
  unfolding certified_def by (metis append_Cons append_assoc)

lemma candidate_mono: "dial_candidate_in ops P p \<Longrightarrow> dial_candidate_in (ops @ [op]) P p"
  unfolding dial_candidate_in_def by (metis append_Cons append_assoc)

lemma proven_state_mono:
  assumes "proven_state B P" "ib_certs B \<subseteq> ib_certs C" "ib_peers B \<subseteq> ib_peers C" "ib_pins C = ib_pins B" "ib_required C = ib_required B"
  shows "proven_state C P"
proof -
  have "proven_id C x" if "proven_id B x" for x
    using that assms(2-5) unfolding proven_id_def by (cases x) (simp split: if_splits; blast)
  moreover have "hs_inv C ph" if "hs_inv B ph" for ph
    using that assms(2-5) by (auto simp: hs_inv_def dialled_to_def)
  ultimately show ?thesis using assms(1,4,5) by (simp add: proven_state_def checked_by_def)
qed

lemma run_is_proven:
  assumes "pg_links P = []" "pg_pending P = []" "\<not> join_open P" "\<forall>op\<in>set ops. \<forall>now t. op \<noteq> NetMembership (OpInvite now t)"
  shows "proven_state (basis_of ops P) (net_run ops P)"
  using assms(4)
proof (induction ops rule: rev_induct)
  case Nil
  show ?case using assms(1-3) by (simp add: net_run_def proven_state_def checked_by_def basis_of_def)
next
  case (snoc op ops)
  let ?B = "basis_of (ops @ [op]) P"
  from snoc have "proven_state (basis_of ops P) (net_run ops P)" by simp
  then have 1: "proven_state ?B (net_run ops P)"
    by (rule proven_state_mono) (auto simp: basis_of_def certified_mono candidate_mono)
  have "basis_covers ?B op (net_run ops P)"
  proof (cases op)
    case (NetAdvance H io)
    have "certified (ops @ [op]) P (ph_fd ph) pk"
      if "ph \<in> set (pg_pending (net_run ops P))" "ph_state ph = TlsHandshake" "io_tls (io ph) = TlsDone pk" for ph pk
      using that NetAdvance unfolding certified_def by blast
    with NetAdvance show ?thesis by (simp add: basis_covers_def records_certs_def basis_of_def)
  next
    case (NetDial now r1 r2 dial)
    have "dial_candidate_in (ops @ [op]) P p"
      if "p \<in> set (ms_seeds (pg_mesh (net_run ops P))) \<union> set (ms_discovered (pg_mesh (net_run ops P)))" for p
      using that NetDial unfolding dial_candidate_in_def by blast
    with NetDial show ?thesis by (auto simp: basis_covers_def basis_of_def)
  qed (simp_all add: basis_covers_def)
  with proven_step [OF 1] snoc.prems have "proven_state ?B (net_step op (net_run ops P))" by simp
  then show ?case by (simp add: net_run_def)
qed

text \<open>C22. A node that starts without links goes through accepts, steps of handshakes, dials, clean-ups and
  membership operations, and no invite opens its join window. Then every link it has rests on the
  checks: a TLS handshake on the link's socket ended with a certificate of the link's key; the Hello
  announced that same key, and the link's name, which is not empty and has no control characters; the
  key of a dialled peer is the one its entry pins (an entry without a key only passes when pins are
  not required, and then the name has to be the entry's); and the name of an accepted peer is
  not pinned by a seed to another key.\<close>

theorem links_prove_their_identity:
  assumes "pg_links P = []" "pg_pending P = []" "\<not> join_open P"
    and "\<forall>op\<in>set ops. \<forall>now t. op \<noteq> NetMembership (OpInvite now t)" "l \<in> set (pg_links (net_run ops P))"
  shows "certified ops P (ml_fd l) (ml_pubkey l) \<and>
    (\<exists>h. ml_hello l = Some h \<and> hl_pubkey_hex h = ml_pubkey l \<and> hl_node_name h = ml_name l) \<and>
    ml_pubkey l \<noteq> [] \<and> ml_name l \<noteq> [] \<and> \<not> has_control_char (ml_name l) \<and>
    (if ml_outbound l
     then \<exists>p. dial_candidate_in ops P p \<and> pe_addr p = ml_addr l \<and>
       (pg_require_pins P \<or> pe_pubkey_hex p \<noteq> [] \<longrightarrow> ml_pubkey l = pe_pubkey_hex p) \<and>
       (pe_pubkey_hex p = [] \<and> pe_name p \<noteq> [] \<longrightarrow> config_peer_name_eq (pe_name p) (ml_name l))
     else \<forall>s \<in> set (ms_seeds (pg_mesh P)). \<not> name_is_taken (ml_pubkey l) (ml_name l) s)"
proof -
  have "proven_id (basis_of ops P) (link_id l)"
    using run_is_proven [OF assms(1-4)] assms(5) by (simp add: proven_state_def)
  then show ?thesis
    by (auto simp: proven_id_def link_id_def basis_of_def proves_def is_dialled_peer_def name_is_free_def seed_pins_def name_is_taken_def)
qed

text \<open>While the join window is open a member that is already trusted is promoted without the check of its
  name: whatever name it announces, also one that is pinned to another key or one with control
  characters, becomes the name of its link.\<close>

theorem open_window_skips_the_name_check:
  assumes "ph_state ph = ReadHello" "ph_server_side ph" "join_open P" "fst (refresh_trust (ph_peer_pk ph) P)"
    and "read_frame_nonblocking (he_zstd H) (ph_rx ph) (io_read io) = (Inr (Some (MHello hello)), rx, w, evs)"
    and "write_frame_nonblocking (he_zstd H) (MHello (local_hello (he_version H) (en_unix (he_mesh H)) (pg_mesh P)))
           CONTROL_STREAM_ID (ph_tx ph) (io_write io) = (Inr True, tx, w2, sent)"
    and "hs_step H io ph P = (r, T, outs)"
  shows "\<exists>l\<in>set (pg_links T). ml_open l \<and> ml_pubkey l = ph_peer_pk ph \<and> ml_name l = hl_node_name hello"
proof -
  let ?ph = "wants w (ph\<lparr>ph_rx := rx, ph_peer_hello := hello\<rparr>)"
  let ?ph2 = "?ph\<lparr>ph_outbound_hello := local_hello (he_version H) (en_unix (he_mesh H)) (pg_mesh P), ph_tx := []\<rparr>"
  have "needs_token (ph_peer_pk ph) P = (False, snd (refresh_trust (ph_peer_pk ph) P))"
    using assms(3,4) by (cases "refresh_trust (ph_peer_pk ph) P") (simp add: needs_token_def)
  then have "hs_step H io ph P = promoted H ?ph2 hello (snd (refresh_trust (ph_peer_pk ph) P))"
    using assms(1,2,3,5,6) by (simp add: hs_step_def step_read_hello_def answer_hello_def Let_def)
  with assms(7) have p: "promoted H ?ph2 hello (snd (refresh_trust (ph_peer_pk ph) P)) = (r, T, outs)" by simp
  have "new_link (he_now H) ?ph2 hello \<in> set (pg_links T)" by (rule promoted_effect(5) [OF p])
  then show ?thesis by (intro bexI [of _ "new_link (he_now H) ?ph2 hello"]) (simp_all add: new_link_def)
qed

section \<open>Joining\<close>

lemma join_reply_redeems:
  assumes "process_join_request E jr pk S = (reply, S1, out)" "jp_ok reply"
  shows "redeemable (en_now E) (jr_token jr) S"
proof -
  obtain r0 S0 where j: "authorize_joiner E pk (redeem_invite (en_now E) jr pk S) = (r0, S0)"
    by (cases "authorize_joiner E pk (redeem_invite (en_now E) jr pk S)")
  have "reply = r0" using assms(1) by (auto simp: process_join_request_def j Let_def split: if_splits)
  with joined(6) [OF j] assms(2) show ?thesis by simp
qed

lemma redeem_token_links:
  assumes "redeem_token H io jr ph P = (r, T, outs)" "pg_links T \<noteq> pg_links P"
  shows "redeemable (en_now (he_mesh H)) (jr_token jr) (pg_mesh P)"
proof -
  obtain reply S sent where j: "process_join_request (he_mesh H) jr (ph_peer_pk ph) (pg_mesh P) = (reply, S, sent)"
    by (cases "process_join_request (he_mesh H) jr (ph_peer_pk ph) (pg_mesh P)" rule: prod_cases3)
  have "jp_ok reply"
  proof (rule ccontr)
    assume "\<not> jp_ok reply"
    then have "pg_links T = ms_links S" using assms(1) by (auto simp: redeem_token_def j Let_def)
    with process_join_links [OF j] assms(2) show False by simp
  qed
  with join_reply_redeems [OF j] show ?thesis by simp
qed

text \<open>The token that the bytes waiting for a handshake present, if they are a JoinRequest.\<close>

definition presented_token :: "hs_env \<Rightarrow> hs_io \<Rightarrow> PendingHandshake \<Rightarrow> string option" where
  "presented_token H io ph =
     (case fst (read_frame_nonblocking (he_zstd H) (ph_rx ph) (io_read io)) of
        Inr (Some (MJoinRequest jr)) \<Rightarrow> Some (jr_token jr)
      | _ \<Rightarrow> None)"

lemma read_join_links:
  assumes "read_join_request H io ph P = (r, T, outs)" "pg_links T \<noteq> pg_links P"
  shows "\<exists>token. presented_token H io ph = Some token \<and> redeemable (en_now (he_mesh H)) token (pg_mesh P)"
  using assms
  by (auto simp: read_join_request_def presented_token_def dest: redeem_token_links
      split: prod.splits sum.splits option.splits Message.splits)

lemma presented_token_cong: "ph_rx ph1 = ph_rx ph \<Longrightarrow> presented_token H io ph1 = presented_token H io ph"
  by (simp add: presented_token_def)

lemma finish_hello_links:
  assumes "finish_hello H io ph P = (r, T, outs)" "pg_links T \<noteq> pg_links P"
  shows "\<exists>token. presented_token H io ph = Some token \<and> redeemable (en_now (he_mesh H)) token (pg_mesh P)"
proof -
  let ?ph1 = "ph\<lparr>ph_tx := [], ph_want_read := True, ph_want_write := False\<rparr>"
  have "read_join_request H io ph P = (r, T, outs) \<or> read_join_request H io ?ph1 P = (r, T, outs)"
    using assms by (auto simp: finish_hello_def split: prod.splits sum.splits bool.splits if_splits)
  then show ?thesis
  proof
    assume "read_join_request H io ph P = (r, T, outs)"
    from read_join_links [OF this assms(2)] show ?thesis .
  next
    assume "read_join_request H io ?ph1 P = (r, T, outs)"
    from read_join_links [OF this assms(2)] show ?thesis by (simp add: presented_token_def)
  qed
qed

lemma step_join_links:
  assumes "step_join H io ph P = (r, T, outs)" "pg_links T \<noteq> pg_links P"
  shows "\<exists>token. presented_token H io ph = Some token \<and> redeemable (en_now (he_mesh H)) token (pg_mesh P)"
proof (cases "queue_hello (he_zstd H) ph")
  case (Inl e)
  with assms show ?thesis by (simp add: step_join_def)
next
  case (Inr ph1)
  then have "ph_rx ph1 = ph_rx ph"
    by (cases "encode (he_zstd H) (MHello (ph_outbound_hello ph)) CONTROL_STREAM_ID False") (auto simp: queue_hello_def split: if_splits)
  note same = presented_token_cong [OF this]
  have "finish_hello H io ph1 P = (r, T, outs)" using assms(1) Inr by (simp add: step_join_def)
  from finish_hello_links [OF this assms(2)] show ?thesis by (simp only: same)
qed

lemma answer_hello_links:
  assumes "answer_hello H io ph P = (r, T, outs)" "join_open P" "\<not> fst (refresh_trust (ph_peer_pk ph) P)"
  shows "pg_links T = pg_links P"
proof -
  have n: "needs_token (ph_peer_pk ph) P = (True, snd (refresh_trust (ph_peer_pk ph) P))"
    using assms(2,3) by (cases "refresh_trust (ph_peer_pk ph) P") (simp add: needs_token_def)
  show ?thesis using assms(1)
    by (auto simp: answer_hello_def n Let_def split: prod.splits sum.splits bool.splits)
qed

text \<open>C23. While the join window is open, an accepted peer whose key is not trusted does not become a link by its
  Hello, and not by its JoinRequest either unless that presents the token of an unclaimed invite at most
  two hours old.\<close>

theorem unknown_peer_needs_a_token:
  assumes "hs_step H io ph P = (r, T, outs)" "ph_server_side ph" "join_open P" "\<not> fst (refresh_trust (ph_peer_pk ph) P)"
    and "ph_state ph = ReadHello \<or> ph_state ph = ReadJoinRequest \<and>
      (case presented_token H io ph of None \<Rightarrow> True | Some token \<Rightarrow> \<not> redeemable (en_now (he_mesh H)) token (pg_mesh P))"
  shows "pg_links T = pg_links P"
proof (cases "ph_state ph = ReadHello")
  case True
  then show ?thesis
    using assms(1-4) answer_hello_links [of H io "wants w (ph\<lparr>ph_rx := rx, ph_peer_hello := hello\<rparr>)" P r T outs for w rx hello]
    by (auto simp: hs_step_def step_read_hello_def Let_def split: prod.splits sum.splits option.splits Message.splits)
next
  case False
  then have "step_join H io ph P = (r, T, outs)" using assms(1,5) by (auto simp: hs_step_def)
  with step_join_links False assms(5) show ?thesis by fastforce
qed

text \<open>When the Hello for a joining peer did not fit the socket at once, its rest is written later and then the
  whole Hello is written again: the flag that it has been written is set only on the path that sends it at
  once.\<close>

theorem partial_hello_is_sent_twice:
  assumes "ph_tx ph \<noteq> []" "\<not> ph_hello_written ph" "hl_pubkey_hex (ph_outbound_hello ph) \<noteq> []"
    and "write_frame_nonblocking (he_zstd H) (MHello (ph_outbound_hello ph)) CONTROL_STREAM_ID (ph_tx ph) (io_write io) = (Inr True, tx, w, sent)"
    and "read_frame_nonblocking (he_zstd H) (ph_rx ph) (io_read io) = (Inr None, rx, w2, evs)"
    and "encode (he_zstd H) (MHello (ph_outbound_hello ph)) CONTROL_STREAM_ID False = Inr fr" "fr \<noteq> []"
    and "io_write io2 = []"
  shows "\<exists>ph1 ph2. step_join H io ph P = (Some ph1, P, []) \<and> step_join H io2 ph1 P = (Some ph2, P, []) \<and> ph_tx ph2 = fr"
proof -
  let ?ph1 = "wants w2 (ph\<lparr>ph_tx := [], ph_want_read := True, ph_want_write := False, ph_rx := rx\<rparr>)"
  have one: "step_join H io ph P = (Some ?ph1, P, [])"
    using assms(1-5) by (simp add: step_join_def queue_hello_def finish_hello_def read_join_request_def)
  have "tx_loop fr [] = (Inr False, fr, WANT_WRITE, [])" using assms(7) by (cases fr) simp_all
  then have two: "step_join H io2 ?ph1 P = (Some (wants WANT_WRITE (?ph1\<lparr>ph_tx := fr, ph_hello_written := True, ph_tx := fr\<rparr>)), P, [])"
    using assms(2,3,6,7,8)
    by (simp add: step_join_def queue_hello_def finish_hello_def write_frame_nonblocking_def)
  have "ph_tx (wants WANT_WRITE (?ph1\<lparr>ph_tx := fr, ph_hello_written := True, ph_tx := fr\<rparr>)) = fr" by (simp add: wants_def)
  with one two show ?thesis by blast
qed

section \<open>Automatic upgrade\<close>

text \<open>An automatic upgrade is dispatched only when the policy allows it, to a peer that is behind this node and
  whose name is safe in a shell command, and never twice within a minute; a dispatch adds one task.\<close>

theorem auto_upgrade_is_paced:
  assumes "pg_upgrade_tasks (maybe_schedule_auto_upgrade v now peer rv P) \<noteq> pg_upgrade_tasks P"
  shows "pg_upgrade_tasks (maybe_schedule_auto_upgrade v now peer rv P) = pg_upgrade_tasks P @ [peer] \<and>
    pg_auto_upgrade P \<and> bs_peer_name_shell_safe peer \<and> version_is_older rv v \<and> peer \<noteq> ms_node_name (pg_mesh P) \<and>
    (\<forall>t. pg_upgrade_last P peer = Some t \<longrightarrow> now - t \<ge> 60 * second_ns) \<and>
    pg_upgrade_last (maybe_schedule_auto_upgrade v now peer rv P) peer = Some now"
proof -
  have c: "upgrade_cooldown_secs (pg_upgrade_cooldown_secs P) n * second_ns \<ge> 60 * second_ns" for n
    by (simp add: upgrade_cooldown_secs_def second_ns_def)
  show ?thesis using assms c
    by (auto simp: maybe_schedule_auto_upgrade_def Let_def not_less intro: order_trans split: if_splits option.splits)
qed

section \<open>Back-off after a link\<close>

text \<open>Completing an outbound handshake leaves the back-off of the address as it is, although the dialler
  counts on a completed Hello erasing it.\<close>

theorem completed_hello_keeps_the_backoff:
  assumes "promote_handshake_to_conn v now unix ph hello P = (T, outs)" "duplicate_pairs (pg_links P @ [new_link now ph hello]) = []"
  shows "pg_backoffs T = pg_backoffs P"
proof -
  let ?W = "with_new_link now unix ph hello P"
  have "resolve_duplicates now ?W = ?W" by (rule resolve_no_pairs) (simp add: with_new_link_facts(1) assms(2))
  then have "pg_backoffs T = pg_backoffs ?W"
    using assms(1) by (auto simp: promote_handshake_to_conn_def with_new_link_def Let_def)
  then show ?thesis by (simp add: with_new_link_def Let_def)
qed

section \<open>Samples\<close>

definition sample_hello :: HelloMsg where
  "sample_hello = \<lparr>hl_node_name = ''m'', hl_version = ''1'', hl_pubkey_hex = ''k'', hl_known_peers = []\<rparr>"

definition sample_hs_env :: hs_env where
  "sample_hs_env = \<lparr>he_now = 0, he_rng = 0, he_version = ''1'', he_zstd = store_zstd, he_mesh = mesh_sample_env\<rparr>"

definition hs_sample_io :: "ssl_read list \<Rightarrow> ssl_write list \<Rightarrow> hs_io" where
  "hs_sample_io rd wr = \<lparr>io_pollable = True, io_ready = True, io_connected = True, io_tls = TlsDone ''k'', io_read = rd, io_write = wr, io_reply = []\<rparr>"

abbreviation hello_frame :: bytes where
  "hello_frame \<equiv> [0, 0, 21, 2, 0, 6, 1, 109, 1, 49, 1, 107]"

lemma encode_sample_hello: "encode store_zstd (MHello sample_hello) 0 False = Inr hello_frame"
  by (simp add: sample_hello_def encode_def ser_HelloMsg_def ser_seq.simps ser_str_prefixed_def ser_u8_def ser_str_def
      bytes_of_string_def byte_of_char_def frame_consts Let_def frame_bytes_def write_u16_def)

lemma read_sample_hello:
  "read_frame_nonblocking store_zstd [] [SslData (hello_frame @ [0, 0, 10, 2, 0, 0])] = (Inr (Some (MHello sample_hello)), [], WANT_READ, [])"
proof -
  have "wire_ok (MHello sample_hello)" "canon_msg (MHello sample_hello) = MHello sample_hello" by (simp_all add: sample_hello_def)
  then have "mesh_frame store_zstd (MHello sample_hello, 0) hello_frame" "mesh_frame store_zstd (MPing, 0) [0, 0, 10, 2, 0, 0]"
    by (simp_all add: mesh_frame_def store_zstd_documented encode_sample_hello encode_sample)
  from handshake_reader_drops_second_frame [OF this] \<open>canon_msg _ = _\<close> show ?thesis by (simp add: kReadChunk_def)
qed

lemma read_nothing: "read_frame_nonblocking store_zstd [] [] = (Inr None, [], WANT_READ, [])"
  by (simp add: read_frame_nonblocking_def rx_loop.simps kHandshakeReadBudget_def buffered_bytes_hold_complete_frame_def frame_consts)

definition sample_seed :: "string \<Rightarrow> string \<Rightarrow> PeerEntry" where
  "sample_seed name pk = \<lparr>pe_name = name, pe_addr = name @ '':1'', pe_pubkey_hex = pk, pe_last_seen = 0\<rparr>"

definition sample_reading :: PendingHandshake where
  "sample_reading = new_handshake\<lparr>ph_server_side := True, ph_state := ReadHello, ph_peer_pk := ''k'', ph_tx := [1]\<rparr>"

lemma open_window_skips_the_name_check_witness:
  "\<exists>l\<in>set (pg_links (fst (snd (hs_step sample_hs_env (hs_sample_io [SslData (hello_frame @ [0, 0, 10, 2, 0, 0])] [SslWrote 1]) sample_reading
      (sample_peering ''aa'' [] [sample_seed ''m'' ''z'', sample_seed ''n'' ''k'']))))).
     ml_open l \<and> ml_pubkey l = ''k'' \<and> ml_name l = ''m''"
proof -
  let ?P = "sample_peering ''aa'' [] [sample_seed ''m'' ''z'', sample_seed ''n'' ''k'']"
  let ?io = "hs_sample_io [SslData (hello_frame @ [0, 0, 10, 2, 0, 0])] [SslWrote 1]"
  let ?R = "hs_step sample_hs_env ?io sample_reading ?P"
  have ph: "ph_state sample_reading = ReadHello" "ph_server_side sample_reading" "ph_peer_pk sample_reading = ''k''"
      "ph_rx sample_reading = []" "ph_tx sample_reading = [1]"
    by (simp_all add: sample_reading_def new_handshake_def)
  have io: "io_read ?io = [SslData (hello_frame @ [0, 0, 10, 2, 0, 0])]" "io_write ?io = [SslWrote 1]" "he_zstd sample_hs_env = store_zstd"
    by (simp_all add: hs_sample_io_def sample_hs_env_def)
  have open_: "join_open ?P" by (simp add: sample_peering_def sample_mesh_def)
  have "fst (refresh_trust ''k'' ?P)"
    by (simp add: refresh_trust_def is_trusted_pubkey_def is_trusted_pubkey_cached_def sample_seed_def Let_def split: prod.split)
  moreover have "write_frame_nonblocking store_zstd msg CONTROL_STREAM_ID [1] [SslWrote 1] = (Inr True, [], WANT_WRITE, [1])" for msg
    by (simp add: write_frame_nonblocking_def)
  ultimately have "\<exists>l\<in>set (pg_links (fst (snd ?R))). ml_open l \<and> ml_pubkey l = ph_peer_pk sample_reading \<and> ml_name l = hl_node_name sample_hello"
    using ph io open_ read_sample_hello
    by (intro open_window_skips_the_name_check [where H = sample_hs_env and io = ?io and ph = sample_reading and P = ?P
          and r = "fst ?R" and outs = "snd (snd ?R)"]) simp_all
  then show ?thesis by (simp add: ph(3) sample_hello_def)
qed

definition sample_joining :: PendingHandshake where
  "sample_joining = new_handshake\<lparr>ph_server_side := True, ph_state := ReadJoinRequest, ph_outbound_hello := sample_hello, ph_tx := [107]\<rparr>"

lemma partial_hello_is_sent_twice_witness:
  "\<exists>ph1 ph2. step_join sample_hs_env (hs_sample_io [] [SslWrote 1]) sample_joining (sample_peering ''aa'' [] []) = (Some ph1, sample_peering ''aa'' [] [], []) \<and>
     step_join sample_hs_env (hs_sample_io [] []) ph1 (sample_peering ''aa'' [] []) = (Some ph2, sample_peering ''aa'' [] [], []) \<and> ph_tx ph2 = hello_frame"
proof (rule partial_hello_is_sent_twice)
  show "read_frame_nonblocking (he_zstd sample_hs_env) (ph_rx sample_joining) (io_read (hs_sample_io [] [SslWrote 1])) = (Inr None, [], WANT_READ, [])"
    by (simp add: sample_hs_env_def sample_joining_def hs_sample_io_def new_handshake_def read_nothing)
  show "encode (he_zstd sample_hs_env) (MHello (ph_outbound_hello sample_joining)) CONTROL_STREAM_ID False = Inr hello_frame"
    by (simp add: sample_hs_env_def sample_joining_def encode_sample_hello CONTROL_STREAM_ID_def)
  show "write_frame_nonblocking (he_zstd sample_hs_env) (MHello (ph_outbound_hello sample_joining)) CONTROL_STREAM_ID (ph_tx sample_joining)
      (io_write (hs_sample_io [] [SslWrote 1])) = (Inr True, [], WANT_WRITE, [107])"
    by (simp add: sample_joining_def hs_sample_io_def write_frame_nonblocking_def)
qed (simp_all add: sample_joining_def hs_sample_io_def sample_hello_def new_handshake_def)

lemma completed_hello_keeps_the_backoff_witness:
  "pg_backoffs (fst (promote_handshake_to_conn ''1'' 0 0 sample_reading sample_hello (sample_peering ''aa'' [] []))) = Map.empty"
proof -
  have "pg_backoffs (fst (promote_handshake_to_conn ''1'' 0 0 sample_reading sample_hello (sample_peering ''aa'' [] [])))
      = pg_backoffs (sample_peering ''aa'' [] [])"
    by (rule completed_hello_keeps_the_backoff [OF prod.collapse [symmetric]]) simp
  then show ?thesis by (simp add: sample_peering_def)
qed

text \<open>A peer is accepted on socket 7, TLS gives a certificate of the key k, and its Hello arrives.\<close>

definition closed_peering :: peering where
  "closed_peering = (let P = sample_peering ''aa'' [] [sample_seed ''n'' ''z''] in P\<lparr>pg_mesh := (pg_mesh P)\<lparr>ms_join_open := False\<rparr>\<rparr>)"

definition hello_arrives :: hs_io where
  "hello_arrives = hs_sample_io [SslData (hello_frame @ [0, 0, 10, 2, 0, 0])] [SslWrote 1000]"

definition accept_ops :: "net_op list" where
  "accept_ops = [NetAccept 0 True 7 ''10.0.0.1'' 99, NetAdvance sample_hs_env (\<lambda>_. hs_sample_io [] []),
     NetAdvance sample_hs_env (\<lambda>_. hello_arrives)]"

definition accepted_hs :: PendingHandshake where
  "accepted_hs = new_handshake\<lparr>ph_fd := 7, ph_server_side := True, ph_state := ReadHello, ph_peer_pk := ''k'',
     ph_expected_addr := ''10.0.0.1:'' @ dec_digits 99, ph_deadline := kAcceptHandshakeTimeoutMs * ms_ns\<rparr>"

lemma closed_peering_simps [simp]:
  "pg_links closed_peering = []" "pg_pending closed_peering = []" "\<not> join_open closed_peering"
  "ms_seeds (pg_mesh closed_peering) = [sample_seed ''n'' ''z'']" "ms_discovered (pg_mesh closed_peering) = []"
  by (simp_all add: closed_peering_def Let_def) (simp add: sample_peering_def sample_mesh_def)

lemma accepted_run:
  "net_run [NetAccept 0 True 7 ''10.0.0.1'' 99, NetAdvance sample_hs_env (\<lambda>_. hs_sample_io [] [])] closed_peering
     = closed_peering\<lparr>pg_pending := [accepted_hs]\<rparr>"
  by (simp add: net_run_def accept_inbound_def pending_from_source_def kMaxConnections_def kMaxPendingHandshakes_def
      advance_handshakes_def advance_one_def sample_hs_env_def hs_sample_io_def kAcceptHandshakeTimeoutMs_def ms_ns_def
      hs_step_def step_tls_def accepted_hs_def new_handshake_def)

lemma our_answer:
  "local_hello ''1'' 1000 (pg_mesh closed_peering) =
     \<lparr>hl_node_name = ''n'', hl_version = ''1+frm2+enroll+fcp'', hl_pubkey_hex = ''aa'',
      hl_known_peers = [\<lparr>pi_name = ''n'', pi_addr = ''n:1'', pi_pubkey_hex = ''z'', pi_last_seen = 1000\<rparr>]\<rparr>"
  by (simp add: local_hello_def peer_info_def sample_seed_def)
    (simp add: closed_peering_def sample_peering_def sample_mesh_def version_string_with_local_caps_def kCapFrm2_def kCapEnroll_def
      kCapFcp_def Let_def)

lemma answer_encodes:
  "\<exists>b fr. encode store_zstd (MHello (local_hello ''1'' 1000 (pg_mesh closed_peering))) CONTROL_STREAM_ID False = Inr (b # fr) \<and> length fr < 1000"
  unfolding our_answer
  by (simp add: CONTROL_STREAM_ID_def encode_def ser_HelloMsg_def ser_PeerInfo_def ser_seq.simps ser_str_prefixed_def ser_u8_def
      ser_u32be_def ser_str_def bytes_of_string_def byte_of_char_def frame_consts Let_def frame_bytes_def write_u16_def write_u32be_def)

lemma answer_written:
  "\<exists>w sent. write_frame_nonblocking store_zstd (MHello (local_hello ''1'' 1000 (pg_mesh closed_peering))) CONTROL_STREAM_ID [] [SslWrote 1000] =
     (Inr True, [], w, sent)"
  using answer_encodes by (auto simp: write_frame_nonblocking_def)

lemma hello_accepted:
  "\<exists>T outs. hs_step sample_hs_env hello_arrives accepted_hs (closed_peering\<lparr>pg_pending := [accepted_hs]\<rparr>) = (None, T, outs) \<and>
     new_link 0 accepted_hs sample_hello \<in> set (pg_links T)"
proof -
  let ?P = "closed_peering\<lparr>pg_pending := [accepted_hs]\<rparr>"
  define ph where "ph = (wants WANT_READ (accepted_hs\<lparr>ph_rx := [], ph_peer_hello := sample_hello\<rparr>))
    \<lparr>ph_outbound_hello := local_hello ''1'' 1000 (pg_mesh closed_peering)\<rparr>"
  have seed: "\<not> name_is_taken ''k'' ''m'' (sample_seed ''n'' ''z'')"
    by (simp add: name_is_taken_def sample_seed_def) code_simp
  have check: "verify_inbound_peer_identity [sample_seed ''n'' ''z''] [] ''k'' ''k'' ''m'' = None"
    by (simp add: verify_inbound_peer_identity_def seed has_control_char_def code_of_def)
  have ph: "ph_tx ph = []" "ph_peer_pk ph = ''k''" "ph_peer_hello ph = sample_hello" "ph_outbound_hello ph = local_hello ''1'' 1000 (pg_mesh closed_peering)"
    by (simp_all add: ph_def wants_def accepted_hs_def new_handshake_def)
  have keeps: "ph\<lparr>ph_tx := []\<rparr> = ph" using ph(1) by (cases ph) simp
  have "hs_step sample_hs_env hello_arrives accepted_hs ?P = promoted sample_hs_env ph sample_hello ?P"
  proof -
    have "hs_step sample_hs_env hello_arrives accepted_hs ?P =
        answer_hello sample_hs_env hello_arrives (wants WANT_READ (accepted_hs\<lparr>ph_rx := [], ph_peer_hello := sample_hello\<rparr>)) ?P"
      using check read_sample_hello
      by (simp add: hs_step_def step_read_hello_def accepted_hs_def new_handshake_def sample_hs_env_def hello_arrives_def hs_sample_io_def
          wants_def sample_hello_def Let_def)
    also have "\<dots> = promoted sample_hs_env ph sample_hello ?P"
      using answer_written ph
      by (simp add: answer_hello_def needs_token_def sample_hs_env_def hello_arrives_def hs_sample_io_def mesh_sample_env_def
          flip: ph_def) (auto simp: keeps)
    finally show ?thesis .
  qed
  moreover obtain r T outs where T: "promoted sample_hs_env ph sample_hello ?P = (r, T, outs)" by (metis prod_cases3)
  moreover have "new_link (he_now sample_hs_env) ph sample_hello = new_link 0 accepted_hs sample_hello"
    by (simp add: new_link_def ph_def wants_def sample_hs_env_def)
  ultimately show ?thesis using promoted_effect(1,5) [OF T] by auto
qed

lemma links_prove_their_identity_witness:
  "\<exists>l. l \<in> set (pg_links (net_run accept_ops closed_peering)) \<and> ml_pubkey l = ''k'' \<and> ml_name l = ''m'' \<and> \<not> ml_outbound l \<and>
     certified accept_ops closed_peering (ml_fd l) ''k'' \<and> \<not> name_is_taken ''k'' ''m'' (sample_seed ''n'' ''z'')"
proof -
  obtain T outs where T: "hs_step sample_hs_env hello_arrives accepted_hs (closed_peering\<lparr>pg_pending := [accepted_hs]\<rparr>) = (None, T, outs)"
      "new_link 0 accepted_hs sample_hello \<in> set (pg_links T)"
    using hello_accepted by auto
  let ?l = "new_link 0 accepted_hs sample_hello"
  have "net_run accept_ops closed_peering =
      net_step (NetAdvance sample_hs_env (\<lambda>_. hello_arrives)) (closed_peering\<lparr>pg_pending := [accepted_hs]\<rparr>)"
    using accepted_run by (simp add: accept_ops_def net_run_def)
  then have l: "?l \<in> set (pg_links (net_run accept_ops closed_peering))"
    using T by (simp add: advance_handshakes_def advance_one_def accepted_hs_def sample_hs_env_def hello_arrives_def hs_sample_io_def
      kAcceptHandshakeTimeoutMs_def ms_ns_def)
  have "\<forall>op\<in>set accept_ops. \<forall>now t. op \<noteq> NetMembership (OpInvite now t)" by (simp add: accept_ops_def)
  from links_prove_their_identity [OF closed_peering_simps(1-3) this l] l
  show ?thesis by (intro exI [of _ ?l]) (simp add: new_link_def accepted_hs_def new_handshake_def sample_hello_def)
qed

lemma unknown_peer_needs_a_token_witness:
  "pg_links (fst (snd (hs_step sample_hs_env (hs_sample_io [] []) sample_joining (sample_peering ''aa'' [] [])))) = []"
proof -
  let ?P = "sample_peering ''aa'' [] []"
  have ph: "ph_server_side sample_joining" "ph_state sample_joining = ReadJoinRequest" "ph_peer_pk sample_joining = []" "ph_rx sample_joining = []"
    by (simp_all add: sample_joining_def new_handshake_def)
  have "\<not> fst (refresh_trust [] ?P)"
    by (simp add: refresh_trust_def is_trusted_pubkey_def is_trusted_pubkey_cached_def Let_def split: prod.split)
  moreover have "presented_token sample_hs_env (hs_sample_io [] []) sample_joining = None"
    by (simp add: presented_token_def ph sample_hs_env_def hs_sample_io_def read_nothing)
  moreover have "join_open ?P" by (simp add: sample_peering_def sample_mesh_def)
  ultimately have "pg_links (fst (snd (hs_step sample_hs_env (hs_sample_io [] []) sample_joining ?P))) = pg_links ?P"
    using ph by (intro unknown_peer_needs_a_token [where r = "fst (hs_step sample_hs_env (hs_sample_io [] []) sample_joining ?P)"
          and outs = "snd (snd (hs_step sample_hs_env (hs_sample_io [] []) sample_joining ?P))"]) auto
  then show ?thesis by simp
qed

lemma auto_upgrade_is_paced_witness:
  "pg_upgrade_last (maybe_schedule_auto_upgrade ''26.09.19'' 5 ''m'' ''26.09.18'' (sample_peering ''aa'' [] [])) ''m'' = Some 5"
proof -
  have "version_is_older ''26.09.18'' ''26.09.19''" "bs_peer_name_shell_safe ''m''" by code_simp+
  then have "pg_upgrade_tasks (maybe_schedule_auto_upgrade ''26.09.19'' 5 ''m'' ''26.09.18'' (sample_peering ''aa'' [] [])) \<noteq>
      pg_upgrade_tasks (sample_peering ''aa'' [] [])"
    by (simp add: maybe_schedule_auto_upgrade_def sample_peering_def sample_mesh_def)
  from auto_upgrade_is_paced [OF this] show ?thesis by simp
qed

end
