(* ===== verification/Config.thy ===== *)
theory Config
  imports Trust Sorted_Map Paths
begin

text \<open>
  The configuration file (bs-config.h): its parser \<open>load_config\<close>, its writer \<open>save_config\<close>, the
  import of ssh aliases, the quoting of an argument, and the commands of \<open>main.cpp\<close> that edit the seeds.

  \<open>parse_int\<close> accumulates in an \<open>int\<close>; an overflow is undefined in C++, and the parsers that reach
  one return \<open>None\<close>. The maps of commands are ordered association lists: the code orders them when it
  writes them and otherwise only looks them up.
\<close>

section \<open>State\<close>

datatype HostPlatform = Windows | MacOS | Posix

definition default_shell_for_platform :: "HostPlatform \<Rightarrow> bool \<Rightarrow> string" where
  "default_shell_for_platform p pwsh =
     (case p of
        Windows \<Rightarrow> if pwsh then ''pwsh.exe -NoLogo'' else ''powershell.exe -NoLogo''
      | MacOS \<Rightarrow> ''/bin/zsh -il''
      | Posix \<Rightarrow> ''/bin/bash -l'')"

record VFolderEntry =
  vf_name :: string
  vf_local_path :: string
  vf_remote_peer :: string
  vf_remote_path :: string
  vf_direction :: string
  vf_interval :: int

definition new_vfolder :: "string \<Rightarrow> VFolderEntry" where
  "new_vfolder name = \<lparr>vf_name = name, vf_local_path = [], vf_remote_peer = [], vf_remote_path = [],
     vf_direction = ''bidirectional'', vf_interval = 30\<rparr>"

record MeshConfig =
  cf_source_path :: string
  cf_node_name :: string
  cf_listen_addr :: string
  cf_listen_port :: u16
  cf_max_peers :: nat
  cf_gossip_interval :: int
  cf_backoff_max :: int
  cf_join_window_max :: int
  cf_startup_wait :: int
  cf_receive_dir :: string
  cf_retention_hours :: int
  cf_ping_interval :: int
  cf_pong_timeout :: int
  cf_auto_upgrade :: bool
  cf_upgrade_origin :: string
  cf_upgrade_cooldown :: int
  cf_require_pins :: bool
  cf_discovered_ttl :: int
  cf_transfer_max :: u64
  cf_allow_sensitive :: bool
  cf_dest_allow_home :: bool
  cf_copy_scope :: string
  cf_seeds :: "PeerEntry list"
  cf_discovered :: "PeerEntry list"
  cf_authorized_keys :: string
  cf_persistence :: string
  cf_scrollback_lines :: int
  cf_idle_timeout :: int
  cf_default_shell :: string
  cf_terminal :: string
  cf_allow_forwarded :: bool
  cf_render_hint :: string
  cf_session_commands :: "(string \<times> string) list"
  cf_harness_commands :: "(string \<times> string) list"
  cf_vfolders :: "VFolderEntry list"
  cf_webrtc :: bool
  cf_dht :: bool
  cf_upnp :: bool
  cf_mdns :: bool

definition new_config :: "HostPlatform \<Rightarrow> MeshConfig" where
  "new_config p =
     \<lparr>cf_source_path = [], cf_node_name = ''unnamed'', cf_listen_addr = ''0.0.0.0'', cf_listen_port = 19949,
      cf_max_peers = 50, cf_gossip_interval = 30, cf_backoff_max = 300, cf_join_window_max = 300, cf_startup_wait = 30,
      cf_receive_dir = [], cf_retention_hours = 24, cf_ping_interval = 10, cf_pong_timeout = 30, cf_auto_upgrade = True,
      cf_upgrade_origin = [], cf_upgrade_cooldown = 3600, cf_require_pins = True, cf_discovered_ttl = 900,
      cf_transfer_max = 8 * 1024 * 1024 * 1024, cf_allow_sensitive = False, cf_dest_allow_home = False,
      cf_copy_scope = ''anywhere'', cf_seeds = [], cf_discovered = [],
      cf_authorized_keys = ''~/.bridgesessions/authorized_keys'', cf_persistence = ''~/.bridgesessions/sessions.json'',
      cf_scrollback_lines = 2000, cf_idle_timeout = 48, cf_default_shell = default_shell_for_platform p False,
      cf_terminal = ''xterm-256color'', cf_allow_forwarded = False, cf_render_hint = ''auto'', cf_session_commands = [],
      cf_harness_commands = [], cf_vfolders = [], cf_webrtc = False, cf_dht = False, cf_upnp = False, cf_mdns = False\<rparr>"

section \<open>Values\<close>

definition blank :: "char \<Rightarrow> bool" where
  "blank c \<longleftrightarrow> c = CHR '' '' \<or> c = CHR 0x09"

definition trim :: "string \<Rightarrow> string" where
  "trim s = dropWhile blank (strip_back blank s)"

text \<open>\<open>None\<close>: an overflow; \<open>Some None\<close>: not a number.\<close>

fun int_digits :: "int \<Rightarrow> string \<Rightarrow> int option option" where
  "int_digits v [] = Some (Some v)"
| "int_digits v (c # s) =
     (if \<not> is_digit c then Some None
      else let w = v * 10 + int (digit_val c) in if w \<ge> 2 ^ 31 then None else int_digits w s)"

definition parse_int :: "string \<Rightarrow> int option option" where
  "parse_int s =
     (case trim s of
        [] \<Rightarrow> Some None
      | c # r \<Rightarrow>
          if c = CHR ''-''
          then (if r = [] then Some None else map_option (map_option uminus) (int_digits 0 r))
          else int_digits 0 (c # r))"

text \<open>\<open>std::stoull\<close>: \<open>None\<close> when it throws.\<close>

definition stoull :: "string \<Rightarrow> u64 option" where
  "stoull s =
     (let t = dropWhile is_space s; neg = (t \<noteq> [] \<and> hd t = CHR ''-'');
          u = (if t \<noteq> [] \<and> (hd t = CHR ''-'' \<or> hd t = CHR ''+'') then tl t else t);
          ds = takeWhile is_digit u; v = parse_digits 0 ds
      in if ds = [] \<or> v \<ge> 2 ^ 64 then None else Some (if neg then - word_of_nat v else word_of_nat v))"

definition is_true3 :: "string \<Rightarrow> bool" where
  "is_true3 v \<longleftrightarrow> v = ''true'' \<or> v = ''1'' \<or> v = ''yes''"

definition is_true4 :: "string \<Rightarrow> bool" where
  "is_true4 v \<longleftrightarrow> is_true3 v \<or> v = ''on''"

definition is_false4 :: "string \<Rightarrow> bool" where
  "is_false4 v \<longleftrightarrow> (let s = map lower_ascii v in s = ''false'' \<or> s = ''0'' \<or> s = ''no'' \<or> s = ''off'')"

definition parse_listen_addr :: "string \<Rightarrow> string \<times> u16 \<Rightarrow> (string \<times> u16) option" where
  "parse_listen_addr raw ap =
     (case find_last_index (\<lambda>c. c = CHR '':'') raw of
        None \<Rightarrow> Some (raw, snd ap)
      | Some i \<Rightarrow>
          let a = (if take i raw = [] then ''0.0.0.0'' else take i raw) in
          (case parse_int (drop (i + 1) raw) of
             None \<Rightarrow> None
           | Some None \<Rightarrow> Some (a, snd ap)
           | Some (Some p) \<Rightarrow> Some (a, if 0 < p \<and> p \<le> 65535 then word_of_int p else snd ap)))"

text \<open>The words \<open>operator>>\<close> takes from a string stream.\<close>

definition stream_words :: "string \<Rightarrow> string list" where
  "stream_words s = filter (\<lambda>w. w \<noteq> []) (split_on (CHR '' '') [] (map (\<lambda>c. if is_space c then CHR '' '' else c) s))"

section \<open>Peers, folders\<close>

definition seed_pin :: "string list \<Rightarrow> string" where
  "seed_pin extras = foldl (\<lambda>pk x. if is_prefix ''pubkey='' x then drop 7 x else pk) [] extras"

text \<open>A second line with the same name replaces address and pin of the first.\<close>

fun put_seed :: "PeerEntry \<Rightarrow> PeerEntry list \<Rightarrow> PeerEntry list" where
  "put_seed p [] = [p]"
| "put_seed p (q # qs) =
     (if pe_name q = pe_name p then q\<lparr>pe_addr := pe_addr p, pe_pubkey_hex := pe_pubkey_hex p\<rparr> # qs else q # put_seed p qs)"

definition seed_line :: "string \<Rightarrow> PeerEntry list \<Rightarrow> PeerEntry list" where
  "seed_line v seeds =
     (case stream_words v of
        name # addr # extras \<Rightarrow>
          put_seed \<lparr>pe_name = name, pe_addr = addr, pe_pubkey_hex = seed_pin extras, pe_last_seen = 0\<rparr> seeds
      | _ \<Rightarrow> seeds)"

definition discovered_field :: "PeerEntry option \<Rightarrow> string \<Rightarrow> PeerEntry option" where
  "discovered_field r x =
     (case r of None \<Rightarrow> None
      | Some p \<Rightarrow>
          if is_prefix ''pubkey='' x then Some (p\<lparr>pe_pubkey_hex := drop 7 x\<rparr>)
          else if is_prefix ''last_seen='' x then
            (case parse_int (drop 10 x) of
               None \<Rightarrow> None
             | Some None \<Rightarrow> Some p
             | Some (Some t) \<Rightarrow> Some (p\<lparr>pe_last_seen := word_of_int t\<rparr>))
          else Some p)"

definition discovered_line :: "string \<Rightarrow> PeerEntry list \<Rightarrow> PeerEntry list option" where
  "discovered_line v ds =
     (case stream_words v of
        name # addr # extras \<Rightarrow>
          map_option (\<lambda>p. ds @ [p])
            (foldl discovered_field (Some \<lparr>pe_name = name, pe_addr = addr, pe_pubkey_hex = [], pe_last_seen = 0\<rparr>) extras)
      | _ \<Rightarrow> Some ds)"

definition vfolder_field :: "string \<Rightarrow> string \<Rightarrow> VFolderEntry \<Rightarrow> VFolderEntry option" where
  "vfolder_field vkey v f =
     (if vkey = ''local'' then Some (f\<lparr>vf_local_path := trim v\<rparr>)
      else if vkey = ''peer'' then Some (f\<lparr>vf_remote_peer := trim v\<rparr>)
      else if vkey = ''remote'' then Some (f\<lparr>vf_remote_path := trim v\<rparr>)
      else if vkey = ''direction'' then Some (f\<lparr>vf_direction := trim v\<rparr>)
      else if vkey = ''interval'' then
        (case parse_int v of None \<Rightarrow> None | Some None \<Rightarrow> Some f | Some (Some i) \<Rightarrow> Some (f\<lparr>vf_interval := i\<rparr>))
      else Some f)"

fun put_vfolder :: "string \<Rightarrow> string \<Rightarrow> string \<Rightarrow> VFolderEntry list \<Rightarrow> VFolderEntry list option" where
  "put_vfolder name vkey v [] = map_option (\<lambda>f. [f]) (vfolder_field vkey v (new_vfolder name))"
| "put_vfolder name vkey v (f # fs) =
     (if vf_name f = name then map_option (\<lambda>g. g # fs) (vfolder_field vkey v f)
      else map_option (\<lambda>gs. f # gs) (put_vfolder name vkey v fs))"

definition vfolder_line :: "string \<Rightarrow> string \<Rightarrow> VFolderEntry list \<Rightarrow> VFolderEntry list option" where
  "vfolder_line key v fs =
     (let rest = drop 8 key in
      case find_last_index (\<lambda>c. c = CHR ''.'') rest of
        None \<Rightarrow> Some fs
      | Some i \<Rightarrow> put_vfolder (take i rest) (drop (i + 1) rest) v fs)"

section \<open>One line\<close>

definition with_int :: "string \<Rightarrow> (int \<Rightarrow> bool) \<Rightarrow> (int \<Rightarrow> MeshConfig) \<Rightarrow> MeshConfig \<Rightarrow> MeshConfig option" where
  "with_int v ok upd c =
     (case parse_int v of None \<Rightarrow> None | Some None \<Rightarrow> Some c | Some (Some i) \<Rightarrow> Some (if ok i then upd i else c))"

definition is_session_key :: "string \<Rightarrow> bool" where
  "is_session_key key \<longleftrightarrow> is_prefix ''session.'' key \<and> length key > 16 \<and> ends_with ''.command'' key"

text \<open>The keys in two groups, in the order of the code; \<open>config_sessions\<close> holds the second half of the chain.\<close>

definition config_sessions :: "string \<Rightarrow> string \<Rightarrow> MeshConfig \<Rightarrow> MeshConfig option" where
  "config_sessions key v c =
     (if key = ''sessions.scrollback_lines'' then with_int v (\<lambda>_. True) (\<lambda>i. c\<lparr>cf_scrollback_lines := i\<rparr>) c
      else if key = ''sessions.idle_timeout_hours'' then with_int v (\<lambda>_. True) (\<lambda>i. c\<lparr>cf_idle_timeout := i\<rparr>) c
      else if key = ''sessions.default_shell'' then Some (c\<lparr>cf_default_shell := v\<rparr>)
      else if key = ''sessions.terminal'' then Some (c\<lparr>cf_terminal := v\<rparr>)
      else if key = ''sessions.persistence_path'' then Some (c\<lparr>cf_persistence := v\<rparr>)
      else if key = ''sessions.authorized_keys_path'' then Some (c\<lparr>cf_authorized_keys := v\<rparr>)
      else if key = ''sessions.allow_forwarded_attaches'' then Some (c\<lparr>cf_allow_forwarded := is_true4 (trim v)\<rparr>)
      else if is_session_key key then
        (let name = take (length key - 16) (drop 8 key) in
         Some (if name \<noteq> [] then c\<lparr>cf_session_commands := map_put name v (cf_session_commands c)\<rparr> else c))
      else if is_prefix ''harness.'' key \<and> length key > 8 then
        (let name = drop 8 key in
         Some (if name \<noteq> [] then c\<lparr>cf_harness_commands := map_put name v (cf_harness_commands c)\<rparr> else c))
      else if key = ''seed'' then Some (c\<lparr>cf_seeds := seed_line v (cf_seeds c)\<rparr>)
      else if key = ''discovered'' then map_option (\<lambda>ds. c\<lparr>cf_discovered := ds\<rparr>) (discovered_line v (cf_discovered c))
      else Some c)"

definition config_key :: "string \<Rightarrow> string \<Rightarrow> MeshConfig \<Rightarrow> MeshConfig option" where
  "config_key key v c =
     (if key = ''node.name'' then Some (c\<lparr>cf_node_name := v\<rparr>)
      else if key = ''node.listen'' then
        map_option (\<lambda>(a, p). c\<lparr>cf_listen_addr := a, cf_listen_port := p\<rparr>) (parse_listen_addr v (cf_listen_addr c, cf_listen_port c))
      else if key = ''mesh.max_peers'' then with_int v (\<lambda>i. i \<ge> 0) (\<lambda>i. c\<lparr>cf_max_peers := nat i\<rparr>) c
      else if key = ''mesh.gossip_interval_secs'' then with_int v (\<lambda>_. True) (\<lambda>i. c\<lparr>cf_gossip_interval := i\<rparr>) c
      else if key = ''mesh.reconnect_backoff_max_secs'' then with_int v (\<lambda>_. True) (\<lambda>i. c\<lparr>cf_backoff_max := i\<rparr>) c
      else if key = ''mesh.join_window_max_secs'' then with_int v (\<lambda>i. i > 0) (\<lambda>i. c\<lparr>cf_join_window_max := i\<rparr>) c
      else if key = ''mesh.startup_wait_secs'' then with_int v (\<lambda>i. i \<ge> 0) (\<lambda>i. c\<lparr>cf_startup_wait := i\<rparr>) c
      else if key = ''receive_dir'' then Some (c\<lparr>cf_receive_dir := v\<rparr>)
      else if key = ''receive_retention_hours'' then with_int v (\<lambda>i. i \<ge> 0) (\<lambda>i. c\<lparr>cf_retention_hours := i\<rparr>) c
      else if key = ''mesh.ping_interval_secs'' then with_int v (\<lambda>i. i \<ge> 10) (\<lambda>i. c\<lparr>cf_ping_interval := i\<rparr>) c
      else if key = ''mesh.pong_timeout_secs'' then with_int v (\<lambda>_. True) (\<lambda>i. c\<lparr>cf_pong_timeout := i\<rparr>) c
      else if key = ''mesh.auto_upgrade'' then Some (c\<lparr>cf_auto_upgrade := \<not> is_false4 v\<rparr>)
      else if key = ''mesh.auto_upgrade_cooldown_secs'' then with_int v (\<lambda>i. i \<ge> 60) (\<lambda>i. c\<lparr>cf_upgrade_cooldown := i\<rparr>) c
      else if key = ''mesh.auto_upgrade_origin'' then Some (if trim v \<noteq> [] then c\<lparr>cf_upgrade_origin := trim v\<rparr> else c)
      else if key = ''mesh.require_seed_pins'' then Some (c\<lparr>cf_require_pins := \<not> is_false4 v\<rparr>)
      else if key = ''mesh.discovered_ttl_secs'' then with_int v (\<lambda>i. i \<ge> 0) (\<lambda>i. c\<lparr>cf_discovered_ttl := i\<rparr>) c
      else if key = ''mesh.mdns_enabled'' then Some (c\<lparr>cf_mdns := is_true3 (trim v)\<rparr>)
      else if key = ''transfer.max_bytes'' then Some (case stoull v of None \<Rightarrow> c | Some n \<Rightarrow> c\<lparr>cf_transfer_max := n\<rparr>)
      else if key = ''transfer.allow_sensitive_paths'' then Some (c\<lparr>cf_allow_sensitive := is_true4 (trim v)\<rparr>)
      else if key = ''file.dest_allow_home'' then Some (c\<lparr>cf_dest_allow_home := is_true4 (trim v)\<rparr>)
      else if key = ''file.copy_scope'' then
        Some (if trim v = ''anywhere'' \<or> trim v = ''receive_dir'' then c\<lparr>cf_copy_scope := trim v\<rparr> else c)
      else if key = ''transport.webrtc_enabled'' then Some (c\<lparr>cf_webrtc := is_true3 (trim v)\<rparr>)
      else if key = ''dht.enabled'' then Some (c\<lparr>cf_dht := is_true3 (trim v)\<rparr>)
      else if is_prefix ''vfolder.'' key then map_option (\<lambda>fs. c\<lparr>cf_vfolders := fs\<rparr>) (vfolder_line key v (cf_vfolders c))
      else if key = ''upnp.enabled'' then Some (c\<lparr>cf_upnp := is_true3 (trim v)\<rparr>)
      else config_sessions key v c)"

text \<open>Key and value of a line; blank lines, comments and lines without a value have none.\<close>

definition config_entry :: "string \<Rightarrow> (string \<times> string) option" where
  "config_entry line =
     (let l = (if line \<noteq> [] \<and> last line = CHR 0x0D then butlast line else line); sv = trim l in
      if sv = [] \<or> hd sv = CHR ''#'' then None
      else case find_index blank sv of
        None \<Rightarrow> None
      | Some i \<Rightarrow>
          let key = trim (take i sv) in if key = [] then None else Some (key, trim (drop (i + 1) sv)))"

definition config_line :: "MeshConfig option \<Rightarrow> string \<Rightarrow> MeshConfig option" where
  "config_line r line =
     (case r of None \<Rightarrow> None
      | Some c \<Rightarrow> (case config_entry line of None \<Rightarrow> Some c | Some (key, v) \<Rightarrow> config_key key v c))"

text \<open>\<open>file\<close> is the content of the file, \<open>None\<close> when it cannot be opened.\<close>

definition load_config :: "HostPlatform \<Rightarrow> string \<Rightarrow> string \<Rightarrow> string option \<Rightarrow> MeshConfig option" where
  "load_config p home path file =
     (let c = (new_config p)\<lparr>cf_source_path := config_expand_home home path\<rparr> in
      case file of None \<Rightarrow> Some c | Some s \<Rightarrow> foldl config_line (Some c) (getlines (CHR 0x0A) s))"

section \<open>Writing\<close>

definition bool_str :: "bool \<Rightarrow> string" where
  "bool_str b = (if b then ''true'' else ''false'')"

definition peer_line :: "string \<Rightarrow> PeerEntry \<Rightarrow> string" where
  "peer_line prefix p =
     prefix @ '' '' @ pe_name p @ '' '' @ pe_addr p @
     (if pe_pubkey_hex p \<noteq> [] then '' pubkey='' @ pe_pubkey_hex p else []) @
     (if pe_last_seen p > 0 then '' last_seen='' @ dec_digits (unat (pe_last_seen p)) else [])"

text \<open>The box-drawing line and the dash of the comments, in UTF-8.\<close>

definition box :: "nat \<Rightarrow> string" where
  "box n = concat (replicate n [CHR 0xE2, CHR 0x94, CHR 0x80])"

definition heading :: "string \<Rightarrow> nat \<Rightarrow> string" where
  "heading title n = ''# '' @ box 2 @ '' '' @ title @ '' '' @ box n"

definition vfolder_lines :: "VFolderEntry \<Rightarrow> string list" where
  "vfolder_lines f =
     (let prefix = ''vfolder.'' @ vf_name f @ ''.'' in
      [prefix @ ''local '' @ vf_local_path f, prefix @ ''peer '' @ vf_remote_peer f, prefix @ ''remote '' @ vf_remote_path f,
       prefix @ ''direction '' @ vf_direction f, prefix @ ''interval '' @ dec_int (vf_interval f)])"

definition mesh_lines :: "MeshConfig \<Rightarrow> string list" where
  "mesh_lines c =
     [''mesh.max_peers '' @ dec_digits (cf_max_peers c),
      ''mesh.gossip_interval_secs '' @ dec_int (cf_gossip_interval c),
      ''mesh.reconnect_backoff_max_secs '' @ dec_int (cf_backoff_max c),
      ''mesh.join_window_max_secs '' @ dec_int (cf_join_window_max c),
      ''mesh.ping_interval_secs '' @ dec_int (cf_ping_interval c),
      ''mesh.pong_timeout_secs '' @ dec_int (cf_pong_timeout c),
      ''mesh.auto_upgrade '' @ bool_str (cf_auto_upgrade c)] @
     (if cf_upgrade_origin c \<noteq> [] then [''mesh.auto_upgrade_origin '' @ cf_upgrade_origin c] else []) @
     [''mesh.auto_upgrade_cooldown_secs '' @ dec_int (cf_upgrade_cooldown c),
      ''mesh.require_seed_pins '' @ bool_str (cf_require_pins c),
      ''mesh.discovered_ttl_secs '' @ dec_int (cf_discovered_ttl c),
      ''mesh.mdns_enabled '' @ bool_str (cf_mdns c),
      ''transfer.max_bytes '' @ dec_digits (unat (cf_transfer_max c)),
      ''transfer.allow_sensitive_paths '' @ bool_str (cf_allow_sensitive c),
      ''file.dest_allow_home '' @ bool_str (cf_dest_allow_home c),
      ''file.copy_scope '' @ cf_copy_scope c,
      ''transport.webrtc_enabled '' @ bool_str (cf_webrtc c),
      ''dht.enabled '' @ bool_str (cf_dht c),
      ''upnp.enabled '' @ bool_str (cf_upnp c)]"

definition session_lines :: "MeshConfig \<Rightarrow> string list" where
  "session_lines c =
     [''sessions.scrollback_lines '' @ dec_int (cf_scrollback_lines c),
      ''sessions.idle_timeout_hours '' @ dec_int (cf_idle_timeout c),
      ''sessions.default_shell '' @ cf_default_shell c,
      ''sessions.terminal '' @ cf_terminal c,
      ''sessions.allow_forwarded_attaches '' @ bool_str (cf_allow_forwarded c),
      ''sessions.persistence_path '' @ cf_persistence c,
      ''sessions.authorized_keys_path '' @ cf_authorized_keys c]"

definition command_lines :: "MeshConfig \<Rightarrow> string list" where
  "command_lines c =
     (if cf_session_commands c = [] then []
      else [[], heading ''Named persistent session commands'' 19] @
        map (\<lambda>(n, cmd). ''session.'' @ n @ ''.command '' @ cmd) (cf_session_commands c)) @
     (if cf_harness_commands c = [] then []
      else [[], heading ''Harness launch commands (`bs connect` selector)'' 4] @
        map (\<lambda>(n, cmd). ''harness.'' @ n @ '' '' @ cmd) (cf_harness_commands c))"

definition config_lines :: "MeshConfig \<Rightarrow> string list" where
  "config_lines c =
     [''# bridgesessions mesh config'', ''# Generated '' @ [CHR 0xE2, CHR 0x80, CHR 0x94] @ '' edit with care'', [],
      heading ''Node identity'' 34, ''node.name '' @ cf_node_name c,
      ''node.listen '' @ cf_listen_addr c @ '':'' @ dec_digits (unat (cf_listen_port c)), [],
      heading ''Mesh settings'' 34] @
     mesh_lines c @ concat (map vfolder_lines (cf_vfolders c)) @
     [[], heading ''Bootstrap peers'' 32] @ map (peer_line ''seed'') (cf_seeds c) @
     [[], heading ''Session defaults'' 31] @ session_lines c @ command_lines c"

definition config_text :: "string list \<Rightarrow> string" where
  "config_text ls = concat (map (\<lambda>l. l @ [CHR 0x0A]) ls)"

text \<open>The result and the content the file has afterwards. The writes and the closing of the stream are not
  checked, so a text that arrives in part is reported as saved.\<close>

definition save_config :: "write_io \<Rightarrow> MeshConfig \<Rightarrow> string option \<Rightarrow> bool \<times> string option" where
  "save_config io c file =
     (if io = OpenFails then (False, file) else (True, Some (written io (config_text (config_lines c)))))"

section \<open>Paths under the home of the program\<close>

definition legacy_home :: string where "legacy_home = ''~/.bridgesessions''"

definition resolve_under_app_home :: "string \<Rightarrow> string \<Rightarrow> string \<Rightarrow> string" where
  "resolve_under_app_home home path root =
     (if path = [] then path
      else if path = legacy_home \<or> is_prefix (legacy_home @ ''/'') path \<or> is_prefix (legacy_home @ [CHR 0x5C]) path
      then let relative = dropWhile is_sep (drop (length legacy_home) path)
           in if relative = [] then root else path_join root relative
      else config_expand_home home path)"

definition apply_app_home_defaults :: "string \<Rightarrow> string \<Rightarrow> MeshConfig \<Rightarrow> MeshConfig" where
  "apply_app_home_defaults home root c =
     c\<lparr>cf_authorized_keys := resolve_under_app_home home (cf_authorized_keys c) root,
       cf_persistence := resolve_under_app_home home (cf_persistence c) root\<rparr>"

section \<open>ssh aliases\<close>

fun hostname_line :: "string list \<Rightarrow> string" where
  "hostname_line [] = []"
| "hostname_line (l # ls) =
     (case stream_words l of
        k # h # _ \<Rightarrow> if map to_lower k = ''hostname'' then h else hostname_line ls
      | _ \<Rightarrow> hostname_line ls)"

definition parse_ssh_g_hostname :: "string \<Rightarrow> string" where
  "parse_ssh_g_hostname expanded = hostname_line (getlines (CHR 0x0A) expanded)"

fun refresh_peer :: "string \<Rightarrow> string \<Rightarrow> PeerEntry list \<Rightarrow> PeerEntry list option" where
  "refresh_peer alias addr [] = None"
| "refresh_peer alias addr (p # ps) =
     (if config_peer_name_eq (pe_name p) alias then Some ((if addr \<noteq> [] then p\<lparr>pe_addr := addr\<rparr> else p) # ps)
      else map_option (\<lambda>qs. p # qs) (refresh_peer alias addr ps))"

definition identity_for_addr :: "string \<Rightarrow> PeerEntry list \<Rightarrow> string" where
  "identity_for_addr addr ps =
     (case filter (\<lambda>p. pe_addr p = addr \<and> pe_pubkey_hex p \<noteq> []) ps of [p] \<Rightarrow> pe_pubkey_hex p | _ \<Rightarrow> [])"

definition import_ssh_alias_peer :: "string \<Rightarrow> string \<Rightarrow> MeshConfig \<Rightarrow> bool \<times> MeshConfig" where
  "import_ssh_alias_peer alias expanded c =
     (let host = parse_ssh_g_hostname expanded; addr = (if host = [] then [] else host @ '':19949'') in
      case refresh_peer alias addr (cf_seeds c) of
        Some ss \<Rightarrow> (True, c\<lparr>cf_seeds := ss\<rparr>)
      | None \<Rightarrow>
          (case refresh_peer alias addr (cf_discovered c) of
             Some ds \<Rightarrow> (True, c\<lparr>cf_discovered := ds\<rparr>)
           | None \<Rightarrow>
               if addr = [] then (False, c)
               else let pk = identity_for_addr addr (cf_seeds c);
                        pk2 = (if pk = [] then identity_for_addr addr (cf_discovered c) else pk)
                    in (True, c\<lparr>cf_seeds := cf_seeds c @ [\<lparr>pe_name = alias, pe_addr = addr, pe_pubkey_hex = pk2, pe_last_seen = 0\<rparr>]\<rparr>)))"

text \<open>What \<open>ssh -G\<close> prints is an argument; it runs only for an alias of harmless characters.\<close>

definition expand_ssh_alias :: "(string \<Rightarrow> string) \<Rightarrow> string \<Rightarrow> string" where
  "expand_ssh_alias ssh_g alias =
     (if alias = [] \<or> \<not> list_all (\<lambda>c. is_alnum c \<or> c = CHR ''.'' \<or> c = CHR ''_'' \<or> c = CHR ''-'') alias then [] else ssh_g alias)"

section \<open>Quoting an argument\<close>

text \<open>One word of a POSIX shell.\<close>

definition shell_arg_quote :: "string \<Rightarrow> string" where
  "shell_arg_quote v = [CHR 0x27] @ concat (map (\<lambda>c. if c = CHR 0x27 then [CHR 0x27, CHR 0x5C, CHR 0x27, CHR 0x27] else [c]) v) @ [CHR 0x27]"

section \<open>Joining\<close>

text \<open>The node that joins writes its host and the peers of the reply as seeds (\<open>main.cpp\<close>). The entries of
  \<open>peer_pubkeys_json\<close> are an argument, as \<open>nlohmann::json\<close> gives them.\<close>

definition normal_port :: "string \<Rightarrow> string" where
  "normal_port addr =
     (case find_last_index (\<lambda>c. c = CHR '':'') addr of
        None \<Rightarrow> addr
      | Some i \<Rightarrow>
          let port = drop (i + 1) addr in
          if port \<noteq> [] \<and> list_all is_digit port \<and> port \<noteq> ''19949'' then take i addr @ '':19949'' else addr)"

definition host_seed :: "string \<Rightarrow> string \<Rightarrow> string \<Rightarrow> PeerEntry" where
  "host_seed join_addr host_addr host_key =
     \<lparr>pe_name = ''host'', pe_addr = (if is_prefix ''0.0.0.0'' host_addr \<or> host_addr = [] then join_addr else host_addr),
      pe_pubkey_hex = host_key, pe_last_seen = 0\<rparr>"

definition reply_seeds :: "string \<Rightarrow> (string \<times> string \<times> string) list \<Rightarrow> PeerEntry list" where
  "reply_seeds host_key entries =
     concat (map (\<lambda>(name, addr, pk).
       let a = normal_port addr in
       if name \<noteq> [] \<and> a \<noteq> [] \<and> pk \<noteq> [] \<and> pk \<noteq> host_key
       then [\<lparr>pe_name = name, pe_addr = a, pe_pubkey_hex = pk, pe_last_seen = 0\<rparr>] else []) entries)"

definition join_config ::
  "string \<Rightarrow> string \<Rightarrow> string \<Rightarrow> string \<Rightarrow> string \<Rightarrow> (string \<times> string \<times> string) list \<Rightarrow> MeshConfig \<Rightarrow> MeshConfig"
where
  "join_config own_name join_addr reply_name host_addr host_key entries c =
     c\<lparr>cf_node_name := (if own_name = [] then reply_name else own_name), cf_listen_addr := ''0.0.0.0'', cf_listen_port := 19949,
       cf_require_pins := True,
       cf_seeds := cf_seeds c @ [host_seed join_addr host_addr host_key] @ reply_seeds host_key entries\<rparr>"

section \<open>Commands on the peers of the file\<close>

definition peers_add :: "string \<Rightarrow> string \<Rightarrow> string \<Rightarrow> MeshConfig \<Rightarrow> MeshConfig" where
  "peers_add name addr pk c =
     c\<lparr>cf_seeds := cf_seeds c @ [\<lparr>pe_name = name, pe_addr = addr, pe_pubkey_hex = pk, pe_last_seen = 0\<rparr>]\<rparr>"

definition peers_remove :: "string \<Rightarrow> MeshConfig \<Rightarrow> MeshConfig" where
  "peers_remove name c = c\<lparr>cf_seeds := filter (\<lambda>p. pe_name p \<noteq> name) (cf_seeds c)\<rparr>"

end
