(* ===== verification/Config_Props.thy ===== *)
theory Config_Props
  imports Config Registry
begin

text \<open>
  Properties of the configuration file: what every loaded configuration satisfies, what survives
  writing and reading it back, and what a joining node keeps of the reply.
\<close>

section \<open>Every loaded configuration\<close>

definition config_sane :: "MeshConfig \<Rightarrow> bool" where
  "config_sane c \<longleftrightarrow>
     cf_join_window_max c > 0 \<and> cf_startup_wait c \<ge> 0 \<and> cf_retention_hours c \<ge> 0 \<and> cf_ping_interval c \<ge> 10 \<and>
     cf_upgrade_cooldown c \<ge> 60 \<and> cf_discovered_ttl c \<ge> 0 \<and> cf_listen_port c \<noteq> 0 \<and>
     (cf_copy_scope c = ''anywhere'' \<or> cf_copy_scope c = ''receive_dir'') \<and>
     distinct (map pe_name (cf_seeds c)) \<and> [] \<notin> pe_name ` set (cf_seeds c) \<and> [] \<notin> pe_addr ` set (cf_seeds c) \<and>
     distinct (map vf_name (cf_vfolders c)) \<and>
     ordered (cf_session_commands c) \<and> ordered (cf_harness_commands c)"

lemma put_seed_names: "pe_name ` set (put_seed p ps) = insert (pe_name p) (pe_name ` set ps)"
  by (induction p ps rule: put_seed.induct) auto

lemma put_seed_distinct: "distinct (map pe_name ps) \<Longrightarrow> distinct (map pe_name (put_seed p ps))"
  by (induction p ps rule: put_seed.induct) (auto simp: put_seed_names [unfolded image_def] put_seed_names)

lemma put_seed_addrs: "pe_addr ` set (put_seed p ps) \<subseteq> insert (pe_addr p) (pe_addr ` set ps)"
  by (induction p ps rule: put_seed.induct) auto

lemma stream_words_nonempty: "w \<in> set (stream_words s) \<Longrightarrow> w \<noteq> []"
  by (simp add: stream_words_def)

lemma seed_line_cases:
  obtains "seed_line v ps = ps"
  | p where "seed_line v ps = put_seed p ps" "pe_name p \<noteq> []" "pe_addr p \<noteq> []"
proof (cases "\<exists>a b rest. stream_words v = a # b # rest")
  case True
  then obtain a b rest where w: "stream_words v = a # b # rest" by blast
  let ?p = "\<lparr>pe_name = a, pe_addr = b, pe_pubkey_hex = seed_pin rest, pe_last_seen = 0\<rparr>"
  from w have e: "seed_line v ps = put_seed ?p ps" by (simp add: seed_line_def)
  have "a \<in> set (stream_words v)" "b \<in> set (stream_words v)" unfolding w by simp_all
  then have "pe_name ?p \<noteq> []" "pe_addr ?p \<noteq> []" using stream_words_nonempty by auto
  with e show ?thesis by (rule that(2))
next
  case False
  then have "seed_line v ps = ps" by (simp add: seed_line_def split: list.split)
  then show ?thesis by (rule that(1))
qed

lemma seed_line_sane:
  assumes "distinct (map pe_name ps)" "[] \<notin> pe_name ` set ps" "[] \<notin> pe_addr ` set ps"
  shows "distinct (map pe_name (seed_line v ps)) \<and> [] \<notin> pe_name ` set (seed_line v ps) \<and> [] \<notin> pe_addr ` set (seed_line v ps)"
proof (cases rule: seed_line_cases [of v ps])
  case 1
  show ?thesis unfolding 1 by (intro conjI assms)
next
  case (2 p)
  have n: "[] \<notin> pe_name ` set (put_seed p ps)" using assms(2) 2(2) unfolding put_seed_names by simp
  have a: "[] \<notin> pe_addr ` set (put_seed p ps)"
  proof
    assume "[] \<in> pe_addr ` set (put_seed p ps)"
    from subsetD [OF put_seed_addrs this] show False unfolding insert_iff using assms(3) 2(3) by (elim disjE) (simp only: not_True_eq_False simp_thms)+
  qed
  show ?thesis unfolding 2(1) by (intro conjI put_seed_distinct assms(1) n a)
qed

lemma vfolder_field_name: "vfolder_field k v f = Some g \<Longrightarrow> vf_name g = vf_name f"
  by (auto simp: vfolder_field_def split: if_splits option.splits)

lemma put_vfolder_names:
  "put_vfolder name k v fs = Some gs \<Longrightarrow> vf_name ` set gs = insert name (vf_name ` set fs)"
proof (induction name k v fs arbitrary: gs rule: put_vfolder.induct)
  case (1 name k v)
  then show ?case by (auto simp: new_vfolder_def dest!: vfolder_field_name)
next
  case (2 name k v f fs)
  show ?case
  proof (cases "vf_name f = name")
    case True
    with 2(2) show ?thesis by (auto dest!: vfolder_field_name)
  next
    case False
    with 2(2) obtain hs where hs: "put_vfolder name k v fs = Some hs" "gs = f # hs" by auto
    show ?thesis using 2(1) [OF False hs(1)] hs(2) by (simp add: insert_commute)
  qed
qed

lemma put_vfolder_distinct:
  "put_vfolder name k v fs = Some gs \<Longrightarrow> distinct (map vf_name fs) \<Longrightarrow> distinct (map vf_name gs)"
proof (induction name k v fs arbitrary: gs rule: put_vfolder.induct)
  case (2 name k v f fs)
  show ?case
  proof (cases "vf_name f = name")
    case True
    with 2 show ?thesis by (auto dest!: vfolder_field_name)
  next
    case False
    with 2(2) obtain hs where hs: "put_vfolder name k v fs = Some hs" "gs = f # hs" by auto
    from put_vfolder_names [OF hs(1)] 2(1) [OF False hs(1)] 2(3) False hs(2) show ?thesis
      by (auto simp: image_def)
  qed
qed auto

lemma vfolder_line_distinct:
  "vfolder_line k v fs = Some gs \<Longrightarrow> distinct (map vf_name fs) \<Longrightarrow> distinct (map vf_name gs)"
  by (auto simp: vfolder_line_def Let_def split: option.splits dest: put_vfolder_distinct)

lemma listen_port_sane: "parse_listen_addr v (a, p) = Some (b, q) \<Longrightarrow> p \<noteq> 0 \<Longrightarrow> q \<noteq> 0"
proof -
  have "(word_of_int i :: u16) \<noteq> 0" if "0 < i" "i \<le> 65535" for i
    using that by (simp add: word_of_int_eq_0_iff zdvd_not_zless)
  then show "parse_listen_addr v (a, p) = Some (b, q) \<Longrightarrow> p \<noteq> 0 \<Longrightarrow> q \<noteq> 0"
    by (auto simp: parse_listen_addr_def Let_def split: option.splits if_splits)
qed

lemma with_int_sane:
  "with_int v ok upd c = Some d \<Longrightarrow> config_sane c \<Longrightarrow> (\<And>i. ok i \<Longrightarrow> config_sane (upd i)) \<Longrightarrow> config_sane d"
  by (auto simp: with_int_def split: option.splits if_splits)

text \<open>What a step of the parser has to keep, field by field.\<close>

lemma sane_free [simp]:
  "config_sane (c\<lparr>cf_source_path := s\<rparr>) = config_sane c" "config_sane (c\<lparr>cf_node_name := s\<rparr>) = config_sane c"
  "config_sane (c\<lparr>cf_listen_addr := s\<rparr>) = config_sane c" "config_sane (c\<lparr>cf_max_peers := n\<rparr>) = config_sane c"
  "config_sane (c\<lparr>cf_gossip_interval := i\<rparr>) = config_sane c" "config_sane (c\<lparr>cf_backoff_max := i\<rparr>) = config_sane c"
  "config_sane (c\<lparr>cf_receive_dir := s\<rparr>) = config_sane c" "config_sane (c\<lparr>cf_pong_timeout := i\<rparr>) = config_sane c"
  "config_sane (c\<lparr>cf_auto_upgrade := b\<rparr>) = config_sane c" "config_sane (c\<lparr>cf_upgrade_origin := s\<rparr>) = config_sane c"
  "config_sane (c\<lparr>cf_require_pins := b\<rparr>) = config_sane c" "config_sane (c\<lparr>cf_transfer_max := m\<rparr>) = config_sane c"
  "config_sane (c\<lparr>cf_allow_sensitive := b\<rparr>) = config_sane c" "config_sane (c\<lparr>cf_dest_allow_home := b\<rparr>) = config_sane c"
  "config_sane (c\<lparr>cf_discovered := ds\<rparr>) = config_sane c" "config_sane (c\<lparr>cf_authorized_keys := s\<rparr>) = config_sane c"
  "config_sane (c\<lparr>cf_persistence := s\<rparr>) = config_sane c" "config_sane (c\<lparr>cf_scrollback_lines := i\<rparr>) = config_sane c"
  "config_sane (c\<lparr>cf_idle_timeout := i\<rparr>) = config_sane c" "config_sane (c\<lparr>cf_default_shell := s\<rparr>) = config_sane c"
  "config_sane (c\<lparr>cf_terminal := s\<rparr>) = config_sane c" "config_sane (c\<lparr>cf_allow_forwarded := b\<rparr>) = config_sane c"
  "config_sane (c\<lparr>cf_webrtc := b\<rparr>) = config_sane c" "config_sane (c\<lparr>cf_dht := b\<rparr>) = config_sane c"
  "config_sane (c\<lparr>cf_upnp := b\<rparr>) = config_sane c" "config_sane (c\<lparr>cf_mdns := b\<rparr>) = config_sane c"
  by (simp_all add: config_sane_def)

lemma sane_checked [intro]:
  assumes "config_sane c"
  shows "i > 0 \<Longrightarrow> config_sane (c\<lparr>cf_join_window_max := i\<rparr>)" "i \<ge> 0 \<Longrightarrow> config_sane (c\<lparr>cf_startup_wait := i\<rparr>)"
    "i \<ge> 0 \<Longrightarrow> config_sane (c\<lparr>cf_retention_hours := i\<rparr>)" "i \<ge> 10 \<Longrightarrow> config_sane (c\<lparr>cf_ping_interval := i\<rparr>)"
    "i \<ge> 60 \<Longrightarrow> config_sane (c\<lparr>cf_upgrade_cooldown := i\<rparr>)" "i \<ge> 0 \<Longrightarrow> config_sane (c\<lparr>cf_discovered_ttl := i\<rparr>)"
    "s = ''anywhere'' \<or> s = ''receive_dir'' \<Longrightarrow> config_sane (c\<lparr>cf_copy_scope := s\<rparr>)"
    "parse_listen_addr v (cf_listen_addr c, cf_listen_port c) = Some (a, p) \<Longrightarrow> config_sane (c\<lparr>cf_listen_addr := a, cf_listen_port := p\<rparr>)"
    "config_sane (c\<lparr>cf_seeds := seed_line v (cf_seeds c)\<rparr>)"
    "vfolder_line k v (cf_vfolders c) = Some fs \<Longrightarrow> config_sane (c\<lparr>cf_vfolders := fs\<rparr>)"
    "config_sane (c\<lparr>cf_session_commands := map_put n v (cf_session_commands c)\<rparr>)"
    "config_sane (c\<lparr>cf_harness_commands := map_put n v (cf_harness_commands c)\<rparr>)"
  using assms seed_line_sane [of "cf_seeds c" v] listen_port_sane [of v] vfolder_line_distinct [of k v "cf_vfolders c" fs]
  by (auto simp: config_sane_def ordered_put)

lemma config_sessions_sane: "config_sessions k v c = Some d \<Longrightarrow> config_sane c \<Longrightarrow> config_sane d"
  by (simp only: config_sessions_def Let_def split: if_split_asm)
    ((erule with_int_sane, assumption, simp) | (auto split: if_splits))+

lemma config_key_sane: "config_key k v c = Some d \<Longrightarrow> config_sane c \<Longrightarrow> config_sane d"
  by (simp only: config_key_def Let_def split: if_split_asm)
    ((erule with_int_sane, assumption, (simp | blast)) | (erule config_sessions_sane, assumption) | (auto split: if_splits option.splits))+

lemma config_lines_sane:
  "foldl config_line (Some c) ls = Some d \<Longrightarrow> config_sane c \<Longrightarrow> config_sane d"
proof (induction ls arbitrary: c)
  case (Cons l ls)
  have none: "foldl config_line None ls = None" by (induction ls) (simp_all add: config_line_def)
  with Cons.prems(1) obtain e where e: "config_line (Some c) l = Some e" by (cases "config_line (Some c) l") auto
  then have "config_sane e" using Cons.prems(2)
    by (auto simp: config_line_def split: option.splits dest: config_key_sane)
  with Cons e show ?case by simp
qed simp

text \<open>C35. Whatever the configuration file contains, as long as none of its numbers overflows an \<open>int\<close>
  (undefined in the code; \<open>load_config\<close> is \<open>None\<close> there), the configuration that is loaded from it keeps the limits the
  daemon relies on: positive join window, a ping interval of at least ten seconds, an upgrade cool-down of
  at least a minute, a listening port that is not 0, one of the two copy scopes, and no two seeds and no two
  folders with one name.\<close>

theorem loaded_config_is_sane:
  assumes "load_config p home path file = Some c"
  shows "config_sane c"
proof -
  have "config_sane ((new_config p)\<lparr>cf_source_path := s\<rparr>)" for s
    by (simp add: config_sane_def new_config_def ordered_def)
  with assms show ?thesis
    by (auto simp: load_config_def Let_def split: option.splits dest: config_lines_sane)
qed

section \<open>Lines\<close>

definition plain_key :: "string \<Rightarrow> bool" where
  "plain_key k \<longleftrightarrow> k \<noteq> [] \<and> hd k \<noteq> CHR ''#'' \<and> \<not> list_ex blank k"

definition plain_value :: "string \<Rightarrow> bool" where
  "plain_value v \<longleftrightarrow> v \<noteq> [] \<and> \<not> blank (hd v) \<and> \<not> blank (last v) \<and> CHR 0x0A \<notin> set v \<and> CHR 0x0D \<notin> set v"

lemma blank_simps [simp]: "blank CHR '' ''" "blank CHR 0x09"
  by (simp_all add: blank_def)

lemma trim_keeps: "s = [] \<or> \<not> blank (hd s) \<and> \<not> blank (last s) \<Longrightarrow> trim s = s"
  by (cases s) (auto simp: trim_def strip_back_keeps)

lemma plain_trim [simp]: "plain_value v \<Longrightarrow> trim v = v"
  by (simp add: plain_value_def trim_keeps)

lemma config_entry_none: "l = [] \<or> hd l = CHR ''#'' \<Longrightarrow> config_entry l = None"
proof -
  have front: "trim s = [] \<or> hd (trim s) = CHR ''#''" if "s = [] \<or> hd s = CHR ''#''" for s
  proof (cases s)
    case (Cons c t)
    with that have c: "c = CHR ''#''" by simp
    have "strip_back blank (c # t) = c # strip_back blank t"
      by (simp add: strip_back_def dropWhile_append3 c blank_def)
    then show ?thesis by (simp add: Cons trim_def c blank_def)
  qed (simp add: trim_def strip_back_def)
  assume "l = [] \<or> hd l = CHR ''#''"
  then have "(if l \<noteq> [] \<and> last l = CHR 0x0D then butlast l else l) = [] \<or>
      hd (if l \<noteq> [] \<and> last l = CHR 0x0D then butlast l else l) = CHR ''#''"
    by (cases l) (auto simp: butlast.simps split: if_splits)
  from front [OF this] show ?thesis by (simp only: config_entry_def Let_def if_True)
qed

lemma config_entry_plain:
  assumes "plain_key k" "plain_value v"
  shows "config_entry (k @ CHR '' '' # v) = Some (k, v)"
proof -
  let ?l = "k @ CHR '' '' # v"
  have k: "k \<noteq> []" "hd k \<noteq> CHR ''#''" "\<not> blank (hd k)" "\<not> blank (last k)" "\<forall>c\<in>set k. \<not> blank c"
    using assms(1) by (auto simp: plain_key_def list_ex_iff)
  have v: "v \<noteq> []" "\<not> blank (last v)" "CHR 0x0D \<notin> set v" using assms(2) by (auto simp: plain_value_def)
  then have cr: "last v \<noteq> CHR 0x0D" using last_in_set [OF v(1)] by fastforce
  have t: "trim ?l = ?l" using k v by (intro trim_keeps) simp
  have f: "find_index blank ?l = Some (length k)" by (rule find_index_append [OF k(5)]) simp
  have "trim k = k" using k by (intro trim_keeps) simp
  with assms(2) k v cr t f show ?thesis by (simp add: config_entry_def Let_def)
qed

text \<open>A key with an empty value is skipped: after trimming there is no blank in the line.\<close>

lemma config_entry_empty: "plain_key k \<Longrightarrow> CHR 0x0D \<notin> set k \<Longrightarrow> config_entry (k @ '' '') = None"
proof -
  assume pk: "plain_key k" "CHR 0x0D \<notin> set k"
  then have k: "k \<noteq> []" "\<not> blank (hd k)" "\<not> blank (last k)" "\<forall>c\<in>set k. \<not> blank c"
    by (auto simp: plain_key_def list_ex_iff)
  have "strip_back blank (k @ '' '') = strip_back blank k" by (simp add: strip_back_def)
  also have "\<dots> = k" using k by (intro strip_back_keeps) simp
  finally have "trim (k @ '' '') = k" using k by (cases k) (simp_all add: trim_def)
  moreover have "find_index blank k = None" using k by (simp add: find_index_None)
  ultimately show ?thesis by (simp add: config_entry_def Let_def)
qed

lemma config_line_simps:
  "l = [] \<or> hd l = CHR ''#'' \<Longrightarrow> config_line (Some c) l = Some c"
  "plain_key k \<Longrightarrow> plain_value v \<Longrightarrow> config_line (Some c) (k @ CHR '' '' # v) = config_key k v c"
  "plain_key k \<Longrightarrow> CHR 0x0D \<notin> set k \<Longrightarrow> config_line (Some c) (k @ '' '') = Some c"
  by (simp_all add: config_line_def config_entry_none config_entry_plain config_entry_empty)

lemma getlines_config_text:
  assumes "\<forall>l\<in>set ls. CHR 0x0A \<notin> set l"
  shows "getlines (CHR 0x0A) (config_text ls) = ls"
proof -
  have "split_on (CHR 0x0A) [] (config_text ls) = ls @ [[]]" using assms
    by (induction ls) (simp_all add: config_text_def split_on_append_sep split_on_free)
  then show ?thesis by (simp add: getlines_def)
qed

section \<open>Values\<close>

lemma digit_not_special: "is_digit c \<Longrightarrow> \<not> blank c \<and> \<not> is_space c \<and> c \<noteq> CHR 0x0A \<and> c \<noteq> CHR 0x0D \<and> c \<noteq> CHR ''-'' \<and> c \<noteq> CHR '':'' \<and> c \<noteq> CHR ''+''"
  by (auto simp: is_digit_def blank_def is_space_def code_of_def)

lemma int_digits_parse:
  "\<forall>c\<in>set s. is_digit c \<Longrightarrow> int (parse_digits n s) < 2 ^ 31 \<Longrightarrow> int_digits (int n) s = Some (Some (int (parse_digits n s)))"
proof (induction s arbitrary: n)
  case (Cons c s)
  let ?w = "n * 10 + digit_val c"
  have mono: "m \<le> parse_digits m t" for m t
  proof (induction t arbitrary: m)
    case (Cons d t)
    from Cons [of "m * 10 + digit_val d"] show ?case by (simp add: parse_digits_def)
  qed (simp add: parse_digits_def)
  have p: "parse_digits n (c # s) = parse_digits ?w s" by (simp add: parse_digits_def)
  have "int ?w < 2 ^ 31" using mono [of ?w s] Cons.prems(2) unfolding p by linarith
  then have "int_digits (int n) (c # s) = int_digits (int ?w) s" using Cons.prems(1) by (simp add: Let_def)
  also have "\<dots> = Some (Some (int (parse_digits ?w s)))"
    using Cons.prems unfolding p by (intro Cons.IH) simp_all
  finally show ?case unfolding p .
qed (simp add: parse_digits_def)

lemma dec_digits_plain: "\<forall>c\<in>set (dec_digits n). is_digit c"
  using dec_digits_digits by blast

lemma plain_dec_digits [simp]: "plain_value (dec_digits n)"
proof -
  have c: "\<not> blank c \<and> c \<noteq> CHR 0x0A \<and> c \<noteq> CHR 0x0D" if "c \<in> set (dec_digits n)" for c
    using digit_not_special [OF dec_digits_digits [OF that]] by blast
  from c [OF hd_in_set] c [OF last_in_set] c show ?thesis by (auto simp: plain_value_def)
qed

lemma plain_dec_int [simp]: "plain_value (dec_int i)"
  using plain_dec_digits [of "nat (- i)"] plain_dec_digits [of "nat i"]
  by (auto simp: dec_int_def plain_value_def blank_def)

definition int_ok :: "int \<Rightarrow> bool" where
  "int_ok i \<longleftrightarrow> - (2 ^ 31) < i \<and> i < 2 ^ 31"

lemma int_digits_dec: "int n < 2 ^ 31 \<Longrightarrow> int_digits 0 (dec_digits n) = Some (Some (int n))"
  using int_digits_parse [OF dec_digits_plain, of 0 n] by simp

lemma parse_int_digits: "int n < 2 ^ 31 \<Longrightarrow> parse_int (dec_digits n) = Some (Some (int n))"
proof -
  assume n: "int n < 2 ^ 31"
  obtain c r where d: "dec_digits n = c # r" by (cases "dec_digits n") auto
  then have "c \<noteq> CHR ''-''" using dec_digits_plain [of n] digit_not_special by auto
  with d int_digits_dec [OF n] plain_trim [OF plain_dec_digits, of n] show ?thesis by (simp add: parse_int_def)
qed

lemma parse_dec_int [simp]: "int_ok i \<Longrightarrow> parse_int (dec_int i) = Some (Some i)"
proof (cases "i < 0")
  case True
  assume "int_ok i"
  with True int_digits_dec [of "nat (- i)"] plain_trim [OF plain_dec_int, of i] show ?thesis
    by (simp add: parse_int_def dec_int_def int_ok_def)
next
  case False
  assume "int_ok i"
  with False parse_int_digits [of "nat i"] show ?thesis by (simp add: dec_int_def int_ok_def)
qed

lemma stoull_dec [simp]: "stoull (dec_digits (unat (w :: u64))) = Some w"
proof -
  obtain c r where d: "dec_digits (unat w) = c # r" by (cases "dec_digits (unat w)") auto
  have digits: "\<forall>x\<in>set (c # r). is_digit x" using dec_digits_plain [of "unat w"] d by simp
  then have "\<not> is_space c" "c \<noteq> CHR ''-''" "c \<noteq> CHR ''+''" using digit_not_special by auto
  moreover have tw: "takeWhile is_digit r = r" and "is_digit c" using digits by (simp_all add: takeWhile_eq_all_conv)
  moreover have "parse_digits 0 (c # r) = unat w" using parse_dec_digits [of "unat w"] d by simp
  moreover have "unat w < 2 ^ 64" using unsigned_less [of w] by simp
  ultimately show ?thesis by (simp add: stoull_def d Let_def tw)
qed

lemma bool_str_simps [simp]:
  "plain_value (bool_str b)" "is_true3 (bool_str b) = b" "is_true4 (bool_str b) = b" "is_false4 (bool_str b) = (\<not> b)"
  by (cases b; simp add: bool_str_def plain_value_def blank_def is_true3_def is_true4_def is_false4_def lower_ascii_def code_of_def)+

section \<open>Every line of a written configuration\<close>

definition token :: "string \<Rightarrow> bool" where
  "token w \<longleftrightarrow> w \<noteq> [] \<and> \<not> list_ex is_space w"

definition field_ok :: "string \<Rightarrow> bool" where
  "field_ok v \<longleftrightarrow> v = [] \<or> plain_value v"

definition name_ok :: "string \<Rightarrow> bool" where
  "name_ok n \<longleftrightarrow> \<not> list_ex blank n \<and> CHR 0x0A \<notin> set n \<and> CHR 0x0D \<notin> set n"

definition vfolder_ok :: "VFolderEntry \<Rightarrow> bool" where
  "vfolder_ok f \<longleftrightarrow> name_ok (vf_name f) \<and> field_ok (vf_local_path f) \<and> field_ok (vf_remote_peer f) \<and>
     field_ok (vf_remote_path f) \<and> plain_value (vf_direction f) \<and> int_ok (vf_interval f)"

definition seed_ok :: "PeerEntry \<Rightarrow> bool" where
  "seed_ok p \<longleftrightarrow> token (pe_name p) \<and> token (pe_addr p) \<and> (pe_pubkey_hex p = [] \<or> token (pe_pubkey_hex p))"

definition commands_ok :: "(string \<times> string) list \<Rightarrow> bool" where
  "commands_ok cs \<longleftrightarrow> ordered cs \<and> (\<forall>(n, cmd)\<in>set cs. n \<noteq> [] \<and> name_ok n \<and> plain_value cmd)"

text \<open>What a configuration has to satisfy to survive: no control characters where they would end a line or a word,
  and numbers that \<open>parse_int\<close> can read.\<close>

definition config_writable :: "MeshConfig \<Rightarrow> bool" where
  "config_writable c \<longleftrightarrow> config_sane (c\<lparr>cf_seeds := []\<rparr>) \<and>
     plain_value (cf_node_name c) \<and> plain_value (cf_listen_addr c) \<and> int (cf_max_peers c) < 2 ^ 31 \<and>
     list_all int_ok [cf_gossip_interval c, cf_backoff_max c, cf_join_window_max c, cf_ping_interval c, cf_pong_timeout c,
       cf_upgrade_cooldown c, cf_discovered_ttl c, cf_scrollback_lines c, cf_idle_timeout c] \<and>
     field_ok (cf_upgrade_origin c) \<and> cf_render_hint c = ''auto'' \<and>
     list_all plain_value [cf_default_shell c, cf_terminal c, cf_persistence c, cf_authorized_keys c] \<and>
     list_all vfolder_ok (cf_vfolders c) \<and> list_all seed_ok (cf_seeds c) \<and>
     commands_ok (cf_session_commands c) \<and> commands_ok (cf_harness_commands c)"

definition config_ok :: "MeshConfig \<Rightarrow> bool" where
  "config_ok c \<longleftrightarrow> config_writable c \<and> distinct (map pe_name (cf_seeds c))"

text \<open>Effect of the lines with fixed keys.\<close>

lemma config_key_mesh:
  "config_key ''node.name'' v c = Some (c\<lparr>cf_node_name := v\<rparr>)"
  "config_key ''node.listen'' v c =
     map_option (\<lambda>(a, p). c\<lparr>cf_listen_addr := a, cf_listen_port := p\<rparr>) (parse_listen_addr v (cf_listen_addr c, cf_listen_port c))"
  "config_key ''mesh.max_peers'' v c = with_int v (\<lambda>i. i \<ge> 0) (\<lambda>i. c\<lparr>cf_max_peers := nat i\<rparr>) c"
  "config_key ''mesh.gossip_interval_secs'' v c = with_int v (\<lambda>_. True) (\<lambda>i. c\<lparr>cf_gossip_interval := i\<rparr>) c"
  "config_key ''mesh.reconnect_backoff_max_secs'' v c = with_int v (\<lambda>_. True) (\<lambda>i. c\<lparr>cf_backoff_max := i\<rparr>) c"
  "config_key ''mesh.join_window_max_secs'' v c = with_int v (\<lambda>i. i > 0) (\<lambda>i. c\<lparr>cf_join_window_max := i\<rparr>) c"
  "config_key ''mesh.ping_interval_secs'' v c = with_int v (\<lambda>i. i \<ge> 10) (\<lambda>i. c\<lparr>cf_ping_interval := i\<rparr>) c"
  "config_key ''mesh.pong_timeout_secs'' v c = with_int v (\<lambda>_. True) (\<lambda>i. c\<lparr>cf_pong_timeout := i\<rparr>) c"
  "config_key ''mesh.auto_upgrade'' v c = Some (c\<lparr>cf_auto_upgrade := \<not> is_false4 v\<rparr>)"
  "config_key ''mesh.auto_upgrade_cooldown_secs'' v c = with_int v (\<lambda>i. i \<ge> 60) (\<lambda>i. c\<lparr>cf_upgrade_cooldown := i\<rparr>) c"
  "config_key ''mesh.auto_upgrade_origin'' v c = Some (if trim v \<noteq> [] then c\<lparr>cf_upgrade_origin := trim v\<rparr> else c)"
  "config_key ''mesh.require_seed_pins'' v c = Some (c\<lparr>cf_require_pins := \<not> is_false4 v\<rparr>)"
  "config_key ''mesh.discovered_ttl_secs'' v c = with_int v (\<lambda>i. i \<ge> 0) (\<lambda>i. c\<lparr>cf_discovered_ttl := i\<rparr>) c"
  "config_key ''mesh.mdns_enabled'' v c = Some (c\<lparr>cf_mdns := is_true3 (trim v)\<rparr>)"
  "config_key ''transfer.max_bytes'' v c = Some (case stoull v of None \<Rightarrow> c | Some n \<Rightarrow> c\<lparr>cf_transfer_max := n\<rparr>)"
  "config_key ''transfer.allow_sensitive_paths'' v c = Some (c\<lparr>cf_allow_sensitive := is_true4 (trim v)\<rparr>)"
  "config_key ''file.dest_allow_home'' v c = Some (c\<lparr>cf_dest_allow_home := is_true4 (trim v)\<rparr>)"
  "config_key ''file.copy_scope'' v c =
     Some (if trim v = ''anywhere'' \<or> trim v = ''receive_dir'' then c\<lparr>cf_copy_scope := trim v\<rparr> else c)"
  "config_key ''transport.webrtc_enabled'' v c = Some (c\<lparr>cf_webrtc := is_true3 (trim v)\<rparr>)"
  "config_key ''dht.enabled'' v c = Some (c\<lparr>cf_dht := is_true3 (trim v)\<rparr>)"
  "config_key ''upnp.enabled'' v c = Some (c\<lparr>cf_upnp := is_true3 (trim v)\<rparr>)"
  by (simp_all add: config_key_def is_prefix_def)

lemma config_key_sessions:
  "config_key ''sessions.scrollback_lines'' v c = with_int v (\<lambda>_. True) (\<lambda>i. c\<lparr>cf_scrollback_lines := i\<rparr>) c"
  "config_key ''sessions.idle_timeout_hours'' v c = with_int v (\<lambda>_. True) (\<lambda>i. c\<lparr>cf_idle_timeout := i\<rparr>) c"
  "config_key ''sessions.default_shell'' v c = Some (c\<lparr>cf_default_shell := v\<rparr>)"
  "config_key ''sessions.terminal'' v c = Some (c\<lparr>cf_terminal := v\<rparr>)"
  "config_key ''sessions.persistence_path'' v c = Some (c\<lparr>cf_persistence := v\<rparr>)"
  "config_key ''sessions.authorized_keys_path'' v c = Some (c\<lparr>cf_authorized_keys := v\<rparr>)"
  "config_key ''sessions.allow_forwarded_attaches'' v c = Some (c\<lparr>cf_allow_forwarded := is_true4 (trim v)\<rparr>)"
  "config_key ''seed'' v c = Some (c\<lparr>cf_seeds := seed_line v (cf_seeds c)\<rparr>)"
  by (simp_all add: config_key_def config_sessions_def is_prefix_def is_session_key_def)

lemma line_of_key:
  "k \<noteq> [] \<Longrightarrow> hd k \<noteq> CHR ''#'' \<Longrightarrow> \<not> list_ex (\<lambda>c. c = CHR '' '' \<or> c = CHR 0x09) k \<Longrightarrow> plain_value v
    \<Longrightarrow> config_line (Some c) ((k @ '' '') @ v) = config_key k v c"
  using config_line_simps(2) [of k v c] by (simp add: plain_key_def blank_def [abs_def])

lemmas fixed_lines =
  line_of_key [of "''node.name''", simplified]
  line_of_key [of "''node.listen''", simplified]
  line_of_key [of "''mesh.max_peers''", simplified]
  line_of_key [of "''mesh.gossip_interval_secs''", simplified]
  line_of_key [of "''mesh.reconnect_backoff_max_secs''", simplified]
  line_of_key [of "''mesh.join_window_max_secs''", simplified]
  line_of_key [of "''mesh.ping_interval_secs''", simplified]
  line_of_key [of "''mesh.pong_timeout_secs''", simplified]
  line_of_key [of "''mesh.auto_upgrade''", simplified]
  line_of_key [of "''mesh.auto_upgrade_origin''", simplified]
  line_of_key [of "''mesh.auto_upgrade_cooldown_secs''", simplified]
  line_of_key [of "''mesh.require_seed_pins''", simplified]
  line_of_key [of "''mesh.discovered_ttl_secs''", simplified]
  line_of_key [of "''mesh.mdns_enabled''", simplified]
  line_of_key [of "''transfer.max_bytes''", simplified]
  line_of_key [of "''transfer.allow_sensitive_paths''", simplified]
  line_of_key [of "''file.dest_allow_home''", simplified]
  line_of_key [of "''file.copy_scope''", simplified]
  line_of_key [of "''transport.webrtc_enabled''", simplified]
  line_of_key [of "''dht.enabled''", simplified]
  line_of_key [of "''upnp.enabled''", simplified]
  line_of_key [of "''sessions.scrollback_lines''", simplified]
  line_of_key [of "''sessions.idle_timeout_hours''", simplified]
  line_of_key [of "''sessions.default_shell''", simplified]
  line_of_key [of "''sessions.terminal''", simplified]
  line_of_key [of "''sessions.allow_forwarded_attaches''", simplified]
  line_of_key [of "''sessions.persistence_path''", simplified]
  line_of_key [of "''sessions.authorized_keys_path''", simplified]
  line_of_key [of "''seed''", simplified]

lemma with_int_dec [simp]: "int_ok i \<Longrightarrow> with_int (dec_int i) ok upd c = Some (if ok i then upd i else c)"
  by (simp add: with_int_def)

lemma with_int_digits [simp]: "int n < 2 ^ 31 \<Longrightarrow> with_int (dec_digits n) ok upd c = Some (if ok (int n) then upd (int n) else c)"
  by (simp add: with_int_def parse_int_digits)

lemma find_last_index_append:
  "\<forall>x\<in>set k. \<not> P x \<Longrightarrow> P y \<Longrightarrow> find_last_index P (n @ y # k) = Some (length n)"
proof -
  assume a: "\<forall>x\<in>set k. \<not> P x" "P y"
  then have "find_index P (rev k @ y # rev n) = Some (length k)" using find_index_append [of "rev k" P y "rev n"] by simp
  then show ?thesis by (simp add: find_last_index_def)
qed

lemma plain_append:
  "plain_value a \<Longrightarrow> plain_value b \<Longrightarrow> CHR 0x0A \<notin> set m \<Longrightarrow> CHR 0x0D \<notin> set m \<Longrightarrow> plain_value (a @ m @ b)"
  by (auto simp: plain_value_def)

lemma listen_round_trip:
  assumes "plain_value a" "p \<noteq> 0"
  shows "plain_value (a @ CHR '':'' # dec_digits (unat (p :: u16)))"
    "parse_listen_addr (a @ CHR '':'' # dec_digits (unat p)) ap = Some (a, p)"
proof -
  show "plain_value (a @ CHR '':'' # dec_digits (unat p))" using plain_append [OF assms(1) plain_dec_digits, of "'':''"] by simp
  have "find_last_index (\<lambda>c. c = CHR '':'') (a @ CHR '':'' # dec_digits (unat p)) = Some (length a)"
    using dec_digits_plain [of "unat p"] digit_not_special by (intro find_last_index_append) auto
  moreover have "a \<noteq> []" using assms(1) by (simp add: plain_value_def)
  moreover have lt: "unat p < 65536" by (rule order_less_le_trans [OF unsigned_less]) simp
  moreover have "int (unat p) < 2 ^ 31" using lt by (rule order_less_le_trans [OF of_nat_less_iff [THEN iffD2]]) simp
  moreover have "unat p > 0" using assms(2) by (simp add: unat_gt_0)
  moreover have u: "uint p = int (unat p)" by simp
  have "0 < uint p" "uint p \<le> 65535" unfolding u using \<open>unat p > 0\<close> lt by linarith+
  ultimately show "parse_listen_addr (a @ CHR '':'' # dec_digits (unat p)) ap = Some (a, p)"
    by (simp add: parse_listen_addr_def parse_int_digits)
qed

lemma load_mesh_lines:
  assumes "config_writable d"
  shows "foldl config_line (Some c) (mesh_lines d) =
    Some (c\<lparr>cf_max_peers := cf_max_peers d, cf_gossip_interval := cf_gossip_interval d, cf_backoff_max := cf_backoff_max d,
      cf_join_window_max := cf_join_window_max d, cf_ping_interval := cf_ping_interval d, cf_pong_timeout := cf_pong_timeout d,
      cf_auto_upgrade := cf_auto_upgrade d,
      cf_upgrade_origin := (if cf_upgrade_origin d = [] then cf_upgrade_origin c else cf_upgrade_origin d),
      cf_upgrade_cooldown := cf_upgrade_cooldown d, cf_require_pins := cf_require_pins d, cf_discovered_ttl := cf_discovered_ttl d,
      cf_mdns := cf_mdns d, cf_transfer_max := cf_transfer_max d, cf_allow_sensitive := cf_allow_sensitive d,
      cf_dest_allow_home := cf_dest_allow_home d, cf_copy_scope := cf_copy_scope d, cf_webrtc := cf_webrtc d, cf_dht := cf_dht d,
      cf_upnp := cf_upnp d\<rparr>)"
proof -
  have scope: "plain_value (cf_copy_scope d)" "cf_copy_scope d = ''anywhere'' \<or> cf_copy_scope d = ''receive_dir''"
    using assms by (auto simp: config_writable_def config_sane_def plain_value_def blank_def)
  have bounds: "cf_join_window_max d > 0" "cf_ping_interval d \<ge> 10" "cf_upgrade_cooldown d \<ge> 60" "cf_discovered_ttl d \<ge> 0"
    using assms by (auto simp: config_writable_def config_sane_def)
  have ints: "int_ok (cf_gossip_interval d)" "int_ok (cf_backoff_max d)" "int_ok (cf_join_window_max d)" "int_ok (cf_ping_interval d)"
    "int_ok (cf_pong_timeout d)" "int_ok (cf_upgrade_cooldown d)" "int_ok (cf_discovered_ttl d)" "int (cf_max_peers d) < 2 ^ 31"
    using assms by (simp_all add: config_writable_def)
  have origin: "cf_upgrade_origin d \<noteq> [] \<Longrightarrow> plain_value (cf_upgrade_origin d)"
    using assms by (simp add: config_writable_def field_ok_def)
  show ?thesis
    using scope bounds ints
    by (cases "cf_upgrade_origin d = []")
      (simp_all add: mesh_lines_def fixed_lines config_key_mesh origin)
qed

section \<open>Folders\<close>

lemma vfolder_key:
  assumes "CHR ''.'' \<notin> set k"
  shows "config_key (''vfolder.'' @ n @ ''.'' @ k) v c = map_option (\<lambda>fs. c\<lparr>cf_vfolders := fs\<rparr>) (put_vfolder n k v (cf_vfolders c))"
proof -
  have "find_last_index (\<lambda>x. x = CHR ''.'') (n @ CHR ''.'' # k) = Some (length n)"
    using assms by (intro find_last_index_append) auto
  then show ?thesis by (simp add: config_key_def vfolder_line_def is_prefix_def)
qed

lemma vfolder_one_line:
  assumes "name_ok n" "field_ok v" "k \<in> {''local'', ''peer'', ''remote'', ''direction'', ''interval''}"
  shows "config_line (Some c) (''vfolder.'' @ n @ ''.'' @ k @ CHR '' '' # v) =
    (if v = [] then Some c else map_option (\<lambda>fs. c\<lparr>cf_vfolders := fs\<rparr>) (put_vfolder n k v (cf_vfolders c)))"
proof -
  let ?k = "''vfolder.'' @ n @ ''.'' @ k"
  have k: "plain_key ?k" "CHR 0x0D \<notin> set ?k" "CHR ''.'' \<notin> set k"
    using assms(1,3) by (auto simp: plain_key_def name_ok_def blank_def)
  show ?thesis
  proof (cases "v = []")
    case True
    with config_line_simps(3) [OF k(1,2), of c] show ?thesis by simp
  next
    case False
    with assms(2) have "plain_value v" by (simp add: field_ok_def)
    from config_line_simps(2) [OF k(1) this, of c] vfolder_key [OF k(3), of n v c] False show ?thesis by simp
  qed
qed

lemma put_vfolder_new:
  "name \<notin> vf_name ` set gs \<Longrightarrow> put_vfolder name k v gs = map_option (\<lambda>g. gs @ [g]) (vfolder_field k v (new_vfolder name))"
  by (induction gs) (auto simp: option.map_comp comp_def)

lemma put_vfolder_last:
  "vf_name f \<notin> vf_name ` set gs \<Longrightarrow> put_vfolder (vf_name f) k v (gs @ [f]) = map_option (\<lambda>g. gs @ [g]) (vfolder_field k v f)"
  by (induction gs) (auto simp: option.map_comp comp_def)

lemma load_vfolder:
  assumes "vfolder_ok f" "vf_name f \<notin> vf_name ` set (cf_vfolders c)"
  shows "foldl config_line (Some c) (vfolder_lines f) = Some (c\<lparr>cf_vfolders := cf_vfolders c @ [f]\<rparr>)"
proof -
  let ?n = "vf_name f" and ?gs = "cf_vfolders c"
  have ok: "name_ok ?n" "field_ok (vf_local_path f)" "field_ok (vf_remote_peer f)" "field_ok (vf_remote_path f)"
    "field_ok (vf_direction f)" "field_ok (dec_int (vf_interval f))" "vf_direction f \<noteq> []" "int_ok (vf_interval f)"
    using assms(1) by (auto simp: vfolder_ok_def field_ok_def plain_value_def [of "vf_direction f"])
  have field: "v \<noteq> [] \<Longrightarrow> field_ok v \<Longrightarrow> trim v = v" for v by (simp add: field_ok_def)
  have int: "parse_int (dec_int (vf_interval f)) = Some (Some (vf_interval f))" using ok(8) by (rule parse_dec_int)
  have nonempty: "dec_int (vf_interval f) \<noteq> []" by (simp add: dec_int_def)
  have last: "vf_name g = ?n \<Longrightarrow> put_vfolder ?n k v (?gs @ [g]) = map_option (\<lambda>h. ?gs @ [h]) (vfolder_field k v g)" for g k v
    using put_vfolder_last [of g ?gs k v] assms(2) by simp
  have fields: "vfolder_field ''local'' v g = Some (g\<lparr>vf_local_path := trim v\<rparr>)"
    "vfolder_field ''peer'' v g = Some (g\<lparr>vf_remote_peer := trim v\<rparr>)"
    "vfolder_field ''remote'' v g = Some (g\<lparr>vf_remote_path := trim v\<rparr>)"
    "vfolder_field ''direction'' v g = Some (g\<lparr>vf_direction := trim v\<rparr>)"
    "vfolder_field ''interval'' (dec_int (vf_interval f)) g = Some (g\<lparr>vf_interval := vf_interval f\<rparr>)" for v g
    by (simp_all add: vfolder_field_def int)
  note field_lines = vfolder_one_line [of ?n _ "''local''", simplified] vfolder_one_line [of ?n _ "''peer''", simplified]
    vfolder_one_line [of ?n _ "''remote''", simplified] vfolder_one_line [of ?n _ "''direction''", simplified]
    vfolder_one_line [of ?n _ "''interval''", simplified]
  have "foldl config_line (Some c) (vfolder_lines f) = Some (c\<lparr>cf_vfolders := ?gs @ [\<lparr>vf_name = ?n, vf_local_path = vf_local_path f,
      vf_remote_peer = vf_remote_peer f, vf_remote_path = vf_remote_path f, vf_direction = vf_direction f, vf_interval = vf_interval f\<rparr>]\<rparr>)"
    by (cases "vf_local_path f = []"; cases "vf_remote_peer f = []"; cases "vf_remote_path f = []")
      (simp_all add: vfolder_lines_def field_lines put_vfolder_new [OF assms(2)] last fields field ok nonempty new_vfolder_def field_ok_def [of "[]"])
  then show ?thesis by simp
qed

lemma load_vfolders:
  "list_all vfolder_ok fs \<Longrightarrow> distinct (map vf_name (cf_vfolders c @ fs)) \<Longrightarrow>
   foldl config_line (Some c) (concat (map vfolder_lines fs)) = Some (c\<lparr>cf_vfolders := cf_vfolders c @ fs\<rparr>)"
proof (induction fs arbitrary: c)
  case (Cons f fs)
  have "vfolder_ok f" using Cons.prems(1) by simp
  moreover have "vf_name f \<notin> vf_name ` set (cf_vfolders c)" using Cons.prems(2) by auto
  ultimately have "foldl config_line (Some c) (vfolder_lines f) = Some (c\<lparr>cf_vfolders := cf_vfolders c @ [f]\<rparr>)"
    by (rule load_vfolder)
  moreover have "foldl config_line (Some (c\<lparr>cf_vfolders := cf_vfolders c @ [f]\<rparr>)) (concat (map vfolder_lines fs)) =
      Some (c\<lparr>cf_vfolders := cf_vfolders c @ [f]\<rparr>\<lparr>cf_vfolders := cf_vfolders (c\<lparr>cf_vfolders := cf_vfolders c @ [f]\<rparr>) @ fs\<rparr>)"
    using Cons.prems by (intro Cons.IH) simp_all
  ultimately show ?case by simp
qed simp

section \<open>Seeds\<close>

lemma space_simps [simp]: "is_space CHR '' ''"
  by (simp add: is_space_def code_of_def)

lemma words_of_token: "\<not> list_ex is_space w \<Longrightarrow> map (\<lambda>c. if is_space c then CHR '' '' else c) w = w \<and> CHR '' '' \<notin> set w"
  by (induction w) auto

lemma stream_words_token:
  assumes "token w"
  shows "stream_words (w @ CHR '' '' # s) = w # stream_words s" "stream_words w = [w]"
proof -
  have w: "map (\<lambda>c. if is_space c then CHR '' '' else c) w = w" "CHR '' '' \<notin> set w" "w \<noteq> []"
    using words_of_token [of w] assms by (simp_all add: token_def)
  show "stream_words (w @ CHR '' '' # s) = w # stream_words s"
    unfolding stream_words_def map_append w(1) using w(2,3) by (simp add: split_on_append_sep split_on_free)
  show "stream_words w = [w]" unfolding stream_words_def w(1) using w(2,3) by (simp add: split_on_free)
qed

lemma token_append: "token a \<Longrightarrow> \<not> list_ex is_space b \<Longrightarrow> token (b @ a)"
  by (auto simp: token_def)

lemma token_digits: "token (dec_digits n)"
  using dec_digits_plain [of n] digit_not_special by (fastforce simp: token_def list_ex_iff)

lemma blank_space: "blank c \<Longrightarrow> is_space c"
  by (auto simp: blank_def is_space_def code_of_def)

lemma token_plain: "token w \<Longrightarrow> plain_value w"
proof -
  assume w: "token w"
  then have ne: "w \<noteq> []" and sp: "c \<in> set w \<Longrightarrow> \<not> is_space c" for c by (auto simp: token_def list_ex_iff)
  have "\<not> blank (hd w)" "\<not> blank (last w)" using sp [OF hd_in_set [OF ne]] sp [OF last_in_set [OF ne]] blank_space by blast+
  moreover have "CHR 0x0A \<notin> set w" "CHR 0x0D \<notin> set w"
    using sp [of "CHR 0x0A"] sp [of "CHR 0x0D"] by (auto simp: is_space_def code_of_def)
  ultimately show ?thesis using ne by (simp add: plain_value_def)
qed

lemma spaced_words:
  "list_all token (w # ws) \<Longrightarrow>
   stream_words (w @ concat (map (\<lambda>x. CHR '' '' # x) ws)) = w # ws \<and> plain_value (w @ concat (map (\<lambda>x. CHR '' '' # x) ws))"
proof (induction ws arbitrary: w)
  case Nil
  then show ?case by (simp add: stream_words_token token_plain)
next
  case (Cons x ws)
  let ?r = "x @ concat (map (\<lambda>x. CHR '' '' # x) ws)"
  have r: "stream_words ?r = x # ws" "plain_value ?r" using Cons by simp_all
  have w: "token w" using Cons.prems by simp
  with plain_append [OF token_plain r(2), of w "'' ''"] r stream_words_token(1) [OF w, of ?r] show ?case by simp
qed

definition extra_words :: "PeerEntry \<Rightarrow> string list" where
  "extra_words p =
     (if pe_pubkey_hex p \<noteq> [] then [''pubkey='' @ pe_pubkey_hex p] else []) @
     (if pe_last_seen p > 0 then [''last_seen='' @ dec_digits (unat (pe_last_seen p))] else [])"

lemma load_seed:
  assumes "seed_ok p"
  shows "config_line (Some c) (peer_line ''seed'' p) = Some (c\<lparr>cf_seeds := put_seed (p\<lparr>pe_last_seen := 0\<rparr>) (cf_seeds c)\<rparr>)"
proof -
  let ?v = "pe_name p @ concat (map (\<lambda>x. CHR '' '' # x) (pe_addr p # extra_words p))"
  have l: "peer_line ''seed'' p = ''seed'' @ CHR '' '' # ?v" by (simp add: peer_line_def extra_words_def)
  have "list_all token (pe_name p # pe_addr p # extra_words p)"
    using assms token_append [OF token_digits, of "''last_seen=''"] token_append [of "pe_pubkey_hex p" "''pubkey=''"]
    by (auto simp: seed_ok_def extra_words_def is_space_def code_of_def)
  from spaced_words [OF this] have v: "stream_words ?v = pe_name p # pe_addr p # extra_words p" "plain_value ?v" by blast+
  have pin: "seed_pin (extra_words p) = pe_pubkey_hex p" by (simp add: seed_pin_def extra_words_def is_prefix_def)
  have "seed_line ?v (cf_seeds c) = put_seed (p\<lparr>pe_last_seen := 0\<rparr>) (cf_seeds c)"
    unfolding seed_line_def v(1) list.case pin by (cases p) simp
  with config_line_simps(2) [of "''seed''" ?v c] v(2) config_key_sessions(8) [of ?v c] show ?thesis
    unfolding l by (simp add: plain_key_def blank_def)
qed

definition reset_seen :: "PeerEntry \<Rightarrow> PeerEntry" where
  "reset_seen p = p\<lparr>pe_last_seen := 0\<rparr>"

definition put_seeds :: "PeerEntry list \<Rightarrow> PeerEntry list \<Rightarrow> PeerEntry list" where
  "put_seeds qs ps = foldl (\<lambda>qs p. put_seed (reset_seen p) qs) qs ps"

lemma load_seeds:
  "list_all seed_ok ps \<Longrightarrow> foldl config_line (Some c) (map (peer_line ''seed'') ps) = Some (c\<lparr>cf_seeds := put_seeds (cf_seeds c) ps\<rparr>)"
  by (induction ps arbitrary: c) (simp_all add: load_seed put_seeds_def reset_seen_def)

lemma put_seed_new: "pe_name p \<notin> pe_name ` set qs \<Longrightarrow> put_seed p qs = qs @ [p]"
  by (induction qs) auto

lemma put_seeds_distinct: "distinct (map pe_name (qs @ ps)) \<Longrightarrow> put_seeds qs ps = qs @ map reset_seen ps"
proof (induction ps arbitrary: qs)
  case (Cons p ps)
  have "put_seed (reset_seen p) qs = qs @ [reset_seen p]" using Cons.prems by (intro put_seed_new) (auto simp: reset_seen_def)
  moreover have "put_seeds (qs @ [reset_seen p]) ps = (qs @ [reset_seen p]) @ map reset_seen ps"
    using Cons.prems by (intro Cons.IH) (auto simp: reset_seen_def)
  ultimately show ?case by (simp add: put_seeds_def)
qed (simp add: put_seeds_def)

section \<open>Commands\<close>

lemma map_put_last: "ordered (gs @ [(n, v)]) \<Longrightarrow> map_put n v gs = gs @ [(n, v)]"
  by (induction gs) (auto simp: ordered_def)

lemma load_session_command:
  assumes "n \<noteq> []" "name_ok n" "plain_value v"
  shows "config_line (Some c) (''session.'' @ n @ ''.command '' @ v) = Some (c\<lparr>cf_session_commands := map_put n v (cf_session_commands c)\<rparr>)"
proof -
  let ?k = "''session.'' @ n @ ''.command''"
  have "plain_key ?k" using assms(2) by (auto simp: plain_key_def name_ok_def blank_def)
  from config_line_simps(2) [OF this assms(3), of c]
  have "config_line (Some c) (''session.'' @ n @ ''.command '' @ v) = config_key ?k v c" by simp
  also have "\<dots> = config_sessions ?k v c" by (simp add: config_key_def is_prefix_def)
  also have "is_session_key ?k"
    unfolding is_session_key_def using assms(1) ends_with_iff [of "''.command''" ?k] by (cases n) (auto simp: is_prefix_def)
  then have "config_sessions ?k v c = Some (c\<lparr>cf_session_commands := map_put n v (cf_session_commands c)\<rparr>)"
    using assms(1) by (simp add: config_sessions_def)
  finally show ?thesis .
qed

lemma load_harness_command:
  assumes "n \<noteq> []" "name_ok n" "plain_value v"
  shows "config_line (Some c) (''harness.'' @ n @ '' '' @ v) = Some (c\<lparr>cf_harness_commands := map_put n v (cf_harness_commands c)\<rparr>)"
proof -
  let ?k = "''harness.'' @ n"
  have "plain_key ?k" using assms(2) by (auto simp: plain_key_def name_ok_def blank_def)
  from config_line_simps(2) [OF this assms(3), of c]
  have "config_line (Some c) (''harness.'' @ n @ '' '' @ v) = config_key ?k v c" by simp
  also have "\<dots> = Some (c\<lparr>cf_harness_commands := map_put n v (cf_harness_commands c)\<rparr>)"
    using assms(1) by (simp add: config_key_def config_sessions_def is_prefix_def is_session_key_def)
  finally show ?thesis .
qed

lemma load_commands:
  assumes one: "\<And>n v c. n \<noteq> [] \<Longrightarrow> name_ok n \<Longrightarrow> plain_value v \<Longrightarrow> config_line (Some c) (line n v) = Some (upd (map_put n v (get c)) c)"
    and get: "\<And>m c. get (upd m c) = m" "\<And>m m' c. upd m (upd m' c) = upd m c" "\<And>c. upd (get c) c = c"
  shows "\<forall>(n, v)\<in>set cs. n \<noteq> [] \<and> name_ok n \<and> plain_value v \<Longrightarrow> ordered (get c @ cs) \<Longrightarrow>
    foldl config_line (Some c) (map (\<lambda>(n, v). line n v) cs) = Some (upd (get c @ cs) c)"
proof (induction cs arbitrary: c)
  case (Cons e cs)
  obtain n v where e: "e = (n, v)" by force
  have "ordered (get c @ [(n, v)])" using Cons.prems(2) by (auto simp: ordered_def e sorted_wrt_append)
  with one [of n v c] Cons.prems(1) have "config_line (Some c) (line n v) = Some (upd (get c @ [(n, v)]) c)"
    by (simp add: e map_put_last)
  moreover have "foldl config_line (Some (upd (get c @ [(n, v)]) c)) (map (\<lambda>(n, v). line n v) cs) = Some (upd (get c @ e # cs) c)"
    using Cons.IH [of "upd (get c @ [(n, v)]) c"] Cons.prems by (simp add: get e)
  ultimately show ?case by (simp add: e)
qed (simp add: get)

lemma load_command_lines:
  assumes "commands_ok (cf_session_commands d)" "commands_ok (cf_harness_commands d)"
    "cf_session_commands c = []" "cf_harness_commands c = []"
  shows "foldl config_line (Some c) (command_lines d) =
    Some (c\<lparr>cf_session_commands := cf_session_commands d, cf_harness_commands := cf_harness_commands d\<rparr>)"
proof -
  have s: "foldl config_line (Some c) (map (\<lambda>(n, v). ''session.'' @ n @ ''.command '' @ v) (cf_session_commands d)) =
      Some (c\<lparr>cf_session_commands := cf_session_commands d\<rparr>)"
    using load_commands [of "\<lambda>n v. ''session.'' @ n @ ''.command '' @ v" "\<lambda>m c. c\<lparr>cf_session_commands := m\<rparr>" cf_session_commands
        "cf_session_commands d" c] load_session_command assms(1,3)
    by (simp add: commands_ok_def)
  have h: "foldl config_line (Some b) (map (\<lambda>(n, v). ''harness.'' @ n @ '' '' @ v) (cf_harness_commands d)) =
      Some (b\<lparr>cf_harness_commands := cf_harness_commands d\<rparr>)" if "cf_harness_commands b = []" for b
    using load_commands [of "\<lambda>n v. ''harness.'' @ n @ '' '' @ v" "\<lambda>m c. c\<lparr>cf_harness_commands := m\<rparr>" cf_harness_commands
        "cf_harness_commands d" b] load_harness_command assms(2) that
    by (simp add: commands_ok_def)
  have comment: "config_line (Some b) [] = Some b" "config_line (Some b) (heading t n) = Some b" for b t n
    by (simp_all add: config_line_simps(1) heading_def)
  have none: "cf_session_commands d = [] \<Longrightarrow> c = c\<lparr>cf_session_commands := cf_session_commands d\<rparr>"
    "cf_harness_commands d = [] \<Longrightarrow> b\<lparr>cf_harness_commands := cf_harness_commands d\<rparr> = b" if "cf_harness_commands b = []" for b
    using assms(3) that by simp_all
  show ?thesis
    using s h [of c] h [of "c\<lparr>cf_session_commands := cf_session_commands d\<rparr>"] assms(3,4)
    by (cases "cf_session_commands d = []"; cases "cf_harness_commands d = []") (simp_all add: command_lines_def comment)
qed

lemma load_session_lines:
  assumes "config_writable d"
  shows "foldl config_line (Some c) (session_lines d) =
    Some (c\<lparr>cf_scrollback_lines := cf_scrollback_lines d, cf_idle_timeout := cf_idle_timeout d, cf_default_shell := cf_default_shell d,
      cf_terminal := cf_terminal d, cf_allow_forwarded := cf_allow_forwarded d, cf_persistence := cf_persistence d,
      cf_authorized_keys := cf_authorized_keys d\<rparr>)"
  using assms by (simp add: session_lines_def fixed_lines config_key_sessions config_writable_def)

lemma plain_no_LF: "plain_value v \<Longrightarrow> CHR 0x0A \<notin> set v"
  by (simp add: plain_value_def)

lemma heading_no_LF: "CHR 0x0A \<notin> set t \<Longrightarrow> CHR 0x0A \<notin> set (heading t n)"
  by (simp add: heading_def box_def)

lemma fixed_lines_no_LF:
  assumes "config_writable d"
  shows "\<forall>l\<in>set (mesh_lines d @ session_lines d). CHR 0x0A \<notin> set l"
proof -
  have "plain_value (cf_copy_scope d)"
    using assms by (auto simp: config_writable_def config_sane_def plain_value_def blank_def)
  moreover have "CHR 0x0A \<notin> set (cf_upgrade_origin d)" using assms by (auto simp: config_writable_def field_ok_def dest: plain_no_LF)
  ultimately show ?thesis
    using assms plain_no_LF [OF plain_dec_int] plain_no_LF [OF plain_dec_digits] plain_no_LF [OF bool_str_simps(1)]
    by (simp add: mesh_lines_def session_lines_def config_writable_def plain_no_LF)
qed

lemma vfolder_no_LF: "vfolder_ok f \<Longrightarrow> \<forall>l\<in>set (vfolder_lines f). CHR 0x0A \<notin> set l"
  using plain_no_LF [OF plain_dec_int]
  by (auto simp: vfolder_lines_def vfolder_ok_def name_ok_def field_ok_def dest: plain_no_LF)

lemma seed_no_LF: "seed_ok p \<Longrightarrow> CHR 0x0A \<notin> set (peer_line ''seed'' p)"
  using plain_no_LF [OF plain_dec_digits]
  by (auto simp: peer_line_def seed_ok_def dest: token_plain plain_no_LF)

lemma commands_no_LF:
  "commands_ok (cf_session_commands d) \<Longrightarrow> commands_ok (cf_harness_commands d) \<Longrightarrow> \<forall>l\<in>set (command_lines d). CHR 0x0A \<notin> set l"
  by (auto simp: command_lines_def commands_ok_def name_ok_def heading_no_LF dest!: plain_no_LF)

lemma config_lines_no_LF:
  assumes "config_writable d"
  shows "\<forall>l\<in>set (config_lines d). CHR 0x0A \<notin> set l"
proof -
  have parts: "\<forall>l\<in>set (concat (map vfolder_lines (cf_vfolders d))). CHR 0x0A \<notin> set l"
    "\<forall>l\<in>set (map (peer_line ''seed'') (cf_seeds d)). CHR 0x0A \<notin> set l" "\<forall>l\<in>set (command_lines d). CHR 0x0A \<notin> set l"
    using assms vfolder_no_LF seed_no_LF commands_no_LF [of d] by (auto simp: config_writable_def list_all_iff)
  have "CHR 0x0A \<notin> set (cf_node_name d)" "CHR 0x0A \<notin> set (cf_listen_addr d)"
    using assms by (auto simp: config_writable_def dest: plain_no_LF)
  with parts fixed_lines_no_LF [OF assms] plain_no_LF [OF plain_dec_digits] show ?thesis
    by (simp add: config_lines_def heading_no_LF ball_Un del: set_map)
qed

lemma load_header:
  assumes "config_writable d"
  shows "foldl config_line (Some c) [''# bridgesessions mesh config'', ''# Generated '' @ [CHR 0xE2, CHR 0x80, CHR 0x94] @ '' edit with care'', [],
      heading ''Node identity'' 34, ''node.name '' @ cf_node_name d,
      ''node.listen '' @ cf_listen_addr d @ '':'' @ dec_digits (unat (cf_listen_port d)), [], heading ''Mesh settings'' 34] =
    Some (c\<lparr>cf_node_name := cf_node_name d, cf_listen_addr := cf_listen_addr d, cf_listen_port := cf_listen_port d\<rparr>)"
proof -
  have "plain_value (cf_node_name d)" "plain_value (cf_listen_addr d)" "cf_listen_port d \<noteq> 0"
    using assms by (simp_all add: config_writable_def config_sane_def)
  then show ?thesis
    by (simp add: fixed_lines config_key_mesh listen_round_trip config_line_simps(1) heading_def)
qed

lemma load_rest:
  assumes "config_writable c"
  shows "foldl config_line (Some b) ([[], heading ''Session defaults'' 31] @ session_lines c) = foldl config_line (Some b) (session_lines c)"
    "config_line (Some b) [] = Some b" "config_line (Some b) (heading t n) = Some b"
  by (simp_all add: config_line_simps(1) heading_def)

lemma written_config_is_read:
  assumes "config_writable c"
  shows "foldl config_line (Some ((new_config p)\<lparr>cf_source_path := src\<rparr>)) (config_lines c) =
    Some (c\<lparr>cf_source_path := src, cf_seeds := put_seeds [] (cf_seeds c),
      cf_discovered := [], cf_startup_wait := 30, cf_receive_dir := [], cf_retention_hours := 24\<rparr>)"
proof -
  have parts: "list_all vfolder_ok (cf_vfolders c)" "list_all seed_ok (cf_seeds c)" "distinct (map vf_name (cf_vfolders c))"
    "commands_ok (cf_session_commands c)" "commands_ok (cf_harness_commands c)" "cf_render_hint c = ''auto''"
    using assms by (simp_all add: config_writable_def config_sane_def)
  show ?thesis
    unfolding config_lines_def foldl_append load_header [OF assms] load_mesh_lines [OF assms]
    by (simp add: load_vfolders load_seeds load_command_lines load_session_lines [OF assms] load_rest [OF assms] parts new_config_def)
qed

text \<open>A full disk: the end of the file is lost, and \<open>save_config\<close> reports success.\<close>

lemma cut_config_is_reported_saved:
  "save_config (CutAt n) c file = (True, Some (take n (config_text (config_lines c))))"
  by (simp add: save_config_def)

text \<open>C34. A configuration that the file can hold and whose text arrives whole is read back as it was written, up to
  what the file does not carry: the last contact of seeds, the discovered peers, and - although the
  operator sets them in this file - the wait at startup, the receive directory and the retention of
  received files, which are back at their defaults. The file can hold a configuration when
  \<open>config_ok\<close>: its numbers are within the limits of the parser, its names and values have no line
  feed, carriage return or blanks at their ends (names and addresses of seeds no blank at all), seeds,
  virtual folders and commands have distinct names, and the render hint is the default.\<close>

theorem config_round_trip:
  assumes "config_ok c" "save_config AllWritten c file = (True, saved)"
  shows "load_config p home path saved =
    Some (c\<lparr>cf_source_path := config_expand_home home path, cf_seeds := map reset_seen (cf_seeds c),
      cf_discovered := [], cf_startup_wait := 30, cf_receive_dir := [], cf_retention_hours := 24\<rparr>)"
proof -
  have w: "config_writable c" and d: "distinct (map pe_name (cf_seeds c))" using assms(1) by (simp_all add: config_ok_def)
  have "load_config p home path saved = foldl config_line (Some ((new_config p)\<lparr>cf_source_path := config_expand_home home path\<rparr>)) (config_lines c)"
    using assms(2) getlines_config_text [OF config_lines_no_LF [OF w]] by (auto simp: load_config_def save_config_def)
  with written_config_is_read [OF w] put_seeds_distinct [of "[]" "cf_seeds c"] d show ?thesis by simp
qed

lemma config_round_trip_witness:
  "load_config Posix ''/root'' ''/root/.bridgesessions/config''
     (snd (save_config AllWritten ((new_config Posix)\<lparr>cf_receive_dir := ''/data'', cf_retention_hours := 0\<rparr>) None)) =
   Some ((new_config Posix)\<lparr>cf_source_path := ''/root/.bridgesessions/config''\<rparr>)"
proof -
  let ?c = "(new_config Posix)\<lparr>cf_receive_dir := ''/data'', cf_retention_hours := 0\<rparr>"
  have "config_ok ?c"
    by (simp add: config_ok_def config_writable_def config_sane_def new_config_def plain_value_def blank_def int_ok_def field_ok_def
        commands_ok_def ordered_def default_shell_for_platform_def)
  from config_round_trip [OF this, of None "snd (save_config AllWritten ?c None)" Posix "''/root''" "''/root/.bridgesessions/config''"]
  show ?thesis by (simp add: save_config_def new_config_def config_expand_home_def)
qed

lemma loaded_config_is_sane_witness:
  "config_sane ((new_config Posix)\<lparr>cf_source_path := ''/c'', cf_node_name := ''a''\<rparr>)"
proof (rule loaded_config_is_sane)
  show "load_config Posix ''/root'' ''/c'' (Some (''node.name a'' @ [CHR 0x0A] @ ''mesh.ping_interval_secs 5'')) =
      Some ((new_config Posix)\<lparr>cf_source_path := ''/c'', cf_node_name := ''a''\<rparr>)"
    by (simp add: load_config_def getlines_def config_line_def config_entry_def trim_def strip_back_def blank_def config_key_def
        with_int_def parse_int_def is_digit_def digit_val_def code_of_def Let_def config_expand_home_def new_config_def)
qed

section \<open>Joining\<close>

lemma put_seed_cases: "q \<in> set (put_seed p qs) \<Longrightarrow> q \<in> set qs \<or> pe_name q = pe_name p \<and> pe_pubkey_hex q = pe_pubkey_hex p"
  by (induction p qs rule: put_seed.induct) (auto split: if_splits)

lemma put_seed_same:
  "distinct (map pe_name qs) \<Longrightarrow> q \<in> set (put_seed p qs) \<Longrightarrow> pe_name q = pe_name p \<Longrightarrow> pe_pubkey_hex q = pe_pubkey_hex p"
proof (induction p qs rule: put_seed.induct)
  case (2 p r qs)
  have "q \<notin> set qs" if "pe_name r = pe_name p" using 2(2,4) that by (metis distinct.simps(2) imageI list.simps(9) set_map)
  with 2 show ?case by (auto split: if_splits)
qed simp

lemma put_seeds_append: "put_seeds qs (ps @ ps') = put_seeds (put_seeds qs ps) ps'"
  by (simp add: put_seeds_def)

lemma put_seeds_names: "distinct (map pe_name qs) \<Longrightarrow> distinct (map pe_name (put_seeds qs ps))"
  by (induction ps arbitrary: qs) (simp_all add: put_seeds_def put_seed_distinct)

lemma put_seeds_pins:
  assumes "\<And>p. p \<in> set ps \<Longrightarrow> pe_pubkey_hex p = k \<Longrightarrow> pe_name p = h"
    and "\<And>q. q \<in> set qs \<Longrightarrow> pe_pubkey_hex q = k \<Longrightarrow> pe_name q = h"
    and "q \<in> set (put_seeds qs ps)" "pe_pubkey_hex q = k"
  shows "pe_name q = h"
  using assms
proof (induction ps arbitrary: qs)
  case (Cons p ps)
  let ?r = "put_seed (reset_seen p) qs"
  have "pe_name q' = h" if "q' \<in> set ?r" "pe_pubkey_hex q' = k" for q'
    using put_seed_cases [OF that(1)] that(2) Cons.prems(1,2) by (auto simp: reset_seen_def)
  with Cons.IH [of ?r] Cons.prems show ?case by (simp add: put_seeds_def)
qed (simp add: put_seeds_def)

lemma put_seeds_no_pin:
  "k \<notin> pe_pubkey_hex ` set qs \<Longrightarrow> k \<notin> pe_pubkey_hex ` set ps \<Longrightarrow> k \<notin> pe_pubkey_hex ` set (put_seeds qs ps)"
proof (induction ps arbitrary: qs)
  case (Cons p ps)
  have "k \<notin> pe_pubkey_hex ` set (put_seed (reset_seen p) qs)"
    using put_seed_cases [of _ "reset_seen p" qs] Cons.prems by (fastforce simp: reset_seen_def)
  with Cons show ?case by (simp add: put_seeds_def)
qed (simp add: put_seeds_def)

lemma replaced_pin_is_lost:
  assumes "\<And>p. p \<in> set ps \<Longrightarrow> pe_pubkey_hex p = k \<Longrightarrow> pe_name p = pe_name h" "pe_pubkey_hex h \<noteq> k"
    "k \<notin> pe_pubkey_hex ` set ps'"
  shows "k \<notin> pe_pubkey_hex ` set (put_seeds [] (ps @ h # ps'))"
proof -
  let ?s = "put_seeds [] ps"
  have "k \<notin> pe_pubkey_hex ` set (put_seed (reset_seen h) ?s)"
  proof
    assume "k \<in> pe_pubkey_hex ` set (put_seed (reset_seen h) ?s)"
    then obtain q where q: "q \<in> set (put_seed (reset_seen h) ?s)" "pe_pubkey_hex q = k" by blast
    then have "q \<in> set ?s" using put_seed_cases [OF q(1)] assms(2) by (auto simp: reset_seen_def)
    with q(2) have "pe_name q = pe_name h" using put_seeds_pins [of ps k "pe_name h" "[]" q] assms(1) by simp
    then show False using put_seed_same [OF put_seeds_names q(1)] q(2) assms(2) by (simp add: reset_seen_def)
  qed
  from put_seeds_no_pin [OF this assms(3)] show ?thesis by (simp add: put_seeds_append put_seeds_def)
qed

lemma host_seed_fields [simp]: "pe_name (host_seed a b k) = ''host''" "pe_pubkey_hex (host_seed a b k) = k"
  by (simp_all add: host_seed_def)

lemma normal_port_nonempty: "a \<noteq> [] \<Longrightarrow> normal_port a \<noteq> []"
  by (simp add: normal_port_def Let_def split: option.split)

lemma load_saved:
  assumes "config_writable d"
  shows "load_config p home path (snd (save_config AllWritten d file)) =
    Some (d\<lparr>cf_source_path := config_expand_home home path, cf_seeds := put_seeds [] (cf_seeds d),
      cf_discovered := [], cf_startup_wait := 30, cf_receive_dir := [], cf_retention_hours := 24\<rparr>)"
  using written_config_is_read [OF assms] getlines_config_text [OF config_lines_no_LF [OF assms]]
  by (simp add: load_config_def save_config_def)

text \<open>\<open>join\<close> writes the node that was joined as the seed \<open>host\<close> and then the seeds of that node. When one of
  those is itself called \<open>host\<close> - it is, when that node had once joined another one - the second line replaces
  the address and the pin of the first as soon as the file is read: the daemon that is started does not know the
  key of the node it joined.\<close>

theorem chained_join_loses_the_host:
  assumes "d = join_config own join_addr reply_name host_addr host_key entries c"
    and "config_writable d" "(''host'', a, pk) \<in> set entries" "a \<noteq> []" "pk \<noteq> []" "pk \<noteq> host_key"
    and "host_key \<notin> pe_pubkey_hex ` set (cf_seeds c)"
  shows "\<exists>e. load_config p home path (snd (save_config AllWritten d file)) = Some e \<and> host_key \<notin> pe_pubkey_hex ` set (cf_seeds e)"
proof -
  let ?h = "\<lparr>pe_name = ''host'', pe_addr = normal_port a, pe_pubkey_hex = pk, pe_last_seen = 0\<rparr>"
  have "?h \<in> set (reply_seeds host_key entries)"
    using assms(3-6) normal_port_nonempty [of a] by (force simp: reply_seeds_def Let_def)
  then obtain xs ys where r: "reply_seeds host_key entries = xs @ ?h # ys" by (meson split_list)
  have no: "host_key \<notin> pe_pubkey_hex ` set (reply_seeds host_key entries)"
    by (auto simp: reply_seeds_def Let_def split: if_splits)
  let ?ps = "cf_seeds c @ [host_seed join_addr host_addr host_key] @ xs"
  have seeds: "cf_seeds d = ?ps @ ?h # ys" by (simp add: assms(1) join_config_def r)
  have "host_key \<notin> pe_pubkey_hex ` set (put_seeds [] (cf_seeds d))"
    unfolding seeds
  proof (rule replaced_pin_is_lost)
    fix q assume q: "q \<in> set ?ps" "pe_pubkey_hex q = host_key"
    with assms(7) no have "q = host_seed join_addr host_addr host_key" by (auto simp: r)
    then show "pe_name q = pe_name ?h" by simp
  qed (use no assms(6) in \<open>auto simp: r\<close>)
  with load_saved [OF assms(2), of p home path "file"] show ?thesis by simp
qed

lemma chained_join_loses_the_host_witness:
  "\<exists>e. load_config Posix ''/root'' ''/c'' (snd (save_config AllWritten
      (join_config ''c'' ''10.0.0.2:19949'' [] ''0.0.0.0:19949'' ''bb'' [(''host'', ''10.0.0.1:19949'', ''aa'')] (new_config Posix)) None)) = Some e \<and>
    ''bb'' \<notin> pe_pubkey_hex ` set (cf_seeds e)"
proof (rule chained_join_loses_the_host [OF refl, where a = "''10.0.0.1:19949''" and pk = "''aa''"])
  have p: "normal_port ''10.0.0.1:19949'' = ''10.0.0.1:19949''"
    by (simp add: normal_port_def find_last_index_def is_digit_def code_of_def)
  show "config_writable (join_config ''c'' ''10.0.0.2:19949'' [] ''0.0.0.0:19949'' ''bb'' [(''host'', ''10.0.0.1:19949'', ''aa'')] (new_config Posix))"
    by (simp add: config_writable_def config_sane_def join_config_def host_seed_def reply_seeds_def p is_prefix_def new_config_def
        plain_value_def blank_def int_ok_def field_ok_def commands_ok_def ordered_def default_shell_for_platform_def seed_ok_def
        token_def is_space_def code_of_def)
qed (simp_all add: new_config_def)

text \<open>The names in the reply are written as they come: a line feed in one ends the seed line, and the rest of the
  name is a line of its own.\<close>

lemma config_text_append: "config_text (a @ b) = config_text a @ config_text b"
  by (simp add: config_text_def)

lemma config_text_broken: "config_text (a @ [x @ CHR 0x0A # y] @ b) = config_text (a @ [x, y] @ b)"
  by (simp add: config_text_def)

definition lines_before :: "MeshConfig \<Rightarrow> string list" where
  "lines_before c =
     [''# bridgesessions mesh config'', ''# Generated '' @ [CHR 0xE2, CHR 0x80, CHR 0x94] @ '' edit with care'', [],
      heading ''Node identity'' 34, ''node.name '' @ cf_node_name c,
      ''node.listen '' @ cf_listen_addr c @ '':'' @ dec_digits (unat (cf_listen_port c)), [],
      heading ''Mesh settings'' 34] @ mesh_lines c @ concat (map vfolder_lines (cf_vfolders c)) @ [[], heading ''Bootstrap peers'' 32]"

definition lines_after :: "MeshConfig \<Rightarrow> string list" where
  "lines_after c = [[], heading ''Session defaults'' 31] @ session_lines c @ command_lines c"

lemma config_lines_split:
  "config_lines (c\<lparr>cf_seeds := ss\<rparr>) = lines_before c @ map (peer_line ''seed'') ss @ lines_after c"
  by (simp add: config_lines_def lines_before_def lines_after_def mesh_lines_def session_lines_def command_lines_def)

text \<open>C36. The node that is joined can plant a command on the node that joins: with a name that holds a line feed it
  writes a line of the configuration, and the command of that line runs when the named session is started.\<close>

theorem reply_name_plants_a_command:
  assumes "d = join_config own join_addr reply_name host_addr host_key entries (new_config p)"
    and "entries = [(x @ CHR 0x0A # ''session.'' @ n @ ''.command '' @ cmd, a, pk)]"
    and "config_writable (d\<lparr>cf_seeds := [host_seed join_addr host_addr host_key]\<rparr>)"
    and "token x" "n \<noteq> []" "name_ok n" "plain_value cmd" "token (normal_port a)" "a \<noteq> []" "token pk" "pk \<noteq> host_key"
  shows "\<exists>e. load_config q home path (snd (save_config AllWritten d file)) = Some e \<and>
    resolve_session_command (map_of (cf_session_commands e)) (cf_default_shell e) n [] =
      \<lparr>rsc_command = cmd @ '' '' @ normal_port a @ '' pubkey='' @ pk, rsc_source = NamedProfile\<rparr>"
proof -
  let ?h = "host_seed join_addr host_addr host_key" and ?v = "cmd @ '' '' @ normal_port a @ '' pubkey='' @ pk"
  let ?d = "d\<lparr>cf_seeds := [?h]\<rparr>" and ?w = "''session.'' @ n @ ''.command '' @ ?v"
  have np: "a \<noteq> []" "pk \<noteq> []" "normal_port a \<noteq> []" using assms(9,10) normal_port_nonempty by (auto simp: token_def)
  define evil where "evil = \<lparr>pe_name = x @ CHR 0x0A # ''session.'' @ n @ ''.command '' @ cmd, pe_addr = normal_port a, pe_pubkey_hex = pk, pe_last_seen = 0\<rparr>"
  have "cf_seeds d = [?h, evil]" using np assms(11) unfolding assms(1,2) evil_def by (simp add: join_config_def reply_seeds_def new_config_def Let_def)
  then have d: "d = d\<lparr>cf_seeds := [?h, evil]\<rparr>" by simp
  have broken: "peer_line ''seed'' evil = (''seed '' @ x) @ CHR 0x0A # ?w"
    unfolding peer_line_def evil_def using np by simp
  have "config_lines d = (lines_before d @ [peer_line ''seed'' ?h]) @ [(''seed '' @ x) @ CHR 0x0A # ?w] @ lines_after d"
    by (subst d, subst config_lines_split) (simp add: broken)
  then have written: "config_text (config_lines d) = config_text ((lines_before d @ [peer_line ''seed'' ?h]) @ [''seed '' @ x, ?w] @ lines_after d)"
    by (simp only: config_text_broken)
  have v: "plain_value ?v"
    using plain_append [OF assms(7) plain_append [OF token_plain [OF assms(8)] token_plain [OF assms(10)], of "'' pubkey=''"], of "'' ''"] by simp
  have LF: "\<forall>l\<in>set ((lines_before d @ [peer_line ''seed'' ?h]) @ [''seed '' @ x, ?w] @ lines_after d). CHR 0x0A \<notin> set l"
  proof -
    have "\<forall>l\<in>set (lines_before d @ [peer_line ''seed'' ?h] @ lines_after d). CHR 0x0A \<notin> set l"
      using config_lines_no_LF [OF assms(3)] config_lines_split [of "[?h]" d] by simp
    moreover have "CHR 0x0A \<notin> set ?w" using plain_no_LF [OF v] assms(6) by (simp add: name_ok_def)
    moreover have "CHR 0x0A \<notin> set (''seed '' @ x)" using plain_no_LF [OF token_plain [OF assms(4)]] by simp
    ultimately show ?thesis by auto
  qed
  let ?base = "(new_config q)\<lparr>cf_source_path := config_expand_home home path\<rparr>"
  have none: "cf_vfolders d = []" "cf_session_commands d = []" "cf_harness_commands d = []"
    by (simp_all add: assms(1) join_config_def new_config_def)
  have h: "seed_ok ?h" using assms(3) by (simp add: config_writable_def)
  obtain b where before: "foldl config_line (Some ?base) (lines_before d @ [peer_line ''seed'' ?h]) = Some b"
    and cmds: "cf_session_commands b = []"
  proof -
    have same: "lines_before d = lines_before ?d" "cf_vfolders ?d = []" using none by (simp_all add: lines_before_def mesh_lines_def)
    obtain b where b: "foldl config_line (Some ?base) (lines_before ?d) = Some b" "cf_session_commands b = []"
      unfolding lines_before_def same(2) foldl_append load_header [OF assms(3)] load_mesh_lines [OF assms(3)]
      by (simp add: load_rest [OF assms(3)] new_config_def)
    with load_seed [OF h, of b] show ?thesis
      by (intro that [of "b\<lparr>cf_seeds := put_seed (?h\<lparr>pe_last_seen := 0\<rparr>) (cf_seeds b)\<rparr>"]) (simp_all add: same(1))
  qed
  let ?r = "b\<lparr>cf_session_commands := [(n, ?v)]\<rparr>"
  have l1: "config_line (Some b) (''seed '' @ x) = Some b"
    using fixed_lines [OF token_plain [OF assms(4)]] stream_words_token(2) [OF assms(4)]
    by (simp add: config_key_sessions seed_line_def)
  have l2: "config_line (Some b) ?w = Some ?r" using load_session_command [OF assms(5,6) v, of b] cmds by simp
  have same: "lines_after d = [[], heading ''Session defaults'' 31] @ session_lines ?d"
    using none by (simp add: lines_after_def command_lines_def session_lines_def)
  obtain e where e: "foldl config_line (Some ?r) (lines_after d) = Some e" "cf_session_commands e = [(n, ?v)]"
    unfolding same load_rest(1) [OF assms(3)] load_session_lines [OF assms(3)] by simp
  have all: "foldl config_line (Some ?base) ((lines_before d @ [peer_line ''seed'' ?h]) @ [''seed '' @ x, ?w] @ lines_after d) = Some e"
    by (subst foldl_append, subst before, subst foldl_append) (simp only: foldl.simps l1 l2 e(1))
  have "load_config q home path (snd (save_config AllWritten d file)) = Some e"
    using getlines_config_text [OF LF] all by (simp only: load_config_def save_config_def written Let_def snd_conv option.case write_io.distinct written.simps if_False)
  moreover have "resolve_session_command (map_of (cf_session_commands e)) (cf_default_shell e) n [] = \<lparr>rsc_command = ?v, rsc_source = NamedProfile\<rparr>"
    using assms(7) by (simp add: resolve_session_command_def e(2) plain_value_def)
  ultimately show ?thesis by blast
qed

lemma reply_name_plants_a_command_witness:
  "\<exists>e. load_config Posix ''/root'' ''/c'' (snd (save_config AllWritten
      (join_config ''c'' ''10.0.0.2:19949'' [] [] ''bb''
        [(''x'' @ CHR 0x0A # ''session.'' @ ''main'' @ ''.command '' @ ''reboot #'', ''10.0.0.3:19949'', ''cc'')] (new_config Posix)) None)) = Some e \<and>
    resolve_session_command (map_of (cf_session_commands e)) (cf_default_shell e) ''main'' [] =
      \<lparr>rsc_command = ''reboot #'' @ '' '' @ normal_port ''10.0.0.3:19949'' @ '' pubkey='' @ ''cc'', rsc_source = NamedProfile\<rparr>"
proof (rule reply_name_plants_a_command [OF refl refl])
  have p: "normal_port ''10.0.0.3:19949'' = ''10.0.0.3:19949''"
    by (simp add: normal_port_def find_last_index_def is_digit_def code_of_def)
  show "token (normal_port ''10.0.0.3:19949'')" by (simp add: p token_def is_space_def code_of_def)
  show "config_writable ((join_config ''c'' ''10.0.0.2:19949'' [] [] ''bb''
      [(''x'' @ CHR 0x0A # ''session.'' @ ''main'' @ ''.command '' @ ''reboot #'', ''10.0.0.3:19949'', ''cc'')] (new_config Posix))
        \<lparr>cf_seeds := [host_seed ''10.0.0.2:19949'' [] ''bb'']\<rparr>)"
    by (simp add: config_writable_def config_sane_def join_config_def host_seed_def is_prefix_def new_config_def
        plain_value_def blank_def int_ok_def field_ok_def commands_ok_def ordered_def default_shell_for_platform_def seed_ok_def
        token_def is_space_def code_of_def)
qed (simp_all add: token_def is_space_def code_of_def name_ok_def plain_value_def blank_def)

section \<open>Quoting\<close>

text \<open>How a POSIX shell reads a word: single quotes keep everything, a backslash keeps one character, an unquoted
  blank ends the word. The result is the word and the rest of the line.\<close>

fun sh_word :: "bool \<Rightarrow> string \<Rightarrow> (string \<times> string) option" where
  "sh_word True [] = None"
| "sh_word True (c # s) = (if c = CHR 0x27 then sh_word False s else map_option (\<lambda>(w, r). (c # w, r)) (sh_word True s))"
| "sh_word False [] = Some ([], [])"
| "sh_word False (c # s) =
     (if c = CHR 0x27 then sh_word True s
      else if c = CHR 0x5C then (case s of [] \<Rightarrow> None | d # t \<Rightarrow> map_option (\<lambda>(w, r). (d # w, r)) (sh_word False t))
      else if blank c then Some ([], c # s)
      else if c \<in> set ''$`;&|<>()*?[#~\"'' \<or> c = CHR 0x0A then None
      else map_option (\<lambda>(w, r). (c # w, r)) (sh_word False s))"

text \<open>A quoted argument is read back by the shell as exactly that argument, whatever characters it contains,
  and what follows it on the command line is left alone.\<close>

theorem quoted_argument_is_one_word:
  "sh_word False (shell_arg_quote v @ CHR '' '' # rest) = Some (v, CHR '' '' # rest)"
proof -
  have "sh_word True (concat (map (\<lambda>c. if c = CHR 0x27 then [CHR 0x27, CHR 0x5C, CHR 0x27, CHR 0x27] else [c]) v) @
      CHR 0x27 # CHR '' '' # rest) = Some (v, CHR '' '' # rest)"
    by (induction v) simp_all
  then show ?thesis by (simp add: shell_arg_quote_def)
qed

end
