(* ===== verification/Dht.thy ===== *)
theory Dht
  imports Enrollment "HOL-Library.List_Lexorder"
begin

text \<open>
  The routing table of the DHT (bs-mesh-support.h) and the answers to its two queries (bs-mesh-conn.h,
  bs-mesh-transfer.h). SHA-256 is an argument that gives lower-case hexadecimal digits.
\<close>

section \<open>Identifiers\<close>

text \<open>\<open>strtoul\<close> of two characters; on a character that is no digit it stops.\<close>

definition hex_pair :: "char \<Rightarrow> char \<Rightarrow> byte" where
  "hex_pair a b =
     (case nibble a of None \<Rightarrow> 0
      | Some x \<Rightarrow> (case nibble b of None \<Rightarrow> word_of_nat x | Some y \<Rightarrow> word_of_nat (x * 16 + y)))"

definition pubkey_to_node_id :: "(string \<Rightarrow> string) \<Rightarrow> string \<Rightarrow> bytes" where
  "pubkey_to_node_id sha256_hex pubkey =
     (let sha = sha256_hex pubkey in
      map (\<lambda>i. if i * 2 + 1 < length sha then hex_pair (sha ! (i * 2)) (sha ! (i * 2 + 1)) else 0) [0..<32])"

definition byte_zeros :: "byte \<Rightarrow> nat" where
  "byte_zeros d = length (takeWhile (\<lambda>j. \<not> bit d j) [7, 6, 5, 4, 3, 2, 1, 0])"

fun xor_leading_zeros :: "bytes \<Rightarrow> bytes \<Rightarrow> nat" where
  "xor_leading_zeros (a # as) (b # bs) =
     (let d = a XOR b in if d = 0 then 8 + xor_leading_zeros as bs else byte_zeros d)"
| "xor_leading_zeros _ _ = 0"

section \<open>The table\<close>

record DhtPeer =
  dp_name :: string
  dp_addr :: string
  dp_node_id :: bytes
  dp_last_seen :: u64

record DhtNode =
  dt_id :: bytes
  dt_name :: string
  dt_addr :: string
  dt_buckets :: "DhtPeer list list"

definition kBucketSize :: nat where "kBucketSize = 20"
definition kNumBuckets :: nat where "kNumBuckets = 256"

text \<open>The identifier has no value before \<open>init\<close>; here it is zero.\<close>

definition new_dht :: DhtNode where
  "new_dht = \<lparr>dt_id = replicate 32 0, dt_name = [], dt_addr = [], dt_buckets = replicate kNumBuckets []\<rparr>"

definition dht_init :: "(string \<Rightarrow> string) \<Rightarrow> string \<Rightarrow> string \<Rightarrow> string \<Rightarrow> DhtNode \<Rightarrow> DhtNode" where
  "dht_init sha256_hex pubkey name addr D =
     D\<lparr>dt_id := pubkey_to_node_id sha256_hex pubkey, dt_name := name, dt_addr := addr\<rparr>"

definition bucket_index :: "DhtNode \<Rightarrow> bytes \<Rightarrow> nat" where
  "bucket_index D i = min (xor_leading_zeros (dt_id D) i) (kNumBuckets - 1)"

text \<open>A full bucket drops its oldest entry.\<close>

definition push_peer :: "DhtPeer \<Rightarrow> DhtPeer list \<Rightarrow> DhtPeer list" where
  "push_peer p b = (if length b \<ge> kBucketSize then tl b else b) @ [p]"

definition on_bucket :: "nat \<Rightarrow> (DhtPeer list \<Rightarrow> DhtPeer list) \<Rightarrow> DhtNode \<Rightarrow> DhtNode" where
  "on_bucket i f D = D\<lparr>dt_buckets := (dt_buckets D)[i := f (dt_buckets D ! i)]\<rparr>"

definition bootstrap_peer :: "DhtPeer \<Rightarrow> DhtNode \<Rightarrow> DhtNode" where
  "bootstrap_peer s D =
     on_bucket (bucket_index D (dp_node_id s))
       (\<lambda>b. if list_ex (\<lambda>q. dp_node_id q = dp_node_id s) b then b else push_peer s b) D"

definition bootstrap :: "DhtPeer list \<Rightarrow> DhtNode \<Rightarrow> DhtNode" where
  "bootstrap seeds D = fold bootstrap_peer seeds D"

fun refresh_entry :: "DhtPeer \<Rightarrow> DhtPeer list \<Rightarrow> DhtPeer list" where
  "refresh_entry p [] = []"
| "refresh_entry p (q # qs) =
     (if dp_node_id q = dp_node_id p then q\<lparr>dp_last_seen := dp_last_seen p, dp_addr := dp_addr p\<rparr> # qs else q # refresh_entry p qs)"

definition dht_add_peer :: "DhtPeer \<Rightarrow> DhtNode \<Rightarrow> DhtNode" where
  "dht_add_peer p D =
     on_bucket (bucket_index D (dp_node_id p))
       (\<lambda>b. if list_ex (\<lambda>q. dp_node_id q = dp_node_id p) b then refresh_entry p b else push_peer p b) D"

text \<open>The comparison of two distances goes through the bytes from the first on, as the order of lists does.
  Entries at one distance have one identifier, and the table holds an identifier once, so the order that
  \<open>std::sort\<close> leaves open does not occur.\<close>

definition distance_to :: "bytes \<Rightarrow> DhtPeer \<Rightarrow> bytes" where
  "distance_to target p = map2 (XOR) (dp_node_id p) target"

definition find_closest :: "DhtNode \<Rightarrow> bytes \<Rightarrow> nat \<Rightarrow> DhtPeer list" where
  "find_closest D target k = take k (sort_key (distance_to target) (concat (dt_buckets D)))"

section \<open>Queries\<close>

definition dht_peer_info :: "DhtPeer \<Rightarrow> PeerInfo" where
  "dht_peer_info p = \<lparr>pi_name = dp_name p, pi_addr = dp_addr p, pi_pubkey_hex = [], pi_last_seen = dp_last_seen p\<rparr>"

text \<open>The peers of the reply; no frame is sent when there are none.\<close>

definition handle_dht_find_node :: "bool \<Rightarrow> bool \<Rightarrow> DhtNode \<Rightarrow> DhtFindNodeMsg \<Rightarrow> PeerInfo list option" where
  "handle_dht_find_node enabled inited D q =
     (if \<not> enabled \<or> \<not> inited then None
      else let g = map dht_peer_info (find_closest D (dn_target_id q) 20) in if g = [] then None else Some g)"

definition handle_dht_find_value :: "bool \<Rightarrow> bool \<Rightarrow> DhtNode \<Rightarrow> DhtFindValueMsg \<Rightarrow> PeerInfo list option" where
  "handle_dht_find_value enabled inited D q =
     (if \<not> enabled \<or> \<not> inited then None
      else let g = map dht_peer_info (find_closest D (dv_key q) 20) in if g = [] then None else Some g)"

section \<open>The invariant\<close>

definition dht_entries :: "DhtNode \<Rightarrow> DhtPeer list" where
  "dht_entries D = concat (dt_buckets D)"

definition dht_ok :: "DhtNode \<Rightarrow> bool" where
  "dht_ok D \<longleftrightarrow> length (dt_buckets D) = kNumBuckets \<and>
     (\<forall>i<kNumBuckets. length (dt_buckets D ! i) \<le> kBucketSize \<and> distinct (map dp_node_id (dt_buckets D ! i)) \<and>
       (\<forall>p\<in>set (dt_buckets D ! i). bucket_index D (dp_node_id p) = i))"

datatype dht_op = DhtAdd DhtPeer | DhtBootstrap "DhtPeer list"

fun dht_step :: "dht_op \<Rightarrow> DhtNode \<Rightarrow> DhtNode" where
  "dht_step (DhtAdd p) D = dht_add_peer p D"
| "dht_step (DhtBootstrap ps) D = bootstrap ps D"

definition dht_run :: "dht_op list \<Rightarrow> DhtNode \<Rightarrow> DhtNode" where
  "dht_run ops D = fold dht_step ops D"

lemma bucket_index_less: "bucket_index D i < kNumBuckets"
  by (simp add: bucket_index_def kNumBuckets_def)

lemma bucket_index_on_bucket [simp]: "bucket_index (on_bucket i f D) = bucket_index D"
  by (simp add: bucket_index_def on_bucket_def fun_eq_iff)

lemma on_bucket_ok:
  assumes "dht_ok D" "i < kNumBuckets"
    and "length (f (dt_buckets D ! i)) \<le> kBucketSize" "distinct (map dp_node_id (f (dt_buckets D ! i)))"
    and "\<And>p. p \<in> set (f (dt_buckets D ! i)) \<Longrightarrow> bucket_index D (dp_node_id p) = i"
  shows "dht_ok (on_bucket i f D)"
proof -
  have b: "dt_buckets (on_bucket i f D) ! j = (if j = i then f (dt_buckets D ! i) else dt_buckets D ! j)" if "j < kNumBuckets" for j
    using assms(1,2) that by (simp add: on_bucket_def dht_ok_def nth_list_update)
  have "length (dt_buckets (on_bucket i f D)) = kNumBuckets" using assms(1) by (simp add: on_bucket_def dht_ok_def)
  with b assms show ?thesis unfolding dht_ok_def bucket_index_on_bucket by (simp add: dht_ok_def)
qed

lemma push_peer_facts:
  "length b \<le> kBucketSize \<Longrightarrow> length (push_peer p b) \<le> kBucketSize"
  "set (push_peer p b) \<subseteq> insert p (set b)"
  "distinct (map dp_node_id b) \<Longrightarrow> dp_node_id p \<notin> dp_node_id ` set b \<Longrightarrow> distinct (map dp_node_id (push_peer p b))"
  by (cases b; auto simp: push_peer_def kBucketSize_def)+

lemma refresh_entry_ids [simp]: "map dp_node_id (refresh_entry p b) = map dp_node_id b"
  by (induction p b rule: refresh_entry.induct) auto

lemma refresh_entry_bucket: "q \<in> set (refresh_entry p b) \<Longrightarrow> \<exists>r\<in>set b. dp_node_id q = dp_node_id r"
  by (metis image_iff list.set_map refresh_entry_ids)

lemma in_bucket:
  assumes "dht_ok D" "i = bucket_index D (dp_node_id p)"
  shows "length (dt_buckets D ! i) \<le> kBucketSize" "distinct (map dp_node_id (dt_buckets D ! i))"
    "\<And>q. q \<in> set (dt_buckets D ! i) \<Longrightarrow> bucket_index D (dp_node_id q) = i"
  using assms bucket_index_less [of D "dp_node_id p"] by (auto simp: dht_ok_def)

lemma push_ok:
  assumes "dht_ok D" "\<not> list_ex (\<lambda>q. dp_node_id q = dp_node_id p) (dt_buckets D ! bucket_index D (dp_node_id p))"
  shows "dht_ok (on_bucket (bucket_index D (dp_node_id p)) (push_peer p) D)"
proof (rule on_bucket_ok [OF assms(1) bucket_index_less])
  note b = in_bucket [OF assms(1), of "bucket_index D (dp_node_id p)" p, OF refl]
  show "length (push_peer p (dt_buckets D ! bucket_index D (dp_node_id p))) \<le> kBucketSize" using b(1) by (rule push_peer_facts(1))
  show "distinct (map dp_node_id (push_peer p (dt_buckets D ! bucket_index D (dp_node_id p))))"
    using b(2) assms(2) by (intro push_peer_facts(3)) (auto simp: list_ex_iff)
  show "bucket_index D (dp_node_id q) = bucket_index D (dp_node_id p)"
    if "q \<in> set (push_peer p (dt_buckets D ! bucket_index D (dp_node_id p)))" for q
    using that b(3) push_peer_facts(2) by blast
qed

lemma on_bucket_cong: "f (dt_buckets D ! i) = g (dt_buckets D ! i) \<Longrightarrow> on_bucket i f D = on_bucket i g D"
  by (simp add: on_bucket_def)

lemma bootstrap_peer_ok: "dht_ok D \<Longrightarrow> dht_ok (bootstrap_peer p D)"
proof (cases "list_ex (\<lambda>q. dp_node_id q = dp_node_id p) (dt_buckets D ! bucket_index D (dp_node_id p))")
  case True
  then have "bootstrap_peer p D = D" by (simp add: bootstrap_peer_def on_bucket_def)
  then show "dht_ok D \<Longrightarrow> ?thesis" by simp
next
  case False
  then have "bootstrap_peer p D = on_bucket (bucket_index D (dp_node_id p)) (push_peer p) D"
    unfolding bootstrap_peer_def by (intro on_bucket_cong) simp
  then show "dht_ok D \<Longrightarrow> ?thesis" using push_ok [OF _ False] by simp
qed

lemma add_peer_ok: "dht_ok D \<Longrightarrow> dht_ok (dht_add_peer p D)"
proof (cases "list_ex (\<lambda>q. dp_node_id q = dp_node_id p) (dt_buckets D ! bucket_index D (dp_node_id p))")
  case True
  then have "dht_add_peer p D = on_bucket (bucket_index D (dp_node_id p)) (refresh_entry p) D"
    unfolding dht_add_peer_def by (intro on_bucket_cong) simp
  moreover assume D: "dht_ok D"
  note b = in_bucket [OF D, of "bucket_index D (dp_node_id p)" p, OF refl]
  have "length (refresh_entry p bk) = length bk" for bk by (metis length_map refresh_entry_ids)
  then have "dht_ok (on_bucket (bucket_index D (dp_node_id p)) (refresh_entry p) D)"
    using b refresh_entry_bucket by (intro on_bucket_ok [OF D bucket_index_less]) (auto dest: refresh_entry_bucket)
  ultimately show ?thesis by simp
next
  case False
  then have "dht_add_peer p D = on_bucket (bucket_index D (dp_node_id p)) (push_peer p) D"
    unfolding dht_add_peer_def by (intro on_bucket_cong) simp
  then show "dht_ok D \<Longrightarrow> ?thesis" using push_ok [OF _ False] by simp
qed

lemma dht_run_ok: "dht_ok D \<Longrightarrow> dht_ok (dht_run ops D)"
proof (induction ops arbitrary: D)
  case (Cons op ops)
  have "dht_ok (fold bootstrap_peer ps E)" if "dht_ok E" for ps E
    using that by (induction ps arbitrary: E) (simp_all add: bootstrap_peer_ok)
  then have "dht_ok (dht_step op D)" using Cons.prems by (cases op) (simp_all add: add_peer_ok bootstrap_def)
  from Cons.IH [OF this] show ?case by (simp add: dht_run_def)
qed (simp add: dht_run_def)

lemma new_dht_ok: "dht_ok (dht_init sha pk name addr new_dht)"
  by (simp add: dht_ok_def dht_init_def new_dht_def)

lemma distinct_buckets:
  "\<forall>i<length bs. distinct (map g (bs ! i)) \<and> (\<forall>x\<in>set (bs ! i). f (g x) = i + n) \<Longrightarrow>
    distinct (map g (concat bs)) \<and> (\<forall>x\<in>set (concat bs). n \<le> f (g x))"
proof (induction bs arbitrary: n)
  case (Cons b bs)
  have b: "distinct (map g b)" "\<forall>x\<in>set b. f (g x) = n" using Cons.prems by (auto dest: spec [of _ 0])
  have "\<forall>i<length bs. distinct (map g (bs ! i)) \<and> (\<forall>x\<in>set (bs ! i). f (g x) = i + Suc n)"
    using Cons.prems by (auto dest: spec [of _ "Suc _"])
  from Cons.IH [OF this] have t: "distinct (map g (concat bs))" "\<forall>x\<in>set (concat bs). Suc n \<le> f (g x)" by blast+
  have "g ` set b \<inter> g ` set (concat bs) = {}" using b(2) t(2) by fastforce
  moreover have "\<forall>x\<in>set (concat bs). n \<le> f (g x)" using t(2) Suc_leD by blast
  ultimately show ?case using b t(1) by (simp del: set_concat add: ball_Un)
qed simp

lemma entries_distinct: "dht_ok D \<Longrightarrow> distinct (map dp_node_id (dht_entries D))"
  using distinct_buckets [of "dt_buckets D" dp_node_id "bucket_index D" 0] by (simp add: dht_ok_def dht_entries_def)

section \<open>Properties\<close>

text \<open>C37. The table stays a table: whatever peers are announced, there are 256 buckets of at most twenty entries, each
  entry is in the bucket of its distance to this node, and no identifier is stored twice.\<close>

theorem dht_table_is_bounded:
  assumes "D = dht_run ops (dht_init sha pk name addr new_dht)"
  shows "length (dt_buckets D) = 256 \<and> (\<forall>b\<in>set (dt_buckets D). length b \<le> 20) \<and> distinct (map dp_node_id (concat (dt_buckets D))) \<and>
    (\<forall>i<256. \<forall>p\<in>set (dt_buckets D ! i). min (xor_leading_zeros (dt_id D) (dp_node_id p)) 255 = i)"
proof -
  have ok: "dht_ok D" unfolding assms by (intro dht_run_ok new_dht_ok)
  then show ?thesis using entries_distinct [OF ok]
    by (auto simp: dht_ok_def dht_entries_def kNumBuckets_def kBucketSize_def bucket_index_def in_set_conv_nth)
qed

lemma dht_table_is_bounded_witness:
  "length (dt_buckets (dht_run [DhtAdd \<lparr>dp_name = ''a'', dp_addr = [], dp_node_id = [1], dp_last_seen = 0\<rparr>]
     (dht_init (\<lambda>k. []) [] [] [] new_dht))) = 256"
  by (rule dht_table_is_bounded [OF refl, THEN conjunct1])

text \<open>The metric of Kademlia: the exclusive or of two identifiers, read as numbers with the most significant byte
  first.\<close>

fun id_number :: "bytes \<Rightarrow> nat" where
  "id_number [] = 0"
| "id_number (b # bs) = unat b * 256 ^ length bs + id_number bs"

definition xor_metric :: "bytes \<Rightarrow> bytes \<Rightarrow> nat" where
  "xor_metric a b = id_number a XOR id_number b"

lemma id_number_less: "id_number bs < 256 ^ length bs"
proof (induction bs)
  case (Cons b bs)
  have "unat b + 1 \<le> 256" using unsigned_less [of b, where ?'a = nat] by simp
  then have "(unat b + 1) * 256 ^ length bs \<le> 256 * 256 ^ length bs" by (rule mult_le_mono1)
  then have "unat b * 256 ^ length bs + 256 ^ length bs \<le> 256 * 256 ^ length bs" by (simp only: add_mult_distrib mult_1)
  with Cons show ?case unfolding id_number.simps length_Cons power_Suc by linarith
qed simp

lemma add_is_xor: "y < 2 ^ n \<Longrightarrow> x * 2 ^ n + y = push_bit n x XOR (y::nat)"
proof -
  assume y: "y < 2 ^ n"
  have t: "take_bit n y = y" using y by (simp add: take_bit_nat_eq_self)
  have "push_bit n x AND take_bit n y = 0" by (auto simp: bit_eq_iff bit_simps)
  then have "push_bit n x AND y = 0" by (simp only: t)
  from disjunctive_add_eq_xor [OF this] show ?thesis by (simp add: push_bit_eq_mult)
qed

lemma id_number_xor: "length as = length bs \<Longrightarrow> id_number (map2 (XOR) as bs) = xor_metric as bs"
proof (induction as bs rule: list_induct2)
  case (Cons a as b bs)
  let ?n = "8 * length bs"
  have n: "(256::nat) ^ length bs = 2 ^ ?n" by (simp add: power_mult)
  have less: "id_number as < 2 ^ ?n" "id_number bs < 2 ^ ?n" "id_number (map2 (XOR) as bs) < 2 ^ ?n"
    using id_number_less [of as] id_number_less [of bs] id_number_less [of "map2 (XOR) as bs"] Cons.hyps n by simp_all
  have "id_number (map2 (XOR) (a # as) (b # bs)) = push_bit ?n (unat a XOR unat b) XOR (id_number as XOR id_number bs)"
    using add_is_xor [OF less(3), of "unat a XOR unat b"] Cons n by (simp add: unsigned_xor_eq xor_metric_def)
  also have "\<dots> = (push_bit ?n (unat a) XOR id_number as) XOR (push_bit ?n (unat b) XOR id_number bs)"
    by (simp add: bit_eq_iff bit_simps) blast
  also have "\<dots> = xor_metric (a # as) (b # bs)"
    using add_is_xor [OF less(1), of "unat a"] add_is_xor [OF less(2), of "unat b"] Cons.hyps n by (simp add: xor_metric_def)
  finally show ?case .
qed (simp add: xor_metric_def)

lemma id_number_order: "length as = length bs \<Longrightarrow> as < bs \<longleftrightarrow> id_number as < id_number bs"
proof (induction as bs rule: list_induct2)
  case (Cons a as b bs)
  have bounds: "id_number as < 256 ^ length bs" "id_number bs < 256 ^ length bs"
    using id_number_less [of as] id_number_less [of bs] Cons.hyps by simp_all
  have "id_number (a # as) < id_number (b # bs)" if "unat a < unat b"
  proof -
    have "(unat a + 1) * 256 ^ length bs \<le> unat b * 256 ^ length bs" using that by (intro mult_le_mono1) simp
    with bounds(1) Cons.hyps show ?thesis by simp
  qed
  moreover have "\<not> id_number (a # as) < id_number (b # bs)" if "unat b < unat a"
  proof -
    have "(unat b + 1) * 256 ^ length bs \<le> unat a * 256 ^ length bs" using that by (intro mult_le_mono1) simp
    with bounds(2) Cons.hyps show ?thesis by simp
  qed
  ultimately show ?case using Cons by (cases "unat a" "unat b" rule: linorder_cases) (auto simp: word_less_nat_alt dest: word_unat_eq_iff [THEN iffD2])
qed simp

text \<open>Every announced peer has an identifier of 32 bytes, the type of identifiers in the code.\<close>

definition sized :: "DhtPeer \<Rightarrow> bool" where
  "sized p \<longleftrightarrow> length (dp_node_id p) = 32"

fun sized_op :: "dht_op \<Rightarrow> bool" where
  "sized_op (DhtAdd p) \<longleftrightarrow> sized p"
| "sized_op (DhtBootstrap ps) \<longleftrightarrow> list_all sized ps"

lemma on_bucket_entries:
  "p \<in> set (dht_entries (on_bucket i f D)) \<Longrightarrow> p \<in> set (dht_entries D) \<or> p \<in> set (f (dt_buckets D ! i))"
  by (auto simp: dht_entries_def on_bucket_def dest: set_update_subset_insert [THEN subsetD])

lemma bucket_entries: "i < length (dt_buckets D) \<Longrightarrow> p \<in> set (dt_buckets D ! i) \<Longrightarrow> p \<in> set (dht_entries D)"
  by (auto simp: dht_entries_def)

lemma add_entries_sized:
  assumes "dht_ok D" "list_all sized (dht_entries D)" "sized p"
  shows "list_all sized (dht_entries (dht_add_peer p D))" "list_all sized (dht_entries (bootstrap_peer p D))"
proof -
  let ?i = "bucket_index D (dp_node_id p)" and ?b = "dt_buckets D ! bucket_index D (dp_node_id p)"
  have i: "?i < length (dt_buckets D)" using assms(1) bucket_index_less [of D "dp_node_id p"] by (simp add: dht_ok_def)
  have b: "sized q" if "q \<in> set ?b" for q using assms(2) bucket_entries [OF i that] by (simp add: list_all_iff)
  have push: "sized q" if "q \<in> set (push_peer p ?b)" for q
    using that b assms(3) push_peer_facts(2) [of p ?b] by blast
  have refresh: "sized q" if "q \<in> set (refresh_entry p ?b)" for q
    using refresh_entry_bucket [OF that] b by (auto simp: sized_def)
  show "list_all sized (dht_entries (dht_add_peer p D))"
    using assms(2) push refresh unfolding dht_add_peer_def list_all_iff
    by (auto dest!: on_bucket_entries split: if_splits)
  show "list_all sized (dht_entries (bootstrap_peer p D))"
    using assms(2) push b unfolding bootstrap_peer_def list_all_iff
    by (auto dest!: on_bucket_entries split: if_splits)
qed

lemma run_entries_sized:
  assumes "dht_ok D" "list_all sized (dht_entries D)" "list_all sized_op ops"
  shows "list_all sized (dht_entries (dht_run ops D))"
  using assms
proof (induction ops arbitrary: D)
  case (Cons op ops)
  have boot: "dht_ok (fold bootstrap_peer ps E) \<and> list_all sized (dht_entries (fold bootstrap_peer ps E))"
    if "dht_ok E" "list_all sized (dht_entries E)" "list_all sized ps" for ps E
    using that by (induction ps arbitrary: E) (simp_all add: bootstrap_peer_ok add_entries_sized)
  have "dht_ok (dht_step op D) \<and> list_all sized (dht_entries (dht_step op D))"
    using Cons.prems boot [of D] by (cases op) (simp_all add: add_peer_ok add_entries_sized bootstrap_def)
  with Cons.IH [of "dht_step op D"] Cons.prems(3) show ?case by (simp add: dht_run_def)
qed (simp add: dht_run_def)

lemma find_closest_sorted:
  assumes "D = dht_run ops (dht_init sha pk name addr new_dht)" "ps = find_closest D target k"
  shows "length ps = min k (length (dht_entries D))" "set ps \<subseteq> set (dht_entries D)" "distinct ps"
    "sorted (map (distance_to target) ps)"
    "\<forall>p\<in>set ps. \<forall>q\<in>set (dht_entries D) - set ps. distance_to target p \<le> distance_to target q"
proof -
  let ?s = "sort_key (distance_to target) (dht_entries D)"
  have ok: "dht_ok D" unfolding assms by (intro dht_run_ok new_dht_ok)
  have "distinct (dht_entries D)" using entries_distinct [OF ok] unfolding distinct_map by (rule conjunct1)
  then have d: "distinct ?s" by simp
  have ps: "ps = take k ?s" using assms(2) by (simp add: find_closest_def dht_entries_def)
  have split: "?s = ps @ drop k ?s" by (simp add: ps)
  have "sorted (map (distance_to target) (ps @ drop k ?s))" using sorted_sort_key [of "distance_to target"] split by metis
  then have sorted: "sorted (map (distance_to target) ps)"
    "\<forall>p\<in>set ps. \<forall>q\<in>set (drop k ?s). distance_to target p \<le> distance_to target q"
    by (auto simp: sorted_append)
  have u: "set (dht_entries D) = set ps \<union> set (drop k ?s)" using split by (metis set_append set_sort)
  show "length ps = min k (length (dht_entries D))" by (simp add: ps)
  show "set ps \<subseteq> set (dht_entries D)" using u by blast
  show "distinct ps" using d by (simp add: ps)
  show "sorted (map (distance_to target) ps)" by (rule sorted(1))
  show "\<forall>p\<in>set ps. \<forall>q\<in>set (dht_entries D) - set ps. distance_to target p \<le> distance_to target q" using sorted(2) u by blast
qed

lemma distance_number:
  assumes "sized p" "length target = 32"
  shows "id_number (distance_to target p) = xor_metric (dp_node_id p) target" "length (distance_to target p) = 32"
  using assms by (simp_all add: distance_to_def sized_def id_number_xor)

lemma distance_order:
  assumes "sized p" "sized q" "length target = 32" "distance_to target p \<le> distance_to target q"
  shows "xor_metric (dp_node_id p) target \<le> xor_metric (dp_node_id q) target"
proof -
  note n = distance_number [OF assms(1,3)] distance_number [OF assms(2,3)]
  from assms(4) consider "distance_to target p < distance_to target q" | "distance_to target p = distance_to target q"
    by (auto simp: order_le_less)
  then show ?thesis
  proof cases
    case 1
    with id_number_order [of "distance_to target p" "distance_to target q"] n show ?thesis by simp
  next
    case 2
    with n show ?thesis by simp
  qed
qed

text \<open>C38. A query returns the closest peers in the metric of Kademlia, the exclusive or of the identifiers as 256-bit
  numbers: at most \<open>k\<close> peers and fewer only if the table has no more, each once, in order of increasing
  distance, and no peer of the table that is left out is closer than one that is returned. The table is
  any that additions and bootstraps of peers with identifiers of 32 bytes lead to.\<close>

theorem dht_finds_closest:
  assumes "D = dht_run ops (dht_init sha pk name addr new_dht)" "list_all sized_op ops" "length target = 32"
    and "ps = find_closest D target k"
  shows "length ps = min k (length (concat (dt_buckets D))) \<and> set ps \<subseteq> set (concat (dt_buckets D)) \<and> distinct ps \<and>
    sorted (map (\<lambda>p. xor_metric (dp_node_id p) target) ps) \<and>
    (\<forall>p\<in>set ps. \<forall>q\<in>set (concat (dt_buckets D)) - set ps.
       xor_metric (dp_node_id p) target \<le> xor_metric (dp_node_id q) target)"
proof -
  note f = find_closest_sorted [OF assms(1,4)]
  have "dht_entries (dht_init sha pk name addr new_dht) = []" by (simp add: dht_entries_def dht_init_def new_dht_def)
  then have "list_all sized (dht_entries D)" unfolding assms(1) by (intro run_entries_sized new_dht_ok assms(2)) simp
  then have sz: "sized p" if "p \<in> set (dht_entries D)" for p using that by (simp add: list_all_iff)
  note order = distance_order [OF sz sz assms(3)]
  have "sorted (map (\<lambda>p. xor_metric (dp_node_id p) target) ps)"
    using f(2,4) order unfolding sorted_map by (rule_tac sorted_wrt_mono_rel [of ps]) auto
  moreover have "\<forall>p\<in>set ps. \<forall>q\<in>set (dht_entries D) - set ps. xor_metric (dp_node_id p) target \<le> xor_metric (dp_node_id q) target"
    using f(2,5) order by (meson DiffD1 subsetD)
  ultimately show ?thesis using f(1-3) by (simp add: dht_entries_def)
qed

lemma dht_finds_closest_witness:
  "sorted (map (\<lambda>p. xor_metric (dp_node_id p) (replicate 32 2))
     (find_closest (dht_run [DhtAdd \<lparr>dp_name = ''a'', dp_addr = [], dp_node_id = replicate 32 1, dp_last_seen = 0\<rparr>,
                             DhtAdd \<lparr>dp_name = ''b'', dp_addr = [], dp_node_id = replicate 32 3, dp_last_seen = 0\<rparr>]
        (dht_init (\<lambda>k. []) [] [] [] new_dht)) (replicate 32 2) 1))"
  by (rule dht_finds_closest [OF refl _ _ refl, THEN conjunct2, THEN conjunct2, THEN conjunct2, THEN conjunct1])
    (simp_all add: sized_def)

lemma byte_zeros_bounds: "d \<noteq> 0 \<Longrightarrow> byte_zeros d < 8 \<and> 2 ^ (7 - byte_zeros d) \<le> unat d \<and> unat d < 2 ^ (8 - byte_zeros d)"
proof -
  have a: "\<forall>d\<in>set (map word_of_nat [1..<256]) . byte_zeros d < 8 \<and> 2 ^ (7 - byte_zeros d) \<le> unat d \<and> unat d < 2 ^ (8 - byte_zeros d)"
    by code_simp
  assume "d \<noteq> 0"
  then have "unat d \<in> set [1..<256]" using unsigned_less [of d] by (simp add: unat_gt_0 Suc_le_eq)
  then have "word_of_nat (unat d) \<in> set (map (word_of_nat :: nat \<Rightarrow> byte) [1..<256])" unfolding set_map by (rule imageI)
  then have "d \<in> set (map (word_of_nat :: nat \<Rightarrow> byte) [1..<256])" by simp
  with a show ?thesis by (rule bspec)
qed

lemma byte_zeros_less: "d \<noteq> 0 \<Longrightarrow> e \<noteq> 0 \<Longrightarrow> byte_zeros d > byte_zeros e \<Longrightarrow> d < e"
proof -
  assume d: "d \<noteq> 0" and e: "e \<noteq> 0" and l: "byte_zeros d > byte_zeros e"
  have "(2::nat) ^ (8 - byte_zeros d) \<le> 2 ^ (7 - byte_zeros e)" using l by (intro power_increasing) auto
  then have "unat d < unat e" using byte_zeros_bounds [OF d] byte_zeros_bounds [OF e] by linarith
  then show "d < e" by (simp add: word_less_nat_alt)
qed

lemma prefix_is_closer:
  "length a = length t \<Longrightarrow> length b = length t \<Longrightarrow> xor_leading_zeros t a > xor_leading_zeros t b \<Longrightarrow>
    map2 (XOR) a t < map2 (XOR) b t"
proof (induction t arbitrary: a b)
  case (Cons x t)
  obtain y a' z b' where ab: "a = y # a'" "b = z # b'" using Cons.prems(1,2) by (cases a; cases b) auto
  note c = xor.commute [of y x] xor.commute [of z x]
  show ?case
  proof (cases "x XOR z = 0")
    case True
    then have "x XOR y = 0" using Cons.prems(3) byte_zeros_bounds [of "x XOR y"]
      by (auto simp: ab Let_def split: if_splits)
    with True Cons show ?thesis by (simp add: ab c)
  next
    case False
    then have "x XOR y < x XOR z" using Cons.prems(3) byte_zeros_less [of "x XOR y" "x XOR z"]
      by (cases "x XOR y = 0") (auto simp: ab Let_def word_gt_0 split: if_splits)
    then show ?thesis by (simp add: ab c)
  qed
qed simp

text \<open>Closer means a longer common prefix: of two peers, the one whose identifier shares more leading bits with the
  target is at the smaller distance, so the order of the answers agrees with the bits that choose the buckets.\<close>

theorem longer_prefix_is_closer:
  assumes "length (dp_node_id p) = length target" "length (dp_node_id q) = length target"
    and "xor_leading_zeros target (dp_node_id q) < xor_leading_zeros target (dp_node_id p)"
  shows "distance_to target p < distance_to target q"
  using assms by (simp add: distance_to_def prefix_is_closer)

lemma longer_prefix_is_closer_witness:
  "distance_to [4, 7] \<lparr>dp_name = ''a'', dp_addr = [], dp_node_id = [4, 1], dp_last_seen = 0\<rparr> <
   distance_to [4, 7] \<lparr>dp_name = ''b'', dp_addr = [], dp_node_id = [5, 7], dp_last_seen = 0\<rparr>"
  by (rule longer_prefix_is_closer; code_simp)

lemma keyless_peers_are_skipped:
  "\<forall>p\<in>set ps. pi_pubkey_hex p = [] \<Longrightarrow> foldl (\<lambda>cS p. merge_peer now p cS) (c, S) ps = (c, S)"
  by (induction ps) (simp_all add: merge_peer_def)

text \<open>The answer to a query teaches the asker nothing: the peers of the answer carry no key, and the merge of
  announced peers skips an entry without a key, so the state of the asker is what it was.\<close>

theorem dht_reply_teaches_nothing:
  assumes "handle_dht_find_node enabled inited D q = Some ps \<or> handle_dht_find_value enabled inited D v = Some ps"
  shows "merge_peers now ps S = S"
proof -
  have "\<forall>p\<in>set ps. pi_pubkey_hex p = []"
    using assms by (auto simp: handle_dht_find_node_def handle_dht_find_value_def Let_def dht_peer_info_def split: if_splits)
  then show ?thesis by (simp add: merge_peers_def keyless_peers_are_skipped)
qed

lemma dht_reply_teaches_nothing_witness:
  "\<forall>now S. merge_peers now (the (handle_dht_find_node True True
      (dht_add_peer \<lparr>dp_name = ''a'', dp_addr = ''h'', dp_node_id = [1], dp_last_seen = 5\<rparr> new_dht) \<lparr>dn_target_id = [1], dn_sender_name = []\<rparr>)) S = S"
  (is "\<forall>now S. merge_peers now (the ?r) S = S")
proof (intro allI)
  fix now S
  have "?r = Some [\<lparr>pi_name = ''a'', pi_addr = ''h'', pi_pubkey_hex = [], pi_last_seen = 5\<rparr>]" by code_simp
  then have "?r = Some (the ?r)" by simp
  then show "merge_peers now (the ?r) S = S" by (intro dht_reply_teaches_nothing disjI1)
qed

end
