(* ===== verification/Spec2Isabelle.thy ===== *)
theory Spec2Isabelle
  imports Frame Versions File_Receive Ring_Buffer Terminal_Text Sync_Pair Session_Worker_Props Output_Queue
    Connections_Props Handshake_Props Config_Props Dht
begin

text \<open>
  BridgeSessions: a verification library of the core of the BridgeSessions daemon (src/*.h, C++ 23).

  The program is one executable that is a mesh daemon, its command line and the worker process of a
  terminal session. Daemons speak frames over TLS; a frame carries one of 42 messages. A daemon
  keeps sessions (terminals with a process behind them), to which connections attach; it sends and
  receives files, and keeps directory pairs in sync. The library models the POSIX build.

  Theories and the code they translate

    Prelude           strings, bytes, decimal numbers, the result type shared by all
    Wire              Serializer and Decoder of bs-codec.h: big-endian numbers, prefixed strings
    Messages          the message structs and their variant (bs-codec.h)
    Serializer        serialize of every message (bs-codec.h)
    Decoder           decode_payload and the decoders of every message (bs-codec.h)
    Framing           the locale of a framed byte stream: cutting a stream into reads is invisible
    Frame             encode and decode (bs-codec.h), the frame readers and the non-blocking reader
                      and writer (bs-tls.h); interprets Framing
    Versions          version tags, their order, capabilities, durations (bs-codec.h)
    Text_Guards       names, tokens, redaction, sensitive paths (bs-codec.h)
    Paths             file names and destinations of received files (bs-config.h)
    Bounded_Log       the locale of a log that keeps its newest entries
    File_Transfer     chunk sizes and checks, the local response reader, telemetry (bs-codec.h);
                      interprets Bounded_Log
    File_Receive      handle_file_meta and handle_file_chunk (bs-mesh-transfer.h) on a file system
    Ring_Buffer       the scrollback (bs-session.h)
    Base64            both codecs (bs-mesh-support.h, bs-osc52.h)
    Terminal_Text     escape, mode and clipboard sequences (bs-osc52.h)
    Sorted_Map        ordered association lists with the laws of a map, as a locale with its
                      interpretation
    Sync_Pair         bs-sync-pair.h and the sync commands of main.cpp
    Sessions          struct Session (bs-session.h)
    Worker_Wire       the protocol between daemon and session worker (bs-session-worker.h, bs-pty.h);
                      interprets Framing
    Session_Io        input to and output from a session (bs-mesh-transfer.h, bs-cua-dispatch.h)
    Output_Queue      the queues of a connection (bs-mesh-transfer.h, bs-mesh-conn.h)
    Registry          the session registry (bs-session-registry.h) with spawning (bs-pty.h)
    Registry_Inv      its invariant and the operations' preservation of it; interprets Bounded_Log
    Registry_Ops      the registry as a transition system; the targets of its signals (a single
                      process, or the group of a child)
    Registry_Props    its properties
    Connections       the daemon: the session messages of handle_inbound_session, the poller of the
                      output, the drain of the input queues and the watchdog check_stale_exec over
                      registry and connections (bs-mesh-transfer.h, bs-mesh-cli.h)
    Connections_Inv   the daemon's invariant over connections and registry
    Connections_Props its properties, among them that the registry stays well formed and that every
                      signal is aimed, over all events of the daemon
    Session_Worker    the event loop of the session worker (run_session_worker_posix of
                      bs-session-worker.h)
    Session_Worker_Inv    what its passes keep of every client's stream
    Session_Worker_Props  its properties, joined with the daemon's side
    Peer_Names        PeerEntry, equality of names, the edit distance (bs-config.h) and resolve_peer
                      (bs-mesh-cli.h)
    Trust             authorized_keys and the certificate callbacks (bs-tls.h), the identity checks of
                      a Hello (bs-config.h), is_trusted_pubkey (bs-mesh-conn.h)
    Enrollment        invites, the join window, join requests, signed enrollments, the merge of
                      announced peers (bs-mesh-transfer.h, bs-mesh-conn.h)
    Enrollment_Props  its properties
    Peering           links, duplicates, the tie break of dials, backoff, cooldown, the heartbeat
                      (bs-mesh-conn.h, bs-mesh-transfer.h)
    Peering_Props     its properties
    Handshake         accept_inbound, advance_handshakes, promote_handshake_to_conn and the automatic
                      upgrade (bs-mesh-conn.h)
    Handshake_Props   its properties
    Config            the configuration file: load_config, save_config, aliases, join (bs-config.h,
                      main.cpp)
    Config_Props      its properties
    Dht               the routing table of the DHT and its queries (bs-mesh-support.h, bs-mesh-conn.h,
                      bs-mesh-transfer.h), with its properties

  How the model stands to the code

  A C++ struct is a record with the source's fields, an enumeration a datatype, a sized integer a
  word, size_t and file sizes a natural number where they cannot wrap. An exception or an error
  return is the left side of a sum or None. A pointer from a connection to a session is the name of
  the session's entry, because entries stay in place. Loops over a buffer are recursive functions
  with a measure; no definition takes fuel except free_name of File_Receive, whose bound exceeds
  twice the number of existing entries, so that one of the names it tries is free, and try_ids of
  Sync_Pair, whose theorem shows that it finds an identifier.

  Everything outside the program is a parameter: what OpenSSL and the sockets answer are lists of
  events, zstd is a record of functions with its documented round trip as a named hypothesis, SHA-256
  a function, the file system a record of files and directories, and system calls and clocks are
  fields of an environment. Hypotheses on them state documented behaviour, such as that forkpty
  gives the parent a positive process identifier (env_ok).

  Failing writes are such answers too. A close that loses the buffered end of a received file
  (io_lost of File_Receive) and a file that cannot be opened or is cut while it is written (write_io of
  Trust, for authorized_keys and the configuration file) are cases of the model, because the code
  does not look at them.

  What the lemmas show

  Codec: what is serialized within the wire's limits is decoded to the same message; a stream of
  frames is delivered whole and in order however it is cut. Transfers: a received file is published
  only when it is complete and, where a digest was declared, has it; the exception is a close that
  loses the end, which the code does not see. Sessions: the registry stays well formed under every
  sequence of the daemon's events, every kill goes to one process or to the group of one child, no
  connection points to an erased session, input reaches a terminal in order, and the wire of a slow
  connection carries whole frames. Sync: applying a manifest converges. Membership: an invite is
  redeemed once, keys are authorized only by tokens and enrollments of pinned issuers where the
  lines of authorized_keys end and its writes succeed, announcements add only trusted peers. Links: after the scan for duplicates one link per peer is left and both ends
  keep the same one (links that are busy apart), the wait for the other side's dial ends, dials respect
  backoff and cooldown. Handshakes: a link carries the key of the certificate its socket's TLS
  handshake ended with, and of the pin it was dialled for; an unknown peer is promoted only with a
  token, their number is bounded. Configuration: a sane configuration that is saved is loaded again,
  whatever is loaded is within its bounds. DHT: the table stays bounded and answers with the closest
  peers. Some properties state what the code does where
  a comment or the evident intent says otherwise.

  Not modelled

  The command line and its local text protocol, the user interfaces, computer use, image encoding,
  logging, service upgrade, the Windows build, what OpenSSL does inside a TLS handshake, X.509 and
  ed25519, the blocking connector of the command line (connect_to_peer_impl), and the concurrency
  of background transfer threads, which own a connection exclusively while it is marked busy.
\<close>

end
